(* ===== verification/Prelude.thy ===== *)
theory Prelude
  imports Main "HOL-Library.AList" "HOL-Library.List_Lexorder" "HOL-Library.Char_ord" "HOL-Library.Sublist" "HOL-Library.Multiset"
begin

text \<open>
  Shared ground of the development: Go maps as association lists, optional results,
  pages of a listing, de-duplicated sorted string lists, and the lemmas about them that the
  component theories use.

  A Go map is modelled by an association list with distinct keys. The list order stands for
  the iteration order Go leaves unspecified: a definition that ranges over a map walks the
  list, and results that the code sorts afterwards are proved independent of that order.
\<close>

named_theorems gomap_simps \<open>lookup after an update or a delete of a Go map\<close>

section \<open>Go maps\<close>

type_synonym ('k, 'v) gomap = "('k \<times> 'v) list"

definition gm_empty :: "('k, 'v) gomap" where
  "gm_empty = []"

definition gm_get :: "('k, 'v) gomap \<Rightarrow> 'k \<Rightarrow> 'v option" where
  "gm_get m k = map_of m k"

definition gm_put :: "('k, 'v) gomap \<Rightarrow> 'k \<Rightarrow> 'v \<Rightarrow> ('k, 'v) gomap" where
  "gm_put m k v = AList.update k v m"

definition gm_del :: "('k, 'v) gomap \<Rightarrow> 'k \<Rightarrow> ('k, 'v) gomap" where
  "gm_del m k = AList.delete k m"

definition gm_keys :: "('k, 'v) gomap \<Rightarrow> 'k list" where
  "gm_keys m = map fst m"

definition gm_vals :: "('k, 'v) gomap \<Rightarrow> 'v list" where
  "gm_vals m = map snd m"

definition gm_wf :: "('k, 'v) gomap \<Rightarrow> bool" where
  "gm_wf m \<longleftrightarrow> distinct (map fst m)"

text \<open>Go reads a missing key of a boolean map as false, of a map of maps as an empty map.\<close>

definition gm_true :: "('k, bool) gomap \<Rightarrow> 'k \<Rightarrow> bool" where
  "gm_true m k \<longleftrightarrow> gm_get m k = Some True"

definition gm_sub :: "('k, 'a list) gomap \<Rightarrow> 'k \<Rightarrow> 'a list" where
  "gm_sub m k = (case gm_get m k of None \<Rightarrow> [] | Some v \<Rightarrow> v)"

lemma gm_get_empty [simp, gomap_simps]: "gm_get gm_empty k = None"
  by (simp add: gm_get_def gm_empty_def)

lemma gm_get_put [simp, gomap_simps]:
  "gm_get (gm_put m k v) k' = (if k' = k then Some v else gm_get m k')"
  by (simp add: gm_get_def gm_put_def update_conv')

lemma gm_get_del [simp, gomap_simps]:
  "gm_get (gm_del m k) k' = (if k' = k then None else gm_get m k')"
  by (simp add: gm_get_def gm_del_def delete_conv')

lemma gm_true_put [simp]: "gm_true (gm_put m k v) k' \<longleftrightarrow> (if k' = k then v else gm_true m k')"
  by (simp add: gm_true_def)

lemma gm_true_empty [simp]: "\<not> gm_true gm_empty k"
  by (simp add: gm_true_def)

lemma gm_sub_put [simp]: "gm_sub (gm_put m k v) k' = (if k' = k then v else gm_sub m k')"
  by (simp add: gm_sub_def)

lemma gm_sub_del [simp]: "gm_sub (gm_del m k) k' = (if k' = k then [] else gm_sub m k')"
  by (simp add: gm_sub_def)

lemma gm_sub_empty [simp]: "gm_sub gm_empty k = []"
  by (simp add: gm_sub_def)

lemma gm_wf_empty [simp]: "gm_wf gm_empty"
  by (simp add: gm_wf_def gm_empty_def)

lemma gm_wf_put [simp]: "gm_wf m \<Longrightarrow> gm_wf (gm_put m k v)"
  by (simp add: gm_wf_def gm_put_def distinct_update)

lemma gm_wf_del [simp]: "gm_wf m \<Longrightarrow> gm_wf (gm_del m k)"
  by (simp add: gm_wf_def gm_del_def distinct_delete)

lemma gm_keys_iff: "k \<in> set (gm_keys m) \<longleftrightarrow> gm_get m k \<noteq> None"
  by (simp add: gm_keys_def gm_get_def map_of_eq_None_iff)

lemma gm_keys_put [simp]: "set (gm_keys (gm_put m k v)) = insert k (set (gm_keys m))"
  by (auto simp: gm_keys_iff split: if_splits)

lemma gm_keys_del [simp]: "set (gm_keys (gm_del m k)) = set (gm_keys m) - {k}"
  by (auto simp: gm_keys_iff split: if_splits)

lemma gm_keys_empty [simp]: "gm_keys gm_empty = []"
  by (simp add: gm_keys_def gm_empty_def)

lemma gm_entry_iff: "gm_wf m \<Longrightarrow> (k, v) \<in> set m \<longleftrightarrow> gm_get m k = Some v"
  by (simp add: gm_wf_def gm_get_def)

lemma gm_vals_iff: "gm_wf m \<Longrightarrow> v \<in> set (gm_vals m) \<longleftrightarrow> (\<exists>k. gm_get m k = Some v)"
  by (force simp: gm_vals_def gm_entry_iff [symmetric])

text \<open>The interface of a keyed collection, and Go maps as its provider.\<close>

locale keyed_map =
  fixes empty :: "'m"
    and get :: "'m \<Rightarrow> 'k \<Rightarrow> 'v option"
    and put :: "'m \<Rightarrow> 'k \<Rightarrow> 'v \<Rightarrow> 'm"
    and del :: "'m \<Rightarrow> 'k \<Rightarrow> 'm"
    and keys :: "'m \<Rightarrow> 'k list"
    and wf :: "'m \<Rightarrow> bool"
  assumes get_empty: "get empty k = None"
    and get_put: "get (put m k v) k' = (if k' = k then Some v else get m k')"
    and get_del: "get (del m k) k' = (if k' = k then None else get m k')"
    and keys_get: "k \<in> set (keys m) \<longleftrightarrow> get m k \<noteq> None"
    and wf_empty: "wf empty"
    and wf_put: "wf m \<Longrightarrow> wf (put m k v)"
    and wf_del: "wf m \<Longrightarrow> wf (del m k)"
    and wf_keys: "wf m \<Longrightarrow> distinct (keys m)"
begin

lemma put_put_get: "get (put (put m k v) k w) = get (put m k w)"
  by (rule ext) (simp add: get_put)

lemma put_comm_get: "k \<noteq> l \<Longrightarrow> get (put (put m k v) l w) = get (put (put m l w) k v)"
  by (rule ext) (simp add: get_put)

lemma del_put_get: "get (del (put m k v) k) = get (del m k)"
  by (rule ext) (simp add: get_put get_del)

text \<open>Building a map by inserting a list of bindings: the last binding of a key wins.\<close>

lemma get_fold_put:
  "get (fold (\<lambda>x m. put m (f x) (g x)) xs m) k =
     (if \<exists>x \<in> set xs. f x = k then Some (g (last (filter (\<lambda>x. f x = k) xs))) else get m k)"
proof (induction xs rule: rev_induct)
  case (snoc x xs)
  then show ?case by (auto simp: get_put)
qed simp

lemma wf_fold_put: "wf m \<Longrightarrow> wf (fold (\<lambda>x m. put m (f x) (g x)) xs m)"
  by (induction xs arbitrary: m) (auto intro: wf_put)

end

interpretation gm: keyed_map gm_empty gm_get gm_put gm_del gm_keys gm_wf
  by unfold_locales (auto simp: gm_keys_iff gm_wf_def gm_keys_def gm_put_def gm_del_def distinct_update
      distinct_delete gm_get_def update_conv' delete_conv' gm_empty_def map_of_eq_None_iff)

section \<open>Lists of strings\<close>

text \<open>Sorting a list with the duplicates dropped: what \<open>sort.Strings\<close> over a set of names gives.\<close>

definition sorted_names :: "'a::linorder list \<Rightarrow> 'a list" where
  "sorted_names xs = remdups (sort xs)"

lemma set_sorted_names [simp]: "set (sorted_names xs) = set xs"
  by (simp add: sorted_names_def)

lemma distinct_sorted_names [simp]: "distinct (sorted_names xs)"
  by (simp add: sorted_names_def)

lemma sorted_sorted_names [simp]: "sorted (sorted_names xs)"
  by (simp add: sorted_names_def sorted_remdups)

lemma sorted_distinct_eqI: "sorted xs \<Longrightarrow> distinct xs \<Longrightarrow> sorted ys \<Longrightarrow> distinct ys \<Longrightarrow> set xs = set ys \<Longrightarrow> xs = ys"
  by (rule sorted_distinct_set_unique)

lemma sorted_names_cong: "set xs = set ys \<Longrightarrow> sorted_names xs = sorted_names ys"
  by (rule sorted_distinct_eqI) auto

text \<open>Sorting records by a key (\<open>sort.Slice\<close> with a strict comparison on that key).\<close>

lemma sort_key_perm_unique:
  assumes "mset xs = mset ys" "inj_on f (set xs)"
  shows "sort_key f xs = sort_key f ys"
  using assms by (intro sort_key_inj_key_eq) auto

end
