(* ===== verification/GoLib.thy ===== *)
theory GoLib
  imports Prelude
begin

text \<open>
  The parts of Go's standard library the modelled packages use: \<open>strings\<close>, \<open>path\<close> (with the
  glob matcher \<open>path.Match\<close>), and decimal printing. A Go string is a list of bytes. The rune
  decoding inside \<open>path.Match\<close>, \<open>strings.TrimSpace\<close> and \<open>strings.EqualFold\<close> is that of
  single-byte (ASCII) runes.
\<close>

section \<open>strings\<close>

definition go_cut_prefix :: "string \<Rightarrow> string \<Rightarrow> string option" where
  "go_cut_prefix s p = (if prefix p s then Some (drop (length p) s) else None)"

definition go_trim_suffix :: "string \<Rightarrow> string \<Rightarrow> string" where
  "go_trim_suffix s q = (if suffix q s then take (length s - length q) s else s)"

fun go_split :: "char \<Rightarrow> string \<Rightarrow> string list" where
  "go_split c [] = [[]]"
| "go_split c (x # xs) =
     (if x = c then [] # go_split c xs
      else (case go_split c xs of [] \<Rightarrow> [[x]] | y # ys \<Rightarrow> (x # y) # ys))"

fun go_join :: "string \<Rightarrow> string list \<Rightarrow> string" where
  "go_join sep [] = []"
| "go_join sep [x] = x"
| "go_join sep (x # y # ys) = x @ sep @ go_join sep (y # ys)"

definition is_space :: "char \<Rightarrow> bool" where
  "is_space c \<longleftrightarrow> c \<in> {CHR '' '', CHR 0x09, CHR 0x0A, CHR 0x0B, CHR 0x0C, CHR 0x0D}"

definition go_trim_left :: "(char \<Rightarrow> bool) \<Rightarrow> string \<Rightarrow> string" where
  "go_trim_left P s = dropWhile P s"

definition go_trim_right :: "(char \<Rightarrow> bool) \<Rightarrow> string \<Rightarrow> string" where
  "go_trim_right P s = rev (dropWhile P (rev s))"

definition go_trim_space :: "string \<Rightarrow> string" where
  "go_trim_space s = go_trim_right is_space (go_trim_left is_space s)"

definition go_replace_char :: "char \<Rightarrow> string \<Rightarrow> string \<Rightarrow> string" where
  "go_replace_char c r s = concat (map (\<lambda>x. if x = c then r else [x]) s)"

definition to_lower_char :: "char \<Rightarrow> char" where
  "to_lower_char c = (if CHR ''A'' \<le> c \<and> c \<le> CHR ''Z'' then char_of (of_char c + (32::nat)) else c)"

definition go_equal_fold :: "string \<Rightarrow> string \<Rightarrow> bool" where
  "go_equal_fold s t \<longleftrightarrow> map to_lower_char s = map to_lower_char t"

fun digits_rev :: "nat \<Rightarrow> string" where
  "digits_rev n = (if n < 10 then [char_of (48 + n)] else char_of (48 + n mod 10) # digits_rev (n div 10))"

declare digits_rev.simps [simp del]

definition show_nat :: "nat \<Rightarrow> string" where
  "show_nat n = rev (digits_rev n)"

definition show_int :: "int \<Rightarrow> string" where
  "show_int i = (if i < 0 then CHR ''-'' # show_nat (nat (- i)) else show_nat (nat i))"

text \<open>Decimal numerals are determined by their value.\<close>

definition digits_value :: "string \<Rightarrow> nat" where
  "digits_value s = foldr (\<lambda>c n. of_char c - 48 + 10 * n) s 0"

lemma digits_value_rev [simp]: "digits_value (digits_rev n) = n"
  by (induction n rule: digits_rev.induct) (subst digits_rev.simps, simp add: digits_value_def)

lemma digits_rev_last: "digits_rev n \<noteq> [] \<and> CHR ''-'' \<notin> set (digits_rev n)"
proof (induction n rule: digits_rev.induct)
  case (1 n)
  have minus: "CHR ''-'' \<noteq> char_of (48 + d)" if "d < 10" for d :: nat
  proof
    assume "CHR ''-'' = char_of (48 + d)"
    then have "of_char (char_of (48 + d) :: char) = (of_char CHR ''-'' :: nat)" by (rule arg_cong [OF sym])
    then show False using that by simp
  qed
  show ?case
  proof (cases "n < 10")
    case True
    then show ?thesis using minus [OF True] by (subst (1 2) digits_rev.simps) simp
  next
    case False
    then show ?thesis using 1 minus [of "n mod 10"] by (subst (1 2) digits_rev.simps) simp
  qed
qed

lemma show_nat_inj: "show_nat m = show_nat n \<longleftrightarrow> m = n"
  by (metis show_nat_def digits_value_rev rev_rev_ident)

lemma show_int_inj: "show_int i = show_int j \<Longrightarrow> i = j"
proof -
  assume eq: "show_int i = show_int j"
  have head: "show_nat m \<noteq> CHR ''-'' # s" for m s
    using digits_rev_last [of m] by (metis show_nat_def list.set_intros(1) set_rev)
  show "i = j"
    using eq head [of "nat i"] head [of "nat j"]
    by (auto simp: show_int_def show_nat_inj dest: sym split: if_splits)
qed

text \<open>The byte 10, which ends a line.\<close>

abbreviation (input) newline :: char where "newline \<equiv> CHR 0x0A"

abbreviation (input) slash :: char where "slash \<equiv> CHR ''/''"

subsection \<open>Facts about splitting and joining\<close>

lemma go_split_nonempty [simp]: "go_split c s \<noteq> []"
  by (induction s) (auto split: list.splits)

lemma go_join_Cons: "xs \<noteq> [] \<Longrightarrow> go_join sep (x # xs) = x @ sep @ go_join sep xs"
  by (cases xs) auto

lemma go_join_split: "go_join [c] (go_split c s) = s"
proof (induction s)
  case (Cons x xs)
  show ?case
  proof (cases "x = c")
    case True
    with Cons show ?thesis by (simp add: go_join_Cons)
  next
    case False
    obtain y ys where "go_split c xs = y # ys"
      by (cases "go_split c xs") auto
    with Cons False show ?thesis by (cases ys) auto
  qed
qed simp

lemma go_split_no_sep: "x \<in> set (go_split c s) \<Longrightarrow> c \<notin> set x"
proof (induction s arbitrary: x)
  case (Cons a s)
  obtain y ys where "go_split c s = y # ys" by (cases "go_split c s") auto
  with Cons show ?case by (force split: if_splits)
qed simp

lemma go_split_free: "c \<notin> set s \<Longrightarrow> go_split c s = [s]"
  by (induction s) auto

lemma go_split_append: "c \<notin> set s \<Longrightarrow> go_split c (s @ c # t) = s # go_split c t"
  by (induction s) auto

lemma go_cut_prefix_Some: "go_cut_prefix s p = Some r \<longleftrightarrow> s = p @ r"
  by (auto simp: go_cut_prefix_def prefix_def)

text \<open>A path lies under a directory: equal to it, or below it after a slash.\<close>

definition under_dir :: "string \<Rightarrow> string \<Rightarrow> bool" where
  "under_dir p d \<longleftrightarrow> p = d \<or> prefix (d @ ''/'') p"

lemma under_dir_refl [simp]: "under_dir p p"
  by (simp add: under_dir_def)

lemma under_dir_trans: "under_dir p d \<Longrightarrow> under_dir d e \<Longrightarrow> under_dir p e"
  by (auto simp: under_dir_def prefix_def)

lemma under_dir_length: "under_dir p d \<Longrightarrow> length d \<le> length p"
  by (auto simp: under_dir_def prefix_def)

text \<open>Two directories above one path are nested: one lies under the other.\<close>

lemma under_dir_prefix: "under_dir p d \<Longrightarrow> prefix d p"
  by (auto simp: under_dir_def dest: append_prefixD)

lemma under_dir_longer:
  assumes "under_dir p d" "prefix e p" "length d \<le> length e"
  shows "under_dir e d"
proof (cases "length d = length e")
  case True
  with assms under_dir_prefix [of p d] have "d = e"
    by (metis prefix_length_prefix prefix_order.antisym order_refl)
  then show ?thesis by simp
next
  case False
  with assms have "p \<noteq> d" by (auto dest: prefix_length_le)
  with assms have "prefix (d @ ''/'') p" by (simp add: under_dir_def)
  with assms False have "prefix (d @ ''/'') e" by (auto intro: prefix_length_prefix)
  then show ?thesis by (simp add: under_dir_def)
qed

lemma under_dir_linear:
  assumes "under_dir p d" "under_dir p e"
  shows "under_dir d e \<or> under_dir e d"
  using assms under_dir_longer under_dir_prefix nat_le_linear by metis

lemma under_dir_same_length:
  "under_dir p d \<Longrightarrow> under_dir p e \<Longrightarrow> length d = length e \<Longrightarrow> d = e"
  by (auto simp: under_dir_def prefix_def append_eq_append_conv)

section \<open>Longest path prefix\<close>

text \<open>
  Several components pick the owner of a path: the item whose directory covers it, the longest
  such directory winning, the repository root (the empty path) covering everything. They are
  written separately in the code; this is the contract they share.
\<close>

definition covers :: "string \<Rightarrow> string \<Rightarrow> bool" where
  "covers d p \<longleftrightarrow> d = [] \<or> under_dir p d"

lemma covers_same_length: "covers d p \<Longrightarrow> covers e p \<Longrightarrow> length d = length e \<Longrightarrow> d = e"
  by (auto simp: covers_def dest: under_dir_same_length)

lemma covers_linear: "covers d p \<Longrightarrow> covers e p \<Longrightarrow> length d \<le> length e \<Longrightarrow> covers d e"
  unfolding covers_def using under_dir_linear [of p d e] under_dir_length [of d e] under_dir_same_length
  by (metis le_antisym list.size(3) under_dir_refl le_zero_eq length_0_conv)

locale longest_owner =
  fixes pth :: "'a \<Rightarrow> string"
    and owner :: "'a list \<Rightarrow> string \<Rightarrow> 'a option"
  assumes owner_None_iff: "owner ps cp = None \<longleftrightarrow> (\<forall>p \<in> set ps. \<not> covers (pth p) cp)"
    and owner_sound: "owner ps cp = Some p \<Longrightarrow> p \<in> set ps \<and> covers (pth p) cp"
    and owner_longest: "owner ps cp = Some p \<Longrightarrow> q \<in> set ps \<Longrightarrow> covers (pth q) cp \<Longrightarrow> length (pth q) \<le> length (pth p)"
begin

lemma owner_path_iff:
  "map_option pth (owner ps cp) = Some d \<longleftrightarrow>
     d \<in> pth ` set ps \<and> covers d cp \<and> (\<forall>e \<in> pth ` set ps. covers e cp \<longrightarrow> length e \<le> length d)"
proof (cases "owner ps cp")
  case None
  then show ?thesis using owner_None_iff [of ps cp] by auto
next
  case (Some p)
  note p = owner_sound [OF Some] owner_longest [OF Some]
  show ?thesis
  proof
    assume "map_option pth (owner ps cp) = Some d"
    then show "d \<in> pth ` set ps \<and> covers d cp \<and> (\<forall>e \<in> pth ` set ps. covers e cp \<longrightarrow> length e \<le> length d)"
      using p Some by auto
  next
    assume d: "d \<in> pth ` set ps \<and> covers d cp \<and> (\<forall>e \<in> pth ` set ps. covers e cp \<longrightarrow> length e \<le> length d)"
    then have "length d = length (pth p)" using p by (intro le_antisym) auto
    then show "map_option pth (owner ps cp) = Some d"
      using d p(1) covers_same_length Some by auto
  qed
qed

lemma owner_path_cong:
  assumes "pth ` set ps = pth ` set qs"
  shows "map_option pth (owner ps cp) = map_option pth (owner qs cp)"
proof -
  have "map_option pth (owner ps cp) = Some d \<longleftrightarrow> map_option pth (owner qs cp) = Some d" for d
    using assms by (simp only: owner_path_iff)
  then show ?thesis by (metis option.exhaust)
qed

lemma owner_perm:
  assumes eq: "set ps = set qs" and inj: "inj_on pth (set ps)"
  shows "owner ps cp = owner qs cp"
proof (cases "owner ps cp")
  case None
  then show ?thesis using eq owner_None_iff by (metis not_None_eq)
next
  case (Some p)
  moreover have "map_option pth (owner qs cp) = Some (pth p)"
    using owner_path_cong [of ps qs cp] eq Some by simp
  then obtain q where q: "owner qs cp = Some q" "pth q = pth p" by auto
  moreover have "q = p"
    using inj eq owner_sound [OF Some] owner_sound [OF q(1)] q(2) by (auto dest: inj_onD)
  ultimately show ?thesis by simp
qed

end

text \<open>The loop that implements it, keeping the first item among equally long ones.\<close>

definition longest_by :: "('a \<Rightarrow> string) \<Rightarrow> 'a list \<Rightarrow> string \<Rightarrow> 'a option" where
  "longest_by pth ps cp =
     foldl (\<lambda>b x. if covers (pth x) cp \<and> (case b of None \<Rightarrow> True | Some y \<Rightarrow> length (pth y) < length (pth x)) then Some x else b) None ps"

lemma longest_by_spec:
  "case longest_by pth ps cp of None \<Rightarrow> \<forall>p \<in> set ps. \<not> covers (pth p) cp
   | Some q \<Rightarrow> q \<in> set ps \<and> covers (pth q) cp \<and> (\<forall>p \<in> set ps. covers (pth p) cp \<longrightarrow> length (pth p) \<le> length (pth q))"
  by (induction ps rule: rev_induct) (force simp: longest_by_def split: option.splits)+

interpretation lb: longest_owner pth "longest_by pth" for pth :: "'a \<Rightarrow> string"
proof (unfold_locales, goal_cases)
  case (1 ps cp)
  then show ?case using longest_by_spec [where pth = pth and ps = ps and cp = cp] by (auto split: option.splits)
next
  case (2 ps cp p)
  then show ?case using longest_by_spec [where pth = pth and ps = ps and cp = cp] by auto
next
  case (3 ps cp p q)
  then show ?case using longest_by_spec [where pth = pth and ps = ps and cp = cp] by auto
qed

section \<open>path\<close>

fun clean_comps :: "bool \<Rightarrow> string list \<Rightarrow> string list \<Rightarrow> string list" where
  "clean_comps rooted st [] = rev st"
| "clean_comps rooted st (x # xs) =
     (if x = [] \<or> x = ''.'' then clean_comps rooted st xs
      else if x = ''..'' then
        (if st \<noteq> [] \<and> hd st \<noteq> ''..'' then clean_comps rooted (tl st) xs
         else if rooted then clean_comps rooted st xs
         else clean_comps rooted (x # st) xs)
      else clean_comps rooted (x # st) xs)"

definition path_clean :: "string \<Rightarrow> string" where
  "path_clean s =
     (let rooted = (s \<noteq> [] \<and> hd s = slash);
          out = go_join ''/'' (clean_comps rooted [] (go_split slash s))
      in if rooted then ''/'' @ out else if out = [] then ''.'' else out)"

definition path_join :: "string list \<Rightarrow> string" where
  "path_join xs =
     (let ys = filter (\<lambda>x. x \<noteq> []) xs in if ys = [] then [] else path_clean (go_join ''/'' ys))"

text \<open>Everything up to and including the last slash, and what follows it (\<open>path.Split\<close>).\<close>

definition path_split_dir :: "string \<Rightarrow> string" where
  "path_split_dir p = go_trim_right (\<lambda>c. c \<noteq> slash) p"

definition path_dir :: "string \<Rightarrow> string" where
  "path_dir p = path_clean (path_split_dir p)"

definition path_base :: "string \<Rightarrow> string" where
  "path_base p =
     (if p = [] then ''.''
      else let q = go_trim_right (\<lambda>c. c = slash) p
           in if q = [] then ''/'' else drop (length (path_split_dir q)) q)"

subsection \<open>Clean relative paths\<close>

text \<open>A directory named by its components, none of them empty, a dot, or holding a slash.\<close>

definition good_name :: "string \<Rightarrow> bool" where
  "good_name x \<longleftrightarrow> x \<noteq> [] \<and> x \<noteq> ''.'' \<and> x \<noteq> ''..'' \<and> slash \<notin> set x"

abbreviation dir_of :: "string list \<Rightarrow> string" where
  "dir_of cs \<equiv> go_join ''/'' cs"

lemma go_join_snoc: "cs \<noteq> [] \<Longrightarrow> go_join sep (cs @ [x]) = go_join sep cs @ sep @ x"
  by (induction sep cs rule: go_join.induct) auto

lemma go_split_join: "cs \<noteq> [] \<Longrightarrow> (\<And>c. c \<in> set cs \<Longrightarrow> slash \<notin> set c) \<Longrightarrow> go_split slash (dir_of cs) = cs"
  by (induction "''/''" cs rule: go_join.induct) (auto simp: go_split_free go_split_append)

lemma dir_of_empty_iff: "(\<And>c. c \<in> set cs \<Longrightarrow> good_name c) \<Longrightarrow> dir_of cs = [] \<longleftrightarrow> cs = []"
  by (cases "(''/'', cs)" rule: go_join.cases) (auto simp: good_name_def)

lemma clean_comps_good: "(\<And>c. c \<in> set cs \<Longrightarrow> good_name c) \<Longrightarrow> clean_comps r st (cs @ ds) = clean_comps r (rev cs @ st) ds"
  by (induction cs arbitrary: st) (auto simp: good_name_def)

lemma dir_of_head: "(\<And>c. c \<in> set cs \<Longrightarrow> good_name c) \<Longrightarrow> dir_of cs \<noteq> [] \<Longrightarrow> hd (dir_of cs) \<noteq> slash"
proof (cases cs)
  case (Cons x xs)
  assume "\<And>c. c \<in> set cs \<Longrightarrow> good_name c"
  then have "good_name x" using Cons by simp
  then have "x \<noteq> []" "hd x \<noteq> slash" by (cases x; auto simp: good_name_def)+
  then show ?thesis using Cons by (cases xs) auto
qed simp

lemma path_clean_dir:
  assumes "\<And>c. c \<in> set cs \<Longrightarrow> good_name c" "cs \<noteq> []"
  shows "path_clean (dir_of cs) = dir_of cs"
proof -
  have "go_split slash (dir_of cs) = cs"
    using assms by (intro go_split_join) (auto simp: good_name_def)
  moreover have "dir_of cs \<noteq> []" using assms dir_of_empty_iff by blast
  ultimately show ?thesis
    using dir_of_head [OF assms(1)] clean_comps_good [OF assms(1), where r = False and st = "[]" and ds = "[]"]
    by (simp add: path_clean_def)
qed

lemma path_join_dir:
  assumes "\<And>c. c \<in> set cs \<Longrightarrow> good_name c" "good_name x"
  shows "path_join [dir_of cs, x] = dir_of (cs @ [x])"
proof -
  have x: "x \<noteq> []" using assms(2) by (simp add: good_name_def)
  have "go_join ''/'' (filter (\<lambda>x. x \<noteq> []) [dir_of cs, x]) = dir_of (cs @ [x])"
    using x by (cases "cs = []") (auto simp: dir_of_empty_iff [OF assms(1)] go_join_snoc)
  moreover have "path_clean (dir_of (cs @ [x])) = dir_of (cs @ [x])"
    by (rule path_clean_dir) (use assms in auto)
  ultimately show ?thesis using x by (auto simp: path_join_def Let_def)
qed

lemma trim_right_split: "\<forall>c \<in> set x. P c \<Longrightarrow> go_trim_right P (s @ x) = go_trim_right P s"
proof -
  assume "\<forall>c \<in> set x. P c"
  then have "dropWhile P (rev x) = []" by (simp add: dropWhile_eq_Nil_conv)
  then show ?thesis by (simp add: go_trim_right_def dropWhile_append)
qed

lemma path_dir_snoc:
  assumes "\<And>c. c \<in> set cs \<Longrightarrow> good_name c" "good_name x"
  shows "path_dir (dir_of (cs @ [x])) = (if cs = [] then ''.'' else dir_of cs)"
proof -
  have x: "\<forall>c \<in> set x. c \<noteq> slash" using assms(2) by (auto simp: good_name_def)
  show ?thesis
  proof (cases "cs = []")
    case True
    then show ?thesis
      using trim_right_split [OF x, of "[]"] by (simp add: path_dir_def path_split_dir_def) (simp add: go_trim_right_def path_clean_def)
  next
    case False
    have sd: "path_split_dir (dir_of (cs @ [x])) = dir_of (cs @ [[]])"
      using trim_right_split [OF x, of "dir_of cs @ ''/''"] False
      by (simp add: path_split_dir_def go_join_snoc) (simp add: go_trim_right_def)
    have "go_split slash (dir_of (cs @ [[]])) = cs @ [[]]"
      using assms by (intro go_split_join) (auto simp: good_name_def)
    moreover have ne: "dir_of cs \<noteq> []" using dir_of_empty_iff [OF assms(1)] False by blast
    moreover have "hd (dir_of cs) \<noteq> slash" using dir_of_head [OF assms(1) ne] by blast
    moreover have "clean_comps False [] (cs @ [[]]) = cs"
      using clean_comps_good [of cs False "[]" "[[]]"] assms(1) by simp
    ultimately have "path_clean (dir_of (cs @ [[]])) = dir_of cs"
      using False by (simp add: path_clean_def go_join_snoc)
    then show ?thesis using False unfolding path_dir_def sd by simp
  qed
qed

subsection \<open>path.Match\<close>

text \<open>\<open>scanChunk\<close>: a run of stars, then the bytes up to the next star outside brackets.\<close>

fun scan_lit :: "bool \<Rightarrow> string \<Rightarrow> string \<times> string" where
  "scan_lit inr [] = ([], [])"
| "scan_lit inr (c # cs) =
     (if c = CHR 0x5C then
        (case cs of
           [] \<Rightarrow> ([c], [])
         | d # ds \<Rightarrow> (let (a, b) = scan_lit inr ds in (c # d # a, b)))
      else if c = CHR ''['' then (let (a, b) = scan_lit True cs in (c # a, b))
      else if c = CHR '']'' then (let (a, b) = scan_lit False cs in (c # a, b))
      else if c = CHR ''*'' \<and> \<not> inr then ([], c # cs)
      else (let (a, b) = scan_lit inr cs in (c # a, b)))"

definition scan_chunk :: "string \<Rightarrow> bool \<times> string \<times> string" where
  "scan_chunk pat =
     (let q = dropWhile (\<lambda>c. c = CHR ''*'') pat; (chunk, rest) = scan_lit False q
      in (q \<noteq> pat, chunk, rest))"

text \<open>\<open>getEsc\<close>: one possibly escaped character of a class; \<open>None\<close> is \<open>ErrBadPattern\<close>.\<close>

definition get_esc :: "string \<Rightarrow> (char \<times> string) option" where
  "get_esc ch =
     (case ch of
        [] \<Rightarrow> None
      | c # cs \<Rightarrow>
          if c = CHR ''-'' \<or> c = CHR '']'' then None
          else if c = CHR 0x5C then
            (case cs of [] \<Rightarrow> None | d # ds \<Rightarrow> if ds = [] then None else Some (d, ds))
          else if cs = [] then None else Some (c, cs))"

lemma get_esc_shorter: "get_esc ch = Some (c, rest) \<Longrightarrow> length rest < length ch"
  by (auto simp: get_esc_def split: list.splits if_splits)

text \<open>
  The ranges of a class: whether the byte lies in one of them, and the chunk after the closing
  bracket. The byte is irrelevant once the match has failed (the code then only checks syntax).
\<close>

function class_ranges :: "nat \<Rightarrow> bool \<Rightarrow> char \<Rightarrow> string \<Rightarrow> (bool \<times> string) option" where
  "class_ranges n m r ch =
     (if ch \<noteq> [] \<and> hd ch = CHR '']'' \<and> 0 < n then Some (m, tl ch)
      else (case get_esc ch of
              None \<Rightarrow> None
            | Some (lo, ch1) \<Rightarrow>
                (if hd ch1 = CHR ''-'' then
                   (case get_esc (tl ch1) of
                      None \<Rightarrow> None
                    | Some (hi, ch2) \<Rightarrow> class_ranges (Suc n) (m \<or> (lo \<le> r \<and> r \<le> hi)) r ch2)
                 else class_ranges (Suc n) (m \<or> lo = r) r ch1)))"
  by pat_completeness auto
termination
proof (relation "measure (\<lambda>(n, m, r, ch). length ch)", goal_cases)
  case (2 n m r ch a lo ch1 b hi ch2)
  then show ?case
    using get_esc_shorter [of ch lo ch1] get_esc_shorter [of "tl ch1" hi ch2] by simp
next
  case (3 n m r ch a lo ch1)
  then show ?case using get_esc_shorter [of ch lo ch1] by simp
qed simp

declare class_ranges.simps [simp del]

lemma class_ranges_shorter: "class_ranges n m r ch = Some (b, rest) \<Longrightarrow> length rest < length ch"
proof (induction n m r ch rule: class_ranges.induct)
  case (1 n m r ch)
  then show ?case
    by (subst (asm) (3) class_ranges.simps)
      (fastforce split: if_splits option.splits dest: get_esc_shorter)
qed

text \<open>
  \<open>matchChunk\<close>: \<open>None\<close> is a bad pattern, \<open>Some None\<close> no match, \<open>Some (Some t)\<close> a match
  that leaves \<open>t\<close> of the name. The subject is \<open>None\<close> once the match has failed.
\<close>

function match_chunk :: "string \<Rightarrow> string option \<Rightarrow> string option option" where
  "match_chunk [] s = Some s"
| "match_chunk (c # cs) s =
     (let s' = (case s of Some (x # xs) \<Rightarrow> Some (x # xs) | _ \<Rightarrow> None) in
      if c = CHR ''['' then
        (let neg = (cs \<noteq> [] \<and> hd cs = CHR ''^'');
             r = (case s' of Some xs \<Rightarrow> hd xs | None \<Rightarrow> CHR 0x00)
         in (case class_ranges 0 False r (if neg then tl cs else cs) of
               None \<Rightarrow> None
             | Some (m, rest) \<Rightarrow>
                 match_chunk rest (if m = neg then None else map_option tl s')))
      else if c = CHR ''?'' then
        match_chunk cs (case s' of Some (x # xs) \<Rightarrow> if x = slash then None else Some xs | _ \<Rightarrow> None)
      else if c = CHR 0x5C then
        (case cs of
           [] \<Rightarrow> None
         | d # ds \<Rightarrow>
             match_chunk ds (case s' of Some (x # xs) \<Rightarrow> if x = d then Some xs else None | _ \<Rightarrow> None))
      else
        match_chunk cs (case s' of Some (x # xs) \<Rightarrow> if x = c then Some xs else None | _ \<Rightarrow> None))"
  by pat_completeness auto
termination
proof (relation "measure (\<lambda>(p, s). length p)", goal_cases)
  case (2 c cs s s' neg r a m rest)
  then have "length rest < length (if neg then tl cs else cs)"
    by (auto dest: class_ranges_shorter)
  then show ?case by (auto split: if_splits)
qed auto

declare match_chunk.simps(2) [simp del]

fun star_positions :: "string \<Rightarrow> string list" where
  "star_positions [] = []"
| "star_positions (c # cs) = (if c = slash then [] else cs # star_positions cs)"

text \<open>The first position after the star at which the chunk matches (and, for the last chunk,
  uses up the name).\<close>

fun star_search :: "string \<Rightarrow> bool \<Rightarrow> string list \<Rightarrow> string option option" where
  "star_search chunk lastc [] = Some None"
| "star_search chunk lastc (s # ss) =
     (case match_chunk chunk (Some s) of
        None \<Rightarrow> None
      | Some None \<Rightarrow> star_search chunk lastc ss
      | Some (Some t) \<Rightarrow> if lastc \<and> t \<noteq> [] then star_search chunk lastc ss else Some (Some t))"

lemma scan_lit_append: "fst (scan_lit inr s) @ snd (scan_lit inr s) = s"
proof (induction inr s rule: scan_lit.induct)
  case (2 inr c cs)
  then show ?case
    by (cases "c = CHR 0x5C"; cases "c = CHR ''[''"; cases "c = CHR '']''"; cases "c = CHR ''*'' \<and> \<not> inr")
      (simp_all add: case_prod_beta Let_def split: list.splits)
qed simp

lemma scan_lit_first: "c \<noteq> CHR ''*'' \<Longrightarrow> fst (scan_lit inr (c # cs)) \<noteq> []"
  by (simp add: case_prod_beta Let_def split: list.splits)

lemma scan_lit_progress:
  assumes "s \<noteq> []" "hd s \<noteq> CHR ''*''"
  shows "length (snd (scan_lit inr s)) < length s"
proof -
  have "fst (scan_lit inr s) \<noteq> []"
    using assms by (cases s) (auto simp del: scan_lit.simps dest: scan_lit_first)
  then show ?thesis
    using arg_cong [OF scan_lit_append [of inr s], of length] by (cases "fst (scan_lit inr s)") auto
qed

lemma scan_chunk_shorter:
  assumes "scan_chunk pat = (star, chunk, rest)" "pat \<noteq> []"
  shows "length rest < length pat"
proof -
  let ?q = "dropWhile (\<lambda>c. c = CHR ''*'') pat"
  have rest: "rest = snd (scan_lit False ?q)"
    using assms by (auto simp: scan_chunk_def Let_def split: prod.splits)
  have le: "length ?q \<le> length pat" by (rule length_dropWhile_le)
  show ?thesis
  proof (cases "?q = []")
    case True
    with rest assms show ?thesis by simp
  next
    case False
    then have "hd ?q \<noteq> CHR ''*''" using hd_dropWhile [of "\<lambda>c. c = CHR ''*''" pat] by simp
    with False show ?thesis using scan_lit_progress [of ?q False] le rest by simp
  qed
qed

text \<open>\<open>path.Match\<close> with its error read as no match, which is how every caller uses it.\<close>

function path_match :: "string \<Rightarrow> string \<Rightarrow> bool" where
  "path_match pat name =
     (if pat = [] then name = []
      else (case scan_chunk pat of
              (star, chunk, rest) \<Rightarrow>
                if star \<and> chunk = [] then slash \<notin> set name
                else (case match_chunk chunk (Some name) of
                        None \<Rightarrow> False
                      | Some (Some t) \<Rightarrow>
                          if t = [] \<or> rest \<noteq> [] then path_match rest t
                          else if star then
                            (case star_search chunk (rest = []) (star_positions name) of
                               Some (Some u) \<Rightarrow> path_match rest u
                             | _ \<Rightarrow> False)
                          else False
                      | Some None \<Rightarrow>
                          if star then
                            (case star_search chunk (rest = []) (star_positions name) of
                               Some (Some u) \<Rightarrow> path_match rest u
                             | _ \<Rightarrow> False)
                          else False)))"
  by pat_completeness auto
termination
  by (relation "measure (\<lambda>(p, s). length p)")
    (simp_all only: in_measure case_prod_conv wf_measure, (metis scan_chunk_shorter)+)

declare path_match.simps [simp del]

end
