(* ===== verification/Sha.thy ===== *)
theory Sha
  imports GoLib "HOL-Library.Word"
begin

text \<open>
  \<open>crypto/sha1\<close>, \<open>crypto/sha256\<close> and \<open>encoding/hex\<close>, as the identifiers of the program use
  them: FIPS 180-4 over 32-bit words. A byte is a character of the string it comes from.
\<close>

unbundle bit_operations_syntax

type_synonym u32 = "32 word"

section \<open>Padding and blocks\<close>

definition byte_of :: "char \<Rightarrow> nat" where
  "byte_of c = of_char c"

definition be_bytes :: "nat \<Rightarrow> nat \<Rightarrow> nat list" where
  "be_bytes k n = map (\<lambda>i. n div 256 ^ (k - 1 - i) mod 256) [0..<k]"

text \<open>A one bit, zeros up to 56 modulo 64 bytes, and the length in bits as eight bytes.\<close>

definition sha_pad :: "nat list \<Rightarrow> nat list" where
  "sha_pad bs = bs @ [128] @ replicate ((119 - length bs mod 64) mod 64) 0 @ be_bytes 8 (8 * length bs)"

fun words_of :: "nat list \<Rightarrow> u32 list" where
  "words_of (a # b # c # d # bs) = of_nat (((a * 256 + b) * 256 + c) * 256 + d) # words_of bs"
| "words_of _ = []"

fun chunks :: "nat \<Rightarrow> nat \<Rightarrow> 'a list \<Rightarrow> 'a list list" where
  "chunks 0 n xs = []"
| "chunks (Suc k) n xs = take n xs # chunks k n (drop n xs)"

definition sha_blocks :: "string \<Rightarrow> u32 list list" where
  "sha_blocks s = (let ws = words_of (sha_pad (map byte_of s)) in chunks (length ws div 16) 16 ws)"

section \<open>SHA-256\<close>

text \<open>
  The standard derives the constants from the first primes: the round constants are the first 32
  bits of the fractional parts of their cube roots, the initial state that of their square roots.
  \<open>nth_root k e b n\<close> finds the greatest \<open>r\<close> with \<open>r ^ e \<le> n\<close>, bit by bit.
\<close>

fun nth_root :: "nat \<Rightarrow> nat \<Rightarrow> nat \<Rightarrow> nat \<Rightarrow> nat" where
  "nth_root 0 e r n = r"
| "nth_root (Suc k) e r n = nth_root k e (if (r + 2 ^ k) ^ e \<le> n then r + 2 ^ k else r) n"

definition root_fraction :: "nat \<Rightarrow> nat \<Rightarrow> u32" where
  "root_fraction e p = word_of_nat (nth_root 40 e 0 (p * 2 ^ (32 * e)))"

definition primes_upto :: "nat \<Rightarrow> nat list" where
  "primes_upto n = filter (\<lambda>p. list_all (\<lambda>d. p mod d \<noteq> 0) [2..<p]) [2..<n + 1]"

definition k256 :: "u32 list" where
  "k256 = map (root_fraction 3) (primes_upto 311)"

definition h256 :: "u32 list" where
  "h256 = map (root_fraction 2) (primes_upto 19)"

text \<open>The message schedule, newest word first.\<close>

fun schedule256 :: "nat \<Rightarrow> u32 list \<Rightarrow> u32 list" where
  "schedule256 0 ws = ws"
| "schedule256 (Suc n) ws =
     (let w15 = ws ! 14; w2 = ws ! 1;
          s0 = word_rotr 7 w15 XOR word_rotr 18 w15 XOR drop_bit 3 w15;
          s1 = word_rotr 17 w2 XOR word_rotr 19 w2 XOR drop_bit 10 w2
      in schedule256 n ((ws ! 15 + s0 + ws ! 6 + s1) # ws))"

fun round256 :: "u32 list \<Rightarrow> u32 \<times> u32 \<Rightarrow> u32 list" where
  "round256 [a, b, c, d, e, f, g, h] (k, w) =
     (let s1 = word_rotr 6 e XOR word_rotr 11 e XOR word_rotr 25 e;
          ch = (e AND f) XOR (NOT e AND g);
          t1 = h + s1 + ch + k + w;
          s0 = word_rotr 2 a XOR word_rotr 13 a XOR word_rotr 22 a;
          maj = (a AND b) XOR (a AND c) XOR (b AND c)
      in [t1 + (s0 + maj), a, b, c, d + t1, e, f, g])"
| "round256 st _ = st"

definition block256 :: "u32 list \<Rightarrow> u32 list \<Rightarrow> u32 list" where
  "block256 st blk =
     map2 (+) st (foldl round256 st (zip k256 (rev (schedule256 48 (rev blk)))))"

definition sha256_words :: "string \<Rightarrow> u32 list" where
  "sha256_words s = foldl block256 h256 (sha_blocks s)"

section \<open>SHA-1\<close>

definition h1 :: "u32 list" where
  "h1 = [0x67452301, 0xEFCDAB89, 0x98BADCFE, 0x10325476, 0xC3D2E1F0]"

fun schedule1 :: "nat \<Rightarrow> u32 list \<Rightarrow> u32 list" where
  "schedule1 0 ws = ws"
| "schedule1 (Suc n) ws =
     schedule1 n (word_rotl 1 (ws ! 2 XOR ws ! 7 XOR ws ! 13 XOR ws ! 15) # ws)"

fun round1 :: "u32 list \<Rightarrow> nat \<times> u32 \<Rightarrow> u32 list" where
  "round1 [a, b, c, d, e] (t, w) =
     (let (f, k) =
        (if t < 20 then ((b AND c) OR (NOT b AND d), 0x5A827999)
         else if t < 40 then (b XOR c XOR d, 0x6ED9EBA1)
         else if t < 60 then ((b AND c) OR (b AND d) OR (c AND d), 0x8F1BBCDC)
         else (b XOR c XOR d, 0xCA62C1D6))
      in [word_rotl 5 a + f + e + k + w, a, word_rotl 30 b, c, d])"
| "round1 st _ = st"

definition block1 :: "u32 list \<Rightarrow> u32 list \<Rightarrow> u32 list" where
  "block1 st blk = map2 (+) st (foldl round1 st (zip [0..<80] (rev (schedule1 64 (rev blk)))))"

definition sha1_words :: "string \<Rightarrow> u32 list" where
  "sha1_words s = foldl block1 h1 (sha_blocks s)"

section \<open>Hexadecimal digests\<close>

definition hex_digit :: "nat \<Rightarrow> char" where
  "hex_digit n = (if n < 10 then char_of (48 + n) else char_of (87 + n))"

definition hex_word :: "u32 \<Rightarrow> string" where
  "hex_word w = map (\<lambda>i. hex_digit (unat w div 16 ^ (7 - i) mod 16)) [0..<8]"

definition hex_words :: "u32 list \<Rightarrow> string" where
  "hex_words ws = concat (map hex_word ws)"

definition is_hex :: "char \<Rightarrow> bool" where
  "is_hex c \<longleftrightarrow> (CHR ''0'' \<le> c \<and> c \<le> CHR ''9'') \<or> (CHR ''a'' \<le> c \<and> c \<le> CHR ''f'')"

definition sha1_hex :: "string \<Rightarrow> string" where
  "sha1_hex s = hex_words (sha1_words s)"

definition sha256_hex :: "string \<Rightarrow> string" where
  "sha256_hex s = hex_words (sha256_words s)"

lemma is_hex_digit: "n < 16 \<Longrightarrow> is_hex (hex_digit n)"
  by (auto simp: is_hex_def hex_digit_def less_eq_char_def)

lemma set_hex_word: "c \<in> set (hex_word w) \<Longrightarrow> is_hex c"
  by (auto simp: hex_word_def intro: is_hex_digit)

lemma length_hex_word [simp]: "length (hex_word w) = 8"
  by (simp add: hex_word_def)

lemma set_hex_words: "c \<in> set (hex_words ws) \<Longrightarrow> is_hex c"
  by (auto simp: hex_words_def dest: set_hex_word)

lemma length_hex_words [simp]: "length (hex_words ws) = 8 * length ws"
  by (induction ws) (auto simp: hex_words_def)

lemma length_round1 [simp]: "length (round1 st x) = length st"
  by (induction st x rule: round1.induct) (auto simp: Let_def split: prod.splits)

lemma length_foldl_round1 [simp]: "length (foldl round1 st xs) = length st"
  by (induction xs arbitrary: st) auto

lemma length_sha1_words [simp]: "length (sha1_words s) = 5"
proof -
  have "length (foldl block1 st bs) = length st" for st bs
    by (induction bs arbitrary: st) (auto simp: block1_def)
  then show ?thesis by (simp add: sha1_words_def h1_def)
qed

lemma length_sha1_hex [simp]: "length (sha1_hex s) = 40"
  by (simp add: sha1_hex_def)

lemma set_sha1_hex: "c \<in> set (sha1_hex s) \<Longrightarrow> is_hex c"
  unfolding sha1_hex_def by (rule set_hex_words)

end
