(* ===== verification/Affected.thy ===== *)
theory Affected
  imports Sha
begin

text \<open>
  \<open>platform/affected/compute.go\<close>: from changed paths to affected projects. The glob dialect
  (\<open>MatchPath\<close>, ordered pattern lists), ownership by longest path prefix, the closure over
  declared dependents with its terminal test edges, and \<open>Compute\<close>, which combines them and
  fails closed to \<open>RunEverything\<close>.
\<close>

section \<open>Data\<close>

record project_info =
  pi_name :: string
  pi_path :: string
  pi_deps :: "string list"
  pi_test_deps :: "string list"
  pi_consumes :: "string list"
  pi_contract_paths :: "string list"

record project_ref =
  pr_name :: string
  pr_path :: string
  pr_direct :: bool

record aff_options =
  opt_root_inval :: "string list"
  opt_refinable :: "string list"
  opt_refinable_handled :: bool
  opt_strictness :: string
  opt_prose :: "string list"

datatype reason = DirectPath | DependsOn | RootInvalidation | ConsumesContract

fun reason_code :: "reason \<Rightarrow> string" where
  "reason_code DirectPath = ''direct_path''"
| "reason_code DependsOn = ''depends_on''"
| "reason_code RootInvalidation = ''root_invalidation''"
| "reason_code ConsumesContract = ''consumes_contract''"

definition strictness_aggressive :: string where
  "strictness_aggressive = ''aggressive''"

record aff_result =
  ar_id :: string
  ar_projects :: "project_ref list"
  ar_paths :: "string list"
  ar_reasons :: "reason list"
  ar_run_everything :: bool
  ar_refinable_only :: bool

section \<open>Globs\<close>

text \<open>The path and what follows each of its slashes: what a leading \<open>**/\<close> is tried against.\<close>

fun after_slashes :: "string \<Rightarrow> string list" where
  "after_slashes [] = []"
| "after_slashes (c # cs) = (if c = slash then cs # after_slashes cs else after_slashes cs)"

definition path_suffixes :: "string \<Rightarrow> string list" where
  "path_suffixes s = s # after_slashes s"

function match_path :: "string \<Rightarrow> string \<Rightarrow> bool" where
  "match_path pat p =
     (case go_cut_prefix pat ''**/'' of
        Some rest \<Rightarrow> list_ex (\<lambda>sub. match_path rest sub) (path_suffixes p)
      | None \<Rightarrow>
          (if suffix ''/**'' pat then
             (let pre = go_trim_suffix pat ''/**'' in p = pre \<or> prefix (pre @ ''/'') p)
           else path_match pat p))"
  by pat_completeness auto
termination
  by (relation "measure (\<lambda>(pat, p). length pat)") (auto simp: go_cut_prefix_Some)

declare match_path.simps [simp del]

fun match_ordered_which :: "string list \<Rightarrow> string \<Rightarrow> string \<times> bool" where
  "match_ordered_which [] p = ([], False)"
| "match_ordered_which (entry # es) p =
     (let negated = prefix ''!'' entry; pat = (if negated then tl entry else entry)
      in if match_path pat p then (entry, \<not> negated) else match_ordered_which es p)"

definition match_ordered :: "string list \<Rightarrow> string \<Rightarrow> bool" where
  "match_ordered pats p = snd (match_ordered_which pats p)"

section \<open>Ownership\<close>

definition find_root_project :: "project_info list \<Rightarrow> project_info option" where
  "find_root_project ps = find (\<lambda>p. pi_path p = []) ps"

definition owner_step :: "string \<Rightarrow> project_info option \<Rightarrow> project_info \<Rightarrow> project_info option" where
  "owner_step cp best p =
     (if \<not> (pi_path p = [] \<or> cp = pi_path p \<or> prefix (pi_path p @ ''/'') cp) then best
      else (case best of
              None \<Rightarrow> Some p
            | Some b \<Rightarrow> if length (pi_path p) > length (pi_path b) then Some p else best))"

definition find_owner :: "project_info list \<Rightarrow> string \<Rightarrow> project_info option" where
  "find_owner ps cp = foldl (owner_step cp) None ps"

definition under_any_contract_root :: "string \<Rightarrow> string list \<Rightarrow> bool" where
  "under_any_contract_root cp roots =
     list_ex (\<lambda>r. r \<noteq> [] \<and> (cp = r \<or> prefix (r @ ''/'') cp)) roots"

section \<open>The dependent closure\<close>

text \<open>\<open>dependents\<close> and \<open>testDependents\<close>: for each name, who declares an edge on it.\<close>

definition edge_map :: "(project_info \<Rightarrow> string list) \<Rightarrow> project_info list \<Rightarrow> (string, string list) gomap" where
  "edge_map edges ps =
     foldl (\<lambda>m p. foldl (\<lambda>m dep. gm_put m dep (gm_sub m dep @ [pi_name p])) m (edges p)) gm_empty ps"

record walk_state =
  w_affected :: "(string, bool) gomap"
  w_walked :: "(string, bool) gomap"
  w_queue :: "string list"
  w_saw :: bool

definition mark_affected :: "walk_state \<Rightarrow> string \<Rightarrow> walk_state" where
  "mark_affected st dep =
     (if gm_true (w_affected st) dep then st
      else st\<lparr>w_affected := gm_put (w_affected st) dep True, w_saw := True\<rparr>)"

definition visit_dependent :: "walk_state \<Rightarrow> string \<Rightarrow> walk_state" where
  "visit_dependent st dep =
     (let st1 = mark_affected st dep
      in if gm_true (w_walked st1) dep then st1
         else st1\<lparr>w_walked := gm_put (w_walked st1) dep True, w_queue := w_queue st1 @ [dep]\<rparr>)"

definition walk_step :: "(string, string list) gomap \<Rightarrow> (string, string list) gomap \<Rightarrow> string \<Rightarrow> walk_state \<Rightarrow> walk_state" where
  "walk_step dependents test_dependents cur st =
     foldl mark_affected (foldl visit_dependent st (gm_sub dependents cur)) (gm_sub test_dependents cur)"

definition unwalked :: "(string, string list) gomap \<Rightarrow> walk_state \<Rightarrow> string set" where
  "unwalked dependents st =
     {n. n \<in> set (concat (map snd dependents)) \<and> \<not> gm_true (w_walked st) n}"

subsection \<open>Termination of the walk\<close>

lemma mark_affected_fields [simp]:
  "w_walked (mark_affected st d) = w_walked st"
  "w_queue (mark_affected st d) = w_queue st"
  by (simp_all add: mark_affected_def)

lemma foldl_mark_affected_fields [simp]:
  "w_walked (foldl mark_affected st ds) = w_walked st"
  "w_queue (foldl mark_affected st ds) = w_queue st"
  by (induction ds arbitrary: st) auto

lemma visit_dependent_walked [simp]:
  "gm_true (w_walked (visit_dependent st d)) n \<longleftrightarrow> n = d \<or> gm_true (w_walked st) n"
  by (auto simp: visit_dependent_def Let_def)

lemma visit_dependent_queue:
  "w_queue (visit_dependent st d) = w_queue st @ (if gm_true (w_walked st) d then [] else [d])"
  by (simp add: visit_dependent_def Let_def)

lemma foldl_visit_walked:
  "gm_true (w_walked (foldl visit_dependent st ds)) n \<longleftrightarrow> n \<in> set ds \<or> gm_true (w_walked st) n"
  by (induction ds arbitrary: st) auto

lemma walk_step_walked [simp]:
  "gm_true (w_walked (walk_step deps tdeps cur st)) n \<longleftrightarrow>
     n \<in> set (gm_sub deps cur) \<or> gm_true (w_walked st) n"
  by (simp add: walk_step_def foldl_visit_walked)

lemma foldl_visit_queue_same:
  "(\<And>d. d \<in> set ds \<Longrightarrow> gm_true (w_walked st) d) \<Longrightarrow> w_queue (foldl visit_dependent st ds) = w_queue st"
  by (induction ds arbitrary: st) (auto simp: visit_dependent_queue)

lemma gm_sub_in_values: "n \<in> set (gm_sub m k) \<Longrightarrow> n \<in> set (concat (map snd m))"
  by (cases "map_of m k") (auto simp: gm_sub_def gm_get_def dest!: map_of_SomeD intro!: bexI [of _ "(k, _)"])

lemma walk_step_decreases:
  assumes "w_queue st = cur # q"
  shows "(walk_step deps tdeps cur (st\<lparr>w_queue := q\<rparr>), st)
    \<in> measures [\<lambda>s. card (unwalked deps s), \<lambda>s. length (w_queue s)]"
proof -
  let ?st = "st\<lparr>w_queue := q\<rparr>"
  let ?new = "walk_step deps tdeps cur ?st"
  have fin: "finite (unwalked deps st)"
    by (rule finite_subset [of _ "set (concat (map snd deps))"]) (auto simp: unwalked_def)
  have sub: "unwalked deps ?new \<subseteq> unwalked deps st"
    by (auto simp: unwalked_def)
  show ?thesis
  proof (cases "\<forall>d \<in> set (gm_sub deps cur). gm_true (w_walked st) d")
    case True
    then have "w_queue ?new = q"
      by (simp add: walk_step_def foldl_visit_queue_same)
    moreover have "card (unwalked deps ?new) \<le> card (unwalked deps st)"
      by (rule card_mono [OF fin sub])
    ultimately show ?thesis using assms by (auto simp: less_le)
  next
    case False
    then obtain d where "d \<in> set (gm_sub deps cur)" "\<not> gm_true (w_walked st) d" by auto
    then have "d \<in> unwalked deps st" "d \<notin> unwalked deps ?new"
      by (auto simp: unwalked_def dest: gm_sub_in_values)
    with sub have "unwalked deps ?new \<subset> unwalked deps st" by auto
    then have "card (unwalked deps ?new) < card (unwalked deps st)"
      by (rule psubset_card_mono [OF fin])
    then show ?thesis by simp
  qed
qed

function walk :: "(string, string list) gomap \<Rightarrow> (string, string list) gomap \<Rightarrow> walk_state \<Rightarrow> walk_state" where
  "walk deps tdeps st =
     (case w_queue st of
        [] \<Rightarrow> st
      | cur # q \<Rightarrow> walk deps tdeps (walk_step deps tdeps cur (st\<lparr>w_queue := q\<rparr>)))"
  by pat_completeness auto
termination
  by (relation "inv_image (measures [\<lambda>(d, s). card (unwalked d s), \<lambda>(d, s). length (w_queue s)])
        (\<lambda>(deps, tdeps, st). (deps, st))")
    (use walk_step_decreases in auto)

declare walk.simps [simp del]

definition close_over_dependents ::
  "project_info list \<Rightarrow> (string, bool) gomap \<Rightarrow> (string, bool) gomap \<times> bool" where
  "close_over_dependents ps direct =
     (let names = gm_keys direct;
          start = \<lparr>w_affected = foldl (\<lambda>m n. gm_put m n True) gm_empty names,
                   w_walked = foldl (\<lambda>m n. gm_put m n True) gm_empty names,
                   w_queue = names, w_saw = False\<rparr>;
          fin = walk (edge_map pi_deps ps) (edge_map pi_test_deps ps) start
      in (w_affected fin, w_saw fin))"

section \<open>Compute\<close>

definition dedup_sorted :: "string list \<Rightarrow> string list" where
  "dedup_sorted paths = remdups_adj (sort paths)"

definition computation_id :: "string list \<Rightarrow> string" where
  "computation_id sorted_paths = ''aff_'' @ take 12 (sha256_hex (go_join [newline] sorted_paths))"

record scan_state =
  ss_run :: bool
  ss_blunt :: bool
  ss_refinable :: bool
  ss_direct :: "(string, bool) gomap"
  ss_reasons :: "(reason, bool) gomap"

definition by_name :: "project_info list \<Rightarrow> (string, project_info) gomap" where
  "by_name ps = fold (\<lambda>p m. gm_put m (pi_name p) p) ps gm_empty"

definition mark_direct :: "string \<Rightarrow> scan_state \<Rightarrow> scan_state" where
  "mark_direct n st =
     st\<lparr>ss_direct := gm_put (ss_direct st) n True, ss_reasons := gm_put (ss_reasons st) DirectPath True\<rparr>"

text \<open>The end of the loop body: prose, then ownership, then the conservative default.\<close>

definition own_path :: "project_info list \<Rightarrow> aff_options \<Rightarrow> scan_state \<Rightarrow> string \<Rightarrow> scan_state" where
  "own_path ps opts st cp =
     (case find_owner ps cp of
        Some owner \<Rightarrow> mark_direct (pi_name owner) st
      | None \<Rightarrow>
          if opt_strictness opts \<noteq> strictness_aggressive then
            st\<lparr>ss_run := True, ss_blunt := True,
               ss_reasons := gm_put (ss_reasons st) RootInvalidation True\<rparr>
          else st)"

definition attribute_path :: "project_info list \<Rightarrow> aff_options \<Rightarrow> scan_state \<Rightarrow> string \<Rightarrow> scan_state" where
  "attribute_path ps opts st cp =
     (case find_root_project ps of
        Some root \<Rightarrow>
          if match_ordered (opt_prose opts) cp then mark_direct (pi_name root) st
          else own_path ps opts st cp
      | None \<Rightarrow> own_path ps opts st cp)"

text \<open>One iteration of the loop over the changed paths.\<close>

definition scan_path :: "project_info list \<Rightarrow> aff_options \<Rightarrow> scan_state \<Rightarrow> string \<Rightarrow> scan_state" where
  "scan_path ps opts st cp =
     (case match_ordered_which (opt_root_inval opts) cp of
        (pat, escalates) \<Rightarrow>
          if escalates \<and> \<not> (pat \<in> set (opt_refinable opts) \<and> opt_refinable_handled opts) then
            (if pat \<in> set (opt_refinable opts) then st\<lparr>ss_refinable := True\<rparr> else st\<lparr>ss_blunt := True\<rparr>)
              \<lparr>ss_run := True, ss_reasons := gm_put (ss_reasons st) RootInvalidation True\<rparr>
          else attribute_path ps opts st cp)"

definition contract_touched :: "project_info list \<Rightarrow> string list \<Rightarrow> string \<Rightarrow> bool" where
  "contract_touched ps paths name =
     list_ex (\<lambda>p. pi_name p = name \<and> pi_contract_paths p \<noteq> [] \<and>
       list_ex (\<lambda>cp. under_any_contract_root cp (pi_contract_paths p)) paths) ps"

definition join_consumer :: "(string \<Rightarrow> bool) \<Rightarrow> project_info \<Rightarrow> scan_state \<Rightarrow> string \<Rightarrow> scan_state" where
  "join_consumer touched p st provider =
     (if touched provider \<and> \<not> gm_true (ss_direct st) (pi_name p) then
        st\<lparr>ss_direct := gm_put (ss_direct st) (pi_name p) False,
           ss_reasons := gm_put (ss_reasons st) ConsumesContract True\<rparr>
      else st)"

definition seed_consumers :: "project_info list \<Rightarrow> string list \<Rightarrow> scan_state \<Rightarrow> scan_state" where
  "seed_consumers ps paths st =
     foldl (\<lambda>st p. foldl (join_consumer (contract_touched ps paths) p) st (pi_consumes p)) st ps"

definition ref_of :: "(string, project_info) gomap \<Rightarrow> (string, bool) gomap \<Rightarrow> string \<Rightarrow> project_ref" where
  "ref_of names direct n =
     (case gm_get names n of
        None \<Rightarrow> \<lparr>pr_name = [], pr_path = [], pr_direct = gm_true direct n\<rparr>
      | Some p \<Rightarrow> \<lparr>pr_name = pi_name p, pr_path = pi_path p, pr_direct = gm_true direct n\<rparr>)"

definition scan_start :: scan_state where
  "scan_start = \<lparr>ss_run = False, ss_blunt = False, ss_refinable = False, ss_direct = gm_empty,
     ss_reasons = gm_empty\<rparr>"

definition compute :: "project_info list \<Rightarrow> string list \<Rightarrow> aff_options \<Rightarrow> aff_result" where
  "compute ps changed opts =
     (let paths = dedup_sorted changed;
          st = seed_consumers ps paths (foldl (scan_path ps opts) scan_start paths);
          (closed, saw) = close_over_dependents ps (ss_direct st);
          reasons = (if saw then gm_put (ss_reasons st) DependsOn True else ss_reasons st)
      in \<lparr>ar_id = computation_id paths,
          ar_projects = sort_key pr_name (map (ref_of (by_name ps) (ss_direct st)) (gm_keys closed)),
          ar_paths = paths,
          ar_reasons = filter (gm_true reasons) [DirectPath, DependsOn, RootInvalidation, ConsumesContract],
          ar_run_everything = ss_run st,
          ar_refinable_only = (ss_run st \<and> ss_refinable st \<and> \<not> ss_blunt st)\<rparr>)"

definition close_over_dependent_names :: "project_info list \<Rightarrow> string list \<Rightarrow> project_ref list" where
  "close_over_dependent_names ps names =
     (let nm = by_name ps;
          seed = foldl (\<lambda>m n. if gm_get nm n \<noteq> None then gm_put m n True else m) gm_empty names;
          (closed, saw) = close_over_dependents ps seed
      in sort_key pr_name
           (map (\<lambda>n. \<lparr>pr_name = n, pr_path = (case gm_get nm n of None \<Rightarrow> [] | Some p \<Rightarrow> pi_path p),
                      pr_direct = gm_true seed n\<rparr>) (gm_keys closed)))"

section \<open>What the closure computes\<close>

text \<open>
  The names the reverse walk continues through, and the names it reports: a test edge adds its
  declarer and stops there.
\<close>

inductive reaches :: "project_info list \<Rightarrow> string set \<Rightarrow> string \<Rightarrow> bool" for ps S where
  seed: "n \<in> S \<Longrightarrow> reaches ps S n"
| dependent: "reaches ps S d \<Longrightarrow> p \<in> set ps \<Longrightarrow> d \<in> set (pi_deps p) \<Longrightarrow> reaches ps S (pi_name p)"

inductive affected_by :: "project_info list \<Rightarrow> string set \<Rightarrow> string \<Rightarrow> bool" for ps S where
  reached: "reaches ps S n \<Longrightarrow> affected_by ps S n"
| test_edge: "reaches ps S d \<Longrightarrow> p \<in> set ps \<Longrightarrow> d \<in> set (pi_test_deps p) \<Longrightarrow> affected_by ps S (pi_name p)"

lemma edge_map_inner:
  "gm_sub (foldl (\<lambda>m dep. gm_put m dep (gm_sub m dep @ [x])) m ds) d =
     gm_sub m d @ replicate (count_list ds d) x"
  by (induction ds arbitrary: m) (auto simp: replicate_app_Cons_same)

lemma edge_map_outer:
  "gm_sub (foldl (\<lambda>m p. foldl (\<lambda>m dep. gm_put m dep (gm_sub m dep @ [pi_name p])) m (e p)) m ps) d =
     gm_sub m d @ concat (map (\<lambda>p. replicate (count_list (e p) d) (pi_name p)) ps)"
  by (induction ps arbitrary: m) (auto simp: edge_map_inner)

lemma set_edge_map:
  "set (gm_sub (edge_map e ps) d) = {pi_name p | p. p \<in> set ps \<and> d \<in> set (e p)}"
  by (auto simp: edge_map_def edge_map_outer count_list_0_iff)

text \<open>A set held as a Go map: every value is true, no key occurs twice.\<close>

definition set_map :: "(string, bool) gomap \<Rightarrow> bool" where
  "set_map m \<longleftrightarrow> gm_wf m \<and> (\<forall>k. gm_get m k \<noteq> Some False)"

lemma set_map_put [simp]: "set_map m \<Longrightarrow> set_map (gm_put m k True)"
  by (simp add: set_map_def)

lemma set_map_empty [simp]: "set_map gm_empty"
  by (simp add: set_map_def)

lemma set_map_keys: "set_map m \<Longrightarrow> k \<in> set (gm_keys m) \<longleftrightarrow> gm_true m k"
  unfolding set_map_def gm_keys_iff gm_true_def by (metis (full_types) option.exhaust option.distinct(1))

lemma set_map_fold: "set_map m \<Longrightarrow> set_map (foldl (\<lambda>m n. gm_put m n True) m ns)"
  by (induction ns arbitrary: m) auto

lemma gm_true_fold: "gm_true (foldl (\<lambda>m n. gm_put m n True) m ns) k \<longleftrightarrow> k \<in> set ns \<or> gm_true m k"
  by (induction ns arbitrary: m) auto

lemma mark_affected_true [simp]:
  "gm_true (w_affected (mark_affected st d)) n \<longleftrightarrow> n = d \<or> gm_true (w_affected st) n"
  by (auto simp: mark_affected_def)

lemma mark_affected_saw [simp]:
  "w_saw (mark_affected st d) \<longleftrightarrow> w_saw st \<or> \<not> gm_true (w_affected st) d"
  by (auto simp: mark_affected_def)

lemma visit_dependent_fields [simp]:
  "w_affected (visit_dependent st d) = w_affected (mark_affected st d)"
  "w_saw (visit_dependent st d) = w_saw (mark_affected st d)"
  by (simp_all add: visit_dependent_def Let_def)

lemma foldl_mark_true:
  "gm_true (w_affected (foldl mark_affected st ds)) n \<longleftrightarrow> n \<in> set ds \<or> gm_true (w_affected st) n"
  "w_saw (foldl mark_affected st ds) \<longleftrightarrow> w_saw st \<or> (\<exists>d \<in> set ds. \<not> gm_true (w_affected st) d)"
  by (induction ds arbitrary: st) auto

lemma foldl_visit_true:
  "gm_true (w_affected (foldl visit_dependent st ds)) n \<longleftrightarrow> n \<in> set ds \<or> gm_true (w_affected st) n"
  "w_saw (foldl visit_dependent st ds) \<longleftrightarrow> w_saw st \<or> (\<exists>d \<in> set ds. \<not> gm_true (w_affected st) d)"
  by (induction ds arbitrary: st) auto

lemma foldl_visit_queue:
  "set (w_queue (foldl visit_dependent st ds)) =
     set (w_queue st) \<union> {d \<in> set ds. \<not> gm_true (w_walked st) d}"
  by (induction ds arbitrary: st) (auto simp: visit_dependent_queue)

lemma set_map_mark: "set_map (w_affected st) \<Longrightarrow> set_map (w_affected (mark_affected st d))"
  by (simp add: mark_affected_def)

lemma set_map_foldl:
  "set_map (w_affected st) \<Longrightarrow> set_map (w_affected (foldl mark_affected st ds))"
  "set_map (w_affected st) \<Longrightarrow> set_map (w_affected (foldl visit_dependent st ds))"
  by (induction ds arbitrary: st) (auto simp: set_map_mark)

lemma walk_step_affected:
  "gm_true (w_affected (walk_step deps tdeps cur st)) n \<longleftrightarrow>
     n \<in> set (gm_sub deps cur) \<or> n \<in> set (gm_sub tdeps cur) \<or> gm_true (w_affected st) n"
  by (auto simp: walk_step_def foldl_mark_true foldl_visit_true)

lemma walk_step_saw:
  "w_saw (walk_step deps tdeps cur st) \<longleftrightarrow>
     w_saw st \<or> (\<exists>d \<in> set (gm_sub deps cur) \<union> set (gm_sub tdeps cur). \<not> gm_true (w_affected st) d)"
  by (auto simp: walk_step_def foldl_mark_true foldl_visit_true)

lemma walk_step_queue:
  "set (w_queue (walk_step deps tdeps cur st)) =
     set (w_queue st) \<union> {d \<in> set (gm_sub deps cur). \<not> gm_true (w_walked st) d}"
  by (simp add: walk_step_def foldl_visit_queue)

lemma set_map_walk_step:
  "set_map (w_affected st) \<Longrightarrow> set_map (w_affected (walk_step deps tdeps cur st))"
  by (simp add: walk_step_def set_map_foldl)

lemma walk_rule:
  assumes "P st"
    and "\<And>st cur q. P st \<Longrightarrow> w_queue st = cur # q \<Longrightarrow> P (walk_step deps tdeps cur (st\<lparr>w_queue := q\<rparr>))"
  shows "P (walk deps tdeps st) \<and> w_queue (walk deps tdeps st) = []"
  using assms
proof (induction deps tdeps st rule: walk.induct)
  case (1 deps tdeps st)
  then show ?case by (subst (1 2) walk.simps) (auto split: list.splits)
qed

text \<open>The invariant of the walk over the projects \<open>ps\<close> from the seed \<open>S\<close>.\<close>

definition walk_inv :: "project_info list \<Rightarrow> string set \<Rightarrow> walk_state \<Rightarrow> bool" where
  "walk_inv ps S st \<longleftrightarrow>
     set_map (w_affected st) \<and>
     (\<forall>n \<in> S. gm_true (w_walked st) n) \<and>
     (\<forall>n. gm_true (w_walked st) n \<longrightarrow> gm_true (w_affected st) n \<and> reaches ps S n) \<and>
     (\<forall>n \<in> set (w_queue st). gm_true (w_walked st) n) \<and>
     (\<forall>n. gm_true (w_affected st) n \<longrightarrow> affected_by ps S n) \<and>
     (\<forall>n. gm_true (w_walked st) n \<longrightarrow> n \<notin> set (w_queue st) \<longrightarrow>
        (\<forall>p \<in> set ps. (n \<in> set (pi_deps p) \<longrightarrow> gm_true (w_walked st) (pi_name p)) \<and>
           (n \<in> set (pi_test_deps p) \<longrightarrow> gm_true (w_affected st) (pi_name p)))) \<and>
     (w_saw st \<longleftrightarrow> (\<exists>n. gm_true (w_affected st) n \<and> n \<notin> S))"

lemma walk_inv_step:
  assumes inv: "walk_inv ps S st" and q: "w_queue st = cur # q"
  shows "walk_inv ps S (walk_step (edge_map pi_deps ps) (edge_map pi_test_deps ps) cur (st\<lparr>w_queue := q\<rparr>))"
    (is "walk_inv ps S ?new")
proof -
  let ?W = "gm_true (w_walked st)" and ?A = "gm_true (w_affected st)"
  have sm: "set_map (w_affected st)" and seeds: "\<And>n. n \<in> S \<Longrightarrow> ?W n"
    and W: "\<And>n. ?W n \<Longrightarrow> ?A n" "\<And>n. ?W n \<Longrightarrow> reaches ps S n" and Q: "\<And>n. n \<in> set (w_queue st) \<Longrightarrow> ?W n"
    and A: "\<And>n. ?A n \<Longrightarrow> affected_by ps S n"
    and closed: "\<And>n p. ?W n \<Longrightarrow> n \<notin> set (w_queue st) \<Longrightarrow> p \<in> set ps \<Longrightarrow> n \<in> set (pi_deps p) \<Longrightarrow> ?W (pi_name p)"
      "\<And>n p. ?W n \<Longrightarrow> n \<notin> set (w_queue st) \<Longrightarrow> p \<in> set ps \<Longrightarrow> n \<in> set (pi_test_deps p) \<Longrightarrow> ?A (pi_name p)"
    and saw: "w_saw st \<longleftrightarrow> (\<exists>n. ?A n \<and> n \<notin> S)"
    using inv unfolding walk_inv_def by blast+
  have cur: "?W cur" "reaches ps S cur" using Q W q by auto
  have nW: "gm_true (w_walked ?new) n \<longleftrightarrow> (\<exists>p \<in> set ps. n = pi_name p \<and> cur \<in> set (pi_deps p)) \<or> ?W n" for n
    by (auto simp: set_edge_map)
  have nA: "gm_true (w_affected ?new) n \<longleftrightarrow>
      (\<exists>p \<in> set ps. n = pi_name p \<and> (cur \<in> set (pi_deps p) \<or> cur \<in> set (pi_test_deps p))) \<or> ?A n" for n
    by (auto simp: walk_step_affected set_edge_map)
  have nQ: "n \<in> set (w_queue ?new) \<longleftrightarrow>
      n \<in> set q \<or> (\<exists>p \<in> set ps. n = pi_name p \<and> cur \<in> set (pi_deps p)) \<and> \<not> ?W n" for n
    by (auto simp: walk_step_queue set_edge_map)
  have nS: "w_saw ?new \<longleftrightarrow> (\<exists>n. gm_true (w_affected ?new) n \<and> n \<notin> S)"
    using saw seeds W by (auto simp: walk_step_saw nA set_edge_map)
  have "set_map (w_affected ?new)" by (rule set_map_walk_step) (simp add: sm)
  moreover have "\<forall>n \<in> S. gm_true (w_walked ?new) n" by (simp only: nW) (use seeds in blast)
  moreover have "\<forall>n. gm_true (w_walked ?new) n \<longrightarrow> gm_true (w_affected ?new) n \<and> reaches ps S n"
    by (simp only: nW nA) (use W cur in \<open>blast intro: reaches.dependent\<close>)
  moreover have "\<forall>n \<in> set (w_queue ?new). gm_true (w_walked ?new) n"
    using Q q by (simp only: nW nQ Ball_def) auto
  moreover have "\<forall>n. gm_true (w_affected ?new) n \<longrightarrow> affected_by ps S n"
    by (simp only: nA) (use A cur in \<open>blast intro: reaches.dependent affected_by.intros\<close>)
  moreover have "\<forall>n. gm_true (w_walked ?new) n \<longrightarrow> n \<notin> set (w_queue ?new) \<longrightarrow>
        (\<forall>p \<in> set ps. (n \<in> set (pi_deps p) \<longrightarrow> gm_true (w_walked ?new) (pi_name p)) \<and>
           (n \<in> set (pi_test_deps p) \<longrightarrow> gm_true (w_affected ?new) (pi_name p)))"
  proof (intro allI impI ballI)
    fix n p
    assume n: "gm_true (w_walked ?new) n" "n \<notin> set (w_queue ?new)" and p: "p \<in> set ps"
    then have "?W n" "n \<notin> set q" by (auto simp only: nW nQ)
    then have "n = cur \<or> ?W n \<and> n \<notin> set (w_queue st)" using q by auto
    then show "(n \<in> set (pi_deps p) \<longrightarrow> gm_true (w_walked ?new) (pi_name p)) \<and>
        (n \<in> set (pi_test_deps p) \<longrightarrow> gm_true (w_affected ?new) (pi_name p))"
    proof
      assume "n = cur"
      then have "n \<in> set (pi_deps p) \<Longrightarrow> gm_true (w_walked ?new) (pi_name p)"
        "n \<in> set (pi_test_deps p) \<Longrightarrow> gm_true (w_affected ?new) (pi_name p)"
        using p by (auto simp only: nW nA)
      then show ?thesis by blast
    next
      assume "?W n \<and> n \<notin> set (w_queue st)"
      then have "n \<in> set (pi_deps p) \<Longrightarrow> ?W (pi_name p)" "n \<in> set (pi_test_deps p) \<Longrightarrow> ?A (pi_name p)"
        using closed p by blast+
      then show ?thesis by (simp only: nW nA) simp
    qed
  qed
  ultimately show ?thesis
    unfolding walk_inv_def using nS by blast
qed

lemma walk_inv_start:
  "walk_inv ps (set names) \<lparr>w_affected = foldl (\<lambda>m n. gm_put m n True) gm_empty names,
     w_walked = foldl (\<lambda>m n. gm_put m n True) gm_empty names, w_queue = names, w_saw = False\<rparr>"
  by (auto simp: walk_inv_def set_map_fold gm_true_fold intro: reaches.seed affected_by.reached)

lemma close_over_dependents_spec:
  assumes "close_over_dependents ps direct = (closed, saw)"
  shows "set_map closed" "set (gm_keys closed) = {n. affected_by ps (set (gm_keys direct)) n}"
    "saw \<longleftrightarrow> (\<exists>n. affected_by ps (set (gm_keys direct)) n \<and> n \<notin> set (gm_keys direct))"
proof -
  let ?S = "set (gm_keys direct)"
  define fin where "fin = walk (edge_map pi_deps ps) (edge_map pi_test_deps ps)
    \<lparr>w_affected = foldl (\<lambda>m n. gm_put m n True) gm_empty (gm_keys direct),
     w_walked = foldl (\<lambda>m n. gm_put m n True) gm_empty (gm_keys direct),
     w_queue = gm_keys direct, w_saw = False\<rparr>"
  have fin: "walk_inv ps ?S fin" "w_queue fin = []"
    using walk_rule [where P = "walk_inv ps ?S", OF walk_inv_start walk_inv_step]
    unfolding fin_def by auto
  have res: "closed = w_affected fin" "saw = w_saw fin"
    using assms by (auto simp: close_over_dependents_def fin_def Let_def)
  have facts: "set_map (w_affected fin)" "\<And>n. n \<in> ?S \<Longrightarrow> gm_true (w_walked fin) n"
    "\<And>n. gm_true (w_walked fin) n \<Longrightarrow> gm_true (w_affected fin) n"
    "\<And>n. gm_true (w_affected fin) n \<Longrightarrow> affected_by ps ?S n"
    "\<And>n p. gm_true (w_walked fin) n \<Longrightarrow> p \<in> set ps \<Longrightarrow> n \<in> set (pi_deps p) \<Longrightarrow> gm_true (w_walked fin) (pi_name p)"
    "\<And>n p. gm_true (w_walked fin) n \<Longrightarrow> p \<in> set ps \<Longrightarrow> n \<in> set (pi_test_deps p) \<Longrightarrow> gm_true (w_affected fin) (pi_name p)"
    "w_saw fin \<longleftrightarrow> (\<exists>n. gm_true (w_affected fin) n \<and> n \<notin> ?S)"
    using fin unfolding walk_inv_def by auto
  have walked: "reaches ps ?S n \<Longrightarrow> gm_true (w_walked fin) n" for n
    by (induction rule: reaches.induct) (blast intro: facts)+
  have aff: "affected_by ps ?S n \<longleftrightarrow> gm_true (w_affected fin) n" for n
    by (rule iffI, erule affected_by.cases) (blast intro: facts walked)+
  then show "set_map closed" "set (gm_keys closed) = {n. affected_by ps ?S n}"
    "saw \<longleftrightarrow> (\<exists>n. affected_by ps ?S n \<and> n \<notin> ?S)"
    using facts by (auto simp: res set_map_keys)
qed

section \<open>What the loop over the changed paths computes\<close>

text \<open>A path escalates, unless a successful snapshot diff already handled its refinable pattern.\<close>

definition escalates :: "aff_options \<Rightarrow> string \<Rightarrow> bool" where
  "escalates opts cp \<longleftrightarrow>
     (case match_ordered_which (opt_root_inval opts) cp of
        (pat, e) \<Rightarrow> e \<and> \<not> (pat \<in> set (opt_refinable opts) \<and> opt_refinable_handled opts))"

definition escalates_refinable :: "aff_options \<Rightarrow> string \<Rightarrow> bool" where
  "escalates_refinable opts cp \<longleftrightarrow>
     escalates opts cp \<and> fst (match_ordered_which (opt_root_inval opts) cp) \<in> set (opt_refinable opts)"

definition attributed_to :: "project_info list \<Rightarrow> aff_options \<Rightarrow> string \<Rightarrow> string option" where
  "attributed_to ps opts cp =
     (if escalates opts cp then None
      else (case find_root_project ps of
              Some root \<Rightarrow> if match_ordered (opt_prose opts) cp then Some (pi_name root)
                            else map_option pi_name (find_owner ps cp)
            | None \<Rightarrow> map_option pi_name (find_owner ps cp)))"

definition unscoped :: "project_info list \<Rightarrow> aff_options \<Rightarrow> string \<Rightarrow> bool" where
  "unscoped ps opts cp \<longleftrightarrow>
     \<not> escalates opts cp \<and> attributed_to ps opts cp = None \<and> opt_strictness opts \<noteq> strictness_aggressive"

definition direct_names :: "project_info list \<Rightarrow> aff_options \<Rightarrow> string set \<Rightarrow> string set" where
  "direct_names ps opts P = {n. \<exists>cp \<in> P. attributed_to ps opts cp = Some n}"

definition consumer_names :: "project_info list \<Rightarrow> string set \<Rightarrow> string set" where
  "consumer_names ps P = {pi_name c | c provider prov cp. c \<in> set ps \<and> provider \<in> set (pi_consumes c) \<and>
     prov \<in> set ps \<and> pi_name prov = provider \<and> cp \<in> P \<and> under_any_contract_root cp (pi_contract_paths prov)}"

lemma own_path_fields:
  "ss_run (own_path ps opts st cp) \<longleftrightarrow> ss_run st \<or> find_owner ps cp = None \<and> opt_strictness opts \<noteq> strictness_aggressive"
  "ss_blunt (own_path ps opts st cp) \<longleftrightarrow> ss_blunt st \<or> find_owner ps cp = None \<and> opt_strictness opts \<noteq> strictness_aggressive"
  "ss_refinable (own_path ps opts st cp) = ss_refinable st"
  "ss_direct (own_path ps opts st cp) =
     (case find_owner ps cp of None \<Rightarrow> ss_direct st | Some p \<Rightarrow> gm_put (ss_direct st) (pi_name p) True)"
  "gm_true (ss_reasons (own_path ps opts st cp)) r \<longleftrightarrow> gm_true (ss_reasons st) r \<or>
     r = DirectPath \<and> find_owner ps cp \<noteq> None \<or>
     r = RootInvalidation \<and> find_owner ps cp = None \<and> opt_strictness opts \<noteq> strictness_aggressive"
  by (auto simp: own_path_def mark_direct_def split: option.splits)

lemma scan_path_fields:
  "ss_run (scan_path ps opts st cp) \<longleftrightarrow> ss_run st \<or> escalates opts cp \<or> unscoped ps opts cp"
  "ss_blunt (scan_path ps opts st cp) \<longleftrightarrow>
     ss_blunt st \<or> escalates opts cp \<and> \<not> escalates_refinable opts cp \<or> unscoped ps opts cp"
  "ss_refinable (scan_path ps opts st cp) \<longleftrightarrow> ss_refinable st \<or> escalates_refinable opts cp"
  "ss_direct (scan_path ps opts st cp) =
     (case attributed_to ps opts cp of None \<Rightarrow> ss_direct st | Some n \<Rightarrow> gm_put (ss_direct st) n True)"
  "gm_true (ss_reasons (scan_path ps opts st cp)) r \<longleftrightarrow> gm_true (ss_reasons st) r \<or>
     r = DirectPath \<and> attributed_to ps opts cp \<noteq> None \<or>
     r = RootInvalidation \<and> (escalates opts cp \<or> unscoped ps opts cp)"
  by (auto simp: scan_path_def escalates_def escalates_refinable_def attributed_to_def unscoped_def
      attribute_path_def own_path_fields mark_direct_def split: prod.splits option.splits if_splits)

lemma scan_paths_fields:
  "ss_run (foldl (scan_path ps opts) st paths) \<longleftrightarrow>
     ss_run st \<or> (\<exists>cp \<in> set paths. escalates opts cp \<or> unscoped ps opts cp)"
  "ss_blunt (foldl (scan_path ps opts) st paths) \<longleftrightarrow>
     ss_blunt st \<or> (\<exists>cp \<in> set paths. escalates opts cp \<and> \<not> escalates_refinable opts cp \<or> unscoped ps opts cp)"
  "ss_refinable (foldl (scan_path ps opts) st paths) \<longleftrightarrow>
     ss_refinable st \<or> (\<exists>cp \<in> set paths. escalates_refinable opts cp)"
  "gm_true (ss_direct (foldl (scan_path ps opts) st paths)) n \<longleftrightarrow>
     gm_true (ss_direct st) n \<or> n \<in> direct_names ps opts (set paths)"
  "set (gm_keys (ss_direct (foldl (scan_path ps opts) st paths))) =
     set (gm_keys (ss_direct st)) \<union> direct_names ps opts (set paths)"
  "gm_true (ss_reasons (foldl (scan_path ps opts) st paths)) r \<longleftrightarrow> gm_true (ss_reasons st) r \<or>
     r = DirectPath \<and> direct_names ps opts (set paths) \<noteq> {} \<or>
     r = RootInvalidation \<and> (\<exists>cp \<in> set paths. escalates opts cp \<or> unscoped ps opts cp)"
proof (induction paths arbitrary: st)
  case Nil
  {
    case 4
    show ?case by (simp add: direct_names_def)
  next
    case 5
    show ?case by (simp add: direct_names_def)
  next
    case 6
    show ?case by (simp add: direct_names_def)
  }
qed (auto simp: scan_path_fields direct_names_def split: option.splits)

lemma join_consumer_fields:
  "ss_run (join_consumer t p st x) = ss_run st" "ss_blunt (join_consumer t p st x) = ss_blunt st"
  "ss_refinable (join_consumer t p st x) = ss_refinable st"
  "gm_true (ss_direct (join_consumer t p st x)) n \<longleftrightarrow> gm_true (ss_direct st) n"
  "set (gm_keys (ss_direct (join_consumer t p st x))) =
     set (gm_keys (ss_direct st)) \<union> (if t x then {pi_name p} else {})"
  "gm_true (ss_reasons (join_consumer t p st x)) r \<longleftrightarrow> gm_true (ss_reasons st) r \<or>
     r = ConsumesContract \<and> t x \<and> \<not> gm_true (ss_direct st) (pi_name p)"
  by (auto simp: join_consumer_def gm_true_def gm_keys_iff)

lemma join_consumers_fields:
  "ss_run (foldl (join_consumer t p) st xs) = ss_run st"
  "ss_blunt (foldl (join_consumer t p) st xs) = ss_blunt st"
  "ss_refinable (foldl (join_consumer t p) st xs) = ss_refinable st"
  "gm_true (ss_direct (foldl (join_consumer t p) st xs)) n \<longleftrightarrow> gm_true (ss_direct st) n"
  "set (gm_keys (ss_direct (foldl (join_consumer t p) st xs))) =
     set (gm_keys (ss_direct st)) \<union> {pi_name p | x. x \<in> set xs \<and> t x}"
  "gm_true (ss_reasons (foldl (join_consumer t p) st xs)) r \<longleftrightarrow> gm_true (ss_reasons st) r \<or>
     r = ConsumesContract \<and> (\<exists>x \<in> set xs. t x) \<and> \<not> gm_true (ss_direct st) (pi_name p)"
  by (induction xs arbitrary: st) (auto simp: join_consumer_fields)

lemma join_all_fields:
  fixes t :: "string \<Rightarrow> bool"
  defines "J \<equiv> foldl (\<lambda>st p. foldl (join_consumer t p) st (pi_consumes p))"
  shows "ss_run (J st qs) = ss_run st" "ss_blunt (J st qs) = ss_blunt st" "ss_refinable (J st qs) = ss_refinable st"
    "gm_true (ss_direct (J st qs)) n \<longleftrightarrow> gm_true (ss_direct st) n"
    "set (gm_keys (ss_direct (J st qs))) =
       set (gm_keys (ss_direct st)) \<union> {pi_name p | p x. p \<in> set qs \<and> x \<in> set (pi_consumes p) \<and> t x}"
    "gm_true (ss_reasons (J st qs)) r \<longleftrightarrow> gm_true (ss_reasons st) r \<or>
       r = ConsumesContract \<and> (\<exists>p \<in> set qs. (\<exists>x \<in> set (pi_consumes p). t x) \<and> \<not> gm_true (ss_direct st) (pi_name p))"
  unfolding J_def by (induction qs arbitrary: st) (auto simp: join_consumers_fields)

lemma contract_touched_iff:
  "contract_touched ps paths name \<longleftrightarrow>
     (\<exists>prov \<in> set ps. pi_name prov = name \<and> (\<exists>cp \<in> set paths. under_any_contract_root cp (pi_contract_paths prov)))"
proof -
  have "under_any_contract_root cp [] = False" for cp
    by (simp add: under_any_contract_root_def)
  then show ?thesis
    unfolding contract_touched_def list_ex_iff by metis
qed

lemma consumer_names_touched:
  "{pi_name p | p x. p \<in> set ps \<and> x \<in> set (pi_consumes p) \<and> contract_touched ps paths x} = consumer_names ps (set paths)"
  by (auto simp: consumer_names_def contract_touched_iff)

lemmas seed_consumers_fields =
  join_all_fields [where t = "contract_touched ps paths" and qs = ps for ps paths,
    folded seed_consumers_def, unfolded consumer_names_touched]

subsection \<open>Names resolve to projects\<close>

lemma by_name_get:
  "gm_get (by_name ps) n = (if \<exists>p \<in> set ps. pi_name p = n then Some (last (filter (\<lambda>p. pi_name p = n) ps)) else None)"
  unfolding by_name_def by (subst gm.get_fold_put) simp

lemma by_name_name: "gm_get (by_name ps) n = Some p \<Longrightarrow> pi_name p = n \<and> p \<in> set ps"
  using last_in_set [of "filter (\<lambda>p. pi_name p = n) ps"]
  by (force simp: by_name_get filter_empty_conv split: if_splits)

lemma owner_step_alt:
  "owner_step cp b p = (if covers (pi_path p) cp \<and> (case b of None \<Rightarrow> True | Some q \<Rightarrow> length (pi_path p) > length (pi_path q))
     then Some p else b)"
  by (auto simp: owner_step_def covers_def under_dir_def split: option.splits)

lemma find_owner_longest: "find_owner = longest_by pi_path"
proof (rule ext, rule ext)
  fix ps cp
  have "owner_step cp = (\<lambda>b x. if covers (pi_path x) cp \<and>
      (case b of None \<Rightarrow> True | Some y \<Rightarrow> length (pi_path y) < length (pi_path x)) then Some x else b)"
    by (intro ext) (rule owner_step_alt)
  then show "find_owner ps cp = longest_by pi_path ps cp"
    by (simp add: find_owner_def longest_by_def)
qed

interpretation fo: longest_owner pi_path find_owner
  unfolding find_owner_longest by (rule lb.longest_owner_axioms)

lemma find_owner_in: "find_owner ps cp = Some p \<Longrightarrow> p \<in> set ps"
  using fo.owner_sound by blast

lemma find_root_in: "find_root_project ps = Some p \<Longrightarrow> p \<in> set ps \<and> pi_path p = []"
  by (auto simp: find_root_project_def find_Some_iff)

lemma attributed_to_project: "attributed_to ps opts cp = Some n \<Longrightarrow> \<exists>p \<in> set ps. pi_name p = n"
  by (auto simp: attributed_to_def split: if_splits option.splits dest!: find_owner_in find_root_in)

lemma direct_names_project: "direct_names ps opts P \<subseteq> pi_name ` set ps"
  using attributed_to_project by (fastforce simp: direct_names_def)

lemma consumer_names_project: "consumer_names ps P \<subseteq> pi_name ` set ps"
  by (auto simp: consumer_names_def)

lemma reaches_project: "reaches ps S n \<Longrightarrow> S \<subseteq> pi_name ` set ps \<Longrightarrow> n \<in> pi_name ` set ps"
  by (induction rule: reaches.induct) auto

lemma affected_by_project: "affected_by ps S n \<Longrightarrow> S \<subseteq> pi_name ` set ps \<Longrightarrow> n \<in> pi_name ` set ps"
  by (induction rule: affected_by.induct) (auto dest: reaches_project)

lemma ref_of_name: "n \<in> pi_name ` set ps \<Longrightarrow> pr_name (ref_of (by_name ps) d n) = n"
  by (auto simp: ref_of_def by_name_get split: option.splits dest: by_name_name)
    (metis by_name_get by_name_name)

lemma ref_of_direct [simp]: "pr_direct (ref_of m d n) = gm_true d n"
  by (simp add: ref_of_def split: option.splits)

lemma distinct_remdups_adj: "sorted xs \<Longrightarrow> distinct (remdups_adj xs)"
  by (induction xs rule: remdups_adj.induct) (auto simp: order.antisym)

lemma dedup_sorted_names: "dedup_sorted xs = sorted_names xs"
  unfolding dedup_sorted_def
  by (rule sorted_distinct_eqI) (auto simp: distinct_remdups_adj sorted_remdups_adj)


section \<open>The result of the computation\<close>

text \<open>The scan state that the loops leave, and the closure over it.\<close>

definition scanned :: "project_info list \<Rightarrow> string list \<Rightarrow> aff_options \<Rightarrow> scan_state" where
  "scanned ps changed opts =
     (let paths = dedup_sorted changed
      in seed_consumers ps paths (foldl (scan_path ps opts) scan_start paths))"

lemma set_dedup_sorted [simp]: "set (dedup_sorted xs) = set xs"
  by (simp add: dedup_sorted_names)

lemma scanned_fields:
  "ss_run (scanned ps changed opts) \<longleftrightarrow> (\<exists>cp \<in> set changed. escalates opts cp \<or> unscoped ps opts cp)"
  "ss_blunt (scanned ps changed opts) \<longleftrightarrow>
     (\<exists>cp \<in> set changed. escalates opts cp \<and> \<not> escalates_refinable opts cp \<or> unscoped ps opts cp)"
  "ss_refinable (scanned ps changed opts) \<longleftrightarrow> (\<exists>cp \<in> set changed. escalates_refinable opts cp)"
  "gm_true (ss_direct (scanned ps changed opts)) n \<longleftrightarrow> n \<in> direct_names ps opts (set changed)"
  "set (gm_keys (ss_direct (scanned ps changed opts))) =
     direct_names ps opts (set changed) \<union> consumer_names ps (set changed)"
  by (simp_all add: scanned_def Let_def seed_consumers_fields scan_paths_fields scan_start_def)

lemma compute_alt:
  "compute ps changed opts =
     (let st = scanned ps changed opts; (closed, saw) = close_over_dependents ps (ss_direct st);
          reasons = (if saw then gm_put (ss_reasons st) DependsOn True else ss_reasons st)
      in \<lparr>ar_id = computation_id (dedup_sorted changed),
          ar_projects = sort_key pr_name (map (ref_of (by_name ps) (ss_direct st)) (gm_keys closed)),
          ar_paths = dedup_sorted changed,
          ar_reasons = filter (gm_true reasons) [DirectPath, DependsOn, RootInvalidation, ConsumesContract],
          ar_run_everything = ss_run st,
          ar_refinable_only = (ss_run st \<and> ss_refinable st \<and> \<not> ss_blunt st)\<rparr>)"
  by (simp add: compute_def scanned_def Let_def)


text \<open>The names the result lists: everything affected by the seed.\<close>

definition affected_names :: "project_info list \<Rightarrow> string set \<Rightarrow> aff_options \<Rightarrow> string set" where
  "affected_names ps P opts = {n. affected_by ps (direct_names ps opts P \<union> consumer_names ps P) n}"

lemma affected_names_project: "affected_names ps P opts \<subseteq> pi_name ` set ps"
  using affected_by_project direct_names_project consumer_names_project
  unfolding affected_names_def by (metis (no_types, lifting) Un_subset_iff mem_Collect_eq subsetI)

lemma closed_keys:
  assumes "close_over_dependents ps (ss_direct (scanned ps changed opts)) = (closed, saw)"
  shows "set (gm_keys closed) = affected_names ps (set changed) opts" "distinct (gm_keys closed)"
  using close_over_dependents_spec(2) [OF assms] close_over_dependents_spec(1) [OF assms]
  by (simp_all add: affected_names_def scanned_fields set_map_def gm.wf_keys)

lemma ref_names:
  "set ns \<subseteq> pi_name ` set ps \<Longrightarrow> map (\<lambda>n. pr_name (ref_of (by_name ps) d n)) ns = ns"
  by (rule map_idI) (auto simp: ref_of_name)

lemma sorted_key_names:
  assumes "distinct ns" "set ns \<subseteq> pi_name ` set ps"
  shows "map pr_name (sort_key pr_name (map (ref_of (by_name ps) d) ns)) = sorted_names ns"
proof (rule sorted_distinct_eqI)
  have "mset (map pr_name (sort_key pr_name (map (ref_of (by_name ps) d) ns))) = mset ns"
    using ref_names [OF assms(2), of d] by (metis (no_types, lifting) list.map_comp comp_def map_eq_conv mset_map mset_sort)
  then show "distinct (map pr_name (sort_key pr_name (map (ref_of (by_name ps) d) ns)))"
    "set (map pr_name (sort_key pr_name (map (ref_of (by_name ps) d) ns))) = set (sorted_names ns)"
    using assms(1) by (metis mset_eq_imp_distinct_iff, metis mset_eq_setD set_sorted_names)
qed simp_all

lemma ar_projects_names:
  "map pr_name (ar_projects (compute ps changed opts)) = sorted_list_of_set (affected_names ps (set changed) opts)"
proof -
  obtain closed saw where c: "close_over_dependents ps (ss_direct (scanned ps changed opts)) = (closed, saw)"
    by fastforce
  note k = closed_keys [OF c]
  then have "map pr_name (ar_projects (compute ps changed opts)) = sorted_names (gm_keys closed)"
    using sorted_key_names affected_names_project by (simp add: compute_alt c Let_def)
  also have "\<dots> = sorted_list_of_set (set (gm_keys closed))"
    by (rule sorted_distinct_eqI) simp_all
  finally show ?thesis by (simp add: k)
qed

lemma ar_projects_set:
  "set (ar_projects (compute ps changed opts)) =
     ref_of (by_name ps) (ss_direct (scanned ps changed opts)) ` affected_names ps (set changed) opts"
proof -
  obtain closed saw where c: "close_over_dependents ps (ss_direct (scanned ps changed opts)) = (closed, saw)"
    by fastforce
  show ?thesis by (simp add: compute_alt c Let_def closed_keys [OF c])
qed

lemma ar_projects_direct:
  "r \<in> set (ar_projects (compute ps changed opts)) \<Longrightarrow>
     pr_direct r \<longleftrightarrow> pr_name r \<in> direct_names ps opts (set changed)"
  using affected_names_project [of ps "set changed" opts]
  by (auto simp: ar_projects_set scanned_fields ref_of_name subset_iff)

lemma ar_flags:
  "ar_run_everything (compute ps changed opts) \<longleftrightarrow> (\<exists>cp \<in> set changed. escalates opts cp \<or> unscoped ps opts cp)"
  "ar_refinable_only (compute ps changed opts) \<longleftrightarrow>
     (\<exists>cp \<in> set changed. escalates opts cp \<or> unscoped ps opts cp) \<and>
     (\<exists>cp \<in> set changed. escalates_refinable opts cp) \<and>
     \<not> (\<exists>cp \<in> set changed. escalates opts cp \<and> \<not> escalates_refinable opts cp \<or> unscoped ps opts cp)"
  by (simp_all add: compute_alt Let_def scanned_fields split: prod.splits)

lemma scanned_reasons:
  "gm_true (ss_reasons (scanned ps changed opts)) r \<longleftrightarrow>
     r = DirectPath \<and> direct_names ps opts (set changed) \<noteq> {} \<or>
     r = RootInvalidation \<and> (\<exists>cp \<in> set changed. escalates opts cp \<or> unscoped ps opts cp) \<or>
     r = ConsumesContract \<and> \<not> consumer_names ps (set changed) \<subseteq> direct_names ps opts (set changed)"
proof -
  have "(\<exists>p \<in> set ps. (\<exists>x \<in> set (pi_consumes p). contract_touched ps (dedup_sorted changed) x) \<and> pi_name p \<notin> D) \<longleftrightarrow>
      \<not> consumer_names ps (set changed) \<subseteq> D" for D
    unfolding consumer_names_touched [of ps "dedup_sorted changed", simplified, symmetric] by blast
  then show ?thesis
    by (simp add: scanned_def Let_def seed_consumers_fields scan_paths_fields scan_start_def)
qed

lemma ar_reasons_set:
  "r \<in> set (ar_reasons (compute ps changed opts)) \<longleftrightarrow>
     (case r of
        DirectPath \<Rightarrow> direct_names ps opts (set changed) \<noteq> {}
      | RootInvalidation \<Rightarrow> ar_run_everything (compute ps changed opts)
      | ConsumesContract \<Rightarrow> \<not> consumer_names ps (set changed) \<subseteq> direct_names ps opts (set changed)
      | DependsOn \<Rightarrow> \<not> affected_names ps (set changed) opts
          \<subseteq> direct_names ps opts (set changed) \<union> consumer_names ps (set changed))"
proof -
  obtain closed saw where c: "close_over_dependents ps (ss_direct (scanned ps changed opts)) = (closed, saw)"
    by fastforce
  have saw: "saw \<longleftrightarrow> \<not> affected_names ps (set changed) opts
      \<subseteq> direct_names ps opts (set changed) \<union> consumer_names ps (set changed)"
    using close_over_dependents_spec(3) [OF c] unfolding scanned_fields affected_names_def by auto
  have "r \<in> set (ar_reasons (compute ps changed opts)) \<longleftrightarrow>
      r = DependsOn \<and> saw \<or> gm_true (ss_reasons (scanned ps changed opts)) r"
    by (cases r) (auto simp: compute_alt c Let_def)
  then show ?thesis
    by (simp add: saw scanned_reasons ar_flags split: reason.splits)
qed


subsection \<open>The order of the inputs does not matter\<close>

lemma find_root_perm:
  assumes "set ps = set qs" "inj_on pi_path (set ps)"
  shows "find_root_project ps = find_root_project qs"
proof (cases "find_root_project ps")
  case None
  then have "find_root_project qs = None"
    using assms(1) unfolding find_root_project_def find_None_iff by simp
  then show ?thesis using None by simp
next
  case (Some p)
  then have p: "p \<in> set qs" "pi_path p = []" using find_root_in assms(1) by auto
  then have "find_root_project qs \<noteq> None"
    unfolding find_root_project_def find_None_iff by blast
  then obtain q where q: "find_root_project qs = Some q" by blast
  have "q = p" using find_root_in [OF q] p inj_onD [OF assms(2), of p q] assms(1) by simp
  then show ?thesis using Some q by simp
qed

lemma attributed_perm:
  "set ps = set qs \<Longrightarrow> inj_on pi_path (set ps) \<Longrightarrow> attributed_to ps opts cp = attributed_to qs opts cp"
  unfolding attributed_to_def using find_root_perm [of ps qs] fo.owner_perm [of ps qs cp] by metis

lemma by_name_unique:
  assumes "p \<in> set ps" "pi_name p = n" "inj_on pi_name (set ps)"
  shows "gm_get (by_name ps) n = Some p"
proof -
  have "gm_get (by_name ps) n \<noteq> None"
    using assms(1, 2) unfolding by_name_get by auto
  then obtain q where q: "gm_get (by_name ps) n = Some q" by blast
  then show ?thesis using by_name_name [OF q] assms by (auto dest: inj_onD)
qed

lemma by_name_perm:
  assumes P: "set ps = set qs" and inj: "inj_on pi_name (set ps)"
  shows "gm_get (by_name ps) n = gm_get (by_name qs) n"
proof (cases "\<exists>p \<in> set ps. pi_name p = n")
  case True
  then obtain p where p: "p \<in> set ps" "pi_name p = n" by blast
  have "gm_get (by_name ps) n = Some p" "gm_get (by_name qs) n = Some p"
    using by_name_unique [OF p inj] by_name_unique [of p qs n] p inj unfolding P by simp_all
  then show ?thesis by simp
next
  case False
  then have "\<not> (\<exists>p \<in> set qs. pi_name p = n)" unfolding P .
  with False show ?thesis by (simp add: by_name_get)
qed

lemma ref_of_cong:
  "gm_get m n = gm_get m' n \<Longrightarrow> gm_true d n = gm_true d' n \<Longrightarrow> ref_of m d n = ref_of m' d' n"
  unfolding ref_of_def by (simp only:)

lemma consumer_names_perm: "set ps = set qs \<Longrightarrow> consumer_names ps P = consumer_names qs P"
  by (simp add: consumer_names_def)

lemma reaches_perm: "reaches ps S n \<Longrightarrow> set ps = set qs \<Longrightarrow> reaches qs S n"
  by (induction rule: reaches.induct) (auto intro: reaches.intros)

lemma affected_by_perm: "set ps = set qs \<Longrightarrow> affected_by ps S n \<longleftrightarrow> affected_by qs S n"
  by (auto elim!: affected_by.cases intro: affected_by.intros reaches_perm [where ps = ps and qs = qs]
      reaches_perm [where ps = qs and qs = ps])

lemma direct_names_perm:
  "set ps = set qs \<Longrightarrow> inj_on pi_path (set ps) \<Longrightarrow> direct_names ps opts P = direct_names qs opts P"
  unfolding direct_names_def by (simp only: attributed_perm [of ps qs])

lemma affected_names_perm:
  assumes "set ps = set qs" "inj_on pi_path (set ps)"
  shows "affected_names ps P opts = affected_names qs P opts"
  unfolding affected_names_def direct_names_perm [OF assms] consumer_names_perm [OF assms(1)]
    affected_by_perm [OF assms(1)] ..

lemma ar_projects_sorted: "sort_key pr_name (ar_projects (compute ps changed opts)) = ar_projects (compute ps changed opts)"
proof -
  obtain closed saw where c: "close_over_dependents ps (ss_direct (scanned ps changed opts)) = (closed, saw)"
    by fastforce
  show ?thesis by (simp add: compute_alt Let_def c sort_key_id_if_sorted)
qed

lemma ar_projects_eqI:
  assumes "set (ar_projects (compute ps changed opts)) = set (ar_projects (compute qs changed' opts))"
  shows "ar_projects (compute ps changed opts) = ar_projects (compute qs changed' opts)"
proof -
  have d: "distinct (map pr_name (ar_projects (compute ps c opts)))" for ps c
    unfolding ar_projects_names by simp
  have "mset (ar_projects (compute ps changed opts)) = mset (ar_projects (compute qs changed' opts))"
    using assms d by (simp add: distinct_map set_eq_iff_mset_eq_distinct)
  then show ?thesis
    using sort_key_perm_unique [of _ _ pr_name] d [of ps changed] by (metis ar_projects_sorted distinct_map)
qed

lemma ar_reasons_filter:
  "ar_reasons (compute ps changed opts) =
     filter (\<lambda>r. r \<in> set (ar_reasons (compute ps changed opts))) [DirectPath, DependsOn, RootInvalidation, ConsumesContract]"
  by (simp add: compute_alt Let_def split: prod.splits)

lemma unscoped_perm:
  "set ps = set qs \<Longrightarrow> inj_on pi_path (set ps) \<Longrightarrow> unscoped ps opts cp = unscoped qs opts cp"
  unfolding unscoped_def by (simp only: attributed_perm [of ps qs])

lemma compute_perm:
  assumes C: "set changed = set changed'" and P: "set ps = set qs"
    and names: "inj_on pi_name (set ps)" and paths: "inj_on pi_path (set ps)"
  shows "compute ps changed opts = compute qs changed' opts"
proof (rule aff_result.equality)
  note eqs = affected_names_perm [OF P paths] direct_names_perm [OF P paths] consumer_names_perm [OF P]
    unscoped_perm [OF P paths] C
  have deq: "dedup_sorted changed = dedup_sorted changed'"
    unfolding dedup_sorted_names by (rule sorted_names_cong) (rule C)
  then show "ar_id (compute ps changed opts) = ar_id (compute qs changed' opts)"
    "ar_paths (compute ps changed opts) = ar_paths (compute qs changed' opts)"
    by (simp_all add: compute_alt Let_def split: prod.splits)
  show "ar_projects (compute ps changed opts) = ar_projects (compute qs changed' opts)"
  proof (rule ar_projects_eqI)
    have "ref_of (by_name ps) (ss_direct (scanned ps changed opts)) n =
        ref_of (by_name qs) (ss_direct (scanned qs changed' opts)) n" for n
      by (rule ref_of_cong [OF by_name_perm [OF P names]]) (simp only: scanned_fields eqs)
    then show "set (ar_projects (compute ps changed opts)) = set (ar_projects (compute qs changed' opts))"
      unfolding ar_projects_set eqs by simp
  qed
  show run: "ar_run_everything (compute ps changed opts) = ar_run_everything (compute qs changed' opts)"
    "ar_refinable_only (compute ps changed opts) = ar_refinable_only (compute qs changed' opts)"
    by (simp_all only: ar_flags eqs)
  have "(\<lambda>r. r \<in> set (ar_reasons (compute ps changed opts))) = (\<lambda>r. r \<in> set (ar_reasons (compute qs changed' opts)))"
    unfolding ar_reasons_set run eqs ..
  then show "ar_reasons (compute ps changed opts) = ar_reasons (compute qs changed' opts)"
    by (rule box_equals [OF arg_cong [where f = "\<lambda>Q. filter Q [DirectPath, DependsOn, RootInvalidation, ConsumesContract]"]])
      (rule ar_reasons_filter [symmetric])+
qed simp


subsection \<open>More changed paths never affect less\<close>

lemma direct_names_mono: "P \<subseteq> Q \<Longrightarrow> direct_names ps opts P \<subseteq> direct_names ps opts Q"
  by (auto simp: direct_names_def)

lemma consumer_names_mono: "P \<subseteq> Q \<Longrightarrow> consumer_names ps P \<subseteq> consumer_names ps Q"
  unfolding consumer_names_def by blast

lemma reaches_mono: "reaches ps S n \<Longrightarrow> S \<subseteq> T \<Longrightarrow> reaches ps T n"
  by (induction rule: reaches.induct) (auto intro: reaches.intros)

lemma affected_by_mono: "affected_by ps S n \<Longrightarrow> S \<subseteq> T \<Longrightarrow> affected_by ps T n"
  by (induction rule: affected_by.induct) (auto intro: affected_by.intros dest: reaches_mono)

lemma affected_names_mono: "P \<subseteq> Q \<Longrightarrow> affected_names ps P opts \<subseteq> affected_names ps Q opts"
  unfolding affected_names_def
  by (auto elim!: affected_by_mono dest: direct_names_mono [of _ _ ps opts] consumer_names_mono [of _ _ ps])

lemma project_names_set:
  "pr_name ` set (ar_projects (compute ps changed opts)) = affected_names ps (set changed) opts"
proof -
  have "finite (affected_names ps (set changed) opts)"
    by (rule finite_subset [OF affected_names_project]) simp
  then show ?thesis
    using ar_projects_names [of ps changed opts] by (metis list.set_map set_sorted_list_of_set)
qed

lemma attributed_direct:
  assumes "cp \<in> set changed" "attributed_to ps opts cp = Some n"
  shows "\<exists>r \<in> set (ar_projects (compute ps changed opts)). pr_name r = n \<and> pr_direct r"
proof -
  have d: "n \<in> direct_names ps opts (set changed)" using assms by (auto simp: direct_names_def)
  then have "n \<in> affected_names ps (set changed) opts"
    by (auto simp: affected_names_def intro: affected_by.intros reaches.intros)
  then obtain r where r: "r \<in> set (ar_projects (compute ps changed opts))" "pr_name r = n"
    unfolding project_names_set [symmetric] by blast
  moreover have "pr_direct r" using ar_projects_direct [OF r(1)] r(2) d by simp
  ultimately show ?thesis by blast
qed

lemma direct_project_names:
  "pr_name ` {r \<in> set (ar_projects (compute ps changed opts)). pr_direct r} = direct_names ps opts (set changed)"
proof -
  have "direct_names ps opts (set changed) \<subseteq> affected_names ps (set changed) opts"
    by (auto simp: affected_names_def intro: affected_by.intros reaches.intros)
  then have "{n \<in> affected_names ps (set changed) opts. n \<in> direct_names ps opts (set changed)} =
      direct_names ps opts (set changed)" by blast
  moreover have "pr_name ` {r \<in> set (ar_projects (compute ps changed opts)). pr_direct r} =
      {n \<in> pr_name ` set (ar_projects (compute ps changed opts)). n \<in> direct_names ps opts (set changed)}"
    using ar_projects_direct [of _ ps changed opts] by blast
  ultimately show ?thesis unfolding project_names_set by simp
qed

lemma no_attribution:
  "attributed_to ps opts cp = None \<Longrightarrow> opt_strictness opts \<noteq> strictness_aggressive \<Longrightarrow>
     escalates opts cp \<or> unscoped ps opts cp"
  by (auto simp: unscoped_def)

section \<open>Properties\<close>

text \<open>A small monorepo the witnesses compute on.\<close>

definition demo_projects :: "project_info list" where
  "demo_projects =
    [\<lparr>pi_name = ''lib'', pi_path = ''lib'', pi_deps = [], pi_test_deps = [], pi_consumes = [], pi_contract_paths = []\<rparr>,
     \<lparr>pi_name = ''app'', pi_path = ''app'', pi_deps = [''lib''], pi_test_deps = [], pi_consumes = [], pi_contract_paths = []\<rparr>,
     \<lparr>pi_name = ''e2e'', pi_path = ''e2e'', pi_deps = [], pi_test_deps = [''app''], pi_consumes = [], pi_contract_paths = []\<rparr>]"

definition demo_options :: aff_options where
  "demo_options = \<lparr>opt_root_inval = [''go.mod''], opt_refinable = [], opt_refinable_handled = False,
     opt_strictness = ''conservative'', opt_prose = []\<rparr>"

lemma match_path_plain:
  "go_cut_prefix pat ''**/'' = None \<Longrightarrow> \<not> suffix ''/**'' pat \<Longrightarrow> match_path pat p = path_match pat p"
  by (simp add: match_path.simps)

lemma demo_values:
  "find_owner demo_projects ''lib/a.go'' = Some (demo_projects ! 0)"
  "find_owner demo_projects ''README'' = None"
  "find_root_project demo_projects = None"
  "match_ordered_which (opt_root_inval demo_options) ''lib/a.go'' = ([], False)"
  "match_ordered_which (opt_root_inval demo_options) ''README'' = ([], False)"
  "match_ordered_which (opt_root_inval demo_options) ''go.mod'' = (''go.mod'', True)"
  "opt_refinable demo_options = []"
  "opt_strictness demo_options = ''conservative''" "opt_prose demo_options = []"
  by code_simp+

text \<open>C2. The projects a computation reports are exactly the names reachable from the projects
  that own a changed path or consume a touched contract, over reverse dependency edges with
  test edges terminal; each is listed once, in name order.\<close>

theorem compute_projects_exact:
  "map pr_name (ar_projects (compute ps changed opts)) =
     sorted_list_of_set {n. affected_by ps (direct_names ps opts (set changed) \<union> consumer_names ps (set changed)) n}"
  using ar_projects_names by (simp add: affected_names_def)

text \<open>A computation escalates to run everything exactly when some changed path hits a
  root-invalidation pattern or stays unscoped; the escalation is marked refinable exactly when
  it happened and every path that caused it matched a refinable pattern.\<close>

theorem compute_escalation_exact:
  "(ar_run_everything (compute ps changed opts) \<longleftrightarrow> (\<exists>cp \<in> set changed. escalates opts cp \<or> unscoped ps opts cp)) \<and>
   (ar_refinable_only (compute ps changed opts) \<longleftrightarrow>
      (\<exists>cp \<in> set changed. escalates opts cp \<or> unscoped ps opts cp) \<and>
      {cp \<in> set changed. escalates opts cp \<or> unscoped ps opts cp} = {cp \<in> set changed. escalates_refinable opts cp})"
proof -
  have "escalates_refinable opts cp \<Longrightarrow> escalates opts cp" "unscoped ps opts cp \<Longrightarrow> \<not> escalates opts cp" for cp
    by (auto simp: escalates_refinable_def unscoped_def)
  then show ?thesis unfolding ar_flags set_eq_iff by blast
qed

text \<open>C1. Affected computation fails closed: under any strictness but aggressive, every changed
  path either makes the result run everything or puts a project among the direct ones.\<close>

theorem compute_fails_closed:
  assumes "opt_strictness opts \<noteq> strictness_aggressive" "cp \<in> set changed"
  shows "ar_run_everything (compute ps changed opts) \<or>
    (\<exists>r \<in> set (ar_projects (compute ps changed opts)). pr_direct r \<and> attributed_to ps opts cp = Some (pr_name r))"
proof (cases "attributed_to ps opts cp")
  case None
  then show ?thesis using no_attribution assms unfolding ar_flags by blast
next
  case (Some n)
  then show ?thesis using attributed_direct [OF assms(2) Some] by auto
qed

theorem compute_fails_closed_witness:
  "ar_run_everything (compute demo_projects [''README''] demo_options)"
  using compute_fails_closed [of demo_options "''README''" "[''README'']" demo_projects]
  by (auto simp: demo_values strictness_aggressive_def attributed_to_def escalates_def match_ordered_def)

text \<open>The result depends only on which paths changed and which projects exist: reordering or
  repeating either input changes nothing, the computation id and the reason list included.\<close>

theorem compute_deterministic:
  assumes "set changed = set changed'" "set ps = set qs" "inj_on pi_name (set ps)" "inj_on pi_path (set ps)"
  shows "compute ps changed opts = compute qs changed' opts"
  using assms by (rule compute_perm)

theorem compute_deterministic_witness:
  "compute demo_projects [''lib/a.go'', ''README''] demo_options =
     compute (rev demo_projects) [''README'', ''lib/a.go'', ''README''] demo_options"
  by (rule compute_deterministic) (auto simp: demo_projects_def inj_on_def)

text \<open>Adding changed paths never drops an affected project, a direct mark or an escalation.\<close>

theorem compute_monotone:
  assumes "set changed \<subseteq> set changed'"
  shows "pr_name ` set (ar_projects (compute ps changed opts)) \<subseteq> pr_name ` set (ar_projects (compute ps changed' opts)) \<and>
    pr_name ` {r \<in> set (ar_projects (compute ps changed opts)). pr_direct r}
      \<subseteq> pr_name ` {r \<in> set (ar_projects (compute ps changed' opts)). pr_direct r} \<and>
    (ar_run_everything (compute ps changed opts) \<longrightarrow> ar_run_everything (compute ps changed' opts))"
  using assms affected_names_mono [OF assms, of ps opts] direct_names_mono [OF assms, of ps opts]
  unfolding project_names_set direct_project_names ar_flags by blast

theorem compute_monotone_witness:
  "pr_name ` set (ar_projects (compute demo_projects [''lib/a.go''] demo_options))
     \<subseteq> pr_name ` set (ar_projects (compute demo_projects [''app/m.go'', ''lib/a.go''] demo_options))"
  using compute_monotone [of "[''lib/a.go'']" "[''app/m.go'', ''lib/a.go'']"] by simp

end
