(* ===== verification/Checks.thy ===== *)
theory Checks
  imports GoLib "HOL-Library.Word"
begin

text \<open>
  \<open>platform/checks\<close>: check runs, check-set policies and their expansion, the merge requirements
  aggregated from owners, checks, stale reporters and unbound projects, staleness of a run, and
  the retry policy of the webhook outbox. Durations are 64-bit signed words, as in Go; instants
  are nanoseconds as integers, 0 being the zero time.
\<close>

section \<open>Check runs and check sets\<close>

type_synonym go_time = int
type_synonym duration = "64 word"

definition check_status_completed :: string where "check_status_completed = ''completed''"
definition check_status_queued :: string where "check_status_queued = ''queued''"
definition conclusion_success :: string where "conclusion_success = ''success''"

definition agent_policy_check_name :: string where
  "agent_policy_check_name = ''agent-policy''"

record check_run_view =
  cv_name :: string
  cv_status :: string
  cv_conclusion :: string
  cv_last_seen :: go_time
  cv_ttl :: int
  cv_details_url :: string
  cv_copied_from :: string
  cv_reporter :: string

record check_set_policy =
  csp_pattern :: string
  csp_scope :: string

record check_set_status =
  css_pattern :: string
  css_scope :: string
  css_total :: nat
  css_passed :: nat
  css_failed :: nat
  css_pending :: nat
  css_missing :: "string list"

definition find_run :: "check_run_view list \<Rightarrow> string \<Rightarrow> check_run_view option" where
  "find_run runs name = find (\<lambda>r. cv_name r = name) runs"

text \<open>\<open>strings.ReplaceAll(pattern, "*", project)\<close>.\<close>

definition expand_check_name :: "string \<Rightarrow> string \<Rightarrow> string" where
  "expand_check_name pattern project = go_replace_char CHR ''*'' project pattern"

record expansion =
  ex_passing :: "string list"
  ex_failing :: "string list"
  ex_pending :: "string list"
  ex_missing :: "string list"

definition expand_step :: "check_set_policy \<Rightarrow> check_run_view list \<Rightarrow> expansion \<Rightarrow> string \<Rightarrow> expansion" where
  "expand_step policy runs e project =
     (let name = expand_check_name (csp_pattern policy) project in
      case find_run runs name of
        None \<Rightarrow> e\<lparr>ex_missing := ex_missing e @ [project]\<rparr>
      | Some run \<Rightarrow>
          if cv_status run \<noteq> check_status_completed then e\<lparr>ex_pending := ex_pending e @ [name]\<rparr>
          else if cv_conclusion run = conclusion_success then e\<lparr>ex_passing := ex_passing e @ [name]\<rparr>
          else e\<lparr>ex_failing := ex_failing e @ [name]\<rparr>)"

definition expand_check_set :: "check_set_policy \<Rightarrow> string list \<Rightarrow> check_run_view list \<Rightarrow> expansion" where
  "expand_check_set policy projects runs =
     foldl (expand_step policy runs) \<lparr>ex_passing = [], ex_failing = [], ex_pending = [], ex_missing = []\<rparr> projects"

definition evaluate_check_set :: "check_set_policy \<Rightarrow> string list \<Rightarrow> check_run_view list \<Rightarrow> check_set_status" where
  "evaluate_check_set policy projects runs =
     (let e = expand_check_set policy projects runs
      in \<lparr>css_pattern = csp_pattern policy, css_scope = csp_scope policy, css_total = length projects,
          css_passed = length (ex_passing e), css_failed = length (ex_failing e),
          css_pending = length (ex_pending e), css_missing = ex_missing e\<rparr>)"

section \<open>Merge requirements\<close>

record owner_requirement =
  or_owner :: string
  or_satisfied :: bool

record merge_requirements =
  mr_change :: string
  mr_req_owners :: "string list"
  mr_sat_owners :: "string list"
  mr_out_owners :: "string list"
  mr_req_checks :: "string list"
  mr_pass_checks :: "string list"
  mr_fail_checks :: "string list"
  mr_pend_checks :: "string list"
  mr_details :: "(string, string) gomap"
  mr_mergeable :: bool
  mr_blockers :: "string list"
  mr_attention :: "string list"
  mr_auto_approved :: bool

record check_set =
  cs_policy :: check_set_policy
  cs_projects :: "string list"

definition require_build_binding_blockers :: "string list \<Rightarrow> string list" where
  "require_build_binding_blockers unbound =
     map (\<lambda>name. name @ '' has no build-graph binding (org requires one: require_build_binding)'') unbound"

text \<open>The check lists and the blockers that the first two loops accumulate.\<close>

record tally =
  ty_req :: "string list"
  ty_pass :: "string list"
  ty_fail :: "string list"
  ty_pend :: "string list"
  ty_block :: "string list"

definition tally_required :: "check_run_view list \<Rightarrow> tally \<Rightarrow> string \<Rightarrow> tally" where
  "tally_required runs t0 name =
     (let t = t0\<lparr>ty_req := ty_req t0 @ [name]\<rparr> in
      case find_run runs name of
        None \<Rightarrow> t\<lparr>ty_pend := ty_pend t @ [name], ty_block := ty_block t @ [name @ '' has not reported yet'']\<rparr>
      | Some run \<Rightarrow>
          if cv_status run \<noteq> check_status_completed then
            t\<lparr>ty_pend := ty_pend t @ [name], ty_block := ty_block t @ [name @ '' is still running'']\<rparr>
          else if cv_conclusion run = conclusion_success then t\<lparr>ty_pass := ty_pass t @ [name]\<rparr>
          else t\<lparr>ty_fail := ty_fail t @ [name], ty_block := ty_block t @ [name @ '' failed'']\<rparr>)"

text \<open>The dash of the check-set blockers, in UTF-8.\<close>

definition em_dash :: string where
  "em_dash = '' '' @ [CHR 0xE2, CHR 0x80, CHR 0x94] @ '' ''"

definition set_blockers :: "string \<Rightarrow> nat \<Rightarrow> nat \<Rightarrow> nat \<Rightarrow> nat \<Rightarrow> string list" where
  "set_blockers pattern failing missing pending projects =
     (if failing > 0 then [pattern @ em_dash @ show_nat failing @ ''/'' @ show_nat projects @ '' failed'']
      else if missing > 0 then [pattern @ em_dash @ ''missing runs for '' @ show_nat missing @ '' project(s)'']
      else if pending > 0 then [pattern @ em_dash @ show_nat pending @ ''/'' @ show_nat projects @ '' still running'']
      else [])"

definition tally_set :: "check_run_view list \<Rightarrow> tally \<Rightarrow> check_set \<Rightarrow> tally" where
  "tally_set runs t cs =
     (let e = expand_check_set (cs_policy cs) (cs_projects cs) runs;
          pending = ex_pending e @ map (expand_check_name (csp_pattern (cs_policy cs))) (ex_missing e)
      in \<lparr>ty_req = ty_req t @ ex_passing e @ ex_failing e @ pending,
          ty_pass = ty_pass t @ ex_passing e,
          ty_fail = ty_fail t @ ex_failing e,
          ty_pend = ty_pend t @ pending,
          ty_block = ty_block t @ set_blockers (csp_pattern (cs_policy cs)) (length (ex_failing e))
            (length (ex_missing e)) (length pending) (length (cs_projects cs))\<rparr>)"

definition details_urls :: "check_run_view list \<Rightarrow> (string, string) gomap" where
  "details_urls runs =
     fold (\<lambda>r m. gm_put m (cv_name r) (cv_details_url r)) (filter (\<lambda>r. cv_details_url r \<noteq> []) runs) gm_empty"

definition compute_merge_requirements ::
  "string \<Rightarrow> owner_requirement list \<Rightarrow> string list \<Rightarrow> check_run_view list \<Rightarrow> check_set list \<Rightarrow>
   string list \<Rightarrow> string list \<Rightarrow> merge_requirements" where
  "compute_merge_requirements change owners required runs sets stale unbound =
     (let out_owners = map or_owner (filter (\<lambda>w. \<not> or_satisfied w) owners);
          t = foldl (tally_set runs)
                (foldl (tally_required runs) \<lparr>ty_req = [], ty_pass = [], ty_fail = [], ty_pend = [], ty_block = []\<rparr> required)
                sets;
          blockers = ty_block t
            @ map (\<lambda>w. ''waiting on approval from '' @ w) out_owners
            @ map (\<lambda>name. name @ '' has a stale reporter - no update received within its TTL'') stale
            @ require_build_binding_blockers unbound
      in \<lparr>mr_change = change,
          mr_req_owners = map or_owner owners,
          mr_sat_owners = map or_owner (filter or_satisfied owners),
          mr_out_owners = out_owners,
          mr_req_checks = ty_req t, mr_pass_checks = ty_pass t, mr_fail_checks = ty_fail t, mr_pend_checks = ty_pend t,
          mr_details = details_urls runs,
          mr_mergeable = (blockers = []), mr_blockers = blockers,
          mr_attention = [], mr_auto_approved = False\<rparr>)"

section \<open>Staleness\<close>

definition default_ttl_seconds :: int where "default_ttl_seconds = 24 * 60 * 60"

text \<open>\<open>time.Time.Sub\<close> saturates at the ends of the Duration range.\<close>

definition time_sub :: "go_time \<Rightarrow> go_time \<Rightarrow> int" where
  "time_sub a b = max (- (2 ^ 63)) (min (2 ^ 63 - 1) (a - b))"

definition seconds :: "int \<Rightarrow> duration" where
  "seconds n = word_of_int n * 1000000000"

definition is_stale :: "string \<Rightarrow> go_time \<Rightarrow> int \<Rightarrow> go_time \<Rightarrow> bool" where
  "is_stale status last_seen ttl now =
     (if status = check_status_completed then False
      else if ttl \<le> 0 then False
      else time_sub now last_seen > sint (seconds ttl))"

section \<open>Webhook delivery\<close>

definition max_delivery_attempts :: int where "max_delivery_attempts = 8"

fun backoff_loop :: "nat \<Rightarrow> duration \<Rightarrow> duration \<Rightarrow> duration" where
  "backoff_loop 0 d maxd = d"
| "backoff_loop (Suc k) d maxd =
     (let d2 = d * 2 in if sint d2 \<ge> sint maxd then maxd else backoff_loop k d2 maxd)"

definition next_backoff :: "int \<Rightarrow> duration \<Rightarrow> duration \<Rightarrow> duration" where
  "next_backoff n base maxd = (let n' = (if n < 1 then 1 else n) in backoff_loop (nat (n' - 1)) base maxd)"

record delivery_attempt =
  da_success :: bool
  da_status :: int
  da_err :: "string option"

datatype delivery_mark =
  MarkDelivered
| MarkFailed (dm_status: string) (dm_next: go_time) (dm_error: "string option")

definition record_delivery_result ::
  "int \<Rightarrow> delivery_attempt \<Rightarrow> duration \<Rightarrow> duration \<Rightarrow> go_time \<Rightarrow> delivery_mark" where
  "record_delivery_result attempt r base maxd now =
     (if da_success r then MarkDelivered
      else MarkFailed (if attempt \<ge> max_delivery_attempts then ''dead_letter'' else ''failed'')
             (now + sint (next_backoff attempt base maxd)) (da_err r))"

text \<open>What the attempt lookup answers, and the row a rerun creates.\<close>

datatype attempt_lookup = LatestAttempt "32 word" | NoAttempt | LookupFailed

record check_run_row =
  crr_change :: string
  crr_head :: string
  crr_name :: string
  crr_external :: string
  crr_status :: string
  crr_reporter :: string
  crr_attempt :: "32 word"
  crr_ttl :: int

definition rerun_check :: "attempt_lookup \<Rightarrow> string \<Rightarrow> string \<Rightarrow> string \<Rightarrow> string \<Rightarrow> string \<Rightarrow> check_run_row option" where
  "rerun_check latest change head name ext reporter =
     (let row = (\<lambda>a. \<lparr>crr_change = change, crr_head = head, crr_name = name, crr_external = ext,
            crr_status = check_status_queued, crr_reporter = reporter, crr_attempt = a, crr_ttl = default_ttl_seconds\<rparr>)
      in case latest of
           LatestAttempt a \<Rightarrow> Some (row (a + 1))
         | NoAttempt \<Rightarrow> Some (row 1)
         | LookupFailed \<Rightarrow> None)"


section \<open>The verdict on one check name\<close>

definition green :: "check_run_view list \<Rightarrow> string \<Rightarrow> bool" where
  "green runs name \<longleftrightarrow> (case find_run runs name of None \<Rightarrow> False
     | Some r \<Rightarrow> cv_status r = check_status_completed \<and> cv_conclusion r = conclusion_success)"

definition red :: "check_run_view list \<Rightarrow> string \<Rightarrow> bool" where
  "red runs name \<longleftrightarrow> (case find_run runs name of None \<Rightarrow> False
     | Some r \<Rightarrow> cv_status r = check_status_completed \<and> cv_conclusion r \<noteq> conclusion_success)"

definition unreported :: "check_run_view list \<Rightarrow> string \<Rightarrow> bool" where
  "unreported runs name \<longleftrightarrow> find_run runs name = None"

definition running :: "check_run_view list \<Rightarrow> string \<Rightarrow> bool" where
  "running runs name \<longleftrightarrow> \<not> green runs name \<and> \<not> red runs name \<and> \<not> unreported runs name"

definition waiting :: "check_run_view list \<Rightarrow> string \<Rightarrow> bool" where
  "waiting runs name \<longleftrightarrow> \<not> green runs name \<and> \<not> red runs name"

lemmas verdict_defs = green_def red_def unreported_def running_def waiting_def

abbreviation set_names :: "check_set \<Rightarrow> string list" where
  "set_names cs \<equiv> map (expand_check_name (csp_pattern (cs_policy cs))) (cs_projects cs)"

lemma expand_check_set_fields:
  "ex_passing (expand_check_set pol ps runs) = filter (green runs) (map (expand_check_name (csp_pattern pol)) ps)"
  "ex_failing (expand_check_set pol ps runs) = filter (red runs) (map (expand_check_name (csp_pattern pol)) ps)"
  "ex_pending (expand_check_set pol ps runs) = filter (running runs) (map (expand_check_name (csp_pattern pol)) ps)"
  "ex_missing (expand_check_set pol ps runs) = filter (\<lambda>p. unreported runs (expand_check_name (csp_pattern pol) p)) ps"
  by (induction ps rule: rev_induct)
    (auto simp: expand_check_set_def expand_step_def verdict_defs Let_def split: option.splits)

lemma tally_required_fields:
  fixes runs t names
  defines "r \<equiv> foldl (tally_required runs) t names"
  shows "ty_req r = ty_req t @ names" "ty_pass r = ty_pass t @ filter (green runs) names"
    "ty_fail r = ty_fail t @ filter (red runs) names" "ty_pend r = ty_pend t @ filter (waiting runs) names"
    "ty_block r = [] \<longleftrightarrow> ty_block t = [] \<and> list_all (green runs) names"
  unfolding r_def
  by (induction names rule: rev_induct)
    (auto simp: tally_required_def verdict_defs Let_def list_all_iff split: option.splits)

lemma set_blockers_none: "set_blockers pat f m p n = [] \<longleftrightarrow> f = 0 \<and> m = 0 \<and> p = 0"
  by (simp add: set_blockers_def)

lemma mset_filter_split:
  "mset (filter (green runs) ns) + mset (filter (red runs) ns) + mset (filter (running runs) ns)
     + mset (filter (unreported runs) ns) = mset ns"
  by (induction ns) (auto simp: verdict_defs split: option.splits)

lemma mset_filter_waiting:
  "mset (filter (running runs) ns) + mset (filter (unreported runs) ns) = mset (filter (waiting runs) ns)"
  by (induction ns) (auto simp: verdict_defs split: option.splits)

lemma all_green_iff: "list_all (green runs) ns \<longleftrightarrow>
    filter (red runs) ns = [] \<and> filter (unreported runs) ns = [] \<and> filter (running runs) ns = []"
  by (induction ns) (auto simp: verdict_defs split: option.splits)

lemma missing_names:
  "map (expand_check_name (csp_pattern pol)) (ex_missing (expand_check_set pol ps runs)) =
     filter (unreported runs) (map (expand_check_name (csp_pattern pol)) ps)"
  by (simp add: expand_check_set_fields filter_map o_def)

lemma tally_set_fields:
  fixes runs t cs
  defines "r \<equiv> tally_set runs t cs" and "ns \<equiv> set_names cs"
  shows "ty_req r = ty_req t @ filter (green runs) ns @ filter (red runs) ns @ filter (running runs) ns @ filter (unreported runs) ns"
    "ty_pass r = ty_pass t @ filter (green runs) ns"
    "ty_fail r = ty_fail t @ filter (red runs) ns"
    "ty_pend r = ty_pend t @ filter (running runs) ns @ filter (unreported runs) ns"
    "ty_block r = [] \<longleftrightarrow> ty_block t = [] \<and> list_all (green runs) ns"
proof -
  have m: "length (ex_missing (expand_check_set (cs_policy cs) (cs_projects cs) runs)) = length (filter (unreported runs) ns)"
    unfolding ns_def by (subst missing_names [symmetric]) simp
  note f = expand_check_set_fields(1-3) [of "cs_policy cs" "cs_projects cs" runs, folded ns_def]
    missing_names [of "cs_policy cs" "cs_projects cs" runs, folded ns_def]
  show "ty_req r = ty_req t @ filter (green runs) ns @ filter (red runs) ns @ filter (running runs) ns @ filter (unreported runs) ns"
    "ty_pass r = ty_pass t @ filter (green runs) ns"
    "ty_fail r = ty_fail t @ filter (red runs) ns"
    "ty_pend r = ty_pend t @ filter (running runs) ns @ filter (unreported runs) ns"
    by (simp_all add: r_def tally_set_def Let_def f)
  show "ty_block r = [] \<longleftrightarrow> ty_block t = [] \<and> list_all (green runs) ns"
    by (auto simp: r_def tally_set_def Let_def f m set_blockers_none all_green_iff)
qed

lemma tally_sets_fields:
  fixes runs t sets
  defines "r \<equiv> foldl (tally_set runs) t sets" and "ns \<equiv> concat (map set_names sets)"
  shows "mset (ty_req r) = mset (ty_req t) + mset ns" "ty_pass r = ty_pass t @ filter (green runs) ns"
    "ty_fail r = ty_fail t @ filter (red runs) ns"
    "mset (ty_pend r) = mset (ty_pend t) + mset (filter (waiting runs) ns)"
    "ty_block r = [] \<longleftrightarrow> ty_block t = [] \<and> list_all (green runs) ns"
  unfolding r_def ns_def
proof (induction sets rule: rev_induct)
  case (snoc cs sets)
  note step = tally_set_fields [of runs "foldl (tally_set runs) t sets" cs]
  {
    case 1
    then show ?case
      using snoc.IH(1) mset_filter_split [of runs "set_names cs"] by (simp add: step add.assoc)
  next
    case 2
    then show ?case using snoc.IH(2) by (simp add: step)
  next
    case 3
    then show ?case using snoc.IH(3) by (simp add: step)
  next
    case 4
    then show ?case
      using snoc.IH(4) mset_filter_waiting [of runs "set_names cs"] by (simp add: step add.assoc)
  next
    case 5
    then show ?case using snoc.IH(5) by (auto simp: step)
  }
qed simp_all

section \<open>Merge requirements as a whole\<close>

definition all_names :: "string list \<Rightarrow> check_set list \<Rightarrow> string list" where
  "all_names required sets = required @ concat (map set_names sets)"

lemma requirements_checks:
  fixes change owners required runs sets stale unbound
  defines "m \<equiv> compute_merge_requirements change owners required runs sets stale unbound"
    and "ns \<equiv> all_names required sets"
  shows "mset (mr_req_checks m) = mset ns" "mr_pass_checks m = filter (green runs) ns"
    "mr_fail_checks m = filter (red runs) ns" "mset (mr_pend_checks m) = mset (filter (waiting runs) ns)"
    "mr_mergeable m \<longleftrightarrow> list_all or_satisfied owners \<and> list_all (green runs) ns \<and> stale = [] \<and> unbound = []"
    "mr_mergeable m \<longleftrightarrow> mr_blockers m = []"
  by (simp_all add: m_def ns_def compute_merge_requirements_def Let_def all_names_def tally_sets_fields
      tally_required_fields require_build_binding_blockers_def list_all_iff filter_empty_conv) auto

lemma verdict_partition:
  "mset (filter (green runs) ns) + mset (filter (red runs) ns) + mset (filter (waiting runs) ns) = mset ns"
  by (induction ns) (auto simp: verdict_defs split: option.splits)

section \<open>Doubling without overflow\<close>

lemma sint_double:
  assumes "0 \<le> sint (d :: duration)" "sint d < 2 ^ 62"
  shows "sint (d * 2) = 2 * sint d"
proof -
  have "sint (d * 2) = signed_take_bit 63 (sint d * 2)"
    by (simp add: sint_word_ariths signed_take_bit_eq_take_bit_minus flip: signed_take_bit_mult)
  also have "\<dots> = sint d * 2"
    by (rule signed_take_bit_int_eq_self) (use assms in auto)
  finally show ?thesis by simp
qed

lemma backoff_loop_value:
  "0 \<le> sint d \<Longrightarrow> sint d \<le> sint m \<Longrightarrow> sint m < 2 ^ 62 \<Longrightarrow> sint (backoff_loop k d m) = min (sint d * 2 ^ k) (sint m)"
proof (induction k d m rule: backoff_loop.induct)
  case (2 k d m)
  have dbl: "sint (d * 2) = 2 * sint d" by (rule sint_double) (use 2 in auto)
  show ?case
  proof (cases "sint m \<le> 2 * sint d")
    case True
    have "(1 :: int) \<le> 2 ^ k" by simp
    then have "sint d * 2 * 1 \<le> sint d * 2 * 2 ^ k" using 2(2) by (intro mult_left_mono) auto
    then show ?thesis using True dbl by (simp add: Let_def)
  next
    case False
    then show ?thesis using 2 dbl by (simp add: Let_def mult.assoc mult.left_commute)
  qed
qed simp

section \<open>Properties\<close>

text \<open>A change is mergeable exactly when every owner requirement is satisfied, every required
  check name, check-set members included, has a completed successful first run, and there is no
  stale reporter and no unbound project; it then has no blocker, and only then.\<close>

theorem merge_requirements_mergeable:
  fixes change owners required runs sets stale unbound
  defines "m \<equiv> compute_merge_requirements change owners required runs sets stale unbound"
  shows "(mr_mergeable m \<longleftrightarrow> list_all or_satisfied owners \<and> list_all (green runs) (all_names required sets)
             \<and> stale = [] \<and> unbound = [])
    \<and> (mr_mergeable m \<longleftrightarrow> mr_blockers m = [])"
  unfolding m_def using requirements_checks(5, 6) by blast

text \<open>The required check names are partitioned, with multiplicity, into the passing, failing
  and pending lists, each by the verdict on the first run of the name: a check set that did not
  fan out counts its missing members as pending.\<close>

theorem merge_requirements_partition:
  fixes change owners required runs sets stale unbound
  defines "m \<equiv> compute_merge_requirements change owners required runs sets stale unbound"
  shows "mset (mr_pass_checks m) + mset (mr_fail_checks m) + mset (mr_pend_checks m) = mset (mr_req_checks m)
    \<and> set (mr_pass_checks m) = {n \<in> set (all_names required sets). green runs n}
    \<and> set (mr_fail_checks m) = {n \<in> set (all_names required sets). red runs n}
    \<and> set (mr_pend_checks m) = {n \<in> set (all_names required sets). waiting runs n}"
proof -
  have "set (mr_pend_checks m) = set (filter (waiting runs) (all_names required sets))"
    unfolding m_def by (rule mset_eq_setD) (rule requirements_checks(4))
  then show ?thesis
    unfolding m_def by (simp add: requirements_checks(1-4) verdict_partition [simplified])
qed

text \<open>With a base delay within the cap, retry n waits base * 2^(n-1) capped at the maximum; the
  64-bit doubling never wraps around.\<close>

theorem next_backoff_value:
  assumes "0 \<le> sint base" "sint base \<le> sint maxd" "sint maxd < 2 ^ 62"
  shows "sint (next_backoff n base maxd) = min (sint base * 2 ^ nat (max n 1 - 1)) (sint maxd)"
  using backoff_loop_value [OF assms] by (simp add: next_backoff_def max_def)

theorem next_backoff_value_witness:
  "sint (next_backoff 4 1000 5000) = 5000 \<and> sint (next_backoff 2 1000 5000) = 2000"
  using next_backoff_value [of 1000 5000 4] next_backoff_value [of 1000 5000 2] by simp

text \<open>The cap is applied only after a doubling: a base above it is returned as it is for n = 1.\<close>

lemma next_backoff_first: "next_backoff 1 base maxd = base"
  by (simp add: next_backoff_def)

text \<open>A run reads as stale exactly when it is not completed, has a positive TTL and was last
  seen more than that many seconds ago, for every TTL whose nanoseconds fit in a Duration.\<close>

theorem is_stale_iff:
  assumes "ttl \<le> 9223372036"
  shows "is_stale status seen ttl now \<longleftrightarrow>
    status \<noteq> check_status_completed \<and> ttl > 0 \<and> now - seen > ttl * 1000000000"
proof (cases "ttl > 0")
  case True
  have "seconds ttl = word_of_int (ttl * 1000000000)"
    by (simp add: seconds_def)
  then have "sint (seconds ttl) = signed_take_bit (LENGTH(64) - 1) (ttl * 1000000000)"
    by (simp only: sint_sbintrunc')
  then have "sint (seconds ttl) = signed_take_bit 63 (ttl * 1000000000)" by simp
  also have "\<dots> = ttl * 1000000000"
    by (rule signed_take_bit_int_eq_self) (use assms True in auto)
  finally show ?thesis using True assms by (auto simp: is_stale_def time_sub_def)
qed (simp add: is_stale_def)

theorem is_stale_iff_witness: "is_stale ''queued'' 0 86400 86400000000001 \<and> \<not> is_stale ''queued'' 0 86400 86400000000000"
  using is_stale_iff [of 86400 "''queued''" 0] by (simp add: check_status_completed_def)

end
