(* ===== verification/Index.thy ===== *)
theory Index
  imports Affected
begin

text \<open>
  \<open>platform/index\<close>: the scan of a revision's tree for \<open>PROJECT.yaml\<close> manifests with owners
  resolved (manifest, nearest \<open>OWNERS\<close> file, org default), the read-time normalisation of
  \<open>capability_config\<close>, the check classes and \<open>ChecksFor\<close>, auto-approve zones, and the mapping to
  the affected computation's input. The store (\<open>core.MonorepoStore\<close> at one revision) and the
  YAML decoder are parameters.
\<close>

section \<open>Data\<close>

text \<open>A decoded YAML value, as far as the scanner's type assertions tell values apart.\<close>

datatype yaml_value =
  YStr string
| YMap "(string \<times> yaml_value) list"
| YSeq "yaml_value list"
| YOther

record ci_check =
  cc_name :: string
  cc_command :: string
  cc_run_when :: string

record root_invalidation_entry =
  ri_pattern :: string
  ri_refinable :: bool

record gitops_decl =
  go_repository :: string
  go_kustomization :: string

record manifest =
  mf_name :: string
  mf_type :: string
  mf_owners :: "string list"
  mf_capabilities :: "string list"
  mf_config :: "(string \<times> yaml_value) list"
  mf_deps :: "string list"
  mf_test_deps :: "string list"
  mf_consumes :: "string list"
  mf_root_inval :: "root_invalidation_entry list"
  mf_prose :: "string list"
  mf_visibility :: string
  mf_auto_approve :: "bool option"
  mf_ci :: "ci_check list option"
  mf_deploy_registry :: string
  mf_gitops :: "gitops_decl option"

datatype owner_source = ProjectManifest | PathOwners | OrgDefault

record owner_entry =
  oe_ref :: string
  oe_source :: owner_source

record check_def =
  cd_name :: string
  cd_command :: string
  cd_run_when :: string

record image_decl =
  im_name :: string
  im_context :: string
  im_dockerfile :: string
  im_args :: "(string, string) gomap"

record binary_decl =
  bd_name :: string
  bd_path :: string

record indexed_project =
  ip_name :: string
  ip_path :: string
  ip_type :: string
  ip_capabilities :: "string list"
  ip_deps :: "string list"
  ip_test_deps :: "string list"
  ip_root_inval :: "string list"
  ip_refinable :: "string list"
  ip_prose :: "string list"
  ip_checks :: "check_def list"
  ip_visibility :: string
  ip_auto_approve :: "bool option"
  ip_owners :: "owner_entry list"
  ip_consumes :: "string list"
  ip_contract_dir :: string
  ip_contract_gen :: string
  ip_schema_paths :: "string list"
  ip_openapi :: string
  ip_openapi_present :: bool
  ip_required_checks :: "string list"
  ip_image :: "image_decl option"
  ip_rides :: "string list"
  ip_registry :: string
  ip_gitops :: "gitops_decl option"
  ip_binaries :: "binary_decl list"
  ip_binary_tag :: string

definition run_when_affected :: string where "run_when_affected = ''affected''"
definition run_when_direct :: string where "run_when_direct = ''direct''"
definition run_when_post_land :: string where "run_when_post_land = ''post_land''"

section \<open>Reading capability configuration\<close>

text \<open>A failed type assertion of Go yields the zero value: an empty map, list or string.\<close>

definition as_map :: "yaml_value option \<Rightarrow> (string \<times> yaml_value) list" where
  "as_map v = (case v of Some (YMap m) \<Rightarrow> m | _ \<Rightarrow> [])"

definition as_seq :: "yaml_value option \<Rightarrow> yaml_value list" where
  "as_seq v = (case v of Some (YSeq xs) \<Rightarrow> xs | _ \<Rightarrow> [])"

definition as_str :: "yaml_value option \<Rightarrow> string" where
  "as_str v = (case v of Some (YStr s) \<Rightarrow> s | _ \<Rightarrow> [])"

definition has_capability :: "string list \<Rightarrow> string \<Rightarrow> bool" where
  "has_capability caps name = list_ex (\<lambda>c. c = name) caps"

definition capability_config_string_list :: "(string \<times> yaml_value) list \<Rightarrow> string \<Rightarrow> string \<Rightarrow> string list" where
  "capability_config_string_list cfg cap key =
     filter (\<lambda>s. s \<noteq> []) (map (\<lambda>v. as_str (Some v)) (as_seq (gm_get (as_map (gm_get cfg cap)) key)))"

definition capability_config_string ::
  "(string \<times> yaml_value) list \<Rightarrow> string \<Rightarrow> string \<Rightarrow> string \<Rightarrow> string" where
  "capability_config_string cfg cap key def =
     (let v = as_str (gm_get (as_map (gm_get cfg cap)) key) in if v \<noteq> [] then v else def)"

definition string_entries :: "(string \<times> yaml_value) list \<Rightarrow> (string, string) gomap" where
  "string_entries m = concat (map (\<lambda>(k, v). case v of YStr s \<Rightarrow> [(k, s)] | _ \<Rightarrow> []) m)"

definition deploy_image_decl :: "(string \<times> yaml_value) list \<Rightarrow> string \<Rightarrow> image_decl option" where
  "deploy_image_decl cfg dir =
     (let img = as_map (gm_get (as_map (gm_get cfg ''deploy'')) ''image'');
          name = as_str (gm_get img ''name'')
      in if name = [] then None
         else
           (let ctx0 = as_str (gm_get img ''context'');
                ctx1 = (if ctx0 = [] then dir else ctx0);
                ctx = (if ctx1 = [] then ''.'' else ctx1)
            in Some \<lparr>im_name = name, im_context = ctx, im_dockerfile = as_str (gm_get img ''dockerfile''),
                     im_args = string_entries (as_map (gm_get img ''build_args''))\<rparr>))"

definition binary_items :: "string \<Rightarrow> yaml_value list \<Rightarrow> binary_decl list" where
  "binary_items dir raw =
     concat (map (\<lambda>it.
       let im = as_map (Some it); name = as_str (gm_get im ''name''); p = as_str (gm_get im ''path'')
       in if name = [] then []
          else [\<lparr>bd_name = name, bd_path = (if p = [] then path_join [dir, name] else p)\<rparr>]) raw)"

definition deploy_binaries_decl :: "(string \<times> yaml_value) list \<Rightarrow> string \<Rightarrow> binary_decl list \<times> string" where
  "deploy_binaries_decl cfg dir =
     (let bins = as_map (gm_get (as_map (gm_get cfg ''deploy'')) ''binaries'');
          tag = as_str (gm_get bins ''tag'')
      in if tag = [] then ([], [])
         else
           (let out = binary_items dir (as_seq (gm_get bins ''items''))
            in if out = [] then ([], []) else (out, tag)))"

text \<open>The order-preserving dedup of the rider images.\<close>

definition rider_step :: "string list \<Rightarrow> yaml_value \<Rightarrow> string list" where
  "rider_step out w =
     (let img = as_str (gm_get (as_map (Some w)) ''image'')
      in if img \<noteq> [] \<and> img \<notin> set out then out @ [img] else out)"

definition deploy_rider_images :: "(string \<times> yaml_value) list \<Rightarrow> string list" where
  "deploy_rider_images cfg =
     foldl rider_step [] (as_seq (gm_get (as_map (gm_get cfg ''deploy'')) ''workloads''))"

section \<open>Owners\<close>

definition owner_entries :: "string list \<Rightarrow> owner_source \<Rightarrow> owner_entry list" where
  "owner_entries refs src = map (\<lambda>r. \<lparr>oe_ref = r, oe_source = src\<rparr>) refs"

definition parent_dir :: "string \<Rightarrow> string" where
  "parent_dir dir = (if dir = [] then [] else let p = path_dir dir in if p = ''.'' then [] else p)"

definition parse_owners_file :: "string \<Rightarrow> string list" where
  "parse_owners_file content =
     filter (\<lambda>l. \<not> (l = [] \<or> prefix ''#'' l)) (map go_trim_space (go_split newline content))"

record tree_entry =
  te_path :: string
  te_type :: string

record tree_store =
  ts_tree :: "string \<Rightarrow> tree_entry list option"
  ts_blob :: "string \<Rightarrow> string option"

datatype scan_error = TreeError string | ReadError string | ParseError string

record scanner =
  sc_has_owners :: "(string, bool) gomap"
  sc_cache :: "(string, string list) gomap"
  sc_projects :: "indexed_project list"

text \<open>The owners of the \<open>OWNERS\<close> file of a directory known to have one, through the cache.\<close>

definition owners_at :: "tree_store \<Rightarrow> scanner \<Rightarrow> string \<Rightarrow> scan_error + string list \<times> scanner" where
  "owners_at st s d =
     (case gm_get (sc_cache s) d of
        Some owners \<Rightarrow> Inr (owners, s)
      | None \<Rightarrow>
          (let p = path_join [d, ''OWNERS''] in
           case ts_blob st p of
             None \<Rightarrow> Inl (ReadError p)
           | Some content \<Rightarrow>
               (let owners = parse_owners_file content
                in Inr (owners, s\<lparr>sc_cache := gm_put (sc_cache s) d owners\<rparr>))))"

partial_function (option) resolve_loop ::
  "tree_store \<Rightarrow> string list \<Rightarrow> scanner \<Rightarrow> string \<Rightarrow> (scan_error + owner_entry list \<times> scanner) option" where
  "resolve_loop st org s d =
     (case (if gm_true (sc_has_owners s) d then owners_at st s d else Inr ([], s)) of
        Inl e \<Rightarrow> Some (Inl e)
      | Inr r \<Rightarrow>
          (if fst r \<noteq> [] then Some (Inr (owner_entries (fst r) PathOwners, snd r))
           else if d = [] then Some (Inr (owner_entries org OrgDefault, snd r))
           else resolve_loop st org (snd r) (parent_dir d)))"

declare resolve_loop.simps [code]

definition resolve_owners ::
  "tree_store \<Rightarrow> string list \<Rightarrow> scanner \<Rightarrow> string \<Rightarrow> string list \<Rightarrow> (scan_error + owner_entry list \<times> scanner) option" where
  "resolve_owners st org s dir manifest_owners =
     (if manifest_owners \<noteq> [] then Some (Inr (owner_entries manifest_owners ProjectManifest, s))
      else resolve_loop st org s dir)"


section \<open>Loading one project\<close>

text \<open>An unknown \<open>run_when\<close> reads as the affected class.\<close>

definition normal_run_when :: "string \<Rightarrow> string" where
  "normal_run_when r = (if r \<noteq> run_when_direct \<and> r \<noteq> run_when_post_land then run_when_affected else r)"

definition manifest_checks :: "ci_check list option \<Rightarrow> check_def list" where
  "manifest_checks ci =
     (case ci of None \<Rightarrow> []
      | Some cs \<Rightarrow> map (\<lambda>c. \<lparr>cd_name = cc_name c, cd_command = cc_command c,
          cd_run_when = normal_run_when (cc_run_when c)\<rparr>) cs)"

definition manifest_required_checks :: "ci_check list option \<Rightarrow> string list" where
  "manifest_required_checks ci =
     (case ci of None \<Rightarrow> []
      | Some cs \<Rightarrow> map cc_name (filter (\<lambda>c. normal_run_when (cc_run_when c) \<noteq> run_when_post_land) cs))"

definition contract_dir_of :: "manifest \<Rightarrow> string \<Rightarrow> string" where
  "contract_dir_of m dir =
     (if has_capability (mf_capabilities m) ''rpc''
      then path_join [dir, capability_config_string (mf_config m) ''rpc'' ''path'' ''proto''] else [])"

definition openapi_of :: "manifest \<Rightarrow> string \<Rightarrow> string" where
  "openapi_of m dir =
     (if has_capability (mf_capabilities m) ''http''
      then path_join [dir, capability_config_string (mf_config m) ''http'' ''openapi'' ''openapi.yaml''] else [])"

definition normal_gitops :: "gitops_decl option \<Rightarrow> gitops_decl option" where
  "normal_gitops g =
     (case g of None \<Rightarrow> None
      | Some d \<Rightarrow> if go_repository d \<noteq> [] \<and> go_kustomization d \<noteq> [] then Some d else None)"

definition indexed_of :: "tree_store \<Rightarrow> string \<Rightarrow> manifest \<Rightarrow> owner_entry list \<Rightarrow> indexed_project" where
  "indexed_of st dir m owners =
     (let rpc = has_capability (mf_capabilities m) ''rpc'';
          http = has_capability (mf_capabilities m) ''http'';
          dep = has_capability (mf_capabilities m) ''deploy'';
          (bins, tag) = (if dep then deploy_binaries_decl (mf_config m) dir else ([], []))
      in \<lparr>ip_name = mf_name m, ip_path = dir, ip_type = mf_type m, ip_capabilities = mf_capabilities m,
          ip_deps = mf_deps m, ip_test_deps = mf_test_deps m,
          ip_root_inval = map ri_pattern (mf_root_inval m),
          ip_refinable = map ri_pattern (filter ri_refinable (mf_root_inval m)),
          ip_prose = mf_prose m,
          ip_checks = manifest_checks (mf_ci m),
          ip_visibility = (if mf_visibility m = [] then ''default'' else mf_visibility m),
          ip_auto_approve = mf_auto_approve m, ip_owners = owners, ip_consumes = mf_consumes m,
          ip_contract_dir = contract_dir_of m dir,
          ip_contract_gen = (if rpc then path_join [contract_dir_of m dir, ''gen''] else []),
          ip_schema_paths = (if has_capability (mf_capabilities m) ''schemas''
             then map (\<lambda>p. path_join [dir, p]) (capability_config_string_list (mf_config m) ''schemas'' ''paths'') else []),
          ip_openapi = openapi_of m dir,
          ip_openapi_present = (http \<and> ts_blob st (openapi_of m dir) \<noteq> None),
          ip_required_checks = manifest_required_checks (mf_ci m),
          ip_image = (if dep then deploy_image_decl (mf_config m) dir else None),
          ip_rides = (if dep then deploy_rider_images (mf_config m) else []),
          ip_registry = mf_deploy_registry m, ip_gitops = normal_gitops (mf_gitops m),
          ip_binaries = bins, ip_binary_tag = tag\<rparr>)"

type_synonym decoder = "string \<Rightarrow> manifest option"

definition load_project ::
  "tree_store \<Rightarrow> decoder \<Rightarrow> string list \<Rightarrow> scanner \<Rightarrow> string \<Rightarrow> (scan_error + indexed_project \<times> scanner) option" where
  "load_project st decode org s dir =
     (let mp = path_join [dir, ''PROJECT.yaml''] in
      case ts_blob st mp of
        None \<Rightarrow> Some (Inl (ReadError mp))
      | Some content \<Rightarrow>
          (case decode content of
             None \<Rightarrow> Some (Inl (ParseError mp))
           | Some m \<Rightarrow>
               (case resolve_owners st org s dir (mf_owners m) of
                  None \<Rightarrow> None
                | Some (Inl e) \<Rightarrow> Some (Inl e)
                | Some (Inr (owners, s')) \<Rightarrow> Some (Inr (indexed_of st dir m owners, s')))))"

section \<open>The walk\<close>

definition has_file :: "tree_entry list \<Rightarrow> string \<Rightarrow> bool" where
  "has_file es name = list_ex (\<lambda>e. te_type e = ''blob'' \<and> te_path e = name) es"

definition subdirs :: "string \<Rightarrow> tree_entry list \<Rightarrow> string list" where
  "subdirs dir es = map (\<lambda>e. path_join [dir, te_path e]) (filter (\<lambda>e. te_type e = ''tree'') es)"

text \<open>What \<open>walk\<close> does to the scanner at one directory, before it recurses.\<close>

definition note_owners :: "string \<Rightarrow> tree_entry list \<Rightarrow> scanner \<Rightarrow> scanner" where
  "note_owners dir es s =
     (if has_file es ''OWNERS'' then s\<lparr>sc_has_owners := gm_put (sc_has_owners s) dir True\<rparr> else s)"

definition enter_dir ::
  "tree_store \<Rightarrow> decoder \<Rightarrow> string list \<Rightarrow> string \<Rightarrow> tree_entry list \<Rightarrow> scanner \<Rightarrow> (scan_error + scanner) option" where
  "enter_dir st decode org dir es s0 =
     (let s = note_owners dir es s0 in
      if has_file es ''PROJECT.yaml'' then
        (case load_project st decode org s dir of
           None \<Rightarrow> None
         | Some (Inl e) \<Rightarrow> Some (Inl e)
         | Some (Inr (p, s')) \<Rightarrow> Some (Inr (s'\<lparr>sc_projects := sc_projects s' @ [p]\<rparr>)))
      else Some (Inr s))"

text \<open>The recursion is bounded by fuel, one unit per directory level; \<open>None\<close> is running out.\<close>

function (sequential)
  walk_dir :: "tree_store \<Rightarrow> decoder \<Rightarrow> string list \<Rightarrow> nat \<Rightarrow> string \<Rightarrow> scanner \<Rightarrow> (scan_error + scanner) option" and
  walk_dirs :: "tree_store \<Rightarrow> decoder \<Rightarrow> string list \<Rightarrow> nat \<Rightarrow> string list \<Rightarrow> scanner \<Rightarrow> (scan_error + scanner) option"
where
  "walk_dir st decode org 0 dir s = None"
| "walk_dir st decode org (Suc n) dir s =
     (case ts_tree st dir of
        None \<Rightarrow> Some (Inl (TreeError dir))
      | Some es \<Rightarrow>
          (case enter_dir st decode org dir es s of
             None \<Rightarrow> None
           | Some (Inl e) \<Rightarrow> Some (Inl e)
           | Some (Inr s') \<Rightarrow> walk_dirs st decode org n (subdirs dir es) s'))"
| "walk_dirs st decode org n [] s = Some (Inr s)"
| "walk_dirs st decode org n (d # ds) s =
     (case walk_dir st decode org n d s of
        None \<Rightarrow> None
      | Some (Inl e) \<Rightarrow> Some (Inl e)
      | Some (Inr s') \<Rightarrow> walk_dirs st decode org n ds s')"
  by pat_completeness auto
termination
  by (relation "measures [\<lambda>x. case x of Inl (_, _, _, n, _, _) \<Rightarrow> n | Inr (_, _, _, n, _, _) \<Rightarrow> n,
       \<lambda>x. case x of Inl _ \<Rightarrow> 0 | Inr (_, _, _, _, ds, _) \<Rightarrow> Suc (length ds)]") auto

definition scan :: "tree_store \<Rightarrow> decoder \<Rightarrow> string list \<Rightarrow> nat \<Rightarrow> (scan_error + indexed_project list) option" where
  "scan st decode org fuel =
     (case walk_dir st decode org fuel [] \<lparr>sc_has_owners = gm_empty, sc_cache = gm_empty, sc_projects = []\<rparr> of
        None \<Rightarrow> None
      | Some (Inl e) \<Rightarrow> Some (Inl e)
      | Some (Inr s) \<Rightarrow> Some (Inr (sc_projects s)))"

section \<open>Lists read off the index\<close>

definition root_invalidation :: "indexed_project list \<Rightarrow> string list" where
  "root_invalidation ps = concat (map ip_root_inval ps)"

definition root_invalidation_refinable :: "indexed_project list \<Rightarrow> string list" where
  "root_invalidation_refinable ps = concat (map ip_refinable ps)"

definition prose :: "indexed_project list \<Rightarrow> string list" where
  "prose ps = concat (map ip_prose ps)"

definition checks_for :: "indexed_project \<Rightarrow> bool \<Rightarrow> check_def list" where
  "checks_for p direct =
     filter (\<lambda>c. \<not> (cd_run_when c = run_when_post_land) \<and> \<not> (\<not> direct \<and> cd_run_when c = run_when_direct)) (ip_checks p)"

definition post_land_checks :: "indexed_project \<Rightarrow> check_def list" where
  "post_land_checks p = filter (\<lambda>c. cd_run_when c = run_when_post_land) (ip_checks p)"

definition affected_project_info :: "indexed_project \<Rightarrow> project_info" where
  "affected_project_info ip =
     \<lparr>pi_name = ip_name ip, pi_path = ip_path ip, pi_deps = ip_deps ip, pi_test_deps = ip_test_deps ip,
      pi_consumes = ip_consumes ip,
      pi_contract_paths =
        (if ip_contract_dir ip \<noteq> [] \<or> ip_openapi ip \<noteq> [] \<or> length (ip_schema_paths ip) > 0
         then [path_join [ip_path ip, ''PROJECT.yaml'']]
           @ (if ip_contract_dir ip \<noteq> [] then [ip_contract_dir ip] else [])
           @ (if ip_openapi ip \<noteq> [] then [ip_openapi ip] else [])
           @ ip_schema_paths ip
         else [])\<rparr>"

definition affected_project_infos :: "indexed_project list \<Rightarrow> project_info list" where
  "affected_project_infos ps = map affected_project_info ps"

section \<open>Auto-approve zones\<close>

definition owns_path :: "string \<Rightarrow> string \<Rightarrow> bool" where
  "owns_path project_path p =
     (if project_path = [] \<or> project_path = ''.'' then True
      else p = project_path \<or> prefix (project_path @ ''/'') p)"

record auto_state =
  as_decided :: bool
  as_value :: bool
  as_best :: int

definition auto_step :: "string \<Rightarrow> auto_state \<Rightarrow> indexed_project \<Rightarrow> auto_state" where
  "auto_step p s ip =
     (case ip_auto_approve ip of
        None \<Rightarrow> s
      | Some v \<Rightarrow>
          if \<not> owns_path (ip_path ip) p then s
          else if int (length (ip_path ip)) > as_best s
          then \<lparr>as_decided = True, as_value = v, as_best = int (length (ip_path ip))\<rparr> else s)"

definition auto_approved :: "indexed_project list \<Rightarrow> string \<Rightarrow> bool" where
  "auto_approved ps p =
     (let s = foldl (auto_step p) \<lparr>as_decided = False, as_value = False, as_best = -1\<rparr> ps
      in if \<not> as_decided s then False else as_value s)"

definition auto_approved_all :: "indexed_project list \<Rightarrow> string list \<Rightarrow> bool" where
  "auto_approved_all ps paths = (if length paths = 0 then False else list_all (auto_approved ps) paths)"


section \<open>What the scan computes\<close>

text \<open>
  The specification of ownership, over the tree alone: the nearest ancestor whose \<open>OWNERS\<close> file
  names somebody decides. Directories are lists of components, innermost last.
\<close>

definition own_file :: "tree_store \<Rightarrow> string \<Rightarrow> bool" where
  "own_file st d \<longleftrightarrow> (case ts_tree st d of None \<Rightarrow> False | Some es \<Rightarrow> has_file es ''OWNERS'')"

definition file_owners :: "tree_store \<Rightarrow> string \<Rightarrow> string list" where
  "file_owners st d =
     (if own_file st d then (case ts_blob st (path_join [d, ''OWNERS'']) of None \<Rightarrow> [] | Some c \<Rightarrow> parse_owners_file c) else [])"

fun nearest_owners :: "tree_store \<Rightarrow> string list \<Rightarrow> string list" where
  "nearest_owners st [] = file_owners st []"
| "nearest_owners st (c # rcs) =
     (let o' = file_owners st (dir_of (rev (c # rcs))) in if o' \<noteq> [] then o' else nearest_owners st rcs)"

definition effective_owners :: "tree_store \<Rightarrow> string list \<Rightarrow> string list \<Rightarrow> string list \<Rightarrow> owner_entry list" where
  "effective_owners st org cs manifest_owners =
     (if manifest_owners \<noteq> [] then owner_entries manifest_owners ProjectManifest
      else let o' = nearest_owners st (rev cs)
           in if o' \<noteq> [] then owner_entries o' PathOwners else owner_entries org OrgDefault)"

definition good_dir :: "string list \<Rightarrow> bool" where
  "good_dir cs \<longleftrightarrow> list_all good_name cs"

lemma good_dir_simps [simp]: "good_dir []" "good_dir (cs @ ds) \<longleftrightarrow> good_dir cs \<and> good_dir ds"
  "good_dir (c # cs) \<longleftrightarrow> good_name c \<and> good_dir cs"
  by (simp_all add: good_dir_def)

lemma parent_dir_snoc: "good_dir (cs @ [c]) \<Longrightarrow> parent_dir (dir_of (cs @ [c])) = dir_of cs"
proof -
  assume g: "good_dir (cs @ [c])"
  have all: "x \<in> set (cs @ [c]) \<Longrightarrow> good_name x" for x using g by (auto simp: good_dir_def list_all_iff)
  then have ne: "dir_of (cs @ [c]) \<noteq> []" using dir_of_empty_iff [of "cs @ [c]"] by blast
  have dot: "dir_of cs \<noteq> ''.''" if "cs \<noteq> []"
  proof
    assume "dir_of cs = ''.''"
    moreover have "go_split slash (dir_of cs) = cs"
      using that all by (intro go_split_join) (auto simp: good_name_def)
    ultimately have "cs = [''.'']" by simp
    then show False using all [of "''.''"] by (simp add: good_name_def)
  qed
  have "path_dir (dir_of (cs @ [c])) = (if cs = [] then ''.'' else dir_of cs)"
    by (rule path_dir_snoc) (use all in auto)
  then show ?thesis using ne dot by (cases "cs = []") (simp_all add: parent_dir_def)
qed

lemma join_dir: "good_dir cs \<Longrightarrow> good_name c \<Longrightarrow> path_join [dir_of cs, c] = dir_of (cs @ [c])"
  by (rule path_join_dir) (auto simp: good_dir_def list_all_iff)

lemma dir_empty: "good_dir cs \<Longrightarrow> dir_of cs = [] \<longleftrightarrow> cs = []"
  by (rule dir_of_empty_iff) (auto simp: good_dir_def list_all_iff)

text \<open>What the scanner's maps record is true of the tree.\<close>

definition sc_ok :: "tree_store \<Rightarrow> scanner \<Rightarrow> bool" where
  "sc_ok st s \<longleftrightarrow> (\<forall>d. gm_true (sc_has_owners s) d \<longrightarrow> own_file st d) \<and>
     (\<forall>d l. gm_get (sc_cache s) d = Some l \<longrightarrow>
        (\<exists>c. ts_blob st (path_join [d, ''OWNERS'']) = Some c \<and> l = parse_owners_file c))"

definition anc_ok :: "tree_store \<Rightarrow> scanner \<Rightarrow> string list \<Rightarrow> bool" where
  "anc_ok st s cs \<longleftrightarrow> (\<forall>k. own_file st (dir_of (take k cs)) \<longrightarrow> gm_true (sc_has_owners s) (dir_of (take k cs)))"

lemma owners_at_ok:
  assumes "sc_ok st s" "gm_true (sc_has_owners s) d" "owners_at st s d = Inr (os, s')"
  shows "os = file_owners st d" "sc_ok st s'" "sc_has_owners s' = sc_has_owners s" "sc_projects s' = sc_projects s"
proof -
  have own: "own_file st d" using assms(1, 2) by (simp add: sc_ok_def)
  have "os = file_owners st d \<and> sc_ok st s' \<and> sc_has_owners s' = sc_has_owners s \<and> sc_projects s' = sc_projects s"
  proof (cases "gm_get (sc_cache s) d")
    case None
    then obtain c where c: "ts_blob st (path_join [d, ''OWNERS'']) = Some c" "os = parse_owners_file c"
      "s' = s\<lparr>sc_cache := gm_put (sc_cache s) d os\<rparr>"
      using assms(3) by (auto simp: owners_at_def Let_def split: option.splits)
    then show ?thesis using assms(1) own by (auto simp: sc_ok_def file_owners_def)
  next
    case (Some l)
    then have "os = l" "s' = s" using assms(3) by (auto simp: owners_at_def)
    moreover obtain c where "ts_blob st (path_join [d, ''OWNERS'']) = Some c" "l = parse_owners_file c"
      using assms(1) Some unfolding sc_ok_def by blast
    ultimately show ?thesis using assms(1) own by (simp add: file_owners_def)
  qed
  then show "os = file_owners st d" "sc_ok st s'" "sc_has_owners s' = sc_has_owners s" "sc_projects s' = sc_projects s"
    by blast+
qed

lemma resolve_loop_ok:
  assumes "good_dir cs" "sc_ok st s" "anc_ok st s cs"
  shows "\<exists>r. resolve_loop st org s (dir_of cs) = Some r \<and>
    (\<forall>os s'. r = Inr (os, s') \<longrightarrow> os = effective_owners st org cs [] \<and> sc_ok st s' \<and>
       sc_has_owners s' = sc_has_owners s \<and> sc_projects s' = sc_projects s)"
  using assms
proof (induction cs arbitrary: s rule: rev_induct)
  case Nil
  show ?case
  proof (cases "gm_true (sc_has_owners s) []")
    case True
    show ?thesis
    proof (cases "owners_at st s []")
      case (Inl e)
      then show ?thesis using True by (subst resolve_loop.simps) simp
    next
      case (Inr r)
      obtain os s' where r: "r = (os, s')" by (cases r)
      note ok = owners_at_ok [OF Nil.prems(2) True Inr [unfolded r]]
      then show ?thesis
        using True Inr r by (subst resolve_loop.simps) (simp add: effective_owners_def)
    qed
  next
    case False
    then have "file_owners st [] = []"
      using Nil.prems(3) by (auto simp: anc_ok_def file_owners_def)
    then show ?thesis
      using Nil False by (subst resolve_loop.simps) (simp add: effective_owners_def)
  qed
next
  case (snoc c cs)
  let ?d = "dir_of (cs @ [c])"
  have d: "?d \<noteq> []" using dir_empty [OF snoc.prems(1)] by blast
  have par: "parent_dir ?d = dir_of cs" by (rule parent_dir_snoc) (rule snoc.prems)
  have good: "good_dir cs" using snoc.prems by simp
  have anc: "anc_ok st s' cs" if "sc_has_owners s' = sc_has_owners s" for s'
    using snoc.prems(3) unfolding anc_ok_def that
    by (metis append_Nil2 diff_is_0_eq nle_le take0 take_all take_append)
  have eff: "effective_owners st org (cs @ [c]) [] =
      (let o' = file_owners st ?d in if o' \<noteq> [] then owner_entries o' PathOwners else effective_owners st org cs [])"
    by (simp add: effective_owners_def Let_def)
  show ?case
  proof (cases "gm_true (sc_has_owners s) ?d")
    case True
    show ?thesis
    proof (cases "owners_at st s ?d")
      case (Inl e)
      then show ?thesis using True by (subst resolve_loop.simps) simp
    next
      case (Inr r)
      obtain os s' where r: "r = (os, s')" by (cases r)
      note ok = owners_at_ok [OF snoc.prems(2) True Inr [unfolded r]]
      show ?thesis
      proof (cases "os = []")
        case True': True
        have "resolve_loop st org s ?d = resolve_loop st org s' (dir_of cs)"
          using True Inr r True' d par by (subst resolve_loop.simps) simp
        moreover have "effective_owners st org (cs @ [c]) [] = effective_owners st org cs []"
          using eff ok(1) True' by simp
        ultimately show ?thesis
          using snoc.IH [OF good ok(2) anc [OF ok(3)]] unfolding ok(3, 4) by simp
      next
        case False
        have "resolve_loop st org s ?d = Some (Inr (owner_entries os PathOwners, s'))"
          using True Inr r False by (subst resolve_loop.simps) simp
        then show ?thesis using eff ok False by simp
      qed
    qed
  next
    case False
    have "take (length (cs @ [c])) (cs @ [c]) = cs @ [c]" by simp
    then have "\<not> own_file st ?d" using snoc.prems(3) False unfolding anc_ok_def by metis
    then have fo: "file_owners st ?d = []" by (simp add: file_owners_def)
    have "resolve_loop st org s ?d = resolve_loop st org s (dir_of cs)"
      using False d par by (subst resolve_loop.simps) simp
    moreover have "effective_owners st org (cs @ [c]) [] = effective_owners st org cs []"
      using eff fo by simp
    ultimately show ?thesis using snoc.IH [OF good snoc.prems(2) anc [OF refl]] by simp
  qed
qed


text \<open>The directories of the tree in pre-order, and the project of a directory with a manifest.\<close>

definition child_names :: "tree_entry list \<Rightarrow> string list" where
  "child_names es = map te_path (filter (\<lambda>e. te_type e = ''tree'') es)"

definition children :: "tree_store \<Rightarrow> string list \<Rightarrow> string list" where
  "children st cs = (case ts_tree st (dir_of cs) of None \<Rightarrow> [] | Some es \<Rightarrow> child_names es)"

fun tree_dirs :: "tree_store \<Rightarrow> nat \<Rightarrow> string list \<Rightarrow> string list list" where
  "tree_dirs st 0 cs = []"
| "tree_dirs st (Suc n) cs = cs # concat (map (\<lambda>x. tree_dirs st n (cs @ [x])) (children st cs))"

definition has_manifest :: "tree_store \<Rightarrow> string list \<Rightarrow> bool" where
  "has_manifest st cs \<longleftrightarrow> (case ts_tree st (dir_of cs) of None \<Rightarrow> False | Some es \<Rightarrow> has_file es ''PROJECT.yaml'')"

definition project_at :: "tree_store \<Rightarrow> decoder \<Rightarrow> string list \<Rightarrow> string list \<Rightarrow> indexed_project option" where
  "project_at st decode org cs =
     (case ts_blob st (path_join [dir_of cs, ''PROJECT.yaml'']) of None \<Rightarrow> None
      | Some content \<Rightarrow> map_option (\<lambda>m. indexed_of st (dir_of cs) m (effective_owners st org cs (mf_owners m))) (decode content))"

text \<open>Git stores no empty name, no dot name and no slash in a tree entry.\<close>

definition store_ok :: "tree_store \<Rightarrow> bool" where
  "store_ok st \<longleftrightarrow> (\<forall>d es. ts_tree st d = Some es \<longrightarrow> list_all good_name (child_names es))"

definition has_mono :: "scanner \<Rightarrow> scanner \<Rightarrow> bool" where
  "has_mono s s' \<longleftrightarrow> (\<forall>d. gm_true (sc_has_owners s) d \<longrightarrow> gm_true (sc_has_owners s') d)"

lemma has_mono_refl [simp]: "has_mono s s"
  by (simp add: has_mono_def)

lemma has_mono_trans: "has_mono s t \<Longrightarrow> has_mono t u \<Longrightarrow> has_mono s u"
  by (simp add: has_mono_def)

lemma anc_ok_mono: "anc_ok st s cs \<Longrightarrow> has_mono s s' \<Longrightarrow> anc_ok st s' cs"
  unfolding anc_ok_def has_mono_def by blast

lemma anc_ok_snoc: "anc_ok st s cs \<Longrightarrow> (own_file st (dir_of (cs @ [c])) \<Longrightarrow> gm_true (sc_has_owners s) (dir_of (cs @ [c]))) \<Longrightarrow> anc_ok st s (cs @ [c])"
  unfolding anc_ok_def
proof (intro allI impI)
  fix k
  assume *: "\<forall>k. own_file st (dir_of (take k cs)) \<longrightarrow> gm_true (sc_has_owners s) (dir_of (take k cs))"
    "own_file st (dir_of (cs @ [c])) \<Longrightarrow> gm_true (sc_has_owners s) (dir_of (cs @ [c]))"
    "own_file st (dir_of (take k (cs @ [c])))"
  show "gm_true (sc_has_owners s) (dir_of (take k (cs @ [c])))"
  proof (cases "k \<le> length cs")
    case True
    then have "take k (cs @ [c]) = take k cs" by simp
    then show ?thesis using * by metis
  next
    case False
    then have "take k (cs @ [c]) = cs @ [c]" by simp
    then show ?thesis using * by metis
  qed
qed

lemma note_owners_ok:
  assumes ok: "sc_ok st s" and es: "ts_tree st (dir_of cs) = Some es"
    and anc: "cs = [] \<or> (\<exists>ds c. cs = ds @ [c] \<and> anc_ok st s ds)"
  defines "t \<equiv> note_owners (dir_of cs) es s"
  shows "sc_ok st t" "has_mono s t" "anc_ok st t cs" "sc_projects t = sc_projects s"
proof -
  have own: "own_file st (dir_of cs) = has_file es ''OWNERS''" by (simp add: own_file_def es)
  show "sc_ok st t" using ok own by (auto simp: t_def note_owners_def sc_ok_def)
  show mono: "has_mono s t" by (simp add: t_def note_owners_def has_mono_def)
  have "own_file st (dir_of cs) \<Longrightarrow> gm_true (sc_has_owners t) (dir_of cs)" by (simp add: t_def note_owners_def own)
  then show "anc_ok st t cs"
    using anc anc_ok_snoc [of st t] anc_ok_mono [OF _ mono] by (auto simp: anc_ok_def [of st t "[]"])
  show "sc_projects t = sc_projects s" by (simp add: t_def note_owners_def)
qed

lemma enter_dir_ok:
  assumes good: "good_dir cs" and ok: "sc_ok st s" and es: "ts_tree st (dir_of cs) = Some es"
    and anc: "cs = [] \<or> (\<exists>ds c. cs = ds @ [c] \<and> anc_ok st s ds)"
    and run: "enter_dir st decode org (dir_of cs) es s = Some (Inr s')"
  shows "sc_ok st s' \<and> anc_ok st s' cs \<and> has_mono s s' \<and>
    map Some (sc_projects s') = map Some (sc_projects s) @ map (project_at st decode org) (filter (has_manifest st) [cs])"
proof -
  define t where "t = note_owners (dir_of cs) es s"
  note t = note_owners_ok [OF ok es anc, folded t_def]
  note ok' = t(1) and mono = t(2) and anc' = t(3) and proj = t(4)
  show ?thesis
  proof (cases "has_file es ''PROJECT.yaml''")
    case False
    then have "s' = t" using run by (simp add: enter_dir_def t_def Let_def)
    then show ?thesis using ok' mono anc' proj False by (simp add: has_manifest_def es)
  next
    case True
    then obtain content m os s1 where
      c: "ts_blob st (path_join [dir_of cs, ''PROJECT.yaml'']) = Some content" "decode content = Some m" and
      r: "resolve_owners st org t (dir_of cs) (mf_owners m) = Some (Inr (os, s1))" and
      s': "s' = s1\<lparr>sc_projects := sc_projects s1 @ [indexed_of st (dir_of cs) m os]\<rparr>"
      using run by (auto simp: enter_dir_def t_def [symmetric] load_project_def Let_def
          split: option.splits sum.splits prod.splits)
    have "os = effective_owners st org cs (mf_owners m) \<and> sc_ok st s1 \<and>
        sc_has_owners s1 = sc_has_owners t \<and> sc_projects s1 = sc_projects t"
      using r resolve_loop_ok [OF good ok' anc', of org] ok'
      by (auto simp: resolve_owners_def effective_owners_def Let_def split: if_splits)
    then show ?thesis
      using c s' True anc' mono proj
      by (simp add: has_manifest_def es project_at_def sc_ok_def anc_ok_def has_mono_def)
  qed
qed


lemma subdirs_children:
  "good_dir cs \<Longrightarrow> store_ok st \<Longrightarrow> ts_tree st (dir_of cs) = Some es \<Longrightarrow>
     subdirs (dir_of cs) es = map (\<lambda>x. dir_of (cs @ [x])) (children st cs) \<and> list_all good_name (children st cs)"
  by (auto simp: subdirs_def children_def child_names_def store_ok_def join_dir list_all_iff)

definition walk_post :: "tree_store \<Rightarrow> decoder \<Rightarrow> string list \<Rightarrow> scanner \<Rightarrow> scanner \<Rightarrow> string list list \<Rightarrow> bool" where
  "walk_post st decode org s s' dirs \<longleftrightarrow> sc_ok st s' \<and> has_mono s s' \<and>
     map Some (sc_projects s') = map Some (sc_projects s) @ map (project_at st decode org) (filter (has_manifest st) dirs)"

lemma walk_post_append:
  "walk_post st decode org s t xs \<Longrightarrow> walk_post st decode org t u ys \<Longrightarrow> walk_post st decode org s u (xs @ ys)"
  by (auto simp: walk_post_def intro: has_mono_trans)

lemma walk_dirs_ok:
  assumes dir: "\<And>x s s'. good_name x \<Longrightarrow> sc_ok st s \<Longrightarrow> anc_ok st s cs \<Longrightarrow>
      walk_dir st decode org n (dir_of (cs @ [x])) s = Some (Inr s') \<Longrightarrow>
      walk_post st decode org s s' (tree_dirs st n (cs @ [x]))"
    and "list_all good_name xs" "sc_ok st s" "anc_ok st s cs"
    and "walk_dirs st decode org n (map (\<lambda>x. dir_of (cs @ [x])) xs) s = Some (Inr s')"
  shows "walk_post st decode org s s' (concat (map (\<lambda>x. tree_dirs st n (cs @ [x])) xs))"
  using assms(2-)
proof (induction xs arbitrary: s)
  case Nil
  then show ?case by (simp add: walk_post_def)
next
  case (Cons x xs)
  obtain t where t: "walk_dir st decode org n (dir_of (cs @ [x])) s = Some (Inr t)"
    "walk_dirs st decode org n (map (\<lambda>x. dir_of (cs @ [x])) xs) t = Some (Inr s')"
    using Cons.prems(4) by (auto split: option.splits sum.splits)
  have p: "walk_post st decode org s t (tree_dirs st n (cs @ [x]))"
    by (rule dir [OF _ _ _ t(1)]) (use Cons.prems in auto)
  then have "anc_ok st t cs" "sc_ok st t" using Cons.prems by (auto simp: walk_post_def intro: anc_ok_mono)
  then have "walk_post st decode org t s' (concat (map (\<lambda>x. tree_dirs st n (cs @ [x])) xs))"
    using Cons.IH Cons.prems t by simp
  with p show ?case by (simp add: walk_post_append)
qed

lemma walk_dir_ok:
  assumes "store_ok st"
  shows "good_dir cs \<Longrightarrow> sc_ok st s \<Longrightarrow> (cs = [] \<or> (\<exists>ds c. cs = ds @ [c] \<and> anc_ok st s ds)) \<Longrightarrow>
    walk_dir st decode org n (dir_of cs) s = Some (Inr s') \<Longrightarrow>
    walk_post st decode org s s' (tree_dirs st n cs)"
proof (induction n arbitrary: cs s s')
  case (Suc n)
  obtain es where es: "ts_tree st (dir_of cs) = Some es"
    using Suc.prems(4) by (auto split: option.splits)
  obtain t where t: "enter_dir st decode org (dir_of cs) es s = Some (Inr t)"
    "walk_dirs st decode org n (subdirs (dir_of cs) es) t = Some (Inr s')"
    using Suc.prems(4) by (auto simp: es split: option.splits sum.splits)
  note e = enter_dir_ok [OF Suc.prems(1, 2) es Suc.prems(3) t(1)]
  note sub = subdirs_children [OF Suc.prems(1) assms es]
  have "walk_post st decode org t s' (concat (map (\<lambda>x. tree_dirs st n (cs @ [x])) (children st cs)))"
  proof (rule walk_dirs_ok)
    fix x u u'
    assume "good_name x" "sc_ok st u" "anc_ok st u cs" "walk_dir st decode org n (dir_of (cs @ [x])) u = Some (Inr u')"
    then show "walk_post st decode org u u' (tree_dirs st n (cs @ [x]))"
      using Suc.prems(1) by (intro Suc.IH) auto
  qed (use e t sub in auto)
  moreover have "walk_post st decode org s t [cs]" using e by (simp add: walk_post_def)
  ultimately show ?case using walk_post_append [of st decode org s t "[cs]"] by fastforce
qed simp

lemma scan_ok:
  assumes "store_ok st" "scan st decode org n = Some (Inr ps)"
  shows "map Some ps = map (project_at st decode org) (filter (has_manifest st) (tree_dirs st n []))"
proof -
  let ?s0 = "\<lparr>sc_has_owners = gm_empty, sc_cache = gm_empty, sc_projects = []\<rparr>"
  obtain s where s: "walk_dir st decode org n (dir_of []) ?s0 = Some (Inr s)" "ps = sc_projects s"
    using assms(2) by (auto simp: scan_def split: option.splits sum.splits)
  have "walk_post st decode org ?s0 s (tree_dirs st n [])"
    by (rule walk_dir_ok [OF assms(1) _ _ _ s(1)]) (auto simp: sc_ok_def)
  then show ?thesis using s(2) by (simp add: walk_post_def)
qed

subsection \<open>Enough fuel\<close>

text \<open>The tree under a directory is less than \<open>n\<close> levels deep.\<close>

fun shallow :: "tree_store \<Rightarrow> nat \<Rightarrow> string list \<Rightarrow> bool" where
  "shallow st 0 cs = False"
| "shallow st (Suc n) cs = list_all (\<lambda>x. shallow st n (cs @ [x])) (children st cs)"

lemma shallow_mono: "shallow st n cs \<Longrightarrow> n \<le> m \<Longrightarrow> shallow st m cs"
proof (induction n arbitrary: m cs)
  case (Suc n)
  then obtain k where "m = Suc k" "n \<le> k" by (cases m) auto
  then show ?case using Suc by (auto simp: list_all_iff)
qed simp

lemma enter_dir_some:
  assumes good: "good_dir cs" and ok: "sc_ok st s" and es: "ts_tree st (dir_of cs) = Some es"
    and anc: "cs = [] \<or> (\<exists>ds c. cs = ds @ [c] \<and> anc_ok st s ds)"
  shows "enter_dir st decode org (dir_of cs) es s \<noteq> None"
proof -
  define t where "t = note_owners (dir_of cs) es s"
  note t = note_owners_ok [OF ok es anc, folded t_def]
  have res: "\<exists>y. resolve_owners st org t (dir_of cs) m = Some y" for m
    using resolve_loop_ok [OF good t(1, 3), of org] by (auto simp: resolve_owners_def)
  have "load_project st decode org t (dir_of cs) \<noteq> None"
  proof
    assume "load_project st decode org t (dir_of cs) = None"
    then have "\<exists>m :: manifest. resolve_owners st org t (dir_of cs) (mf_owners m) = None"
      by (auto simp: load_project_def Let_def split: option.splits sum.splits)
    then obtain m :: manifest where "resolve_owners st org t (dir_of cs) (mf_owners m) = None" ..
    then show False using res [of "mf_owners m"] by simp
  qed
  then have "\<exists>y. load_project st decode org t (dir_of cs) = Some y"
    by simp
  then show ?thesis
    by (auto simp: enter_dir_def t_def [symmetric] Let_def split: sum.splits prod.splits)
qed


lemma walk_dirs_some:
  assumes dir: "\<And>x s. good_name x \<Longrightarrow> x \<in> set xs \<Longrightarrow> sc_ok st s \<Longrightarrow> anc_ok st s cs \<Longrightarrow>
      walk_dir st decode org n (dir_of (cs @ [x])) s \<noteq> None"
    and good: "good_dir cs" "store_ok st"
    and "list_all good_name xs" "sc_ok st s" "anc_ok st s cs"
  shows "walk_dirs st decode org n (map (\<lambda>x. dir_of (cs @ [x])) xs) s \<noteq> None"
  using dir assms(4-)
proof (induction xs arbitrary: s)
  case (Cons x xs)
  have some: "walk_dir st decode org n (dir_of (cs @ [x])) s \<noteq> None" using Cons.prems by auto
  have "walk_dirs st decode org n (map (\<lambda>x. dir_of (cs @ [x])) xs) t \<noteq> None"
    if t: "walk_dir st decode org n (dir_of (cs @ [x])) s = Some (Inr t)" for t
  proof -
    have "walk_post st decode org s t (tree_dirs st n (cs @ [x]))"
      by (rule walk_dir_ok [OF good(2) _ _ _ t]) (use good Cons.prems in auto)
    then have "anc_ok st t cs" "sc_ok st t" using Cons.prems by (auto simp: walk_post_def intro: anc_ok_mono)
    then show ?thesis using Cons.prems by (intro Cons.IH) auto
  qed
  then show ?case using some by (auto split: option.splits sum.splits)
qed simp

lemma walk_dir_some:
  assumes "store_ok st"
  shows "good_dir cs \<Longrightarrow> sc_ok st s \<Longrightarrow> (cs = [] \<or> (\<exists>ds c. cs = ds @ [c] \<and> anc_ok st s ds)) \<Longrightarrow>
    shallow st n cs \<Longrightarrow> walk_dir st decode org n (dir_of cs) s \<noteq> None"
proof (induction n arbitrary: cs s)
  case (Suc n)
  show ?case
  proof (cases "ts_tree st (dir_of cs)")
    case (Some es)
    note e = enter_dir_some [OF Suc.prems(1, 2) Some Suc.prems(3), of decode org]
    note sub = subdirs_children [OF Suc.prems(1) assms Some]
    have "walk_dirs st decode org n (subdirs (dir_of cs) es) t \<noteq> None"
      if t: "enter_dir st decode org (dir_of cs) es s = Some (Inr t)" for t
      unfolding sub [THEN conjunct1]
    proof (rule walk_dirs_some)
      fix x u
      assume "good_name x" "x \<in> set (children st cs)" "sc_ok st u" "anc_ok st u cs"
      then show "walk_dir st decode org n (dir_of (cs @ [x])) u \<noteq> None"
        using Suc.prems(1, 4) by (intro Suc.IH) (auto simp: list_all_iff)
    qed (use enter_dir_ok [OF Suc.prems(1, 2) Some Suc.prems(3) t] sub Suc.prems(1) assms in auto)
    then show ?thesis using e Some by (auto split: option.splits sum.splits)
  qed simp
qed simp

lemma scan_some:
  assumes "store_ok st" "shallow st n []"
  shows "scan st decode org n \<noteq> None"
proof -
  have "walk_dir st decode org n (dir_of []) \<lparr>sc_has_owners = gm_empty, sc_cache = gm_empty, sc_projects = []\<rparr> \<noteq> None"
    by (rule walk_dir_some [OF assms(1) _ _ _ assms(2)]) (auto simp: sc_ok_def)
  then show ?thesis by (auto simp: scan_def split: option.splits sum.splits)
qed


section \<open>Auto-approve zones\<close>

definition declaring :: "indexed_project list \<Rightarrow> indexed_project list" where
  "declaring ps = filter (\<lambda>ip. ip_auto_approve ip \<noteq> None) ps"

lemma owns_path_covers: "d \<noteq> ''.'' \<Longrightarrow> owns_path d p \<longleftrightarrow> covers d p"
  by (simp add: owns_path_def covers_def under_dir_def)

text \<open>The three loop variables always describe one project, or none.\<close>

definition auto_of :: "indexed_project option \<Rightarrow> auto_state" where
  "auto_of b = (case b of None \<Rightarrow> \<lparr>as_decided = False, as_value = False, as_best = -1\<rparr>
     | Some ip \<Rightarrow> \<lparr>as_decided = True, as_value = the (ip_auto_approve ip), as_best = int (length (ip_path ip))\<rparr>)"

lemma auto_fold:
  assumes "''.'' \<notin> ip_path ` set ps"
  shows "foldl (auto_step p) \<lparr>as_decided = False, as_value = False, as_best = -1\<rparr> ps =
    auto_of (longest_by ip_path (declaring ps) p)"
  using assms
proof (induction ps rule: rev_induct)
  case Nil
  show ?case by (simp add: auto_of_def declaring_def longest_by_def)
next
  case (snoc x ps)
  have step: "auto_step p (auto_of b) x = auto_of (if ip_auto_approve x \<noteq> None \<and> covers (ip_path x) p \<and>
      (case b of None \<Rightarrow> True | Some y \<Rightarrow> length (ip_path y) < length (ip_path x)) then Some x else b)" for b
    using snoc.prems by (auto simp: auto_step_def auto_of_def owns_path_covers split: option.splits)
  have "longest_by ip_path (declaring (ps @ [x])) p = (let b = longest_by ip_path (declaring ps) p in
      if ip_auto_approve x \<noteq> None \<and> covers (ip_path x) p \<and>
      (case b of None \<Rightarrow> True | Some y \<Rightarrow> length (ip_path y) < length (ip_path x)) then Some x else b)"
    by (auto simp: declaring_def longest_by_def Let_def)
  then show ?case using snoc by (simp add: step Let_def)
qed

lemma auto_approved_decider:
  assumes "''.'' \<notin> ip_path ` set ps"
  shows "auto_approved ps p \<longleftrightarrow> (case longest_by ip_path (declaring ps) p of None \<Rightarrow> False | Some ip \<Rightarrow> the (ip_auto_approve ip))"
  by (simp add: auto_approved_def Let_def auto_fold [OF assms] auto_of_def split: option.splits)

lemma auto_approved_iff:
  assumes dot: "''.'' \<notin> ip_path ` set ps" and inj: "inj_on ip_path (set ps)"
  shows "auto_approved ps p \<longleftrightarrow> (\<exists>ip \<in> set ps. ip_auto_approve ip = Some True \<and> covers (ip_path ip) p \<and>
    (\<forall>q \<in> set ps. ip_auto_approve q \<noteq> None \<and> covers (ip_path q) p \<longrightarrow> length (ip_path q) \<le> length (ip_path ip)))"
proof (cases "longest_by ip_path (declaring ps) p")
  case None
  then show ?thesis
    using lb.owner_None_iff [of ip_path "declaring ps" p] by (auto simp: auto_approved_decider [OF dot] declaring_def)
next
  case (Some d)
  note sound = lb.owner_sound [OF Some] and longest = lb.owner_longest [OF Some]
  have d: "d \<in> set ps" "ip_auto_approve d \<noteq> None" "covers (ip_path d) p" using sound by (auto simp: declaring_def)
  have max: "length (ip_path q) \<le> length (ip_path d)" if "q \<in> set ps" "ip_auto_approve q \<noteq> None" "covers (ip_path q) p" for q
    using longest that by (simp add: declaring_def)
  have uniq: "ip = d" if "ip \<in> set ps" "covers (ip_path ip) p" "length (ip_path d) \<le> length (ip_path ip)" "ip_auto_approve ip \<noteq> None" for ip
    using that d max [of ip] inj covers_same_length [of "ip_path ip" p "ip_path d"] by (auto dest: inj_onD)
  show ?thesis
  proof (cases "ip_auto_approve d = Some True")
    case True
    then have "auto_approved ps p" by (simp add: auto_approved_decider [OF dot] Some)
    with True d max show ?thesis by blast
  next
    case False
    then have "\<not> auto_approved ps p" using d(2) by (auto simp: auto_approved_decider [OF dot] Some)
    moreover have "ip = d" if "ip \<in> set ps" "ip_auto_approve ip = Some True" "covers (ip_path ip) p"
      "length (ip_path d) \<le> length (ip_path ip)" for ip
      using uniq [OF that(1, 3, 4)] that(2) by simp
    ultimately show ?thesis using False d by blast
  qed
qed

lemma indexed_of_checks:
  "ip_checks (indexed_of st dir m os) = manifest_checks (mf_ci m)"
  "ip_required_checks (indexed_of st dir m os) = manifest_required_checks (mf_ci m)"
  by (simp_all add: indexed_of_def Let_def split_beta)

section \<open>Properties\<close>

text \<open>A two-project tree with an \<open>OWNERS\<close> file at the root, and a decoder that reads the name.\<close>

definition demo_manifest :: "string \<Rightarrow> manifest" where
  "demo_manifest n = \<lparr>mf_name = n, mf_type = ''service'', mf_owners = [], mf_capabilities = [], mf_config = [],
     mf_deps = [], mf_test_deps = [], mf_consumes = [], mf_root_inval = [], mf_prose = [], mf_visibility = [],
     mf_auto_approve = (if n = ''root'' then Some True else None), mf_ci = None, mf_deploy_registry = [], mf_gitops = None\<rparr>"

definition demo_store :: tree_store where
  "demo_store = \<lparr>
     ts_tree = (\<lambda>d. if d = [] then Some [\<lparr>te_path = ''OWNERS'', te_type = ''blob''\<rparr>, \<lparr>te_path = ''PROJECT.yaml'', te_type = ''blob''\<rparr>,
                   \<lparr>te_path = ''app'', te_type = ''tree''\<rparr>]
                 else if d = ''app'' then Some [\<lparr>te_path = ''PROJECT.yaml'', te_type = ''blob''\<rparr>] else None),
     ts_blob = (\<lambda>p. if p = ''OWNERS'' then Some ''ann'' else if p = ''PROJECT.yaml'' then Some ''root''
                 else if p = ''app/PROJECT.yaml'' then Some ''app'' else None)\<rparr>"

definition demo_decode :: decoder where
  "demo_decode c = Some (demo_manifest c)"

definition demo_index :: "indexed_project list" where
  "demo_index = [indexed_of demo_store [] (demo_manifest ''root'') [\<lparr>oe_ref = ''ann'', oe_source = PathOwners\<rparr>],
     indexed_of demo_store ''app'' (demo_manifest ''app'') [\<lparr>oe_ref = ''ann'', oe_source = PathOwners\<rparr>]]"

lemma demo_store_ok: "store_ok demo_store"
  by (auto simp: store_ok_def demo_store_def child_names_def good_name_def)

lemma demo_shallow: "shallow demo_store 2 []"
  by code_simp

lemma demo_scan: "scan demo_store demo_decode [] 2 = Some (Inr demo_index)"
  by code_simp

lemma demo_auto: "''.'' \<notin> ip_path ` set demo_index" "inj_on ip_path (set demo_index)"
  "map ip_path demo_index = [[], ''app'']" "map ip_auto_approve demo_index = [Some True, None]"
  by code_simp+

text \<open>C32. A successful scan returns exactly the directories holding a \<open>PROJECT.yaml\<close>, in pre-order,
  each with its owners resolved as the tree says: manifest owners, else the nearest ancestor
  \<open>OWNERS\<close> file naming anybody, else the org default. The caches never change an answer.\<close>

theorem scan_exact:
  assumes "store_ok st" "scan st decode org n = Some (Inr ps)"
  shows "map Some ps = map (project_at st decode org) (filter (has_manifest st) (tree_dirs st n []))"
  using assms by (rule scan_ok)

theorem scan_exact_witness:
  "map Some demo_index = map (project_at demo_store demo_decode []) [[], [''app'']]"
  using scan_exact [OF demo_store_ok demo_scan]
  by (simp add: demo_store_def has_manifest_def children_def child_names_def has_file_def numeral_2_eq_2)

text \<open>C33. The scan terminates: fuel above the depth of the tree is always enough, whatever the
  manifests and \<open>OWNERS\<close> files hold.\<close>

theorem scan_terminates:
  assumes "store_ok st" "shallow st n []" "n \<le> m"
  shows "\<exists>r. scan st decode org m = Some r"
  using scan_some [OF assms(1) shallow_mono [OF assms(2, 3)]] by blast

theorem scan_terminates_witness: "\<exists>r. scan demo_store demo_decode [''org''] 7 = Some r"
  by (rule scan_terminates [OF demo_store_ok demo_shallow]) simp

text \<open>The nearest declaring project decides auto-approval: a path is auto-approved exactly when
  the project with the longest covering path among those that declare the field says true.\<close>

theorem auto_approved_nearest:
  assumes "''.'' \<notin> ip_path ` set ps" "inj_on ip_path (set ps)"
  shows "auto_approved ps p \<longleftrightarrow> (\<exists>ip \<in> set ps. ip_auto_approve ip = Some True \<and> covers (ip_path ip) p \<and>
    (\<forall>q \<in> set ps. ip_auto_approve q \<noteq> None \<and> covers (ip_path q) p \<longrightarrow> length (ip_path q) \<le> length (ip_path ip)))"
  using assms by (rule auto_approved_iff)

theorem auto_approved_nearest_witness: "auto_approved demo_index ''app/main.go''"
proof -
  have "hd demo_index \<in> set demo_index" "ip_path (hd demo_index) = []" "ip_auto_approve (hd demo_index) = Some True"
    "ip_auto_approve (demo_index ! 1) = None" "demo_index = [hd demo_index, demo_index ! 1]"
    by code_simp+
  then show ?thesis
    using auto_approved_nearest [OF demo_auto(1, 2), of "''app/main.go''"]
    by (metis covers_def empty_iff empty_set le_refl list.size(3) set_ConsD)
qed

text \<open>The check classes partition a project's checks: what the gate and the executor may run
  before landing and what runs after it never overlap and lose nothing, the direct-only class is
  a subsequence of the full one, and the names-only view of a loaded project is the full class.\<close>

theorem checks_for_classes:
  "mset (checks_for p True) + mset (post_land_checks p) = mset (ip_checks p)
   \<and> subseq (checks_for p False) (checks_for p True)
   \<and> ip_required_checks (indexed_of st dir m os) = map cd_name (checks_for (indexed_of st dir m os) True)"
proof -
  have "mset (checks_for p True) + mset (post_land_checks p) = mset (ip_checks p)"
    by (simp add: checks_for_def post_land_checks_def)
  moreover have "checks_for p False = filter (\<lambda>c. cd_run_when c \<noteq> run_when_direct) (checks_for p True)"
    by (auto simp: checks_for_def intro: filter_cong)
  then have "subseq (checks_for p False) (checks_for p True)" by (simp add: subseq_filter_left)
  moreover have "ip_required_checks (indexed_of st dir m os) = map cd_name (checks_for (indexed_of st dir m os) True)"
    by (simp add: indexed_of_checks checks_for_def manifest_required_checks_def manifest_checks_def
        filter_map o_def split: option.split)
  ultimately show ?thesis by blast
qed


end
