(* ===== verification/Contract.thy ===== *)
theory Contract
  imports Index
begin

text \<open>
  \<open>platform/contract\<close>: the receive-time strict-dependency checks. \<open>check\<close> refuses an import of
  another project's contract directory without a declared edge and a missing OpenAPI document;
  \<open>check_build_labels\<close> refuses an undeclared cross-project Bazel label. The Go import parser is a
  parameter: it maps a file's content to the quoted import paths, or fails. Message and
  suggestion texts are not modelled, only the projects and the reference they name.
\<close>

section \<open>Data\<close>

record contract_project =
  cp_name :: string
  cp_path :: string
  cp_deps :: "string list"
  cp_test_deps :: "string list"
  cp_consumes :: "string list"
  cp_gen :: string
  cp_http :: bool
  cp_openapi :: string
  cp_openapi_present :: bool

record contract_file =
  cf_path :: string
  cf_content :: string

datatype violation_code = UndeclaredContractDependency | MissingOpenapiDocument | UndeclaredProjectDependency

record violation =
  vi_code :: violation_code
  vi_path :: string
  vi_from :: string
  vi_to :: string
  vi_ref :: string

type_synonym import_parser = "string \<Rightarrow> string list option"

section \<open>Ownership\<close>

text \<open>\<open>ownerOf\<close>: the best project so far and the length of its root.\<close>

definition root_path :: "contract_project \<Rightarrow> string" where
  "root_path p = (if cp_path p = ''.'' then [] else cp_path p)"

definition owner_of_step ::
  "string \<Rightarrow> contract_project option \<times> int \<Rightarrow> contract_project \<Rightarrow> contract_project option \<times> int" where
  "owner_of_step q b x =
     (let root = root_path x in
      if root = [] then (if snd b < 0 then (Some x, 0) else b)
      else if (q = root \<or> prefix (root @ ''/'') q) \<and> int (length root) > snd b then (Some x, int (length root))
      else b)"

definition owner_of :: "contract_project list \<Rightarrow> string \<Rightarrow> contract_project option" where
  "owner_of ps q = fst (foldl (owner_of_step q) (None, -1) ps)"

definition contract_under_dir :: "string \<Rightarrow> string \<Rightarrow> bool" where
  "contract_under_dir p dir \<longleftrightarrow> p = dir \<or> prefix (dir @ ''/'') p"

definition declares_direct :: "string list \<Rightarrow> string \<Rightarrow> bool" where
  "declares_direct deps name = list_ex (\<lambda>d. d = name) deps"

section \<open>Imports and OpenAPI documents\<close>

text \<open>\<open>strings.Trim(s, "\"")\<close>.\<close>

definition trim_quotes :: "string \<Rightarrow> string" where
  "trim_quotes s = go_trim_right (\<lambda>c. c = CHR 0x22) (go_trim_left (\<lambda>c. c = CHR 0x22) s)"

text \<open>The violation one import of a file amounts to, if any.\<close>

definition check_import ::
  "string \<Rightarrow> contract_project list \<Rightarrow> contract_file \<Rightarrow> string \<Rightarrow> violation option" where
  "check_import module ps f imp =
     (let ipath = trim_quotes imp; consumer = owner_of ps (cf_path f) in
      case go_cut_prefix ipath (module @ ''/'') of
        None \<Rightarrow> None
      | Some rel \<Rightarrow>
          (case owner_of ps rel of
             None \<Rightarrow> None
           | Some owner \<Rightarrow>
               if cp_gen owner = [] \<or> \<not> contract_under_dir rel (cp_gen owner) then None
               else
                 (case consumer of
                    None \<Rightarrow> Some \<lparr>vi_code = UndeclaredContractDependency, vi_path = cf_path f,
                              vi_from = ''(no project)'', vi_to = cp_name owner, vi_ref = ipath\<rparr>
                  | Some c \<Rightarrow>
                      if cp_name c = cp_name owner then None
                      else if declares_direct (cp_consumes c) (cp_name owner) \<or> declares_direct (cp_deps c) (cp_name owner)
                      then None
                      else Some \<lparr>vi_code = UndeclaredContractDependency, vi_path = cf_path f,
                             vi_from = cp_name c, vi_to = cp_name owner, vi_ref = ipath\<rparr>)))"

definition check_imports ::
  "import_parser \<Rightarrow> string \<Rightarrow> contract_project list \<Rightarrow> contract_file list \<Rightarrow> violation list" where
  "check_imports parse module ps files =
     (if module = [] then []
      else concat (map (\<lambda>f.
        if \<not> suffix ''.go'' (cf_path f) then []
        else (case parse (cf_content f) of
                None \<Rightarrow> []
              | Some imps \<Rightarrow> List.map_filter (check_import module ps f) imps)) files))"

definition check_openapi :: "contract_project list \<Rightarrow> string list \<Rightarrow> violation list" where
  "check_openapi ps changed =
     concat (map (\<lambda>p.
       if \<not> cp_http p \<or> cp_openapi_present p \<or> cp_openapi p = [] then []
       else if path_join [cp_path p, ''PROJECT.yaml''] \<notin> set changed \<and> cp_openapi p \<notin> set changed then []
       else [\<lparr>vi_code = MissingOpenapiDocument, vi_path = cp_openapi p, vi_from = cp_name p, vi_to = [], vi_ref = []\<rparr>]) ps)"

definition check ::
  "import_parser \<Rightarrow> string \<Rightarrow> contract_project list \<Rightarrow> contract_file list \<Rightarrow> string list \<Rightarrow> violation list" where
  "check parse module ps files changed = check_imports parse module ps files @ check_openapi ps changed"

section \<open>Bazel labels\<close>

definition is_quote :: "char \<Rightarrow> bool" where
  "is_quote c \<longleftrightarrow> c = CHR 0x22 \<or> c = CHR 0x27"

definition is_label_char :: "char \<Rightarrow> bool" where
  "is_label_char c \<longleftrightarrow> (CHR ''A'' \<le> c \<and> c \<le> CHR ''Z'') \<or> (CHR ''a'' \<le> c \<and> c \<le> CHR ''z'') \<or>
     (CHR ''0'' \<le> c \<and> c \<le> CHR ''9'') \<or> c \<in> {CHR ''_'', CHR ''/'', CHR ''.'', CHR ''+'', CHR ''-''}"

text \<open>
  \<open>stripComments\<close>, its position in the text as a mode: in code, inside a string opened by a
  quote, after a backslash in such a string, or in a comment up to the newline.
\<close>

datatype lex_mode = Code | InString char | Escaped char | Comment

fun strip_comments :: "lex_mode \<Rightarrow> string \<Rightarrow> string" where
  "strip_comments m [] = []"
| "strip_comments (InString k) (c # cs) =
     (if c = CHR 0x5C \<and> cs \<noteq> [] then c # strip_comments (Escaped k) cs
      else c # strip_comments (if c = k then Code else InString k) cs)"
| "strip_comments (Escaped k) (c # cs) = c # strip_comments (InString k) cs"
| "strip_comments Code (c # cs) =
     (if is_quote c then c # strip_comments (InString c) cs
      else if c = CHR ''#'' then strip_comments Comment cs
      else c # strip_comments Code cs)"
| "strip_comments Comment (c # cs) =
     (if c = newline then newline # strip_comments Code cs else strip_comments Comment cs)"

text \<open>A match of the label expression at the front: the package and what follows the match.\<close>

definition match_label :: "string \<Rightarrow> (string \<times> string) option" where
  "match_label s =
     (case s of
        q # a # b # rest \<Rightarrow>
          if is_quote q \<and> a = slash \<and> b = slash then
            (let pkg = takeWhile is_label_char rest in
             case dropWhile is_label_char rest of
               [] \<Rightarrow> None
             | c # r \<Rightarrow>
                 if is_quote c then Some (pkg, r)
                 else if c = CHR '':'' \<and> takeWhile is_label_char r \<noteq> [] then
                   (case dropWhile is_label_char r of
                      [] \<Rightarrow> None
                    | c2 # r2 \<Rightarrow> if is_quote c2 then Some (pkg, r2) else None)
                 else None)
          else None
      | _ \<Rightarrow> None)"

lemma length_dropWhile_Cons: "dropWhile P xs = y # ys \<Longrightarrow> length ys < length xs"
  using length_dropWhile_le [of P xs] by simp

lemma match_label_shorter: "match_label s = Some (pkg, rest) \<Longrightarrow> length rest < length s"
  by (auto simp: match_label_def Let_def split: list.splits if_splits dest!: length_dropWhile_Cons)

function find_labels :: "string \<Rightarrow> string list" where
  "find_labels s =
     (case match_label s of
        Some (pkg, rest) \<Rightarrow> pkg # find_labels rest
      | None \<Rightarrow> (case s of [] \<Rightarrow> [] | _ # cs \<Rightarrow> find_labels cs))"
  by pat_completeness auto
termination
  by (relation "measure length") (auto simp: match_label_shorter)

declare find_labels.simps [simp del]

definition pseudo_package :: "string \<Rightarrow> bool" where
  "pseudo_package pkg \<longleftrightarrow>
     takeWhile (\<lambda>c. c \<noteq> slash) pkg \<in> {''visibility'', ''conditions'', ''command_line_option''}"

record label_edge =
  le_file :: string
  le_from :: string
  le_to :: string
  le_label :: string
  le_declared :: bool

definition covered :: "contract_project \<Rightarrow> string \<Rightarrow> bool" where
  "covered from name \<longleftrightarrow> declares_direct (cp_deps from) name \<or> declares_direct (cp_test_deps from) name \<or>
     declares_direct (cp_consumes from) name"

definition label_step ::
  "contract_project list \<Rightarrow> contract_file \<Rightarrow> contract_project \<Rightarrow> label_edge list \<times> string list \<Rightarrow> string \<Rightarrow>
   label_edge list \<times> string list" where
  "label_step ps f from acc pkg =
     (if pkg = [] \<or> pseudo_package pkg then acc
      else (case owner_of ps pkg of
              None \<Rightarrow> acc
            | Some target \<Rightarrow>
                if cp_name target = cp_name from then acc
                else
                  (let label = ''//'' @ pkg; key = cp_name target @ label in
                   if key \<in> set (snd acc) then acc
                   else (fst acc @ [\<lparr>le_file = cf_path f, le_from = cp_name from, le_to = cp_name target, le_label = label,
                           le_declared = covered from (cp_name target)\<rparr>], key # snd acc))))"

definition file_edges :: "contract_project list \<Rightarrow> contract_file \<Rightarrow> label_edge list" where
  "file_edges ps f =
     (if path_base (cf_path f) \<noteq> ''BUILD.bazel'' \<and> path_base (cf_path f) \<noteq> ''BUILD'' then []
      else (case owner_of ps (cf_path f) of
              None \<Rightarrow> []
            | Some from \<Rightarrow> fst (foldl (label_step ps f from) ([], []) (find_labels (strip_comments Code (cf_content f))))))"

definition build_label_edges :: "contract_project list \<Rightarrow> contract_file list \<Rightarrow> label_edge list" where
  "build_label_edges ps files = sort_key (\<lambda>e. [le_file e, le_label e]) (concat (map (file_edges ps) files))"

definition check_build_labels :: "contract_project list \<Rightarrow> contract_file list \<Rightarrow> violation list" where
  "check_build_labels ps files =
     map (\<lambda>e. \<lparr>vi_code = UndeclaredProjectDependency, vi_path = le_file e, vi_from = le_from e, vi_to = le_to e, vi_ref = le_label e\<rparr>)
       (filter (\<lambda>e. \<not> le_declared e) (build_label_edges ps files))"


section \<open>Ownership is by longest prefix\<close>

definition owner_state :: "contract_project option \<Rightarrow> contract_project option \<times> int" where
  "owner_state b = (b, case b of None \<Rightarrow> -1 | Some y \<Rightarrow> int (length (root_path y)))"

lemma owner_of_step_state:
  "owner_of_step q (owner_state b) x = owner_state (if covers (root_path x) q \<and>
     (case b of None \<Rightarrow> True | Some y \<Rightarrow> length (root_path y) < length (root_path x)) then Some x else b)"
  by (auto simp: owner_of_step_def owner_state_def covers_def under_dir_def Let_def split: option.splits)

lemma owner_of_longest: "owner_of = longest_by root_path"
proof (rule ext, rule ext)
  fix ps q
  have "foldl (owner_of_step q) (owner_state b) ps = owner_state (foldl (\<lambda>b x. if covers (root_path x) q \<and>
     (case b of None \<Rightarrow> True | Some y \<Rightarrow> length (root_path y) < length (root_path x)) then Some x else b) b ps)" for b
    by (induction ps arbitrary: b) (simp_all add: owner_of_step_state)
  from this [of None] show "owner_of ps q = longest_by root_path ps q"
    by (simp add: owner_of_def longest_by_def owner_state_def)
qed

interpretation co: longest_owner root_path owner_of
  unfolding owner_of_longest by (rule lb.longest_owner_axioms)

section \<open>Comments\<close>

definition resume :: "lex_mode \<Rightarrow> lex_mode" where
  "resume m = (if m = Comment then Code else m)"

lemma strip_nonempty: "strip_comments (Escaped k) cs = [] \<longleftrightarrow> cs = []"
  by (cases cs) auto

lemma strip_again: "strip_comments (resume m) (strip_comments m s) = strip_comments m s"
proof (induction m s rule: strip_comments.induct)
  case (1 m)
  show ?case by simp
next
  case (2 k c cs)
  then show ?case by (auto simp: resume_def strip_nonempty)
next
  case (3 k c cs)
  then show ?case by (simp add: resume_def)
next
  case (4 c cs)
  then show ?case by (auto simp: resume_def)
next
  case (5 c cs)
  then show ?case by (auto simp: resume_def is_quote_def)
qed

lemma strip_newlines: "count_list (strip_comments m s) newline = count_list s newline"
  by (induction m s rule: strip_comments.induct) auto

section \<open>Label edges\<close>

definition build_file :: "contract_file \<Rightarrow> bool" where
  "build_file f \<longleftrightarrow> path_base (cf_path f) = ''BUILD.bazel'' \<or> path_base (cf_path f) = ''BUILD''"

definition file_labels :: "contract_file \<Rightarrow> string list" where
  "file_labels f = find_labels (strip_comments Code (cf_content f))"

text \<open>The label \<open>pkg\<close> in a file of project \<open>from\<close> refers to another project.\<close>

definition crosses :: "contract_project list \<Rightarrow> contract_project \<Rightarrow> string \<Rightarrow> contract_project \<Rightarrow> bool" where
  "crosses ps from pkg target \<longleftrightarrow> pkg \<noteq> [] \<and> \<not> pseudo_package pkg \<and> owner_of ps pkg = Some target \<and> cp_name target \<noteq> cp_name from"

definition edge_for :: "contract_file \<Rightarrow> contract_project \<Rightarrow> string \<Rightarrow> contract_project \<Rightarrow> label_edge" where
  "edge_for f from pkg target =
     \<lparr>le_file = cf_path f, le_from = cp_name from, le_to = cp_name target, le_label = ''//'' @ pkg,
      le_declared = covered from (cp_name target)\<rparr>"

lemma key_inj: "slash \<notin> set a \<Longrightarrow> slash \<notin> set b \<Longrightarrow> a @ ''//'' @ x = b @ ''//'' @ y \<Longrightarrow> a = b \<and> x = y"
proof -
  assume *: "slash \<notin> set a" "slash \<notin> set b" "a @ ''//'' @ x = b @ ''//'' @ y"
  have tw: "takeWhile (\<lambda>c. c \<noteq> slash) (z @ ''//'' @ w) = z" if "slash \<notin> set z" for z w
    using that by (subst takeWhile_append2) auto
  have "a = b" using tw [OF *(1), of x] tw [OF *(2), of y] *(3) by simp
  with *(3) show ?thesis by simp
qed

lemma label_fold:
  assumes free: "\<And>p. p \<in> set ps \<Longrightarrow> slash \<notin> set (cp_name p)"
  shows "set (fst (foldl (label_step ps f from) ([], []) pkgs)) =
       {edge_for f from pkg t | pkg t. pkg \<in> set pkgs \<and> crosses ps from pkg t} \<and>
     set (snd (foldl (label_step ps f from) ([], []) pkgs)) =
       {cp_name t @ ''//'' @ pkg | pkg t. pkg \<in> set pkgs \<and> crosses ps from pkg t}"
proof (induction pkgs rule: rev_induct)
  case (snoc x pkgs)
  let ?acc = "foldl (label_step ps f from) ([], []) pkgs"
  let ?E = "\<lambda>xs. {edge_for f from pkg t | pkg t. pkg \<in> set xs \<and> crosses ps from pkg t}"
  let ?K = "\<lambda>xs. {cp_name t @ ''//'' @ pkg | pkg t. pkg \<in> set xs \<and> crosses ps from pkg t}"
  show ?case
  proof (cases "\<exists>t. crosses ps from x t")
    case False
    then have "label_step ps f from ?acc x = ?acc"
      by (auto simp: label_step_def crosses_def split: option.splits)
    moreover have "?E (pkgs @ [x]) = ?E pkgs" "?K (pkgs @ [x]) = ?K pkgs" using False by auto
    ultimately show ?thesis using snoc by simp
  next
    case True
    then obtain t where t: "crosses ps from x t" ..
    then have own: "owner_of ps x = Some t" and uniq: "\<And>u. crosses ps from x u \<longleftrightarrow> u = t"
      by (auto simp: crosses_def)
    have E: "?E (pkgs @ [x]) = insert (edge_for f from x t) (?E pkgs)"
      and K: "?K (pkgs @ [x]) = insert (cp_name t @ ''//'' @ x) (?K pkgs)"
      using uniq by auto
    show ?thesis
    proof (cases "cp_name t @ ''//'' @ x \<in> set (snd ?acc)")
      case True
      then obtain pkg u where u: "pkg \<in> set pkgs" "crosses ps from pkg u" "cp_name t @ ''//'' @ x = cp_name u @ ''//'' @ pkg"
        using snoc by auto
      have "t \<in> set ps" "u \<in> set ps" using own u(2) co.owner_sound by (auto simp: crosses_def)
      then have "x = pkg" using key_inj [OF _ _ u(3)] free by blast
      then have "edge_for f from x t \<in> ?E pkgs" using u uniq by blast
      moreover have "label_step ps f from ?acc x = ?acc"
        using True t by (simp add: label_step_def crosses_def Let_def)
      ultimately show ?thesis using snoc True unfolding E K by auto
    next
      case False
      then have "label_step ps f from ?acc x = (fst ?acc @ [edge_for f from x t], (cp_name t @ ''//'' @ x) # snd ?acc)"
        using t by (simp add: label_step_def crosses_def Let_def edge_for_def)
      then show ?thesis using snoc unfolding E K by simp
    qed
  qed
qed simp


lemma file_edges_set:
  assumes "\<And>p. p \<in> set ps \<Longrightarrow> slash \<notin> set (cp_name p)"
  shows "set (file_edges ps f) = {edge_for f from pkg t | from pkg t.
     build_file f \<and> owner_of ps (cf_path f) = Some from \<and> pkg \<in> set (file_labels f) \<and> crosses ps from pkg t}"
proof (cases "build_file f")
  case False
  then show ?thesis by (simp add: file_edges_def build_file_def)
next
  case True
  show ?thesis
  proof (cases "owner_of ps (cf_path f)")
    case None
    then show ?thesis by (simp add: file_edges_def)
  next
    case (Some src)
    then have "set (file_edges ps f) = {edge_for f src pkg t | pkg t. pkg \<in> set (file_labels f) \<and> crosses ps src pkg t}"
      using True label_fold [of ps f src "file_labels f", OF assms]
      by (auto simp: file_edges_def build_file_def file_labels_def)
    then show ?thesis using True Some by simp
  qed
qed

lemma declares_direct_iff: "declares_direct deps n \<longleftrightarrow> n \<in> set deps"
  by (auto simp: declares_direct_def list_ex_iff)

text \<open>An import that reaches into the generated contract of a project.\<close>

definition uses_contract :: "contract_project list \<Rightarrow> string \<Rightarrow> string \<Rightarrow> contract_project \<Rightarrow> bool" where
  "uses_contract ps module imp owner \<longleftrightarrow>
     (\<exists>rel. trim_quotes imp = (module @ ''/'') @ rel \<and> owner_of ps rel = Some owner \<and>
       cp_gen owner \<noteq> [] \<and> under_dir rel (cp_gen owner))"

definition sanctioned :: "contract_project list \<Rightarrow> contract_file \<Rightarrow> contract_project \<Rightarrow> bool" where
  "sanctioned ps f owner \<longleftrightarrow> (\<exists>c. owner_of ps (cf_path f) = Some c \<and>
     (cp_name c = cp_name owner \<or> cp_name owner \<in> set (cp_consumes c) \<or> cp_name owner \<in> set (cp_deps c)))"

lemma check_import_iff:
  "check_import module ps f imp = None \<longleftrightarrow> (\<forall>owner. uses_contract ps module imp owner \<longrightarrow> sanctioned ps f owner)"
proof (cases "go_cut_prefix (trim_quotes imp) (module @ ''/'')")
  case None
  then have "\<not> uses_contract ps module imp owner" for owner
    unfolding uses_contract_def by (metis go_cut_prefix_Some option.discI)
  with None show ?thesis by (simp add: check_import_def Let_def)
next
  case (Some rel)
  then have "uses_contract ps module imp owner \<longleftrightarrow> owner_of ps rel = Some owner \<and> cp_gen owner \<noteq> [] \<and> under_dir rel (cp_gen owner)" for owner
    by (simp add: go_cut_prefix_Some uses_contract_def)
  with Some show ?thesis
    by (auto simp: check_import_def Let_def sanctioned_def declares_direct_iff contract_under_dir_def under_dir_def
        split: option.splits)
qed

lemma map_filter_empty: "List.map_filter g xs = [] \<longleftrightarrow> (\<forall>x \<in> set xs. g x = None)"
  by (induction xs) (auto simp: List.map_filter_def)

section \<open>Properties\<close>

text \<open>Two projects, one importing the other's contract, and a build file with a label.\<close>

definition demo_contract :: "string list \<Rightarrow> contract_project list" where
  "demo_contract deps =
    [\<lparr>cp_name = ''api'', cp_path = ''api'', cp_deps = [], cp_test_deps = [], cp_consumes = [], cp_gen = ''api/gen'',
      cp_http = False, cp_openapi = [], cp_openapi_present = False\<rparr>,
     \<lparr>cp_name = ''web'', cp_path = ''web'', cp_deps = deps, cp_test_deps = [], cp_consumes = [], cp_gen = [],
      cp_http = False, cp_openapi = [], cp_openapi_present = False\<rparr>]"

definition demo_build :: contract_file where
  "demo_build = \<lparr>cf_path = ''web/BUILD'', cf_content = ''deps = [\"//api:lib\"]''\<rparr>"

definition demo_go :: contract_file where
  "demo_go = \<lparr>cf_path = ''web/a.go'', cf_content = []\<rparr>"

text \<open>The build-label check passes exactly when every label in a build file that points into
  another project has a declared edge on that very project, of any of the three kinds.\<close>

theorem build_labels_strict:
  assumes "\<forall>p \<in> set ps. slash \<notin> set (cp_name p)"
  shows "check_build_labels ps files = [] \<longleftrightarrow>
    (\<forall>f \<in> set files. \<forall>from pkg t. build_file f \<and> owner_of ps (cf_path f) = Some from \<and> pkg \<in> set (file_labels f) \<and>
       crosses ps from pkg t \<longrightarrow> cp_name t \<in> set (cp_deps from) \<union> set (cp_test_deps from) \<union> set (cp_consumes from))"
proof -
  have "check_build_labels ps files = [] \<longleftrightarrow> (\<forall>f \<in> set files. \<forall>e \<in> set (file_edges ps f). le_declared e)"
    by (auto simp: check_build_labels_def build_label_edges_def filter_empty_conv)
  also have "\<dots> \<longleftrightarrow> (\<forall>f \<in> set files. \<forall>from pkg t. build_file f \<and> owner_of ps (cf_path f) = Some from \<and>
      pkg \<in> set (file_labels f) \<and> crosses ps from pkg t \<longrightarrow> covered from (cp_name t))"
  proof -
    have "le_declared (edge_for f src pkg t) = covered src (cp_name t)" for f src pkg t
      by (simp add: edge_for_def)
    moreover have "set (file_edges ps f) = {edge_for f from pkg t | from pkg t.
       build_file f \<and> owner_of ps (cf_path f) = Some from \<and> pkg \<in> set (file_labels f) \<and> crosses ps from pkg t}" for f
      by (rule file_edges_set) (use assms in blast)
    ultimately show ?thesis by fastforce
  qed
  finally show ?thesis by (simp add: covered_def declares_direct_iff)
qed

theorem build_labels_strict_witness:
  "check_build_labels (demo_contract [''api'']) [demo_build] = [] \<and> check_build_labels (demo_contract []) [demo_build] \<noteq> []"
proof -
  have labels: "file_labels demo_build = [''api'']" "build_file demo_build" "\<not> pseudo_package ''api''" by code_simp+
  have own: "owner_of (demo_contract []) ''api'' = Some (demo_contract [] ! 0)"
    "owner_of (demo_contract []) (cf_path demo_build) = Some (demo_contract [] ! 1)"
    "owner_of (demo_contract [''api'']) ''api'' = Some (demo_contract [''api''] ! 0)"
    "owner_of (demo_contract [''api'']) (cf_path demo_build) = Some (demo_contract [''api''] ! 1)" by code_simp+
  have names: "\<forall>p \<in> set (demo_contract deps). slash \<notin> set (cp_name p)" for deps
    by (simp add: demo_contract_def)
  have undeclared: "crosses (demo_contract []) (demo_contract [] ! 1) ''api'' (demo_contract [] ! 0)"
    using own labels by (simp add: crosses_def) (simp add: demo_contract_def)
  have "check_build_labels (demo_contract [''api'']) [demo_build] = []"
    unfolding build_labels_strict [OF names] using own labels by (auto simp: crosses_def) (auto simp: demo_contract_def)
  moreover have "check_build_labels (demo_contract []) [demo_build] \<noteq> []"
    unfolding build_labels_strict [OF names] using own labels undeclared
    by (auto intro!: exI [of _ "demo_contract [] ! 1"] exI [of _ "''api''"] exI [of _ "demo_contract [] ! 0"])
      (auto simp: demo_contract_def)
  ultimately show ?thesis ..
qed

text \<open>The import check passes exactly when every import, in a Go file that parses, of a path
  under another project's generated contract is made by a project that consumes or depends on it
  directly, or owns it.\<close>

theorem contract_imports_strict:
  assumes "module \<noteq> []"
  shows "check_imports parse module ps files = [] \<longleftrightarrow>
    (\<forall>f \<in> set files. \<forall>imps imp owner. suffix ''.go'' (cf_path f) \<and> parse (cf_content f) = Some imps \<and> imp \<in> set imps \<and>
       uses_contract ps module imp owner \<longrightarrow> sanctioned ps f owner)"
proof -
  have per: "(if \<not> suffix ''.go'' (cf_path f) then []
        else (case parse (cf_content f) of None \<Rightarrow> []
              | Some imps \<Rightarrow> List.map_filter (check_import module ps f) imps)) = [] \<longleftrightarrow>
      (suffix ''.go'' (cf_path f) \<longrightarrow> (\<forall>imps. parse (cf_content f) = Some imps \<longrightarrow>
        (\<forall>imp \<in> set imps. check_import module ps f imp = None)))" for f
    by (cases "parse (cf_content f)") (simp_all add: map_filter_empty)
  have "check_imports parse module ps files = [] \<longleftrightarrow> (\<forall>f \<in> set files. suffix ''.go'' (cf_path f) \<longrightarrow>
      (\<forall>imps. parse (cf_content f) = Some imps \<longrightarrow> (\<forall>imp \<in> set imps. check_import module ps f imp = None)))"
    using assms by (simp only: check_imports_def if_False concat_eq_Nil_conv set_map ball_simps per)
  then show ?thesis unfolding check_import_iff by blast
qed

theorem contract_imports_strict_witness:
  "check_imports (\<lambda>_. Some [''\"m/api/gen/x\"'']) ''m'' (demo_contract []) [demo_go] \<noteq> []"
proof -
  have t: "trim_quotes ''\"m/api/gen/x\"'' = (''m'' @ ''/'') @ ''api/gen/x''" by code_simp
  have own: "owner_of (demo_contract []) ''api/gen/x'' = Some (demo_contract [] ! 0)"
    "owner_of (demo_contract []) (cf_path demo_go) = Some (demo_contract [] ! 1)" by code_simp+
  have "cp_gen (demo_contract [] ! 0) \<noteq> []" "under_dir ''api/gen/x'' (cp_gen (demo_contract [] ! 0))" by code_simp+
  then have "uses_contract (demo_contract []) ''m'' ''\"m/api/gen/x\"'' (demo_contract [] ! 0)"
    unfolding uses_contract_def using t own(1) by blast
  moreover have "\<not> sanctioned (demo_contract []) demo_go (demo_contract [] ! 0)"
    using own(2) by (auto simp: sanctioned_def demo_contract_def)
  moreover have "suffix ''.go'' (cf_path demo_go)" by code_simp
  ultimately show ?thesis
    using contract_imports_strict [of "''m''" "\<lambda>_. Some [''\"m/api/gen/x\"'']" "demo_contract []" "[demo_go]"] by auto
qed

text \<open>Stripping comments keeps the line structure and leaves nothing more to strip.\<close>

theorem strip_comments_stable:
  "strip_comments Code (strip_comments Code s) = strip_comments Code s \<and>
   count_list (strip_comments Code s) newline = count_list s newline"
  using strip_again [of Code s] strip_newlines by (simp add: resume_def)

end
