(* ===== verification/Deploy.thy ===== *)
theory Deploy
  imports Index
begin

text \<open>
  \<open>platform/deploy\<close>: which images and binary releases a landed change rebuilds, derived from the
  \<open>deploy\<close> capability of the indexed projects as a post-filter over the affected result, and the
  refusal of ambiguous declarations.
\<close>

section \<open>Images\<close>

definition add_member :: "string \<Rightarrow> string \<Rightarrow> (string, string list) gomap \<Rightarrow> (string, string list) gomap" where
  "add_member img name m = gm_put m img (gm_sub m img @ [name])"

definition member_step :: "(string, string list) gomap \<Rightarrow> indexed_project \<Rightarrow> (string, string list) gomap" where
  "member_step m p =
     (let m1 = (case ip_image p of None \<Rightarrow> m | Some im \<Rightarrow> add_member (im_name im) (ip_name p) m)
      in foldl (\<lambda>m img. add_member img (ip_name p) m) m1 (ip_rides p))"

definition image_members :: "indexed_project list \<Rightarrow> (string, string list) gomap" where
  "image_members ps = foldl member_step gm_empty ps"

definition owned_images :: "indexed_project list \<Rightarrow> string list" where
  "owned_images ps = sorted_names (concat (map (\<lambda>p. case ip_image p of None \<Rightarrow> [] | Some im \<Rightarrow> [im_name im]) ps))"

definition touched_names :: "aff_result \<Rightarrow> string list" where
  "touched_names r = map pr_name (ar_projects r)"

definition images_for_affected :: "aff_result \<Rightarrow> indexed_project list \<Rightarrow> string list" where
  "images_for_affected r ps =
     (let names = owned_images ps in
      if names = [] then []
      else if ar_run_everything r then names
      else filter (\<lambda>img. list_ex (\<lambda>proj. proj \<in> set (touched_names r)) (gm_sub (image_members ps) img)) names)"

record image_build =
  ib_name :: string
  ib_ref :: string
  ib_context :: string
  ib_dockerfile :: string
  ib_args :: "(string, string) gomap"

datatype deploy_error =
  AmbiguousImage string string string
| AmbiguousBinary string string string string

text \<open>\<open>reflect.DeepEqual\<close> on two string maps.\<close>

definition same_args :: "(string, string) gomap \<Rightarrow> (string, string) gomap \<Rightarrow> bool" where
  "same_args a b = list_all (\<lambda>k. gm_get a k = gm_get b k) (gm_keys a @ gm_keys b)"

definition same_build :: "image_build \<Rightarrow> image_build \<Rightarrow> bool" where
  "same_build a b \<longleftrightarrow> ib_context a = ib_context b \<and> ib_dockerfile a = ib_dockerfile b \<and> same_args (ib_args a) (ib_args b)"

definition is_root :: "indexed_project \<Rightarrow> bool" where
  "is_root p \<longleftrightarrow> ip_path p = [] \<or> ip_path p = ''.''"

definition root_registry :: "indexed_project list \<Rightarrow> string" where
  "root_registry ps = (case find is_root ps of None \<Rightarrow> [] | Some p \<Rightarrow> ip_registry p)"

definition image_ref :: "string \<Rightarrow> string \<Rightarrow> string" where
  "image_ref registry name =
     (if registry = [] then name else go_trim_right (\<lambda>c. c = slash) registry @ ''/'' @ name)"

definition root_gitops :: "indexed_project list \<Rightarrow> gitops_decl option" where
  "root_gitops ps = (case find is_root ps of None \<Rightarrow> None | Some p \<Rightarrow> ip_gitops p)"

definition build_of :: "string \<Rightarrow> image_decl \<Rightarrow> image_build" where
  "build_of registry im =
     \<lparr>ib_name = im_name im, ib_ref = image_ref registry (im_name im), ib_context = im_context im,
      ib_dockerfile = im_dockerfile im, ib_args = im_args im\<rparr>"

fun collect_builds ::
  "string \<Rightarrow> string list \<Rightarrow> (string, image_build \<times> string) gomap \<Rightarrow> indexed_project list \<Rightarrow>
   deploy_error + (string, image_build \<times> string) gomap" where
  "collect_builds registry want m [] = Inr m"
| "collect_builds registry want m (p # ps) =
     (case ip_image p of
        None \<Rightarrow> collect_builds registry want m ps
      | Some im \<Rightarrow>
          if im_name im \<notin> set want then collect_builds registry want m ps
          else
            (let b = build_of registry im in
             case gm_get m (im_name im) of
               Some (prev, owner) \<Rightarrow>
                 if \<not> same_build prev b then Inl (AmbiguousImage (im_name im) owner (ip_name p))
                 else collect_builds registry want m ps
             | None \<Rightarrow> collect_builds registry want (gm_put m (im_name im) (b, ip_name p)) ps))"

definition empty_build :: image_build where
  "empty_build = \<lparr>ib_name = [], ib_ref = [], ib_context = [], ib_dockerfile = [], ib_args = gm_empty\<rparr>"

definition image_builds_for_affected ::
  "aff_result \<Rightarrow> indexed_project list \<Rightarrow> deploy_error + image_build list" where
  "image_builds_for_affected r ps =
     (let names = images_for_affected r ps in
      if names = [] then Inr []
      else (case collect_builds (root_registry ps) names gm_empty ps of
              Inl e \<Rightarrow> Inl e
            | Inr m \<Rightarrow> Inr (map (\<lambda>n. case gm_get m n of None \<Rightarrow> empty_build | Some (b, _) \<Rightarrow> b) names)))"

section \<open>Binaries\<close>

record binary_release =
  br_tag :: string
  br_binaries :: "binary_decl list"

fun collect_binaries ::
  "string \<Rightarrow> string \<Rightarrow> (string, binary_decl \<times> string) gomap \<Rightarrow> binary_decl list \<Rightarrow>
   deploy_error + (string, binary_decl \<times> string) gomap" where
  "collect_binaries tag project m [] = Inr m"
| "collect_binaries tag project m (b # bs) =
     (case gm_get m (bd_name b) of
        Some (prev, owner) \<Rightarrow>
          if bd_path prev \<noteq> bd_path b then Inl (AmbiguousBinary (bd_name b) tag owner project)
          else collect_binaries tag project m bs
      | None \<Rightarrow> collect_binaries tag project (gm_put m (bd_name b) (b, project)) bs)"

type_synonym tag_map = "(string, (string, binary_decl \<times> string) gomap) gomap"

fun collect_tags :: "aff_result \<Rightarrow> tag_map \<Rightarrow> indexed_project list \<Rightarrow> deploy_error + tag_map" where
  "collect_tags r m [] = Inr m"
| "collect_tags r m (p # ps) =
     (if ip_binaries p = [] \<or> ip_binary_tag p = [] then collect_tags r m ps
      else if \<not> ar_run_everything r \<and> ip_name p \<notin> set (touched_names r) then collect_tags r m ps
      else
        (case collect_binaries (ip_binary_tag p) (ip_name p) (gm_sub m (ip_binary_tag p)) (ip_binaries p) of
           Inl e \<Rightarrow> Inl e
         | Inr t \<Rightarrow> collect_tags r (gm_put m (ip_binary_tag p) t) ps))"

definition binary_releases_for_affected ::
  "aff_result \<Rightarrow> indexed_project list \<Rightarrow> deploy_error + binary_release list" where
  "binary_releases_for_affected r ps =
     (case collect_tags r gm_empty ps of
        Inl e \<Rightarrow> Inl e
      | Inr m \<Rightarrow> Inr (map (\<lambda>t. \<lparr>br_tag = t,
            br_binaries = sort_key bd_name (map fst (gm_vals (gm_sub m t)))\<rparr>) (sorted_names (gm_keys m))))"

section \<open>The rebuild set\<close>

definition image_member :: "indexed_project list \<Rightarrow> string \<Rightarrow> string \<Rightarrow> bool" where
  "image_member ps img name \<longleftrightarrow> (\<exists>p \<in> set ps. ip_name p = name \<and> (map_option im_name (ip_image p) = Some img \<or> img \<in> set (ip_rides p)))"

lemma add_member_sub: "set (gm_sub (add_member img name m) i) = set (gm_sub m i) \<union> (if i = img then {name} else {})"
  by (auto simp: add_member_def)

lemma add_members_sub:
  "set (gm_sub (foldl (\<lambda>m img. add_member img name m) m imgs) i) = set (gm_sub m i) \<union> (if i \<in> set imgs then {name} else {})"
  by (induction imgs arbitrary: m) (auto simp: add_member_sub)

lemma member_step_sub:
  "set (gm_sub (member_step m p) i) = set (gm_sub m i) \<union>
     (if map_option im_name (ip_image p) = Some i \<or> i \<in> set (ip_rides p) then {ip_name p} else {})"
  by (auto simp: member_step_def add_members_sub add_member_sub split: option.splits)

lemma image_members_set: "set (gm_sub (image_members ps) img) = {n. image_member ps img n}"
proof -
  have "set (gm_sub (foldl member_step m ps) img) = set (gm_sub m img) \<union> {n. image_member ps img n}" for m
    by (induction ps arbitrary: m) (auto simp: member_step_sub image_member_def)
  then show ?thesis by (simp add: image_members_def)
qed

lemma owned_images_set: "set (owned_images ps) = {im_name im | p im. p \<in> set ps \<and> ip_image p = Some im}"
  by (force simp: owned_images_def split: option.splits)

lemma images_for_affected_alt:
  "images_for_affected r ps = filter (\<lambda>img. ar_run_everything r \<or>
     (\<exists>n \<in> set (touched_names r). image_member ps img n)) (owned_images ps)"
  by (auto simp: images_for_affected_def Let_def list_ex_iff image_members_set intro!: filter_cong)


section \<open>Build configurations agree\<close>

definition declares_image :: "indexed_project list \<Rightarrow> string \<Rightarrow> image_decl \<Rightarrow> bool" where
  "declares_image ps owner im \<longleftrightarrow> (\<exists>p \<in> set ps. ip_name p = owner \<and> ip_image p = Some im)"

lemma same_args_iff: "same_args a b \<longleftrightarrow> gm_get a = gm_get b"
proof
  assume *: "same_args a b"
  show "gm_get a = gm_get b"
  proof
    fix k
    show "gm_get a k = gm_get b k"
    proof (cases "k \<in> set (gm_keys a) \<union> set (gm_keys b)")
      case True
      then show ?thesis using * by (auto simp: same_args_def list_all_iff)
    next
      case False
      then show ?thesis by (simp add: gm_keys_iff)
    qed
  qed
qed (simp add: same_args_def list_all_iff)

lemma same_build_sym: "same_build a b \<Longrightarrow> same_build b a"
  by (simp add: same_build_def same_args_iff)

lemma same_build_trans: "same_build a b \<Longrightarrow> same_build b c \<Longrightarrow> same_build a c"
  by (simp add: same_build_def same_args_iff)

lemma build_of_name [simp]: "ib_name (build_of reg im) = im_name im"
  by (simp add: build_of_def)

text \<open>Every recorded build comes from a declaration; the first one of a name is kept.\<close>

definition recorded :: "string \<Rightarrow> indexed_project list \<Rightarrow> (string, image_build \<times> string) gomap \<Rightarrow> bool" where
  "recorded reg ps m \<longleftrightarrow> (\<forall>n b owner. gm_get m n = Some (b, owner) \<longrightarrow>
     (\<exists>im. declares_image ps owner im \<and> im_name im = n \<and> b = build_of reg im))"

definition agrees :: "string \<Rightarrow> string list \<Rightarrow> indexed_project list \<Rightarrow> (string, image_build \<times> string) gomap \<Rightarrow> bool" where
  "agrees reg want ps m \<longleftrightarrow> (\<forall>owner im. declares_image ps owner im \<and> im_name im \<in> set want \<longrightarrow>
     (\<exists>b o'. gm_get m (im_name im) = Some (b, o') \<and> same_build b (build_of reg im)))"

definition disagree :: "string \<Rightarrow> indexed_project list \<Rightarrow> string \<Rightarrow> string \<Rightarrow> string \<Rightarrow> bool" where
  "disagree reg ps img a b \<longleftrightarrow> (\<exists>x y. declares_image ps a x \<and> declares_image ps b y \<and> im_name x = img \<and> im_name y = img \<and>
     \<not> same_build (build_of reg x) (build_of reg y))"

lemma declares_image_append [simp]:
  "declares_image (ps @ qs) owner im \<longleftrightarrow> declares_image ps owner im \<or> declares_image qs owner im"
  by (auto simp: declares_image_def)

lemma same_build_refl [simp]: "same_build b b"
  by (simp add: same_build_def same_args_iff)

lemma collect_builds_spec:
  assumes "recorded reg ps m" "agrees reg want ps m"
  shows "case collect_builds reg want m qs of
      Inr m' \<Rightarrow> recorded reg (ps @ qs) m' \<and> agrees reg want (ps @ qs) m'
    | Inl e \<Rightarrow> \<exists>img a b. e = AmbiguousImage img a b \<and> img \<in> set want \<and> disagree reg (ps @ qs) img a b"
  using assms
proof (induction qs arbitrary: ps m)
  case (Cons q qs)
  have assoc: "(ps @ [q]) @ qs = ps @ q # qs" by simp
  have skip: ?case if "collect_builds reg want m (q # qs) = collect_builds reg want m qs"
    "recorded reg (ps @ [q]) m" "agrees reg want (ps @ [q]) m"
    using Cons.IH [OF that(2, 3)] that(1) unfolding assoc by simp
  show ?case
  proof (cases "ip_image q")
    case None
    have "\<not> declares_image [q] owner im" for owner im by (simp add: declares_image_def None)
    then show ?thesis
      using Cons.prems None by (intro skip) (simp_all add: recorded_def agrees_def)
  next
    case (Some im)
    have q: "declares_image [q] owner im' \<longleftrightarrow> owner = ip_name q \<and> im' = im" for owner im'
      using Some by (auto simp: declares_image_def)
    have rec: "recorded reg (ps @ [q]) m" using Cons.prems(1) unfolding recorded_def by fastforce
    show ?thesis
    proof (cases "im_name im \<in> set want")
      case False
      then show ?thesis
        using Cons.prems(2) Some rec by (intro skip) (auto simp: agrees_def q)
    next
      case True
      show ?thesis
      proof (cases "gm_get m (im_name im)")
        case None
        let ?m = "gm_put m (im_name im) (build_of reg im, ip_name q)"
        have "recorded reg (ps @ [q]) ?m"
          using rec unfolding recorded_def by (auto simp: q)
        moreover have "agrees reg want (ps @ [q]) ?m"
          unfolding agrees_def
        proof (intro allI impI)
          fix owner x
          assume x: "declares_image (ps @ [q]) owner x \<and> im_name x \<in> set want"
          show "\<exists>b o'. gm_get ?m (im_name x) = Some (b, o') \<and> same_build b (build_of reg x)"
          proof (cases "declares_image ps owner x")
            case True
            then obtain b o' where "gm_get m (im_name x) = Some (b, o')" "same_build b (build_of reg x)"
              using Cons.prems(2) x unfolding agrees_def by blast
            then show ?thesis using None by auto
          next
            case False
            then show ?thesis using x q by simp
          qed
        qed
        ultimately show ?thesis
          using Cons.IH [of "ps @ [q]" ?m] Some True None unfolding assoc by (simp add: Let_def)
      next
        case prev: (Some bo)
        obtain b owner where bo: "bo = (b, owner)" by (cases bo)
        show ?thesis
        proof (cases "same_build b (build_of reg im)")
          case same: True
          then have "agrees reg want (ps @ [q]) m"
            using Cons.prems(2) prev bo unfolding agrees_def by (auto simp: q)
          then show ?thesis using rec same Some True prev bo by (intro skip) (simp_all add: Let_def)
        next
          case False
          obtain im' where "declares_image ps owner im'" "im_name im' = im_name im" "b = build_of reg im'"
            using Cons.prems(1) prev bo unfolding recorded_def by blast
          moreover have "declares_image (ps @ q # qs) (ip_name q) im"
            using Some by (auto simp: declares_image_def)
          ultimately have "disagree reg (ps @ q # qs) (im_name im) owner (ip_name q)"
            using False unfolding disagree_def by (metis declares_image_append)
          then show ?thesis using Some True prev bo False by (simp add: Let_def)
        qed
      qed
    qed
  qed
qed simp


section \<open>Binary releases\<close>

definition bin_path :: "(string, binary_decl \<times> string) gomap \<Rightarrow> string \<Rightarrow> string option" where
  "bin_path T n = map_option (\<lambda>x. bd_path (fst x)) (gm_get T n)"

definition bins_ok :: "(string, binary_decl \<times> string) gomap \<Rightarrow> bool" where
  "bins_ok T \<longleftrightarrow> gm_wf T \<and> (\<forall>n b owner. gm_get T n = Some (b, owner) \<longrightarrow> bd_name b = n)"

lemma bin_path_put: "bin_path (gm_put T n x) k = (if k = n then Some (bd_path (fst x)) else bin_path T k)"
  by (simp add: bin_path_def)

lemma collect_binaries_spec:
  assumes "bins_ok T"
  shows "case collect_binaries tag project T bs of
      Inr T' \<Rightarrow> bins_ok T' \<and> (\<forall>n q. bin_path T' n = Some q \<longleftrightarrow> bin_path T n = Some q \<or> (\<exists>b \<in> set bs. bd_name b = n \<and> bd_path b = q))
    | Inl e \<Rightarrow> \<exists>n q q'. q \<noteq> q' \<and> (\<exists>b \<in> set bs. bd_name b = n \<and> bd_path b = q') \<and>
        (bin_path T n = Some q \<or> (\<exists>b \<in> set bs. bd_name b = n \<and> bd_path b = q))"
  using assms
proof (induction bs arbitrary: T)
  case (Cons b bs)
  show ?case
  proof (cases "gm_get T (bd_name b)")
    case None
    let ?T = "gm_put T (bd_name b) (b, project)"
    have "bins_ok ?T" using Cons.prems by (simp add: bins_ok_def)
    note IH = Cons.IH [OF this]
    have new: "bin_path ?T n = Some q \<longleftrightarrow> bin_path T n = Some q \<or> bd_name b = n \<and> bd_path b = q" for n q
      using None by (auto simp: bin_path_put) (auto simp: bin_path_def)
    show ?thesis
    proof (cases "collect_binaries tag project ?T bs")
      case (Inl e)
      then show ?thesis using IH None unfolding new by auto
    next
      case (Inr T')
      then show ?thesis using IH None unfolding new by auto
    qed
  next
    case (Some x)
    obtain prev owner where x: "x = (prev, owner)" by (cases x)
    have bp: "bin_path T (bd_name b) = Some (bd_path prev)" using Some x by (simp add: bin_path_def)
    show ?thesis
    proof (cases "bd_path prev = bd_path b")
      case False
      then show ?thesis using Some x bp by auto
    next
      case True
      show ?thesis
      proof (cases "collect_binaries tag project T bs")
        case (Inl e)
        then show ?thesis using Cons.IH [OF Cons.prems] Some x True by auto
      next
        case (Inr T')
        then have "bins_ok T'" and *: "\<And>n q. bin_path T' n = Some q \<longleftrightarrow> bin_path T n = Some q \<or> (\<exists>b \<in> set bs. bd_name b = n \<and> bd_path b = q)"
          using Cons.IH [OF Cons.prems] by auto
        then show ?thesis using Some x True Inr bp by auto
      qed
    qed
  qed
qed simp

definition republished :: "aff_result \<Rightarrow> indexed_project \<Rightarrow> bool" where
  "republished r p \<longleftrightarrow> ip_binaries p \<noteq> [] \<and> ip_binary_tag p \<noteq> [] \<and>
     (ar_run_everything r \<or> ip_name p \<in> set (touched_names r))"

text \<open>The tag, name and path of every binary a republished project declares.\<close>

definition declared_binaries :: "aff_result \<Rightarrow> indexed_project list \<Rightarrow> (string \<times> string \<times> string) set" where
  "declared_binaries r ps =
     {(ip_binary_tag p, bd_name b, bd_path b) | p b. p \<in> set ps \<and> republished r p \<and> b \<in> set (ip_binaries p)}"

definition tags_ok :: "tag_map \<Rightarrow> bool" where
  "tags_ok m \<longleftrightarrow> gm_wf m \<and> (\<forall>t. bins_ok (gm_sub m t))"

lemma bins_ok_empty [simp]: "bins_ok []"
  by (simp add: bins_ok_def gm_wf_def gm_get_def)

lemma bin_path_empty [simp]: "bin_path [] n = None"
  by (simp add: bin_path_def gm_get_def)

lemma collect_tags_spec:
  assumes "tags_ok m" and "\<And>t n q. (t, n, q) \<in> D \<longleftrightarrow> bin_path (gm_sub m t) n = Some q"
  shows "case collect_tags r m ps of
      Inr m' \<Rightarrow> tags_ok m' \<and> (\<forall>t n q. bin_path (gm_sub m' t) n = Some q \<longleftrightarrow> (t, n, q) \<in> D \<union> declared_binaries r ps)
    | Inl e \<Rightarrow> \<exists>t n q q'. q \<noteq> q' \<and> (t, n, q) \<in> D \<union> declared_binaries r ps \<and> (t, n, q') \<in> D \<union> declared_binaries r ps"
  using assms
proof (induction ps arbitrary: m D)
  case Nil
  then show ?case by (simp add: declared_binaries_def)
next
  case (Cons p ps)
  show ?case
  proof (cases "republished r p")
    case False
    then have "collect_tags r m (p # ps) = collect_tags r m ps" by (auto simp: republished_def)
    moreover have "declared_binaries r (p # ps) = declared_binaries r ps"
      using False by (auto simp: declared_binaries_def)
    ultimately show ?thesis using Cons.IH [OF Cons.prems] by (simp only:)
  next
    case True
    let ?t = "ip_binary_tag p" and ?B = "{(ip_binary_tag p, bd_name b, bd_path b) | b. b \<in> set (ip_binaries p)}"
    have decl: "declared_binaries r (p # ps) = ?B \<union> declared_binaries r ps"
      using True by (auto simp: declared_binaries_def)
    have ok: "bins_ok (gm_sub m ?t)" using Cons.prems(1) by (simp add: tags_ok_def)
    note spec = collect_binaries_spec [OF ok, where tag = ?t and project = "ip_name p" and bs = "ip_binaries p"]
    have unf: "collect_tags r m (p # ps) = (case collect_binaries ?t (ip_name p) (gm_sub m ?t) (ip_binaries p) of
        Inl e \<Rightarrow> Inl e | Inr T \<Rightarrow> collect_tags r (gm_put m ?t T) ps)"
      using True by (auto simp: republished_def)
    show ?thesis
    proof (cases "collect_binaries ?t (ip_name p) (gm_sub m ?t) (ip_binaries p)")
      case (Inl e)
      then obtain n q q' where "q \<noteq> q'" "\<exists>b \<in> set (ip_binaries p). bd_name b = n \<and> bd_path b = q'"
        "bin_path (gm_sub m ?t) n = Some q \<or> (\<exists>b \<in> set (ip_binaries p). bd_name b = n \<and> bd_path b = q)"
        using spec by auto
      then have "(?t, n, q) \<in> D \<union> ?B" "(?t, n, q') \<in> D \<union> ?B" using Cons.prems(2) by auto
      then have "\<exists>t n q q'. q \<noteq> q' \<and> (t, n, q) \<in> D \<union> (?B \<union> declared_binaries r ps) \<and> (t, n, q') \<in> D \<union> (?B \<union> declared_binaries r ps)"
        using \<open>q \<noteq> q'\<close> by blast
      then show ?thesis using Inl unfolding unf decl by (simp only: sum.case)
    next
      case (Inr T)
      then have T: "bins_ok T" "\<And>n q. bin_path T n = Some q \<longleftrightarrow> (?t, n, q) \<in> D \<union> ?B"
        using spec Cons.prems(2) by auto
      have "tags_ok (gm_put m ?t T)" using T(1) Cons.prems(1) by (simp add: tags_ok_def)
      moreover have "(t, n, q) \<in> D \<union> ?B \<longleftrightarrow> bin_path (gm_sub (gm_put m ?t T) t) n = Some q" for t n q
        using T(2) Cons.prems(2) by auto
      ultimately show ?thesis
        using Cons.IH [of "gm_put m ?t T" "D \<union> ?B"] Inr unfolding unf decl by (simp only: sum.case Un_assoc)
    qed
  qed
qed

lemma release_binaries:
  assumes "bins_ok T"
  shows "{(bd_name b, bd_path b) | b. b \<in> set (sort_key bd_name (map fst (gm_vals T)))} = {(n, q). bin_path T n = Some q}"
    "distinct (map bd_name (sort_key bd_name (map fst (gm_vals T))))"
proof -
  have wf: "gm_wf T" and names: "\<And>n b owner. gm_get T n = Some (b, owner) \<Longrightarrow> bd_name b = n"
    using assms by (auto simp: bins_ok_def)
  have keys: "map bd_name (map fst (gm_vals T)) = gm_keys T"
    using names wf by (auto simp: gm_vals_def gm_keys_def gm_entry_iff)
  then have "mset (map bd_name (sort_key bd_name (map fst (gm_vals T)))) = mset (gm_keys T)"
    unfolding keys [symmetric] mset_map by (simp add: multiset.map_comp)
  then show "distinct (map bd_name (sort_key bd_name (map fst (gm_vals T))))"
    using gm.wf_keys [OF wf] mset_eq_imp_distinct_iff by blast
  show "{(bd_name b, bd_path b) | b. b \<in> set (sort_key bd_name (map fst (gm_vals T)))} = {(n, q). bin_path T n = Some q}"
  proof -
    have "b \<in> fst ` set (gm_vals T) \<longleftrightarrow> (\<exists>owner. gm_get T (bd_name b) = Some (b, owner))" for b
    proof
      assume "b \<in> fst ` set (gm_vals T)"
      then obtain k owner where k: "gm_get T k = Some (b, owner)" using gm_vals_iff [OF wf] by force
      then show "\<exists>owner. gm_get T (bd_name b) = Some (b, owner)" using names [OF k] by auto
    next
      assume "\<exists>owner. gm_get T (bd_name b) = Some (b, owner)"
      then show "b \<in> fst ` set (gm_vals T)" using gm_vals_iff [OF wf] by force
    qed
    then have "{(bd_name b, bd_path b) | b. b \<in> set (sort_key bd_name (map fst (gm_vals T)))} =
        {(bd_name b, bd_path b) | b. \<exists>owner. gm_get T (bd_name b) = Some (b, owner)}" by simp
    also have "\<dots> = {(n, q). \<exists>b owner. gm_get T n = Some (b, owner) \<and> bd_path b = q}"
      using names by blast
    also have "\<dots> = {(n, q). bin_path T n = Some q}" by (auto simp: bin_path_def)
    finally show ?thesis .
  qed
qed


lemma agrees_no_disagree:
  assumes "agrees reg want ps m" "img \<in> set want"
  shows "\<not> disagree reg ps img a b"
proof
  assume "disagree reg ps img a b"
  then obtain x y where xy: "declares_image ps a x" "declares_image ps b y" "im_name x = img" "im_name y = img"
    "\<not> same_build (build_of reg x) (build_of reg y)" unfolding disagree_def by blast
  obtain c o' where c: "gm_get m img = Some (c, o')" "same_build c (build_of reg x)"
    using assms(1) [unfolded agrees_def, rule_format, of a x] assms(2) xy by auto
  obtain d o'' where d: "gm_get m img = Some (d, o'')" "same_build d (build_of reg y)"
    using assms(1) [unfolded agrees_def, rule_format, of b y] assms(2) xy by auto
  have "same_build (build_of reg x) (build_of reg y)"
    using c d same_build_sym same_build_trans by (metis option.inject prod.inject)
  then show False using xy(5) by blast
qed

lemma images_declared: "img \<in> set (images_for_affected r ps) \<Longrightarrow> \<exists>owner im. declares_image ps owner im \<and> im_name im = img"
  unfolding images_for_affected_alt declares_image_def using owned_images_set by fastforce

definition registry_builds :: "indexed_project list \<Rightarrow> image_build set" where
  "registry_builds ps = {build_of (root_registry ps) im | owner im. declares_image ps owner im}"

lemma image_builds_cases:
  "case image_builds_for_affected r ps of
     Inr bs \<Rightarrow> map ib_name bs = images_for_affected r ps \<and> set bs \<subseteq> registry_builds ps \<and>
       \<not> (\<exists>img \<in> set (images_for_affected r ps). \<exists>a b. disagree (root_registry ps) ps img a b)
   | Inl e \<Rightarrow> \<exists>img a b. e = AmbiguousImage img a b \<and> img \<in> set (images_for_affected r ps) \<and>
       disagree (root_registry ps) ps img a b"
proof (cases "images_for_affected r ps = []")
  case True
  then show ?thesis by (simp add: image_builds_for_affected_def)
next
  case False
  let ?reg = "root_registry ps" and ?want = "images_for_affected r ps"
  have "recorded ?reg [] gm_empty" "agrees ?reg ?want [] gm_empty"
    by (simp_all add: recorded_def agrees_def declares_image_def)
  note spec = collect_builds_spec [OF this, of ps]
  show ?thesis
  proof (cases "collect_builds ?reg ?want gm_empty ps")
    case (Inl e)
    then show ?thesis using spec False by (simp add: image_builds_for_affected_def Let_def)
  next
    case (Inr m)
    let ?b = "\<lambda>n. case gm_get m n of None \<Rightarrow> empty_build | Some (b, _) \<Rightarrow> b"
    have m: "recorded ?reg ps m" "agrees ?reg ?want ps m" using spec Inr by simp_all
    have one: "ib_name (?b n) = n \<and> ?b n \<in> registry_builds ps" if n: "n \<in> set ?want" for n
    proof -
      obtain owner im where "declares_image ps owner im" "im_name im = n" using images_declared [OF n] by blast
      then obtain b o' where b: "gm_get m n = Some (b, o')" using m(2) n unfolding agrees_def by blast
      then obtain x where "declares_image ps o' x" "im_name x = n" "b = build_of ?reg x"
        using m(1) unfolding recorded_def by blast
      then show ?thesis using b by (auto simp: registry_builds_def)
    qed
    have "map ib_name (map ?b ?want) = ?want" by (rule map_idI [of _ "ib_name \<circ> ?b", simplified map_map [symmetric]]) (simp add: one)
    moreover have "set (map ?b ?want) \<subseteq> registry_builds ps" using one by auto
    ultimately show ?thesis
      using Inr False agrees_no_disagree [OF m(2)] by (simp add: image_builds_for_affected_def Let_def)
  qed
qed

lemma binary_releases_cases:
  "case binary_releases_for_affected r ps of
     Inr rs \<Rightarrow> {(br_tag x, bd_name b, bd_path b) | x b. x \<in> set rs \<and> b \<in> set (br_binaries x)} = declared_binaries r ps \<and>
       sorted (map br_tag rs) \<and> distinct (map br_tag rs) \<and> list_all (\<lambda>x. sorted (map bd_name (br_binaries x)) \<and> distinct (map bd_name (br_binaries x))) rs
   | Inl e \<Rightarrow> \<exists>t n q q'. q \<noteq> q' \<and> (t, n, q) \<in> declared_binaries r ps \<and> (t, n, q') \<in> declared_binaries r ps"
proof -
  have "tags_ok gm_empty" by (simp add: tags_ok_def)
  then have spec: "case collect_tags r gm_empty ps of
      Inr m' \<Rightarrow> tags_ok m' \<and> (\<forall>t n q. bin_path (gm_sub m' t) n = Some q \<longleftrightarrow> (t, n, q) \<in> declared_binaries r ps)
    | Inl e \<Rightarrow> \<exists>t n q q'. q \<noteq> q' \<and> (t, n, q) \<in> declared_binaries r ps \<and> (t, n, q') \<in> declared_binaries r ps"
    using collect_tags_spec [of gm_empty "{}" r ps, unfolded Un_empty_left] by simp
  show ?thesis
  proof (cases "collect_tags r gm_empty ps")
    case (Inl e)
    then show ?thesis using spec by (simp add: binary_releases_for_affected_def)
  next
    case (Inr m)
    let ?rel = "\<lambda>t. \<lparr>br_tag = t, br_binaries = sort_key bd_name (map fst (gm_vals (gm_sub m t)))\<rparr>"
    have ok: "bins_ok (gm_sub m t)" for t using spec Inr by (simp add: tags_ok_def)
    have bp: "bin_path (gm_sub m t) n = Some q \<longleftrightarrow> (t, n, q) \<in> declared_binaries r ps" for t n q
      using spec Inr by simp
    have keys: "t \<in> set (gm_keys m)" if "(t, n, q) \<in> declared_binaries r ps" for t n q
      using that unfolding bp [symmetric] by (auto simp: gm_keys_iff gm_sub_def split: option.splits)
    have "{(br_tag x, bd_name b, bd_path b) | x b. x \<in> set (map ?rel (sorted_names (gm_keys m))) \<and> b \<in> set (br_binaries x)}
        = {(t, n, q). t \<in> set (gm_keys m) \<and> (n, q) \<in> {(bd_name b, bd_path b) | b. b \<in> set (sort_key bd_name (map fst (gm_vals (gm_sub m t))))}}"
      by force
    also have "\<dots> = declared_binaries r ps"
      unfolding release_binaries(1) [OF ok] using bp keys by auto
    finally have decl: "{(br_tag x, bd_name b, bd_path b) | x b. x \<in> set (map ?rel (sorted_names (gm_keys m))) \<and> b \<in> set (br_binaries x)}
        = declared_binaries r ps" .
    have "list_all (\<lambda>x. sorted (map bd_name (br_binaries x)) \<and> distinct (map bd_name (br_binaries x))) (map ?rel (sorted_names (gm_keys m)))"
      using release_binaries(2) [OF ok] by (simp add: list.pred_map list_all_iff)
    moreover have "map br_tag (map ?rel (sorted_names (gm_keys m))) = sorted_names (gm_keys m)"
      by (simp add: o_def)
    ultimately show ?thesis
      using Inr decl by (simp only: binary_releases_for_affected_def sum.case sorted_sorted_names distinct_sorted_names)
  qed
qed

section \<open>Properties\<close>

text \<open>An image is rebuilt exactly when some project declares it and either everything runs or a
  project that owns or rides it is affected; the names come sorted and without repetition.\<close>

theorem images_rebuild_exact:
  "set (images_for_affected r ps) = {im_name im | p im. p \<in> set ps \<and> ip_image p = Some im} \<inter>
     {img. ar_run_everything r \<or> (\<exists>n \<in> set (touched_names r). image_member ps img n)}
   \<and> sorted (images_for_affected r ps) \<and> distinct (images_for_affected r ps)"
  unfolding images_for_affected_alt using owned_images_set [of ps]
  by (auto simp: owned_images_def sorted_filter [of "\<lambda>x. x", simplified])

text \<open>The build list either gives, in the order of the rebuild set, one declared configuration
  per image on which all declaring projects agree, or refuses with a rebuilt image two projects
  configure differently: a wrong configuration is never picked silently.\<close>

theorem image_builds_unambiguous:
  "case image_builds_for_affected r ps of
     Inr bs \<Rightarrow> map ib_name bs = images_for_affected r ps \<and> set bs \<subseteq> registry_builds ps \<and>
       \<not> (\<exists>img \<in> set (images_for_affected r ps). \<exists>a b. disagree (root_registry ps) ps img a b)
   | Inl e \<Rightarrow> \<exists>img a b. e = AmbiguousImage img a b \<and> img \<in> set (images_for_affected r ps) \<and>
       disagree (root_registry ps) ps img a b"
  by (rule image_builds_cases)

text \<open>The binary releases hold exactly the binaries declared by the republished projects, each
  tag and each name within a tag once, in order; a name declared under one tag with two paths is
  refused.\<close>

theorem binary_releases_exact:
  "case binary_releases_for_affected r ps of
     Inr rs \<Rightarrow> {(br_tag x, bd_name b, bd_path b) | x b. x \<in> set rs \<and> b \<in> set (br_binaries x)} = declared_binaries r ps \<and>
       sorted (map br_tag rs) \<and> distinct (map br_tag rs) \<and> list_all (\<lambda>x. sorted (map bd_name (br_binaries x)) \<and> distinct (map bd_name (br_binaries x))) rs
   | Inl e \<Rightarrow> \<exists>t n q q'. q \<noteq> q' \<and> (t, n, q) \<in> declared_binaries r ps \<and> (t, n, q') \<in> declared_binaries r ps"
  by (rule binary_releases_cases)

end
