(* ===== verification/Receive.thy ===== *)
theory Receive
  imports Contract
begin

text \<open>
  \<open>platform/receive\<close>: the funnel every push goes through. \<open>decide\<close> checks the ref, evaluates the
  agent policy (hard findings refuse, ackable ones ride along), scans for secrets, runs the
  contract checks and assigns the Change-Id. The secret scanner and the Go import parser are
  parameters. Message texts of policy violations are not modelled, only what they name.
\<close>

section \<open>Change-Ids\<close>

definition trailer_prefix :: string where "trailer_prefix = ''Change-Id: ''"

text \<open>A line that the trailer expression matches: \<open>I\<close> and 40 lower-case hex digits.\<close>

definition change_id_shape :: "string \<Rightarrow> bool" where
  "change_id_shape cid \<longleftrightarrow> length cid = 41 \<and> hd cid = CHR ''I'' \<and> list_all is_hex (tl cid)"

definition trailer_line :: "string \<Rightarrow> string option" where
  "trailer_line l =
     (case go_cut_prefix l trailer_prefix of
        None \<Rightarrow> None
      | Some cid \<Rightarrow> if change_id_shape cid then Some cid else None)"

fun first_some :: "('a \<Rightarrow> 'b option) \<Rightarrow> 'a list \<Rightarrow> 'b option" where
  "first_some f [] = None"
| "first_some f (x # xs) = (case f x of Some y \<Rightarrow> Some y | None \<Rightarrow> first_some f xs)"

definition parse_change_id :: "string \<Rightarrow> string option" where
  "parse_change_id msg = first_some trailer_line (go_split newline msg)"

definition generate_change_id :: "string \<Rightarrow> string" where
  "generate_change_id seed = ''I'' @ sha1_hex seed"

definition ensure_change_id :: "string \<Rightarrow> string \<Rightarrow> string \<times> string" where
  "ensure_change_id msg seed =
     (case parse_change_id msg of
        Some cid \<Rightarrow> (cid, msg)
      | None \<Rightarrow>
          (let cid = generate_change_id seed; trimmed = go_trim_right (\<lambda>c. c = newline) msg
           in (cid, trimmed @ [newline, newline] @ trailer_prefix @ cid @ [newline])))"

section \<open>Refs\<close>

definition magic_ref_prefix :: string where "magic_ref_prefix = ''refs/for/''"

definition parse_magic_ref :: "string \<Rightarrow> string option" where
  "parse_magic_ref ref =
     (if \<not> prefix magic_ref_prefix ref then None
      else let trunk = drop (length magic_ref_prefix) ref in if trunk = [] then None else Some trunk)"

definition is_direct_trunk_push :: "string \<Rightarrow> string \<Rightarrow> bool" where
  "is_direct_trunk_push ref trunk \<longleftrightarrow> ref = ''refs/heads/'' @ trunk"

section \<open>Agent policy\<close>

record agent_policy =
  ap_require_affinity :: bool
  ap_require_description :: bool
  ap_max_files :: int
  ap_max_bytes :: int
  ap_can_create :: bool
  ap_can_land :: bool
  ap_can_modify_owners :: bool
  ap_can_enable :: "string list"
  ap_denylist :: "string list"

definition default_agent_policy :: agent_policy where
  "default_agent_policy = \<lparr>ap_require_affinity = True, ap_require_description = True, ap_max_files = 40,
     ap_max_bytes = 512000, ap_can_create = True, ap_can_land = False, ap_can_modify_owners = False,
     ap_can_enable = [''http'', ''rpc''], ap_denylist = [''security/**'', ''**/.github/workflows/**'']\<rparr>"

record push_summary =
  ps_changed :: "string list"
  ps_diff_bytes :: int
  ps_affinity :: "string list"
  ps_affinity_projects :: "string list"
  ps_modifies_owners :: bool
  ps_enabled :: "string list"
  ps_is_land :: bool
  ps_is_create :: bool
  ps_author :: string
  ps_new_owners :: "string list"

datatype policy_code =
  WorkspaceAffinityRequired | PathOutsideAffinity | MaxChangedFilesExceeded | MaxDiffBytesExceeded
| DenylistPath | OwnersModificationDenied | ProjectCreateDenied | OwnerSelfGrant | LandDenied | CapabilityDenied

record policy_violation =
  pv_code :: policy_code
  pv_subject :: string
  pv_ackable :: bool

definition within_affinity :: "string \<Rightarrow> string list \<Rightarrow> bool" where
  "within_affinity p affinity =
     list_ex (\<lambda>root. root = [] \<or> p = root \<or>
       (length p > length root \<and> take (length root) p = root \<and> p ! length root = slash)) affinity"

definition match_any :: "string list \<Rightarrow> string \<Rightarrow> string option" where
  "match_any pats p = find (\<lambda>pat. match_path pat p) pats"

definition hard_violation :: "policy_code \<Rightarrow> string \<Rightarrow> policy_violation" where
  "hard_violation c s = \<lparr>pv_code = c, pv_subject = s, pv_ackable = False\<rparr>"

definition ackable_violation :: "policy_code \<Rightarrow> string \<Rightarrow> policy_violation" where
  "ackable_violation c s = \<lparr>pv_code = c, pv_subject = s, pv_ackable = True\<rparr>"

definition evaluate_policy :: "agent_policy \<Rightarrow> push_summary \<Rightarrow> policy_violation list" where
  "evaluate_policy pol s =
     (if ap_require_affinity pol \<and> length (ps_affinity s) = 0 then [hard_violation WorkspaceAffinityRequired []] else [])
     @ (if length (ps_affinity s) > 0
        then map (hard_violation PathOutsideAffinity) (filter (\<lambda>f. \<not> within_affinity f (ps_affinity s)) (ps_changed s))
        else [])
     @ (if ap_max_files pol > 0 \<and> int (length (ps_changed s)) > ap_max_files pol
        then [ackable_violation MaxChangedFilesExceeded []] else [])
     @ (if ap_max_bytes pol > 0 \<and> ps_diff_bytes s > ap_max_bytes pol
        then [ackable_violation MaxDiffBytesExceeded []] else [])
     @ map (ackable_violation DenylistPath) (filter (\<lambda>f. match_any (ap_denylist pol) f \<noteq> None) (ps_changed s))
     @ (if ps_modifies_owners s \<and> \<not> ap_can_modify_owners pol then [ackable_violation OwnersModificationDenied []] else [])
     @ (if ps_is_create s \<and> \<not> ap_can_create pol then [ackable_violation ProjectCreateDenied []] else [])
     @ (if ps_is_create s \<and> ps_author s \<noteq> [] \<and> ps_author s \<in> set (ps_new_owners s)
        then [ackable_violation OwnerSelfGrant (ps_author s)] else [])
     @ (if ps_is_land s \<and> \<not> ap_can_land pol then [hard_violation LandDenied []] else [])
     @ map (ackable_violation CapabilityDenied) (filter (\<lambda>c. c \<notin> set (ap_can_enable pol)) (ps_enabled s))"

definition split_ackable :: "policy_violation list \<Rightarrow> policy_violation list \<times> policy_violation list" where
  "split_ackable vs = (filter (\<lambda>v. \<not> pv_ackable v) vs, filter pv_ackable vs)"

section \<open>The funnel\<close>

record principal_info =
  pp_is_agent :: bool
  pp_policy :: agent_policy

record push_request =
  pq_ref :: string
  pq_trunk :: string
  pq_message :: string
  pq_files :: "contract_file list"
  pq_changed :: "string list"
  pq_diff_bytes :: int
  pq_principal :: principal_info
  pq_affinity :: "string list"
  pq_affinity_projects :: "string list"
  pq_modifies_owners :: bool
  pq_enabled :: "string list"
  pq_is_land :: bool
  pq_is_create :: bool
  pq_author :: string
  pq_new_owners :: "string list"
  pq_seed :: string
  pq_module :: string
  pq_projects :: "contract_project list"

record secret_finding =
  sf_path :: string
  sf_line :: int
  sf_rule :: string

datatype ref_rejection = DirectTrunkPush string | UnrecognizedRef string string | ScanFailed

record decision =
  dc_accepted :: bool
  dc_rejection :: "ref_rejection option"
  dc_policy :: "policy_violation list"
  dc_secrets :: "secret_finding list"
  dc_contract :: "violation list"
  dc_ackable :: "policy_violation list"
  dc_change_id :: string
  dc_message :: string

type_synonym secret_scanner = "contract_file list \<Rightarrow> secret_finding list option"

definition rejected :: decision where
  "rejected = \<lparr>dc_accepted = False, dc_rejection = None, dc_policy = [], dc_secrets = [], dc_contract = [],
     dc_ackable = [], dc_change_id = [], dc_message = []\<rparr>"

definition summary_of :: "push_request \<Rightarrow> push_summary" where
  "summary_of q =
     \<lparr>ps_changed = pq_changed q, ps_diff_bytes = pq_diff_bytes q, ps_affinity = pq_affinity q,
      ps_affinity_projects = pq_affinity_projects q, ps_modifies_owners = pq_modifies_owners q,
      ps_enabled = pq_enabled q, ps_is_land = pq_is_land q, ps_is_create = pq_is_create q,
      ps_author = pq_author q, ps_new_owners = pq_new_owners q\<rparr>"

definition policy_findings :: "push_request \<Rightarrow> policy_violation list \<times> policy_violation list" where
  "policy_findings q =
     (if pp_is_agent (pq_principal q)
      then split_ackable (evaluate_policy (pp_policy (pq_principal q)) (summary_of q)) else ([], []))"

definition contract_findings :: "import_parser \<Rightarrow> push_request \<Rightarrow> violation list" where
  "contract_findings parse q =
     (if length (pq_projects q) > 0
      then check parse (pq_module q) (pq_projects q) (pq_files q) (pq_changed q) else [])"

definition decide :: "secret_scanner \<Rightarrow> import_parser \<Rightarrow> push_request \<Rightarrow> decision" where
  "decide scanner parse q =
     (if is_direct_trunk_push (pq_ref q) (pq_trunk q) then rejected\<lparr>dc_rejection := Some (DirectTrunkPush (pq_trunk q))\<rparr>
      else if parse_magic_ref (pq_ref q) = None then rejected\<lparr>dc_rejection := Some (UnrecognizedRef (pq_ref q) (pq_trunk q))\<rparr>
      else
        (let (hard, ackable) = policy_findings q in
         if length hard > 0 then rejected\<lparr>dc_policy := hard\<rparr>
         else
           (case scanner (pq_files q) of
              None \<Rightarrow> rejected\<lparr>dc_rejection := Some ScanFailed\<rparr>
            | Some findings \<Rightarrow>
                if length findings > 0 then rejected\<lparr>dc_secrets := findings\<rparr>
                else
                  (let vs = contract_findings parse q in
                   if length vs > 0 then rejected\<lparr>dc_contract := vs\<rparr>
                   else
                     (let (cid, msg) = ensure_change_id (pq_message q) (pq_seed q)
                      in rejected\<lparr>dc_accepted := True, dc_change_id := cid, dc_message := msg, dc_ackable := ackable\<rparr>)))))"

section \<open>Change-Id facts\<close>

lemma first_some_append: "first_some f (xs @ ys) = (case first_some f xs of Some y \<Rightarrow> Some y | None \<Rightarrow> first_some f ys)"
  by (induction xs) (auto split: option.splits)

lemma first_some_in: "first_some f xs = Some y \<Longrightarrow> \<exists>x \<in> set xs. f x = Some y"
  by (induction xs) (auto split: option.splits)

lemma go_split_append_any: "go_split c (s @ c # t) = go_split c s @ go_split c t"
proof (induction s)
  case (Cons x s)
  then show ?case by (cases "go_split c s") auto
qed simp

lemma trailing_newlines: "\<exists>n. s = go_trim_right (\<lambda>c. c = newline) s @ replicate n newline"
proof (induction s rule: rev_induct)
  case Nil
  show ?case by (simp add: go_trim_right_def)
next
  case (snoc x s)
  show ?case
  proof (cases "x = newline")
    case True
    obtain n where "s = go_trim_right (\<lambda>c. c = newline) s @ replicate n newline" using snoc ..
    then have "s @ [x] = go_trim_right (\<lambda>c. c = newline) s @ replicate (Suc n) newline"
      using True by (metis append.assoc replicate_Suc replicate_append_same)
    moreover have "go_trim_right (\<lambda>c. c = newline) (s @ [x]) = go_trim_right (\<lambda>c. c = newline) s"
      using True by (simp add: go_trim_right_def)
    ultimately show ?thesis by metis
  next
    case False
    then show ?thesis by (intro exI [of _ 0]) (simp add: go_trim_right_def)
  qed
qed

lemma split_newlines: "go_split c (s @ replicate n c) = go_split c s @ replicate n []"
proof (induction n)
  case (Suc n)
  have "s @ replicate (Suc n) c = (s @ replicate n c) @ c # []"
    by (simp add: replicate_append_same)
  then have "go_split c (s @ replicate (Suc n) c) = go_split c (s @ replicate n c) @ [[]]"
    using go_split_append_any [of c "s @ replicate n c" "[]"] by simp
  then show ?case using Suc by (simp add: replicate_append_same)
qed simp

lemma trailer_line_empty [simp]: "trailer_line [] = None"
  by (simp add: trailer_line_def go_cut_prefix_def trailer_prefix_def)

lemma first_some_empties [simp]: "first_some trailer_line (replicate n []) = None"
  by (induction n) auto

lemma parse_trimmed: "parse_change_id (go_trim_right (\<lambda>c. c = newline) msg) = parse_change_id msg"
proof -
  obtain n where n: "msg = go_trim_right (\<lambda>c. c = newline) msg @ replicate n newline" using trailing_newlines ..
  have "go_split newline msg = go_split newline (go_trim_right (\<lambda>c. c = newline) msg) @ replicate n []"
    by (subst n) (rule split_newlines)
  then show ?thesis by (simp add: parse_change_id_def first_some_append split: option.split)
qed

lemma generated_shape: "change_id_shape (generate_change_id seed)"
  using length_sha1_hex [of seed] set_sha1_hex [of _ seed]
  by (simp add: change_id_shape_def generate_change_id_def list_all_iff)

lemma shape_no_newline: "change_id_shape cid \<Longrightarrow> newline \<notin> set cid"
proof
  assume *: "change_id_shape cid" "newline \<in> set cid"
  then obtain x xs where "cid = x # xs" "x = CHR ''I''" "list_all is_hex xs"
    by (cases cid) (auto simp: change_id_shape_def)
  with * show False by (auto simp: list_all_iff is_hex_def less_eq_char_def)
qed

lemma trailer_line_self: "change_id_shape cid \<Longrightarrow> trailer_line (trailer_prefix @ cid) = Some cid"
  by (simp add: trailer_line_def go_cut_prefix_def)

lemma parse_appended:
  assumes "parse_change_id msg = None" "change_id_shape cid"
  shows "parse_change_id (go_trim_right (\<lambda>c. c = newline) msg @ [newline, newline] @ trailer_prefix @ cid @ [newline]) = Some cid"
proof -
  let ?t = "go_trim_right (\<lambda>c. c = newline) msg" and ?l = "trailer_prefix @ cid"
  have nl: "newline \<notin> set ?l" using shape_no_newline [OF assms(2)] by (simp add: trailer_prefix_def)
  have "go_split newline (?t @ newline # newline # ?l @ newline # []) =
      go_split newline ?t @ go_split newline [] @ go_split newline ?l @ go_split newline []"
    using go_split_append_any [of newline ?t "newline # ?l @ newline # []"] go_split_append_any [of newline "[]" "?l @ newline # []"]
      go_split_append_any [of newline ?l "[]"] by simp
  then have "parse_change_id (?t @ newline # newline # ?l @ newline # []) =
      first_some trailer_line (go_split newline ?t @ [[]] @ [?l] @ [[]])"
    using go_split_free [OF nl] by (simp add: parse_change_id_def)
  also have "\<dots> = Some cid"
    using assms(1) parse_trimmed [of msg] trailer_line_self [OF assms(2)]
    by (simp add: first_some_append parse_change_id_def)
  finally show ?thesis by simp
qed

lemma parse_shape: "parse_change_id msg = Some cid \<Longrightarrow> change_id_shape cid"
  unfolding parse_change_id_def by (drule first_some_in) (auto simp: trailer_line_def split: option.splits if_splits)

lemma ensure_parses:
  "ensure_change_id msg seed = (cid, msg') \<Longrightarrow> parse_change_id msg' = Some cid \<and> change_id_shape cid"
  using parse_appended generated_shape parse_shape
  by (auto simp: ensure_change_id_def Let_def split: option.splits)

section \<open>Verdicts of the funnel\<close>

definition clean_agent :: "push_request \<Rightarrow> bool" where
  "clean_agent q \<longleftrightarrow> pp_is_agent (pq_principal q) \<longrightarrow> list_all pv_ackable (evaluate_policy (pp_policy (pq_principal q)) (summary_of q))"

lemma decide_accepted_iff:
  "dc_accepted (decide scanner parse q) \<longleftrightarrow>
     parse_magic_ref (pq_ref q) \<noteq> None \<and> clean_agent q \<and> scanner (pq_files q) = Some [] \<and> contract_findings parse q = []"
proof -
  have direct: "is_direct_trunk_push (pq_ref q) (pq_trunk q) \<Longrightarrow> parse_magic_ref (pq_ref q) = None"
    by (auto simp: is_direct_trunk_push_def parse_magic_ref_def magic_ref_prefix_def)
  have hard: "fst (policy_findings q) = [] \<longleftrightarrow> clean_agent q"
    by (auto simp: policy_findings_def clean_agent_def split_ackable_def filter_empty_conv list_all_iff)
  show ?thesis
    using direct hard
    by (cases "policy_findings q"; cases "scanner (pq_files q)")
      (auto simp: decide_def Let_def rejected_def split: prod.splits)
qed


lemma within_affinity_covers: "within_affinity p roots \<longleftrightarrow> (\<exists>r \<in> set roots. covers r p)"
proof -
  have "(length p > length r \<and> take (length r) p = r \<and> p ! length r = slash) \<longleftrightarrow> prefix (r @ ''/'') p" for r
  proof
    assume *: "length p > length r \<and> take (length r) p = r \<and> p ! length r = slash"
    then have "p = take (length r) p @ p ! length r # drop (Suc (length r)) p" using id_take_nth_drop [of "length r" p] by blast
    then have "p = (r @ ''/'') @ drop (Suc (length r)) p" using * by simp
    then show "prefix (r @ ''/'') p" by (metis prefixI)
  qed (auto simp: prefix_def nth_append)
  then show ?thesis by (auto simp: within_affinity_def list_ex_iff covers_def under_dir_def)
qed

lemma ackable_lists:
  "list_all pv_ackable (map (ackable_violation c) xs)" "list_all pv_ackable [ackable_violation c x]"
  "list_all pv_ackable (map (hard_violation c) xs) \<longleftrightarrow> xs = []" "\<not> list_all pv_ackable [hard_violation c x]"
  by (simp_all add: list_all_iff hard_violation_def ackable_violation_def)

lemma pv_ackable_kinds: "pv_ackable (ackable_violation c x)" "\<not> pv_ackable (hard_violation c x)"
  by (simp_all add: hard_violation_def ackable_violation_def)

lemma evaluate_policy_hard:
  "list_all pv_ackable (evaluate_policy pol s) \<longleftrightarrow>
     (ps_affinity s = [] \<longrightarrow> \<not> ap_require_affinity pol) \<and>
     (ps_affinity s \<noteq> [] \<longrightarrow> (\<forall>f \<in> set (ps_changed s). \<exists>r \<in> set (ps_affinity s). covers r f)) \<and>
     (ps_is_land s \<longrightarrow> ap_can_land pol)"
proof -
  have "list_all pv_ackable (evaluate_policy pol s) \<longleftrightarrow>
      \<not> (ap_require_affinity pol \<and> length (ps_affinity s) = 0) \<and>
      (length (ps_affinity s) > 0 \<longrightarrow> filter (\<lambda>f. \<not> within_affinity f (ps_affinity s)) (ps_changed s) = []) \<and>
      \<not> (ps_is_land s \<and> \<not> ap_can_land pol)"
    unfolding evaluate_policy_def list_all_append if_distrib [of "list_all pv_ackable"]
    by (simp add: ackable_lists pv_ackable_kinds)
  then show ?thesis by (auto simp: within_affinity_covers filter_empty_conv)
qed

lemma ensure_prefix: "prefix (go_trim_right (\<lambda>c. c = newline) msg) (snd (ensure_change_id msg seed))"
proof -
  obtain n where "msg = go_trim_right (\<lambda>c. c = newline) msg @ replicate n newline" using trailing_newlines ..
  then have "prefix (go_trim_right (\<lambda>c. c = newline) msg) msg" by (metis prefixI)
  then show ?thesis by (auto simp: ensure_change_id_def Let_def split: option.splits)
qed

lemma decide_accepted_fields:
  assumes "dc_accepted (decide scanner parse q)"
  shows "(dc_change_id (decide scanner parse q), dc_message (decide scanner parse q)) = ensure_change_id (pq_message q) (pq_seed q)"
    "dc_ackable (decide scanner parse q) = snd (policy_findings q)"
  using assms by (auto simp: decide_def Let_def rejected_def split: if_splits prod.splits option.splits)

lemma decide_rejected_fields:
  assumes "\<not> dc_accepted (decide scanner parse q)"
  shows "dc_change_id (decide scanner parse q) = []" "dc_ackable (decide scanner parse q) = []"
  using assms by (auto simp: decide_def Let_def rejected_def split: if_splits prod.splits option.splits)

lemma decide_forms:
  "(\<exists>x. decide scanner parse q = rejected\<lparr>dc_rejection := Some x\<rparr>) \<or>
   (\<exists>vs. vs \<noteq> [] \<and> decide scanner parse q = rejected\<lparr>dc_policy := vs\<rparr>) \<or>
   (\<exists>fs. fs \<noteq> [] \<and> decide scanner parse q = rejected\<lparr>dc_secrets := fs\<rparr>) \<or>
   (\<exists>vs. vs \<noteq> [] \<and> decide scanner parse q = rejected\<lparr>dc_contract := vs\<rparr>) \<or>
   (\<exists>cid msg ack. cid \<noteq> [] \<and> decide scanner parse q =
      rejected\<lparr>dc_accepted := True, dc_change_id := cid, dc_message := msg, dc_ackable := ack\<rparr>)"
proof -
  obtain cid msg where e: "ensure_change_id (pq_message q) (pq_seed q) = (cid, msg)" by fastforce
  then have cid: "cid \<noteq> []" using ensure_parses [OF e] by (auto simp: change_id_shape_def)
  obtain hard ack where p: "policy_findings q = (hard, ack)" by fastforce
  show ?thesis
  proof (cases "is_direct_trunk_push (pq_ref q) (pq_trunk q) \<or> parse_magic_ref (pq_ref q) = None")
    case True
    then have "\<exists>x. decide scanner parse q = rejected\<lparr>dc_rejection := Some x\<rparr>"
      by (cases "is_direct_trunk_push (pq_ref q) (pq_trunk q)") (auto simp: decide_def)
    then show ?thesis ..
  next
    case False
    then obtain t where f: "\<not> is_direct_trunk_push (pq_ref q) (pq_trunk q)" "parse_magic_ref (pq_ref q) = Some t" by auto
    show ?thesis
    proof (cases "hard = []")
      case False
      then have "decide scanner parse q = rejected\<lparr>dc_policy := hard\<rparr>" using f p by (simp add: decide_def)
      then show ?thesis using False by blast
    next
      case True
      show ?thesis
      proof (cases "scanner (pq_files q)")
        case None
        then have "decide scanner parse q = rejected\<lparr>dc_rejection := Some ScanFailed\<rparr>"
          using f p True by (simp add: decide_def)
        then show ?thesis by blast
      next
        case (Some fs)
        then have "decide scanner parse q =
            (if fs \<noteq> [] then rejected\<lparr>dc_secrets := fs\<rparr>
             else if contract_findings parse q \<noteq> [] then rejected\<lparr>dc_contract := contract_findings parse q\<rparr>
             else rejected\<lparr>dc_accepted := True, dc_change_id := cid, dc_message := msg, dc_ackable := ack\<rparr>)"
          using f p True e by (simp add: decide_def Let_def)
        then show ?thesis using cid by metis
      qed
    qed
  qed
qed

section \<open>Properties\<close>

definition demo_push :: "string \<Rightarrow> push_request" where
  "demo_push msg = \<lparr>pq_ref = ''refs/for/main'', pq_trunk = ''main'', pq_message = msg, pq_files = [], pq_changed = [''app/a.go''],
     pq_diff_bytes = 10, pq_principal = \<lparr>pp_is_agent = True, pp_policy = default_agent_policy\<rparr>, pq_affinity = [''app''],
     pq_affinity_projects = [], pq_modifies_owners = False, pq_enabled = [], pq_is_land = False, pq_is_create = False,
     pq_author = ''bot'', pq_new_owners = [], pq_seed = ''seed'', pq_module = [], pq_projects = []\<rparr>"

text \<open>The funnel accepts a push exactly when it targets the magic ref, a pushing agent has no hard
  policy finding, the scanner ran and found nothing, and the contract checks find nothing; a
  failing scanner refuses.\<close>

theorem funnel_accepts:
  "dc_accepted (decide scanner parse q) \<longleftrightarrow>
     parse_magic_ref (pq_ref q) \<noteq> None \<and> clean_agent q \<and> scanner (pq_files q) = Some [] \<and> contract_findings parse q = []"
  by (rule decide_accepted_iff)

text \<open>Only structure refuses an agent at receive: its policy leaves nothing but ackable findings
  exactly when a required workspace affinity is present, every changed path lies under an
  affinity root when there is one, and it requests a land only if it may land.\<close>

theorem agent_hard_findings:
  "list_all pv_ackable (evaluate_policy pol s) \<longleftrightarrow>
     \<not> (ap_require_affinity pol \<and> ps_affinity s = []) \<and>
     (ps_affinity s = [] \<or> {f \<in> set (ps_changed s). \<not> (\<exists>r \<in> set (ps_affinity s). covers r f)} = {}) \<and>
     \<not> (ps_is_land s \<and> \<not> ap_can_land pol)"
  unfolding evaluate_policy_hard by blast

text \<open>An accepted push carries a Change-Id that its (possibly amended) message parses back to,
  pushing that message again changes neither, and the message still begins with what was pushed.\<close>

theorem accepted_change_id:
  assumes "dc_accepted (decide scanner parse q)"
  shows "parse_change_id (dc_message (decide scanner parse q)) = Some (dc_change_id (decide scanner parse q)) \<and>
    ensure_change_id (dc_message (decide scanner parse q)) seed =
      (dc_change_id (decide scanner parse q), dc_message (decide scanner parse q)) \<and>
    prefix (go_trim_right (\<lambda>c. c = newline) (pq_message q)) (dc_message (decide scanner parse q))"
proof -
  note eq = decide_accepted_fields(1) [OF assms]
  then have p: "parse_change_id (dc_message (decide scanner parse q)) = Some (dc_change_id (decide scanner parse q))"
    using ensure_parses [OF eq [symmetric]] by blast
  moreover have "prefix (go_trim_right (\<lambda>c. c = newline) (pq_message q)) (dc_message (decide scanner parse q))"
    using ensure_prefix [of "pq_message q" "pq_seed q"] eq by (metis snd_conv)
  ultimately show ?thesis by (simp add: ensure_change_id_def)
qed

theorem accepted_change_id_witness:
  "parse_change_id (dc_message (decide (\<lambda>_. Some []) (\<lambda>_. None) (demo_push ''fix''))) =
     Some (dc_change_id (decide (\<lambda>_. Some []) (\<lambda>_. None) (demo_push ''fix'')))"
proof -
  have "parse_magic_ref (pq_ref (demo_push ''fix'')) \<noteq> None" "contract_findings (\<lambda>_. None) (demo_push ''fix'') = []"
    by (simp_all add: demo_push_def parse_magic_ref_def magic_ref_prefix_def contract_findings_def)
  moreover have "clean_agent (demo_push ''fix'')"
    by (simp add: clean_agent_def evaluate_policy_hard demo_push_def summary_of_def default_agent_policy_def covers_def under_dir_def)
  ultimately have "dc_accepted (decide (\<lambda>_. Some []) (\<lambda>_. None) (demo_push ''fix''))"
    by (simp add: decide_accepted_iff)
  then show ?thesis using accepted_change_id [of "\<lambda>_. Some []" "\<lambda>_. None" "demo_push ''fix''"] by blast
qed

text \<open>A decision names exactly one outcome: it is accepted, with a Change-Id, or carries exactly
  one of the four rejection reasons and no Change-Id and no ackable finding.\<close>

theorem decision_exclusive:
  "(dc_accepted (decide scanner parse q) \<and> dc_change_id (decide scanner parse q) \<noteq> [] \<and>
      filter id [dc_rejection (decide scanner parse q) \<noteq> None, dc_policy (decide scanner parse q) \<noteq> [],
        dc_secrets (decide scanner parse q) \<noteq> [], dc_contract (decide scanner parse q) \<noteq> []] = []) \<or>
   (dc_change_id (decide scanner parse q) = [] \<and> dc_ackable (decide scanner parse q) = [] \<and>
      filter id [dc_rejection (decide scanner parse q) \<noteq> None, dc_policy (decide scanner parse q) \<noteq> [],
        dc_secrets (decide scanner parse q) \<noteq> [], dc_contract (decide scanner parse q) \<noteq> []] = [True])"
  using decide_forms [of scanner parse q]
  by (elim disjE exE conjE) (simp_all add: rejected_def)

end
