(* ===== verification/StoreTypes.thy ===== *)
theory StoreTypes
  imports Checks Receive "HOL-Library.Product_Lexorder"
begin

text \<open>
  \<open>runkod/store.go\<close>, the data: the rows of the daemon's store and the state of \<open>MemStore\<close>, one
  field per Go map or counter. An operation of the store is a function from a store to a result
  and a store; an \<open>error\<close> of the code is a value of \<open>store_error\<close>, and a slice expression that
  panics is the value \<open>SlicePanic\<close>. The clock reading an operation takes is an argument. Row
  counters are unbounded integers: a Go \<open>int64\<close> incremented once per request does not wrap.
\<close>

section \<open>Rows\<close>

record change =
  ch_key :: string
  ch_state :: string
  ch_base :: string
  ch_head :: string
  ch_git_ref :: string
  ch_title :: string
  ch_description :: string
  ch_test_plan :: string
  ch_landed_sha :: string
  ch_landed_at :: go_time
  ch_authored_by :: string
  ch_landed_by :: string
  ch_landed_forced :: bool
  ch_origin_workspace :: string
  ch_origin_branch :: string
  ch_automerge :: bool
  ch_automerge_by :: string

record approval =
  av_owner :: string
  av_by :: string
  av_head :: string

record comment =
  cm_id :: string
  cm_author :: string
  cm_author_is_agent :: bool
  cm_body :: string
  cm_path :: string
  cm_side :: string
  cm_line :: int
  cm_head :: string
  cm_parent :: string
  cm_resolved :: bool
  cm_created :: go_time

record review_request =
  rq_reviewer :: string
  rq_by :: string
  rq_created :: go_time

record release =
  rl_project :: string
  rl_path :: string
  rl_version :: string
  rl_tag_ref :: string
  rl_tag_sha :: string
  rl_target_sha :: string
  rl_head_change :: string
  rl_changelog :: string
  rl_created_by :: string
  rl_created :: go_time

record workspace_event =
  we_id :: int
  we_type :: string
  we_workspace :: string
  we_branch :: string
  we_actor :: string
  we_sha :: string
  we_change :: string
  we_files :: int
  we_additions :: int
  we_deletions :: int
  we_occurred :: go_time

record workspace_activity =
  wa_id :: int
  wa_workspace :: string
  wa_actor :: string
  wa_kind :: string
  wa_detail :: string
  wa_session :: string
  wa_occurred :: go_time

record mirror_cursor =
  mc_ref :: string
  mc_last_synced :: string
  mc_frozen :: bool
  mc_updated :: go_time

record webhook_delivery =
  wd_id :: string
  wd_event :: string
  wd_payload :: string
  wd_status :: string
  wd_attempt :: int
  wd_next :: go_time
  wd_last_error :: string

text \<open>\<open>memDelivery\<close> embeds the row and keeps an attempt counter of its own.\<close>

record mem_delivery =
  md_row :: webhook_delivery
  md_attempt :: int

record invite_request =
  iv_id :: string
  iv_kind :: string
  iv_name :: string
  iv_email :: string
  iv_message :: string
  iv_status :: string
  iv_attempt :: int
  iv_next :: go_time
  iv_last_error :: string
  iv_created :: go_time

record stored_principal =
  sp_org :: string
  sp_name :: string
  sp_credential :: string
  sp_email :: string

record deploy_image_row =
  dg_image :: string
  dg_ref :: string
  dg_digest :: string
  dg_run_url :: string

record deploy_record =
  dr_trunk :: string
  dr_change :: string
  dr_expected :: "string list"
  dr_reported :: "deploy_image_row list"
  dr_state :: string
  dr_provenance :: string

record mem_deploy_record =
  mdr_change :: string
  mdr_expected :: "string list"
  mdr_provenance :: string
  mdr_reported :: "(string, deploy_image_row) gomap"
  mdr_state :: string
  mdr_created :: go_time

record workspace =
  ws_id :: string
  ws_owner :: string
  ws_base :: string
  ws_affinity :: "string list"
  ws_allowlist :: "string list"
  ws_snapshot_ref :: string
  ws_status :: string
  ws_created :: int

record agent_principal =
  ag_name :: string
  ag_task :: string
  ag_token_hash :: string
  ag_created_by :: string
  ag_created :: go_time
  ag_expires :: go_time
  ag_revoked :: bool

record org_settings =
  os_description :: string
  os_mirror_repo :: string
  os_global_checks :: "string list"
  os_revalidation :: string
  os_public_read :: bool
  os_require_resolved :: bool
  os_enforce_tags :: bool
  os_disable_auto_approve :: bool

record org_membership =
  om_org :: string
  om_role :: string

record org_record =
  orr_name :: string
  orr_archived :: bool

record org_member =
  omb_name :: string
  omb_role :: string

section \<open>The store\<close>

record mem_store =
  ms_changes :: "(string, change) gomap"
  ms_check_runs :: "(string, (string, check_run_view) gomap) gomap"
  ms_approvals :: "(string, (string, approval) gomap) gomap"
  ms_comments :: "(string, comment list) gomap"
  ms_review_reqs :: "(string, (string, review_request) gomap) gomap"
  ms_releases :: "(string, release list) gomap"
  ms_deploys :: "(string, mem_deploy_record) gomap"
  ms_workspaces :: "(string, workspace) gomap"
  ms_ws_events :: "(string, workspace_event list) gomap"
  ms_ws_event_seq :: int
  ms_ws_activity :: "(string, workspace_activity list) gomap"
  ms_ws_activity_seq :: int
  ms_agents :: "(string, agent_principal) gomap"
  ms_principals :: "(string, stored_principal) gomap"
  ms_deliveries :: "(string, mem_delivery) gomap"
  ms_invites :: "(string, invite_request) gomap"
  ms_mirrors :: "(string, mirror_cursor) gomap"
  ms_org_names :: "string list"
  ms_org_members :: "(string, (string, string) gomap) gomap"
  ms_org_settings :: "(string, org_settings) gomap"
  ms_agent_policies :: "(string, agent_policy) gomap"
  ms_org_archived :: "(string, bool) gomap"
  ms_next_id :: int

definition new_mem_store :: mem_store where
  "new_mem_store = \<lparr>ms_changes = gm_empty, ms_check_runs = gm_empty, ms_approvals = gm_empty,
     ms_comments = gm_empty, ms_review_reqs = gm_empty, ms_releases = gm_empty, ms_deploys = gm_empty,
     ms_workspaces = gm_empty, ms_ws_events = gm_empty, ms_ws_event_seq = 0, ms_ws_activity = gm_empty,
     ms_ws_activity_seq = 0, ms_agents = gm_empty, ms_principals = gm_empty, ms_deliveries = gm_empty,
     ms_invites = gm_empty, ms_mirrors = gm_empty, ms_org_names = [], ms_org_members = gm_empty,
     ms_org_settings = gm_empty, ms_agent_policies = gm_empty, ms_org_archived = gm_empty, ms_next_id = 0\<rparr>"

datatype store_error =
  NoSuchChange string
| LandedIsTerminal string
| NoSuchComment string string
| ReleaseExists string string
| WorkspaceExists string
| NoSuchWorkspace string
| PrincipalExists string string
| AgentExists string
| NoSuchAgent string
| NoSuchDelivery string
| NoSuchInviteRequest
| NoOrgNamed string
| SlicePanic

type_synonym 'a store_result = "(store_error + 'a) \<times> mem_store"

text \<open>What a request handler answers in place of a result: an HTTP status and a machine-readable code
  (\<open>clierr.Error\<close>); the prose of the message is not modelled. \<open>internal_err\<close> is any other error.\<close>

record api_error =
  ae_status :: int
  ae_code :: string

definition typed_err :: "int \<Rightarrow> string \<Rightarrow> api_error" where
  "typed_err status code = \<lparr>ae_status = status, ae_code = code\<rparr>"

definition internal_err :: api_error where
  "internal_err = \<lparr>ae_status = 500, ae_code = []\<rparr>"

definition state_open :: string where "state_open = ''open''"
definition state_landed :: string where "state_landed = ''landed''"
definition state_abandoned :: string where "state_abandoned = ''abandoned''"

lemma state_distinct [simp]:
  "state_open \<noteq> state_landed" "state_landed \<noteq> state_open" "state_open \<noteq> state_abandoned"
  "state_abandoned \<noteq> state_open" "state_landed \<noteq> state_abandoned" "state_abandoned \<noteq> state_landed"
  by (simp_all add: state_open_def state_landed_def state_abandoned_def)

text \<open>The composite keys of the code: two strings joined by a separator byte.\<close>

definition nul_key :: "string \<Rightarrow> string \<Rightarrow> string" where
  "nul_key a b = a @ CHR 0x00 # b"

definition check_run_key :: "string \<Rightarrow> string \<Rightarrow> string" where
  "check_run_key change head = change @ ''|'' @ head"

lemma append_sep_inj:
  assumes "c \<notin> set b" "c \<notin> set b'" "a @ c # b = a' @ c # b'"
  shows "a = a' \<and> b = b'"
proof -
  have "rev (a @ c # b) = rev (a' @ c # b')" using assms(3) by simp
  then have "rev b @ c # rev a = rev b' @ c # rev a'" by simp
  moreover have "takeWhile (\<lambda>x. x \<noteq> c) (rev b @ c # rev a) = rev b"
    using assms(1) by (subst takeWhile_append2) auto
  moreover have "takeWhile (\<lambda>x. x \<noteq> c) (rev b' @ c # rev a') = rev b'"
    using assms(2) by (subst takeWhile_append2) auto
  ultimately have "b = b'" by (metis rev_rev_ident)
  then show ?thesis using assms(3) by simp
qed

lemma append_sep_inj_left:
  assumes "c \<notin> set a" "c \<notin> set a'" "a @ c # b = a' @ c # b'"
  shows "a = a' \<and> b = b'"
  using append_sep_inj [of c "rev a" "rev a'" "rev b" "rev b'"] assms
  by (metis append.assoc append_Cons append_Nil rev.simps(2) rev_append rev_rev_ident set_rev)

lemma check_run_key_inj:
  "CHR ''|'' \<notin> set h \<Longrightarrow> CHR ''|'' \<notin> set h' \<Longrightarrow> check_run_key c h = check_run_key c' h' \<longleftrightarrow> c = c' \<and> h = h'"
  by (auto simp: check_run_key_def dest: append_sep_inj)

lemma nul_key_inj:
  "CHR 0x00 \<notin> set a \<Longrightarrow> CHR 0x00 \<notin> set a' \<Longrightarrow> nul_key a b = nul_key a' b' \<longleftrightarrow> a = a' \<and> b = b'"
  by (auto simp: nul_key_def dest: append_sep_inj_left)

section \<open>Pages of a listing\<close>

text \<open>The slicing that every paged listing ends with. \<open>page\<close> clamps a negative offset to 0;
  \<open>page_unclamped\<close> does not, and Go panics on the slice.\<close>

definition page_from :: "int \<Rightarrow> int \<Rightarrow> 'a list \<Rightarrow> 'a list" where
  "page_from limit offset xs =
     (let rest = drop (nat offset) xs
      in if 0 < limit \<and> limit < int (length rest) then take (nat limit) rest else rest)"

definition page :: "int \<Rightarrow> int \<Rightarrow> 'a list \<Rightarrow> 'a list" where
  "page limit offset xs =
     (let off = (if offset < 0 then 0 else offset)
      in if off \<ge> int (length xs) then [] else page_from limit off xs)"

definition page_unclamped :: "int \<Rightarrow> int \<Rightarrow> 'a list \<Rightarrow> store_error + 'a list" where
  "page_unclamped limit offset xs =
     (if offset \<ge> int (length xs) then Inr []
      else if offset < 0 then Inl SlicePanic
      else Inr (page_from limit offset xs))"

lemma page_take_drop:
  "page limit offset xs = (if limit \<le> 0 then drop (nat offset) xs else take (nat limit) (drop (nat offset) xs))"
  by (auto simp: page_def page_from_def Let_def)

lemma page_unclamped_nonneg: "0 \<le> offset \<Longrightarrow> page_unclamped limit offset xs = Inr (page limit offset xs)"
  by (auto simp: page_unclamped_def page_def)

lemma page_length: "length (page limit offset xs) \<le> (if limit \<le> 0 then length xs else nat limit)"
  by (simp add: page_take_drop)

text \<open>Reading a listing page by page reads all of it, each element once.\<close>

lemma concat_pages:
  assumes "0 < limit"
  shows "concat (map (\<lambda>i. page (int limit) (int (i * limit)) xs) [0..<n]) = take (n * limit) xs"
proof (induction n)
  case (Suc n)
  have "page (int limit) (int (n * limit)) xs = take limit (drop (n * limit) xs)"
    using assms by (simp add: page_take_drop del: of_nat_mult)
  moreover have "take (Suc n * limit) xs = take (n * limit) xs @ take limit (drop (n * limit) xs)"
    by (subst take_add [symmetric]) (simp add: add.commute)
  ultimately show ?case using Suc by (simp del: of_nat_mult mult_Suc)
qed simp

section \<open>Sub-maps\<close>

text \<open>\<open>m[k][k2] = v\<close> after \<open>m[k]\<close> was made when missing, and reading \<open>m[k]\<close> of a missing key.\<close>

definition sub_put :: "('k, ('l, 'v) gomap) gomap \<Rightarrow> 'k \<Rightarrow> 'l \<Rightarrow> 'v \<Rightarrow> ('k, ('l, 'v) gomap) gomap" where
  "sub_put m k l v = gm_put m k (gm_put (gm_sub m k) l v)"

definition sub_get :: "('k, ('l, 'v) gomap) gomap \<Rightarrow> 'k \<Rightarrow> 'l \<Rightarrow> 'v option" where
  "sub_get m k l = gm_get (gm_sub m k) l"

lemma sub_get_put [simp]: "sub_get (sub_put m k l v) k' l' = (if k' = k \<and> l' = l then Some v else sub_get m k' l')"
  by (simp add: sub_get_def sub_put_def)

lemma gm_sub_sub_put [simp]: "gm_sub (sub_put m k l v) k' = (if k' = k then gm_put (gm_sub m k) l v else gm_sub m k')"
  by (simp add: sub_put_def)

definition sub_wf :: "('k, ('l, 'v) gomap) gomap \<Rightarrow> bool" where
  "sub_wf m \<longleftrightarrow> gm_wf m \<and> list_all (\<lambda>(k, sub). gm_wf sub) m"

lemma sub_wf_sub: "sub_wf m \<Longrightarrow> gm_wf (gm_sub m k)"
  by (auto simp: sub_wf_def gm_sub_def gm_get_def list_all_iff gm_wf_def dest: map_of_SomeD split: option.splits)

lemma list_all_put: "list_all (\<lambda>(k, v). P k v) m \<Longrightarrow> P k v \<Longrightarrow> list_all (\<lambda>(k, v). P k v) (gm_put m k v)"
  by (induction m) (auto simp: gm_put_def)

lemma list_all_del: "list_all P m \<Longrightarrow> list_all P (gm_del m k)"
  by (auto simp: gm_del_def list_all_iff AList.delete_eq)

lemma sub_wf_put: "sub_wf m \<Longrightarrow> gm_wf v \<Longrightarrow> sub_wf (gm_put m k v)"
  unfolding sub_wf_def by (metis gm_wf_put list_all_put)

lemma sub_wf_sub_put [simp]: "sub_wf m \<Longrightarrow> sub_wf (sub_put m k l v)"
  by (simp add: sub_put_def sub_wf_put sub_wf_sub)

lemma sub_wf_empty [simp]: "sub_wf gm_empty"
  by (simp add: sub_wf_def) (simp add: gm_empty_def)

section \<open>Identifiers minted from the counter\<close>

text \<open>Every key is a prefix and the decimal of a counter value already used.\<close>

definition minted :: "string \<Rightarrow> int \<Rightarrow> string \<Rightarrow> bool" where
  "minted pre n k \<longleftrightarrow> (\<exists>i. 0 < i \<and> i \<le> n \<and> k = pre @ show_int i)"

definition numbered :: "string \<Rightarrow> int \<Rightarrow> (string, 'v) gomap \<Rightarrow> bool" where
  "numbered pre n m \<longleftrightarrow> list_all (minted pre n) (gm_keys m)"

lemma minted_mono: "minted pre n k \<Longrightarrow> n \<le> n' \<Longrightarrow> minted pre n' k"
  using order_trans [of _ n n'] by (auto simp: minted_def)

lemma minted_next: "0 \<le> n \<Longrightarrow> minted pre (n + 1) (pre @ show_int (n + 1))"
  unfolding minted_def by (intro exI [of _ "n + 1"]) simp

lemma not_minted_next: "\<not> minted pre n (pre @ show_int (n + 1))"
  unfolding minted_def by (auto dest: show_int_inj)

lemma numbered_empty [simp]: "numbered pre n gm_empty"
  by (simp add: numbered_def)

lemma numbered_mono: "numbered pre n m \<Longrightarrow> n \<le> n' \<Longrightarrow> numbered pre n' m"
  by (auto simp: numbered_def list_all_iff intro: minted_mono)

lemma numbered_put: "numbered pre n m \<Longrightarrow> minted pre n k \<Longrightarrow> numbered pre n (gm_put m k v)"
  by (simp add: numbered_def list_all_iff)

lemma numbered_next: "numbered pre n m \<Longrightarrow> 0 \<le> n \<Longrightarrow> numbered pre (n + 1) (gm_put m (pre @ show_int (n + 1)) v)"
  by (rule numbered_put [OF numbered_mono minted_next]) auto

lemma numbered_update: "numbered pre n m \<Longrightarrow> gm_get m k \<noteq> None \<Longrightarrow> numbered pre n (gm_put m k v)"
  using gm_keys_iff [of k m] by (intro numbered_put) (auto simp: numbered_def list_all_iff)

lemma numbered_fresh: "numbered pre n m \<Longrightarrow> gm_get m (pre @ show_int (n + 1)) = None"
  using not_minted_next gm_keys_iff [of _ m] unfolding numbered_def list_all_iff by metis

lemma gm_put_fresh: "gm_get m k = None \<Longrightarrow> gm_put m k v = m @ [(k, v)]"
  by (induction m) (auto simp: gm_get_def gm_put_def split: if_splits)

section \<open>A condition on every entry of a map\<close>

definition gm_all :: "('k \<Rightarrow> 'v \<Rightarrow> bool) \<Rightarrow> ('k, 'v) gomap \<Rightarrow> bool" where
  "gm_all P m \<longleftrightarrow> gm_wf m \<and> list_all (\<lambda>(k, v). P k v) m"

named_theorems gm_all_intros \<open>preservation of a condition on every entry\<close>

lemma gm_all_empty [simp]: "gm_all P gm_empty"
  by (simp add: gm_all_def) (simp add: gm_empty_def)

lemma gm_all_put [gm_all_intros]: "gm_all P m \<Longrightarrow> P k v \<Longrightarrow> gm_all P (gm_put m k v)"
  by (simp add: gm_all_def list_all_put)

lemma gm_all_del [gm_all_intros]: "gm_all P m \<Longrightarrow> gm_all P (gm_del m k)"
  by (simp add: gm_all_def list_all_del)

lemma gm_all_filter: "gm_all P m \<Longrightarrow> gm_all P (filter Q m)"
  by (auto simp: gm_all_def gm_wf_def distinct_map_filter list_all_iff)

lemma gm_all_get: "gm_all P m \<Longrightarrow> gm_get m k = Some v \<Longrightarrow> P k v"
  by (auto simp: gm_all_def gm_get_def list_all_iff dest!: map_of_SomeD)

lemma gm_all_mono: "gm_all P m \<Longrightarrow> (\<And>k v. P k v \<Longrightarrow> Q k v) \<Longrightarrow> gm_all Q m"
  by (auto simp: gm_all_def list_all_iff)

lemma gm_all_wf: "gm_all P m \<Longrightarrow> gm_wf m"
  by (simp add: gm_all_def)

lemma gm_all_sub: "gm_all P m \<Longrightarrow> P k [] \<Longrightarrow> P k (gm_sub m k)"
  by (auto simp: gm_sub_def dest: gm_all_get split: option.splits)

text \<open>Maps of maps.\<close>

definition sub_all :: "('l \<Rightarrow> 'v \<Rightarrow> bool) \<Rightarrow> ('k, ('l, 'v) gomap) gomap \<Rightarrow> bool" where
  "sub_all P m \<longleftrightarrow> gm_all (\<lambda>_. gm_all P) m"

lemma sub_all_empty [simp]: "sub_all P gm_empty"
  by (simp add: sub_all_def)

lemma gm_all_Nil [simp]: "gm_all P []"
  by (simp add: gm_all_def gm_wf_def)

lemma sub_all_sub: "sub_all P m \<Longrightarrow> gm_all P (gm_sub m k)"
  unfolding sub_all_def by (rule gm_all_sub) simp_all

lemma sub_all_put [gm_all_intros]: "sub_all P m \<Longrightarrow> gm_all P v \<Longrightarrow> sub_all P (gm_put m k v)"
  by (simp add: sub_all_def gm_all_put)

lemma sub_all_sub_put [gm_all_intros]: "sub_all P m \<Longrightarrow> P l v \<Longrightarrow> sub_all P (sub_put m k l v)"
  by (simp add: sub_put_def sub_all_put gm_all_put sub_all_sub)

end
