(* ===== verification/ChangeStore.thy ===== *)
theory ChangeStore
  imports StoreTypes
begin

text \<open>
  The operations of \<open>MemStore\<close> on Changes and what hangs off them (\<open>runkod/store.go\<close>): mirror
  cursors, the Change life cycle, approvals, the review conversation, review requests, releases
  and check runs. \<open>now\<close> is the store's clock reading.
\<close>

section \<open>Mirror cursors\<close>

definition get_mirror_cursor :: "mem_store \<Rightarrow> string \<Rightarrow> string \<Rightarrow> mirror_cursor option" where
  "get_mirror_cursor s remote ref = gm_get (ms_mirrors s) (nul_key remote ref)"

definition list_mirror_cursors :: "mem_store \<Rightarrow> string \<Rightarrow> mirror_cursor list" where
  "list_mirror_cursors s remote =
     sort_key mc_ref (map snd (filter (\<lambda>(k, c). prefix (remote @ [CHR 0x00]) k) (ms_mirrors s)))"

definition upsert_mirror_cursor :: "go_time \<Rightarrow> string \<Rightarrow> string \<Rightarrow> string \<Rightarrow> mem_store \<Rightarrow> unit store_result" where
  "upsert_mirror_cursor now remote ref sha s =
     (Inr (), s\<lparr>ms_mirrors := gm_put (ms_mirrors s) (nul_key remote ref)
        \<lparr>mc_ref = ref, mc_last_synced = sha, mc_frozen = False, mc_updated = now\<rparr>\<rparr>)"

definition zero_cursor :: mirror_cursor where
  "zero_cursor = \<lparr>mc_ref = [], mc_last_synced = [], mc_frozen = False, mc_updated = 0\<rparr>"

definition freeze_mirror_cursor :: "go_time \<Rightarrow> string \<Rightarrow> string \<Rightarrow> mem_store \<Rightarrow> unit store_result" where
  "freeze_mirror_cursor now remote ref s =
     (let c = (case gm_get (ms_mirrors s) (nul_key remote ref) of None \<Rightarrow> zero_cursor | Some c \<Rightarrow> c)
      in (Inr (), s\<lparr>ms_mirrors := gm_put (ms_mirrors s) (nul_key remote ref)
            (c\<lparr>mc_ref := ref, mc_frozen := True, mc_updated := now\<rparr>)\<rparr>))"

section \<open>The life cycle of a Change\<close>

definition get_change :: "mem_store \<Rightarrow> string \<Rightarrow> change option" where
  "get_change s key = gm_get (ms_changes s) key"

definition put_change :: "change \<Rightarrow> string \<Rightarrow> mem_store \<Rightarrow> mem_store" where
  "put_change c key s = s\<lparr>ms_changes := gm_put (ms_changes s) key c\<rparr>"

text \<open>What a push writes.\<close>

record push_fields =
  pf_base :: string
  pf_head :: string
  pf_git_ref :: string
  pf_title :: string
  pf_author :: string
  pf_workspace :: string
  pf_branch :: string

definition amend_change :: "push_fields \<Rightarrow> change \<Rightarrow> change" where
  "amend_change p c =
     (let c1 = c\<lparr>ch_head := pf_head p, ch_git_ref := pf_git_ref p, ch_title := pf_title p,
                 ch_authored_by := pf_author p, ch_base := pf_base p\<rparr>;
          c2 = (if pf_workspace p \<noteq> [] then c1\<lparr>ch_origin_workspace := pf_workspace p, ch_origin_branch := pf_branch p\<rparr>
                else c1)
      in if ch_state c2 = state_abandoned then c2\<lparr>ch_state := state_open\<rparr> else c2)"

definition new_change :: "string \<Rightarrow> push_fields \<Rightarrow> change" where
  "new_change key p =
     \<lparr>ch_key = key, ch_state = state_open, ch_base = pf_base p, ch_head = pf_head p, ch_git_ref = pf_git_ref p,
      ch_title = pf_title p, ch_description = [], ch_test_plan = [], ch_landed_sha = [], ch_landed_at = 0,
      ch_authored_by = pf_author p, ch_landed_by = [], ch_landed_forced = False,
      ch_origin_workspace = pf_workspace p, ch_origin_branch = pf_branch p, ch_automerge = False,
      ch_automerge_by = []\<rparr>"

definition create_or_update_change :: "string \<Rightarrow> push_fields \<Rightarrow> mem_store \<Rightarrow> change store_result" where
  "create_or_update_change key p s =
     (let c = (case get_change s key of Some existing \<Rightarrow> amend_change p existing | None \<Rightarrow> new_change key p)
      in (Inr c, put_change c key s))"

text \<open>Landed listings by landing time, newest first; every other listing by key.\<close>

definition list_changes :: "mem_store \<Rightarrow> string \<Rightarrow> change list" where
  "list_changes s state =
     (let out = filter (\<lambda>c. state = [] \<or> ch_state c = state) (gm_vals (ms_changes s))
      in if state = state_landed then sort_key (\<lambda>c. (- ch_landed_at c, ch_key c)) out
         else sort_key ch_key out)"

definition list_changes_page :: "mem_store \<Rightarrow> string \<Rightarrow> int \<Rightarrow> int \<Rightarrow> change list" where
  "list_changes_page s state limit offset = page limit offset (list_changes s state)"

text \<open>The read-modify-write of an existing Change that the setters share.\<close>

definition modify_change :: "string \<Rightarrow> (change \<Rightarrow> store_error + change) \<Rightarrow> mem_store \<Rightarrow> change store_result" where
  "modify_change key f s =
     (case get_change s key of
        None \<Rightarrow> (Inl (NoSuchChange key), s)
      | Some c \<Rightarrow> (case f c of Inl e \<Rightarrow> (Inl e, s) | Inr c' \<Rightarrow> (Inr c', put_change c' key s)))"

definition set_change_automerge :: "string \<Rightarrow> bool \<Rightarrow> string \<Rightarrow> mem_store \<Rightarrow> change store_result" where
  "set_change_automerge key enabled by_whom =
     modify_change key (\<lambda>c. Inr (c\<lparr>ch_automerge := enabled, ch_automerge_by := (if enabled then by_whom else [])\<rparr>))"

definition update_change_description :: "string \<Rightarrow> string \<Rightarrow> string \<Rightarrow> mem_store \<Rightarrow> change store_result" where
  "update_change_description key description test_plan =
     modify_change key (\<lambda>c. Inr (c\<lparr>ch_description := description, ch_test_plan := test_plan\<rparr>))"

definition mark_change_abandoned :: "string \<Rightarrow> mem_store \<Rightarrow> change store_result" where
  "mark_change_abandoned key =
     modify_change key (\<lambda>c.
       if ch_state c = state_landed then Inl (LandedIsTerminal key)
       else if ch_state c = state_abandoned then Inr c
       else Inr (c\<lparr>ch_state := state_abandoned\<rparr>))"

definition mark_change_landed :: "go_time \<Rightarrow> string \<Rightarrow> string \<Rightarrow> string \<Rightarrow> bool \<Rightarrow> mem_store \<Rightarrow> change store_result" where
  "mark_change_landed now key sha by_whom forced =
     modify_change key (\<lambda>c. Inr (c\<lparr>ch_state := state_landed, ch_landed_sha := sha, ch_landed_by := by_whom,
       ch_landed_forced := forced, ch_landed_at := now\<rparr>))"

section \<open>Approvals\<close>

definition record_approval :: "string \<Rightarrow> string \<Rightarrow> string \<Rightarrow> string \<Rightarrow> mem_store \<Rightarrow> unit store_result" where
  "record_approval key owner by_whom head s =
     (case get_change s key of
        None \<Rightarrow> (Inl (NoSuchChange key), s)
      | Some _ \<Rightarrow> (Inr (), s\<lparr>ms_approvals := sub_put (ms_approvals s) key owner
          \<lparr>av_owner = owner, av_by = by_whom, av_head = head\<rparr>\<rparr>))"

definition list_approvals :: "mem_store \<Rightarrow> string \<Rightarrow> approval list" where
  "list_approvals s key = sort_key av_owner (gm_vals (gm_sub (ms_approvals s) key))"

section \<open>The review conversation\<close>

definition create_comment :: "go_time \<Rightarrow> string \<Rightarrow> comment \<Rightarrow> mem_store \<Rightarrow> comment store_result" where
  "create_comment now key c s =
     (case get_change s key of
        None \<Rightarrow> (Inl (NoSuchChange key), s)
      | Some _ \<Rightarrow>
          (let n = ms_next_id s + 1;
               c' = c\<lparr>cm_id := ''cmt_'' @ show_int n, cm_created := now\<rparr>
           in (Inr c', s\<lparr>ms_next_id := n, ms_comments := gm_put (ms_comments s) key (gm_sub (ms_comments s) key @ [c'])\<rparr>)))"

definition list_comments :: "mem_store \<Rightarrow> string \<Rightarrow> int \<Rightarrow> int \<Rightarrow> comment list" where
  "list_comments s key limit offset = page limit offset (gm_sub (ms_comments s) key)"

definition get_comment :: "mem_store \<Rightarrow> string \<Rightarrow> string \<Rightarrow> comment option" where
  "get_comment s key cid = find (\<lambda>c. cm_id c = cid) (gm_sub (ms_comments s) key)"

text \<open>The first comment with the id is marked; its slot is written in place.\<close>

fun resolve_first :: "string \<Rightarrow> bool \<Rightarrow> comment list \<Rightarrow> comment list option" where
  "resolve_first cid r [] = None"
| "resolve_first cid r (c # cs) =
     (if cm_id c = cid then Some (c\<lparr>cm_resolved := r\<rparr> # cs)
      else case resolve_first cid r cs of None \<Rightarrow> None | Some cs' \<Rightarrow> Some (c # cs'))"

definition set_comment_resolved :: "string \<Rightarrow> string \<Rightarrow> bool \<Rightarrow> mem_store \<Rightarrow> unit store_result" where
  "set_comment_resolved key cid r s =
     (case resolve_first cid r (gm_sub (ms_comments s) key) of
        None \<Rightarrow> (Inl (NoSuchComment cid key), s)
      | Some cs \<Rightarrow> (Inr (), s\<lparr>ms_comments := gm_put (ms_comments s) key cs\<rparr>))"

section \<open>Review requests\<close>

definition upsert_review_request :: "go_time \<Rightarrow> string \<Rightarrow> string \<Rightarrow> string \<Rightarrow> mem_store \<Rightarrow> unit store_result" where
  "upsert_review_request now key reviewer by_whom s =
     (case get_change s key of
        None \<Rightarrow> (Inl (NoSuchChange key), s)
      | Some _ \<Rightarrow>
          (let created = (case sub_get (ms_review_reqs s) key reviewer of None \<Rightarrow> now | Some e \<Rightarrow> rq_created e)
           in (Inr (), s\<lparr>ms_review_reqs := sub_put (ms_review_reqs s) key reviewer
                 \<lparr>rq_reviewer = reviewer, rq_by = by_whom, rq_created = created\<rparr>\<rparr>)))"

definition list_review_requests :: "mem_store \<Rightarrow> string \<Rightarrow> review_request list" where
  "list_review_requests s key = sort_key rq_reviewer (gm_vals (gm_sub (ms_review_reqs s) key))"

section \<open>Releases\<close>

definition create_release :: "go_time \<Rightarrow> release \<Rightarrow> mem_store \<Rightarrow> release store_result" where
  "create_release now r s =
     (if list_ex (\<lambda>e. rl_version e = rl_version r) (gm_sub (ms_releases s) (rl_project r))
      then (Inl (ReleaseExists (rl_project r) (rl_version r)), s)
      else (let r' = r\<lparr>rl_created := now\<rparr>
            in (Inr r', s\<lparr>ms_releases := gm_put (ms_releases s) (rl_project r) (gm_sub (ms_releases s) (rl_project r) @ [r'])\<rparr>)))"

definition list_releases :: "mem_store \<Rightarrow> string \<Rightarrow> int \<Rightarrow> int \<Rightarrow> release list" where
  "list_releases s project limit offset = page limit offset (rev (gm_sub (ms_releases s) project))"

definition get_latest_release :: "mem_store \<Rightarrow> string \<Rightarrow> release option" where
  "get_latest_release s project =
     (case gm_sub (ms_releases s) project of [] \<Rightarrow> None | rs \<Rightarrow> Some (last rs))"

section \<open>Check runs\<close>

definition upsert_check_run :: "go_time \<Rightarrow> string \<Rightarrow> string \<Rightarrow> check_run_view \<Rightarrow> mem_store \<Rightarrow> unit store_result" where
  "upsert_check_run now key head run s =
     (let k = check_run_key key head;
          r1 = (if cv_last_seen run = 0 then run\<lparr>cv_last_seen := now\<rparr> else run);
          r2 = (if cv_ttl r1 = 0 then r1\<lparr>cv_ttl := default_ttl_seconds\<rparr> else r1);
          r3 = (if cv_details_url r2 = [] then
                  r2\<lparr>cv_details_url := (case sub_get (ms_check_runs s) k (cv_name run) of
                                          None \<Rightarrow> [] | Some old \<Rightarrow> cv_details_url old)\<rparr>
                else r2)
      in (Inr (), s\<lparr>ms_check_runs := sub_put (ms_check_runs s) k (cv_name run) r3\<rparr>))"

text \<open>The carry-forward: passing runs of the old head that the new head has no run for.\<close>

definition carries :: "(string, check_run_view) gomap \<Rightarrow> string \<times> check_run_view \<Rightarrow> bool" where
  "carries to_runs = (\<lambda>(name, run). cv_status run = check_status_completed
     \<and> cv_conclusion run = conclusion_success \<and> gm_get to_runs name = None)"

definition copy_passing_check_runs :: "string \<Rightarrow> string \<Rightarrow> string \<Rightarrow> mem_store \<Rightarrow> string list store_result" where
  "copy_passing_check_runs key from_head to_head s =
     (let src = gm_sub (ms_check_runs s) (check_run_key key from_head);
          to_key = check_run_key key to_head;
          copied = filter (carries (gm_sub (ms_check_runs s) to_key)) src
      in (Inr (map fst copied),
          s\<lparr>ms_check_runs := gm_put (ms_check_runs s) to_key
             (fold (\<lambda>(name, run) m. gm_put m name (run\<lparr>cv_copied_from := from_head\<rparr>)) copied
                (gm_sub (ms_check_runs s) to_key))\<rparr>))"

definition queued_run :: "go_time \<Rightarrow> string \<Rightarrow> check_run_view" where
  "queued_run now name =
     \<lparr>cv_name = name, cv_status = check_status_queued, cv_conclusion = [], cv_last_seen = now,
      cv_ttl = default_ttl_seconds, cv_details_url = [], cv_copied_from = [], cv_reporter = []\<rparr>"

definition rerun_check_mem :: "go_time \<Rightarrow> string \<Rightarrow> string \<Rightarrow> mem_store \<Rightarrow> check_run_view store_result" where
  "rerun_check_mem now key name s =
     (case get_change s key of
        None \<Rightarrow> (Inl (NoSuchChange key), s)
      | Some c \<Rightarrow> (Inr (queued_run now name),
          s\<lparr>ms_check_runs := sub_put (ms_check_runs s) (check_run_key key (ch_head c)) name (queued_run now name)\<rparr>))"

definition list_check_runs :: "mem_store \<Rightarrow> string \<Rightarrow> string \<Rightarrow> check_run_view list" where
  "list_check_runs s key head = gm_vals (gm_sub (ms_check_runs s) (check_run_key key head))"

end
