(* ===== verification/DeployStore.thy ===== *)
theory DeployStore
  imports StoreTypes
begin

text \<open>
  The deploy records of \<open>MemStore\<close> (\<open>runkod/store.go\<close>): one record per landed trunk commit, with
  the images a build must report; the record turns ready when every expected image has a digest,
  and the report that completes it is the one told so.
\<close>

definition deploy_pending :: string where "deploy_pending = ''pending''"
definition deploy_ready :: string where "deploy_ready = ''ready''"

lemma deploy_states_distinct [simp]: "deploy_pending \<noteq> deploy_ready" "deploy_ready \<noteq> deploy_pending"
  by (simp_all add: deploy_pending_def deploy_ready_def)

definition open_deploy_record :: "go_time \<Rightarrow> string \<Rightarrow> string \<Rightarrow> string \<Rightarrow> string list \<Rightarrow> mem_store \<Rightarrow> unit store_result" where
  "open_deploy_record now sha change provenance expected s =
     (case gm_get (ms_deploys s) sha of
        Some _ \<Rightarrow> (Inr (), s)
      | None \<Rightarrow> (Inr (), s\<lparr>ms_deploys := gm_put (ms_deploys s) sha
          \<lparr>mdr_change = change, mdr_expected = expected, mdr_provenance = provenance, mdr_reported = gm_empty,
           mdr_state = deploy_pending, mdr_created = now\<rparr>\<rparr>))"

definition prunable :: "go_time \<Rightarrow> mem_deploy_record \<Rightarrow> bool" where
  "prunable older r \<longleftrightarrow> mdr_state r = deploy_pending \<and> mdr_created r < older"

definition prune_stale_pending_deploy_records :: "go_time \<Rightarrow> mem_store \<Rightarrow> int store_result" where
  "prune_stale_pending_deploy_records older s =
     (Inr (int (length (filter (\<lambda>(sha, r). prunable older r) (ms_deploys s)))),
      s\<lparr>ms_deploys := filter (\<lambda>(sha, r). \<not> prunable older r) (ms_deploys s)\<rparr>)"

definition deploy_complete :: "string list \<Rightarrow> (string, deploy_image_row) gomap \<Rightarrow> bool" where
  "deploy_complete expected reported = list_all (\<lambda>e. gm_get reported e \<noteq> None) expected"

definition mem_deploy_to_domain :: "string \<Rightarrow> mem_deploy_record \<Rightarrow> deploy_record" where
  "mem_deploy_to_domain sha r =
     \<lparr>dr_trunk = sha, dr_change = mdr_change r, dr_expected = mdr_expected r,
      dr_reported = sort_key dg_image (gm_vals (mdr_reported r)), dr_state = mdr_state r,
      dr_provenance = mdr_provenance r\<rparr>"

text \<open>The record a report leaves, and whether this report completed it.\<close>

definition report_image :: "deploy_image_row \<Rightarrow> mem_deploy_record \<Rightarrow> mem_deploy_record \<times> bool" where
  "report_image img r0 =
     (let r = r0\<lparr>mdr_reported := gm_put (mdr_reported r0) (dg_image img) img\<rparr>
      in if mdr_state r \<noteq> deploy_ready \<and> deploy_complete (mdr_expected r) (mdr_reported r)
         then (r\<lparr>mdr_state := deploy_ready\<rparr>, True) else (r, False))"

definition record_deploy_image :: "string \<Rightarrow> deploy_image_row \<Rightarrow> mem_store \<Rightarrow> (deploy_record \<times> bool) option store_result" where
  "record_deploy_image sha img s =
     (case gm_get (ms_deploys s) sha of
        None \<Rightarrow> (Inr None, s)
      | Some r \<Rightarrow>
          (let (r', now_ready) = report_image img r
           in (Inr (Some (mem_deploy_to_domain sha r', now_ready)), s\<lparr>ms_deploys := gm_put (ms_deploys s) sha r'\<rparr>)))"

definition get_deploy_record :: "mem_store \<Rightarrow> string \<Rightarrow> deploy_record option" where
  "get_deploy_record s sha = map_option (mem_deploy_to_domain sha) (gm_get (ms_deploys s) sha)"

section \<open>A sequence of reports\<close>

fun report_images :: "deploy_image_row list \<Rightarrow> mem_deploy_record \<Rightarrow> mem_deploy_record \<times> bool list" where
  "report_images [] r = (r, [])"
| "report_images (i # is) r =
     (let (r1, b) = report_image i r; (r2, bs) = report_images is r1 in (r2, b # bs))"

text \<open>The state of a record agrees with its reports.\<close>

definition deploy_ok :: "mem_deploy_record \<Rightarrow> bool" where
  "deploy_ok r \<longleftrightarrow> gm_wf (mdr_reported r)
     \<and> (mdr_state r = deploy_pending \<or> mdr_state r = deploy_ready \<and> deploy_complete (mdr_expected r) (mdr_reported r))
     \<and> list_all (\<lambda>(k, row). dg_image row = k) (mdr_reported r)"

lemma deploy_complete_put: "deploy_complete e m \<Longrightarrow> deploy_complete e (gm_put m k v)"
  by (auto simp: deploy_complete_def list_all_iff)

lemma report_image_ok: "deploy_ok r \<Longrightarrow> deploy_ok (fst (report_image img r))"
  by (auto simp: deploy_ok_def report_image_def Let_def deploy_complete_put list_all_put)

lemma report_image_fields:
  "mdr_expected (fst (report_image img r)) = mdr_expected r"
  "mdr_change (fst (report_image img r)) = mdr_change r"
  "mdr_provenance (fst (report_image img r)) = mdr_provenance r"
  "mdr_created (fst (report_image img r)) = mdr_created r"
  "mdr_reported (fst (report_image img r)) = gm_put (mdr_reported r) (dg_image img) img"
  "mdr_state (fst (report_image img r)) = (if snd (report_image img r) then deploy_ready else mdr_state r)"
  "snd (report_image img r) \<longleftrightarrow> mdr_state r \<noteq> deploy_ready
     \<and> deploy_complete (mdr_expected r) (gm_put (mdr_reported r) (dg_image img) img)"
  by (auto simp: report_image_def Let_def)

lemma report_images_reported:
  "gm_get (mdr_reported (fst (report_images is r))) k =
     (if \<exists>i \<in> set is. dg_image i = k then Some (last (filter (\<lambda>i. dg_image i = k) is)) else gm_get (mdr_reported r) k)"
proof (induction "is" arbitrary: r)
  case (Cons i "is")
  show ?case
    using Cons.IH [of "fst (report_image i r)"]
    by (auto simp: Let_def split_beta report_image_fields filter_empty_conv)
qed simp

lemma report_images_fields:
  "mdr_expected (fst (report_images is r)) = mdr_expected r"
  "length (snd (report_images is r)) = length is"
  by (induction "is" arbitrary: r) (auto simp: Let_def split_beta report_image_fields)

lemma report_images_ready_silent:
  "mdr_state r = deploy_ready \<Longrightarrow> mdr_state (fst (report_images is r)) = deploy_ready
     \<and> count_list (snd (report_images is r)) True = 0"
  by (induction "is" arbitrary: r) (auto simp: Let_def split_beta report_image_fields)

lemma report_images_ok: "deploy_ok r \<Longrightarrow> deploy_ok (fst (report_images is r))"
  by (induction "is" arbitrary: r) (auto simp: Let_def split_beta report_image_ok)

lemma deploy_complete_iff: "deploy_complete e m \<longleftrightarrow> set e \<subseteq> set (gm_keys m)"
  by (auto simp: deploy_complete_def list_all_iff gm_keys_iff)

lemma report_images_keys:
  "set (gm_keys (mdr_reported (fst (report_images is r)))) = set (gm_keys (mdr_reported r)) \<union> dg_image ` set is"
  by (induction "is" arbitrary: r) (auto simp: Let_def split_beta report_image_fields)

text \<open>From a pending record with at least one report: the reports signal completion once when they
  cover the expected images, and not at all otherwise.\<close>

lemma report_images_signal:
  assumes "mdr_state r = deploy_pending" "is \<noteq> []"
  shows "(if set (mdr_expected r) \<subseteq> set (gm_keys (mdr_reported r)) \<union> dg_image ` set is
          then mdr_state (fst (report_images is r)) = deploy_ready \<and> count_list (snd (report_images is r)) True = 1
          else mdr_state (fst (report_images is r)) = deploy_pending \<and> count_list (snd (report_images is r)) True = 0)"
  using assms
proof (induction "is" arbitrary: r)
  case (Cons i "is")
  let ?r = "fst (report_image i r)"
  have flag: "snd (report_image i r) \<longleftrightarrow> set (mdr_expected r) \<subseteq> insert (dg_image i) (set (gm_keys (mdr_reported r)))"
    using Cons.prems by (simp add: report_image_fields deploy_complete_iff)
  show ?case
  proof (cases "snd (report_image i r)")
    case True
    then show ?thesis
      using flag report_images_ready_silent [of ?r "is"] by (auto simp: Let_def split_beta report_image_fields(6))
  next
    case False
    then have p: "mdr_state ?r = deploy_pending" using Cons.prems by (simp add: report_image_fields(6))
    show ?thesis
    proof (cases "is = []")
      case True
      then show ?thesis using False flag p by (auto simp: Let_def split_beta)
    next
      case ne: False
      then show ?thesis
        using Cons.IH [OF p ne] False by (simp add: Let_def split_beta report_image_fields(1, 5) insert_commute Un_insert_left)
    qed
  qed
qed simp

section \<open>Reports against the store\<close>

fun record_deploy_images :: "string \<Rightarrow> deploy_image_row list \<Rightarrow> mem_store \<Rightarrow> bool list \<times> mem_store" where
  "record_deploy_images sha [] s = ([], s)"
| "record_deploy_images sha (i # is) s =
     (let (res, s1) = record_deploy_image sha i s;
          b = (case res of Inr (Some (_, b)) \<Rightarrow> b | _ \<Rightarrow> False);
          (bs, s2) = record_deploy_images sha is s1
      in (b # bs, s2))"

lemma record_deploy_images_run:
  "gm_get (ms_deploys s) sha = Some r \<Longrightarrow>
     fst (record_deploy_images sha is s) = snd (report_images is r)
     \<and> gm_get (ms_deploys (snd (record_deploy_images sha is s))) sha = Some (fst (report_images is r))"
  by (induction "is" arbitrary: s r) (simp_all add: record_deploy_image_def Let_def split_beta)

text \<open>C40. After a landed commit's deploy record is opened, the reports of its images signal
  readiness exactly once when together they cover the expected images, whatever their order and
  repetitions, and never before; a report for a ready record does not signal again.\<close>

theorem deploy_signals_once:
  fixes s :: mem_store and now change provenance expected
  assumes "gm_get (ms_deploys s) sha = None" "is \<noteq> []"
  defines "opened \<equiv> snd (open_deploy_record now sha change provenance expected s)"
  defines "run \<equiv> record_deploy_images sha is opened"
  shows "count_list (fst run) True = (if set expected \<subseteq> dg_image ` set is then 1 else 0)
    \<and> map_option dr_state (get_deploy_record (snd run) sha)
        = Some (if set expected \<subseteq> dg_image ` set is then deploy_ready else deploy_pending)"
proof -
  let ?r = "\<lparr>mdr_change = change, mdr_expected = expected, mdr_provenance = provenance, mdr_reported = gm_empty,
           mdr_state = deploy_pending, mdr_created = now\<rparr>"
  have "gm_get (ms_deploys opened) sha = Some ?r"
    using assms(1) by (simp add: opened_def open_deploy_record_def)
  note run = record_deploy_images_run [OF this, of "is", folded run_def]
  show ?thesis
    using run report_images_signal [of ?r "is", OF _ assms(2)]
    by (simp add: get_deploy_record_def mem_deploy_to_domain_def split: if_splits)
qed

definition demo_image :: "string \<Rightarrow> deploy_image_row" where
  "demo_image n = \<lparr>dg_image = n, dg_ref = ''r'', dg_digest = ''sha256:0'', dg_run_url = []\<rparr>"

theorem deploy_signals_once_witness:
  "count_list (fst (record_deploy_images ''c1'' (map demo_image [''web'', ''api'', ''web''])
     (snd (open_deploy_record 5 ''c1'' ''I1'' [] [''api'', ''web''] new_mem_store)))) True = 1"
  using deploy_signals_once [of new_mem_store "''c1''" "map demo_image [''web'', ''api'', ''web'']" 5 "''I1''" "[]" "[''api'', ''web'']"]
  by (simp add: new_mem_store_def demo_image_def)

text \<open>Opening a record again never resets it.\<close>

lemma open_idempotent:
  "gm_get (ms_deploys s) sha = Some r \<Longrightarrow> snd (open_deploy_record now sha c p e s) = s"
  by (simp add: open_deploy_record_def)

end
