(* ===== verification/ActivityStore.thy ===== *)
theory ActivityStore
  imports StoreTypes
begin

text \<open>
  Workspaces, identities and the two per-workspace feeds of \<open>MemStore\<close> (\<open>runkod/store.go\<close>). The
  timeline and the activity feed share one contract, an append-only log pruned to its newest
  entries; it is the locale \<open>capped_feed\<close>, interpreted on both.
\<close>

section \<open>Capped feeds\<close>

text \<open>\<open>append\<close> then drop what exceeds the cap, oldest first.\<close>

definition push_capped :: "nat \<Rightarrow> 'a list \<Rightarrow> 'a \<Rightarrow> 'a list" where
  "push_capped cap xs x = (let ys = xs @ [x] in drop (length ys - cap) ys)"

lemma push_capped_length: "length (push_capped cap xs x) = min cap (Suc (length xs))"
  by (simp add: push_capped_def Let_def)

lemma push_capped_suffix: "\<exists>zs. xs @ [x] = zs @ push_capped cap xs x"
  unfolding push_capped_def Let_def by (metis append_take_drop_id)

text \<open>A capped log is the newest part of the log that was never pruned.\<close>

definition newest :: "nat \<Rightarrow> 'a list \<Rightarrow> 'a list" where
  "newest cap xs = drop (length xs - cap) xs"

lemma newest_push: "push_capped cap (newest cap xs) x = newest cap (xs @ [x])"
  by (cases "cap \<le> length xs") (auto simp: push_capped_def newest_def Let_def Suc_diff_le)

lemma newest_length: "length (newest cap xs) = min cap (length xs)"
  by (simp add: newest_def)

lemma newest_set: "set (newest cap xs) \<subseteq> set xs"
  by (simp add: newest_def set_drop_subset)

lemma newest_sorted: "sorted_wrt R xs \<Longrightarrow> sorted_wrt R (newest cap xs)"
  by (simp add: newest_def sorted_wrt_drop)

locale capped_feed =
  fixes feed :: "'s \<Rightarrow> string \<Rightarrow> 'e list"
    and seq :: "'s \<Rightarrow> int"
    and put :: "'s \<Rightarrow> 'e \<Rightarrow> 's"
    and stamp :: "'s \<Rightarrow> 'e \<Rightarrow> 'e"
    and eid :: "'e \<Rightarrow> int"
    and owner :: "'e \<Rightarrow> string"
    and cap :: nat
  assumes seq_put: "seq (put s e) = seq s + 1"
    and eid_stamp: "eid (stamp s e) = seq s + 1"
    and owner_stamp: "owner (stamp s e) = owner e"
    and feed_put: "feed (put s e) w = (if w = owner e then push_capped cap (feed s w) (stamp s e) else feed s w)"
begin

text \<open>The stamped entries of a run of puts, in order, none dropped.\<close>

fun history :: "'s \<Rightarrow> 'e list \<Rightarrow> 'e list" where
  "history s [] = []"
| "history s (e # es) = stamp s e # history (put s e) es"

lemma history_append: "history s (es @ fs) = history s es @ history (foldl put s es) fs"
  by (induction es arbitrary: s) auto

lemma seq_foldl: "seq (foldl put s es) = seq s + int (length es)"
  by (induction es arbitrary: s) (auto simp: seq_put)

lemma history_ids: "map eid (history s es) = map (\<lambda>i. seq s + int i) [1..<Suc (length es)]"
proof (induction es rule: rev_induct)
  case (snoc e es)
  then show ?case by (simp add: history_append eid_stamp seq_foldl)
qed simp

lemma history_increasing: "sorted_wrt (\<lambda>a b. eid a < eid b) (history s es)"
proof -
  have "sorted_wrt (<) (map eid (history s es))"
    unfolding history_ids by (simp add: sorted_wrt_map del: upt_Suc)
  then show ?thesis by (simp add: sorted_wrt_map)
qed

text \<open>Each workspace's feed holds its newest entries and no other workspace's.\<close>

lemma feed_is_newest:
  assumes "feed s w = []"
  shows "feed (foldl put s es) w = newest cap (filter (\<lambda>e. owner e = w) (history s es))"
proof (induction es rule: rev_induct)
  case Nil
  then show ?case using assms by (simp add: newest_def)
next
  case (snoc e es)
  then show ?case by (auto simp: history_append feed_put owner_stamp newest_push)
qed

lemma feed_bounded: "feed s w = [] \<Longrightarrow> length (feed (foldl put s es) w) \<le> cap"
  by (simp add: feed_is_newest newest_length)

lemma feed_increasing: "feed s w = [] \<Longrightarrow> sorted_wrt (\<lambda>a b. eid a < eid b) (feed (foldl put s es) w)"
  by (simp add: feed_is_newest newest_sorted sorted_wrt_filter history_increasing)

end

section \<open>The workspace timeline\<close>

definition workspace_event_cap :: nat where "workspace_event_cap = 500"
definition workspace_activity_cap :: nat where "workspace_activity_cap = 1000"

definition stamp_event :: "go_time \<Rightarrow> mem_store \<Rightarrow> workspace_event \<Rightarrow> workspace_event" where
  "stamp_event now s e =
     (let e1 = e\<lparr>we_id := ms_ws_event_seq s + 1\<rparr> in if we_occurred e1 = 0 then e1\<lparr>we_occurred := now\<rparr> else e1)"

definition put_event :: "go_time \<Rightarrow> mem_store \<Rightarrow> workspace_event \<Rightarrow> mem_store" where
  "put_event now s e =
     s\<lparr>ms_ws_event_seq := ms_ws_event_seq s + 1,
       ms_ws_events := gm_put (ms_ws_events s) (we_workspace e)
         (push_capped workspace_event_cap (gm_sub (ms_ws_events s) (we_workspace e)) (stamp_event now s e))\<rparr>"

definition record_workspace_event :: "go_time \<Rightarrow> workspace_event \<Rightarrow> mem_store \<Rightarrow> workspace_event store_result" where
  "record_workspace_event now e s = (Inr (stamp_event now s e), put_event now s e)"

definition list_workspace_events :: "mem_store \<Rightarrow> string \<Rightarrow> int \<Rightarrow> int \<Rightarrow> store_error + workspace_event list" where
  "list_workspace_events s w limit offset = page_unclamped limit offset (rev (gm_sub (ms_ws_events s) w))"

definition delete_workspace_events :: "string \<Rightarrow> mem_store \<Rightarrow> unit store_result" where
  "delete_workspace_events w s = (Inr (), s\<lparr>ms_ws_events := gm_del (ms_ws_events s) w\<rparr>)"

section \<open>The activity feed\<close>

definition stamp_activity :: "go_time \<Rightarrow> mem_store \<Rightarrow> workspace_activity \<Rightarrow> workspace_activity" where
  "stamp_activity now s e =
     (let e1 = e\<lparr>wa_id := ms_ws_activity_seq s + 1\<rparr> in if wa_occurred e1 = 0 then e1\<lparr>wa_occurred := now\<rparr> else e1)"

definition put_activity :: "go_time \<Rightarrow> mem_store \<Rightarrow> workspace_activity \<Rightarrow> mem_store" where
  "put_activity now s e =
     s\<lparr>ms_ws_activity_seq := ms_ws_activity_seq s + 1,
       ms_ws_activity := gm_put (ms_ws_activity s) (wa_workspace e)
         (push_capped workspace_activity_cap (gm_sub (ms_ws_activity s) (wa_workspace e)) (stamp_activity now s e))\<rparr>"

text \<open>A batch is stamped and appended entry by entry; \<open>nows\<close> are the clock readings.\<close>

fun record_activities :: "go_time \<Rightarrow> workspace_activity list \<Rightarrow> mem_store \<Rightarrow> workspace_activity list \<times> mem_store" where
  "record_activities now [] s = ([], s)"
| "record_activities now (e # es) s =
     (let (out, s') = record_activities now es (put_activity now s e) in (stamp_activity now s e # out, s'))"

definition record_workspace_activity ::
  "go_time \<Rightarrow> workspace_activity list \<Rightarrow> mem_store \<Rightarrow> workspace_activity list store_result" where
  "record_workspace_activity now es s = (let (out, s') = record_activities now es s in (Inr out, s'))"

definition list_workspace_activity :: "mem_store \<Rightarrow> string \<Rightarrow> int \<Rightarrow> int \<Rightarrow> store_error + workspace_activity list" where
  "list_workspace_activity s w limit offset = page_unclamped limit offset (rev (gm_sub (ms_ws_activity s) w))"

definition latest_workspace_activity :: "mem_store \<Rightarrow> string list \<Rightarrow> (string, workspace_activity) gomap" where
  "latest_workspace_activity s ids =
     fold (\<lambda>w m. if gm_sub (ms_ws_activity s) w \<noteq> [] then gm_put m w (last (gm_sub (ms_ws_activity s) w)) else m) ids gm_empty"

definition delete_workspace_activity :: "string \<Rightarrow> mem_store \<Rightarrow> unit store_result" where
  "delete_workspace_activity w s = (Inr (), s\<lparr>ms_ws_activity := gm_del (ms_ws_activity s) w\<rparr>)"

interpretation ev: capped_feed "\<lambda>s w. gm_sub (ms_ws_events s) w" ms_ws_event_seq "put_event now" "stamp_event now"
    we_id we_workspace workspace_event_cap for now
  by unfold_locales (auto simp: put_event_def stamp_event_def Let_def)

interpretation act: capped_feed "\<lambda>s w. gm_sub (ms_ws_activity s) w" ms_ws_activity_seq "put_activity now" "stamp_activity now"
    wa_id wa_workspace workspace_activity_cap for now
  by unfold_locales (auto simp: put_activity_def stamp_activity_def Let_def)

lemma record_activities_foldl:
  "record_activities now es s = (act.history now s es, foldl (put_activity now) s es)"
  by (induction es arbitrary: s) (auto simp: Let_def split_beta)

section \<open>Workspaces\<close>

text \<open>\<open>Time.Unix\<close>: the zero instant is 62135596800 seconds before the Unix epoch.\<close>

definition unix_seconds :: "go_time \<Rightarrow> int" where
  "unix_seconds now = now div 1000000000 - 62135596800"

definition create_workspace :: "go_time \<Rightarrow> workspace \<Rightarrow> mem_store \<Rightarrow> workspace store_result" where
  "create_workspace now ws s =
     (case gm_get (ms_workspaces s) (ws_id ws) of
        Some _ \<Rightarrow> (Inl (WorkspaceExists (ws_id ws)), s)
      | None \<Rightarrow> (let ws' = ws\<lparr>ws_created := unix_seconds now\<rparr>
                 in (Inr ws', s\<lparr>ms_workspaces := gm_put (ms_workspaces s) (ws_id ws) ws'\<rparr>)))"

definition get_workspace :: "mem_store \<Rightarrow> string \<Rightarrow> workspace option" where
  "get_workspace s wid = gm_get (ms_workspaces s) wid"

definition list_workspaces :: "mem_store \<Rightarrow> workspace list" where
  "list_workspaces s = sort_key ws_id (gm_vals (ms_workspaces s))"

definition modify_workspace :: "string \<Rightarrow> (workspace \<Rightarrow> workspace) \<Rightarrow> mem_store \<Rightarrow> workspace store_result" where
  "modify_workspace wid f s =
     (case gm_get (ms_workspaces s) wid of
        None \<Rightarrow> (Inl (NoSuchWorkspace wid), s)
      | Some ws \<Rightarrow> (Inr (f ws), s\<lparr>ms_workspaces := gm_put (ms_workspaces s) wid (f ws)\<rparr>))"

definition update_workspace_base :: "string \<Rightarrow> string \<Rightarrow> mem_store \<Rightarrow> workspace store_result" where
  "update_workspace_base wid base = modify_workspace wid (\<lambda>ws. ws\<lparr>ws_base := base\<rparr>)"

definition set_workspace_status :: "string \<Rightarrow> string \<Rightarrow> mem_store \<Rightarrow> workspace store_result" where
  "set_workspace_status wid status = modify_workspace wid (\<lambda>ws. ws\<lparr>ws_status := status\<rparr>)"

definition delete_workspace :: "string \<Rightarrow> mem_store \<Rightarrow> unit store_result" where
  "delete_workspace wid s =
     (case gm_get (ms_workspaces s) wid of
        None \<Rightarrow> (Inl (NoSuchWorkspace wid), s)
      | Some _ \<Rightarrow> (Inr (), s\<lparr>ms_workspaces := gm_del (ms_workspaces s) wid\<rparr>))"

section \<open>Principals\<close>

definition create_principal :: "string \<Rightarrow> string \<Rightarrow> string \<Rightarrow> string \<Rightarrow> mem_store \<Rightarrow> unit store_result" where
  "create_principal org name credential email s =
     (case gm_get (ms_principals s) (nul_key org name) of
        Some _ \<Rightarrow> (Inl (PrincipalExists name org), s)
      | None \<Rightarrow> (Inr (), s\<lparr>ms_principals := gm_put (ms_principals s) (nul_key org name)
          \<lparr>sp_org = org, sp_name = name, sp_credential = credential, sp_email = email\<rparr>\<rparr>))"

definition get_stored_principal :: "mem_store \<Rightarrow> string \<Rightarrow> string \<Rightarrow> stored_principal option" where
  "get_stored_principal s org name = gm_get (ms_principals s) (nul_key org name)"

definition list_principal_orgs :: "mem_store \<Rightarrow> string \<Rightarrow> stored_principal list" where
  "list_principal_orgs s name = sort_key sp_org (filter (\<lambda>p. sp_name p = name) (gm_vals (ms_principals s)))"

definition mint_agent_principal :: "agent_principal \<Rightarrow> mem_store \<Rightarrow> agent_principal store_result" where
  "mint_agent_principal ap s =
     (case gm_get (ms_agents s) (ag_name ap) of
        Some _ \<Rightarrow> (Inl (AgentExists (ag_name ap)), s)
      | None \<Rightarrow> (Inr ap, s\<lparr>ms_agents := gm_put (ms_agents s) (ag_name ap) ap\<rparr>))"

definition get_agent_by_name :: "mem_store \<Rightarrow> string \<Rightarrow> agent_principal option" where
  "get_agent_by_name s name = gm_get (ms_agents s) name"

definition get_agent_by_token_hash :: "mem_store \<Rightarrow> string \<Rightarrow> agent_principal option" where
  "get_agent_by_token_hash s h = find (\<lambda>ap. ag_token_hash ap = h) (gm_vals (ms_agents s))"

definition list_agent_principals :: "mem_store \<Rightarrow> agent_principal list" where
  "list_agent_principals s = sort_key ag_name (gm_vals (ms_agents s))"

definition revoke_agent_principal :: "string \<Rightarrow> mem_store \<Rightarrow> unit store_result" where
  "revoke_agent_principal name s =
     (case gm_get (ms_agents s) name of
        None \<Rightarrow> (Inl (NoSuchAgent name), s)
      | Some ap \<Rightarrow> (Inr (), s\<lparr>ms_agents := gm_put (ms_agents s) name (ap\<lparr>ag_revoked := True\<rparr>)\<rparr>))"

text \<open>\<open>Live\<close>: whether a credential still authenticates.\<close>

definition agent_live :: "agent_principal \<Rightarrow> go_time \<Rightarrow> bool" where
  "agent_live ap now \<longleftrightarrow> \<not> ag_revoked ap \<and> now < ag_expires ap"

section \<open>Properties\<close>

text \<open>After any run of recorded events from a workspace's empty timeline, the timeline is exactly
  the newest 500 of that workspace's events, so never longer, with strictly increasing ids, and
  the events of other workspaces neither enter it nor push it out.\<close>

theorem timeline_is_newest:
  fixes s :: mem_store and w now es
  assumes "gm_sub (ms_ws_events s) w = []"
  defines "t \<equiv> gm_sub (ms_ws_events (foldl (put_event now) s es)) w"
  shows "map we_sha t = newest 500 (map we_sha (filter (\<lambda>e. we_workspace e = w) es))
    \<and> length t \<le> 500 \<and> sorted_wrt (\<lambda>a b. we_id a < we_id b) t"
proof -
  have sha: "map we_sha (filter (\<lambda>e. we_workspace e = w) (ev.history now s es)) = map we_sha (filter (\<lambda>e. we_workspace e = w) es)" for s
    by (induction es arbitrary: s) (auto simp: stamp_event_def Let_def)
  have "map we_sha (newest 500 xs) = newest 500 (map we_sha xs)" for xs :: "workspace_event list"
    by (simp add: newest_def drop_map)
  then show ?thesis
    using ev.feed_is_newest [OF assms(1), of now es] ev.feed_bounded [OF assms(1), of now es]
      ev.feed_increasing [OF assms(1), of now es] sha
    by (simp add: t_def workspace_event_cap_def)
qed

definition demo_event :: "string \<Rightarrow> string \<Rightarrow> workspace_event" where
  "demo_event w sha = \<lparr>we_id = 0, we_type = ''snapshot_pushed'', we_workspace = w, we_branch = ''head'', we_actor = [],
     we_sha = sha, we_change = [], we_files = 1, we_additions = 2, we_deletions = 0, we_occurred = 0\<rparr>"

theorem timeline_is_newest_witness:
  "map we_sha (gm_sub (ms_ws_events (foldl (put_event 9) new_mem_store
     [demo_event ''a'' ''s1'', demo_event ''b'' ''s2'', demo_event ''a'' ''s3''])) ''a'') = [''s1'', ''s3'']"
  using timeline_is_newest [of new_mem_store "''a''" 9 "[demo_event ''a'' ''s1'', demo_event ''b'' ''s2'', demo_event ''a'' ''s3'']"]
  by (simp add: new_mem_store_def demo_event_def newest_def)

end
