(* ===== verification/Outbox.thy ===== *)
theory Outbox
  imports StoreTypes
begin

text \<open>
  The two outboxes: webhook deliveries with the worker that drives them (\<open>runkod/outbox.go\<close>,
  \<open>platform/checks/delivery.go\<close>) and invite requests with their public intake and the mailer's
  acknowledgements (\<open>runkod/invite.go\<close>, \<open>runkod/invitefeed.go\<close>), over \<open>MemStore\<close>. The HTTP
  exchange, the GitHub dispatch and \<open>mail.ParseAddress\<close> are parameters.
\<close>

section \<open>Webhook deliveries\<close>

definition st_pending :: string where "st_pending = ''pending''"
definition st_delivered :: string where "st_delivered = ''delivered''"
definition st_failed :: string where "st_failed = ''failed''"
definition st_dead_letter :: string where "st_dead_letter = ''dead_letter''"
definition st_sent :: string where "st_sent = ''sent''"

lemmas delivery_states = st_pending_def st_delivered_def st_failed_def st_dead_letter_def st_sent_def

definition enqueue_webhook :: "string \<Rightarrow> string \<Rightarrow> mem_store \<Rightarrow> string store_result" where
  "enqueue_webhook event payload s =
     (let n = ms_next_id s + 1; did = ''dlv_'' @ show_int n
      in (Inr did, s\<lparr>ms_next_id := n, ms_deliveries := gm_put (ms_deliveries s) did
            \<lparr>md_row = \<lparr>wd_id = did, wd_event = event, wd_payload = payload, wd_status = st_pending, wd_attempt = 0,
                       wd_next = 0, wd_last_error = []\<rparr>, md_attempt = 0\<rparr>\<rparr>))"

definition delivery_due :: "go_time \<Rightarrow> webhook_delivery \<Rightarrow> bool" where
  "delivery_due now d \<longleftrightarrow> (wd_status d = st_pending \<or> wd_status d = st_failed) \<and> \<not> now < wd_next d"

definition list_due_webhook_deliveries :: "mem_store \<Rightarrow> go_time \<Rightarrow> webhook_delivery list" where
  "list_due_webhook_deliveries s now = filter (delivery_due now) (map md_row (gm_vals (ms_deliveries s)))"

definition mark_delivery :: "delivery_attempt \<Rightarrow> duration \<Rightarrow> duration \<Rightarrow> go_time \<Rightarrow> mem_delivery \<Rightarrow> mem_delivery" where
  "mark_delivery r base maxd now d =
     (let n = md_attempt d + 1; row = md_row d in
      if da_success r then \<lparr>md_row = row\<lparr>wd_status := st_delivered\<rparr>, md_attempt = n\<rparr>
      else \<lparr>md_row = row\<lparr>wd_status := (if n \<ge> max_delivery_attempts then st_dead_letter else st_failed),
              wd_next := now + sint (next_backoff n base maxd),
              wd_last_error := (case da_err r of None \<Rightarrow> wd_last_error row | Some e \<Rightarrow> e),
              wd_attempt := n\<rparr>, md_attempt = n\<rparr>)"

definition record_delivery_mem ::
  "string \<Rightarrow> delivery_attempt \<Rightarrow> duration \<Rightarrow> duration \<Rightarrow> go_time \<Rightarrow> mem_store \<Rightarrow> unit store_result" where
  "record_delivery_mem did r base maxd now s =
     (case gm_get (ms_deliveries s) did of
        None \<Rightarrow> (Inl (NoSuchDelivery did), s)
      | Some d \<Rightarrow> (Inr (), s\<lparr>ms_deliveries := gm_put (ms_deliveries s) did (mark_delivery r base maxd now d)\<rparr>))"

section \<open>The worker\<close>

text \<open>One signed POST: the request cannot be built, the transport fails, or an HTTP status comes
  back. Error texts are the code's up to the wrapped cause.\<close>

datatype http_outcome = BuildFailed string | TransportFailed string | HttpStatus int

definition deliver :: "http_outcome \<Rightarrow> delivery_attempt" where
  "deliver out = (case out of
     BuildFailed e \<Rightarrow> \<lparr>da_success = False, da_status = 0, da_err = Some (''webhook: build request: '' @ e)\<rparr>
   | TransportFailed e \<Rightarrow> \<lparr>da_success = False, da_status = 0, da_err = Some (''webhook: '' @ e)\<rparr>
   | HttpStatus c \<Rightarrow>
       if c < 200 \<or> c \<ge> 300
       then \<lparr>da_success = False, da_status = c, da_err = Some (''webhook: endpoint returned '' @ show_int c)\<rparr>
       else \<lparr>da_success = True, da_status = c, da_err = None\<rparr>)"

text \<open>\<open>post\<close> is None when no URL is configured, \<open>dispatch\<close> when no dispatcher is wired.\<close>

definition fan_out :: "http_outcome option \<Rightarrow> delivery_attempt option \<Rightarrow> delivery_attempt" where
  "fan_out post dispatch =
     (let result = (case post of None \<Rightarrow> \<lparr>da_success = True, da_status = 0, da_err = None\<rparr> | Some o1 \<Rightarrow> deliver o1)
      in case dispatch of
           None \<Rightarrow> result
         | Some d \<Rightarrow> if \<not> da_success d then d else result)"

record outbox_config =
  ob_backoff_min :: duration
  ob_backoff_max :: duration

definition outbox_backoff_min :: "outbox_config \<Rightarrow> duration" where
  "outbox_backoff_min c = (if sint (ob_backoff_min c) > 0 then ob_backoff_min c else 1000000000)"

definition outbox_backoff_max :: "outbox_config \<Rightarrow> duration" where
  "outbox_backoff_max c = (if sint (ob_backoff_max c) > 0 then ob_backoff_max c else 60000000000)"

fun attempt_all ::
  "outbox_config \<Rightarrow> (webhook_delivery \<Rightarrow> delivery_attempt) \<Rightarrow> go_time \<Rightarrow> webhook_delivery list \<Rightarrow> mem_store \<Rightarrow> unit store_result" where
  "attempt_all cfg attempt now [] s = (Inr (), s)"
| "attempt_all cfg attempt now (d # ds) s =
     (case record_delivery_mem (wd_id d) (attempt d) (outbox_backoff_min cfg) (outbox_backoff_max cfg) now s of
        (Inl e, s1) \<Rightarrow> (Inl e, s1)
      | (Inr _, s1) \<Rightarrow> attempt_all cfg attempt now ds s1)"

definition run_once ::
  "outbox_config \<Rightarrow> (webhook_delivery \<Rightarrow> delivery_attempt) \<Rightarrow> go_time \<Rightarrow> mem_store \<Rightarrow> int \<times> unit store_result" where
  "run_once cfg attempt now s =
     (let due = list_due_webhook_deliveries s now in (int (length due), attempt_all cfg attempt now due s))"

section \<open>Invite requests\<close>

definition invite_live :: "invite_request \<Rightarrow> bool" where
  "invite_live r \<longleftrightarrow> iv_status r = st_pending \<or> iv_status r = st_failed"

definition create_invite_request ::
  "go_time \<Rightarrow> string \<Rightarrow> string \<Rightarrow> string \<Rightarrow> string \<Rightarrow> mem_store \<Rightarrow> invite_request option store_result" where
  "create_invite_request now kind name email message s =
     (if list_ex (\<lambda>r. iv_kind r = kind \<and> invite_live r \<and> go_equal_fold (iv_email r) email) (gm_vals (ms_invites s))
      then (Inr None, s)
      else (let n = ms_next_id s + 1;
                req = \<lparr>iv_id = ''inv_'' @ show_int n, iv_kind = kind, iv_name = name, iv_email = email,
                       iv_message = message, iv_status = st_pending, iv_attempt = 0, iv_next = now,
                       iv_last_error = [], iv_created = now\<rparr>
            in (Inr (Some req), s\<lparr>ms_next_id := n, ms_invites := gm_put (ms_invites s) (iv_id req) req\<rparr>)))"

definition list_due_invite_requests :: "mem_store \<Rightarrow> go_time \<Rightarrow> invite_request list" where
  "list_due_invite_requests s now =
     sort_key (\<lambda>r. (iv_next r, iv_id r)) (filter (\<lambda>r. invite_live r \<and> \<not> now < iv_next r) (gm_vals (ms_invites s)))"

definition mark_invite :: "string \<Rightarrow> duration \<Rightarrow> duration \<Rightarrow> go_time \<Rightarrow> invite_request \<Rightarrow> invite_request" where
  "mark_invite send_err base maxd now r =
     (if send_err = [] then r\<lparr>iv_status := st_sent\<rparr>
      else (let n = iv_attempt r + 1
            in r\<lparr>iv_attempt := n, iv_status := (if n \<ge> max_delivery_attempts then st_dead_letter else st_failed),
                 iv_next := now + sint (next_backoff n base maxd), iv_last_error := send_err\<rparr>))"

definition record_invite_send_result ::
  "string \<Rightarrow> string \<Rightarrow> duration \<Rightarrow> duration \<Rightarrow> go_time \<Rightarrow> mem_store \<Rightarrow> invite_request store_result" where
  "record_invite_send_result rid send_err base maxd now s =
     (case gm_get (ms_invites s) rid of
        None \<Rightarrow> (Inl NoSuchInviteRequest, s)
      | Some r \<Rightarrow> (let r' = mark_invite send_err base maxd now r
                   in (Inr r', s\<lparr>ms_invites := gm_put (ms_invites s) rid r'\<rparr>)))"

definition count_live_invite_requests :: "mem_store \<Rightarrow> int" where
  "count_live_invite_requests s = int (length (filter invite_live (gm_vals (ms_invites s))))"

section \<open>The mailer's acknowledgements\<close>

definition invite_backoff_base :: duration where "invite_backoff_base = 60000000000"
definition invite_backoff_max :: duration where "invite_backoff_max = 3600000000000"

definition ack_invite_request :: "go_time \<Rightarrow> string \<Rightarrow> string \<Rightarrow> mem_store \<Rightarrow> (api_error + invite_request) \<times> mem_store" where
  "ack_invite_request now rid send_err s =
     (case record_invite_send_result rid send_err invite_backoff_base invite_backoff_max now s of
        (Inl NoSuchInviteRequest, s') \<Rightarrow> (Inl (typed_err 404 ''unknown_invite_request''), s')
      | (Inl _, s') \<Rightarrow> (Inl internal_err, s')
      | (Inr r, s') \<Rightarrow> (Inr r, s'))"

definition mark_sent :: "go_time \<Rightarrow> string \<Rightarrow> mem_store \<Rightarrow> (api_error + invite_request) \<times> mem_store" where
  "mark_sent now rid = ack_invite_request now rid []"

definition mark_failed :: "go_time \<Rightarrow> string \<Rightarrow> string \<Rightarrow> mem_store \<Rightarrow> (api_error + invite_request) \<times> mem_store" where
  "mark_failed now rid err = ack_invite_request now rid (if err = [] then ''unspecified mailer failure'' else err)"

section \<open>The public intake\<close>

definition kind_invite :: string where "kind_invite = ''invite''"
definition kind_contact :: string where "kind_contact = ''contact''"
definition max_invite_name :: nat where "max_invite_name = 120"
definition max_invite_message :: nat where "max_invite_message = 2000"
definition invite_rate_limit :: nat where "invite_rate_limit = 5"
definition invite_rate_window :: duration where "invite_rate_window = 3600000000000"
definition invite_backlog_cap :: int where "invite_backlog_cap = 500"
definition max_email_length :: nat where "max_email_length = 254"

record invite_body =
  ib_name :: string
  ib_email :: string
  ib_message :: string
  ib_website :: string

text \<open>\<open>unicode.IsControl\<close> on UTF-8 text: U+0000 to U+001F, U+007F, and U+0080 to U+009F, whose
  encoding is the lead byte C2 and a second byte below A0.\<close>

fun has_control_chars :: "string \<Rightarrow> bool" where
  "has_control_chars [] = False"
| "has_control_chars (c # cs) =
     (c < CHR 0x20 \<or> c = CHR 0x7F
      \<or> c = CHR 0xC2 \<and> (case cs of [] \<Rightarrow> False | d # _ \<Rightarrow> CHR 0x80 \<le> d \<and> d < CHR 0xA0)
      \<or> has_control_chars cs)"

definition valid_bare_email :: "(string \<Rightarrow> string option) \<Rightarrow> string \<Rightarrow> bool" where
  "valid_bare_email parse_address email \<longleftrightarrow> parse_address email = Some email \<and> length email \<le> max_email_length"

text \<open>The per-key fixed window.\<close>

definition limiter_allow :: "string \<Rightarrow> go_time \<Rightarrow> (string, go_time list) gomap \<Rightarrow> bool \<times> (string, go_time list) gomap" where
  "limiter_allow key now hits =
     (let kept = filter (\<lambda>t. time_sub now t < sint invite_rate_window) (gm_sub hits key)
      in if length kept \<ge> invite_rate_limit then (False, gm_put hits key kept)
         else (True, gm_put hits key (kept @ [now])))"

record intake =
  in_allow :: bool
  in_hits :: "(string, go_time list) gomap"
  in_store :: mem_store

text \<open>\<open>Inr ()\<close> is the idempotent 202. The clock is read once here; the code reads it for the
  limiter and again inside the store.\<close>

definition invite_request_core ::
  "(string \<Rightarrow> string option) \<Rightarrow> go_time \<Rightarrow> string \<Rightarrow> invite_body \<Rightarrow> string \<Rightarrow> intake \<Rightarrow> (api_error + unit) \<times> intake" where
  "invite_request_core parse_address now kind req ip st =
     (if \<not> in_allow st then
        (Inl (typed_err 403 (if kind = kind_contact then ''contact_disabled'' else ''invite_requests_disabled'')), st)
      else if ib_website req \<noteq> [] then (Inr (), st)
      else let name = go_trim_space (ib_name req); email = go_trim_space (ib_email req) in
        if name = [] \<or> length name > max_invite_name \<or> has_control_chars name then (Inl (typed_err 400 ''invalid_name''), st)
        else if \<not> valid_bare_email parse_address email then (Inl (typed_err 400 ''invalid_email''), st)
        else if length (ib_message req) > max_invite_message then (Inl (typed_err 400 ''message_too_long''), st)
        else if kind = kind_contact \<and> go_trim_space (ib_message req) = [] then (Inl (typed_err 400 ''empty_message''), st)
        else let (ok, hits) = limiter_allow ip now (in_hits st); st1 = st\<lparr>in_hits := hits\<rparr> in
          if \<not> ok then (Inl (typed_err 429 ''rate_limited''), st1)
          else if count_live_invite_requests (in_store st1) \<ge> invite_backlog_cap then (Inl (typed_err 429 ''rate_limited''), st1)
          else (case create_invite_request now kind name email (ib_message req) (in_store st1) of
                  (Inl _, s') \<Rightarrow> (Inl internal_err, st1\<lparr>in_store := s'\<rparr>)
                | (Inr _, s') \<Rightarrow> (Inr (), st1\<lparr>in_store := s'\<rparr>)))"

section \<open>What a poll does to the deliveries\<close>

definition deliveries_ok :: "mem_store \<Rightarrow> bool" where
  "deliveries_ok s \<longleftrightarrow> gm_wf (ms_deliveries s) \<and> list_all (\<lambda>(k, d). wd_id (md_row d) = k) (ms_deliveries s)"

lemma deliveries_ok_id: "deliveries_ok s \<Longrightarrow> gm_get (ms_deliveries s) k = Some d \<Longrightarrow> wd_id (md_row d) = k"
  by (auto simp: deliveries_ok_def list_all_iff gm_get_def dest: map_of_SomeD)

lemma mark_delivery_id [simp]: "wd_id (md_row (mark_delivery r b m now d)) = wd_id (md_row d)"
  by (simp add: mark_delivery_def Let_def)

lemma record_delivery_effect:
  assumes "deliveries_ok s" "gm_get (ms_deliveries s) k = Some d"
  shows "fst (record_delivery_mem k r b m now s) = Inr ()"
    "deliveries_ok (snd (record_delivery_mem k r b m now s))"
    "gm_get (ms_deliveries (snd (record_delivery_mem k r b m now s))) k' =
       (if k' = k then Some (mark_delivery r b m now d) else gm_get (ms_deliveries s) k')"
  using assms deliveries_ok_id [OF assms]
  by (auto simp: record_delivery_mem_def deliveries_ok_def intro: list_all_put)

lemma attempt_all_effect:
  assumes "deliveries_ok s" "distinct (map wd_id ds)" "\<And>x. x \<in> set ds \<Longrightarrow> gm_get (ms_deliveries s) (wd_id x) \<noteq> None"
  shows "fst (attempt_all cfg attempt now ds s) = Inr () \<and> deliveries_ok (snd (attempt_all cfg attempt now ds s))
    \<and> gm_get (ms_deliveries (snd (attempt_all cfg attempt now ds s))) k =
       map_option (\<lambda>d. case find (\<lambda>x. wd_id x = k) ds of None \<Rightarrow> d
          | Some x \<Rightarrow> mark_delivery (attempt x) (outbox_backoff_min cfg) (outbox_backoff_max cfg) now d) (gm_get (ms_deliveries s) k)"
  using assms
proof (induction ds arbitrary: s)
  case Nil
  then show ?case by (simp add: option.map_ident)
next
  case (Cons x ds)
  obtain d where d: "gm_get (ms_deliveries s) (wd_id x) = Some d" using Cons.prems(3) [of x] by auto
  let ?R = "record_delivery_mem (wd_id x) (attempt x) (outbox_backoff_min cfg) (outbox_backoff_max cfg) now s"
  note eff = record_delivery_effect [OF Cons.prems(1) d, of "attempt x" "outbox_backoff_min cfg" "outbox_backoff_max cfg" now]
  have R: "?R = (Inr (), snd ?R)" using eff(1) by (metis prod.collapse)
  have fresh: "find (\<lambda>y. wd_id y = wd_id x) ds = None"
    using Cons.prems(2) by (auto simp: find_None_iff image_iff)
  have "attempt_all cfg attempt now (x # ds) s = attempt_all cfg attempt now ds (snd ?R)"
    by (subst attempt_all.simps) (subst R, simp)
  moreover have "gm_get (ms_deliveries (snd ?R)) (wd_id y) \<noteq> None" if "y \<in> set ds" for y
    using Cons.prems(3) [of y] that by (simp add: eff(3))
  ultimately show ?case
    using Cons.IH [OF eff(2)] Cons.prems(2) d fresh by (auto simp: eff(3))
qed

text \<open>A poll seen from one row.\<close>

definition poll_row :: "outbox_config \<Rightarrow> (webhook_delivery \<Rightarrow> delivery_attempt) \<Rightarrow> go_time \<Rightarrow> mem_delivery \<Rightarrow> mem_delivery" where
  "poll_row cfg attempt now d =
     (if delivery_due now (md_row d)
      then mark_delivery (attempt (md_row d)) (outbox_backoff_min cfg) (outbox_backoff_max cfg) now d else d)"

lemma map_fst_keys: "deliveries_ok s \<Longrightarrow> map wd_id (map md_row (gm_vals (ms_deliveries s))) = map fst (ms_deliveries s)"
  by (auto simp: deliveries_ok_def gm_vals_def list_all_iff o_def intro!: map_cong)

lemma find_due:
  assumes "deliveries_ok s" "gm_get (ms_deliveries s) k = Some d"
  shows "find (\<lambda>x. wd_id x = k) (list_due_webhook_deliveries s now) = (if delivery_due now (md_row d) then Some (md_row d) else None)"
proof -
  have uniq: "x = md_row d" if "x \<in> set (list_due_webhook_deliveries s now)" "wd_id x = k" for x
  proof -
    note hyp = that
    obtain d' where d': "d' \<in> set (gm_vals (ms_deliveries s))" "x = md_row d'"
      using hyp(1) by (auto simp: list_due_webhook_deliveries_def)
    then obtain k' where "gm_get (ms_deliveries s) k' = Some d'"
      using assms(1) by (auto simp: deliveries_ok_def gm_vals_iff)
    then show ?thesis using deliveries_ok_id [OF assms(1)] assms(2) d' hyp(2) by fastforce
  qed
  have "md_row d \<in> set (map md_row (gm_vals (ms_deliveries s)))"
    using assms by (force simp: deliveries_ok_def gm_vals_iff)
  then have mem: "md_row d \<in> set (list_due_webhook_deliveries s now) \<longleftrightarrow> delivery_due now (md_row d)"
    by (auto simp: list_due_webhook_deliveries_def)
  show ?thesis
  proof (cases "delivery_due now (md_row d)")
    case True
    then have "find (\<lambda>x. wd_id x = k) (list_due_webhook_deliveries s now) \<noteq> None"
      using mem deliveries_ok_id [OF assms] by (auto simp: find_None_iff)
    then obtain x where "find (\<lambda>x. wd_id x = k) (list_due_webhook_deliveries s now) = Some x" by blast
    moreover from this have "x \<in> set (list_due_webhook_deliveries s now)" "wd_id x = k"
      by (auto simp: find_Some_iff)
    ultimately show ?thesis using True uniq by simp
  next
    case False
    then show ?thesis using uniq mem by (auto simp: find_None_iff)
  qed
qed

lemma run_once_effect:
  assumes "deliveries_ok s"
  shows "fst (snd (run_once cfg attempt now s)) = Inr () \<and> deliveries_ok (snd (snd (run_once cfg attempt now s)))
    \<and> gm_get (ms_deliveries (snd (snd (run_once cfg attempt now s)))) k =
       map_option (poll_row cfg attempt now) (gm_get (ms_deliveries s) k)"
proof -
  let ?due = "list_due_webhook_deliveries s now"
  have "distinct (map wd_id (map md_row (gm_vals (ms_deliveries s))))"
    using assms by (simp only: map_fst_keys) (simp add: deliveries_ok_def gm_wf_def)
  then have "distinct (map wd_id ?due)"
    unfolding list_due_webhook_deliveries_def by (rule distinct_map_filter)
  moreover have "gm_get (ms_deliveries s) (wd_id x) \<noteq> None" if "x \<in> set ?due" for x
    using that assms deliveries_ok_id [OF assms]
    by (fastforce simp: list_due_webhook_deliveries_def deliveries_ok_def gm_vals_iff)
  ultimately show ?thesis
    using attempt_all_effect [OF assms, of ?due cfg attempt now k] find_due [OF assms, of k]
    by (cases "gm_get (ms_deliveries s) k") (auto simp: run_once_def Let_def poll_row_def)
qed

section \<open>Every delivery settles\<close>

definition settled :: "mem_delivery \<Rightarrow> bool" where
  "settled d \<longleftrightarrow> wd_status (md_row d) = st_delivered \<or> wd_status (md_row d) = st_dead_letter"

lemma settled_poll: "settled d \<Longrightarrow> poll_row cfg attempt now d = d"
  by (auto simp: settled_def poll_row_def delivery_due_def delivery_states)

text \<open>A row on its way: it waits or has failed, with attempts left, and comes due by \<open>t\<close>.\<close>

definition in_flight :: "nat \<Rightarrow> go_time \<Rightarrow> mem_delivery \<Rightarrow> bool" where
  "in_flight n t d \<longleftrightarrow> (wd_status (md_row d) = st_pending \<or> wd_status (md_row d) = st_failed)
     \<and> md_attempt d = int n \<and> wd_next (md_row d) \<le> t"

definition backoff_ok :: "outbox_config \<Rightarrow> bool" where
  "backoff_ok cfg \<longleftrightarrow> sint (outbox_backoff_min cfg) \<le> sint (outbox_backoff_max cfg) \<and> sint (outbox_backoff_max cfg) < 2 ^ 62"

lemma outbox_backoff_pos: "0 < sint (outbox_backoff_min cfg)" "0 < sint (outbox_backoff_max cfg)"
  by (simp_all add: outbox_backoff_min_def outbox_backoff_max_def)

lemma next_backoff_cap:
  assumes "backoff_ok cfg"
  shows "sint (next_backoff n (outbox_backoff_min cfg) (outbox_backoff_max cfg)) \<le> sint (outbox_backoff_max cfg)"
  using backoff_loop_value [of "outbox_backoff_min cfg" "outbox_backoff_max cfg"] outbox_backoff_pos [of cfg] assms
  by (simp add: next_backoff_def backoff_ok_def Let_def)

lemma poll_in_flight:
  assumes "in_flight n now d" "backoff_ok cfg"
  shows "settled (poll_row cfg attempt now d) \<or>
    (Suc n < 8 \<and> in_flight (Suc n) (now + sint (outbox_backoff_max cfg)) (poll_row cfg attempt now d))"
proof -
  have due: "delivery_due now (md_row d)" using assms(1) by (auto simp: in_flight_def delivery_due_def)
  show ?thesis
  proof (cases "da_success (attempt (md_row d))")
    case True
    then show ?thesis using due by (simp add: poll_row_def mark_delivery_def Let_def settled_def)
  next
    case False
    then show ?thesis
      using due assms next_backoff_cap [OF assms(2), of "md_attempt d + 1"]
      by (auto simp: poll_row_def mark_delivery_def Let_def settled_def in_flight_def max_delivery_attempts_def)
  qed
qed

text \<open>Polls at least the largest backoff apart.\<close>

fun spaced :: "int \<Rightarrow> go_time \<Rightarrow> go_time list \<Rightarrow> bool" where
  "spaced gap t [] = True"
| "spaced gap t (n # ns) = (t \<le> n \<and> spaced gap (n + gap) ns)"

fun poll_rows :: "outbox_config \<Rightarrow> (go_time \<times> (webhook_delivery \<Rightarrow> delivery_attempt)) list \<Rightarrow> mem_delivery \<Rightarrow> mem_delivery" where
  "poll_rows cfg [] d = d"
| "poll_rows cfg ((now, attempt) # ps) d = poll_rows cfg ps (poll_row cfg attempt now d)"

lemma settled_poll_rows: "settled d \<Longrightarrow> poll_rows cfg ps d = d"
  by (induction ps arbitrary: d) (auto simp: settled_poll)

lemma in_flight_mono: "in_flight n t d \<Longrightarrow> t \<le> t' \<Longrightarrow> in_flight n t' d"
  by (auto simp: in_flight_def)

lemma poll_rows_settle:
  "in_flight n t d \<Longrightarrow> backoff_ok cfg \<Longrightarrow> spaced (sint (outbox_backoff_max cfg)) t (map fst ps) \<Longrightarrow>
     n < 8 \<Longrightarrow> 8 \<le> n + length ps \<Longrightarrow> settled (poll_rows cfg ps d)"
proof (induction ps arbitrary: n t d)
  case (Cons p ps)
  obtain now attempt where p: "p = (now, attempt)" by (cases p)
  have now: "t \<le> now" "spaced (sint (outbox_backoff_max cfg)) (now + sint (outbox_backoff_max cfg)) (map fst ps)"
    using Cons.prems(3) by (simp_all add: p)
  from poll_in_flight [OF in_flight_mono [OF Cons.prems(1) now(1)] Cons.prems(2), of attempt]
  show ?case
  proof
    assume "settled (poll_row cfg attempt now d)"
    then show ?thesis by (simp add: p settled_poll_rows)
  next
    assume "Suc n < 8 \<and> in_flight (Suc n) (now + sint (outbox_backoff_max cfg)) (poll_row cfg attempt now d)"
    then show ?thesis using Cons.IH [OF _ Cons.prems(2) now(2), of "Suc n"] Cons.prems(5) by (simp add: p)
  qed
qed simp

fun polls :: "outbox_config \<Rightarrow> (go_time \<times> (webhook_delivery \<Rightarrow> delivery_attempt)) list \<Rightarrow> mem_store \<Rightarrow> mem_store" where
  "polls cfg [] s = s"
| "polls cfg ((now, attempt) # ps) s = polls cfg ps (snd (snd (run_once cfg attempt now s)))"

lemma polls_rows:
  "deliveries_ok s \<Longrightarrow> deliveries_ok (polls cfg ps s)
     \<and> gm_get (ms_deliveries (polls cfg ps s)) k = map_option (poll_rows cfg ps) (gm_get (ms_deliveries s) k)"
proof (induction ps arbitrary: s)
  case Nil
  then show ?case by (cases "gm_get (ms_deliveries s) k") auto
next
  case (Cons p ps)
  then show ?case
    by (cases p; cases "gm_get (ms_deliveries s) k") (simp_all add: run_once_effect)
qed

section \<open>The backlog of invite requests\<close>

definition invites_ok :: "mem_store \<Rightarrow> bool" where
  "invites_ok s \<longleftrightarrow> gm_wf (ms_invites s) \<and> numbered ''inv_'' (ms_next_id s) (ms_invites s) \<and> 0 \<le> ms_next_id s"

text \<open>A stored request is a new row at the end; otherwise nothing changes.\<close>

lemma create_invite_cases:
  assumes "invites_ok s"
  obtains "fst (create_invite_request now kind name email msg s) = Inr None"
      "snd (create_invite_request now kind name email msg s) = s"
      "list_ex (\<lambda>r. iv_kind r = kind \<and> invite_live r \<and> go_equal_fold (iv_email r) email) (gm_vals (ms_invites s))"
    | r where "fst (create_invite_request now kind name email msg s) = Inr (Some r)" "invite_live r"
      "ms_invites (snd (create_invite_request now kind name email msg s)) = ms_invites s @ [(iv_id r, r)]"
      "iv_kind r = kind" "iv_email r = email"
      "\<not> list_ex (\<lambda>r. iv_kind r = kind \<and> invite_live r \<and> go_equal_fold (iv_email r) email) (gm_vals (ms_invites s))"
proof (cases "list_ex (\<lambda>r. iv_kind r = kind \<and> invite_live r \<and> go_equal_fold (iv_email r) email) (gm_vals (ms_invites s))")
  case True
  then show thesis by (intro that(1)) (simp_all add: create_invite_request_def)
next
  case False
  then show thesis
    using numbered_fresh [of "''inv_''" "ms_next_id s" "ms_invites s"] assms
    by (intro that(2)) (auto simp: create_invite_request_def Let_def gm_put_fresh invites_ok_def, simp add: invite_live_def)
qed

lemma create_invite_ok: "invites_ok s \<Longrightarrow> invites_ok (snd (create_invite_request now kind name email msg s))"
  using numbered_next [of "''inv_''" "ms_next_id s" "ms_invites s"]
  by (simp add: create_invite_request_def Let_def invites_ok_def)

text \<open>One live request per kind and address, letter case aside.\<close>

definition invite_address :: "invite_request \<Rightarrow> string \<times> string" where
  "invite_address r = (iv_kind r, map to_lower_char (iv_email r))"

definition unique_live :: "mem_store \<Rightarrow> bool" where
  "unique_live s \<longleftrightarrow> distinct (map invite_address (filter invite_live (gm_vals (ms_invites s))))"

definition backlog_ok :: "mem_store \<Rightarrow> bool" where
  "backlog_ok s \<longleftrightarrow> invites_ok s \<and> unique_live s \<and> count_live_invite_requests s \<le> invite_backlog_cap"

lemma create_invite_backlog:
  assumes "backlog_ok s" "count_live_invite_requests s < invite_backlog_cap"
  shows "backlog_ok (snd (create_invite_request now kind name email msg s))"
  using assms(1) [unfolded backlog_ok_def, THEN conjunct1]
proof (cases rule: create_invite_cases [where now = now and kind = kind and name = name and email = email and msg = msg])
  case 1
  then show ?thesis using assms(1) by simp
next
  case (2 r)
  have ok: "invites_ok (snd (create_invite_request now kind name email msg s))"
    using assms(1) by (simp add: backlog_ok_def create_invite_ok)
  have "invite_address r \<notin> set (map invite_address (filter invite_live (gm_vals (ms_invites s))))"
    using 2(4-6) by (auto simp: list_ex_iff invite_address_def go_equal_fold_def)
  then have "unique_live (snd (create_invite_request now kind name email msg s))"
    using assms(1) 2(2,3) by (simp add: unique_live_def backlog_ok_def gm_vals_def)
  moreover have "count_live_invite_requests (snd (create_invite_request now kind name email msg s)) = count_live_invite_requests s + 1"
    using 2(2,3) by (simp add: count_live_invite_requests_def gm_vals_def)
  ultimately show ?thesis using ok assms(2) by (simp add: backlog_ok_def)
qed

section \<open>Properties\<close>

text \<open>C38. Whatever the outcomes of its attempts, a delivery under way is settled, delivered or
  dead-lettered, after the polls its remaining attempts allow, eight in all, once the polls are
  at least the largest backoff apart; a settled delivery is never due again.\<close>

theorem deliveries_settle:
  assumes "deliveries_ok s" "backoff_ok cfg" "gm_get (ms_deliveries s) k = Some d" "in_flight n t d" "n < 8"
    "spaced (sint (outbox_backoff_max cfg)) t (map fst ps)" "8 \<le> n + length ps"
  shows "map_option settled (gm_get (ms_deliveries (polls cfg ps s)) k) = Some True
    \<and> map_option (\<lambda>d. delivery_due now (md_row d)) (gm_get (ms_deliveries (polls cfg ps s)) k) = Some False"
proof -
  have "settled (poll_rows cfg ps d)" using poll_rows_settle assms(2,4-7) by blast
  moreover from this have "\<not> delivery_due now (md_row (poll_rows cfg ps d))"
    by (auto simp: settled_def delivery_due_def delivery_states)
  ultimately show ?thesis using polls_rows [OF assms(1), of cfg ps k] assms(3) by simp
qed

definition demo_outbox :: outbox_config where
  "demo_outbox = \<lparr>ob_backoff_min = 0, ob_backoff_max = 0\<rparr>"

definition demo_poll :: "int \<Rightarrow> go_time \<times> (webhook_delivery \<Rightarrow> delivery_attempt)" where
  "demo_poll i = (i * 60000000000, \<lambda>_. deliver (HttpStatus 503))"

theorem deliveries_settle_witness:
  "map_option settled (gm_get (ms_deliveries (polls demo_outbox (map demo_poll [1, 2, 3, 4, 5, 6, 7, 8])
     (snd (enqueue_webhook ''change.landed'' ''{}'' new_mem_store)))) ''dlv_1'') = Some True"
proof -
  let ?s = "snd (enqueue_webhook ''change.landed'' ''{}'' new_mem_store)"
  define d where "d = \<lparr>md_row = \<lparr>wd_id = ''dlv_1'', wd_event = ''change.landed'', wd_payload = ''{}'', wd_status = st_pending,
     wd_attempt = 0, wd_next = 0, wd_last_error = []\<rparr>, md_attempt = 0\<rparr>"
  have "show_int 1 = ''1''" by code_simp
  then have d: "gm_get (ms_deliveries ?s) ''dlv_1'' = Some d" "in_flight 0 0 d"
    by (simp_all add: enqueue_webhook_def new_mem_store_def Let_def in_flight_def d_def)
  have "deliveries_ok ?s"
    by (simp add: enqueue_webhook_def new_mem_store_def Let_def deliveries_ok_def gm_put_def gm_empty_def gm_wf_def)
  moreover have "backoff_ok demo_outbox"
    by (simp add: backoff_ok_def demo_outbox_def outbox_backoff_min_def outbox_backoff_max_def)
  ultimately show ?thesis
    using deliveries_settle [of ?s demo_outbox "''dlv_1''" d 0 0 "map demo_poll [1, 2, 3, 4, 5, 6, 7, 8]" 0] d
    by (simp add: demo_poll_def demo_outbox_def outbox_backoff_max_def)
qed

text \<open>The public intake never lets the backlog of live requests grow past its cap, and keeps at
  most one live request per kind and address: a call stores a new request only when it passes
  every check, and leaves the stored requests alone otherwise.\<close>

theorem intake_bounds_backlog:
  assumes "backlog_ok (in_store st)"
  shows "backlog_ok (in_store (snd (invite_request_core parse now kind req ip st)))"
proof -
  note split_core = invite_request_core_def Let_def
  have keep: "backlog_ok (in_store (snd (case create_invite_request now kind name email msg s of
        (Inl e, s') \<Rightarrow> (Inl internal_err, st1\<lparr>in_store := s'\<rparr>)
      | (Inr r, s') \<Rightarrow> (Inr (), st1\<lparr>in_store := s'\<rparr>))))"
    if "backlog_ok s" "count_live_invite_requests s < invite_backlog_cap" for name email msg and s :: mem_store and st1 :: intake
    using create_invite_backlog [OF that, of now kind name email msg]
    by (auto split: prod.splits sum.splits)
  show ?thesis
    using assms by (auto simp: split_core keep split: prod.splits)
qed

theorem intake_bounds_backlog_witness:
  "backlog_ok (in_store (snd (invite_request_core Some 7 kind_invite
     \<lparr>ib_name = ''Ada'', ib_email = ''ada@example.com'', ib_message = [], ib_website = []\<rparr> ''10.0.0.1''
     \<lparr>in_allow = True, in_hits = gm_empty, in_store = new_mem_store\<rparr>)))"
  by (rule intake_bounds_backlog)
    (simp add: backlog_ok_def invites_ok_def unique_live_def new_mem_store_def count_live_invite_requests_def
      gm_vals_def invite_backlog_cap_def, simp add: gm_empty_def)

end
