(* ===== verification/DirectoryStore.thy ===== *)
theory DirectoryStore
  imports StoreTypes
begin

text \<open>
  The directory half of \<open>MemStore\<close> (\<open>runkod/store.go\<close>): the org registry, memberships, archived
  flags, org settings and the stored agent policies.
\<close>

definition zero_org_settings :: org_settings where
  "zero_org_settings = \<lparr>os_description = [], os_mirror_repo = [], os_global_checks = [], os_revalidation = [],
     os_public_read = False, os_require_resolved = False, os_enforce_tags = False, os_disable_auto_approve = False\<rparr>"

definition ensure_org :: "string \<Rightarrow> mem_store \<Rightarrow> unit store_result" where
  "ensure_org name s =
     (case gm_get (ms_org_members s) name of
        Some _ \<Rightarrow> (Inr (), s)
      | None \<Rightarrow> (Inr (), s\<lparr>ms_org_members := gm_put (ms_org_members s) name gm_empty,
                             ms_org_names := ms_org_names s @ [name]\<rparr>))"

definition org_member_role :: "mem_store \<Rightarrow> string \<Rightarrow> string \<Rightarrow> string option" where
  "org_member_role s org who = sub_get (ms_org_members s) org who"

definition upsert_org_member :: "string \<Rightarrow> string \<Rightarrow> string \<Rightarrow> mem_store \<Rightarrow> unit store_result" where
  "upsert_org_member org who role s =
     (case gm_get (ms_org_members s) org of
        None \<Rightarrow> (Inl (NoOrgNamed org), s)
      | Some members \<Rightarrow> (Inr (), s\<lparr>ms_org_members := gm_put (ms_org_members s) org (gm_put members who role)\<rparr>))"

definition list_org_memberships :: "mem_store \<Rightarrow> string \<Rightarrow> org_membership list" where
  "list_org_memberships s who =
     concat (map (\<lambda>org. if gm_true (ms_org_archived s) org then []
                        else case org_member_role s org who of
                               None \<Rightarrow> [] | Some role \<Rightarrow> [\<lparr>om_org = org, om_role = role\<rparr>]) (ms_org_names s))"

definition list_org_names :: "mem_store \<Rightarrow> string list" where
  "list_org_names s = ms_org_names s"

definition list_org_records :: "mem_store \<Rightarrow> org_record list" where
  "list_org_records s = map (\<lambda>n. \<lparr>orr_name = n, orr_archived = gm_true (ms_org_archived s) n\<rparr>) (ms_org_names s)"

definition set_org_archived :: "string \<Rightarrow> bool \<Rightarrow> mem_store \<Rightarrow> unit store_result" where
  "set_org_archived org archived s = (Inr (), s\<lparr>ms_org_archived := gm_put (ms_org_archived s) org archived\<rparr>)"

text \<open>Deleting from the members of an unknown org deletes from a nil map: no effect.\<close>

definition remove_org_member :: "string \<Rightarrow> string \<Rightarrow> mem_store \<Rightarrow> unit store_result" where
  "remove_org_member org who s =
     (case gm_get (ms_org_members s) org of
        None \<Rightarrow> (Inr (), s)
      | Some members \<Rightarrow> (Inr (), s\<lparr>ms_org_members := gm_put (ms_org_members s) org (gm_del members who)\<rparr>))"

definition list_org_members :: "mem_store \<Rightarrow> string \<Rightarrow> org_member list" where
  "list_org_members s org =
     sort_key omb_name (map (\<lambda>(n, r). \<lparr>omb_name = n, omb_role = r\<rparr>) (gm_sub (ms_org_members s) org))"

definition get_org_settings :: "mem_store \<Rightarrow> string \<Rightarrow> org_settings" where
  "get_org_settings s org = (case gm_get (ms_org_settings s) org of None \<Rightarrow> zero_org_settings | Some st \<Rightarrow> st)"

definition update_org_settings :: "string \<Rightarrow> org_settings \<Rightarrow> mem_store \<Rightarrow> unit store_result" where
  "update_org_settings org settings s = (Inr (), s\<lparr>ms_org_settings := gm_put (ms_org_settings s) org settings\<rparr>)"

definition get_agent_policy :: "mem_store \<Rightarrow> string \<Rightarrow> string \<Rightarrow> agent_policy option" where
  "get_agent_policy s org name = gm_get (ms_agent_policies s) (nul_key org name)"

definition set_agent_policy :: "string \<Rightarrow> string \<Rightarrow> agent_policy \<Rightarrow> mem_store \<Rightarrow> unit store_result" where
  "set_agent_policy org name p s =
     (Inr (), s\<lparr>ms_agent_policies := gm_put (ms_agent_policies s) (nul_key org name) p\<rparr>)"

definition delete_agent_policy :: "string \<Rightarrow> string \<Rightarrow> mem_store \<Rightarrow> unit store_result" where
  "delete_agent_policy org name s =
     (Inr (), s\<lparr>ms_agent_policies := gm_del (ms_agent_policies s) (nul_key org name)\<rparr>)"

section \<open>The registry agrees with the membership map\<close>

definition orgs_ok :: "mem_store \<Rightarrow> bool" where
  "orgs_ok s \<longleftrightarrow> distinct (ms_org_names s) \<and> set (ms_org_names s) = set (gm_keys (ms_org_members s)) \<and> sub_wf (ms_org_members s)"

lemma ensure_org_ok: "orgs_ok s \<Longrightarrow> orgs_ok (snd (ensure_org name s))"
  using gm_keys_iff [of name "ms_org_members s"]
  by (auto simp: ensure_org_def orgs_ok_def sub_wf_put split: option.splits)

lemma gm_get_wf: "sub_wf m \<Longrightarrow> gm_get m k = Some v \<Longrightarrow> gm_wf v"
  using sub_wf_sub [of m k] by (simp add: gm_sub_def)

lemma upsert_org_member_ok: "orgs_ok s \<Longrightarrow> orgs_ok (snd (upsert_org_member org p r s))"
  using gm_keys_iff [of org "ms_org_members s"]
  by (auto simp: upsert_org_member_def orgs_ok_def sub_wf_put gm_get_wf split: option.splits)

lemma remove_org_member_ok: "orgs_ok s \<Longrightarrow> orgs_ok (snd (remove_org_member org p s))"
  using gm_keys_iff [of org "ms_org_members s"]
  by (auto simp: remove_org_member_def orgs_ok_def sub_wf_put gm_get_wf split: option.splits)

lemma memberships_of:
  "orgs_ok s \<Longrightarrow> set (list_org_memberships s p) =
     {m. org_member_role s (om_org m) p = Some (om_role m) \<and> \<not> gm_true (ms_org_archived s) (om_org m) \<and> om_org m \<in> set (list_org_names s)}"
  by (force simp: list_org_memberships_def list_org_names_def orgs_ok_def split: option.splits if_splits)

end
