(* ===== verification/StoreMachine.thy ===== *)
theory StoreMachine
  imports ChangeStore DeployStore ActivityStore Outbox DirectoryStore
begin

text \<open>
  The store as a state machine: every operation of \<open>MemStore\<close> that changes state is a
  constructor, \<open>apply_op\<close> runs it, \<open>store_step\<close> is the step relation and \<open>store_reachable\<close> the
  states the daemon can be in. The invariant of the store is a conjunction of one condition per
  map, proved preserved by each operation; the life cycle of a Change is a refinement of a small
  automaton.
\<close>

section \<open>Operations\<close>

datatype store_op =
  OpUpsertMirror string string string
| OpFreezeMirror string string
| OpPush string push_fields
| OpAutomerge string bool string
| OpDescribe string string string
| OpAbandon string
| OpLand string string string bool
| OpApprove string string string string
| OpComment string comment
| OpResolve string string bool
| OpRequestReview string string string
| OpRelease release
| OpUpsertRun string string check_run_view
| OpCopyRuns string string string
| OpRerun string string
| OpOpenDeploy string string string "string list"
| OpPruneDeploys go_time
| OpDeployImage string deploy_image_row
| OpCreateWorkspace workspace
| OpWorkspaceBase string string
| OpWorkspaceStatus string string
| OpDeleteWorkspace string
| OpEvent workspace_event
| OpDeleteEvents string
| OpActivity "workspace_activity list"
| OpDeleteActivity string
| OpCreatePrincipal string string string string
| OpMintAgent agent_principal
| OpRevokeAgent string
| OpEnqueue string string
| OpDeliveryResult string delivery_attempt duration duration
| OpInvite string string string string
| OpInviteResult string string duration duration
| OpEnsureOrg string
| OpOrgMember string string string
| OpArchiveOrg string bool
| OpRemoveMember string string
| OpOrgSettings string org_settings
| OpSetPolicy string string agent_policy
| OpDeletePolicy string string

definition done_with :: "'a store_result \<Rightarrow> store_error option \<times> mem_store" where
  "done_with r = (case r of (Inl e, s) \<Rightarrow> (Some e, s) | (Inr _, s) \<Rightarrow> (None, s))"

lemma done_with_simps [simp]: "snd (done_with r) = snd r" "fst (done_with (Inl e, s)) = Some e" "fst (done_with (Inr x, s)) = None"
  by (cases r; cases "fst r"; auto simp: done_with_def)+

fun apply_op :: "go_time \<Rightarrow> store_op \<Rightarrow> mem_store \<Rightarrow> store_error option \<times> mem_store" where
  "apply_op now (OpUpsertMirror remote ref sha) s = done_with (upsert_mirror_cursor now remote ref sha s)"
| "apply_op now (OpFreezeMirror remote ref) s = done_with (freeze_mirror_cursor now remote ref s)"
| "apply_op now (OpPush key p) s = done_with (create_or_update_change key p s)"
| "apply_op now (OpAutomerge key on who) s = done_with (set_change_automerge key on who s)"
| "apply_op now (OpDescribe key d t) s = done_with (update_change_description key d t s)"
| "apply_op now (OpAbandon key) s = done_with (mark_change_abandoned key s)"
| "apply_op now (OpLand key sha who forced) s = done_with (mark_change_landed now key sha who forced s)"
| "apply_op now (OpApprove key owner who head) s = done_with (record_approval key owner who head s)"
| "apply_op now (OpComment key c) s = done_with (create_comment now key c s)"
| "apply_op now (OpResolve key cid r) s = done_with (set_comment_resolved key cid r s)"
| "apply_op now (OpRequestReview key reviewer who) s = done_with (upsert_review_request now key reviewer who s)"
| "apply_op now (OpRelease r) s = done_with (create_release now r s)"
| "apply_op now (OpUpsertRun key head run) s = done_with (upsert_check_run now key head run s)"
| "apply_op now (OpCopyRuns key old new) s = done_with (copy_passing_check_runs key old new s)"
| "apply_op now (OpRerun key name) s = done_with (rerun_check_mem now key name s)"
| "apply_op now (OpOpenDeploy sha key prov exp) s = done_with (open_deploy_record now sha key prov exp s)"
| "apply_op now (OpPruneDeploys t) s = done_with (prune_stale_pending_deploy_records t s)"
| "apply_op now (OpDeployImage sha img) s = done_with (record_deploy_image sha img s)"
| "apply_op now (OpCreateWorkspace ws) s = done_with (create_workspace now ws s)"
| "apply_op now (OpWorkspaceBase wid base) s = done_with (update_workspace_base wid base s)"
| "apply_op now (OpWorkspaceStatus wid st) s = done_with (set_workspace_status wid st s)"
| "apply_op now (OpDeleteWorkspace wid) s = done_with (delete_workspace wid s)"
| "apply_op now (OpEvent e) s = done_with (record_workspace_event now e s)"
| "apply_op now (OpDeleteEvents w) s = done_with (delete_workspace_events w s)"
| "apply_op now (OpActivity es) s = done_with (record_workspace_activity now es s)"
| "apply_op now (OpDeleteActivity w) s = done_with (delete_workspace_activity w s)"
| "apply_op now (OpCreatePrincipal org name cred email) s = done_with (create_principal org name cred email s)"
| "apply_op now (OpMintAgent ap) s = done_with (mint_agent_principal ap s)"
| "apply_op now (OpRevokeAgent name) s = done_with (revoke_agent_principal name s)"
| "apply_op now (OpEnqueue ev payload) s = done_with (enqueue_webhook ev payload s)"
| "apply_op now (OpDeliveryResult did r b m) s = done_with (record_delivery_mem did r b m now s)"
| "apply_op now (OpInvite kind name email msg) s = done_with (create_invite_request now kind name email msg s)"
| "apply_op now (OpInviteResult rid err b m) s = done_with (record_invite_send_result rid err b m now s)"
| "apply_op now (OpEnsureOrg org) s = done_with (ensure_org org s)"
| "apply_op now (OpOrgMember org who role) s = done_with (upsert_org_member org who role s)"
| "apply_op now (OpArchiveOrg org a) s = done_with (set_org_archived org a s)"
| "apply_op now (OpRemoveMember org who) s = done_with (remove_org_member org who s)"
| "apply_op now (OpOrgSettings org st) s = done_with (update_org_settings org st s)"
| "apply_op now (OpSetPolicy org name p) s = done_with (set_agent_policy org name p s)"
| "apply_op now (OpDeletePolicy org name) s = done_with (delete_agent_policy org name s)"

inductive store_step :: "mem_store \<Rightarrow> store_op \<Rightarrow> mem_store \<Rightarrow> bool" where
  step: "apply_op now op s = (e, s') \<Longrightarrow> store_step s op s'"

inductive store_run :: "mem_store \<Rightarrow> store_op list \<Rightarrow> mem_store \<Rightarrow> bool" where
  run_nil: "store_run s [] s"
| run_snoc: "store_run s ops s' \<Longrightarrow> store_step s' op s'' \<Longrightarrow> store_run s (ops @ [op]) s''"

definition store_reachable :: "mem_store \<Rightarrow> bool" where
  "store_reachable s \<longleftrightarrow> (\<exists>ops. store_run new_mem_store ops s)"

inductive_cases store_stepE: "store_step s op s'"

section \<open>The life cycle of a Change\<close>

definition change_state :: "mem_store \<Rightarrow> string \<Rightarrow> string option" where
  "change_state s key = map_option ch_state (get_change s key)"

text \<open>The automaton: what an operation makes of the state of the Change \<open>key\<close>.\<close>

fun life_cycle :: "string \<Rightarrow> store_op \<Rightarrow> string option \<Rightarrow> string option" where
  "life_cycle key (OpPush k p) st =
     (if k \<noteq> key then st else case st of None \<Rightarrow> Some state_open
        | Some x \<Rightarrow> Some (if x = state_abandoned then state_open else x))"
| "life_cycle key (OpAbandon k) st =
     (if k \<noteq> key then st else map_option (\<lambda>x. if x = state_landed then x else state_abandoned) st)"
| "life_cycle key (OpLand k sha who forced) st = (if k \<noteq> key then st else map_option (\<lambda>_. state_landed) st)"
| "life_cycle key _ st = st"

lemma amend_state: "ch_state (amend_change p c) = (if ch_state c = state_abandoned then state_open else ch_state c)"
  by (simp add: amend_change_def Let_def)

lemma get_put_change [simp]: "get_change (put_change c k s) k' = (if k' = k then Some c else get_change s k')"
  by (simp add: get_change_def put_change_def)

lemma modify_change_get:
  "get_change (snd (modify_change k f s)) k' =
     (if k' = k then (case get_change s k of None \<Rightarrow> None | Some c \<Rightarrow> Some (case f c of Inl e \<Rightarrow> c | Inr c' \<Rightarrow> c'))
      else get_change s k')"
  by (auto simp: modify_change_def split: option.splits sum.splits)

lemmas change_ops = set_change_automerge_def update_change_description_def mark_change_abandoned_def mark_change_landed_def

text \<open>The operations on other maps do not touch the Changes.\<close>

lemma record_activities_frame [simp]:
  "ms_changes (snd (record_activities now es s)) = ms_changes s"
  by (induction es arbitrary: s) (auto simp: Let_def split_beta put_activity_def)

lemmas other_ops = upsert_mirror_cursor_def freeze_mirror_cursor_def record_approval_def create_comment_def
  set_comment_resolved_def upsert_review_request_def create_release_def upsert_check_run_def copy_passing_check_runs_def
  rerun_check_mem_def open_deploy_record_def prune_stale_pending_deploy_records_def record_deploy_image_def
  create_workspace_def update_workspace_base_def set_workspace_status_def modify_workspace_def delete_workspace_def
  record_workspace_event_def put_event_def delete_workspace_events_def record_workspace_activity_def
  delete_workspace_activity_def create_principal_def mint_agent_principal_def revoke_agent_principal_def
  enqueue_webhook_def record_delivery_mem_def create_invite_request_def record_invite_send_result_def
  ensure_org_def upsert_org_member_def set_org_archived_def remove_org_member_def update_org_settings_def
  set_agent_policy_def delete_agent_policy_def

definition touches_change :: "store_op \<Rightarrow> string option" where
  "touches_change op = (case op of OpPush k _ \<Rightarrow> Some k | OpAutomerge k _ _ \<Rightarrow> Some k | OpDescribe k _ _ \<Rightarrow> Some k
     | OpAbandon k \<Rightarrow> Some k | OpLand k _ _ _ \<Rightarrow> Some k | _ \<Rightarrow> None)"

lemma other_ops_frame: "touches_change op = None \<Longrightarrow> ms_changes (snd (apply_op now op s)) = ms_changes s"
  by (cases op) (auto simp: touches_change_def other_ops Let_def split_beta split: option.splits sum.splits)

lemma untouched_get:
  "touches_change op \<noteq> Some k \<Longrightarrow> get_change (snd (apply_op now op s)) k = get_change s k"
  by (cases "touches_change op")
    (simp add: get_change_def other_ops_frame,
     cases op, auto simp: touches_change_def create_or_update_change_def Let_def change_ops modify_change_get)

lemma life_cycle_untouched: "touches_change op = None \<Longrightarrow> life_cycle key op st = st"
  by (cases op) (auto simp: touches_change_def)

lemma apply_op_state: "change_state (snd (apply_op now op s)) key = life_cycle key op (change_state s key)"
proof (cases "touches_change op")
  case None
  then show ?thesis by (simp add: change_state_def get_change_def other_ops_frame life_cycle_untouched)
next
  case (Some k)
  then show ?thesis
    by (cases op) (auto simp: touches_change_def change_state_def create_or_update_change_def Let_def change_ops
        modify_change_get amend_state new_change_def split: option.splits)
qed

lemma run_state: "store_run s ops s' \<Longrightarrow> change_state s' key = fold (life_cycle key) ops (change_state s key)"
proof (induction rule: store_run.induct)
  case (run_snoc s ops s' op s'')
  then obtain now e where "apply_op now op s' = (e, s'')" by (auto elim: store_stepE)
  then show ?case using run_snoc.IH apply_op_state [of now op s' key] by simp
qed simp

lemma life_cycle_landed: "life_cycle key op (Some state_landed) = Some state_landed"
  by (cases op) auto

end
