(* ===== verification/StoreInvariant.thy ===== *)
theory StoreInvariant
  imports StoreMachine
begin

text \<open>
  The type invariant of the store: one condition per map, closed under every operation, hence
  true in every reachable state. It carries the facts the rest of the development asks of the
  store: rows sit under their own key, states and statuses stay in their vocabulary, a Change
  that is not landed has no landing record, feeds are capped and ordered, minted ids are fresh.
\<close>

section \<open>Conditions on the rows\<close>

definition change_ok :: "string \<Rightarrow> change \<Rightarrow> bool" where
  "change_ok k c \<longleftrightarrow> ch_key c = k \<and> ch_state c \<in> {state_open, state_landed, state_abandoned}
     \<and> (ch_state c = state_landed \<or> ch_landed_sha c = [] \<and> ch_landed_by c = [] \<and> \<not> ch_landed_forced c \<and> ch_landed_at c = 0)
     \<and> (ch_automerge c \<or> ch_automerge_by c = [])"

definition comments_ok :: "int \<Rightarrow> string \<Rightarrow> comment list \<Rightarrow> bool" where
  "comments_ok n k cs \<longleftrightarrow> list_all (\<lambda>c. minted ''cmt_'' n (cm_id c)) cs \<and> distinct (map cm_id cs)"

definition releases_ok :: "string \<Rightarrow> release list \<Rightarrow> bool" where
  "releases_ok k rs \<longleftrightarrow> list_all (\<lambda>r. rl_project r = k) rs \<and> distinct (map rl_version rs)"

definition feed_ok :: "('e \<Rightarrow> int) \<Rightarrow> ('e \<Rightarrow> string) \<Rightarrow> nat \<Rightarrow> int \<Rightarrow> string \<Rightarrow> 'e list \<Rightarrow> bool" where
  "feed_ok eid owner cap seq w es \<longleftrightarrow> length es \<le> cap \<and> sorted_wrt (\<lambda>a b. eid a < eid b) es
     \<and> list_all (\<lambda>e. owner e = w \<and> 0 < eid e \<and> eid e \<le> seq) es"

definition delivery_ok :: "string \<Rightarrow> mem_delivery \<Rightarrow> bool" where
  "delivery_ok k d \<longleftrightarrow> wd_id (md_row d) = k \<and> wd_status (md_row d) \<in> {st_pending, st_delivered, st_failed, st_dead_letter}
     \<and> 0 \<le> md_attempt d"

definition invite_ok :: "string \<Rightarrow> invite_request \<Rightarrow> bool" where
  "invite_ok k r \<longleftrightarrow> iv_id r = k \<and> iv_status r \<in> {st_pending, st_sent, st_failed, st_dead_letter} \<and> 0 \<le> iv_attempt r"

definition store_ok :: "mem_store \<Rightarrow> bool" where
  "store_ok s \<longleftrightarrow>
     gm_all change_ok (ms_changes s)
   \<and> sub_all (\<lambda>k r. cv_name r = k) (ms_check_runs s)
   \<and> sub_all (\<lambda>k a. av_owner a = k) (ms_approvals s)
   \<and> gm_all (comments_ok (ms_next_id s)) (ms_comments s)
   \<and> sub_all (\<lambda>k r. rq_reviewer r = k) (ms_review_reqs s)
   \<and> gm_all releases_ok (ms_releases s)
   \<and> gm_all (\<lambda>_. deploy_ok) (ms_deploys s)
   \<and> gm_all (\<lambda>k w. ws_id w = k) (ms_workspaces s)
   \<and> gm_all (feed_ok we_id we_workspace workspace_event_cap (ms_ws_event_seq s)) (ms_ws_events s) \<and> 0 \<le> ms_ws_event_seq s
   \<and> gm_all (feed_ok wa_id wa_workspace workspace_activity_cap (ms_ws_activity_seq s)) (ms_ws_activity s) \<and> 0 \<le> ms_ws_activity_seq s
   \<and> gm_all (\<lambda>k a. ag_name a = k) (ms_agents s)
   \<and> gm_all (\<lambda>k p. nul_key (sp_org p) (sp_name p) = k) (ms_principals s)
   \<and> gm_all delivery_ok (ms_deliveries s) \<and> numbered ''dlv_'' (ms_next_id s) (ms_deliveries s)
   \<and> gm_all invite_ok (ms_invites s) \<and> numbered ''inv_'' (ms_next_id s) (ms_invites s) \<and> 0 \<le> ms_next_id s
   \<and> gm_wf (ms_mirrors s) \<and> orgs_ok s"

lemma orgs_ok_cong:
  "ms_org_names s = ms_org_names t \<Longrightarrow> ms_org_members s = ms_org_members t \<Longrightarrow> orgs_ok s \<longleftrightarrow> orgs_ok t"
  by (simp add: orgs_ok_def)

lemma store_ok_new: "store_ok new_mem_store"
  by (simp add: store_ok_def new_mem_store_def orgs_ok_def)

section \<open>Steps of the conditions\<close>

lemma feed_ok_push:
  assumes "feed_ok eid owner cap seq w es" "eid x = seq + 1" "owner x = w" "0 \<le> seq"
  shows "feed_ok eid owner cap (seq + 1) w (push_capped cap es x)"
proof -
  have sub: "set (push_capped cap es x) \<subseteq> insert x (set es)"
    unfolding push_capped_def Let_def using set_drop_subset [of "length (es @ [x]) - cap" "es @ [x]"] by auto
  have "sorted_wrt (\<lambda>a b. eid a < eid b) (es @ [x])"
    using assms by (auto simp: feed_ok_def sorted_wrt_append list_all_iff)
  then have "sorted_wrt (\<lambda>a b. eid a < eid b) (push_capped cap es x)"
    unfolding push_capped_def Let_def by (rule sorted_wrt_drop)
  moreover have "list_all (\<lambda>e. owner e = w \<and> 0 < eid e \<and> eid e \<le> seq + 1) (push_capped cap es x)"
    using sub assms by (fastforce simp: feed_ok_def list_all_iff)
  ultimately show ?thesis by (simp add: feed_ok_def push_capped_length)
qed

lemma feed_ok_mono: "feed_ok eid owner cap seq w es \<Longrightarrow> feed_ok eid owner cap (seq + 1) w es"
  by (fastforce simp: feed_ok_def list_all_iff)

lemma feeds_ok_put:
  assumes "gm_all (feed_ok eid owner cap seq) m" "eid x = seq + 1" "owner x = w" "0 \<le> seq"
  shows "gm_all (feed_ok eid owner cap (seq + 1)) (gm_put m w (push_capped cap (gm_sub m w) x))"
proof (rule gm_all_put)
  show "gm_all (feed_ok eid owner cap (seq + 1)) m"
    using assms(1) by (rule gm_all_mono) (rule feed_ok_mono)
  have "feed_ok eid owner cap seq w (gm_sub m w)"
    using assms(1) by (rule gm_all_sub) (simp add: feed_ok_def)
  then show "feed_ok eid owner cap (seq + 1) w (push_capped cap (gm_sub m w) x)"
    using assms(2-4) by (rule feed_ok_push)
qed

lemma comments_ok_mono: "comments_ok n k cs \<Longrightarrow> comments_ok (n + 1) k cs"
  by (auto simp: comments_ok_def list_all_iff intro: minted_mono)

lemma comments_ok_snoc:
  "comments_ok n k cs \<Longrightarrow> 0 \<le> n \<Longrightarrow> cm_id c = ''cmt_'' @ show_int (n + 1) \<Longrightarrow> comments_ok (n + 1) k (cs @ [c])"
  using not_minted_next [of "''cmt_''" n] minted_next [of n "''cmt_''"] minted_mono [of "''cmt_''" n _ "n + 1"]
  by (auto simp: comments_ok_def list_all_iff simp del: append.simps)

lemma comments_ok_sub: "gm_all (comments_ok n) m \<Longrightarrow> comments_ok n k (gm_sub m k)"
  by (rule gm_all_sub [where P = "comments_ok n"]) (simp_all add: comments_ok_def)

lemma resolve_first_ids: "resolve_first cid r cs = Some cs' \<Longrightarrow> map cm_id cs' = map cm_id cs"
  by (induction cs arbitrary: cs') (auto split: if_splits option.splits)

lemma comments_ok_resolve: "comments_ok n k cs \<Longrightarrow> resolve_first cid r cs = Some cs' \<Longrightarrow> comments_ok n k cs'"
proof -
  assume ok: "comments_ok n k cs" and r: "resolve_first cid r cs = Some cs'"
  have "list_all (\<lambda>c. minted ''cmt_'' n (cm_id c)) cs' = list_all (minted ''cmt_'' n) (map cm_id cs')"
    by (simp add: list_all_iff)
  then show ?thesis using ok by (simp add: resolve_first_ids [OF r] comments_ok_def list_all_iff)
qed

lemma releases_ok_sub: "gm_all releases_ok m \<Longrightarrow> releases_ok k (gm_sub m k)"
  by (rule gm_all_sub [where P = releases_ok]) (simp_all add: releases_ok_def)

lemma amend_change_ok: "change_ok k c \<Longrightarrow> change_ok k (amend_change p c)"
  by (auto simp: change_ok_def amend_change_def Let_def)

lemma new_change_ok: "change_ok k (new_change k p)"
  by (simp add: change_ok_def new_change_def)

lemma change_ok_get: "gm_all change_ok (ms_changes s) \<Longrightarrow> get_change s k = Some c \<Longrightarrow> change_ok k c"
  unfolding get_change_def by (rule gm_all_get)

lemma modify_change_cases:
  obtains e where "modify_change k f s = (Inl e, s)"
    | c c' where "get_change s k = Some c" "f c = Inr c'" "modify_change k f s = (Inr c', put_change c' k s)"
  by (cases "get_change s k"; cases "f (the (get_change s k))") (auto simp: modify_change_def)

section \<open>Every operation preserves the invariant\<close>

text \<open>A write to one map leaves the other conditions as they were.\<close>

lemma store_ok_frames:
  assumes "store_ok s"
  shows "gm_all change_ok m1 \<Longrightarrow> store_ok (s\<lparr>ms_changes := m1\<rparr>)"
    "sub_all (\<lambda>k r. cv_name r = k) m2 \<Longrightarrow> store_ok (s\<lparr>ms_check_runs := m2\<rparr>)"
    "sub_all (\<lambda>k a. av_owner a = k) m3 \<Longrightarrow> store_ok (s\<lparr>ms_approvals := m3\<rparr>)"
    "gm_all (comments_ok (ms_next_id s)) m4 \<Longrightarrow> store_ok (s\<lparr>ms_comments := m4\<rparr>)"
    "sub_all (\<lambda>k r. rq_reviewer r = k) m5 \<Longrightarrow> store_ok (s\<lparr>ms_review_reqs := m5\<rparr>)"
    "gm_all releases_ok m6 \<Longrightarrow> store_ok (s\<lparr>ms_releases := m6\<rparr>)"
    "gm_all (\<lambda>_. deploy_ok) m7 \<Longrightarrow> store_ok (s\<lparr>ms_deploys := m7\<rparr>)"
    "gm_all (\<lambda>k w. ws_id w = k) m8 \<Longrightarrow> store_ok (s\<lparr>ms_workspaces := m8\<rparr>)"
    "gm_all (\<lambda>k a. ag_name a = k) m9 \<Longrightarrow> store_ok (s\<lparr>ms_agents := m9\<rparr>)"
    "gm_all (\<lambda>k p. nul_key (sp_org p) (sp_name p) = k) m10 \<Longrightarrow> store_ok (s\<lparr>ms_principals := m10\<rparr>)"
    "gm_all delivery_ok m11 \<Longrightarrow> numbered ''dlv_'' (ms_next_id s) m11 \<Longrightarrow> store_ok (s\<lparr>ms_deliveries := m11\<rparr>)"
    "gm_all invite_ok m12 \<Longrightarrow> numbered ''inv_'' (ms_next_id s) m12 \<Longrightarrow> store_ok (s\<lparr>ms_invites := m12\<rparr>)"
    "gm_wf m13 \<Longrightarrow> store_ok (s\<lparr>ms_mirrors := m13\<rparr>)"
    "gm_all (feed_ok we_id we_workspace workspace_event_cap (ms_ws_event_seq s)) m14 \<Longrightarrow> store_ok (s\<lparr>ms_ws_events := m14\<rparr>)"
    "gm_all (feed_ok wa_id wa_workspace workspace_activity_cap (ms_ws_activity_seq s)) m15 \<Longrightarrow> store_ok (s\<lparr>ms_ws_activity := m15\<rparr>)"
    "store_ok (s\<lparr>ms_org_settings := m16\<rparr>)" "store_ok (s\<lparr>ms_agent_policies := m17\<rparr>)" "store_ok (s\<lparr>ms_org_archived := m18\<rparr>)"
  using assms by (simp_all add: store_ok_def orgs_ok_def)

lemma store_ok_next_id: "store_ok s \<Longrightarrow> store_ok (s\<lparr>ms_next_id := ms_next_id s + 1\<rparr>)"
  by (auto simp: store_ok_def orgs_ok_def numbered_mono elim: gm_all_mono comments_ok_mono)

lemma put_change_ok: "store_ok s \<Longrightarrow> change_ok k c \<Longrightarrow> store_ok (put_change c k s)"
  unfolding put_change_def by (intro store_ok_frames(1) gm_all_put) (simp_all add: store_ok_def)

lemma modify_change_ok:
  assumes "store_ok s" "\<And>c c'. change_ok k c \<Longrightarrow> f c = Inr c' \<Longrightarrow> change_ok k c'"
  shows "store_ok (snd (modify_change k f s))"
  using assms change_ok_get [of s k]
  by (cases rule: modify_change_cases [of k f s]) (auto simp: store_ok_def [of s] intro: put_change_ok)

lemma changes_ops_ok:
  assumes "store_ok s"
  shows "store_ok (snd (create_or_update_change k p s))" "store_ok (snd (set_change_automerge k on who s))"
    "store_ok (snd (update_change_description k d t s))" "store_ok (snd (mark_change_abandoned k s))"
    "store_ok (snd (mark_change_landed now k sha who forced s))"
  using assms change_ok_get [of s k]
  by (auto simp: create_or_update_change_def Let_def change_ops store_ok_def [of s] new_change_ok amend_change_ok
      intro!: put_change_ok modify_change_ok split: option.splits if_splits)
    (auto simp: change_ok_def)

lemmas store_ok_parts = store_ok_def [THEN iffD1]

lemma review_ops_ok:
  assumes "store_ok s"
  shows "store_ok (snd (record_approval k owner who head s))" "store_ok (snd (upsert_review_request now k reviewer who s))"
    "store_ok (snd (upsert_check_run now k head run s))" "store_ok (snd (rerun_check_mem now k name s))"
  using assms
  by (auto simp: record_approval_def upsert_review_request_def upsert_check_run_def rerun_check_mem_def Let_def
      queued_run_def intro!: store_ok_frames sub_all_sub_put dest: store_ok_parts split: option.splits)

lemma copy_ok: "store_ok s \<Longrightarrow> store_ok (snd (copy_passing_check_runs k h h' s))"
proof -
  assume ok: "store_ok s"
  have runs: "gm_all (\<lambda>k r. cv_name r = k) (fold (\<lambda>(name, run) m. gm_put m name (run\<lparr>cv_copied_from := h\<rparr>)) xs m)"
    if "gm_all (\<lambda>k r. cv_name r = k) m" "list_all (\<lambda>(k, r). cv_name r = k) xs"
    for xs :: "(string \<times> check_run_view) list" and m
    using that by (induction xs arbitrary: m) (auto simp: gm_all_put)
  have "gm_all (\<lambda>k r. cv_name r = k) (gm_sub (ms_check_runs s) key)" for key
    using ok by (auto simp: store_ok_def intro: sub_all_sub)
  then show ?thesis
    unfolding copy_passing_check_runs_def Let_def snd_conv using ok
    by (intro store_ok_frames(2) sub_all_put runs) (auto simp: store_ok_def gm_all_def list_all_iff)
qed

lemma create_comment_ok: "store_ok s \<Longrightarrow> store_ok (snd (create_comment now k c s))"
proof (cases "get_change s k")
  case (Some ch)
  assume ok: "store_ok s"
  define t where "t = s\<lparr>ms_next_id := ms_next_id s + 1\<rparr>"
  define c' where "c' = c\<lparr>cm_id := ''cmt_'' @ show_int (ms_next_id s + 1), cm_created := now\<rparr>"
  have t: "store_ok t" using ok by (simp add: t_def store_ok_next_id)
  have "comments_ok (ms_next_id s) k (gm_sub (ms_comments s) k)" "0 \<le> ms_next_id s"
    using ok by (auto simp: store_ok_def intro: comments_ok_sub)
  then have "comments_ok (ms_next_id t) k (gm_sub (ms_comments t) k @ [c'])"
    by (simp add: t_def c'_def comments_ok_snoc)
  then have "store_ok (t\<lparr>ms_comments := gm_put (ms_comments t) k (gm_sub (ms_comments t) k @ [c'])\<rparr>)"
    using t by (intro store_ok_frames(4) gm_all_put) (simp_all add: store_ok_def)
  then show ?thesis using Some by (simp add: create_comment_def Let_def t_def c'_def)
qed (simp add: create_comment_def)

lemma conversation_ops_ok:
  assumes "store_ok s"
  shows "store_ok (snd (set_comment_resolved k cid r s))" "store_ok (snd (create_release now rel s))"
proof -
  have "gm_all (comments_ok (ms_next_id s)) (ms_comments s)" using assms by (simp add: store_ok_def)
  then show "store_ok (snd (set_comment_resolved k cid r s))"
    using assms by (auto simp: set_comment_resolved_def intro!: store_ok_frames gm_all_put
        intro: comments_ok_resolve comments_ok_sub split: option.splits)
  have "gm_all releases_ok (ms_releases s)" using assms by (simp add: store_ok_def)
  moreover from releases_ok_sub [OF this, of "rl_project rel"]
  have "\<not> list_ex (\<lambda>e. rl_version e = rl_version rel) (gm_sub (ms_releases s) (rl_project rel)) \<Longrightarrow>
      releases_ok (rl_project rel) (gm_sub (ms_releases s) (rl_project rel) @ [rel\<lparr>rl_created := now\<rparr>])"
    by (auto simp: releases_ok_def list_ex_iff)
  ultimately show "store_ok (snd (create_release now rel s))"
    using assms by (auto simp: create_release_def Let_def intro!: store_ok_frames gm_all_put)
qed

lemma deploy_ops_ok:
  assumes "store_ok s"
  shows "store_ok (snd (open_deploy_record now sha k prov e s))" "store_ok (snd (prune_stale_pending_deploy_records t s))"
    "store_ok (snd (record_deploy_image sha img s))"
proof -
  have d: "gm_all (\<lambda>_. deploy_ok) (ms_deploys s)" using assms by (simp add: store_ok_def)
  show "store_ok (snd (open_deploy_record now sha k prov e s))"
    using assms d by (auto simp: open_deploy_record_def deploy_ok_def gm_empty_def gm_wf_def
        intro!: store_ok_frames gm_all_put split: option.splits)
  show "store_ok (snd (prune_stale_pending_deploy_records t s))"
    using assms d by (auto simp: prune_stale_pending_deploy_records_def intro!: store_ok_frames gm_all_filter)
  show "store_ok (snd (record_deploy_image sha img s))"
    using assms d gm_all_get [OF d] by (auto simp: record_deploy_image_def split_beta
        intro!: store_ok_frames gm_all_put report_image_ok split: option.splits)
qed

lemma workspace_ops_ok:
  assumes "store_ok s"
  shows "store_ok (snd (create_workspace now ws s))" "store_ok (snd (update_workspace_base wid base s))"
    "store_ok (snd (set_workspace_status wid st s))" "store_ok (snd (delete_workspace wid s))"
proof -
  have w: "gm_all (\<lambda>k w. ws_id w = k) (ms_workspaces s)" using assms by (simp add: store_ok_def)
  show "store_ok (snd (create_workspace now ws s))" "store_ok (snd (update_workspace_base wid base s))"
    "store_ok (snd (set_workspace_status wid st s))" "store_ok (snd (delete_workspace wid s))"
    using assms w gm_all_get [OF w]
    by (auto simp: create_workspace_def update_workspace_base_def set_workspace_status_def modify_workspace_def
        delete_workspace_def Let_def intro!: store_ok_frames gm_all_put gm_all_del split: option.splits)
qed

lemma identity_ops_ok:
  assumes "store_ok s"
  shows "store_ok (snd (create_principal org name cred email s))" "store_ok (snd (mint_agent_principal ap s))"
    "store_ok (snd (revoke_agent_principal name s))"
proof -
  have w: "gm_all (\<lambda>k a. ag_name a = k) (ms_agents s)" using assms by (simp add: store_ok_def)
  show "store_ok (snd (create_principal org name cred email s))" "store_ok (snd (mint_agent_principal ap s))"
    "store_ok (snd (revoke_agent_principal name s))"
    using assms w gm_all_get [OF w]
    by (auto simp: create_principal_def mint_agent_principal_def revoke_agent_principal_def store_ok_def [of s]
        intro!: store_ok_frames gm_all_put split: option.splits)
qed

lemma put_event_ok: "store_ok s \<Longrightarrow> store_ok (put_event now s e)"
  using feeds_ok_put [of we_id we_workspace workspace_event_cap "ms_ws_event_seq s" "ms_ws_events s" "stamp_event now s e" "we_workspace e"]
  by (simp add: store_ok_def put_event_def orgs_ok_def stamp_event_def Let_def)

lemma put_activity_ok: "store_ok s \<Longrightarrow> store_ok (put_activity now s e)"
  using feeds_ok_put [of wa_id wa_workspace workspace_activity_cap "ms_ws_activity_seq s" "ms_ws_activity s" "stamp_activity now s e" "wa_workspace e"]
  by (simp add: store_ok_def put_activity_def orgs_ok_def stamp_activity_def Let_def)

lemma feed_ops_ok:
  assumes "store_ok s"
  shows "store_ok (snd (record_workspace_event now e s))" "store_ok (snd (delete_workspace_events w s))"
    "store_ok (snd (record_workspace_activity now es s))" "store_ok (snd (delete_workspace_activity w s))"
proof -
  have "store_ok (foldl (put_activity now) s es)"
    using assms by (induction es arbitrary: s) (auto intro: put_activity_ok)
  then show "store_ok (snd (record_workspace_activity now es s))"
    by (simp add: record_workspace_activity_def record_activities_foldl)
  show "store_ok (snd (record_workspace_event now e s))"
    using assms by (simp add: record_workspace_event_def put_event_ok)
  show "store_ok (snd (delete_workspace_events w s))" "store_ok (snd (delete_workspace_activity w s))"
    using assms by (auto simp: delete_workspace_events_def delete_workspace_activity_def store_ok_def [of s]
        intro!: store_ok_frames gm_all_del)
qed

lemma outbox_ops_ok:
  assumes "store_ok s"
  shows "store_ok (snd (enqueue_webhook ev payload s))" "store_ok (snd (record_delivery_mem did r b m now s))"
    "store_ok (snd (create_invite_request now kind name email msg s))" "store_ok (snd (record_invite_send_result rid err b m now s))"
proof -
  have d: "gm_all delivery_ok (ms_deliveries s)" "numbered ''dlv_'' (ms_next_id s) (ms_deliveries s)"
    "gm_all invite_ok (ms_invites s)" "numbered ''inv_'' (ms_next_id s) (ms_invites s)" "0 \<le> ms_next_id s"
    using assms by (simp_all add: store_ok_def)
  define t where "t = s\<lparr>ms_next_id := ms_next_id s + 1\<rparr>"
  have t: "store_ok t" using assms by (simp add: t_def store_ok_next_id)
  have "store_ok (t\<lparr>ms_deliveries := gm_put (ms_deliveries s) (''dlv_'' @ show_int (ms_next_id s + 1)) v\<rparr>)"
    if "delivery_ok (''dlv_'' @ show_int (ms_next_id s + 1)) v" for v
    using t d that numbered_next [OF d(2,5)] by (intro store_ok_frames gm_all_put) (auto simp: t_def)
  then show "store_ok (snd (enqueue_webhook ev payload s))"
    by (simp add: enqueue_webhook_def Let_def t_def delivery_ok_def)
  have "store_ok (t\<lparr>ms_invites := gm_put (ms_invites s) (''inv_'' @ show_int (ms_next_id s + 1)) v\<rparr>)"
    if "invite_ok (''inv_'' @ show_int (ms_next_id s + 1)) v" for v
    using t d that numbered_next [OF d(4,5)] by (intro store_ok_frames gm_all_put) (auto simp: t_def)
  then show "store_ok (snd (create_invite_request now kind name email msg s))"
    using assms by (simp add: create_invite_request_def Let_def t_def invite_ok_def)
  show "store_ok (snd (record_delivery_mem did r b m now s))"
    using assms d gm_all_get [OF d(1)] by (auto simp: record_delivery_mem_def mark_delivery_def Let_def delivery_ok_def
        intro!: store_ok_frames gm_all_put numbered_update split: option.splits)
  show "store_ok (snd (record_invite_send_result rid err b m now s))"
    using assms d gm_all_get [OF d(3)] by (auto simp: record_invite_send_result_def mark_invite_def Let_def invite_ok_def
        intro!: store_ok_frames gm_all_put numbered_update split: option.splits)
qed

lemma store_ok_orgs:
  "store_ok s \<Longrightarrow> orgs_ok (s\<lparr>ms_org_names := ns, ms_org_members := m\<rparr>) \<Longrightarrow>
     store_ok (s\<lparr>ms_org_names := ns, ms_org_members := m\<rparr>)"
  by (simp add: store_ok_def)

lemma org_writes:
  "snd (ensure_org org s) = s \<or> (\<exists>ns m. snd (ensure_org org s) = s\<lparr>ms_org_names := ns, ms_org_members := m\<rparr>)"
  "snd (upsert_org_member org who role s) = s
     \<or> (\<exists>ns m. snd (upsert_org_member org who role s) = s\<lparr>ms_org_names := ns, ms_org_members := m\<rparr>)"
  "snd (remove_org_member org who s) = s
     \<or> (\<exists>ns m. snd (remove_org_member org who s) = s\<lparr>ms_org_names := ns, ms_org_members := m\<rparr>)"
  by (cases s; simp add: ensure_org_def upsert_org_member_def remove_org_member_def split: option.splits)+

lemma directory_ops_ok:
  assumes "store_ok s"
  shows "store_ok (snd (ensure_org org s))" "store_ok (snd (upsert_org_member org who role s))"
    "store_ok (snd (remove_org_member org who s))" "store_ok (snd (set_org_archived org a s))"
    "store_ok (snd (update_org_settings org st s))" "store_ok (snd (set_agent_policy org name p s))"
    "store_ok (snd (delete_agent_policy org name s))" "store_ok (snd (upsert_mirror_cursor now remote ref sha s))"
    "store_ok (snd (freeze_mirror_cursor now remote ref s))"
proof -
  have o: "orgs_ok s" using assms by (simp add: store_ok_def)
  show "store_ok (snd (ensure_org org s))"
    using org_writes(1) ensure_org_ok [OF o] store_ok_orgs [OF assms] assms by metis
  show "store_ok (snd (upsert_org_member org who role s))"
    using org_writes(2) upsert_org_member_ok [OF o] store_ok_orgs [OF assms] assms by metis
  show "store_ok (snd (remove_org_member org who s))"
    using org_writes(3) remove_org_member_ok [OF o] store_ok_orgs [OF assms] assms by metis
  show "store_ok (snd (set_org_archived org a s))" "store_ok (snd (update_org_settings org st s))"
    "store_ok (snd (set_agent_policy org name p s))" "store_ok (snd (delete_agent_policy org name s))"
    using assms by (simp_all add: set_org_archived_def update_org_settings_def set_agent_policy_def
        delete_agent_policy_def store_ok_frames)
  show "store_ok (snd (upsert_mirror_cursor now remote ref sha s))" "store_ok (snd (freeze_mirror_cursor now remote ref s))"
    using assms by (auto simp: upsert_mirror_cursor_def freeze_mirror_cursor_def Let_def store_ok_def [of s] intro!: store_ok_frames)
qed

lemmas all_ops_ok = changes_ops_ok review_ops_ok copy_ok create_comment_ok conversation_ops_ok deploy_ops_ok workspace_ops_ok
  identity_ops_ok feed_ops_ok outbox_ops_ok directory_ops_ok

lemma apply_op_ok: "store_ok s \<Longrightarrow> store_ok (snd (apply_op now op s))"
  by (cases op) (simp_all add: all_ops_ok)

lemma store_step_ok: "store_step s op s' \<Longrightarrow> store_ok s \<Longrightarrow> store_ok s'"
  by (metis apply_op_ok snd_conv store_stepE)

lemma store_run_ok: "store_run s ops s' \<Longrightarrow> store_ok s \<Longrightarrow> store_ok s'"
  by (induction rule: store_run.induct) (auto intro: store_step_ok)

lemma reachable_ok: "store_reachable s \<Longrightarrow> store_ok s"
  by (auto simp: store_reachable_def intro: store_run_ok store_ok_new)

section \<open>Landing is permanent\<close>

definition landing_record :: "change \<Rightarrow> string \<times> string \<times> bool \<times> go_time" where
  "landing_record c = (ch_landed_sha c, ch_landed_by c, ch_landed_forced c, ch_landed_at c)"

definition lands :: "string \<Rightarrow> store_op \<Rightarrow> bool" where
  "lands key op = (case op of OpLand k _ _ _ \<Rightarrow> k = key | _ \<Rightarrow> False)"

lemma amend_landing [simp]: "landing_record (amend_change p c) = landing_record c"
  by (simp add: amend_change_def landing_record_def Let_def)

lemma apply_op_landing:
  assumes "get_change s key = Some c" "\<not> lands key op"
  shows "map_option landing_record (get_change (snd (apply_op now op s)) key) = Some (landing_record c)"
proof (cases "touches_change op = Some key")
  case True
  then show ?thesis using assms
    by (cases op) (auto simp: touches_change_def lands_def create_or_update_change_def Let_def change_ops modify_change_get
        landing_record_def amend_change_def)
next
  case False
  then show ?thesis using assms(1) by (simp add: untouched_get)
qed

lemma run_landing:
  "store_run s ops s' \<Longrightarrow> get_change s key = Some c \<Longrightarrow> list_all (\<lambda>op. \<not> lands key op) ops \<Longrightarrow>
     map_option landing_record (get_change s' key) = Some (landing_record c)"
proof (induction rule: store_run.induct)
  case (run_snoc s ops s' op s'')
  then obtain now e where "apply_op now op s' = (e, s'')" by (auto elim: store_stepE)
  moreover obtain c' where "get_change s' key = Some c'" "landing_record c' = landing_record c"
    using run_snoc.IH run_snoc.prems by auto
  ultimately show ?case using apply_op_landing [of s' key c' op now] run_snoc.prems by simp
qed simp

text \<open>The trunk commit, the lander and the force that the last landing of the Change in a run was told.\<close>

definition last_landing :: "string \<Rightarrow> store_op list \<Rightarrow> (string \<times> string \<times> bool) option" where
  "last_landing key ops = (case find (lands key) (rev ops) of Some (OpLand _ sha who forced) \<Rightarrow> Some (sha, who, forced) | _ \<Rightarrow> None)"

definition landed_as :: "change \<Rightarrow> string \<times> string \<times> bool" where
  "landed_as c = (ch_landed_sha c, ch_landed_by c, ch_landed_forced c)"

lemma run_last_landing:
  "store_run s ops s' \<Longrightarrow> get_change s key = Some c \<Longrightarrow>
   map_option landed_as (get_change s' key) = Some (case last_landing key ops of None \<Rightarrow> landed_as c | Some l \<Rightarrow> l)"
proof (induction rule: store_run.induct)
  case (run_nil s)
  then show ?case by (simp add: last_landing_def)
next
  case (run_snoc s ops s' op s'')
  then obtain now e where step: "apply_op now op s' = (e, s'')" by (auto elim: store_stepE)
  obtain c' where c': "get_change s' key = Some c'"
      "landed_as c' = (case last_landing key ops of None \<Rightarrow> landed_as c | Some l \<Rightarrow> l)"
    using run_snoc.IH run_snoc.prems by auto
  show ?case
  proof (cases "lands key op")
    case True
    then obtain sha who forced where op: "op = OpLand key sha who forced"
      by (auto simp: lands_def split: store_op.splits)
    have "last_landing key (ops @ [op]) = Some (sha, who, forced)" by (simp add: last_landing_def op lands_def)
    then show ?thesis using step c'(1) unfolding op
      by (auto simp: mark_change_landed_def modify_change_def done_with_def landed_as_def)
  next
    case False
    then have "map_option landing_record (get_change s'' key) = Some (landing_record c')"
      using apply_op_landing [OF c'(1), of op now] step by simp
    then have "map_option landed_as (get_change s'' key) = Some (landed_as c')" by (auto simp: landing_record_def landed_as_def)
    moreover have "last_landing key (ops @ [op]) = last_landing key ops" using False by (simp add: last_landing_def)
    ultimately show ?thesis using c'(2) by simp
  qed
qed

lemma life_cycle_landed_run: "fold (life_cycle key) ops (Some state_landed) = Some state_landed"
  by (induction ops) (auto simp: life_cycle_landed)

section \<open>Reading back\<close>

lemma approvals_view:
  assumes "store_ok s"
  shows "set (list_approvals s key) = {a. sub_get (ms_approvals s) key (av_owner a) = Some a}"
    "sorted (map av_owner (list_approvals s key))" "distinct (map av_owner (list_approvals s key))"
proof -
  have ok: "gm_all (\<lambda>k a. av_owner a = k) (gm_sub (ms_approvals s) key)"
    using assms by (auto simp: store_ok_def intro: sub_all_sub)
  then show "set (list_approvals s key) = {a. sub_get (ms_approvals s) key (av_owner a) = Some a}"
    using gm_vals_iff [OF gm_all_wf [OF ok]] gm_all_get [OF ok]
    by (auto simp: list_approvals_def sub_get_def)
  show "sorted (map av_owner (list_approvals s key))" by (simp add: list_approvals_def)
  have "map av_owner (gm_vals (gm_sub (ms_approvals s) key)) = gm_keys (gm_sub (ms_approvals s) key)"
    using ok by (auto simp: gm_all_def gm_vals_def gm_keys_def list_all_iff)
  then have "distinct (map av_owner (gm_vals (gm_sub (ms_approvals s) key)))"
    using gm_all_wf [OF ok] by (simp add: gm_wf_def gm_keys_def)
  then show "distinct (map av_owner (list_approvals s key))"
    by (simp add: list_approvals_def distinct_map)
qed

lemma copy_fold_get:
  assumes "distinct (map fst xs)"
  shows "gm_get (fold (\<lambda>(name, run) m. gm_put m name (f run)) xs m) k =
    (case map_of xs k of Some run \<Rightarrow> Some (f run) | None \<Rightarrow> gm_get m k)"
  using assms
proof (induction xs arbitrary: m)
  case (Cons x xs)
  then show ?case by (cases x) (auto simp: map_of_eq_None_iff image_iff split: option.splits dest: map_of_SomeD)
qed simp

text \<open>Looking a name up among the entries that are kept.\<close>

lemma kept_lookup:
  assumes "distinct (map fst entries)"
  shows "map_of (filter keep entries) name =
    (if \<exists>run. map_of entries name = Some run \<and> keep (name, run) then map_of entries name else None)"
proof -
  have d: "distinct (map fst (filter keep entries))" using assms by (rule distinct_map_filter)
  have "map_of (filter keep entries) name = Some run \<longleftrightarrow> map_of entries name = Some run \<and> keep (name, run)" for run
    by (simp add: map_of_eq_Some_iff [OF d] map_of_eq_Some_iff [OF assms])
  then show ?thesis by (metis not_Some_eq)
qed

lemma copy_view:
  assumes "store_ok s"
  shows "sub_get (ms_check_runs (snd (copy_passing_check_runs key old new s))) (check_run_key key new) name =
    (case sub_get (ms_check_runs s) (check_run_key key new) name of
       Some r \<Rightarrow> Some r
     | None \<Rightarrow> (case sub_get (ms_check_runs s) (check_run_key key old) name of
         None \<Rightarrow> None
       | Some r \<Rightarrow> if cv_status r = check_status_completed \<and> cv_conclusion r = conclusion_success
                   then Some (r\<lparr>cv_copied_from := old\<rparr>) else None))"
proof -
  have "sub_all (\<lambda>k r. cv_name r = k) (ms_check_runs s)" using assms by (simp add: store_ok_def)
  then have "gm_wf (gm_sub (ms_check_runs s) (check_run_key key old))"
    by (rule gm_all_wf [OF sub_all_sub])
  then have d: "distinct (map fst (gm_sub (ms_check_runs s) (check_run_key key old)))" by (simp add: gm_wf_def)
  then have d': "distinct (map fst (filter P (gm_sub (ms_check_runs s) (check_run_key key old))))" for P
    by (rule distinct_map_filter)
  show ?thesis
    by (auto simp: copy_passing_check_runs_def Let_def sub_get_def copy_fold_get [OF d'] kept_lookup [OF d]
        carries_def gm_get_def [of "gm_sub (ms_check_runs s) (check_run_key key old)"] split: option.splits)
qed

section \<open>Properties\<close>

text \<open>C35. Every store the daemon can reach from an empty one, by any sequence of operations at any
  clock readings, satisfies the invariant: rows lie under their own keys, states and statuses stay
  in their vocabularies, only a landed Change has a landing record, feeds are capped, ordered and
  numbered, a ready deploy record is complete, and minted ids never repeat.\<close>

theorem store_well_typed:
  assumes "store_reachable s"
  shows "store_ok s"
  using assms by (rule reachable_ok)

theorem store_well_typed_witness: "store_ok (snd (apply_op 3 (OpEnqueue ''change.landed'' ''{}'') new_mem_store))"
proof (rule store_well_typed)
  have "store_run new_mem_store ([] @ [OpEnqueue ''change.landed'' ''{}''])
      (snd (apply_op 3 (OpEnqueue ''change.landed'' ''{}'') new_mem_store))"
    by (rule run_snoc [OF run_nil step [of 3 _ _ None]]) (simp add: enqueue_webhook_def Let_def done_with_def)
  then show "store_reachable (snd (apply_op 3 (OpEnqueue ''change.landed'' ''{}'') new_mem_store))"
    unfolding store_reachable_def by blast
qed

text \<open>C34. Over any run of operations the state of every Change moves as the life-cycle automaton
  says: only a push creates it or reopens it, only an abandon of a Change that is not landed
  abandons it, only a landing lands it, and no other operation moves it.\<close>

theorem change_life_cycle_refines:
  assumes "store_run s ops s'"
  shows "change_state s' key = fold (life_cycle key) ops (change_state s key)"
  using assms by (rule run_state)

definition demo_push :: push_fields where
  "demo_push = \<lparr>pf_base = ''b'', pf_head = ''h'', pf_git_ref = ''refs/for/main'', pf_title = ''t'', pf_author = ''ada'',
     pf_workspace = [], pf_branch = []\<rparr>"

theorem change_life_cycle_refines_witness:
  "change_state (snd (apply_op 1 (OpPush ''I1'' demo_push) new_mem_store)) ''I1'' = Some state_open"
proof -
  have "store_run new_mem_store ([] @ [OpPush ''I1'' demo_push]) (snd (apply_op 1 (OpPush ''I1'' demo_push) new_mem_store))"
    by (rule run_snoc [OF run_nil step [of 1 _ _ None]]) (simp add: create_or_update_change_def Let_def done_with_def)
  from change_life_cycle_refines [OF this, of "''I1''"] show ?thesis
    by (simp add: change_state_def get_change_def new_mem_store_def)
qed

text \<open>C36. A landed Change stays landed under every run of operations, repeated landings included. Its landing record,
  the trunk commit, who landed it, whether by force, and when, is written by landings of this Change only: without
  one in the run it does not change, whatever is pushed, amended, abandoned or edited, and after one (the store does
  not refuse a second) it names the commit, the lander and the force of the last.\<close>

theorem landed_is_permanent:
  assumes "store_run s ops s'" "get_change s key = Some c" "ch_state c = state_landed"
  shows "change_state s' key = Some state_landed
    \<and> (list_all (\<lambda>op. \<not> lands key op) ops \<longrightarrow> map_option landing_record (get_change s' key) = Some (landing_record c))
    \<and> (\<forall>l. last_landing key ops = Some l \<longrightarrow> map_option landed_as (get_change s' key) = Some l)"
proof (intro conjI impI allI)
  show "change_state s' key = Some state_landed"
    using run_state [OF assms(1), of key] assms(2,3) life_cycle_landed_run by (simp add: change_state_def)
qed (use run_landing [OF assms(1,2)] run_last_landing [OF assms(1,2)] in auto)

theorem landed_is_permanent_witness:
  "\<exists>s1 s2. store_run (put_change ((new_change ''I1'' demo_push)\<lparr>ch_state := state_landed\<rparr>) ''I1'' new_mem_store) [OpAbandon ''I1''] s1
     \<and> store_step s1 (OpLand ''I1'' ''c9'' ''eve'' True) s2
     \<and> change_state s1 ''I1'' = Some state_landed \<and> map_option ch_landed_sha (get_change s1 ''I1'') = Some []
     \<and> change_state s2 ''I1'' = Some state_landed \<and> map_option landed_as (get_change s2 ''I1'') = Some (''c9'', ''eve'', True)"
proof -
  let ?c = "(new_change ''I1'' demo_push)\<lparr>ch_state := state_landed\<rparr>"
  let ?s = "put_change ?c ''I1'' new_mem_store" and ?op = "OpLand ''I1'' ''c9'' ''eve'' True"
  obtain s1 where one: "store_run ?s [OpAbandon ''I1''] s1"
    using run_snoc [OF run_nil [of ?s] step [of 9 "OpAbandon ''I1''"]] by (metis append_Nil prod.collapse)
  obtain s2 where two: "store_step s1 ?op s2" using step [of 9 ?op s1] by (metis prod.collapse)
  have c: "get_change ?s ''I1'' = Some ?c" "ch_state ?c = state_landed" by simp_all
  have none: "list_all (\<lambda>op. \<not> lands ''I1'' op) [OpAbandon ''I1'']"
      and some: "last_landing ''I1'' ([OpAbandon ''I1''] @ [?op]) = Some (''c9'', ''eve'', True)"
    by (simp_all add: last_landing_def lands_def)
  note first = landed_is_permanent [OF one c]
  note second = landed_is_permanent [OF run_snoc [OF one two] c]
  have "ch_landed_sha ?c = []" by (simp add: new_change_def)
  then have "map_option ch_landed_sha (get_change s1 ''I1'') = Some []" using first none by (auto simp: landing_record_def)
  then show ?thesis using one two first second some by blast
qed

text \<open>Recording an approval replaces exactly the owner's earlier approval of that Change: the
  listing afterwards has the new row and the other owners' rows, one per owner, in owner order.\<close>

theorem approvals_latest_per_owner:
  fixes s key owner who head
  assumes "store_ok s" "get_change s key \<noteq> None"
  defines "s' \<equiv> snd (record_approval key owner who head s)"
  shows "set (list_approvals s' key) = insert \<lparr>av_owner = owner, av_by = who, av_head = head\<rparr>
            {a \<in> set (list_approvals s key). av_owner a \<noteq> owner}
    \<and> sorted (map av_owner (list_approvals s' key)) \<and> distinct (map av_owner (list_approvals s' key))"
proof -
  have ok: "store_ok s'" using assms(1) by (simp add: s'_def review_ops_ok)
  have get: "sub_get (ms_approvals s') key o' = (if o' = owner then Some \<lparr>av_owner = owner, av_by = who, av_head = head\<rparr>
      else sub_get (ms_approvals s) key o')" for o'
    using assms(2) by (auto simp: s'_def record_approval_def)
  show ?thesis
    using approvals_view [OF ok, of key] approvals_view(1) [OF assms(1), of key]
    by (auto simp: get)
qed

theorem approvals_latest_per_owner_witness:
  "distinct (map av_owner (list_approvals (snd (record_approval ''I1'' ''group:core'' ''ada'' ''h''
     (put_change (new_change ''I1'' demo_push) ''I1'' new_mem_store))) ''I1''))"
proof -
  have "store_ok (put_change (new_change ''I1'' demo_push) ''I1'' new_mem_store)"
    by (intro put_change_ok store_ok_new new_change_ok)
  from approvals_latest_per_owner [OF this, of "''I1''" "''group:core''" "''ada''" "''h''"] show ?thesis by simp
qed

text \<open>Carrying check runs over to a new head: a run the new head already has wins, otherwise a
  completed successful run of the old head is copied and marked with the head that earned it, and
  nothing else appears; runs of other heads stay as they are.\<close>

theorem carry_forward_exact:
  fixes s key old new name
  assumes "store_ok s"
  defines "s' \<equiv> snd (copy_passing_check_runs key old new s)"
  shows "sub_get (ms_check_runs s') (check_run_key key new) name =
    (case sub_get (ms_check_runs s) (check_run_key key new) name of
       Some r \<Rightarrow> Some r
     | None \<Rightarrow> (case sub_get (ms_check_runs s) (check_run_key key old) name of
         None \<Rightarrow> None
       | Some r \<Rightarrow> if cv_status r = check_status_completed \<and> cv_conclusion r = conclusion_success
                   then Some (r\<lparr>cv_copied_from := old\<rparr>) else None))
    \<and> {k. k \<noteq> check_run_key key new \<and> gm_get (ms_check_runs s') k \<noteq> gm_get (ms_check_runs s) k} = {}"
  unfolding s'_def using copy_view [OF assms(1)]
  by (simp add: copy_passing_check_runs_def Let_def)

definition demo_runs :: mem_store where
  "demo_runs = snd (upsert_check_run 5 ''I1'' ''h1'' \<lparr>cv_name = ''unit'', cv_status = ''completed'', cv_conclusion = ''success'',
     cv_last_seen = 0, cv_ttl = 0, cv_details_url = [], cv_copied_from = [], cv_reporter = ''ci''\<rparr> new_mem_store)"

theorem carry_forward_exact_witness:
  "map_option cv_copied_from (sub_get (ms_check_runs (snd (copy_passing_check_runs ''I1'' ''h1'' ''h2'' demo_runs)))
     (check_run_key ''I1'' ''h2'') ''unit'') = Some ''h1''"
proof -
  have "store_ok demo_runs" unfolding demo_runs_def by (rule review_ops_ok(3) [OF store_ok_new])
  moreover have "sub_get (ms_check_runs demo_runs) (check_run_key ''I1'' ''h2'') ''unit'' = None" by code_simp
  moreover have "\<exists>r. sub_get (ms_check_runs demo_runs) (check_run_key ''I1'' ''h1'') ''unit'' = Some r
      \<and> cv_status r = check_status_completed \<and> cv_conclusion r = conclusion_success"
    by (simp add: demo_runs_def upsert_check_run_def Let_def check_status_completed_def conclusion_success_def)
  ultimately show ?thesis
    using carry_forward_exact [of demo_runs "''I1''" "''h1''" "''h2''" "''unit''"] by auto
qed

end
