(* ===== verification/Land.thy ===== *)
theory Land
  imports Affected Index "HOL-Library.Sublist"
begin

text \<open>
  \<open>platform/land\<close>: landing a Change on trunk, and the daemon's retry loop around it
  (\<open>runkod/land.go\<close>, \<open>attemptLand\<close>). Git is a parameter: a record of the commands the code runs, over
  a repository state \<open>'w\<close>. What the code relies on is the predicate \<open>git_laws\<close>, the documented
  behaviour of \<open>git update-ref\<close> with an expected value and of \<open>git commit-tree\<close>. Other landers act
  through an environment function applied between the reading of the trunk tip and the ref update.
\<close>

section \<open>Revalidation\<close>

definition scope_conflict_only :: string where "scope_conflict_only = ''conflict-only''"
definition scope_intersection :: string where "scope_intersection = ''affected-intersection''"
definition scope_always :: string where "scope_always = ''always''"
definition scope_never :: string where "scope_never = ''never''"

lemmas scope_defs = scope_conflict_only_def scope_intersection_def scope_always_def scope_never_def

definition intersects_projects :: "project_ref list \<Rightarrow> project_ref list \<Rightarrow> bool" where
  "intersects_projects a b = list_ex (\<lambda>y. pr_name y \<in> set (map pr_name a)) b"

definition needs_revalidation :: "string \<Rightarrow> aff_result \<Rightarrow> aff_result \<Rightarrow> bool" where
  "needs_revalidation scope change delta =
     (if scope = scope_never \<or> scope = scope_conflict_only \<or> scope = [] then False
      else if scope = scope_always then True
      else if ar_run_everything change \<or> ar_run_everything delta then True
      else intersects_projects (ar_projects change) (ar_projects delta))"

definition needs_trunk_delta :: "string \<Rightarrow> bool" where
  "needs_trunk_delta scope \<longleftrightarrow> scope = scope_intersection \<or> scope = scope_always"

section \<open>Identities\<close>

record identity =
  id_name :: string
  id_email :: string

definition default_identity :: identity where
  "default_identity = \<lparr>id_name = ''Runko'', id_email = ''runko@localhost''\<rparr>"

text \<open>\<open>strings.LastIndex\<close> of a one-byte string, as the text before and after it.\<close>

definition cut_last :: "char \<Rightarrow> string \<Rightarrow> (string \<times> string) option" where
  "cut_last c s = (if c \<notin> set s then None
     else (let after = rev (takeWhile (\<lambda>x. x \<noteq> c) (rev s)) in Some (take (length s - length after - 1) s, after)))"

text \<open>The closing bracket must not precede the opening one: both are the last of their kind.\<close>

definition parse_identity :: "string \<Rightarrow> identity option" where
  "parse_identity s0 =
     (let s = go_trim_space s0 in
      case (cut_last CHR ''<'' s, cut_last CHR ''>'' s) of
        (Some (before, _), Some (upto_close, _)) \<Rightarrow>
          if length upto_close < length before then None
          else let name = go_trim_space before; email = go_trim_space (drop (length before + 1) upto_close) in
            if name = [] \<or> email = [] then None else Some \<lparr>id_name = name, id_email = email\<rparr>
      | _ \<Rightarrow> None)"

section \<open>Git\<close>

record commit =
  co_tree :: string
  co_parent :: "string option"
  co_message :: string
  co_author :: identity
  co_committer :: identity

datatype exec_result = NotRun | Exited int

record 'w git =
  g_resolve :: "'w \<Rightarrow> string \<Rightarrow> string option"
  g_update_ref :: "string \<Rightarrow> string \<Rightarrow> string \<Rightarrow> 'w \<Rightarrow> bool \<times> 'w"
  g_tree_of :: "'w \<Rightarrow> string \<Rightarrow> string option"
  g_commit_tree :: "commit \<Rightarrow> 'w \<Rightarrow> string option \<times> 'w"
  g_lookup :: "'w \<Rightarrow> string \<Rightarrow> commit option"
  g_diff_names :: "'w \<Rightarrow> string \<Rightarrow> string \<Rightarrow> string option"
  g_merge_tree :: "'w \<Rightarrow> string \<Rightarrow> string \<Rightarrow> string \<Rightarrow> exec_result \<times> string"
  g_version_ok :: bool

text \<open>The two readings of \<open>git diff --name-only\<close>: the land package strips trailing newlines, the
  daemon strips white space at both ends.\<close>

definition diff_paths :: "'w git \<Rightarrow> string \<Rightarrow> string \<Rightarrow> 'w \<Rightarrow> string list option" where
  "diff_paths g a b w =
     (case g_diff_names g w a b of
        None \<Rightarrow> None
      | Some out \<Rightarrow> (let t = go_trim_right (\<lambda>c. c = newline) out in Some (if t = [] then [] else go_split newline t)))"

definition git_diff_names_only :: "'w git \<Rightarrow> string \<Rightarrow> string \<Rightarrow> 'w \<Rightarrow> string list option" where
  "git_diff_names_only g a b w =
     (case g_diff_names g w a b of
        None \<Rightarrow> None
      | Some out \<Rightarrow> (let t = go_trim_space out in Some (if t = [] then [] else go_split newline t)))"

definition zero_oid :: string where
  "zero_oid = replicate 40 CHR ''0''"

definition valid_oid :: "string \<Rightarrow> bool" where
  "valid_oid x \<longleftrightarrow> x \<noteq> [] \<and> x \<noteq> zero_oid"

text \<open>A ref resolves to a real object id. A ref update with an expected value succeeds exactly when
  the ref has that value, all zeros standing for a ref that does not exist, and then moves that ref
  only; a commit object, once written, reads back as written, and writing it moves no ref.\<close>

definition git_laws :: "'w git \<Rightarrow> bool" where
  "git_laws g \<longleftrightarrow>
     (\<forall>w r x. g_resolve g w r = Some x \<longrightarrow> valid_oid x)
   \<and> (\<forall>r new old w. valid_oid new \<longrightarrow> (let (ok, w') = g_update_ref g r new old w in
        ok = (g_resolve g w r = (if old = zero_oid then None else Some old))
        \<and> (\<forall>r'. g_resolve g w' r' = (if ok \<and> r' = r then Some new else g_resolve g w r'))
        \<and> (\<forall>x. g_lookup g w' x = g_lookup g w x)))
   \<and> (\<forall>c w. let (res, w') = g_commit_tree g c w in
        (\<forall>r. g_resolve g w' r = g_resolve g w r)
        \<and> (case res of None \<Rightarrow> True | Some sha \<Rightarrow> valid_oid sha \<and> g_lookup g w' sha = Some c))"

lemma git_laws_resolve: "git_laws g \<Longrightarrow> g_resolve g w r = Some x \<Longrightarrow> valid_oid x"
  by (simp add: git_laws_def)

lemma git_laws_update:
  assumes "git_laws g" "valid_oid new"
  shows "fst (g_update_ref g r new old w) \<longleftrightarrow> g_resolve g w r = (if old = zero_oid then None else Some old)"
    "g_resolve g (snd (g_update_ref g r new old w)) r' =
       (if fst (g_update_ref g r new old w) \<and> r' = r then Some new else g_resolve g w r')"
    "g_lookup g (snd (g_update_ref g r new old w)) x = g_lookup g w x"
  using assms unfolding git_laws_def by (auto simp: Let_def split_beta)

lemma git_laws_commit:
  assumes "git_laws g"
  shows "g_resolve g (snd (g_commit_tree g c w)) r = g_resolve g w r"
    "fst (g_commit_tree g c w) = Some sha \<Longrightarrow> g_lookup g (snd (g_commit_tree g c w)) sha = Some c"
    "fst (g_commit_tree g c w) = Some sha \<Longrightarrow> valid_oid sha"
  using assms unfolding git_laws_def by (auto simp: Let_def split_beta split: option.splits)

text \<open>Other landers move refs but do not rewrite objects.\<close>

definition env_ok :: "'w git \<Rightarrow> ('w \<Rightarrow> 'w) \<Rightarrow> bool" where
  "env_ok g env \<longleftrightarrow> (\<forall>w x. g_lookup g w x \<noteq> None \<longrightarrow> g_lookup g (env w) x = g_lookup g w x)"

definition commit_tree :: "'w git \<Rightarrow> string \<Rightarrow> string \<Rightarrow> string \<Rightarrow> identity \<Rightarrow> identity \<Rightarrow> 'w \<Rightarrow> string option \<times> 'w" where
  "commit_tree g tree parent message author committer =
     (let author1 = (if id_name author = [] then author\<lparr>id_name := id_name committer\<rparr> else author);
          author2 = (if id_email author1 = [] then author1\<lparr>id_email := id_email committer\<rparr> else author1)
      in g_commit_tree g \<lparr>co_tree = tree, co_parent = (if parent = [] then None else Some parent), co_message = message,
           co_author = author2, co_committer = committer\<rparr>)"

section \<open>Rebase\<close>

text \<open>The expression \<open>^CONFLICT \([^)]+\): .* in (.+)$\<close>: the first closing bracket ends the kind,
  and the path follows the last \<open> in \<close> that something follows.\<close>

fun after_last_in :: "string \<Rightarrow> string option" where
  "after_last_in [] = None"
| "after_last_in (c # cs) =
     (case after_last_in cs of
        Some r \<Rightarrow> Some r
      | None \<Rightarrow> (case go_cut_prefix (c # cs) '' in '' of
                   Some r \<Rightarrow> if r = [] then None else Some r
                 | None \<Rightarrow> None))"

definition conflict_path :: "string \<Rightarrow> string option" where
  "conflict_path l =
     (case go_cut_prefix l ''CONFLICT ('' of
        None \<Rightarrow> None
      | Some r \<Rightarrow>
          if takeWhile (\<lambda>c. c \<noteq> CHR '')'') r = [] then None
          else (case go_cut_prefix (dropWhile (\<lambda>c. c \<noteq> CHR '')'') r) ''): '' of
                  None \<Rightarrow> None | Some rest \<Rightarrow> after_last_in rest))"

text \<open>The paths of the matching lines, each once, in order of first occurrence.\<close>

definition note_conflict :: "string list \<Rightarrow> string \<Rightarrow> string list" where
  "note_conflict acc l = (case conflict_path l of None \<Rightarrow> acc | Some p \<Rightarrow> if p \<in> set acc then acc else acc @ [p])"

datatype rebase_result = RebaseError | Clean string | Conflicted "string list"

definition rebase :: "'w git \<Rightarrow> string \<Rightarrow> string \<Rightarrow> string \<Rightarrow> 'w \<Rightarrow> rebase_result" where
  "rebase g old_base new_base head w =
     (if \<not> g_version_ok g then RebaseError
      else let (code, out) = g_merge_tree g w old_base new_base head;
               lines = go_split newline (go_trim_right (\<lambda>c. c = newline) out)
           in if hd lines = [] then RebaseError
              else (case code of
                      Exited c \<Rightarrow> if c = 0 then Clean (hd lines)
                                  else if c = 1 then Conflicted (foldl note_conflict [] (tl lines))
                                  else RebaseError
                    | NotRun \<Rightarrow> RebaseError))"

section \<open>Land\<close>

record land_outcome =
  lo_landed :: bool
  lo_sha :: string
  lo_revalidate :: bool
  lo_conflicts :: "string list"
  lo_race :: bool

definition no_outcome :: land_outcome where
  "no_outcome = \<lparr>lo_landed = False, lo_sha = [], lo_revalidate = False, lo_conflicts = [], lo_race = False\<rparr>"

datatype land_error = TreeOfFailed | CommitFailed | UnbornWithBase | DiffFailed | RebaseFailed | ScanFailed | ChangeDiffFailed

text \<open>The ref update that ends both paths: \<open>env\<close> is what others do before it.\<close>

definition advance :: "'w git \<Rightarrow> ('w \<Rightarrow> 'w) \<Rightarrow> string \<Rightarrow> string \<Rightarrow> string \<Rightarrow> 'w \<Rightarrow> (land_error + land_outcome) \<times> 'w" where
  "advance g env ref new expected w =
     (let (ok, w') = g_update_ref g ref new expected (env w)
      in (Inr (if ok then no_outcome\<lparr>lo_landed := True, lo_sha := new\<rparr> else no_outcome\<lparr>lo_race := True\<rparr>), w'))"

record land_request =
  lr_trunk :: string
  lr_base :: string
  lr_head :: string
  lr_scope :: string
  lr_affected :: aff_result
  lr_projects :: "project_info list"
  lr_opts :: aff_options
  lr_message :: string
  lr_identity :: identity

definition trunk_ref_name :: "string \<Rightarrow> string" where
  "trunk_ref_name trunk = ''refs/heads/'' @ trunk"

text \<open>Whether the trunk delta asks for a new run of the checks; None when it cannot be computed.\<close>

definition revalidation_due :: "'w git \<Rightarrow> land_request \<Rightarrow> string \<Rightarrow> 'w \<Rightarrow> bool option" where
  "revalidation_due g r tip w =
     (if \<not> needs_trunk_delta (lr_scope r) then Some False
      else case diff_paths g (lr_base r) tip w of
             None \<Rightarrow> None
           | Some paths \<Rightarrow>
               Some (needs_revalidation (lr_scope r) (lr_affected r) (compute (lr_projects r) paths (lr_opts r))))"

definition tip_of :: "'w git \<Rightarrow> land_request \<Rightarrow> 'w \<Rightarrow> string" where
  "tip_of g r w = (case g_resolve g w (trunk_ref_name (lr_trunk r)) of None \<Rightarrow> [] | Some t \<Rightarrow> t)"

text \<open>Commit a tree on the observed tip under the landing identity, then move trunk to it.\<close>

definition publish :: "'w git \<Rightarrow> ('w \<Rightarrow> 'w) \<Rightarrow> land_request \<Rightarrow> string \<Rightarrow> string \<Rightarrow> 'w \<Rightarrow> (land_error + land_outcome) \<times> 'w" where
  "publish g env r tree expected w =
     (case commit_tree g tree (tip_of g r w) (lr_message r) (lr_identity r) (lr_identity r) w of
        (None, w1) \<Rightarrow> (Inl CommitFailed, w1)
      | (Some sha, w1) \<Rightarrow> advance g env (trunk_ref_name (lr_trunk r)) sha expected w1)"

definition land :: "'w git \<Rightarrow> ('w \<Rightarrow> 'w) \<Rightarrow> land_request \<Rightarrow> 'w \<Rightarrow> (land_error + land_outcome) \<times> 'w" where
  "land g env r w =
     (let unborn = (g_resolve g w (trunk_ref_name (lr_trunk r)) = None); tip = tip_of g r w
      in if tip = lr_base r then
           (case g_tree_of g w (lr_head r) of
              None \<Rightarrow> (Inl TreeOfFailed, w)
            | Some tree \<Rightarrow> publish g env r tree (if unborn then zero_oid else tip) w)
         else if unborn then (Inl UnbornWithBase, w)
         else (case revalidation_due g r tip w of
                 None \<Rightarrow> (Inl DiffFailed, w)
               | Some True \<Rightarrow> (Inr (no_outcome\<lparr>lo_revalidate := True\<rparr>), w)
               | Some False \<Rightarrow>
                   (case rebase g (lr_base r) tip (lr_head r) w of
                      RebaseError \<Rightarrow> (Inl RebaseFailed, w)
                    | Conflicted ps \<Rightarrow> (Inr (no_outcome\<lparr>lo_conflicts := ps\<rparr>), w)
                    | Clean tree \<Rightarrow> publish g env r tree tip w)))"

section \<open>The retry loop\<close>

definition max_land_race_retries :: nat where "max_land_race_retries = 5"

definition empty_tree_oid :: string where
  "empty_tree_oid = ''4b825dc642cb6eb9a060e54bf8d69288fbee4904''"

record land_server =
  ls_trunk :: string
  ls_root_patterns :: "string list"
  ls_identity :: identity

definition land_identity :: "land_server \<Rightarrow> identity" where
  "land_identity s =
     (if id_name (ls_identity s) \<noteq> [] \<and> id_email (ls_identity s) \<noteq> [] then ls_identity s else default_identity)"

text \<open>The message of the landed commit: the head's own, made to carry the Change-Id.\<close>

definition change_id_line :: "string \<Rightarrow> string" where
  "change_id_line key = ''Change-Id: '' @ key"

definition landed_message :: "string option \<Rightarrow> string \<Rightarrow> string \<Rightarrow> string" where
  "landed_message head_message title key =
     (case head_message of
        None \<Rightarrow> title @ [newline, newline] @ change_id_line key @ [newline]
      | Some msg \<Rightarrow>
          if sublist (change_id_line key) msg then msg
          else go_trim_right (\<lambda>c. c = newline) msg @ [newline, newline] @ change_id_line key @ [newline])"

text \<open>What an attempt reads: the projects indexed at a revision (None when the scan fails), the
  message of the head commit, and the Change's fields.\<close>

record 'w land_reads =
  rd_index :: "'w \<Rightarrow> string \<Rightarrow> indexed_project list option"
  rd_message :: "'w \<Rightarrow> string \<Rightarrow> string option"

record land_change =
  lc_key :: string
  lc_title :: string
  lc_base :: string
  lc_head :: string

definition base_options :: "string list \<Rightarrow> aff_options" where
  "base_options patterns = \<lparr>opt_root_inval = patterns, opt_refinable = [], opt_refinable_handled = False,
     opt_strictness = [], opt_prose = []\<rparr>"

definition zero_affected :: aff_result where
  "zero_affected = \<lparr>ar_id = [], ar_projects = [], ar_paths = [], ar_reasons = [], ar_run_everything = False,
     ar_refinable_only = False\<rparr>"

text \<open>One attempt: the projects and options of the current tip, or those of the previous attempt's
  options when trunk has no tip, the Change's affected set when the tier asks for it, the landing.\<close>

definition land_attempt ::
  "'w git \<Rightarrow> 'w land_reads \<Rightarrow> land_server \<Rightarrow> land_change \<Rightarrow> string \<Rightarrow> ('w \<Rightarrow> 'w) \<Rightarrow> aff_options \<Rightarrow> 'w \<Rightarrow>
   (land_error + land_outcome) \<times> aff_options \<times> 'w" where
  "land_attempt g rd sv c scope env opts0 w =
     (let tip = g_resolve g w (trunk_ref_name (ls_trunk sv));
          indexed = (case tip of None \<Rightarrow> Some [] | Some t \<Rightarrow> rd_index rd w t)
      in case indexed of
           None \<Rightarrow> (Inl ScanFailed, opts0, w)
         | Some ps \<Rightarrow>
             (let opts = (if tip = None then opts0
                          else opts0\<lparr>opt_root_inval := root_invalidation ps @ ls_root_patterns sv, opt_prose := prose ps\<rparr>);
                  projects = affected_project_infos ps;
                  changed = (if needs_trunk_delta scope
                             then git_diff_names_only g (if lc_base c = [] then empty_tree_oid else lc_base c) (lc_head c) w else Some [])
              in case changed of
                   None \<Rightarrow> (Inl ChangeDiffFailed, opts, w)
                 | Some paths \<Rightarrow>
                     (let (res, w') = land g env
                        \<lparr>lr_trunk = ls_trunk sv, lr_base = lc_base c, lr_head = lc_head c, lr_scope = scope,
                         lr_affected = (if needs_trunk_delta scope then compute projects paths opts else zero_affected),
                         lr_projects = projects, lr_opts = opts,
                         lr_message = landed_message (rd_message rd w (lc_head c)) (lc_title c) (lc_key c),
                         lr_identity = land_identity sv\<rparr> w
                      in (res, opts, w'))))"

fun land_loop ::
  "nat \<Rightarrow> 'w git \<Rightarrow> 'w land_reads \<Rightarrow> land_server \<Rightarrow> land_change \<Rightarrow> string \<Rightarrow> (nat \<Rightarrow> 'w \<Rightarrow> 'w) \<Rightarrow> aff_options \<Rightarrow> 'w \<Rightarrow>
   (land_error + land_outcome) \<times> 'w" where
  "land_loop 0 g rd sv c scope env opts w = (Inr (no_outcome\<lparr>lo_race := True\<rparr>), w)"
| "land_loop (Suc n) g rd sv c scope env opts w =
     (case land_attempt g rd sv c scope (env n) opts w of
        (Inl e, _, w') \<Rightarrow> (Inl e, w')
      | (Inr out, opts', w') \<Rightarrow> if lo_race out then land_loop n g rd sv c scope env opts' w' else (Inr out, w'))"

definition attempt_land ::
  "'w git \<Rightarrow> 'w land_reads \<Rightarrow> land_server \<Rightarrow> land_change \<Rightarrow> string \<Rightarrow> (nat \<Rightarrow> 'w \<Rightarrow> 'w) \<Rightarrow> 'w \<Rightarrow>
   (land_error + land_outcome) \<times> 'w" where
  "attempt_land g rd sv c scope env w =
     land_loop max_land_race_retries g rd sv c scope env (base_options (ls_root_patterns sv)) w"

section \<open>What a landing does to trunk\<close>

text \<open>The commit the two landing paths write, over an observed tip.\<close>

definition landed_commit :: "'w git \<Rightarrow> land_request \<Rightarrow> 'w \<Rightarrow> string \<Rightarrow> commit" where
  "landed_commit g r w tree =
     \<lparr>co_tree = tree, co_parent = g_resolve g w (trunk_ref_name (lr_trunk r)), co_message = lr_message r,
      co_author = lr_identity r, co_committer = lr_identity r\<rparr>"

text \<open>The tree it carries: the head's own when trunk has not moved, the merge's otherwise.\<close>

definition landed_tree :: "'w git \<Rightarrow> land_request \<Rightarrow> 'w \<Rightarrow> string option" where
  "landed_tree g r w =
     (if tip_of g r w = lr_base r then g_tree_of g w (lr_head r)
      else if revalidation_due g r (tip_of g r w) w \<noteq> Some False then None
      else (case rebase g (lr_base r) (tip_of g r w) (lr_head r) w of Clean t \<Rightarrow> Some t | _ \<Rightarrow> None))"

definition expected_tip :: "'w git \<Rightarrow> land_request \<Rightarrow> 'w \<Rightarrow> string" where
  "expected_tip g r w = (if g_resolve g w (trunk_ref_name (lr_trunk r)) = None then zero_oid else tip_of g r w)"

definition stops :: "land_error + land_outcome \<Rightarrow> bool" where
  "stops res = (case res of Inl e \<Rightarrow> True | Inr out \<Rightarrow> \<not> lo_landed out \<and> \<not> lo_race out)"

text \<open>\<open>land\<close> stops before it writes anything, or publishes a tree on the tip it observed.\<close>

lemma land_split:
  "stops (fst (land g env r w)) \<and> snd (land g env r w) = w
    \<or> (\<exists>tree. landed_tree g r w = Some tree \<and> land g env r w = publish g env r tree (expected_tip g r w) w)"
  by (auto simp: land_def Let_def landed_tree_def expected_tip_def stops_def no_outcome_def
      split: option.splits bool.splits rebase_result.splits)

lemma land_cases:
  obtains (stopped) res where "land g env r w = (res, w)" "stops res"
    | (published) tree where "landed_tree g r w = Some tree" "land g env r w = publish g env r tree (expected_tip g r w) w"
  using land_split [of g env r w] by (metis prod.collapse)

lemma publish_commit:
  assumes "git_laws g"
  shows "commit_tree g tree (tip_of g r w) (lr_message r) (lr_identity r) (lr_identity r) w
      = g_commit_tree g (landed_commit g r w tree) w"
  using git_laws_resolve [OF assms, of w "trunk_ref_name (lr_trunk r)"]
  by (cases "lr_identity r") (auto simp: commit_tree_def Let_def landed_commit_def tip_of_def valid_oid_def split: option.splits)

text \<open>A publication is a compare-and-swap against the tip that was observed.\<close>

lemma expected_matches:
  assumes "git_laws g" "\<And>x. g_resolve g w1 x = g_resolve g w x"
  shows "g_resolve g v ref = (if expected_tip g r w = zero_oid then None else Some (expected_tip g r w))
     \<longleftrightarrow> g_resolve g v ref = g_resolve g w (trunk_ref_name (lr_trunk r))"
  using git_laws_resolve [OF assms(1), of w "trunk_ref_name (lr_trunk r)"]
  by (auto simp: expected_tip_def tip_of_def valid_oid_def split: option.splits)

lemma publish_cases:
  assumes "git_laws g" "env_ok g env"
  obtains (failed) w1 where "publish g env r tree (expected_tip g r w) w = (Inl CommitFailed, w1)"
      "\<And>x. g_resolve g w1 x = g_resolve g w x"
    | (lost) w1 w' where "publish g env r tree (expected_tip g r w) w = (Inr (no_outcome\<lparr>lo_race := True\<rparr>), w')"
      "\<And>x. g_resolve g w1 x = g_resolve g w x" "\<And>x. g_resolve g w' x = g_resolve g (env w1) x"
      "g_resolve g (env w1) (trunk_ref_name (lr_trunk r)) \<noteq> g_resolve g w (trunk_ref_name (lr_trunk r))"
    | (won) w1 w' sha where "publish g env r tree (expected_tip g r w) w = (Inr (no_outcome\<lparr>lo_landed := True, lo_sha := sha\<rparr>), w')"
      "\<And>x. g_resolve g w1 x = g_resolve g w x" "g_resolve g (env w1) (trunk_ref_name (lr_trunk r)) = g_resolve g w (trunk_ref_name (lr_trunk r))"
      "\<And>x. g_resolve g w' x = (if x = (trunk_ref_name (lr_trunk r)) then Some sha else g_resolve g (env w1) x)"
      "g_lookup g w' sha = Some (landed_commit g r w tree)"
proof -
  let ?ref = "trunk_ref_name (lr_trunk r)"
  obtain res w1 where c: "g_commit_tree g (landed_commit g r w tree) w = (res, w1)" by (cases "g_commit_tree g (landed_commit g r w tree) w")
  have same: "g_resolve g w1 x = g_resolve g w x" for x
    using git_laws_commit(1) [OF assms(1), of "landed_commit g r w tree" w x] c by simp
  show thesis
  proof (cases res)
    case None
    then show thesis using c same by (intro failed [of w1]) (simp_all add: publish_def publish_commit [OF assms(1)])
  next
    case (Some sha)
    have written: "g_lookup g w1 sha = Some (landed_commit g r w tree)" "valid_oid sha"
      using git_laws_commit(2,3) [OF assms(1), of "landed_commit g r w tree" w sha] c Some by simp_all
    obtain ok w' where u: "g_update_ref g ?ref sha (expected_tip g r w) (env w1) = (ok, w')" by fastforce
    note up = git_laws_update [OF assms(1) written(2), of ?ref "expected_tip g r w" "env w1", unfolded u fst_conv snd_conv]
    have pub: "publish g env r tree (expected_tip g r w) w =
        (Inr (if ok then no_outcome\<lparr>lo_landed := True, lo_sha := sha\<rparr> else no_outcome\<lparr>lo_race := True\<rparr>), w')"
      using c Some u by (simp add: publish_def publish_commit [OF assms(1)] advance_def)
    have look: "g_lookup g w' sha = Some (landed_commit g r w tree)"
      using up(3) written(1) assms(2) by (simp add: env_ok_def)
    have ok_iff: "ok \<longleftrightarrow> g_resolve g (env w1) ?ref = g_resolve g w ?ref"
      using up(1) expected_matches [OF assms(1) same, of "env w1" ?ref r] by simp
    show thesis
    proof (cases ok)
      case True
      then show thesis using pub same ok_iff up(2) look by (intro won [of sha w' w1]) auto
    next
      case False
      then show thesis using pub same ok_iff up(2) by (intro lost [of w' w1]) auto
    qed
  qed
qed

lemma land_race_moved:
  assumes "git_laws g" "env_ok g env" "land g env r w = (Inr out, w')" "lo_race out"
  shows "\<exists>w1. g_resolve g w1 (trunk_ref_name (lr_trunk r)) \<noteq> g_resolve g (env w1) (trunk_ref_name (lr_trunk r))"
proof (cases rule: land_cases [of g env r w])
  case (stopped res)
  then show ?thesis using assms(3,4) by (auto simp: stops_def)
next
  case (published tree)
  show ?thesis
    using assms(1,2)
  proof (cases rule: publish_cases [where r = r and tree = tree and w = w])
    case (failed w1)
    then show ?thesis using published assms(3) by simp
  next
    case (lost w1 w'')
    then show ?thesis by metis
  next
    case (won w1 w'' sha)
    then show ?thesis using published assms(3,4) by (auto simp: no_outcome_def)
  qed
qed

lemma land_attempt_race:
  assumes "git_laws g" "env_ok g env" "land_attempt g rd sv c scope env opts w = (Inr out, opts', w')" "lo_race out"
  shows "\<exists>w1. g_resolve g w1 (trunk_ref_name (ls_trunk sv)) \<noteq> g_resolve g (env w1) (trunk_ref_name (ls_trunk sv))"
proof -
  obtain r w0 where "land g env r w0 = (Inr out, w')" "lr_trunk r = ls_trunk sv"
    using assms(3) unfolding land_attempt_def Let_def by (auto split: option.splits prod.splits)
  then show ?thesis using land_race_moved [OF assms(1,2) _ assms(4)] by metis
qed

definition raced :: "land_error + land_outcome \<Rightarrow> bool" where
  "raced res = (case res of Inl e \<Rightarrow> False | Inr out \<Rightarrow> lo_race out)"

definition quiet :: "'w git \<Rightarrow> string \<Rightarrow> ('w \<Rightarrow> 'w) \<Rightarrow> bool" where
  "quiet g ref env \<longleftrightarrow> (\<forall>w. g_resolve g (env w) ref = g_resolve g w ref)"

lemma land_loop_settles:
  assumes "git_laws g" "\<And>i. env_ok g (env i)" "k < n" "quiet g (trunk_ref_name (ls_trunk sv)) (env k)"
  shows "\<not> raced (fst (land_loop n g rd sv c scope env opts w))"
  using assms(3)
proof (induction n arbitrary: opts w)
  case (Suc n)
  obtain res opts' w' where a: "land_attempt g rd sv c scope (env n) opts w = (res, opts', w')" by (metis prod_cases3)
  show ?case
  proof (cases "raced res")
    case False
    then show ?thesis using a by (cases res) (auto simp: raced_def)
  next
    case True
    then obtain out where out: "res = Inr out" "lo_race out" by (cases res) (auto simp: raced_def)
    then have "\<not> quiet g (trunk_ref_name (ls_trunk sv)) (env n)"
      using land_attempt_race [OF assms(1,2), of rd sv c scope n opts w out opts' w'] a unfolding quiet_def by metis
    then have "k < n" using Suc.prems assms(4) by (cases "k = n") auto
    then show ?thesis using Suc.IH a out by simp
  qed
qed simp

section \<open>A repository to run on\<close>

text \<open>A concrete git for the closed instances: refs and commits as maps, ids minted from the number
  of commits, a merge that always applies cleanly.\<close>

record repo =
  rp_refs :: "(string, string) gomap"
  rp_commits :: "(string, commit) gomap"
  rp_count :: nat

definition repo_oid :: "nat \<Rightarrow> string" where
  "repo_oid n = CHR ''c'' # show_nat n"

definition repo_git :: "repo git" where
  "repo_git =
     \<lparr>g_resolve = (\<lambda>w r. case gm_get (rp_refs w) r of None \<Rightarrow> None | Some x \<Rightarrow> if valid_oid x then Some x else None),
      g_update_ref = (\<lambda>r new old w.
        if (case gm_get (rp_refs w) r of None \<Rightarrow> None | Some x \<Rightarrow> if valid_oid x then Some x else None)
             = (if old = zero_oid then None else Some old)
        then (True, w\<lparr>rp_refs := gm_put (rp_refs w) r new\<rparr>) else (False, w)),
      g_tree_of = (\<lambda>w x. map_option co_tree (gm_get (rp_commits w) x)),
      g_commit_tree = (\<lambda>c w. (Some (repo_oid (rp_count w)),
        w\<lparr>rp_count := rp_count w + 1, rp_commits := gm_put (rp_commits w) (repo_oid (rp_count w)) c\<rparr>)),
      g_lookup = (\<lambda>w x. gm_get (rp_commits w) x),
      g_diff_names = (\<lambda>w a b. Some []),
      g_merge_tree = (\<lambda>w b n h. (Exited 0, ''merged'')),
      g_version_ok = True\<rparr>"

lemma repo_oid_valid: "valid_oid (repo_oid n)"
  by (simp add: valid_oid_def repo_oid_def zero_oid_def numeral_eq_Suc)

lemma repo_git_laws: "git_laws repo_git"
  by (simp add: git_laws_def repo_git_def repo_oid_valid split: option.splits)

definition demo_repo :: repo where
  "demo_repo = \<lparr>rp_refs = [(''refs/heads/main'', ''c1'')],
     rp_commits = [(''c2'', \<lparr>co_tree = ''t2'', co_parent = Some ''c1'', co_message = ''m'', co_author = default_identity,
       co_committer = default_identity\<rparr>)], rp_count = 3\<rparr>"

definition demo_request :: land_request where
  "demo_request = \<lparr>lr_trunk = ''main'', lr_base = ''c1'', lr_head = ''c2'', lr_scope = [], lr_affected = zero_affected,
     lr_projects = [], lr_opts = base_options [], lr_message = ''m'', lr_identity = default_identity\<rparr>"

lemma land_compare_and_swap_aux:
  assumes "git_laws g" "env_ok g env" "land g env r w = (Inr out, w')"
  shows "lo_landed out \<Longrightarrow> landed_tree g r w \<noteq> None"
  using land_split [of g env r w] assms(3) by (auto simp: stops_def)

lemma compute_nothing:
  "\<not> ar_run_everything (compute [] [] (base_options []))" "ar_projects (compute [] [] (base_options [])) = []"
proof -
  have "dedup_sorted [] = []" "close_over_dependents [] gm_empty = (gm_empty, False)" by code_simp+
  then show "\<not> ar_run_everything (compute [] [] (base_options []))" "ar_projects (compute [] [] (base_options [])) = []"
    by (simp_all add: compute_def seed_consumers_def scan_start_def)
qed

lemma demo_tip: "g_resolve repo_git demo_repo ''refs/heads/main'' = Some ''c1''"
  by (simp add: repo_git_def demo_repo_def gm_get_def valid_oid_def zero_oid_def numeral_eq_Suc)

text \<open>Nobody else acting, a publication on this repository lands.\<close>

lemma repo_publishes:
  obtains sha w' where "publish repo_git id r tree (expected_tip repo_git r w) w = (Inr (no_outcome\<lparr>lo_landed := True, lo_sha := sha\<rparr>), w')"
proof -
  have "env_ok repo_git id" by (simp add: env_ok_def)
  with repo_git_laws show thesis
  proof (cases rule: publish_cases [where r = r and tree = tree and w = w])
    case (failed w1)
    then show thesis
      by (simp add: publish_def publish_commit [OF repo_git_laws]) (simp add: repo_git_def advance_def split_beta)
  next
    case (lost w1 w')
    then show thesis by simp
  next
    case (won w1 w' sha)
    then show thesis using that by blast
  qed
qed

lemma moved_landing:
  obtains out w' where "land repo_git id (demo_request\<lparr>lr_base := ''c0'', lr_scope := scope_intersection\<rparr>) demo_repo = (Inr out, w')"
    "lo_landed out"
proof -
  define r where "r = demo_request\<lparr>lr_base := ''c0'', lr_scope := scope_intersection\<rparr>"
  have ref: "trunk_ref_name (lr_trunk r) = ''refs/heads/main''" by (simp add: r_def demo_request_def trunk_ref_name_def)
  have tip: "tip_of repo_git r demo_repo = ''c1''" by (simp add: tip_of_def ref demo_tip)
  have "diff_paths repo_git ''c0'' ''c1'' demo_repo = Some []"
    by (simp add: diff_paths_def repo_git_def go_trim_right_def)
  then have due: "revalidation_due repo_git r ''c1'' demo_repo = Some False"
    by (simp add: revalidation_due_def r_def demo_request_def needs_trunk_delta_def needs_revalidation_def scope_defs
        compute_nothing zero_affected_def intersects_projects_def)
  have reb: "rebase repo_git ''c0'' ''c1'' ''c2'' demo_repo = Clean ''merged''"
    by (simp add: rebase_def repo_git_def go_trim_right_def)
  have exp: "expected_tip repo_git r demo_repo = ''c1''" by (simp add: expected_tip_def ref demo_tip tip)
  obtain sha w' where "publish repo_git id r ''merged'' ''c1'' demo_repo = (Inr (no_outcome\<lparr>lo_landed := True, lo_sha := sha\<rparr>), w')"
    by (rule repo_publishes [of r "''merged''" demo_repo, unfolded exp])
  then show thesis
    using that [of "no_outcome\<lparr>lo_landed := True, lo_sha := sha\<rparr>" w'] due reb tip ref demo_tip
    by (simp add: land_def Let_def r_def demo_request_def no_outcome_def)
qed

lemma demo_landing:
  obtains sha w' where "land repo_git id demo_request demo_repo = (Inr (no_outcome\<lparr>lo_landed := True, lo_sha := sha\<rparr>), w')"
proof -
  have ref: "trunk_ref_name (lr_trunk demo_request) = ''refs/heads/main''" by (simp add: demo_request_def trunk_ref_name_def)
  have tip: "tip_of repo_git demo_request demo_repo = ''c1''" by (simp add: tip_of_def ref demo_tip)
  have exp: "expected_tip repo_git demo_request demo_repo = ''c1''" by (simp add: expected_tip_def ref demo_tip tip)
  have tree: "g_tree_of repo_git demo_repo ''c2'' = Some ''t2''" by (simp add: repo_git_def demo_repo_def gm_get_def)
  have fields: "lr_base demo_request = ''c1''" "lr_head demo_request = ''c2''" by (simp_all add: demo_request_def)
  obtain sha w' where "publish repo_git id demo_request ''t2'' ''c1'' demo_repo = (Inr (no_outcome\<lparr>lo_landed := True, lo_sha := sha\<rparr>), w')"
    by (rule repo_publishes [of demo_request "''t2''" demo_repo, unfolded exp])
  then show thesis using that tip ref demo_tip tree fields by (simp add: land_def Let_def)
qed

section \<open>Properties\<close>

text \<open>C37. A landing is a compare-and-swap: it moves trunk only if trunk is still the tip it read, so
  no other landing is overwritten; the new trunk commit has that tip as its parent, the landing
  identity as author and committer, and the tree of the head or of the clean merge; every other
  outcome moves no ref.\<close>

theorem land_compare_and_swap:
  fixes g :: "'w git" and env r w out w'
  assumes "git_laws g" "env_ok g env" "land g env r w = (Inr out, w')"
  defines "ref \<equiv> trunk_ref_name (lr_trunk r)"
  shows "\<exists>w1. (\<forall>x. g_resolve g w1 x = g_resolve g w x) \<and>
    (if lo_landed out then
        g_resolve g (env w1) ref = g_resolve g w ref
      \<and> (\<forall>x. g_resolve g w' x = (if x = ref then Some (lo_sha out) else g_resolve g (env w1) x))
      \<and> (\<exists>tree. landed_tree g r w = Some tree \<and> g_lookup g w' (lo_sha out) = Some (landed_commit g r w tree))
     else if lo_race out then
        g_resolve g (env w1) ref \<noteq> g_resolve g w ref \<and> (\<forall>x. g_resolve g w' x = g_resolve g (env w1) x)
     else w' = w)"
proof (cases rule: land_cases [of g env r w])
  case (stopped res)
  then show ?thesis using assms(3) by (intro exI [of _ w]) (auto simp: stops_def)
next
  case (published tree)
  show ?thesis
    using assms(1,2)
  proof (cases rule: publish_cases [where r = r and tree = tree and w = w])
    case (failed w1)
    then show ?thesis using published assms(3) by simp
  next
    case (lost w1 w'')
    then show ?thesis using published assms(3) by (intro exI [of _ w1]) (auto simp: no_outcome_def ref_def)
  next
    case (won w1 w'' sha)
    then show ?thesis using published assms(3) by (intro exI [of _ w1]) (auto simp: no_outcome_def ref_def)
  qed
qed

theorem land_compare_and_swap_witness:
  "\<exists>w1. g_resolve repo_git w1 ''refs/heads/main'' = Some ''c1''
     \<and> lo_landed (case fst (land repo_git id demo_request demo_repo) of Inr out \<Rightarrow> out | Inl _ \<Rightarrow> no_outcome)"
proof -
  obtain sha w' where run: "land repo_git id demo_request demo_repo = (Inr (no_outcome\<lparr>lo_landed := True, lo_sha := sha\<rparr>), w')"
    by (rule demo_landing)
  have "env_ok repo_git id" by (simp add: env_ok_def)
  from land_compare_and_swap [OF repo_git_laws this run]
  obtain w1 where "g_resolve repo_git w1 ''refs/heads/main'' = g_resolve repo_git demo_repo ''refs/heads/main''" by blast
  also have "\<dots> = Some ''c1''" by (rule demo_tip)
  finally show ?thesis using run by (auto simp: no_outcome_def)
qed

text \<open>C39. The retry loop does not give a race back to its caller when in one of its five attempts
  nobody else moves trunk: it lands, or answers with a conflict, a revalidation or an error.\<close>

theorem attempt_land_settles:
  fixes g :: "'w git" and env :: "nat \<Rightarrow> 'w \<Rightarrow> 'w"
  assumes "git_laws g" "\<And>i. env_ok g (env i)" "k < 5" "quiet g (trunk_ref_name (ls_trunk sv)) (env k)"
  shows "\<not> raced (fst (attempt_land g rd sv c scope env w))"
  using land_loop_settles [of g env k 5 sv, OF assms(1,2) _ assms(4)] assms(3)
  by (simp add: attempt_land_def max_land_race_retries_def)

definition demo_server :: land_server where
  "demo_server = \<lparr>ls_trunk = ''main'', ls_root_patterns = [], ls_identity = default_identity\<rparr>"

definition demo_reads :: "repo land_reads" where
  "demo_reads = \<lparr>rd_index = (\<lambda>w t. Some []), rd_message = (\<lambda>w x. Some ''m'')\<rparr>"

definition demo_change :: land_change where
  "demo_change = \<lparr>lc_key = ''I1'', lc_title = ''t'', lc_base = ''c1'', lc_head = ''c2''\<rparr>"

text \<open>Someone else's landing, on every attempt but the last.\<close>

definition busy :: "nat \<Rightarrow> repo \<Rightarrow> repo" where
  "busy i w = (if i = 0 then w else w\<lparr>rp_refs := gm_put (rp_refs w) ''refs/heads/main'' (CHR ''x'' # show_nat i)\<rparr>)"

theorem attempt_land_settles_witness:
  "\<not> raced (fst (attempt_land repo_git demo_reads demo_server demo_change [] busy demo_repo))"
  by (rule attempt_land_settles [of repo_git busy 0])
    (simp_all add: repo_git_laws, simp_all add: env_ok_def quiet_def busy_def repo_git_def)

text \<open>Under the affected-intersection tier a Change whose trunk has moved lands without a new run
  of its checks only if the trunk delta was computed, neither side asks to run everything and no
  affected project is on both sides; under the always tier it never does.\<close>

theorem moved_trunk_revalidates:
  fixes g :: "'w git" and env r w out w'
  assumes "git_laws g" "env_ok g env" "land g env r w = (Inr out, w')" "lo_landed out" "tip_of g r w \<noteq> lr_base r"
    "needs_trunk_delta (lr_scope r)"
  defines "delta \<equiv> \<lambda>paths. compute (lr_projects r) paths (lr_opts r)"
  shows "lr_scope r = scope_intersection \<and> (\<exists>paths. diff_paths g (lr_base r) (tip_of g r w) w = Some paths
     \<and> \<not> ar_run_everything (lr_affected r) \<and> \<not> ar_run_everything (delta paths)
     \<and> set (map pr_name (ar_projects (lr_affected r))) \<inter> set (map pr_name (ar_projects (delta paths))) = {})"
proof -
  have "landed_tree g r w \<noteq> None"
    using land_compare_and_swap_aux [OF assms(1-3)] assms(4) by auto
  then have "revalidation_due g r (tip_of g r w) w = Some False"
    using assms(5) by (auto simp: landed_tree_def split: if_splits)
  then obtain paths where paths: "diff_paths g (lr_base r) (tip_of g r w) w = Some paths"
      "\<not> needs_revalidation (lr_scope r) (lr_affected r) (delta paths)"
    using assms(6) by (auto simp: revalidation_due_def delta_def split: option.splits)
  have s: "lr_scope r = scope_intersection"
    using paths(2) assms(6) by (auto simp: needs_revalidation_def needs_trunk_delta_def scope_defs)
  then show ?thesis
    using paths by (fastforce simp: needs_revalidation_def scope_defs intersects_projects_def list_ex_iff image_iff split: if_splits)
qed

text \<open>A landing over a moved trunk under the intersection tier, with the observed tip one commit on.\<close>

definition moved_request :: land_request where
  "moved_request = demo_request\<lparr>lr_base := ''c0'', lr_scope := scope_intersection\<rparr>"

theorem moved_trunk_revalidates_witness:
  "\<exists>paths. diff_paths repo_git ''c0'' ''c1'' demo_repo = Some paths
     \<and> \<not> ar_run_everything (compute [] paths (base_options []))"
proof -
  have tip: "tip_of repo_git moved_request demo_repo = ''c1''"
    by (simp add: tip_of_def moved_request_def demo_request_def trunk_ref_name_def demo_tip)
  obtain out w' where run: "land repo_git id moved_request demo_repo = (Inr out, w')" "lo_landed out"
    unfolding moved_request_def by (rule moved_landing)
  have "env_ok repo_git id" by (simp add: env_ok_def)
  from moved_trunk_revalidates [OF repo_git_laws this run]
  show ?thesis
    using tip by (auto simp: moved_request_def demo_request_def needs_trunk_delta_def)
qed

text \<open>An attempt ends in at most one of the four outcomes, landed, revalidation, conflicts, race;
  it ends in none of them exactly when the merge is unclean and no line of its report names a
  path, a result the caller's last case takes for an exhausted retry loop.\<close>

theorem land_outcome_exclusive:
  fixes g :: "'w git" and env r w out w'
  assumes "land g env r w = (Inr out, w')"
  shows "length (filter id [lo_landed out, lo_revalidate out, lo_conflicts out \<noteq> [], lo_race out]) \<le> 1
    \<and> (\<not> lo_landed out \<and> \<not> lo_revalidate out \<and> lo_conflicts out = [] \<and> \<not> lo_race out \<longleftrightarrow>
        tip_of g r w \<noteq> lr_base r \<and> revalidation_due g r (tip_of g r w) w = Some False
        \<and> rebase g (lr_base r) (tip_of g r w) (lr_head r) w = Conflicted [])"
  using assms unfolding land_def Let_def publish_def advance_def
  by (auto simp: no_outcome_def split: option.splits bool.splits rebase_result.splits prod.splits if_splits)

text \<open>A merge that git leaves unclean over the types of a file, which its report does not name as a path.\<close>

definition torn_git :: "repo git" where
  "torn_git = repo_git\<lparr>g_merge_tree := (\<lambda>w b n h. (Exited 1, ''t9'' @ newline #
     ''CONFLICT (distinct types): f had different types on each side; renamed both of them so each can be recorded somewhere.''))\<rparr>"

definition torn_request :: land_request where
  "torn_request = demo_request\<lparr>lr_base := ''c0'', lr_scope := scope_never\<rparr>"

lemma torn_landing: "land torn_git id torn_request demo_repo = (Inr no_outcome, demo_repo)"
proof -
  have ref: "trunk_ref_name (lr_trunk torn_request) = ''refs/heads/main''"
    by (simp add: torn_request_def demo_request_def trunk_ref_name_def)
  have get: "g_resolve torn_git demo_repo ''refs/heads/main'' = Some ''c1''" using demo_tip by (simp add: torn_git_def)
  have tip: "tip_of torn_git torn_request demo_repo = ''c1''" by (simp add: tip_of_def ref get)
  have due: "revalidation_due torn_git torn_request ''c1'' demo_repo = Some False"
    by (simp add: revalidation_due_def torn_request_def needs_trunk_delta_def scope_defs)
  have "rebase torn_git ''c0'' ''c1'' ''c2'' demo_repo = Conflicted []" by code_simp
  then show ?thesis
    using tip due by (simp add: land_def Let_def ref get) (simp add: torn_request_def demo_request_def no_outcome_def)
qed

theorem land_outcome_exclusive_witness:
  "(\<exists>out w'. land repo_git id demo_request demo_repo = (Inr out, w')
      \<and> lo_landed out \<and> \<not> lo_revalidate out \<and> lo_conflicts out = [] \<and> \<not> lo_race out)
   \<and> (\<exists>out w'. land torn_git id torn_request demo_repo = (Inr out, w')
      \<and> \<not> lo_landed out \<and> \<not> lo_revalidate out \<and> lo_conflicts out = [] \<and> \<not> lo_race out
      \<and> rebase torn_git (lr_base torn_request) (tip_of torn_git torn_request demo_repo) (lr_head torn_request) demo_repo = Conflicted [])"
proof (intro conjI)
  obtain sha w' where run: "land repo_git id demo_request demo_repo = (Inr (no_outcome\<lparr>lo_landed := True, lo_sha := sha\<rparr>), w')"
    by (rule demo_landing)
  let ?out = "no_outcome\<lparr>lo_landed := True, lo_sha := sha\<rparr>"
  have landed: "lo_landed ?out" by simp
  have "\<not> lo_revalidate ?out \<and> lo_conflicts ?out = [] \<and> \<not> lo_race ?out"
    using land_outcome_exclusive [OF run, THEN conjunct1] landed by (simp split: if_splits)
  then show "\<exists>out w'. land repo_git id demo_request demo_repo = (Inr out, w')
      \<and> lo_landed out \<and> \<not> lo_revalidate out \<and> lo_conflicts out = [] \<and> \<not> lo_race out"
    using run landed by blast
  have none: "\<not> lo_landed no_outcome \<and> \<not> lo_revalidate no_outcome \<and> lo_conflicts no_outcome = [] \<and> \<not> lo_race no_outcome"
    by (simp add: no_outcome_def)
  show "\<exists>out w'. land torn_git id torn_request demo_repo = (Inr out, w')
      \<and> \<not> lo_landed out \<and> \<not> lo_revalidate out \<and> lo_conflicts out = [] \<and> \<not> lo_race out
      \<and> rebase torn_git (lr_base torn_request) (tip_of torn_git torn_request demo_repo) (lr_head torn_request) demo_repo = Conflicted []"
    using land_outcome_exclusive [OF torn_landing, THEN conjunct2] torn_landing none by blast
qed

text \<open>Two of git's conflict reports: the first names no path, the second is read as the path
  \<open>tree.\<close>.\<close>

lemma conflict_reports:
  "conflict_path ''CONFLICT (content): Merge conflict in web/main.go'' = Some ''web/main.go''"
  "conflict_path ''CONFLICT (distinct types): f had different types on each side; renamed both of them so each can be recorded somewhere.'' = None"
  "conflict_path ''CONFLICT (modify/delete): f deleted in a and modified in b.  Version b of f left in tree.'' = Some ''tree.''"
  by code_simp+

section \<open>Reading an identity back\<close>

lemma cut_last_append: "c \<notin> set t \<Longrightarrow> cut_last c (s @ c # t) = Some (s, t)"
proof -
  assume "c \<notin> set t"
  then have "takeWhile (\<lambda>x. x \<noteq> c) (rev t @ c # rev s) = rev t"
    by (subst takeWhile_append2) auto
  then show ?thesis by (simp add: cut_last_def)
qed

lemma go_trim_space_id: "s \<noteq> [] \<Longrightarrow> \<not> is_space (hd s) \<Longrightarrow> \<not> is_space (last s) \<Longrightarrow> go_trim_space s = s"
  by (simp add: go_trim_space_def go_trim_left_def go_trim_right_def dropWhile_eq_self_iff [THEN iffD2] hd_rev)

lemma go_trim_space_pad: "s \<noteq> [] \<Longrightarrow> \<not> is_space (hd s) \<Longrightarrow> \<not> is_space (last s) \<Longrightarrow> go_trim_space (s @ '' '') = s"
proof -
  assume s: "s \<noteq> []" "\<not> is_space (hd s)" "\<not> is_space (last s)"
  then have "go_trim_left is_space (s @ '' '') = s @ '' ''"
    by (simp add: go_trim_left_def dropWhile_eq_self_iff)
  moreover have "is_space CHR '' ''" by (simp add: is_space_def)
  ultimately show ?thesis
    using s by (simp add: go_trim_space_def go_trim_right_def dropWhile_eq_self_iff [THEN iffD2] hd_rev)
qed

definition show_identity :: "identity \<Rightarrow> string" where
  "show_identity i = id_name i @ '' <'' @ id_email i @ ''>''"

definition printable_identity :: "identity \<Rightarrow> bool" where
  "printable_identity i \<longleftrightarrow> id_name i \<noteq> [] \<and> \<not> is_space (hd (id_name i)) \<and> \<not> is_space (last (id_name i))
     \<and> id_email i \<noteq> [] \<and> \<not> is_space (hd (id_email i)) \<and> \<not> is_space (last (id_email i))
     \<and> CHR ''<'' \<notin> set (id_email i) \<and> CHR ''>'' \<notin> set (id_email i)"

text \<open>An identity in git's format reads back as it was, for every trimmed name, brackets in it
  included, and every trimmed address without brackets.\<close>

theorem parse_identity_round_trip:
  assumes "printable_identity i"
  shows "parse_identity (show_identity i) = Some i"
proof -
  let ?n = "id_name i" and ?e = "id_email i"
  note p = assms [unfolded printable_identity_def]
  have s: "show_identity i = (?n @ '' '') @ CHR ''<'' # (?e @ ''>'')" "show_identity i = (?n @ '' <'' @ ?e) @ CHR ''>'' # []"
    by (simp_all add: show_identity_def)
  have "\<not> is_space (last (show_identity i))" by (simp add: show_identity_def is_space_def)
  then have trim: "go_trim_space (show_identity i) = show_identity i"
    using p by (intro go_trim_space_id) (simp_all add: show_identity_def)
  have lt: "cut_last CHR ''<'' (show_identity i) = Some (?n @ '' '', ?e @ ''>'')"
    unfolding s(1) by (rule cut_last_append) (use p in simp)
  have gt: "cut_last CHR ''>'' (show_identity i) = Some (?n @ '' <'' @ ?e, [])"
    unfolding s(2) by (rule cut_last_append) simp
  show ?thesis
    using p by (simp add: parse_identity_def Let_def trim lt gt go_trim_space_pad go_trim_space_id)
qed

theorem parse_identity_round_trip_witness:
  "parse_identity (show_identity default_identity) = Some default_identity"
  by (rule parse_identity_round_trip) (simp add: printable_identity_def default_identity_def is_space_def)

end
