(* ===== verification/Gate.thy ===== *)
theory Gate
  imports StoreInvariant Land Deploy
begin

text \<open>
  The merge gate of the daemon (\<open>runkod/api.go\<close>, \<open>runkod/review.go\<close>, \<open>runkod/history.go\<close>,
  \<open>runkod/principal.go\<close>, \<open>runkod/botlane.go\<close>): which checks and owners a Change needs, who satisfies
  them, and the requirements that \<open>mergeRequirements\<close> aggregates. The gate reads the Change's own
  tree for what is required and trunk's tree for what is waived. Git reads, the index scan and
  \<open>strconv.Quote\<close> are parameters; the daemon's memo tables are transparent and not modelled.
\<close>

section \<open>Callers and configuration\<close>

record caller =
  pn_name :: string
  pn_is_agent :: bool
  pn_admin :: bool
  pn_policy :: agent_policy
  pn_stored :: bool

record bot_lane =
  bl_name :: string
  bl_allowlist :: "string list"
  bl_required :: "string list"
  bl_tags :: "string list"

text \<open>What reading the org's settings answers: no directory is wired, the read fails, or a row.\<close>

datatype settings_read = NoDirectory | Unreadable | Settings org_settings

record 'w gate =
  gt_git :: "'w git"
  gt_reads :: "'w land_reads"
  gt_is_ancestor :: "'w \<Rightarrow> string \<Rightarrow> string \<Rightarrow> bool"
  gt_rev_counts :: "'w \<Rightarrow> string \<Rightarrow> string \<Rightarrow> (int \<times> int) option"
  gt_quote :: "string \<Rightarrow> string"
  gt_server :: land_server
  gt_global_checks :: "string list"
  gt_settings :: settings_read
  gt_org_policy :: "agent_policy option"
  gt_revalidation :: string
  gt_allow_unpoliced :: bool
  gt_principals :: "caller list"
  gt_single_use :: bool

definition trunk_ref :: "'w gate \<Rightarrow> string" where
  "trunk_ref g = trunk_ref_name (ls_trunk (gt_server g))"

definition trunk_tip :: "'w gate \<Rightarrow> 'w \<Rightarrow> string option" where
  "trunk_tip g w = g_resolve (gt_git g) w (trunk_ref g)"

section \<open>Policy resolution\<close>

definition merge_check_names :: "string list \<Rightarrow> string list \<Rightarrow> string list" where
  "merge_check_names names extra =
     (if extra = [] then names
      else sort (fold (\<lambda>n out. if n \<noteq> [] \<and> n \<notin> set out then out @ [n] else out) extra names))"

definition effective_global_checks :: "'w gate \<Rightarrow> string list" where
  "effective_global_checks g =
     (case gt_settings g of Settings st \<Rightarrow> merge_check_names (gt_global_checks g) (os_global_checks st)
      | _ \<Rightarrow> gt_global_checks g)"

definition resolve_revalidation :: "settings_read \<Rightarrow> string \<Rightarrow> string" where
  "resolve_revalidation settings flag =
     (let default = (if flag = [] then scope_conflict_only else flag) in
      case settings of
        Settings st \<Rightarrow>
          if os_revalidation st \<in> {scope_conflict_only, scope_intersection, scope_always}
          then os_revalidation st else default
      | _ \<Rightarrow> default)"

definition require_resolved_threads :: "'w gate \<Rightarrow> bool" where
  "require_resolved_threads g = (case gt_settings g of Settings st \<Rightarrow> os_require_resolved st | _ \<Rightarrow> False)"

text \<open>The veto is a kill switch: an unreadable row reads as disabled.\<close>

definition auto_approve_disabled :: "'w gate \<Rightarrow> bool" where
  "auto_approve_disabled g =
     (case gt_settings g of NoDirectory \<Rightarrow> False | Unreadable \<Rightarrow> True | Settings st \<Rightarrow> os_disable_auto_approve st)"

definition auto_approve_zones :: "'w gate \<Rightarrow> 'w \<Rightarrow> indexed_project list" where
  "auto_approve_zones g w =
     (if auto_approve_disabled g then []
      else case trunk_tip g w of
             None \<Rightarrow> []
           | Some tip \<Rightarrow> (case rd_index (gt_reads g) w tip of None \<Rightarrow> [] | Some ps \<Rightarrow> ps))"

definition agent_policy_or :: "'w gate \<Rightarrow> agent_policy \<Rightarrow> agent_policy" where
  "agent_policy_or g fallback = (case gt_org_policy g of Some p \<Rightarrow> p | None \<Rightarrow> fallback)"

text \<open>The policy of the agent a name belongs to, None for a human, an account or no name.\<close>

definition agent_policy_for_author :: "'w gate \<Rightarrow> mem_store \<Rightarrow> string \<Rightarrow> agent_policy option" where
  "agent_policy_for_author g s name =
     (if name = [] then None
      else case find (\<lambda>p. pn_name p = name) (gt_principals g) of
             Some p \<Rightarrow> if pn_is_agent p then Some (agent_policy_or g (pn_policy p)) else None
           | None \<Rightarrow> if get_agent_by_name s name \<noteq> None then Some (agent_policy_or g default_agent_policy) else None)"

definition is_agent_name :: "'w gate \<Rightarrow> mem_store \<Rightarrow> string \<Rightarrow> bool" where
  "is_agent_name g s name =
     (if name = [] then False
      else case find (\<lambda>p. pn_name p = name) (gt_principals g) of
             Some p \<Rightarrow> pn_is_agent p
           | None \<Rightarrow> get_agent_by_name s name \<noteq> None)"

definition paths_outside_allowlist :: "bot_lane \<Rightarrow> string list \<Rightarrow> string list" where
  "paths_outside_allowlist l paths = filter (\<lambda>p. \<not> list_ex (\<lambda>pat. match_path pat p) (bl_allowlist l)) paths"

section \<open>What a Change touches and needs\<close>

definition compute_affected :: "'w gate \<Rightarrow> 'w \<Rightarrow> change \<Rightarrow> (aff_result \<times> indexed_project list) option" where
  "compute_affected g w c =
     (case rd_index (gt_reads g) w (ch_head c) of
        None \<Rightarrow> None
      | Some indexed \<Rightarrow>
          (case git_diff_names_only (gt_git g) (if ch_base c = [] then empty_tree_oid else ch_base c) (ch_head c) w of
             None \<Rightarrow> None
           | Some paths \<Rightarrow>
               Some (compute (affected_project_infos indexed) paths
                       \<lparr>opt_root_inval = root_invalidation indexed @ ls_root_patterns (gt_server g), opt_refinable = [],
                        opt_refinable_handled = False, opt_strictness = [], opt_prose = prose indexed\<rparr>, indexed)))"

definition owning_step :: "string \<Rightarrow> indexed_project option \<Rightarrow> indexed_project \<Rightarrow> indexed_project option" where
  "owning_step path best p =
     (if \<not> (ip_path p = [] \<or> path = ip_path p \<or> prefix (ip_path p @ ''/'') path) then best
      else case best of
             None \<Rightarrow> Some p
           | Some b \<Rightarrow> if length (ip_path p) > length (ip_path b) then Some p else best)"

definition owning_project :: "indexed_project list \<Rightarrow> string \<Rightarrow> indexed_project option" where
  "owning_project indexed path = foldl (owning_step path) None indexed"

definition scoped_projects :: "aff_result \<Rightarrow> indexed_project list \<Rightarrow> (indexed_project \<times> bool) list" where
  "scoped_projects result indexed =
     (if ar_run_everything result then map (\<lambda>p. (p, True)) indexed
      else let names = fold (\<lambda>p m. gm_put m (ip_name p) p) indexed gm_empty
           in concat (map (\<lambda>r. case gm_get names (pr_name r) of None \<Rightarrow> [] | Some p \<Rightarrow> [(p, pr_direct r)]) (ar_projects result)))"

definition required_check_names :: "aff_result \<Rightarrow> indexed_project list \<Rightarrow> string list" where
  "required_check_names result indexed =
     sorted_names (concat (map (\<lambda>(p, direct). map cd_name (checks_for p direct)) (scoped_projects result indexed)))"

text \<open>The required owners of the touched paths; a name maps to True while every path that asks for
  it lies in an auto-approve zone.\<close>

definition note_owner :: "bool \<Rightarrow> owner_entry \<Rightarrow> (string, bool) gomap \<Rightarrow> (string, bool) gomap" where
  "note_owner auto o' m =
     (case gm_get m (oe_ref o') of
        None \<Rightarrow> gm_put m (oe_ref o') auto
      | Some b \<Rightarrow> gm_put m (oe_ref o') (b \<and> auto))"

definition note_path :: "indexed_project list \<Rightarrow> indexed_project list \<Rightarrow> string \<Rightarrow> (string, bool) gomap \<Rightarrow> (string, bool) gomap" where
  "note_path indexed zones path m =
     (case owning_project indexed path of
        None \<Rightarrow> m
      | Some p \<Rightarrow> fold (note_owner (auto_approved zones path)) (ip_owners p) m)"

definition required_owners :: "indexed_project list \<Rightarrow> indexed_project list \<Rightarrow> string list \<Rightarrow> (string, bool) gomap" where
  "required_owners indexed zones paths = fold (note_path indexed zones) paths gm_empty"

definition approved_by_owner :: "'w gate \<Rightarrow> mem_store \<Rightarrow> string \<Rightarrow> string \<Rightarrow> string \<Rightarrow> (string, bool) gomap \<Rightarrow> string \<Rightarrow> bool" where
  "approved_by_owner g s key head author required ref \<longleftrightarrow>
     list_ex (\<lambda>a. av_head a = head \<and> av_owner a = ref) (list_approvals s key)
   \<or> author \<noteq> [] \<and> ref = author \<and> gm_get required author \<noteq> None \<and> agent_policy_for_author g s author = None"

definition owner_requirements ::
  "'w gate \<Rightarrow> mem_store \<Rightarrow> string \<Rightarrow> string \<Rightarrow> string \<Rightarrow> aff_result \<Rightarrow> indexed_project list \<Rightarrow> indexed_project list \<Rightarrow>
   owner_requirement list \<times> bool" where
  "owner_requirements g s key head author result indexed zones =
     (let required = required_owners indexed zones (ar_paths result);
          approved = approved_by_owner g s key head author required;
          refs = sort (gm_keys required)
      in (map (\<lambda>ref. \<lparr>or_owner = ref, or_satisfied = (approved ref \<or> gm_true required ref)\<rparr>) refs,
          list_ex (\<lambda>ref. \<not> approved ref \<and> gm_true required ref) refs))"

section \<open>Stacked bases\<close>

text \<open>Trunk ancestry and the number of landings since, from \<open>git rev-list --left-right --count\<close>; the
  counts are None when the command fails or its output does not parse.\<close>

definition base_trunk_relation :: "'w gate \<Rightarrow> 'w \<Rightarrow> string \<Rightarrow> bool \<times> int" where
  "base_trunk_relation g w base =
     (if base = [] then (True, 0)
      else case trunk_tip g w of
             None \<Rightarrow> (False, 0)
           | Some tip \<Rightarrow>
               if base = tip then (True, 0)
               else (case gt_rev_counts g w base tip of
                       None \<Rightarrow> (False, 0)
                     | Some (l, r) \<Rightarrow> (l = 0, if l = 0 then sint (word_of_int r :: 32 word) else 0)))"

definition base_on_trunk :: "'w gate \<Rightarrow> 'w \<Rightarrow> string \<Rightarrow> bool" where
  "base_on_trunk g w base = fst (base_trunk_relation g w base)"

definition change_with_head :: "mem_store \<Rightarrow> string \<Rightarrow> change option" where
  "change_with_head s head = (if head = [] then None else find (\<lambda>c. ch_head c = head) (list_changes s []))"

definition parent_landed_on_trunk :: "'w gate \<Rightarrow> 'w \<Rightarrow> mem_store \<Rightarrow> string \<Rightarrow> bool" where
  "parent_landed_on_trunk g w s base =
     (if base = [] then False
      else case change_with_head s base of
             None \<Rightarrow> False
           | Some p \<Rightarrow> if ch_state p \<noteq> state_landed \<or> ch_landed_sha p = [] then False else base_on_trunk g w (ch_landed_sha p))"

definition first_line :: "string \<Rightarrow> string" where
  "first_line s = takeWhile (\<lambda>c. c \<noteq> newline) s"

definition stacked_blocker :: "'w gate \<Rightarrow> mem_store \<Rightarrow> string \<Rightarrow> string" where
  "stacked_blocker g s base =
     (case change_with_head s base of
        Some p \<Rightarrow>
          ''stacked on '' @ ch_key p @ '' ('' @ gt_quote g (first_line (ch_title p)) @ '', '' @ ch_state p @ '') - '' @
          (if ch_state p = state_abandoned then ''reopen it (re-push its stack) or rebase this change onto trunk and re-push''
           else if ch_state p = state_landed then ''its landed commit is no longer on trunk - rebase this change onto trunk and re-push''
           else ''land it first'')
      | None \<Rightarrow> ''stacked on a commit trunk does not have (base '' @ take 12 base @ '') - rebase onto trunk and re-push'')"

section \<open>Whose turn it is\<close>

definition attention_set :: "change \<Rightarrow> owner_requirement list \<Rightarrow> review_request list \<Rightarrow> comment list \<Rightarrow> string list" where
  "attention_set c owners requests comments =
     (let current = filter (\<lambda>m. cm_head m = ch_head c) comments;
          commented = set (map cm_author current);
          reviewers = filter (\<lambda>r. r \<noteq> ch_authored_by c \<and> r \<notin> commented) (map rq_reviewer requests);
          waiting_owner = (\<lambda>o'. \<not> or_satisfied o' \<and>
            (case go_cut_prefix (or_owner o') ''user:'' of
               None \<Rightarrow> True | Some n \<Rightarrow> n \<noteq> ch_authored_by c \<and> n \<notin> commented));
          responded = (list_ex (\<lambda>m. cm_author m \<noteq> ch_authored_by c) current \<or> list_ex or_satisfied owners);
          author = (if responded \<and> ch_authored_by c \<noteq> [] then [ch_authored_by c] else [])
      in sorted_names (reviewers @ map or_owner (filter waiting_owner owners) @ author))"

section \<open>The gate\<close>

definition unpoliced_blocker :: string where
  "unpoliced_blocker = ''no merge policy resolves for this change: its touched paths require no checks (no ci.checks, no org global checks) and no owner approvals - landing unpoliced changes is refused outside the eval profile (an ownerless org seeds its governance with `runko org bootstrap`; otherwise declare owners/ci.checks in PROJECT.yaml, or start runkod with --insecure-allow-unpoliced-land)''"

definition description_blocker :: string where
  "description_blocker = ''this change has no description - agent changes must summarize WHAT changed and WHY before landing; add one with `runko change describe --description '' @ [CHR 0x22] @ ''...'' @ [CHR 0x22] @ ''`''"

definition threads_blocker :: "nat \<Rightarrow> string" where
  "threads_blocker n = show_nat n @ '' unresolved review thread(s) - resolve them (this org sets require_resolved_threads)''"

definition unresolved_threads :: "comment list \<Rightarrow> nat" where
  "unresolved_threads cs = length (filter (\<lambda>c. cm_parent c = [] \<and> \<not> cm_resolved c) cs)"

definition block :: "bool \<Rightarrow> string \<Rightarrow> merge_requirements \<Rightarrow> merge_requirements" where
  "block b text mr = (if b then mr\<lparr>mr_mergeable := False, mr_blockers := mr_blockers mr @ [text]\<rparr> else mr)"

definition stale_names :: "go_time \<Rightarrow> string list \<Rightarrow> check_run_view list \<Rightarrow> string list" where
  "stale_names now required runs =
     sort (map cv_name (filter (\<lambda>r. cv_name r \<in> set required \<and> cv_last_seen r \<noteq> 0
       \<and> is_stale (cv_status r) (cv_last_seen r) (cv_ttl r) now) runs))"

text \<open>The check names the gate asks for: the tree's, the org's, the agent-policy check when a run
  under that name exists and the Change is not wholly in a zone, the lane's own.\<close>

definition gate_checks :: "'w gate \<Rightarrow> bot_lane option \<Rightarrow> bool \<Rightarrow> aff_result \<Rightarrow> indexed_project list \<Rightarrow> check_run_view list \<Rightarrow> string list" where
  "gate_checks g lane fully_auto result indexed runs =
     (let n1 = merge_check_names (required_check_names result indexed) (effective_global_checks g);
          n2 = (if list_ex (\<lambda>r. cv_name r = agent_policy_check_name) runs \<and> \<not> fully_auto
                then merge_check_names n1 [agent_policy_check_name] else n1)
      in case lane of None \<Rightarrow> n2 | Some l \<Rightarrow> merge_check_names n2 (bl_required l))"

definition gate_zones :: "'w gate \<Rightarrow> 'w \<Rightarrow> bot_lane option \<Rightarrow> indexed_project list" where
  "gate_zones g w lane = (if lane = None then auto_approve_zones g w else [])"

definition gate_auto :: "'w gate \<Rightarrow> 'w \<Rightarrow> bot_lane option \<Rightarrow> aff_result \<Rightarrow> bool" where
  "gate_auto g w lane result \<longleftrightarrow> lane = None \<and> auto_approved_all (gate_zones g w lane) (ar_paths result)"

definition gate_owners ::
  "'w gate \<Rightarrow> 'w \<Rightarrow> mem_store \<Rightarrow> string \<Rightarrow> change \<Rightarrow> bot_lane option \<Rightarrow> aff_result \<Rightarrow> indexed_project list \<Rightarrow>
   owner_requirement list \<times> bool" where
  "gate_owners g w s key c lane result indexed =
     (if lane = None
      then owner_requirements g s key (ch_head c) (ch_authored_by c) result indexed (gate_zones g w lane) else ([], False))"

text \<open>Owners, checks and stale reporters, aggregated.\<close>

definition gate_aggregate ::
  "'w gate \<Rightarrow> 'w \<Rightarrow> mem_store \<Rightarrow> go_time \<Rightarrow> string \<Rightarrow> change \<Rightarrow> bot_lane option \<Rightarrow> aff_result \<Rightarrow> indexed_project list \<Rightarrow>
   merge_requirements" where
  "gate_aggregate g w s now key c lane result indexed =
     (let runs = list_check_runs s key (ch_head c);
          names = gate_checks g lane (gate_auto g w lane result) result indexed runs;
          (owners, waived) = gate_owners g w s key c lane result indexed
      in (compute_merge_requirements key owners names runs [] (stale_names now names runs) [])
           \<lparr>mr_auto_approved := (lane = None \<and> (waived \<or> gate_auto g w lane result))\<rparr>)"

text \<open>The blockers added after the aggregation: a stacked base, no policy at all, an agent's Change
  without a description, unresolved review threads.\<close>

definition gate_overrides ::
  "'w gate \<Rightarrow> 'w \<Rightarrow> mem_store \<Rightarrow> string \<Rightarrow> change \<Rightarrow> bot_lane option \<Rightarrow> bool \<Rightarrow> merge_requirements \<Rightarrow> merge_requirements" where
  "gate_overrides g w s key c lane fully_auto req1 =
     (let req2 = block (\<not> base_on_trunk g w (ch_base c) \<and> \<not> parent_landed_on_trunk g w s (ch_base c))
            (stacked_blocker g s (ch_base c)) req1;
          req3 = block (lane = None \<and> \<not> gt_allow_unpoliced g \<and> \<not> fully_auto \<and> mr_req_checks req2 = [] \<and> mr_req_owners req2 = [])
            unpoliced_blocker req2;
          req4 = block (lane = None \<and> (case agent_policy_for_author g s (ch_authored_by c) of
              None \<Rightarrow> False | Some p \<Rightarrow> ap_require_description p) \<and> go_trim_space (ch_description c) = [])
            description_blocker req3;
          unresolved = unresolved_threads (list_comments s key 0 0)
      in block (lane = None \<and> require_resolved_threads g \<and> unresolved > 0) (threads_blocker unresolved) req4)"

definition gate_requirements ::
  "'w gate \<Rightarrow> 'w \<Rightarrow> mem_store \<Rightarrow> go_time \<Rightarrow> string \<Rightarrow> change \<Rightarrow> bot_lane option \<Rightarrow> merge_requirements option" where
  "gate_requirements g w s now key c lane =
     (case compute_affected g w c of
        None \<Rightarrow> None
      | Some (result, indexed) \<Rightarrow>
          (let req = gate_overrides g w s key c lane (gate_auto g w lane result)
                       (gate_aggregate g w s now key c lane result indexed)
           in Some (if lane = None
                    then req\<lparr>mr_attention := attention_set c (fst (gate_owners g w s key c lane result indexed))
                           (list_review_requests s key) (list_comments s key 0 0)\<rparr>
                    else req)))"

section \<open>Ownership by longest prefix\<close>

lemma owning_step_alt:
  "owning_step path b p = (if covers (ip_path p) path \<and> (case b of None \<Rightarrow> True | Some q \<Rightarrow> length (ip_path q) < length (ip_path p))
     then Some p else b)"
  by (auto simp: owning_step_def covers_def under_dir_def split: option.splits)

lemma owning_project_longest: "owning_project = longest_by ip_path"
proof (intro ext)
  fix ps path
  have "owning_step path = (\<lambda>b x. if covers (ip_path x) path \<and>
      (case b of None \<Rightarrow> True | Some y \<Rightarrow> length (ip_path y) < length (ip_path x)) then Some x else b)"
    by (intro ext) (rule owning_step_alt)
  then show "owning_project ps path = longest_by ip_path ps path"
    by (simp add: owning_project_def longest_by_def)
qed

interpretation og: longest_owner ip_path owning_project
  unfolding owning_project_longest by (rule lb.longest_owner_axioms)

section \<open>Required owners\<close>

text \<open>A path asks for an owner when the project that owns it lists that owner.\<close>

definition demands :: "indexed_project list \<Rightarrow> string \<Rightarrow> string \<Rightarrow> bool" where
  "demands indexed path ref \<longleftrightarrow> (case owning_project indexed path of None \<Rightarrow> False | Some p \<Rightarrow> ref \<in> oe_ref ` set (ip_owners p))"

lemma fold_note_owner:
  "gm_get (fold (note_owner auto) os m) ref =
     (if ref \<in> oe_ref ` set os then Some ((case gm_get m ref of None \<Rightarrow> True | Some b \<Rightarrow> b) \<and> auto) else gm_get m ref)"
  by (induction os arbitrary: m) (auto simp: note_owner_def split: option.splits)

lemma note_path_get:
  "gm_get (note_path indexed zones path m) ref =
     (if demands indexed path ref then Some ((case gm_get m ref of None \<Rightarrow> True | Some b \<Rightarrow> b) \<and> auto_approved zones path)
      else gm_get m ref)"
  by (auto simp: note_path_def demands_def fold_note_owner split: option.splits)

lemma fold_note_path:
  "gm_get (fold (note_path indexed zones) paths m) ref =
     (if list_ex (\<lambda>p. demands indexed p ref) paths
      then Some ((case gm_get m ref of None \<Rightarrow> True | Some b \<Rightarrow> b) \<and> list_all (\<lambda>p. demands indexed p ref \<longrightarrow> auto_approved zones p) paths)
      else gm_get m ref)"
proof (induction paths arbitrary: m)
  case (Cons p paths)
  show ?case
    by (simp add: Cons.IH note_path_get list_ex_iff list_all_iff split: option.splits)
qed simp

lemma required_owners_get:
  "gm_get (required_owners indexed zones paths) ref =
     (if list_ex (\<lambda>p. demands indexed p ref) paths
      then Some (list_all (\<lambda>p. demands indexed p ref \<longrightarrow> auto_approved zones p) paths) else None)"
  by (simp add: required_owners_def fold_note_path)

text \<open>Who consents for an owner: an approval recorded at this head, or the owner being the human
  who pushed it.\<close>

definition consents :: "'w gate \<Rightarrow> mem_store \<Rightarrow> string \<Rightarrow> string \<Rightarrow> string \<Rightarrow> string \<Rightarrow> bool" where
  "consents g s key head author ref \<longleftrightarrow>
     list_ex (\<lambda>a. av_head a = head \<and> av_owner a = ref) (list_approvals s key)
   \<or> author \<noteq> [] \<and> ref = author \<and> agent_policy_for_author g s author = None"

lemma approved_consents:
  "gm_get m ref \<noteq> None \<Longrightarrow> approved_by_owner g s key head author m ref \<longleftrightarrow> consents g s key head author ref"
  by (auto simp: approved_by_owner_def consents_def)

text \<open>An owner's requirement is met: the owner consents, or every path asking for it is in a zone.\<close>

definition owner_met :: "'w gate \<Rightarrow> mem_store \<Rightarrow> string \<Rightarrow> change \<Rightarrow> aff_result \<Rightarrow> indexed_project list \<Rightarrow> indexed_project list \<Rightarrow> string \<Rightarrow> bool" where
  "owner_met g s key c result indexed zones ref \<longleftrightarrow>
     consents g s key (ch_head c) (ch_authored_by c) ref
   \<or> list_all (\<lambda>p. demands indexed p ref \<longrightarrow> auto_approved zones p) (ar_paths result)"

lemma owner_requirements_all:
  "list_all or_satisfied (fst (owner_requirements g s key (ch_head c) (ch_authored_by c) result indexed zones)) \<longleftrightarrow>
     (\<forall>ref. list_ex (\<lambda>p. demands indexed p ref) (ar_paths result) \<longrightarrow> owner_met g s key c result indexed zones ref)"
proof -
  let ?m = "required_owners indexed zones (ar_paths result)"
  have "list_all or_satisfied (fst (owner_requirements g s key (ch_head c) (ch_authored_by c) result indexed zones)) \<longleftrightarrow>
      (\<forall>ref. gm_get ?m ref \<noteq> None \<longrightarrow> approved_by_owner g s key (ch_head c) (ch_authored_by c) ?m ref \<or> gm_true ?m ref)"
    unfolding owner_requirements_def Let_def fst_conv list.pred_map
    by (simp add: list_all_iff o_def, simp add: Ball_def gm_keys_iff)
  also have "\<dots> \<longleftrightarrow> (\<forall>ref. gm_get ?m ref \<noteq> None \<longrightarrow> consents g s key (ch_head c) (ch_authored_by c) ref \<or> gm_true ?m ref)"
    using approved_consents [of ?m] by metis
  also have "\<dots> \<longleftrightarrow> (\<forall>ref. list_ex (\<lambda>p. demands indexed p ref) (ar_paths result) \<longrightarrow> owner_met g s key c result indexed zones ref)"
    by (auto simp: required_owners_get gm_true_def owner_met_def)
  finally show ?thesis .
qed

lemma owner_requirements_names:
  "set (map or_owner (fst (owner_requirements g s key head author result indexed zones))) =
     {ref. list_ex (\<lambda>p. demands indexed p ref) (ar_paths result)}"
  by (auto simp: owner_requirements_def Let_def o_def gm_keys_iff required_owners_get split: if_splits)

section \<open>When the gate opens\<close>

lemma block_mergeable: "mr_mergeable (block b t mr) \<longleftrightarrow> \<not> b \<and> mr_mergeable mr"
  by (simp add: block_def)

lemma block_other [simp]: "mr_req_checks (block b t mr) = mr_req_checks mr" "mr_req_owners (block b t mr) = mr_req_owners mr"
  by (simp_all add: block_def)

lemma compute_requirement_names:
  "mset (mr_req_checks (compute_merge_requirements key owners names runs [] stale [])) = mset names"
  "mr_req_owners (compute_merge_requirements key owners names runs [] stale []) = map or_owner owners"
  using requirements_checks(1) [of key owners names runs "[]" stale "[]"]
  by (simp_all add: all_names_def compute_merge_requirements_def Let_def)

definition based_on_landed :: "'w gate \<Rightarrow> 'w \<Rightarrow> mem_store \<Rightarrow> change \<Rightarrow> bool" where
  "based_on_landed g w s c \<longleftrightarrow> base_on_trunk g w (ch_base c) \<or> parent_landed_on_trunk g w s (ch_base c)"

definition described :: "'w gate \<Rightarrow> mem_store \<Rightarrow> change \<Rightarrow> bool" where
  "described g s c \<longleftrightarrow> (case agent_policy_for_author g s (ch_authored_by c) of None \<Rightarrow> True
     | Some p \<Rightarrow> ap_require_description p \<longrightarrow> go_trim_space (ch_description c) \<noteq> [])"

definition threads_resolved :: "'w gate \<Rightarrow> mem_store \<Rightarrow> string \<Rightarrow> bool" where
  "threads_resolved g s key \<longleftrightarrow> require_resolved_threads g \<longrightarrow> unresolved_threads (list_comments s key 0 0) = 0"

text \<open>What the gate of a request comes to, with and without a lane.\<close>

definition gate_open ::
  "'w gate \<Rightarrow> 'w \<Rightarrow> mem_store \<Rightarrow> go_time \<Rightarrow> string \<Rightarrow> change \<Rightarrow> bot_lane option \<Rightarrow> aff_result \<Rightarrow> indexed_project list \<Rightarrow> bool" where
  "gate_open g w s now key c lane result indexed \<longleftrightarrow>
     (let runs = list_check_runs s key (ch_head c);
          names = gate_checks g lane (gate_auto g w lane result) result indexed runs;
          asked = (\<lambda>ref. list_ex (\<lambda>p. demands indexed p ref) (ar_paths result))
      in list_all (green runs) names \<and> stale_names now names runs = [] \<and> based_on_landed g w s c
         \<and> (lane = None \<longrightarrow>
              (\<forall>ref. asked ref \<longrightarrow> owner_met g s key c result indexed (auto_approve_zones g w) ref)
            \<and> (gt_allow_unpoliced g \<or> gate_auto g w lane result \<or> names \<noteq> [] \<or> (\<exists>ref. asked ref))
            \<and> described g s c \<and> threads_resolved g s key))"

lemma gate_aggregate_facts:
  fixes g w s now key c lane result indexed
  defines "runs \<equiv> list_check_runs s key (ch_head c)"
  defines "names \<equiv> gate_checks g lane (gate_auto g w lane result) result indexed runs"
  defines "req \<equiv> gate_aggregate g w s now key c lane result indexed"
  shows "mr_mergeable req \<longleftrightarrow> list_all or_satisfied (fst (gate_owners g w s key c lane result indexed))
      \<and> list_all (green runs) names \<and> stale_names now names runs = []"
    "mr_req_checks req = [] \<longleftrightarrow> names = []"
    "mr_req_owners req = map or_owner (fst (gate_owners g w s key c lane result indexed))"
proof -
  let ?ows = "fst (gate_owners g w s key c lane result indexed)"
  let ?m = "compute_merge_requirements key ?ows names runs [] (stale_names now names runs) []"
  have req: "mr_mergeable req = mr_mergeable ?m" "mr_req_checks req = mr_req_checks ?m" "mr_req_owners req = mr_req_owners ?m"
    by (simp_all add: req_def gate_aggregate_def Let_def split_beta names_def runs_def)
  show "mr_mergeable req \<longleftrightarrow> list_all or_satisfied ?ows \<and> list_all (green runs) names \<and> stale_names now names runs = []"
    unfolding req requirements_checks(5) by (simp add: all_names_def)
  show "mr_req_checks req = [] \<longleftrightarrow> names = []"
    unfolding req using compute_requirement_names(1) [of key ?ows names runs "stale_names now names runs"]
    by (metis mset.simps(1) mset_zero_iff)
  show "mr_req_owners req = map or_owner ?ows" unfolding req by (rule compute_requirement_names(2))
qed

lemma gate_overrides_mergeable:
  "mr_mergeable (gate_overrides g w s key c lane auto req) \<longleftrightarrow>
     mr_mergeable req \<and> based_on_landed g w s c
     \<and> (lane = None \<longrightarrow> (gt_allow_unpoliced g \<or> auto \<or> mr_req_checks req \<noteq> [] \<or> mr_req_owners req \<noteq> [])
        \<and> described g s c \<and> threads_resolved g s key)"
  by (auto simp: gate_overrides_def Let_def block_mergeable based_on_landed_def described_def threads_resolved_def
      split: option.splits)

lemma gate_requirements_mergeable:
  "map_option mr_mergeable (gate_requirements g w s now key c lane) =
     map_option (\<lambda>(result, indexed). gate_open g w s now key c lane result indexed) (compute_affected g w c)"
proof (cases "compute_affected g w c")
  case (Some ri)
  obtain result indexed where ri: "ri = (result, indexed)" by (cases ri)
  let ?asked = "\<lambda>ref. list_ex (\<lambda>p. demands indexed p ref) (ar_paths result)"
  note facts = gate_aggregate_facts [of g w s now key c lane result indexed]
  have owners: "lane = None \<Longrightarrow> mr_req_owners (gate_aggregate g w s now key c lane result indexed) \<noteq> [] \<longleftrightarrow> (\<exists>ref. ?asked ref)"
  proof -
    assume "lane = None"
    then have "set (mr_req_owners (gate_aggregate g w s now key c lane result indexed)) = {ref. ?asked ref}"
      unfolding facts(3) gate_owners_def gate_zones_def by (simp only: if_True simp_thms owner_requirements_names)
    then show "mr_req_owners (gate_aggregate g w s now key c lane result indexed) \<noteq> [] \<longleftrightarrow> (\<exists>ref. ?asked ref)"
      by (metis (mono_tags, lifting) Collect_empty_eq set_empty)
  qed
  have met: "list_all or_satisfied (fst (gate_owners g w s key c lane result indexed)) \<longleftrightarrow>
      (lane = None \<longrightarrow> (\<forall>ref. ?asked ref \<longrightarrow> owner_met g s key c result indexed (auto_approve_zones g w) ref))"
    by (cases lane) (simp_all add: gate_owners_def gate_zones_def owner_requirements_all)
  have "map_option mr_mergeable (gate_requirements g w s now key c lane) =
      Some (mr_mergeable (gate_overrides g w s key c lane (gate_auto g w lane result) (gate_aggregate g w s now key c lane result indexed)))"
    using Some ri by (simp add: gate_requirements_def Let_def)
  also have "\<dots> = Some (gate_open g w s now key c lane result indexed)"
    unfolding gate_overrides_mergeable gate_open_def Let_def facts(1,2) met using owners by auto
  finally show ?thesis using Some ri by simp
qed (simp add: gate_requirements_def)

lemma compute_affected_paths:
  "compute_affected g w c = Some (result, indexed) \<Longrightarrow> rd_index (gt_reads g) w (ch_head c) = Some indexed \<and>
     (\<exists>paths. git_diff_names_only (gt_git g) (if ch_base c = [] then empty_tree_oid else ch_base c) (ch_head c) w = Some paths
        \<and> set (ar_paths result) = set paths)"
  by (auto simp: compute_affected_def compute_def Let_def split_beta split: option.splits)

text \<open>C3. The daemon reports a Change mergeable exactly when the policy of its own tree, of its org and
  of trunk's zones is met at its head: every required check is green and none is stale, its base has
  landed, and, for anyone but a bot lane, every owner a touched path asks for has consented at this
  head or is waived by trunk's zones, some policy applies, an agent's Change is described and, where
  the org asks for it, no thread is open. It has no answer exactly when the affected set has none.\<close>

theorem merge_gate_exact:
  "map_option mr_mergeable (gate_requirements g w s now key c lane) =
     map_option (\<lambda>(result, indexed). gate_open g w s now key c lane result indexed) (compute_affected g w c)"
  by (rule gate_requirements_mergeable)

section \<open>A server to run on\<close>

definition demo_settings :: org_settings where
  "demo_settings = \<lparr>os_description = [], os_mirror_repo = [], os_global_checks = [], os_revalidation = [], os_public_read = False,
     os_require_resolved = False, os_enforce_tags = False, os_disable_auto_approve = True\<rparr>"

definition demo_caller :: "string \<Rightarrow> bool \<Rightarrow> bool \<Rightarrow> caller" where
  "demo_caller name agent admin = \<lparr>pn_name = name, pn_is_agent = agent, pn_admin = admin, pn_policy = default_agent_policy, pn_stored = False\<rparr>"

text \<open>Trunk is at \<open>c1\<close>, the Change \<open>I1\<close> at \<open>c2\<close> touches \<open>app/x\<close>, which \<open>ann\<close> owns.\<close>

definition demo_gate :: "repo gate" where
  "demo_gate = \<lparr>gt_git = repo_git\<lparr>g_diff_names := (\<lambda>w a b. Some ''app/x'')\<rparr>,
     gt_reads = \<lparr>rd_index = (\<lambda>w t. Some demo_index), rd_message = (\<lambda>w x. Some ''m'')\<rparr>,
     gt_is_ancestor = (\<lambda>w a b. a = ''c1''), gt_rev_counts = (\<lambda>w a b. None), gt_quote = id,
     gt_server = demo_server, gt_global_checks = [], gt_settings = Settings demo_settings, gt_org_policy = None,
     gt_revalidation = [], gt_allow_unpoliced = False,
     gt_principals = [demo_caller ''bob'' False False, demo_caller ''bot'' True False], gt_single_use = False\<rparr>"

definition demo_open_change :: change where
  "demo_open_change = new_change ''I1'' \<lparr>pf_base = ''c1'', pf_head = ''c2'', pf_git_ref = ''refs/changes/I1/head'', pf_title = ''t'',
     pf_author = ''bob'', pf_workspace = [], pf_branch = []\<rparr>"

definition demo_change_store :: mem_store where
  "demo_change_store = put_change demo_open_change ''I1'' new_mem_store"

lemma demo_affected:
  obtains result where "compute_affected demo_gate w demo_open_change = Some (result, demo_index)" "ar_paths result = [''app/x'']"
  using that by (simp add: compute_affected_def demo_gate_def git_diff_names_only_def go_trim_space_def go_trim_left_def go_trim_right_def
      is_space_def demo_open_change_def new_change_def compute_def Let_def split_beta dedup_sorted_def)

lemma demo_demands: "demands demo_index ''app/x'' ref \<longleftrightarrow> ref = ''ann''"
proof -
  have "owning_project demo_index ''app/x'' = Some (demo_index ! 1)" by code_simp
  moreover have "ip_owners (demo_index ! 1) = [\<lparr>oe_ref = ''ann'', oe_source = PathOwners\<rparr>]" by code_simp
  ultimately show ?thesis by (auto simp: demands_def)
qed

end
