(* ===== verification/EventBus.thy ===== *)
theory EventBus
  imports StoreTypes
begin

text \<open>
  The in-process live feed (\<open>runkod/eventbus.go\<close>). A subscription holds the newest pending event and a
  signal channel of capacity one, so a burst of publications coalesces into one signal and a
  publication never blocks. Subscriptions are numbered in the order they are made; one stays in the
  table after it is cancelled, as its holder keeps a reference to it. Every method runs under the
  bus's mutex and is one step here.
\<close>

section \<open>The bus\<close>

record subscription =
  sub_workspace :: string
  sub_latest :: "workspace_event option"
  sub_ready :: bool
  sub_done :: bool

record event_bus =
  eb_closed :: bool
  eb_subs :: "(nat, subscription) gomap"
  eb_live :: "nat list"
  eb_next :: nat

definition new_event_bus :: event_bus where
  "new_event_bus = \<lparr>eb_closed = False, eb_subs = gm_empty, eb_live = [], eb_next = 0\<rparr>"

text \<open>Subscribing to a closed bus hands out a finished subscription.\<close>

definition bus_subscribe :: "string \<Rightarrow> event_bus \<Rightarrow> nat \<times> event_bus" where
  "bus_subscribe wid b =
     (let n = eb_next b;
          s = \<lparr>sub_workspace = wid, sub_latest = None, sub_ready = False, sub_done = eb_closed b\<rparr>
      in (n, b\<lparr>eb_subs := gm_put (eb_subs b) n s, eb_next := n + 1,
               eb_live := (if eb_closed b then eb_live b else n # eb_live b)\<rparr>))"

definition set_sub :: "nat \<Rightarrow> (subscription \<Rightarrow> subscription) \<Rightarrow> event_bus \<Rightarrow> event_bus" where
  "set_sub n f b = (case gm_get (eb_subs b) n of None \<Rightarrow> b | Some s \<Rightarrow> b\<lparr>eb_subs := gm_put (eb_subs b) n (f s)\<rparr>)"

definition bus_cancel :: "nat \<Rightarrow> event_bus \<Rightarrow> event_bus" where
  "bus_cancel n b =
     (if n \<in> set (eb_live b)
      then (set_sub n (\<lambda>s. s\<lparr>sub_done := True\<rparr>) b)\<lparr>eb_live := filter (\<lambda>m. m \<noteq> n) (eb_live b)\<rparr> else b)"

definition notify :: "workspace_event \<Rightarrow> subscription \<Rightarrow> subscription" where
  "notify e s = (if sub_workspace s \<noteq> we_workspace e then s else s\<lparr>sub_latest := Some e, sub_ready := True\<rparr>)"

definition bus_publish :: "workspace_event \<Rightarrow> event_bus \<Rightarrow> event_bus" where
  "bus_publish e b = fold (\<lambda>n. set_sub n (notify e)) (eb_live b) b"

definition bus_close :: "event_bus \<Rightarrow> event_bus" where
  "bus_close b =
     (if eb_closed b then b
      else (fold (\<lambda>n. set_sub n (\<lambda>s. s\<lparr>sub_done := True\<rparr>)) (eb_live b) b)\<lparr>eb_closed := True, eb_live := []\<rparr>)"

text \<open>The two moves of a consumer: receiving the signal, then taking the event.\<close>

definition bus_receive :: "nat \<Rightarrow> event_bus \<Rightarrow> bool \<times> event_bus" where
  "bus_receive n b =
     (case gm_get (eb_subs b) n of
        None \<Rightarrow> (False, b)
      | Some s \<Rightarrow> (sub_ready s, set_sub n (\<lambda>s. s\<lparr>sub_ready := False\<rparr>) b))"

definition bus_take :: "nat \<Rightarrow> event_bus \<Rightarrow> workspace_event option \<times> event_bus" where
  "bus_take n b =
     (case gm_get (eb_subs b) n of
        None \<Rightarrow> (None, b)
      | Some s \<Rightarrow> (sub_latest s, set_sub n (\<lambda>s. s\<lparr>sub_latest := None\<rparr>) b))"

text \<open>A nil bus drops publications.\<close>

definition publish_to :: "workspace_event \<Rightarrow> event_bus option \<Rightarrow> event_bus option" where
  "publish_to e bus = map_option (bus_publish e) bus"

section \<open>A publication reaches its watchers\<close>

lemma set_sub_get [simp]:
  "gm_get (eb_subs (set_sub n f b)) m = (if m = n then map_option f (gm_get (eb_subs b) n) else gm_get (eb_subs b) m)"
  by (auto simp: set_sub_def split: option.splits)

lemma set_sub_other [simp]: "eb_live (set_sub n f b) = eb_live b" "eb_closed (set_sub n f b) = eb_closed b" "eb_next (set_sub n f b) = eb_next b"
  by (auto simp: set_sub_def split: option.splits)

lemma notify_twice [simp]: "notify e (notify e s) = notify e s"
  by (simp add: notify_def)

lemma fold_set_sub:
  "(\<And>s. f (f s) = f s) \<Longrightarrow>
   gm_get (eb_subs (fold (\<lambda>n. set_sub n f) ns b)) m =
     (if m \<in> set ns then map_option f (gm_get (eb_subs b) m) else gm_get (eb_subs b) m)"
  by (induction ns arbitrary: b) (auto simp: option.map_comp o_def)

lemma publish_get:
  "gm_get (eb_subs (bus_publish e b)) m =
     (if m \<in> set (eb_live b) then map_option (notify e) (gm_get (eb_subs b) m) else gm_get (eb_subs b) m)"
  by (simp add: bus_publish_def fold_set_sub)

lemma fold_set_sub_live [simp]: "eb_live (fold (\<lambda>n. set_sub n f) ns b) = eb_live b"
  by (induction ns arbitrary: b) auto

text \<open>What a live watcher holds: a pending event and, unless its consumer has just received the
  signal, a signal for it.\<close>

definition pending :: "nat \<Rightarrow> workspace_event \<Rightarrow> event_bus \<Rightarrow> bool" where
  "pending n e b \<longleftrightarrow> (\<exists>s. gm_get (eb_subs b) n = Some s \<and> sub_latest s = Some e \<and> sub_ready s)"

lemma publish_pending:
  assumes "n \<in> set (eb_live b)" "gm_get (eb_subs b) n = Some s" "sub_workspace s = we_workspace e"
  shows "pending n e (bus_publish e b)"
  using assms by (simp add: pending_def publish_get notify_def)

text \<open>A pending event survives everything but a newer one or its own consumer, and the next
  receive and take of that consumer hand it over.\<close>

lemma pending_stable:
  assumes "pending n e b"
  shows "pending n e (bus_close b)" "pending n e (bus_cancel m b)"
    "m \<noteq> n \<Longrightarrow> pending n e (snd (bus_receive m b))" "m \<noteq> n \<Longrightarrow> pending n e (snd (bus_take m b))"
    "we_workspace e' \<noteq> we_workspace e \<Longrightarrow> gm_get (eb_subs b) n = Some s \<Longrightarrow> sub_workspace s = we_workspace e \<Longrightarrow>
       pending n e (bus_publish e' b)"
  using assms
  by (auto simp: pending_def bus_close_def bus_cancel_def bus_receive_def bus_take_def publish_get notify_def fold_set_sub
      split: option.splits)

lemma pending_taken:
  assumes "pending n e b"
  shows "fst (bus_receive n b)" "fst (bus_take n (snd (bus_receive n b))) = Some e"
  using assms by (auto simp: pending_def bus_receive_def bus_take_def split: option.splits)

end
