(* ===== verification/Hooks.thy ===== *)
theory Hooks
  imports ChangeStore Outbox DeployStore Affected Sha
begin

text \<open>
  The webhook payloads (\<open>platform/checks/webhook.go\<close>, \<open>deploywebhook.go\<close>, \<open>releasewebhook.go\<close>) and
  the functions of the daemon that build one and put it in the outbox. JSON encoding and the
  RFC 3339 rendering of an instant are parameters (\<open>hooks\<close>); a payload that cannot be encoded is
  dropped, as the code logs it and returns. The signature of a payload is HMAC-SHA256, computed.
\<close>

section \<open>Envelopes\<close>

record webhook_actor =
  wa_type :: string
  wa_actor_id :: string

definition user_actor :: "string \<Rightarrow> webhook_actor" where
  "user_actor name = \<lparr>wa_type = ''user'', wa_actor_id = name\<rparr>"

definition named_actor :: "string \<Rightarrow> webhook_actor" where
  "named_actor name = user_actor (if name = [] then ''unknown'' else name)"

record webhook_change =
  wc_id :: string
  wc_state :: string
  wc_base :: string
  wc_head :: string
  wc_git_ref :: string
  wc_title :: string
  wc_actor :: webhook_actor

record webhook_affected =
  wf_id :: string
  wf_projects :: "(string \<times> string) list"
  wf_paths :: "string list"
  wf_reasons :: "reason list"
  wf_run_everything :: bool

record webhook_comment =
  wm_id :: string
  wm_parent :: string
  wm_path :: string
  wm_side :: string
  wm_line :: int
  wm_resolved :: bool
  wm_author :: webhook_actor

record webhook_envelope =
  wv_delivery :: string
  wv_type :: string
  wv_occurred :: go_time
  wv_org :: string
  wv_change :: webhook_change
  wv_affected :: "webhook_affected option"
  wv_rerun :: "(string \<times> webhook_actor) option"
  wv_comment :: "webhook_comment option"
  wv_review :: "(webhook_actor \<times> webhook_actor) option"

record deploy_images_ready =
  di_delivery :: string
  di_occurred :: go_time
  di_org :: string
  di_trunk :: string
  di_change :: string
  di_images :: "(string \<times> string \<times> string) list"
  di_provenance :: string

record release_created =
  rc_delivery :: string
  rc_occurred :: go_time
  rc_org :: string
  rc_project :: string
  rc_path :: string
  rc_version :: string
  rc_tag_ref :: string
  rc_tag_sha :: string
  rc_target_sha :: string
  rc_head_change :: string
  rc_changelog :: string
  rc_created_by :: webhook_actor
  rc_url :: string

record hooks =
  hk_org :: string
  hk_envelope :: "webhook_envelope \<Rightarrow> string option"
  hk_images :: "deploy_images_ready \<Rightarrow> string option"
  hk_release :: "release_created \<Rightarrow> string option"
  hk_rfc3339 :: "go_time \<Rightarrow> string"
  hk_rfc3339_nano :: "go_time \<Rightarrow> string"

definition enqueue_payload :: "string \<Rightarrow> string option \<Rightarrow> mem_store \<Rightarrow> mem_store" where
  "enqueue_payload kind payload s = (case payload of None \<Rightarrow> s | Some p \<Rightarrow> snd (enqueue_webhook kind p s))"

definition change_block :: "change \<Rightarrow> webhook_actor \<Rightarrow> webhook_change" where
  "change_block c actor = \<lparr>wc_id = ch_key c, wc_state = ch_state c, wc_base = ch_base c, wc_head = ch_head c,
     wc_git_ref = ch_git_ref c, wc_title = ch_title c, wc_actor = actor\<rparr>"

definition affected_block :: "aff_result \<Rightarrow> webhook_affected" where
  "affected_block r = \<lparr>wf_id = ar_id r, wf_projects = map (\<lambda>p. (pr_name p, pr_path p)) (ar_projects r),
     wf_paths = ar_paths r, wf_reasons = ar_reasons r, wf_run_everything = ar_run_everything r\<rparr>"

definition bare_envelope :: "string \<Rightarrow> string \<Rightarrow> go_time \<Rightarrow> string \<Rightarrow> webhook_change \<Rightarrow> webhook_envelope" where
  "bare_envelope did kind now org c = \<lparr>wv_delivery = did, wv_type = kind, wv_occurred = now, wv_org = org, wv_change = c,
     wv_affected = None, wv_rerun = None, wv_comment = None, wv_review = None\<rparr>"

definition enqueue_envelope :: "hooks \<Rightarrow> webhook_envelope \<Rightarrow> mem_store \<Rightarrow> mem_store" where
  "enqueue_envelope h e = enqueue_payload (wv_type e) (hk_envelope h e)"

section \<open>The emitters\<close>

definition enqueue_change_updated :: "hooks \<Rightarrow> go_time \<Rightarrow> change \<Rightarrow> aff_result \<Rightarrow> mem_store \<Rightarrow> mem_store" where
  "enqueue_change_updated h now c result =
     enqueue_envelope h
       ((bare_envelope (ch_key c @ ''@'' @ ch_head c @ ''@'' @ hk_rfc3339_nano h now) ''change.updated'' now (hk_org h)
           (change_block c (user_actor ''unknown'')))\<lparr>wv_affected := Some (affected_block result)\<rparr>)"

definition enqueue_landed_webhook :: "hooks \<Rightarrow> go_time \<Rightarrow> change \<Rightarrow> string \<Rightarrow> mem_store \<Rightarrow> mem_store" where
  "enqueue_landed_webhook h now c sha =
     enqueue_envelope h (bare_envelope (ch_key c @ ''@landed@'' @ sha) ''change.landed'' now (hk_org h)
       ((change_block c (user_actor ''unknown''))\<lparr>wc_state := state_landed, wc_head := sha\<rparr>))"

definition enqueue_comment_webhook :: "hooks \<Rightarrow> go_time \<Rightarrow> change \<Rightarrow> comment \<Rightarrow> mem_store \<Rightarrow> mem_store" where
  "enqueue_comment_webhook h now c m =
     (let author = \<lparr>wa_type = (if cm_author_is_agent m then ''agent'' else ''user''), wa_actor_id = cm_author m\<rparr>
      in enqueue_envelope h
           ((bare_envelope (ch_key c @ ''@comment@'' @ cm_id m) ''change.commented'' now (hk_org h) (change_block c author))
              \<lparr>wv_comment := Some \<lparr>wm_id = cm_id m, wm_parent = cm_parent m, wm_path = cm_path m, wm_side = cm_side m,
                 wm_line = cm_line m, wm_resolved = cm_resolved m, wm_author = author\<rparr>\<rparr>))"

text \<open>A reviewer's type: a group reference, an agent of the registry, anyone else.\<close>

definition review_actor :: "(string \<times> bool) list \<Rightarrow> string \<Rightarrow> webhook_actor" where
  "review_actor registry name =
     (case go_cut_prefix name ''group:'' of
        Some g \<Rightarrow> \<lparr>wa_type = ''group'', wa_actor_id = g\<rparr>
      | None \<Rightarrow> if list_ex (\<lambda>(n, agent). n = name \<and> agent) registry
                then \<lparr>wa_type = ''agent'', wa_actor_id = name\<rparr> else user_actor name)"

definition enqueue_review_request_webhook ::
  "hooks \<Rightarrow> go_time \<Rightarrow> (string \<times> bool) list \<Rightarrow> change \<Rightarrow> string \<Rightarrow> string \<Rightarrow> mem_store \<Rightarrow> mem_store" where
  "enqueue_review_request_webhook h now registry c reviewer requested_by =
     (let who = named_actor requested_by
      in enqueue_envelope h
           ((bare_envelope (ch_key c @ ''@review-request@'' @ reviewer @ ''@'' @ hk_rfc3339 h now)
               ''change.review_requested'' now (hk_org h) (change_block c who))
              \<lparr>wv_review := Some (review_actor registry reviewer, who)\<rparr>))"

definition enqueue_rerun_webhook ::
  "hooks \<Rightarrow> go_time \<Rightarrow> change \<Rightarrow> string \<Rightarrow> string \<Rightarrow> aff_result option \<Rightarrow> mem_store \<Rightarrow> mem_store" where
  "enqueue_rerun_webhook h now c name requested_by result =
     (let who = named_actor requested_by
      in enqueue_envelope h
           ((bare_envelope (ch_key c @ ''@rerun@'' @ name @ ''@'' @ hk_rfc3339 h now) ''change.check_rerun_requested'' now
               (hk_org h) (change_block c who))
              \<lparr>wv_rerun := Some (name, who), wv_affected := map_option affected_block result\<rparr>))"

definition enqueue_deploy_images_ready_webhook :: "hooks \<Rightarrow> go_time \<Rightarrow> deploy_record \<Rightarrow> mem_store \<Rightarrow> mem_store" where
  "enqueue_deploy_images_ready_webhook h now r =
     enqueue_payload ''deploy.images_ready''
       (hk_images h \<lparr>di_delivery = dr_trunk r @ ''@images_ready'', di_occurred = now, di_org = hk_org h, di_trunk = dr_trunk r,
          di_change = dr_change r, di_images = map (\<lambda>i. (dg_image i, dg_ref i, dg_digest i)) (dr_reported r),
          di_provenance = dr_provenance r\<rparr>)"

definition enqueue_release_webhook :: "hooks \<Rightarrow> go_time \<Rightarrow> release \<Rightarrow> mem_store \<Rightarrow> mem_store" where
  "enqueue_release_webhook h now r =
     enqueue_payload ''release.created''
       (hk_release h \<lparr>rc_delivery = rl_project r @ ''@release@'' @ rl_version r, rc_occurred = now, rc_org = hk_org h,
          rc_project = rl_project r, rc_path = rl_path r, rc_version = rl_version r, rc_tag_ref = rl_tag_ref r,
          rc_tag_sha = rl_tag_sha r, rc_target_sha = rl_target_sha r, rc_head_change = rl_head_change r,
          rc_changelog = rl_changelog r, rc_created_by = named_actor (rl_created_by r),
          rc_url = ''/api/projects/'' @ rl_project r @ ''/releases''\<rparr>)"

section \<open>Signatures\<close>

text \<open>HMAC over SHA-256: a key longer than a block is hashed first, then padded with zeros.\<close>

definition word_bytes :: "u32 \<Rightarrow> string" where
  "word_bytes w = map (\<lambda>i. char_of (unat (drop_bit (24 - 8 * i) w) mod 256)) [0..<4]"

definition sha256_bytes :: "string \<Rightarrow> string" where
  "sha256_bytes s = concat (map word_bytes (sha256_words s))"

definition hmac_key :: "string \<Rightarrow> string" where
  "hmac_key secret =
     (let k = (if length secret > 64 then sha256_bytes secret else secret) in k @ replicate (64 - length k) CHR 0x00)"

definition xor_bytes :: "nat \<Rightarrow> string \<Rightarrow> string" where
  "xor_bytes pad k = map (\<lambda>c. char_of (xor (of_char c) pad :: nat)) k"

definition sign_payload :: "string \<Rightarrow> string \<Rightarrow> string" where
  "sign_payload secret payload =
     (let k = hmac_key secret
      in sha256_hex (xor_bytes 0x5C k @ sha256_bytes (xor_bytes 0x36 k @ payload)))"

definition verify_signature :: "string \<Rightarrow> string \<Rightarrow> string \<Rightarrow> bool" where
  "verify_signature secret payload signature = (signature = sign_payload secret payload)"

section \<open>What the emitters leave alone\<close>

lemma enqueue_payload_other [simp]:
  "ms_changes (enqueue_payload k p s) = ms_changes s" "ms_approvals (enqueue_payload k p s) = ms_approvals s"
  "ms_check_runs (enqueue_payload k p s) = ms_check_runs s" "ms_comments (enqueue_payload k p s) = ms_comments s"
  "ms_workspaces (enqueue_payload k p s) = ms_workspaces s" "ms_agents (enqueue_payload k p s) = ms_agents s"
  by (simp_all add: enqueue_payload_def enqueue_webhook_def Let_def split: option.splits)

lemmas emitters = enqueue_envelope_def enqueue_change_updated_def enqueue_landed_webhook_def enqueue_comment_webhook_def
  enqueue_review_request_webhook_def enqueue_rerun_webhook_def enqueue_deploy_images_ready_webhook_def
  enqueue_release_webhook_def

end
