(* ===== verification/Actions.thy ===== *)
theory Actions
  imports Gate EventBus Hooks
begin

text \<open>
  The decision cores behind both API transports (\<open>runkod/actions.go\<close>, \<open>automerge.go\<close>, \<open>describe.go\<close>,
  \<open>review.go\<close>): approving, commenting, resolving, requesting review, describing, arming, rerunning,
  acknowledging and abandoning. A core is a function of the server's configuration, the clock, the
  Change as its caller fetched it, the request and the state of the daemon; it answers an error or a
  result and the state it leaves. Message texts of errors are not modelled, the codes are.
\<close>

section \<open>The daemon\<close>

text \<open>Configuration and state: the store, the repository, the live feed and whether the automerge
  worker has been kicked.\<close>

record 'w server =
  sv_gate :: "'w gate"
  sv_hooks :: hooks
  sv_processor :: bool
  sv_automerge :: bool

record 'w sys =
  sy_store :: mem_store
  sy_repo :: 'w
  sy_bus :: "event_bus option"
  sy_kick :: bool

type_synonym ('w, 'a) reply = "(api_error + 'a) \<times> 'w sys"

definition refuse :: "int \<Rightarrow> string \<Rightarrow> 'w sys \<Rightarrow> ('w, 'a) reply" where
  "refuse status code y = (Inl (typed_err status code), y)"

definition broken :: "'w sys \<Rightarrow> ('w, 'a) reply" where
  "broken y = (Inl internal_err, y)"

definition not_found :: "'w sys \<Rightarrow> ('w, 'a) reply" where
  "not_found y = (Inl (typed_err 404 []), y)"

definition set_store :: "mem_store \<Rightarrow> 'w sys \<Rightarrow> 'w sys" where
  "set_store s y = y\<lparr>sy_store := s\<rparr>"

text \<open>\<open>KickAutomerge\<close>: the kick channel holds one signal, and a server without a worker drops it.\<close>

definition kick_automerge :: "'w server \<Rightarrow> 'w sys \<Rightarrow> 'w sys" where
  "kick_automerge sv y = (if sv_automerge sv then y\<lparr>sy_kick := True\<rparr> else y)"

text \<open>\<open>recordWorkspaceEvent\<close>: the row, then the poke.\<close>

definition record_event :: "go_time \<Rightarrow> workspace_event \<Rightarrow> 'w sys \<Rightarrow> 'w sys" where
  "record_event now e y =
     (case record_workspace_event now e (sy_store y) of
        (Inl _, s) \<Rightarrow> y\<lparr>sy_store := s, sy_bus := publish_to e (sy_bus y)\<rparr>
      | (Inr e', s) \<Rightarrow> y\<lparr>sy_store := s, sy_bus := publish_to e' (sy_bus y)\<rparr>)"

definition caller_name :: "caller option \<Rightarrow> string" where
  "caller_name p = (case p of None \<Rightarrow> [] | Some q \<Rightarrow> pn_name q)"

text \<open>The answer of a core that ends with the refreshed requirements.\<close>

definition with_requirements ::
  "'w server \<Rightarrow> go_time \<Rightarrow> string \<Rightarrow> change \<Rightarrow> bot_lane option \<Rightarrow> 'w sys \<Rightarrow> ('w, merge_requirements) reply" where
  "with_requirements sv now key c lane y =
     (case gate_requirements (sv_gate sv) (sy_repo y) (sy_store y) now key c lane of
        None \<Rightarrow> broken y | Some mr \<Rightarrow> (Inr mr, y))"

section \<open>Guards\<close>

definition require_open_change :: "change \<Rightarrow> api_error option" where
  "require_open_change c = (if ch_state c = state_open then None else Some (typed_err 409 ''invalid_state''))"

text \<open>Who a decision is attributed to: a named human is itself, an agent is refused, and only the
  anonymous deploy token is believed.\<close>

definition human_name :: "string \<Rightarrow> string \<Rightarrow> caller option \<Rightarrow> string \<Rightarrow> api_error + string" where
  "human_name agent_code mismatch_code asker claimed =
     (case asker of
        None \<Rightarrow> Inr claimed
      | Some p \<Rightarrow>
          if pn_is_agent p then Inl (typed_err 403 agent_code)
          else if claimed \<noteq> [] \<and> claimed \<noteq> pn_name p then Inl (typed_err 400 mismatch_code)
          else Inr (pn_name p))"

section \<open>Approving\<close>

definition record_and_answer ::
  "'w server \<Rightarrow> go_time \<Rightarrow> string \<Rightarrow> change \<Rightarrow> unit store_result \<Rightarrow> 'w sys \<Rightarrow> ('w, merge_requirements) reply" where
  "record_and_answer sv now key c written y =
     (case written of
        (Inl _, s) \<Rightarrow> broken (set_store s y)
      | (Inr _, s) \<Rightarrow> with_requirements sv now key c None (kick_automerge sv (set_store s y)))"

definition approve_change_core ::
  "'w server \<Rightarrow> go_time \<Rightarrow> string \<Rightarrow> change \<Rightarrow> string \<Rightarrow> string \<Rightarrow> caller option \<Rightarrow> 'w sys \<Rightarrow> ('w, merge_requirements) reply" where
  "approve_change_core sv now key c owner claimed asker y =
     (case require_open_change c of
        Some e \<Rightarrow> (Inl e, y)
      | None \<Rightarrow>
          (case human_name ''agent_approval_denied'' ''approved_by_mismatch'' asker claimed of
             Inl e \<Rightarrow> (Inl e, y)
           | Inr who \<Rightarrow>
               if owner = [] \<or> who = [] then refuse 400 ''missing_field'' y
               else if ch_authored_by c \<noteq> [] \<and> who = ch_authored_by c then refuse 403 ''self_approval_denied'' y
               else (case compute_affected (sv_gate sv) (sy_repo y) c of
                       None \<Rightarrow> broken y
                     | Some (result, indexed) \<Rightarrow>
                         if owner \<notin> set (map or_owner (fst (owner_requirements (sv_gate sv) (sy_store y) key (ch_head c)
                                (ch_authored_by c) result indexed [])))
                         then refuse 400 ''not_a_required_owner'' y
                         else record_and_answer sv now key c
                                (record_approval key owner who (ch_head c) (sy_store y)) y)))"

section \<open>The review conversation\<close>

record comment_input =
  ci_body :: string
  ci_path :: string
  ci_side :: string
  ci_line :: int
  ci_parent :: string
  ci_author :: string

definition comment_author :: "caller option \<Rightarrow> string \<Rightarrow> api_error + string \<times> bool" where
  "comment_author asker claimed =
     (case asker of
        None \<Rightarrow> Inr (claimed, False)
      | Some p \<Rightarrow> if claimed \<noteq> [] \<and> claimed \<noteq> pn_name p then Inl (typed_err 400 ''author_mismatch'')
                  else Inr (pn_name p, pn_is_agent p))"

text \<open>A comment is on the Change, on a file, or on a line of one side of a file.\<close>

definition anchor_side :: "comment_input \<Rightarrow> api_error + string" where
  "anchor_side i =
     (if ci_line i < 0 then Inl (typed_err 400 ''invalid_anchor'')
      else if ci_line i > 0 \<and> ci_path i = [] then Inl (typed_err 400 ''invalid_anchor'')
      else if ci_side i \<noteq> [] \<and> ci_side i \<noteq> ''base'' \<and> ci_side i \<noteq> ''head'' then Inl (typed_err 400 ''invalid_anchor'')
      else if ci_side i \<noteq> [] \<and> ci_line i = 0 then Inl (typed_err 400 ''invalid_anchor'')
      else if ci_side i = [] \<and> ci_line i > 0 then Inr ''head''
      else Inr (ci_side i))"

definition reply_refusal :: "mem_store \<Rightarrow> string \<Rightarrow> comment_input \<Rightarrow> api_error option" where
  "reply_refusal s key i =
     (if ci_parent i = [] then None
      else case get_comment s key (ci_parent i) of
             None \<Rightarrow> Some (typed_err 400 ''parent_not_found'')
           | Some parent \<Rightarrow>
               if cm_parent parent \<noteq> [] then Some (typed_err 400 ''thread_depth_exceeded'')
               else if ci_path i \<noteq> [] \<or> ci_line i > 0 \<or> ci_side i \<noteq> [] then Some (typed_err 400 ''invalid_anchor'')
               else None)"

definition comment_change_core ::
  "'w server \<Rightarrow> go_time \<Rightarrow> string \<Rightarrow> change \<Rightarrow> comment_input \<Rightarrow> caller option \<Rightarrow> 'w sys \<Rightarrow> ('w, comment) reply" where
  "comment_change_core sv now key c i asker y =
     (case require_open_change c of
        Some e \<Rightarrow> (Inl e, y)
      | None \<Rightarrow>
          (case comment_author asker (ci_author i) of
             Inl e \<Rightarrow> (Inl e, y)
           | Inr (author, agent) \<Rightarrow>
               if author = [] then refuse 400 ''missing_field'' y
               else if go_trim_space (ci_body i) = [] then refuse 400 ''missing_field'' y
               else (case anchor_side i of
                       Inl e \<Rightarrow> (Inl e, y)
                     | Inr side \<Rightarrow>
                         (case reply_refusal (sy_store y) key i of
                            Some e \<Rightarrow> (Inl e, y)
                          | None \<Rightarrow>
                              (case create_comment now key \<lparr>cm_id = [], cm_author = author, cm_author_is_agent = agent,
                                      cm_body = ci_body i, cm_path = ci_path i, cm_side = side, cm_line = ci_line i,
                                      cm_head = ch_head c, cm_parent = ci_parent i, cm_resolved = False, cm_created = 0\<rparr>
                                      (sy_store y) of
                                 (Inl _, s) \<Rightarrow> broken (set_store s y)
                               | (Inr m, s) \<Rightarrow>
                                   (Inr m, set_store (enqueue_comment_webhook (sv_hooks sv) now c m s) y))))))"

text \<open>Whether a named principal is a user owner of the commented path, or of the Change for a comment
  on all of it; None when the affected set cannot be computed.\<close>

definition principal_owns_anchor :: "'w server \<Rightarrow> 'w sys \<Rightarrow> change \<Rightarrow> string \<Rightarrow> string \<Rightarrow> bool option" where
  "principal_owns_anchor sv y c path name =
     (case compute_affected (sv_gate sv) (sy_repo y) c of
        None \<Rightarrow> None
      | Some (result, indexed) \<Rightarrow>
          Some (if path \<noteq> []
                then (case owning_project indexed path of
                        None \<Rightarrow> False | Some p \<Rightarrow> ''user:'' @ name \<in> set (map oe_ref (ip_owners p)))
                else ''user:'' @ name \<in> set (map or_owner (fst (owner_requirements (sv_gate sv) (sy_store y) (ch_key c)
                       (ch_head c) (ch_authored_by c) result indexed [])))))"

definition may_resolve :: "'w server \<Rightarrow> 'w sys \<Rightarrow> change \<Rightarrow> comment \<Rightarrow> caller option \<Rightarrow> bool option" where
  "may_resolve sv y c m asker =
     (case asker of
        None \<Rightarrow> Some True
      | Some p \<Rightarrow>
          if pn_admin p \<or> pn_name p = cm_author m \<or> pn_name p = ch_authored_by c then Some True
          else principal_owns_anchor sv y c (cm_path m) (pn_name p))"

definition resolve_comment_core ::
  "'w server \<Rightarrow> string \<Rightarrow> change \<Rightarrow> string \<Rightarrow> bool \<Rightarrow> caller option \<Rightarrow> 'w sys \<Rightarrow> ('w, comment) reply" where
  "resolve_comment_core sv key c cid resolved asker y =
     (case require_open_change c of
        Some e \<Rightarrow> (Inl e, y)
      | None \<Rightarrow>
          (case get_comment (sy_store y) key cid of
             None \<Rightarrow> not_found y
           | Some m \<Rightarrow>
               if cm_parent m \<noteq> [] then refuse 400 ''not_a_thread_root'' y
               else (case may_resolve sv y c m asker of
                       None \<Rightarrow> broken y
                     | Some False \<Rightarrow> refuse 403 ''resolve_denied'' y
                     | Some True \<Rightarrow>
                         (case set_comment_resolved key cid resolved (sy_store y) of
                            (Inl _, s) \<Rightarrow> broken (set_store s y)
                          | (Inr _, s) \<Rightarrow> (Inr (m\<lparr>cm_resolved := resolved\<rparr>), set_store s y)))))"

definition request_review_core ::
  "'w server \<Rightarrow> go_time \<Rightarrow> string \<Rightarrow> change \<Rightarrow> string \<Rightarrow> caller option \<Rightarrow> 'w sys \<Rightarrow> ('w, string \<times> string) reply" where
  "request_review_core sv now key c reviewer0 asker y =
     (case require_open_change c of
        Some e \<Rightarrow> (Inl e, y)
      | None \<Rightarrow>
          (let reviewer = go_trim_space reviewer0; who = caller_name asker
           in if reviewer = [] then refuse 400 ''missing_field'' y
              else (case upsert_review_request now key reviewer who (sy_store y) of
                      (Inl _, s) \<Rightarrow> broken (set_store s y)
                    | (Inr _, s) \<Rightarrow>
                        (Inr (reviewer, who),
                         set_store (enqueue_review_request_webhook (sv_hooks sv) now
                           (map (\<lambda>p. (pn_name p, pn_is_agent p)) (gt_principals (sv_gate sv))) c reviewer who s) y))))"

section \<open>Describing and arming\<close>

definition describe_change_core :: "string \<Rightarrow> string option \<Rightarrow> string option \<Rightarrow> 'w sys \<Rightarrow> ('w, change) reply" where
  "describe_change_core key description test_plan y =
     (case get_change (sy_store y) key of
        None \<Rightarrow> not_found y
      | Some c \<Rightarrow>
          if ch_state c \<noteq> state_open then refuse 409 ''invalid_state'' y
          else (case update_change_description key
                       (case description of None \<Rightarrow> ch_description c | Some d \<Rightarrow> d)
                       (case test_plan of None \<Rightarrow> ch_test_plan c | Some t \<Rightarrow> t) (sy_store y) of
                  (Inl _, s) \<Rightarrow> broken (set_store s y)
                | (Inr c', s) \<Rightarrow> (Inr c', set_store s y)))"

definition set_automerge_core :: "'w server \<Rightarrow> string \<Rightarrow> bool \<Rightarrow> caller option \<Rightarrow> 'w sys \<Rightarrow> ('w, change) reply" where
  "set_automerge_core sv key enabled asker y =
     (case get_change (sy_store y) key of
        None \<Rightarrow> not_found y
      | Some c \<Rightarrow>
          if enabled \<and> ch_state c \<noteq> state_open then refuse 409 ''invalid_state'' y
          else (case set_change_automerge key enabled (caller_name asker) (sy_store y) of
                  (Inl _, s) \<Rightarrow> broken (set_store s y)
                | (Inr c', s) \<Rightarrow>
                    (Inr c', if enabled then kick_automerge sv (set_store s y) else set_store s y)))"

section \<open>Checks\<close>

definition rerun_check_core ::
  "'w server \<Rightarrow> go_time \<Rightarrow> string \<Rightarrow> change \<Rightarrow> string \<Rightarrow> caller option \<Rightarrow> bot_lane option \<Rightarrow> 'w sys \<Rightarrow> ('w, merge_requirements) reply" where
  "rerun_check_core sv now key c name asker lane y =
     (case require_open_change c of
        Some e \<Rightarrow> (Inl e, y)
      | None \<Rightarrow>
          (case compute_affected (sv_gate sv) (sy_repo y) c of
             None \<Rightarrow> broken y
           | Some (result, indexed) \<Rightarrow>
               if name \<notin> set (merge_check_names (required_check_names result indexed) (effective_global_checks (sv_gate sv)))
               then refuse 400 ''unknown_check'' y
               else (case rerun_check_mem now key name (sy_store y) of
                       (Inl _, s) \<Rightarrow> broken (set_store s y)
                     | (Inr _, s) \<Rightarrow>
                         with_requirements sv now key c lane
                           (set_store (enqueue_rerun_webhook (sv_hooks sv) now c name (caller_name asker) (Some result) s) y))))"

definition acknowledged_run :: "string \<Rightarrow> check_run_view" where
  "acknowledged_run who = \<lparr>cv_name = agent_policy_check_name, cv_status = check_status_completed,
     cv_conclusion = conclusion_success, cv_last_seen = 0, cv_ttl = 0, cv_details_url = [], cv_copied_from = [],
     cv_reporter = who\<rparr>"

definition ack_policy_core ::
  "'w server \<Rightarrow> go_time \<Rightarrow> string \<Rightarrow> change \<Rightarrow> string \<Rightarrow> caller option \<Rightarrow> 'w sys \<Rightarrow> ('w, merge_requirements) reply" where
  "ack_policy_core sv now key c claimed asker y =
     (case require_open_change c of
        Some e \<Rightarrow> (Inl e, y)
      | None \<Rightarrow>
          (case human_name ''agent_ack_denied'' ''acked_by_mismatch'' asker claimed of
             Inl e \<Rightarrow> (Inl e, y)
           | Inr who \<Rightarrow>
               if who = [] then refuse 400 ''missing_field'' y
               else (case find_run (list_check_runs (sy_store y) key (ch_head c)) agent_policy_check_name of
                       None \<Rightarrow> refuse 400 ''nothing_to_acknowledge'' y
                     | Some run \<Rightarrow>
                         if cv_status run = check_status_completed \<and> cv_conclusion run = conclusion_success
                         then refuse 409 ''already_acknowledged'' y
                         else record_and_answer sv now key c
                                (upsert_check_run now key (ch_head c) (acknowledged_run who) (sy_store y)) y)))"

text \<open>A CI report (\<open>handlePostCheck\<close>): the reserved name is never accepted from outside.\<close>

record check_run_report =
  cr_name :: string
  cr_external_id :: string
  cr_status :: string
  cr_conclusion :: string
  cr_details :: string
  cr_reporter :: string

definition post_check :: "'w server \<Rightarrow> go_time \<Rightarrow> string \<Rightarrow> check_run_report \<Rightarrow> 'w sys \<Rightarrow> ('w, unit) reply" where
  "post_check sv now key r y =
     (case get_change (sy_store y) key of
        None \<Rightarrow> not_found y
      | Some c \<Rightarrow>
          if cr_name r = [] \<or> cr_external_id r = [] \<or> cr_reporter r = [] then refuse 400 [] y
          else if cr_name r = agent_policy_check_name then refuse 403 ''reserved_check_name'' y
          else (case upsert_check_run now key (ch_head c)
                       \<lparr>cv_name = cr_name r, cv_status = cr_status r, cv_conclusion = cr_conclusion r, cv_last_seen = 0,
                        cv_ttl = 0, cv_details_url = cr_details r, cv_copied_from = [], cv_reporter = []\<rparr> (sy_store y) of
                  (Inl _, s) \<Rightarrow> broken (set_store s y)
                | (Inr _, s) \<Rightarrow> (Inr (), kick_automerge sv (set_store s y))))"

text \<open>An image report (\<open>handlePostDeployImage\<close>): a digest is \<open>sha256:\<close> and 64 lower-case hex digits.\<close>

definition deploy_digest :: "string \<Rightarrow> bool" where
  "deploy_digest d \<longleftrightarrow> (case go_cut_prefix d ''sha256:'' of None \<Rightarrow> False | Some h \<Rightarrow> length h = 64 \<and> list_all is_hex h)"

definition post_deploy_image :: "'w server \<Rightarrow> go_time \<Rightarrow> string \<Rightarrow> deploy_image_row \<Rightarrow> 'w sys \<Rightarrow> ('w, unit) reply" where
  "post_deploy_image sv now sha r y =
     (if dg_image r = [] \<or> dg_digest r = [] then refuse 400 [] y
      else if \<not> deploy_digest (dg_digest r) then refuse 400 [] y
      else case record_deploy_image sha r (sy_store y) of
             (Inl _, s) \<Rightarrow> broken (set_store s y)
           | (Inr None, s) \<Rightarrow> not_found (set_store s y)
           | (Inr (Some (rec, now_ready)), s) \<Rightarrow>
               (Inr (), set_store (if now_ready then enqueue_deploy_images_ready_webhook (sv_hooks sv) now rec s else s) y))"

section \<open>What the cores change\<close>

lemma set_store_simps [simp]: "sy_store (set_store s y) = s" "sy_repo (set_store s y) = sy_repo y"
  by (simp_all add: set_store_def)

lemma kick_simps [simp]: "sy_store (kick_automerge sv y) = sy_store y" "sy_repo (kick_automerge sv y) = sy_repo y"
  by (simp_all add: kick_automerge_def)

lemma with_requirements_state [simp]: "snd (with_requirements sv now key c lane y) = y"
  by (simp add: with_requirements_def broken_def split: option.splits)

lemma record_and_answer_state [simp]:
  "sy_store (snd (record_and_answer sv now key c (res, s) y)) = s"
  by (simp add: record_and_answer_def broken_def split: sum.splits)

lemma record_approval_effect:
  "snd (record_approval key owner who head s) = s \<or>
   snd (record_approval key owner who head s) = s\<lparr>ms_approvals := sub_put (ms_approvals s) key owner
      \<lparr>av_owner = owner, av_by = who, av_head = head\<rparr>\<rparr>"
  by (simp add: record_approval_def split: option.splits)

text \<open>The store after an approval is the one before, or has one approval more, by somebody the guards
  let through.\<close>

definition may_approve :: "caller option \<Rightarrow> string \<Rightarrow> change \<Rightarrow> string \<Rightarrow> bool" where
  "may_approve asker claimed c who \<longleftrightarrow> ch_state c = state_open \<and> who \<noteq> [] \<and> who \<noteq> ch_authored_by c
     \<and> (case asker of None \<Rightarrow> who = claimed | Some p \<Rightarrow> \<not> pn_is_agent p \<and> who = pn_name p)"

lemma approve_change_effect:
  obtains (same) "sy_store (snd (approve_change_core sv now key c owner claimed asker y)) = sy_store y"
    | (approved) who result indexed where "may_approve asker claimed c who"
        "compute_affected (sv_gate sv) (sy_repo y) c = Some (result, indexed)"
        "list_ex (\<lambda>p. demands indexed p owner) (ar_paths result)"
        "sy_store (snd (approve_change_core sv now key c owner claimed asker y)) =
           (sy_store y)\<lparr>ms_approvals := sub_put (ms_approvals (sy_store y)) key owner
              \<lparr>av_owner = owner, av_by = who, av_head = ch_head c\<rparr>\<rparr>"
proof (cases "sy_store (snd (approve_change_core sv now key c owner claimed asker y)) = sy_store y")
  case False
  note changed = this
  have open_state: "require_open_change c = None"
    using changed by (auto simp: approve_change_core_def split: option.splits)
  obtain who where who: "human_name ''agent_approval_denied'' ''approved_by_mismatch'' asker claimed = Inr who"
    using changed open_state by (auto simp: approve_change_core_def split: option.splits sum.splits)
  obtain result indexed where aff: "compute_affected (sv_gate sv) (sy_repo y) c = Some (result, indexed)"
    using changed open_state who by (auto simp: approve_change_core_def refuse_def broken_def split: option.splits if_splits)
  let ?owners = "set (map or_owner (fst (owner_requirements (sv_gate sv) (sy_store y) key (ch_head c) (ch_authored_by c) result indexed [])))"
  have run: "owner \<in> ?owners" "who \<noteq> []" "who \<noteq> ch_authored_by c"
      "approve_change_core sv now key c owner claimed asker y =
         record_and_answer sv now key c (record_approval key owner who (ch_head c) (sy_store y)) y"
    using changed open_state who aff by (auto simp: approve_change_core_def refuse_def split: if_splits)
  have "may_approve asker claimed c who"
    using open_state who run(2,3)
    by (auto simp: may_approve_def require_open_change_def human_name_def split: option.splits if_splits)
  moreover have "list_ex (\<lambda>p. demands indexed p owner) (ar_paths result)"
    using run(1) owner_requirements_names by blast
  moreover have "sy_store (snd (approve_change_core sv now key c owner claimed asker y)) =
      snd (record_approval key owner who (ch_head c) (sy_store y))"
    unfolding run(4) by (metis record_and_answer_state prod.collapse)
  ultimately show ?thesis
    using approved aff changed record_approval_effect [of key owner who "ch_head c" "sy_store y"] by metis
qed (use same in simp)

text \<open>C23. An approval that enters the store was given for an open Change under a name that is not the one who pushed
  its head. A named caller approves under its own name and is no agent; with the anonymous deploy token the name is
  what the request claims, and nothing checks it, so it may be an agent's. The approval is bound to that head and to
  an owner whom a touched path of the Change asks for, and nothing else of the store changes.\<close>

theorem approvals_need_human:
  assumes "sy_store (snd (approve_change_core sv now key c owner claimed asker y)) \<noteq> sy_store y"
  shows "\<exists>who result indexed. may_approve asker claimed c who
     \<and> compute_affected (sv_gate sv) (sy_repo y) c = Some (result, indexed)
     \<and> list_ex (\<lambda>p. demands indexed p owner) (ar_paths result)
     \<and> sy_store (snd (approve_change_core sv now key c owner claimed asker y)) =
         (sy_store y)\<lparr>ms_approvals := sub_put (ms_approvals (sy_store y)) key owner
            \<lparr>av_owner = owner, av_by = who, av_head = ch_head c\<rparr>\<rparr>"
  by (cases rule: approve_change_effect [of sv now key c owner claimed asker y]) (use assms in blast)+

definition demo_hooks :: hooks where
  "demo_hooks = \<lparr>hk_org = ''org'', hk_envelope = (\<lambda>e. Some (wv_type e)), hk_images = (\<lambda>e. Some ''images''),
     hk_release = (\<lambda>e. Some ''release''), hk_rfc3339 = show_int, hk_rfc3339_nano = show_int\<rparr>"

definition demo_daemon :: "repo server" where
  "demo_daemon = \<lparr>sv_gate = demo_gate, sv_hooks = demo_hooks, sv_processor = True, sv_automerge = True\<rparr>"

definition demo_sys :: "repo sys" where
  "demo_sys = \<lparr>sy_store = demo_change_store, sy_repo = demo_repo, sy_bus = None, sy_kick = False\<rparr>"

text \<open>Ann, who owns the path, approves bob's Change, with her own account and with the deploy token.\<close>

definition demo_ann :: caller where
  "demo_ann = \<lparr>pn_name = ''ann'', pn_is_agent = False, pn_admin = False, pn_policy = default_agent_policy, pn_stored = True\<rparr>"

lemma demo_approval:
  assumes "asker \<in> {None, Some demo_ann}"
  shows "sy_store (snd (approve_change_core demo_daemon now ''I1'' demo_open_change ''ann'' ''ann'' asker demo_sys)) =
     demo_change_store\<lparr>ms_approvals := sub_put (ms_approvals demo_change_store) ''I1'' ''ann''
        \<lparr>av_owner = ''ann'', av_by = ''ann'', av_head = ''c2''\<rparr>\<rparr>"
proof -
  obtain result where aff: "compute_affected demo_gate demo_repo demo_open_change = Some (result, demo_index)"
      "ar_paths result = [''app/x'']" by (rule demo_affected)
  have names: "''ann'' \<in> set (map or_owner (fst (owner_requirements demo_gate demo_change_store ''I1'' ''c2'' ''bob'' result demo_index [])))"
    unfolding owner_requirements_names by (simp add: aff demo_demands)
  have fields: "ch_head demo_open_change = ''c2''" "ch_authored_by demo_open_change = ''bob''" "ch_state demo_open_change = state_open"
    by (simp_all add: demo_open_change_def new_change_def)
  have rec: "record_approval ''I1'' ''ann'' ''ann'' ''c2'' demo_change_store =
      (Inr (), demo_change_store\<lparr>ms_approvals := sub_put (ms_approvals demo_change_store) ''I1'' ''ann''
        \<lparr>av_owner = ''ann'', av_by = ''ann'', av_head = ''c2''\<rparr>\<rparr>)"
    by (simp add: record_approval_def demo_change_store_def)
  have human: "human_name a m asker ''ann'' = Inr ''ann''" for a m using assms by (auto simp: human_name_def demo_ann_def)
  show ?thesis
    using names by (simp add: approve_change_core_def require_open_change_def human demo_daemon_def demo_sys_def fields aff rec)
qed

lemma approvals_differ: "a \<noteq> ms_approvals s \<Longrightarrow> s\<lparr>ms_approvals := a\<rparr> \<noteq> s"
  by (metis mem_store.simps(3) mem_store.surjective mem_store.update_convs(3))

theorem approvals_need_human_witness:
  "\<exists>a. sub_get (ms_approvals (sy_store (snd (approve_change_core demo_daemon 0 ''I1'' demo_open_change ''ann'' ''ann'' (Some demo_ann) demo_sys))))
         ''I1'' ''ann'' = Some a \<and> av_by a = ''ann'' \<and> av_head a = ch_head demo_open_change
     \<and> may_approve (Some demo_ann) ''ann'' demo_open_change (av_by a)"
proof -
  let ?y = "snd (approve_change_core demo_daemon 0 ''I1'' demo_open_change ''ann'' ''ann'' (Some demo_ann) demo_sys)"
  have "sub_put (ms_approvals demo_change_store) ''I1'' ''ann'' \<lparr>av_owner = ''ann'', av_by = ''ann'', av_head = ''c2''\<rparr>
      \<noteq> ms_approvals demo_change_store" by code_simp
  then have "sy_store ?y \<noteq> sy_store demo_sys"
    unfolding demo_approval [OF insertI2 [OF singletonI]] using approvals_differ by (simp add: demo_sys_def)
  from approvals_need_human [OF this] obtain who where who: "may_approve (Some demo_ann) ''ann'' demo_open_change who"
      "sy_store ?y = (sy_store demo_sys)\<lparr>ms_approvals := sub_put (ms_approvals (sy_store demo_sys)) ''I1'' ''ann''
            \<lparr>av_owner = ''ann'', av_by = who, av_head = ch_head demo_open_change\<rparr>\<rparr>" by blast
  have "who = ''ann''" using who(1) by (simp add: may_approve_def demo_ann_def)
  then show ?thesis using who by (simp add: sub_get_def)
qed

text \<open>The same guard on the acknowledgement of a policy finding.\<close>

lemma ack_needs_human:
  assumes "sy_store (snd (ack_policy_core sv now key c claimed asker y)) \<noteq> sy_store y"
  shows "ch_state c = state_open \<and> (\<forall>p. asker = Some p \<longrightarrow> \<not> pn_is_agent p)"
  using assms by (auto simp: ack_policy_core_def require_open_change_def human_name_def refuse_def split: option.splits sum.splits if_splits)

text \<open>A report from outside never writes the reserved run.\<close>

lemma post_check_reserved:
  "sub_get (ms_check_runs (sy_store (snd (post_check sv now key r y)))) k agent_policy_check_name =
     sub_get (ms_check_runs (sy_store y)) k agent_policy_check_name"
  by (auto simp: post_check_def not_found_def refuse_def broken_def upsert_check_run_def Let_def split: option.splits)

end
