(* ===== verification/Landing.thy ===== *)
theory Landing
  imports Actions
begin

text \<open>
  Landing a Change through the daemon (\<open>runkod/actions.go\<close>, \<open>land.go\<close>, \<open>landstack.go\<close>,
  \<open>automerge.go\<close>, \<open>deployimages.go\<close>, \<open>workspace.go\<close>): the authorisation of a forced landing, the core
  that gates, lands and records, the stack of a Change landed bottom-up, the automerge sweep, and the
  close of an agent's workspace. What others do meanwhile is a parameter (\<open>outside\<close>): to the
  repository before each ref update, to the store while the landing runs.
\<close>

section \<open>Who may land\<close>

definition authorize_force_land :: "caller option \<Rightarrow> bot_lane option \<Rightarrow> api_error option" where
  "authorize_force_land asker lane =
     (if lane \<noteq> None then Some (typed_err 403 ''force_denied'')
      else case asker of
             None \<Rightarrow> None
           | Some p \<Rightarrow> if pn_is_agent p then Some (typed_err 403 ''force_denied'')
                       else if \<not> pn_admin p then Some (typed_err 403 ''force_denied'') else None)"

definition refuse_unlanded_parent :: "'w gate \<Rightarrow> 'w \<Rightarrow> mem_store \<Rightarrow> change \<Rightarrow> api_error option" where
  "refuse_unlanded_parent g w s c =
     (if ch_base c = [] then None
      else if gt_is_ancestor g w (ch_base c) (trunk_ref g) then None
      else if list_ex (\<lambda>p. ch_head p = ch_base c) (list_changes s state_open)
           then Some (typed_err 409 ''parent_change_not_landed'') else None)"

definition refuse_lane :: "'w gate \<Rightarrow> 'w \<Rightarrow> change \<Rightarrow> bot_lane option \<Rightarrow> api_error option" where
  "refuse_lane g w c lane =
     (case lane of
        None \<Rightarrow> None
      | Some l \<Rightarrow>
          (case compute_affected g w c of
             None \<Rightarrow> Some internal_err
           | Some (result, _) \<Rightarrow>
               if paths_outside_allowlist l (ar_paths result) \<noteq> [] then Some (typed_err 403 ''bot_lane_path_denied'') else None))"

text \<open>The refusals that come before the gate, in the code's order.\<close>

definition refuse_landing :: "'w gate \<Rightarrow> 'w \<Rightarrow> mem_store \<Rightarrow> change \<Rightarrow> bot_lane option \<Rightarrow> api_error option" where
  "refuse_landing g w s c lane =
     (if ch_state c = state_abandoned then Some (typed_err 409 ''invalid_state'')
      else case refuse_unlanded_parent g w s c of
             Some e \<Rightarrow> Some e
           | None \<Rightarrow> refuse_lane g w c lane)"

section \<open>What follows a landing\<close>

definition affected_for_change :: "'w gate \<Rightarrow> string \<Rightarrow> string list \<Rightarrow> 'w \<Rightarrow> (aff_result \<times> indexed_project list) option" where
  "affected_for_change g head paths w =
     (case rd_index (gt_reads g) w head of
        None \<Rightarrow> None
      | Some indexed \<Rightarrow>
          Some (compute (affected_project_infos indexed) paths
             ((base_options (root_invalidation indexed @ ls_root_patterns (gt_server g)))\<lparr>opt_prose := prose indexed\<rparr>), indexed))"

definition deploy_record_ttl :: int where "deploy_record_ttl = 24 * 60 * 60 * 1000000000"

definition open_deploy_record_for_land :: "'w server \<Rightarrow> go_time \<Rightarrow> change \<Rightarrow> string \<Rightarrow> 'w sys \<Rightarrow> 'w sys" where
  "open_deploy_record_for_land sv now c sha y =
     (let g = sv_gate sv; w = sy_repo y in
      if \<not> sv_processor sv then y
      else case git_diff_names_only (gt_git g) (sha @ ''^'') sha w of
             None \<Rightarrow> y
           | Some paths \<Rightarrow>
               (case affected_for_change g sha paths w of
                  None \<Rightarrow> y
                | Some (result, indexed) \<Rightarrow>
                    (let images = images_for_affected result indexed
                     in if images = [] then y
                        else set_store (snd (open_deploy_record now sha (ch_key c) (''runko change '' @ ch_key c) images
                               (snd (prune_stale_pending_deploy_records (now - deploy_record_ttl) (sy_store y))))) y)))"

definition change_event :: "string \<Rightarrow> string \<Rightarrow> string \<Rightarrow> string \<Rightarrow> string \<Rightarrow> string \<Rightarrow> workspace_event" where
  "change_event kind wid branch actor sha key =
     \<lparr>we_id = 0, we_type = kind, we_workspace = wid, we_branch = branch, we_actor = actor, we_sha = sha, we_change = key,
      we_files = 0, we_additions = 0, we_deletions = 0, we_occurred = 0\<rparr>"

definition maybe_close_agent_workspace :: "'w gate \<Rightarrow> go_time \<Rightarrow> string \<Rightarrow> 'w sys \<Rightarrow> 'w sys" where
  "maybe_close_agent_workspace g now wid y =
     (let s = sy_store y in
      if \<not> gt_single_use g \<or> wid = [] then y
      else case get_workspace s wid of
             None \<Rightarrow> y
           | Some ws \<Rightarrow>
               if ws_status ws = ''closed'' then y
               else if \<not> is_agent_name g s (ws_owner ws) then y
               else if list_ex (\<lambda>c. ch_origin_workspace c = wid) (list_changes s state_open) then y
               else (case set_workspace_status wid ''closed'' s of
                       (Inl _, s') \<Rightarrow> set_store s' y
                     | (Inr _, s') \<Rightarrow>
                         record_event now (change_event ''workspace_closed'' wid [] (ws_owner ws) [] []) (set_store s' y)))"

section \<open>The landing core\<close>

record land_decision =
  ld_landed :: bool
  ld_sha :: string
  ld_revalidate :: bool
  ld_conflicts :: "string list"
  ld_race :: bool
  ld_forced :: bool

definition no_decision :: land_decision where
  "no_decision = \<lparr>ld_landed = False, ld_sha = [], ld_revalidate = False, ld_conflicts = [], ld_race = False, ld_forced = False\<rparr>"

record 'w outside =
  ou_git :: "nat \<Rightarrow> 'w \<Rightarrow> 'w"
  ou_store :: "mem_store \<Rightarrow> mem_store"

definition land_fields :: "change \<Rightarrow> land_change" where
  "land_fields c = \<lparr>lc_key = ch_key c, lc_title = ch_title c, lc_base = ch_base c, lc_head = ch_head c\<rparr>"

definition landing_name :: "caller option \<Rightarrow> bot_lane option \<Rightarrow> string" where
  "landing_name asker lane =
     (case asker of Some p \<Rightarrow> pn_name p | None \<Rightarrow> (case lane of Some l \<Rightarrow> bl_name l | None \<Rightarrow> []))"

definition record_landing ::
  "'w server \<Rightarrow> go_time \<Rightarrow> string \<Rightarrow> change \<Rightarrow> string \<Rightarrow> bool \<Rightarrow> string \<Rightarrow> 'w sys \<Rightarrow> ('w, land_decision) reply" where
  "record_landing sv now key c who forced sha y =
     (case mark_change_landed now key sha who forced (sy_store y) of
        (Inl _, s) \<Rightarrow> broken (set_store s y)
      | (Inr _, s) \<Rightarrow>
          (let y1 = open_deploy_record_for_land sv now c sha (set_store (enqueue_landed_webhook (sv_hooks sv) now c sha s) y);
               y2 = (if ch_origin_workspace c \<noteq> []
                     then record_event now (change_event ''change_landed'' (ch_origin_workspace c) (ch_origin_branch c) who sha key) y1
                     else y1);
               y3 = maybe_close_agent_workspace (sv_gate sv) now (ch_origin_workspace c) y2
           in (Inr (no_decision\<lparr>ld_landed := True, ld_sha := sha, ld_forced := forced\<rparr>), kick_automerge sv y3)))"

definition decide_landing ::
  "'w server \<Rightarrow> go_time \<Rightarrow> 'w outside \<Rightarrow> string \<Rightarrow> change \<Rightarrow> bot_lane option \<Rightarrow> caller option \<Rightarrow> bool \<Rightarrow> bool \<Rightarrow> 'w sys \<Rightarrow>
   ('w, land_decision) reply" where
  "decide_landing sv now ou key c lane asker force mergeable y =
     (let g = sv_gate sv;
          scope = (if force then scope_never else resolve_revalidation (gt_settings g) (gt_revalidation g))
      in case attempt_land (gt_git g) (gt_reads g) (gt_server g) (land_fields c) scope (ou_git ou) (sy_repo y) of
           (Inl _, w) \<Rightarrow> broken (y\<lparr>sy_repo := w, sy_store := ou_store ou (sy_store y)\<rparr>)
         | (Inr out, w) \<Rightarrow>
             (let y1 = y\<lparr>sy_repo := w, sy_store := ou_store ou (sy_store y)\<rparr> in
              if lo_landed out then record_landing sv now key c (landing_name asker lane) (force \<and> \<not> mergeable) (lo_sha out) y1
              else if lo_revalidate out then (Inr (no_decision\<lparr>ld_revalidate := True\<rparr>), y1)
              else if lo_conflicts out \<noteq> [] then (Inr (no_decision\<lparr>ld_conflicts := lo_conflicts out\<rparr>), y1)
              else (Inr (no_decision\<lparr>ld_race := True\<rparr>), y1)))"

definition land_change_core ::
  "'w server \<Rightarrow> go_time \<Rightarrow> 'w outside \<Rightarrow> string \<Rightarrow> change \<Rightarrow> bot_lane option \<Rightarrow> caller option \<Rightarrow> bool \<Rightarrow> 'w sys \<Rightarrow>
   ('w, land_decision) reply" where
  "land_change_core sv now ou key c lane asker force y =
     (case (if force then authorize_force_land asker lane else None) of
        Some e \<Rightarrow> (Inl e, y)
      | None \<Rightarrow>
          if ch_state c = state_landed then (Inr (no_decision\<lparr>ld_landed := True, ld_sha := ch_landed_sha c\<rparr>), y)
          else (case refuse_landing (sv_gate sv) (sy_repo y) (sy_store y) c lane of
                  Some e \<Rightarrow> (Inl e, y)
                | None \<Rightarrow>
                    (case gate_requirements (sv_gate sv) (sy_repo y) (sy_store y) now key c lane of
                       None \<Rightarrow> broken y
                     | Some mr \<Rightarrow>
                         if \<not> mr_mergeable mr \<and> \<not> force then refuse 409 ''not_mergeable'' y
                         else decide_landing sv now ou key c lane asker force (mr_mergeable mr) y)))"

section \<open>Abandoning\<close>

definition abandon_change_core :: "'w server \<Rightarrow> go_time \<Rightarrow> string \<Rightarrow> caller option \<Rightarrow> 'w sys \<Rightarrow> ('w, change) reply" where
  "abandon_change_core sv now key asker y =
     (case get_change (sy_store y) key of
        None \<Rightarrow> not_found y
      | Some _ \<Rightarrow>
          (case mark_change_abandoned key (sy_store y) of
             (Inl _, s) \<Rightarrow> refuse 409 ''invalid_state'' (set_store s y)
           | (Inr c, s) \<Rightarrow>
               (let y1 = (if ch_origin_workspace c \<noteq> []
                          then record_event now (change_event ''change_abandoned'' (ch_origin_workspace c) (ch_origin_branch c)
                                 (caller_name asker) (ch_head c) key) (set_store s y)
                          else set_store s y)
                in (Inr c, maybe_close_agent_workspace (sv_gate sv) now (ch_origin_workspace c) y1))))"

section \<open>The automerge sweep\<close>

definition no_policy :: agent_policy where
  "no_policy = \<lparr>ap_require_affinity = False, ap_require_description = False, ap_max_files = 0, ap_max_bytes = 0,
     ap_can_create = False, ap_can_land = False, ap_can_modify_owners = False, ap_can_enable = [], ap_denylist = []\<rparr>"

definition armer :: "change \<Rightarrow> caller" where
  "armer c = \<lparr>pn_name = ch_automerge_by c, pn_is_agent = False, pn_admin = False, pn_policy = no_policy, pn_stored = True\<rparr>"

definition attempt_key :: "change \<Rightarrow> string \<Rightarrow> string" where
  "attempt_key c tip = ch_key c @ ''|'' @ ch_head c @ ''|'' @ tip"

definition remember_attempt :: "string \<Rightarrow> (string, bool) gomap \<Rightarrow> (string, bool) gomap" where
  "remember_attempt k memo = (let m = gm_put memo k True in if length m > 512 then gm_put gm_empty k True else m)"

definition sweep_change ::
  "'w server \<Rightarrow> go_time \<Rightarrow> 'w outside \<Rightarrow> string \<Rightarrow> change \<Rightarrow> (string, bool) gomap \<times> 'w sys \<Rightarrow> (string, bool) gomap \<times> 'w sys" where
  "sweep_change sv now ou tip c = (\<lambda>(memo, y).
     if \<not> ch_automerge c \<or> gm_true memo (attempt_key c tip) then (memo, y)
     else case gate_requirements (sv_gate sv) (sy_repo y) (sy_store y) now (ch_key c) c None of
            None \<Rightarrow> (memo, y)
          | Some mr \<Rightarrow>
              if \<not> mr_mergeable mr then (memo, y)
              else (case land_change_core sv now ou (ch_key c) c None (Some (armer c)) False y of
                      (Inl _, y') \<Rightarrow> (memo, y')
                    | (Inr d, y') \<Rightarrow>
                        if \<not> ld_landed d \<and> (ld_revalidate d \<or> ld_conflicts d \<noteq> [])
                        then (remember_attempt (attempt_key c tip) memo, y') else (memo, y')))"

fun sweep_changes ::
  "'w server \<Rightarrow> go_time \<Rightarrow> (nat \<Rightarrow> 'w outside) \<Rightarrow> nat \<Rightarrow> string \<Rightarrow> change list \<Rightarrow> (string, bool) gomap \<times> 'w sys \<Rightarrow>
   (string, bool) gomap \<times> 'w sys" where
  "sweep_changes sv now ou i tip [] st = st"
| "sweep_changes sv now ou i tip (c # cs) st = sweep_changes sv now ou (i + 1) tip cs (sweep_change sv now (ou i) tip c st)"

definition sweep_once ::
  "'w server \<Rightarrow> go_time \<Rightarrow> (nat \<Rightarrow> 'w outside) \<Rightarrow> (string, bool) gomap \<times> 'w sys \<Rightarrow> (string, bool) gomap \<times> 'w sys" where
  "sweep_once sv now ou = (\<lambda>(memo, y).
     sweep_changes sv now ou 0 (case trunk_tip (sv_gate sv) (sy_repo y) of None \<Rightarrow> [] | Some t \<Rightarrow> t)
       (list_changes (sy_store y) state_open) (memo, y))"

section \<open>A stack\<close>

definition by_head :: "change list \<Rightarrow> (string, change) gomap" where
  "by_head cs = fold (\<lambda>c m. if ch_head c \<noteq> [] then gm_put m (ch_head c) c else m) cs gm_empty"

text \<open>The parent of a Change not walked yet: the open Change whose head is its base.\<close>

definition next_parent :: "(string, change) gomap \<Rightarrow> string list \<Rightarrow> change \<Rightarrow> change option" where
  "next_parent heads seen c =
     (case gm_get heads (ch_base c) of None \<Rightarrow> None | Some p \<Rightarrow> if ch_key p \<in> set seen then None else Some p)"

function ancestors :: "(string, change) gomap \<Rightarrow> string list \<Rightarrow> change list \<Rightarrow> change list" where
  "ancestors heads seen chain =
     (case chain of
        [] \<Rightarrow> []
      | c # cs \<Rightarrow>
          (case next_parent heads seen c of
             None \<Rightarrow> chain
           | Some p \<Rightarrow> ancestors heads (ch_key p # seen) (p # chain)))"
  by auto

termination
proof (relation "measure (\<lambda>(heads, seen, chain). card (ch_key ` set (gm_vals heads) - set seen))", goal_cases)
  case (2 heads seen chain c cs p)
  then have p: "gm_get heads (ch_base c) = Some p" "ch_key p \<notin> set seen"
    by (auto simp: next_parent_def split: option.splits if_splits)
  have "p \<in> set (gm_vals heads)"
    using p(1) by (force simp: gm_get_def gm_vals_def dest: map_of_SomeD)
  then have "ch_key ` set (gm_vals heads) - set (ch_key p # seen) \<subset> ch_key ` set (gm_vals heads) - set seen"
    using p(2) by auto
  then show ?case by (simp add: psubset_card_mono)
qed simp

declare ancestors.simps [simp del]

text \<open>The chain a stack landing walks, trunk-most first, the requested Change last.\<close>

definition stack_below :: "change list \<Rightarrow> change \<Rightarrow> change list" where
  "stack_below cs c = ancestors (by_head cs) [ch_key c] [c]"

datatype stack_stop =
  Through
| Blocked string "string list"
| Refused string api_error
| NeedsRevalidation string
| Conflicting string "string list"
| RaceLost string

fun land_members ::
  "'w server \<Rightarrow> go_time \<Rightarrow> (nat \<Rightarrow> 'w outside) \<Rightarrow> nat \<Rightarrow> bot_lane option \<Rightarrow> caller option \<Rightarrow> string list \<Rightarrow> 'w sys \<Rightarrow>
   (string \<times> string) list \<times> stack_stop \<times> 'w sys" where
  "land_members sv now ou i lane asker [] y = ([], Through, y)"
| "land_members sv now ou i lane asker (k # ks) y =
     (case get_change (sy_store y) k of
        None \<Rightarrow> land_members sv now ou (i + 1) lane asker ks y
      | Some c \<Rightarrow>
          if ch_state c = state_landed then land_members sv now ou (i + 1) lane asker ks y
          else (case land_change_core sv now (ou i) (ch_key c) c lane asker False y of
                  (Inl e, y') \<Rightarrow>
                    ([], (if ae_code e = ''not_mergeable''
                          then (case gate_requirements (sv_gate sv) (sy_repo y') (sy_store y') now (ch_key c) c lane of
                                  Some mr \<Rightarrow> Blocked (ch_key c) (mr_blockers mr) | None \<Rightarrow> Refused (ch_key c) e)
                          else Refused (ch_key c) e), y')
                | (Inr d, y') \<Rightarrow>
                    if ld_landed d
                    then (let (landed_list, stop, y'') = land_members sv now ou (i + 1) lane asker ks y' in ((ch_key c, ld_sha d) # landed_list, stop, y''))
                    else if ld_revalidate d then ([], NeedsRevalidation (ch_key c), y')
                    else if ld_conflicts d \<noteq> [] then ([], Conflicting (ch_key c) (ld_conflicts d), y')
                    else ([], RaceLost (ch_key c), y')))"

definition land_stack_core ::
  "'w server \<Rightarrow> go_time \<Rightarrow> (nat \<Rightarrow> 'w outside) \<Rightarrow> change \<Rightarrow> bot_lane option \<Rightarrow> caller option \<Rightarrow> 'w sys \<Rightarrow>
   ('w, (string \<times> string) list \<times> stack_stop) reply" where
  "land_stack_core sv now ou c lane asker y =
     (if ch_state c = state_abandoned then refuse 409 ''invalid_state'' y
      else (let chain = stack_below (list_changes (sy_store y) state_open) c;
                (landed_list, stop, y') = land_members sv now ou 0 lane asker (map ch_key chain) y
            in (Inr (landed_list, stop), y')))"

section \<open>The frame of what follows a landing\<close>

lemma record_event_frame [simp]:
  "ms_changes (sy_store (record_event now e y)) = ms_changes (sy_store y)" "sy_repo (record_event now e y) = sy_repo y"
  by (simp_all add: record_event_def record_workspace_event_def put_event_def split: sum.splits)

lemma deploy_store_frame [simp]:
  "ms_changes (snd (open_deploy_record now sha key prov images s)) = ms_changes s"
  "ms_changes (snd (prune_stale_pending_deploy_records t s)) = ms_changes s"
  by (simp_all add: open_deploy_record_def prune_stale_pending_deploy_records_def split: option.splits)

lemma open_deploy_frame [simp]:
  "ms_changes (sy_store (open_deploy_record_for_land sv now c sha y)) = ms_changes (sy_store y)"
  "sy_repo (open_deploy_record_for_land sv now c sha y) = sy_repo y"
  by (auto simp: open_deploy_record_for_land_def Let_def split: option.splits)

lemma close_workspace_frame [simp]:
  "ms_changes (sy_store (maybe_close_agent_workspace g now wid y)) = ms_changes (sy_store y)"
  "sy_repo (maybe_close_agent_workspace g now wid y) = sy_repo y"
  by (auto simp: maybe_close_agent_workspace_def Let_def set_workspace_status_def modify_workspace_def
      split: option.splits sum.splits prod.splits)

lemma emit_frame [simp]: "ms_changes (enqueue_landed_webhook h now c sha s) = ms_changes s"
  by (simp add: emitters)

text \<open>Recording a landing marks the row that is then in the store.\<close>

lemma record_landing_cases:
  assumes "record_landing sv now key c who forced sha y = (Inr d, y')"
  obtains row where "get_change (sy_store y) key = Some row" "d = no_decision\<lparr>ld_landed := True, ld_sha := sha, ld_forced := forced\<rparr>"
    "ms_changes (sy_store y') = gm_put (ms_changes (sy_store y)) key
       (row\<lparr>ch_state := state_landed, ch_landed_sha := sha, ch_landed_by := who, ch_landed_forced := forced, ch_landed_at := now\<rparr>)"
    "sy_repo y' = sy_repo y"
proof (cases "get_change (sy_store y) key")
  case None
  then show ?thesis
    using assms by (simp add: record_landing_def mark_change_landed_def modify_change_def broken_def)
next
  case (Some row)
  let ?row = "row\<lparr>ch_state := state_landed, ch_landed_sha := sha, ch_landed_by := who, ch_landed_forced := forced, ch_landed_at := now\<rparr>"
  have mark: "mark_change_landed now key sha who forced (sy_store y) = (Inr ?row, put_change ?row key (sy_store y))"
    by (simp add: mark_change_landed_def modify_change_def Some)
  have "d = no_decision\<lparr>ld_landed := True, ld_sha := sha, ld_forced := forced\<rparr>"
    "ms_changes (sy_store y') = gm_put (ms_changes (sy_store y)) key ?row" "sy_repo y' = sy_repo y"
    using assms unfolding record_landing_def mark by (auto simp: Let_def put_change_def)
  then show ?thesis using that Some by blast
qed

lemma record_landing_error:
  "record_landing sv now key c who forced sha y = (Inl e, y') \<Longrightarrow> ms_changes (sy_store y') = ms_changes (sy_store y)"
  by (auto simp: record_landing_def mark_change_landed_def modify_change_def broken_def Let_def split: option.splits)

section \<open>What it takes to land\<close>

lemma decide_landing_cases:
  assumes "decide_landing sv now ou key c lane asker force mergeable y = (Inr d, y')" "ld_landed d"
  obtains out w where
    "attempt_land (gt_git (sv_gate sv)) (gt_reads (sv_gate sv)) (gt_server (sv_gate sv)) (land_fields c)
       (if force then scope_never else resolve_revalidation (gt_settings (sv_gate sv)) (gt_revalidation (sv_gate sv)))
       (ou_git ou) (sy_repo y) = (Inr out, w)" "lo_landed out"
    "record_landing sv now key c (landing_name asker lane) (force \<and> \<not> mergeable) (lo_sha out)
       (y\<lparr>sy_repo := w, sy_store := ou_store ou (sy_store y)\<rparr>) = (Inr d, y')"
proof -
  obtain res w where run: "attempt_land (gt_git (sv_gate sv)) (gt_reads (sv_gate sv)) (gt_server (sv_gate sv)) (land_fields c)
       (if force then scope_never else resolve_revalidation (gt_settings (sv_gate sv)) (gt_revalidation (sv_gate sv)))
       (ou_git ou) (sy_repo y) = (res, w)" by fastforce
  obtain out where out: "res = Inr out"
    using assms(1) run by (cases res) (simp_all add: decide_landing_def Let_def broken_def)
  have landed: "lo_landed out"
    using assms run out by (auto simp: decide_landing_def Let_def no_decision_def split: if_splits)
  moreover have "record_landing sv now key c (landing_name asker lane) (force \<and> \<not> mergeable) (lo_sha out)
       (y\<lparr>sy_repo := w, sy_store := ou_store ou (sy_store y)\<rparr>) = (Inr d, y')"
    using assms(1) run out landed by (simp add: decide_landing_def Let_def)
  ultimately show thesis using that run out by blast
qed

lemma land_change_cases:
  assumes "land_change_core sv now ou key c lane asker force y = (Inr d, y')" "ld_landed d" "ch_state c \<noteq> state_landed"
  obtains mr where "force \<longrightarrow> authorize_force_land asker lane = None"
    "refuse_landing (sv_gate sv) (sy_repo y) (sy_store y) c lane = None"
    "gate_requirements (sv_gate sv) (sy_repo y) (sy_store y) now key c lane = Some mr" "mr_mergeable mr \<or> force"
    "decide_landing sv now ou key c lane asker force (mr_mergeable mr) y = (Inr d, y')"
  using assms by (auto simp: land_change_core_def refuse_def broken_def split: option.splits if_splits)

text \<open>After a landing trunk is the commit that landed, whatever others did before.\<close>

lemma land_tip:
  assumes "git_laws g" "env_ok g env" "land g env r w = (Inr out, w')" "lo_landed out"
  shows "g_resolve g w' (trunk_ref_name (lr_trunk r)) = Some (lo_sha out)"
proof (cases rule: land_cases [of g env r w])
  case (stopped res)
  then show ?thesis using assms(3,4) by (auto simp: stops_def)
next
  case (published tree)
  show ?thesis
    using assms(1,2)
    by (cases rule: publish_cases [where r = r and tree = tree and w = w]) (use published assms(3,4) in \<open>auto simp: no_outcome_def\<close>)
qed

lemma land_attempt_tip:
  assumes "git_laws g" "env_ok g env" "land_attempt g rd sv c scope env opts w = (Inr out, opts', w')" "lo_landed out"
  shows "g_resolve g w' (trunk_ref_name (ls_trunk sv)) = Some (lo_sha out)"
proof -
  obtain r w0 where "land g env r w0 = (Inr out, w')" "lr_trunk r = ls_trunk sv"
    using assms(3) unfolding land_attempt_def Let_def by (auto split: option.splits prod.splits)
  then show ?thesis using land_tip [OF assms(1,2) _ assms(4)] by metis
qed

lemma land_loop_tip:
  assumes "git_laws g" "\<And>i. env_ok g (env i)" "land_loop n g rd sv c scope env opts w = (Inr out, w')" "lo_landed out"
  shows "g_resolve g w' (trunk_ref_name (ls_trunk sv)) = Some (lo_sha out)"
  using assms(3)
proof (induction n arbitrary: opts w)
  case 0
  then show ?case using assms(4) by (auto simp: no_outcome_def)
next
  case (Suc n)
  obtain res opts' w1 where a: "land_attempt g rd sv c scope (env n) opts w = (res, opts', w1)" by (metis prod_cases3)
  show ?case
    using Suc.IH Suc.prems a land_attempt_tip [OF assms(1,2), of rd sv c scope n opts w out opts' w'] assms(4)
    by (auto split: sum.splits if_splits)
qed

lemma force_authority:
  "authorize_force_land asker lane = None \<longleftrightarrow>
     lane = None \<and> (case asker of None \<Rightarrow> True | Some p \<Rightarrow> pn_admin p \<and> \<not> pn_is_agent p)"
  by (auto simp: authorize_force_land_def split: option.splits)

lemma lane_allowed:
  "compute_affected g w c = Some (result, indexed) \<Longrightarrow>
   refuse_lane g w c lane = None \<longleftrightarrow> (\<forall>l. lane = Some l \<longrightarrow> paths_outside_allowlist l (ar_paths result) = [])"
  by (auto simp: refuse_lane_def split: option.splits)

abbreviation landed_row :: "go_time \<Rightarrow> string \<Rightarrow> string \<Rightarrow> bool \<Rightarrow> change \<Rightarrow> change" where
  "landed_row now sha who forced row \<equiv>
     row\<lparr>ch_state := state_landed, ch_landed_sha := sha, ch_landed_by := who, ch_landed_forced := forced, ch_landed_at := now\<rparr>"

lemma land_change_effect:
  assumes "land_change_core sv now ou key c lane asker force y = (res, y')" "ou_store ou = id"
  obtains (same) "ms_changes (sy_store y') = ms_changes (sy_store y)"
      "\<And>d. res = Inr d \<Longrightarrow> ld_landed d \<Longrightarrow> ch_state c = state_landed"
    | (landed) d row where "res = Inr d" "ld_landed d" "ch_state c \<noteq> state_landed" "ch_state c \<noteq> state_abandoned"
      "ld_forced d \<longrightarrow> force" "get_change (sy_store y) key = Some row"
      "ms_changes (sy_store y') = gm_put (ms_changes (sy_store y)) key
         (landed_row now (ld_sha d) (landing_name asker lane) (ld_forced d) row)"
proof (cases "\<exists>d. res = Inr d \<and> ld_landed d \<and> ch_state c \<noteq> state_landed")
  case True
  then obtain d where d: "res = Inr d" "ld_landed d" "ch_state c \<noteq> state_landed" by blast
  obtain mr where mr: "force \<longrightarrow> authorize_force_land asker lane = None"
      "refuse_landing (sv_gate sv) (sy_repo y) (sy_store y) c lane = None"
      "gate_requirements (sv_gate sv) (sy_repo y) (sy_store y) now key c lane = Some mr" "mr_mergeable mr \<or> force"
      "decide_landing sv now ou key c lane asker force (mr_mergeable mr) y = (Inr d, y')"
    by (rule land_change_cases [OF assms(1) [unfolded d(1)] d(2,3)])
  obtain out w where rec: "attempt_land (gt_git (sv_gate sv)) (gt_reads (sv_gate sv)) (gt_server (sv_gate sv)) (land_fields c)
       (if force then scope_never else resolve_revalidation (gt_settings (sv_gate sv)) (gt_revalidation (sv_gate sv)))
       (ou_git ou) (sy_repo y) = (Inr out, w)" "lo_landed out"
      "record_landing sv now key c (landing_name asker lane) (force \<and> \<not> mr_mergeable mr) (lo_sha out)
       (y\<lparr>sy_repo := w, sy_store := ou_store ou (sy_store y)\<rparr>) = (Inr d, y')"
    by (rule decide_landing_cases [OF mr(5) d(2)])
  have alive: "ch_state c \<noteq> state_abandoned" using mr(2) by (auto simp: refuse_landing_def)
  show thesis
    by (rule record_landing_cases [OF rec(3)]) (use landed d alive assms(2) in \<open>auto simp: no_decision_def\<close>)
next
  case False
  have "ms_changes (sy_store y') = ms_changes (sy_store y)"
  proof (cases "sy_store y' = sy_store y")
    case moved: False
    have "\<exists>b. decide_landing sv now ou key c lane asker force b y = (res, y') \<and> ch_state c \<noteq> state_landed"
      using assms(1) moved by (auto simp: land_change_core_def refuse_def broken_def split: option.splits if_splits)
    then obtain b where dec: "decide_landing sv now ou key c lane asker force b y = (res, y')" "ch_state c \<noteq> state_landed" by blast
    obtain r w where run: "attempt_land (gt_git (sv_gate sv)) (gt_reads (sv_gate sv)) (gt_server (sv_gate sv)) (land_fields c)
       (if force then scope_never else resolve_revalidation (gt_settings (sv_gate sv)) (gt_revalidation (sv_gate sv)))
       (ou_git ou) (sy_repo y) = (r, w)" by fastforce
    show ?thesis
    proof (cases "\<exists>out. r = Inr out \<and> lo_landed out")
      case True
      then obtain out where out: "r = Inr out" "lo_landed out" by blast
      then have "record_landing sv now key c (landing_name asker lane) (force \<and> \<not> b) (lo_sha out) (y\<lparr>sy_repo := w\<rparr>) = (res, y')"
        using dec(1) run assms(2) by (auto simp: decide_landing_def Let_def)
      with False dec(2) show ?thesis
        by (cases res) (auto dest: record_landing_error elim!: record_landing_cases simp: no_decision_def)
    next
      case False
      then show ?thesis
        using dec(1) run assms(2) by (cases r) (auto simp: decide_landing_def Let_def broken_def split: if_splits)
    qed
  qed simp
  then show thesis using same False by blast
qed

section \<open>Properties\<close>

text \<open>C4. A Change lands only through the gate. A landing that was not a repeat had a Change that is not
  abandoned and does not sit on the head of another open Change that trunk lacks, every touched path in
  the lane's allowlist when a lane lands it, and the gate open when it was read, unless the operator's
  token or an administrator who is no agent forced it; the force is recorded exactly when the gate was
  shut. Trunk is then the commit that landed, and the Change's row says so. A parent that was abandoned or
  amended since is not seen: such a child may land (\<open>abandoned_parent_passes\<close> below).\<close>

theorem landing_passes_gate:
  fixes sv :: "'w server"
  assumes "land_change_core sv now ou key c lane asker force y = (Inr d, y')" "ld_landed d" "ch_state c \<noteq> state_landed"
    "git_laws (gt_git (sv_gate sv))" "\<And>i. env_ok (gt_git (sv_gate sv)) (ou_git ou i)"
  shows "\<exists>result indexed row.
     compute_affected (sv_gate sv) (sy_repo y) c = Some (result, indexed)
   \<and> ch_state c \<noteq> state_abandoned
   \<and> (ch_base c = [] \<or> gt_is_ancestor (sv_gate sv) (sy_repo y) (ch_base c) (trunk_ref (sv_gate sv))
      \<or> (\<forall>p \<in> set (list_changes (sy_store y) state_open). ch_head p \<noteq> ch_base c))
   \<and> (\<forall>l. lane = Some l \<longrightarrow> paths_outside_allowlist l (ar_paths result) = [])
   \<and> (let ok = gate_open (sv_gate sv) (sy_repo y) (sy_store y) now key c lane result indexed in
        (ok \<or> force \<and> lane = None \<and> (case asker of None \<Rightarrow> True | Some p \<Rightarrow> pn_admin p \<and> \<not> pn_is_agent p))
        \<and> (ld_forced d \<longleftrightarrow> force \<and> \<not> ok))
   \<and> g_resolve (gt_git (sv_gate sv)) (sy_repo y') (trunk_ref (sv_gate sv)) = Some (ld_sha d)
   \<and> get_change (sy_store y') key = Some (landed_row now (ld_sha d) (landing_name asker lane) (ld_forced d) row)"
proof -
  obtain mr where mr: "force \<longrightarrow> authorize_force_land asker lane = None"
      "refuse_landing (sv_gate sv) (sy_repo y) (sy_store y) c lane = None"
      "gate_requirements (sv_gate sv) (sy_repo y) (sy_store y) now key c lane = Some mr" "mr_mergeable mr \<or> force"
      "decide_landing sv now ou key c lane asker force (mr_mergeable mr) y = (Inr d, y')"
    by (rule land_change_cases [OF assms(1-3)])
  obtain result indexed where aff: "compute_affected (sv_gate sv) (sy_repo y) c = Some (result, indexed)"
      "mr_mergeable mr \<longleftrightarrow> gate_open (sv_gate sv) (sy_repo y) (sy_store y) now key c lane result indexed"
    using gate_requirements_mergeable [of "sv_gate sv" "sy_repo y" "sy_store y" now key c lane] mr(3)
    by (cases "compute_affected (sv_gate sv) (sy_repo y) c") auto
  obtain out w where rec: "attempt_land (gt_git (sv_gate sv)) (gt_reads (sv_gate sv)) (gt_server (sv_gate sv)) (land_fields c)
       (if force then scope_never else resolve_revalidation (gt_settings (sv_gate sv)) (gt_revalidation (sv_gate sv)))
       (ou_git ou) (sy_repo y) = (Inr out, w)" "lo_landed out"
      "record_landing sv now key c (landing_name asker lane) (force \<and> \<not> mr_mergeable mr) (lo_sha out)
       (y\<lparr>sy_repo := w, sy_store := ou_store ou (sy_store y)\<rparr>) = (Inr d, y')"
    by (rule decide_landing_cases [OF mr(5) assms(2)])
  obtain row where row: "d = no_decision\<lparr>ld_landed := True, ld_sha := lo_sha out, ld_forced := force \<and> \<not> mr_mergeable mr\<rparr>"
      "get_change (sy_store y') key =
         Some (landed_row now (lo_sha out) (landing_name asker lane) (force \<and> \<not> mr_mergeable mr) row)" "sy_repo y' = w"
    by (rule record_landing_cases [OF rec(3)]) (auto simp: get_change_def)
  have tip: "g_resolve (gt_git (sv_gate sv)) w (trunk_ref (sv_gate sv)) = Some (lo_sha out)"
    unfolding trunk_ref_def using land_loop_tip [OF assms(4,5) rec(1) [unfolded attempt_land_def] rec(2)] .
  have "refuse_lane (sv_gate sv) (sy_repo y) c lane = None" "ch_state c \<noteq> state_abandoned"
      "refuse_unlanded_parent (sv_gate sv) (sy_repo y) (sy_store y) c = None"
    using mr(2) by (auto simp: refuse_landing_def split: if_splits option.splits)
  moreover from this(3) have "ch_base c = [] \<or> gt_is_ancestor (sv_gate sv) (sy_repo y) (ch_base c) (trunk_ref (sv_gate sv))
      \<or> (\<forall>p \<in> set (list_changes (sy_store y) state_open). ch_head p \<noteq> ch_base c)"
    by (auto simp: refuse_unlanded_parent_def list_ex_iff split: if_splits)
  moreover have "mr_mergeable mr \<or> force \<and> lane = None \<and> (case asker of None \<Rightarrow> True | Some p \<Rightarrow> pn_admin p \<and> \<not> pn_is_agent p)"
    using mr(1,4) by (auto simp: force_authority)
  ultimately show ?thesis
    using aff row tip by (intro exI [of _ result] exI [of _ indexed] exI [of _ row]) (simp add: lane_allowed no_decision_def)
qed

text \<open>The operator forces the Change of the demo server, its owner not having consented.\<close>

definition nobody :: "'w outside" where
  "nobody = \<lparr>ou_git = (\<lambda>_. id), ou_store = id\<rparr>"

lemma demo_git:
  "g_resolve (gt_git demo_gate) = g_resolve repo_git" "g_tree_of (gt_git demo_gate) = g_tree_of repo_git"
  "g_commit_tree (gt_git demo_gate) = g_commit_tree repo_git" "g_update_ref (gt_git demo_gate) = g_update_ref repo_git"
  "g_lookup (gt_git demo_gate) = g_lookup repo_git"
  by (simp_all add: demo_gate_def)

lemma demo_git_laws: "git_laws (gt_git demo_gate)"
  using repo_git_laws unfolding git_laws_def demo_git .

lemma demo_attempt:
  obtains sha w' where "attempt_land (gt_git demo_gate) (gt_reads demo_gate) (gt_server demo_gate) (land_fields demo_open_change)
     scope_never (\<lambda>_. id) demo_repo = (Inr (no_outcome\<lparr>lo_landed := True, lo_sha := sha\<rparr>), w')"
proof -
  let ?g = "gt_git demo_gate"
  have pub: "publish ?g env r tree e w = publish repo_git env r tree e w" for env r tree e w
    unfolding publish_def tip_of_def commit_tree_def advance_def demo_git by (rule refl)
  have fields: "land_fields demo_open_change = \<lparr>lc_key = ''I1'', lc_title = ''t'', lc_base = ''c1'', lc_head = ''c2''\<rparr>"
    by (simp add: land_fields_def demo_open_change_def new_change_def)
  have never: "\<not> needs_trunk_delta scope_never" by (simp add: needs_trunk_delta_def scope_defs)
  have head_tree: "g_tree_of repo_git demo_repo ''c2'' = Some ''t2''" by (simp add: repo_git_def demo_repo_def gm_get_def)
  have land: "\<exists>sha w'. land ?g id r demo_repo = (Inr (no_outcome\<lparr>lo_landed := True, lo_sha := sha\<rparr>), w')"
    if "lr_trunk r = ''main''" "lr_base r = ''c1''" "lr_head r = ''c2''" for r
  proof -
    have tip: "tip_of repo_git r demo_repo = ''c1''" "expected_tip repo_git r demo_repo = ''c1''"
      using that demo_tip by (simp_all add: tip_of_def expected_tip_def trunk_ref_name_def)
    obtain sha w' where "publish repo_git id r ''t2'' ''c1'' demo_repo = (Inr (no_outcome\<lparr>lo_landed := True, lo_sha := sha\<rparr>), w')"
      by (rule repo_publishes [of r "''t2''" demo_repo, unfolded tip])
    then show ?thesis
      using that tip demo_tip head_tree by (simp add: land_def Let_def demo_git tip_of_def pub trunk_ref_name_def) blast
  qed
  have "\<exists>sha w'. land_loop (Suc n) ?g (gt_reads demo_gate) demo_server (land_fields demo_open_change) scope_never (\<lambda>_. id) opts demo_repo
      = (Inr (no_outcome\<lparr>lo_landed := True, lo_sha := sha\<rparr>), w')" for opts n
  proof -
    let ?r = "\<lambda>opts'. \<lparr>lr_trunk = ''main'', lr_base = ''c1'', lr_head = ''c2'', lr_scope = scope_never, lr_affected = zero_affected,
      lr_projects = affected_project_infos demo_index, lr_opts = opts',
      lr_message = landed_message (Some ''m'') ''t'' ''I1'', lr_identity = land_identity demo_server\<rparr>"
    let ?opts = "opts\<lparr>opt_root_inval := root_invalidation demo_index @ ls_root_patterns demo_server, opt_prose := prose demo_index\<rparr>"
    obtain sha w' where run: "land ?g id (?r ?opts) demo_repo = (Inr (no_outcome\<lparr>lo_landed := True, lo_sha := sha\<rparr>), w')"
      using land [of "?r ?opts"] by auto
    have main: "ls_trunk demo_server = ''main''" "rd_index (gt_reads demo_gate) = (\<lambda>w t. Some demo_index)"
        "rd_message (gt_reads demo_gate) = (\<lambda>w x. Some ''m'')"
      by (simp_all add: demo_server_def demo_gate_def)
    have "land_attempt ?g (gt_reads demo_gate) demo_server (land_fields demo_open_change) scope_never id opts demo_repo
        = (Inr (no_outcome\<lparr>lo_landed := True, lo_sha := sha\<rparr>), ?opts, w')"
      using run demo_tip by (simp add: land_attempt_def Let_def main fields never demo_git trunk_ref_name_def)
    then show ?thesis by (simp add: no_outcome_def)
  qed
  from this [of 4] show thesis
    using that by (auto simp: attempt_land_def max_land_race_retries_def demo_gate_def simp del: land_loop.simps)
qed

text \<open>That Change, landed by the operator's token with force, whatever happens to its row meanwhile.\<close>

lemma demo_forced_over:
  assumes "get_change (f demo_change_store) ''I1'' = Some row"
  obtains d y' where
    "land_change_core demo_daemon 0 \<lparr>ou_git = (\<lambda>_. id), ou_store = f\<rparr> ''I1'' demo_open_change None None True demo_sys = (Inr d, y')"
    "ld_landed d" "get_change (sy_store y') ''I1'' = Some (landed_row 0 (ld_sha d) [] (ld_forced d) row)"
proof -
  obtain result where aff: "compute_affected demo_gate demo_repo demo_open_change = Some (result, demo_index)" by (rule demo_affected)
  obtain mr where mr: "gate_requirements demo_gate demo_repo demo_change_store 0 ''I1'' demo_open_change None = Some mr"
    by (simp add: gate_requirements_def aff Let_def)
  obtain sha w' where run: "attempt_land (gt_git demo_gate) (gt_reads demo_gate) (gt_server demo_gate) (land_fields demo_open_change)
     scope_never (\<lambda>_. id) demo_repo = (Inr (no_outcome\<lparr>lo_landed := True, lo_sha := sha\<rparr>), w')" by (rule demo_attempt)
  have fields: "ch_state demo_open_change = state_open" "ch_base demo_open_change = ''c1''"
    by (simp_all add: demo_open_change_def new_change_def)
  have "gt_is_ancestor demo_gate demo_repo ''c1'' (trunk_ref demo_gate)" by (simp add: demo_gate_def)
  then have refuse: "refuse_landing demo_gate demo_repo demo_change_store demo_open_change None = None"
    by (simp add: refuse_landing_def refuse_unlanded_parent_def refuse_lane_def fields)
  let ?ou = "\<lparr>ou_git = (\<lambda>_. id), ou_store = f\<rparr>"
  have core: "land_change_core demo_daemon 0 ?ou ''I1'' demo_open_change None None True demo_sys
     = decide_landing demo_daemon 0 ?ou ''I1'' demo_open_change None None True (mr_mergeable mr) demo_sys"
    using mr refuse by (simp add: land_change_core_def authorize_force_land_def fields demo_daemon_def demo_sys_def)
  let ?y = "demo_sys\<lparr>sy_repo := w', sy_store := f demo_change_store\<rparr>"
  obtain d y' where rec: "record_landing demo_daemon 0 ''I1'' demo_open_change [] (\<not> mr_mergeable mr) sha ?y = (Inr d, y')"
    using assms by (simp add: record_landing_def mark_change_landed_def modify_change_def Let_def)
  have "decide_landing demo_daemon 0 ?ou ''I1'' demo_open_change None None True (mr_mergeable mr) demo_sys = (Inr d, y')"
    using run rec by (simp add: decide_landing_def Let_def demo_daemon_def demo_sys_def no_outcome_def landing_name_def)
  moreover have "ld_landed d \<and> get_change (sy_store y') ''I1'' = Some (landed_row 0 (ld_sha d) [] (ld_forced d) row)"
    by (rule record_landing_cases [OF rec]) (use assms in \<open>auto simp: no_decision_def get_change_def\<close>)
  ultimately show thesis using that core by simp
qed

lemma demo_forced:
  obtains d y' where "land_change_core demo_daemon 0 nobody ''I1'' demo_open_change None None True demo_sys = (Inr d, y')" "ld_landed d"
proof -
  have "get_change (id demo_change_store) ''I1'' = Some demo_open_change" by (simp add: demo_change_store_def)
  from demo_forced_over [where f = id, OF this] obtain d y' where
      "land_change_core demo_daemon 0 \<lparr>ou_git = (\<lambda>_. id), ou_store = id\<rparr> ''I1'' demo_open_change None None True demo_sys = (Inr d, y')"
      "ld_landed d" .
  then show thesis using that unfolding nobody_def by blast
qed

text \<open>A push that amends the Change while it lands is recorded as landed with it: the row then names a
  head that trunk does not have.\<close>

lemma push_lost_while_landing:
  obtains d y' row f where "f = (\<lambda>s. snd (create_or_update_change ''I1'' \<lparr>pf_base = ''c1'', pf_head = ''c3'', pf_git_ref = [],
        pf_title = ''t'', pf_author = ''bob'', pf_workspace = [], pf_branch = []\<rparr> s))"
    "land_change_core demo_daemon 0 \<lparr>ou_git = (\<lambda>_. id), ou_store = f\<rparr> ''I1'' demo_open_change None None True demo_sys = (Inr d, y')"
    "get_change (sy_store y') ''I1'' = Some row" "ch_state row = state_landed" "ch_head row = ''c3''" "ch_head demo_open_change = ''c2''"
proof -
  define f where "f = (\<lambda>s. snd (create_or_update_change ''I1'' \<lparr>pf_base = ''c1'', pf_head = ''c3'', pf_git_ref = [],
        pf_title = ''t'', pf_author = ''bob'', pf_workspace = [], pf_branch = []\<rparr> s))"
  have row: "get_change (f demo_change_store) ''I1'' = Some (amend_change \<lparr>pf_base = ''c1'', pf_head = ''c3'', pf_git_ref = [],
        pf_title = ''t'', pf_author = ''bob'', pf_workspace = [], pf_branch = []\<rparr> demo_open_change)"
    by (simp add: f_def create_or_update_change_def demo_change_store_def Let_def)
  obtain d y' where run: "land_change_core demo_daemon 0 \<lparr>ou_git = (\<lambda>_. id), ou_store = f\<rparr> ''I1'' demo_open_change None None True demo_sys = (Inr d, y')"
      "get_change (sy_store y') ''I1'' = Some (landed_row 0 (ld_sha d) [] (ld_forced d)
        (amend_change \<lparr>pf_base = ''c1'', pf_head = ''c3'', pf_git_ref = [],
        pf_title = ''t'', pf_author = ''bob'', pf_workspace = [], pf_branch = []\<rparr> demo_open_change))"
    by (rule demo_forced_over [where f = f, OF row])
  show thesis by (rule that [OF f_def run(1,2)]) (simp_all add: amend_change_def Let_def demo_open_change_def new_change_def)
qed

text \<open>The stacked-parent refusal looks at open Changes only: a parent that was abandoned, or amended
  since, does not hold its child back.\<close>

lemma abandoned_parent_passes:
  assumes "\<And>p. p \<in> set (list_changes s state_open) \<Longrightarrow> ch_head p \<noteq> ch_base c"
  shows "refuse_unlanded_parent g w s c = None"
  using assms by (auto simp: refuse_unlanded_parent_def list_ex_iff)

theorem landing_passes_gate_witness:
  "\<exists>d y'. land_change_core demo_daemon 0 nobody ''I1'' demo_open_change None None True demo_sys = (Inr d, y')
     \<and> g_resolve (gt_git demo_gate) (sy_repo y') (trunk_ref demo_gate) = Some (ld_sha d)"
proof -
  obtain d y' where run: "land_change_core demo_daemon 0 nobody ''I1'' demo_open_change None None True demo_sys = (Inr d, y')" "ld_landed d"
    by (rule demo_forced)
  have sv: "sv_gate demo_daemon = demo_gate" by (simp add: demo_daemon_def)
  have "ch_state demo_open_change \<noteq> state_landed" by (simp add: demo_open_change_def new_change_def)
  moreover have "env_ok (gt_git demo_gate) (ou_git nobody i)" for i by (simp add: env_ok_def nobody_def)
  ultimately show ?thesis
    using landing_passes_gate [OF run, unfolded sv] run demo_git_laws by blast
qed

section \<open>Stacks land bottom-up\<close>

lemma by_head_get:
  assumes "gm_get (by_head cs) h = Some p"
  shows "p \<in> set cs \<and> ch_head p = h"
proof -
  have "gm_get (fold (\<lambda>c m. if ch_head c \<noteq> [] then gm_put m (ch_head c) c else m) cs m) h = Some p \<Longrightarrow>
      gm_get m h = Some p \<or> p \<in> set cs \<and> ch_head p = h" for m
  proof (induction cs arbitrary: m)
    case (Cons a cs)
    have "gm_get (if ch_head a \<noteq> [] then gm_put m (ch_head a) a else m) h = Some p \<or> p \<in> set cs \<and> ch_head p = h"
      by (rule Cons.IH) (use Cons.prems in simp)
    then show ?case by (auto split: if_splits)
  qed simp
  from this [of gm_empty] show ?thesis using assms by (simp add: by_head_def)
qed

lemma ancestors_chain:
  assumes "chain \<noteq> []" "set (map ch_key chain) \<subseteq> set seen" "distinct (map ch_key chain)"
    "successively (\<lambda>p q. ch_base q = ch_head p) chain" "\<And>h p. gm_get heads h = Some p \<Longrightarrow> ch_head p = h"
  shows "distinct (map ch_key (ancestors heads seen chain)) \<and> suffix chain (ancestors heads seen chain)
     \<and> successively (\<lambda>p q. ch_base q = ch_head p) (ancestors heads seen chain)"
  using assms
proof (induction heads seen chain rule: ancestors.induct)
  case (1 heads seen chain)
  then obtain c cs where chain: "chain = c # cs" by (cases chain) auto
  show ?case
  proof (cases "next_parent heads seen c")
    case None
    then show ?thesis using 1 chain by (simp add: ancestors.simps)
  next
    case (Some p)
    then have p: "gm_get heads (ch_base c) = Some p" "ch_key p \<notin> set seen"
      by (auto simp: next_parent_def split: option.splits if_splits)
    have "distinct (map ch_key (p # chain))" "set (map ch_key (p # chain)) \<subseteq> set (ch_key p # seen)"
      using p(2) 1(3,4) by auto
    moreover have "successively (\<lambda>p q. ch_base q = ch_head p) (p # chain)"
      using 1(5) 1(6) [OF p(1)] chain by simp
    ultimately have "distinct (map ch_key (ancestors heads (ch_key p # seen) (p # chain)))
        \<and> suffix (p # chain) (ancestors heads (ch_key p # seen) (p # chain))
        \<and> successively (\<lambda>p q. ch_base q = ch_head p) (ancestors heads (ch_key p # seen) (p # chain))"
      using 1(1) [OF chain Some] 1(6) chain by simp
    moreover have "ancestors heads seen chain = ancestors heads (ch_key p # seen) (p # chain)"
      using Some chain by (subst ancestors.simps) simp
    ultimately show ?thesis using suffix_ConsD by auto
  qed
qed

lemma stack_below_chain:
  "distinct (map ch_key (stack_below cs c)) \<and> stack_below cs c \<noteq> [] \<and> last (stack_below cs c) = c
     \<and> successively (\<lambda>p q. ch_base q = ch_head p) (stack_below cs c)"
proof -
  have "distinct (map ch_key (stack_below cs c)) \<and> suffix [c] (stack_below cs c)
      \<and> successively (\<lambda>p q. ch_base q = ch_head p) (stack_below cs c)"
    unfolding stack_below_def by (rule ancestors_chain) (auto dest: by_head_get)
  then show ?thesis by (auto simp: suffix_def)
qed

text \<open>Of a list of members a prefix is dealt with, each landed or gone, and the rest is as it was.\<close>

definition dealt_with :: "string list \<Rightarrow> 'w sys \<Rightarrow> 'w sys \<Rightarrow> nat \<Rightarrow> bool" where
  "dealt_with ks y y' n \<longleftrightarrow> n \<le> length ks
     \<and> (\<forall>k \<in> set (take n ks). change_state (sy_store y') k \<in> {None, Some state_landed})
     \<and> (\<forall>k. k \<notin> set (take n ks) \<longrightarrow> get_change (sy_store y') k = get_change (sy_store y) k)"

lemma dealt_with_Suc:
  assumes "dealt_with ks y1 y' n" "k \<notin> set ks" "change_state (sy_store y1) k \<in> {None, Some state_landed}"
    "\<And>k'. k' \<noteq> k \<Longrightarrow> get_change (sy_store y1) k' = get_change (sy_store y) k'"
  shows "dealt_with (k # ks) y y' (Suc n)"
proof -
  have "k \<notin> set (take n ks)" using assms(2) in_set_takeD by fast
  then have "get_change (sy_store y') k = get_change (sy_store y1) k" using assms(1) by (simp add: dealt_with_def)
  then show ?thesis using assms(1,3,4) by (auto simp: dealt_with_def change_state_def)
qed

lemma land_members_prefix:
  assumes "gm_all change_ok (ms_changes (sy_store y))" "\<And>i. ou_store (ou i) = id" "distinct ks"
    "land_members sv now ou i lane asker ks y = (landed_list, stop, y')"
  shows "\<exists>n. dealt_with ks y y' n \<and> (stop = Through \<longleftrightarrow> n = length ks) \<and> subseq (map fst landed_list) (take n ks)"
  using assms(1,3,4)
proof (induction ks arbitrary: i y landed_list)
  case Nil
  then show ?case by (auto simp: dealt_with_def)
next
  case (Cons k ks)
  have skip: ?case if run: "land_members sv now ou (i + 1) lane asker ks y = (landed_list, stop, y')"
      and st: "change_state (sy_store y) k \<in> {None, Some state_landed}"
  proof -
    obtain n where n: "dealt_with ks y y' n" "stop = Through \<longleftrightarrow> n = length ks" "subseq (map fst landed_list) (take n ks)"
      using Cons.IH [OF Cons.prems(1) _ run] Cons.prems(2) by auto
    then have "dealt_with (k # ks) y y' (Suc n)"
      using dealt_with_Suc [OF n(1) _ st] Cons.prems(2) by simp
    moreover have "subseq (map fst landed_list) (take (Suc n) (k # ks))" using n(3) by auto
    ultimately show ?thesis using n(2) by (metis length_Cons nat.inject)
  qed
  have stay: ?case if "landed_list = []" "stop \<noteq> Through" "ms_changes (sy_store y') = ms_changes (sy_store y)"
    using that by (intro exI [of _ 0]) (simp add: dealt_with_def get_change_def)
  show ?case
  proof (cases "get_change (sy_store y) k")
    case None
    then show ?thesis using skip Cons.prems(3) by (simp add: change_state_def)
  next
    case (Some c)
    have key: "ch_key c = k" using gm_all_get [OF Cons.prems(1)] Some by (auto simp: change_ok_def get_change_def)
    show ?thesis
    proof (cases "ch_state c = state_landed")
      case True
      then show ?thesis using skip Cons.prems(3) Some by (simp add: change_state_def)
    next
      case alive: False
      obtain res y1 where run: "land_change_core sv now (ou i) k c lane asker False y = (res, y1)" by fastforce
      from run assms(2) [of i] show ?thesis
      proof (cases rule: land_change_effect)
        case same
        have "landed_list = [] \<and> stop \<noteq> Through \<and> y' = y1"
          using Cons.prems(3) Some alive run key same(2)
          by (auto split: sum.splits if_splits option.splits)
        then show ?thesis using stay same(1) by simp
      next
        case (landed d row)
        obtain rest where rest: "land_members sv now ou (i + 1) lane asker ks y1 = (rest, stop, y')"
            "landed_list = (ch_key c, ld_sha d) # rest"
          using Cons.prems(3) Some alive run key landed(1,2) by (auto simp: Let_def split: prod.splits)
        have row: "row = c" using landed(6) Some by simp
        have ok: "gm_all change_ok (ms_changes (sy_store y1))"
          using gm_all_get [OF Cons.prems(1)] Some unfolding landed(7) row
          by (intro gm_all_put Cons.prems(1)) (auto simp: change_ok_def get_change_def)
        obtain n where n: "dealt_with ks y1 y' n" "stop = Through \<longleftrightarrow> n = length ks" "subseq (map fst rest) (take n ks)"
          using Cons.IH [OF ok _ rest(1)] Cons.prems(2) by auto
        have "dealt_with (k # ks) y y' (Suc n)"
          by (rule dealt_with_Suc [OF n(1)]) (use Cons.prems(2) landed(7) in \<open>auto simp: change_state_def get_change_def\<close>)
        then show ?thesis using n(2,3) rest(2) key by (intro exI [of _ "Suc n"]) auto
      qed
    qed
  qed
qed

text \<open>C8. Landing a stack walks a chain of distinct Changes that ends with the requested one, each based on
  the head of the one below it, and deals with a prefix of it: those are landed in the store or gone,
  in that order, and every other Change is as it was. It reports that it came through exactly when
  the prefix is the whole chain, so no member lands above one that did not.\<close>

theorem land_stack_bottom_up:
  assumes "gm_all change_ok (ms_changes (sy_store y))" "\<And>i. ou_store (ou i) = id"
    "land_stack_core sv now ou c lane asker y = (Inr (landed_list, stop), y')"
  defines "chain \<equiv> stack_below (list_changes (sy_store y) state_open) c"
  shows "distinct (map ch_key chain) \<and> last chain = c \<and> successively (\<lambda>p q. ch_base q = ch_head p) chain
     \<and> (\<exists>n. dealt_with (map ch_key chain) y y' n \<and> (stop = Through \<longleftrightarrow> n = length chain)
           \<and> subseq (map fst landed_list) (take n (map ch_key chain)))"
proof -
  have run: "land_members sv now ou 0 lane asker (map ch_key chain) y = (landed_list, stop, y')"
    using assms(3) by (auto simp: land_stack_core_def Let_def chain_def refuse_def split: if_splits prod.splits)
  show ?thesis
    using stack_below_chain [of "list_changes (sy_store y) state_open" c, folded chain_def]
      land_members_prefix [OF assms(1,2) _ run] by simp
qed

lemma demo_changes_ok: "gm_all change_ok (ms_changes demo_change_store)"
  by (simp add: demo_change_store_def put_change_def new_mem_store_def gm_all_put change_ok_def demo_open_change_def new_change_def)

theorem land_stack_bottom_up_witness:
  "\<exists>l stop y' n. land_stack_core demo_daemon 0 (\<lambda>_. nobody) demo_open_change None None demo_sys = (Inr (l, stop), y')
     \<and> dealt_with (map ch_key (stack_below (list_changes demo_change_store state_open) demo_open_change)) demo_sys y' n"
proof -
  have alive: "ch_state demo_open_change \<noteq> state_abandoned" by (simp add: demo_open_change_def new_change_def)
  obtain l stop y' where run: "land_stack_core demo_daemon 0 (\<lambda>_. nobody) demo_open_change None None demo_sys = (Inr (l, stop), y')"
    by (cases "land_members demo_daemon 0 (\<lambda>_. nobody) 0 None None
          (map ch_key (stack_below (list_changes (sy_store demo_sys) state_open) demo_open_change)) demo_sys")
      (use alive in \<open>simp add: land_stack_core_def Let_def\<close>)
  have "gm_all change_ok (ms_changes (sy_store demo_sys))" using demo_changes_ok by (simp add: demo_sys_def)
  from land_stack_bottom_up [OF this _ run] show ?thesis
    using run by (auto simp: nobody_def demo_sys_def)
qed

section \<open>The sweep\<close>

text \<open>What a sweep may do to the row of a Change.\<close>

definition swept :: "go_time \<Rightarrow> 'w sys \<Rightarrow> 'w sys \<Rightarrow> string \<Rightarrow> bool" where
  "swept now y y' k \<longleftrightarrow> get_change (sy_store y') k = get_change (sy_store y) k
     \<or> (\<exists>c sha. get_change (sy_store y) k = Some c \<and> ch_state c = state_open \<and> ch_automerge c
          \<and> get_change (sy_store y') k = Some (landed_row now sha (ch_automerge_by c) False c))"

lemma sweep_change_step:
  assumes "ou_store ou = id" "get_change (sy_store y) (ch_key c) = Some c" "ch_state c = state_open"
    "sweep_change sv now ou tip c (memo, y) = (memo', y')"
  shows "(\<forall>k. swept now y y' k) \<and> (\<forall>k. k \<noteq> ch_key c \<longrightarrow> get_change (sy_store y') k = get_change (sy_store y) k)"
proof (cases "y' = y")
  case False
  then obtain res where run: "land_change_core sv now ou (ch_key c) c None (Some (armer c)) False y = (res, y')" "ch_automerge c"
    using assms(4) by (auto simp: sweep_change_def split: if_splits option.splits sum.splits prod.splits)
  from run(1) assms(1) show ?thesis
  proof (cases rule: land_change_effect)
    case same
    then show ?thesis by (simp add: swept_def get_change_def)
  next
    case (landed d row)
    have "landing_name (Some (armer c)) None = ch_automerge_by c" by (simp add: landing_name_def armer_def)
    then have "get_change (sy_store y') k =
        (if k = ch_key c then Some (landed_row now (ld_sha d) (ch_automerge_by c) False c) else get_change (sy_store y) k)" for k
      using landed(5,6,7) assms(2) by (simp add: get_change_def)
    then show ?thesis using assms(2,3) run(2) by (auto simp: swept_def)
  qed
qed (simp add: swept_def)

lemma sweep_changes_rows:
  assumes "\<And>i. ou_store (ou i) = id" "distinct (map ch_key cs)"
    "\<And>c. c \<in> set cs \<Longrightarrow> get_change (sy_store y) (ch_key c) = Some c \<and> ch_state c = state_open"
    "sweep_changes sv now ou i tip cs (memo, y) = (memo', y')"
  shows "(\<forall>k. swept now y y' k) \<and> (\<forall>k. k \<notin> ch_key ` set cs \<longrightarrow> get_change (sy_store y') k = get_change (sy_store y) k)"
  using assms(2-)
proof (induction cs arbitrary: i memo y)
  case Nil
  then show ?case by (simp add: swept_def)
next
  case (Cons c cs)
  obtain memo1 y1 where one: "sweep_change sv now (ou i) tip c (memo, y) = (memo1, y1)" by fastforce
  then have step: "\<forall>k. swept now y y1 k" "\<And>k. k \<noteq> ch_key c \<Longrightarrow> get_change (sy_store y1) k = get_change (sy_store y) k"
    using sweep_change_step [OF assms(1) _ _ one] Cons.prems(2) [of c] by auto
  have rest: "(\<forall>k. swept now y1 y' k) \<and> (\<forall>k. k \<notin> ch_key ` set cs \<longrightarrow> get_change (sy_store y') k = get_change (sy_store y1) k)"
  proof (rule Cons.IH [of y1 "i + 1" memo1])
    show "get_change (sy_store y1) (ch_key c') = Some c' \<and> ch_state c' = state_open" if "c' \<in> set cs" for c'
    proof -
      have "ch_key c' \<noteq> ch_key c" using that Cons.prems(1) by (metis (no_types, lifting) distinct.simps(2) image_eqI list.simps(9) set_map)
      then show ?thesis using step(2) [of "ch_key c'"] Cons.prems(2) [of c'] that by simp
    qed
  qed (use Cons.prems one in auto)
  have "swept now y y' k" for k
  proof (cases "k = ch_key c")
    case True
    then have "get_change (sy_store y') k = get_change (sy_store y1) k" using rest Cons.prems(1) by auto
    then show ?thesis using step(1) by (simp add: swept_def)
  next
    case False
    have "swept now y1 y' k" using rest by blast
    then show ?thesis unfolding swept_def step(2) [OF False] .
  qed
  moreover have "get_change (sy_store y') k = get_change (sy_store y) k" if "k \<notin> ch_key ` set (c # cs)" for k
    using that rest step(2) [of k] by simp
  ultimately show ?case by blast
qed

lemma list_open_rows:
  assumes "gm_all change_ok (ms_changes s)"
  shows "distinct (map ch_key (list_changes s state_open))"
    "c \<in> set (list_changes s state_open) \<Longrightarrow> get_change s (ch_key c) = Some c \<and> ch_state c = state_open"
proof -
  have wf: "gm_wf (ms_changes s)" using assms by (rule gm_all_wf)
  have key: "ch_key c = k" if "(k, c) \<in> set (ms_changes s)" for k and c :: change
    using gm_all_get [OF assms, of k c] that wf by (simp add: gm_entry_iff change_ok_def)
  have "map ch_key (gm_vals (ms_changes s)) = map fst (ms_changes s)"
    using key by (simp add: gm_vals_def)
  then have d: "distinct (map ch_key (gm_vals (ms_changes s)))" using wf by (simp add: gm_wf_def)
  show "distinct (map ch_key (list_changes s state_open))"
    using d by (auto simp: list_changes_def Let_def distinct_map inj_on_def)
  show "c \<in> set (list_changes s state_open) \<Longrightarrow> get_change s (ch_key c) = Some c \<and> ch_state c = state_open"
    using key wf by (auto simp: list_changes_def Let_def get_change_def gm_vals_def gm_entry_iff)
      (auto simp: state_open_def)
qed

text \<open>C17. The automerge sweep changes the row of a Change only by landing it, unforced and under the name
  of the caller who armed it, and only if it was open and armed when the sweep began.\<close>

theorem sweep_lands_armed:
  assumes "gm_all change_ok (ms_changes (sy_store y))" "\<And>i. ou_store (ou i) = id" "sweep_once sv now ou (memo, y) = (memo', y')"
  shows "get_change (sy_store y') k = get_change (sy_store y) k
     \<or> (\<exists>c sha. get_change (sy_store y) k = Some c \<and> ch_state c = state_open \<and> ch_automerge c
          \<and> get_change (sy_store y') k = Some (landed_row now sha (ch_automerge_by c) False c))"
  using sweep_changes_rows [where ou = ou and y = y, OF assms(2) list_open_rows(1) [OF assms(1)] list_open_rows(2) [OF assms(1)]]
    assms(3)
  unfolding sweep_once_def swept_def by simp

theorem sweep_lands_armed_witness:
  "ch_state (the (get_change (sy_store (snd (sweep_once demo_daemon 0 (\<lambda>_. nobody) (gm_empty, demo_sys)))) ''I1'')) = state_open"
proof -
  obtain memo' y' where run: "sweep_once demo_daemon 0 (\<lambda>_. nobody) (gm_empty, demo_sys) = (memo', y')" by fastforce
  have ok: "gm_all change_ok (ms_changes (sy_store demo_sys))" using demo_changes_ok by (simp add: demo_sys_def)
  have row: "get_change (sy_store demo_sys) ''I1'' = Some demo_open_change" "\<not> ch_automerge demo_open_change"
      "ch_state demo_open_change = state_open"
    by (simp_all add: demo_sys_def demo_change_store_def demo_open_change_def new_change_def)
  have "ou_store nobody = id" by (simp add: nobody_def)
  from sweep_lands_armed [OF ok this run, of "''I1''"] show ?thesis using run row by auto
qed

end
