(* ===== verification/Push.thy ===== *)
theory Push
  imports Landing
begin

text \<open>
  What the receive funnel of the daemon reads (\<open>runkod/prereceive.go\<close>, \<open>principal.go\<close>, \<open>tags.go\<close>,
  \<open>workspace.go\<close>): the lines and the environment of a push, who pushes, what the pushed commits touch,
  the series of Changes they carry and the base of each. Git is run with an argument list, as the
  code does, and answers its standard output or fails; the objects in quarantine are part of the
  repository state. Texts printed to the pusher are not modelled, what they report is.
\<close>

section \<open>The processor\<close>

text \<open>Its configuration is the server's (\<open>pc_gate\<close>) with the fields of its own. The directory is the
  hub's store of accounts when one is wired.\<close>

record 'w processor =
  pc_gate :: "'w gate"
  pc_hooks :: hooks
  pc_exec :: "'w \<Rightarrow> string list \<Rightarrow> string option"
  pc_update_ref :: "string \<Rightarrow> string \<Rightarrow> 'w \<Rightarrow> bool \<times> 'w"
  pc_blob :: "'w \<Rightarrow> string \<Rightarrow> string \<Rightarrow> string option"
  pc_manifest_owners :: "string \<Rightarrow> string list option"
  pc_scanner :: secret_scanner
  pc_imports :: import_parser
  pc_lanes :: "bot_lane list"
  pc_directory :: "mem_store option"
  pc_org :: string
  pc_require_workspace :: bool
  pc_snapshot_cap :: int

definition pc_trunk :: "'w processor \<Rightarrow> string" where
  "pc_trunk p = ls_trunk (gt_server (pc_gate p))"

definition pc_trunk_ref :: "'w processor \<Rightarrow> string" where
  "pc_trunk_ref p = ''refs/heads/'' @ pc_trunk p"

text \<open>\<open>runGit\<close>: the output without its trailing newlines.\<close>

definition run_git :: "'w processor \<Rightarrow> 'w \<Rightarrow> string list \<Rightarrow> string option" where
  "run_git p w args = map_option (go_trim_right (\<lambda>c. c = newline)) (pc_exec p w args)"

definition go_fields :: "string \<Rightarrow> string list" where
  "go_fields s = filter (\<lambda>f. f \<noteq> []) (go_split CHR '' '' (map (\<lambda>c. if is_space c then CHR '' '' else c) s))"

definition go_cut :: "char \<Rightarrow> string \<Rightarrow> (string \<times> string) option" where
  "go_cut c s = (if c \<in> set s then Some (takeWhile (\<lambda>x. x \<noteq> c) s, tl (dropWhile (\<lambda>x. x \<noteq> c) s)) else None)"

text \<open>An optional sign and decimal digits.\<close>

definition is_digit :: "char \<Rightarrow> bool" where
  "is_digit c \<longleftrightarrow> CHR ''0'' \<le> c \<and> c \<le> CHR ''9''"

definition decimal_value :: "string \<Rightarrow> int option" where
  "decimal_value s =
     (let (neg, ds) = (case s of c # cs \<Rightarrow> if c = CHR ''-'' then (True, cs) else if c = CHR ''+'' then (False, cs) else (False, s)
                       | [] \<Rightarrow> (False, []));
          n = int (digits_value (rev ds))
      in if ds = [] \<or> \<not> list_all is_digit ds then None else Some (if neg then - n else n))"

text \<open>\<open>strconv.Atoi\<close> on a 64-bit platform, and the value that callers keep who drop the error: zero after a
  syntax error, the nearest bound when out of range.\<close>

definition go_atoi :: "string \<Rightarrow> int option" where
  "go_atoi s = (case decimal_value s of None \<Rightarrow> None | Some v \<Rightarrow> if v < - (2 ^ 63) \<or> v \<ge> 2 ^ 63 then None else Some v)"

definition atoi_kept :: "string \<Rightarrow> int" where
  "atoi_kept s = (case decimal_value s of None \<Rightarrow> 0 | Some v \<Rightarrow> max (- (2 ^ 63)) (min (2 ^ 63 - 1) v))"

lemma is_digit_digits: "list_all is_digit (digits_rev n)"
proof (induction n rule: digits_rev.induct)
  case (1 n)
  have digit: "is_digit (char_of (48 + d))" if "d < 10" for d :: nat
    using that by (simp add: is_digit_def less_eq_char_def)
  show ?case
  proof (cases "n < 10")
    case True
    then show ?thesis using digit by (subst digits_rev.simps) simp
  next
    case False
    then show ?thesis using digit [of "n mod 10"] 1 by (subst digits_rev.simps) simp
  qed
qed

lemma show_nat_shape:
  shows "show_nat n \<noteq> []" "list_all is_digit (show_nat n)" "digits_value (rev (show_nat n)) = n"
  using digits_rev_last [of n] is_digit_digits [of n] by (simp_all add: show_nat_def)

lemma show_nat_hd: "\<exists>c cs. show_nat n = c # cs \<and> is_digit c \<and> c \<noteq> CHR ''-'' \<and> c \<noteq> CHR ''+''"
  using show_nat_shape(1,2) [of n] by (cases "show_nat n") (auto simp: is_digit_def less_eq_char_def)

lemma decimal_value_show [simp]: "decimal_value (show_int v) = Some v"
proof (cases "v < 0")
  case True
  then show ?thesis by (simp add: decimal_value_def show_int_def show_nat_shape)
next
  case False
  obtain c cs where s: "show_nat (nat v) = c # cs" "c \<noteq> CHR ''-''" "c \<noteq> CHR ''+''" using show_nat_hd by blast
  then show ?thesis using False show_nat_shape(2,3) [of "nat v"] by (simp add: decimal_value_def show_int_def)
qed

lemma go_atoi_show: "- (2 ^ 63) \<le> v \<Longrightarrow> v < 2 ^ 63 \<Longrightarrow> go_atoi (show_int v) = Some v"
  by (simp add: go_atoi_def)

lemma atoi_kept_show: "- (2 ^ 63) \<le> v \<Longrightarrow> v < 2 ^ 63 \<Longrightarrow> atoi_kept (show_int v) = v"
  by (simp add: atoi_kept_def)

section \<open>The lines of a push\<close>

record ref_update =
  ru_old :: string
  ru_new :: string
  ru_ref :: string

definition parse_ref_line :: "string \<Rightarrow> ref_update option" where
  "parse_ref_line line =
     (case go_fields line of [a, b, c] \<Rightarrow> Some \<lparr>ru_old = a, ru_new = b, ru_ref = c\<rparr> | _ \<Rightarrow> None)"

text \<open>A line of 64 KiB or more does not fit the scanner's buffer.\<close>

definition parse_ref_updates :: "string \<Rightarrow> ref_update list option" where
  "parse_ref_updates text =
     (let lines = go_split newline text;
          updates = map parse_ref_line (filter (\<lambda>l. go_trim_space l \<noteq> []) lines)
      in if list_ex (\<lambda>l. length l \<ge> 65536) lines \<or> None \<in> set updates then None else Some (map the updates))"

section \<open>The environment of a push\<close>

definition env_value :: "string \<Rightarrow> string list \<Rightarrow> string" where
  "env_value name env = (case first_some (\<lambda>kv. go_cut_prefix kv name) env of None \<Rightarrow> [] | Some v \<Rightarrow> v)"

definition remote_user :: "string list \<Rightarrow> string" where
  "remote_user env = env_value ''REMOTE_USER='' env"

definition remote_lane :: "string list \<Rightarrow> string" where
  "remote_lane env = env_value ''REMOTE_LANE='' env"

definition push_option :: "string \<Rightarrow> (string, string) gomap \<Rightarrow> (string, string) gomap" where
  "push_option kv m =
     (case go_cut_prefix kv ''GIT_PUSH_OPTION_'' of
        None \<Rightarrow> m
      | Some rest \<Rightarrow>
          (case go_cut CHR ''='' rest of
             None \<Rightarrow> m
           | Some (idx, v) \<Rightarrow> if idx = ''COUNT'' then m else gm_put m idx v))"

text \<open>The options numbered from 0 up to the first one missing; a map of \<open>n\<close> keys misses one of the
  first \<open>n + 1\<close> numbers.\<close>

definition push_options :: "string list \<Rightarrow> string list" where
  "push_options env =
     (let m = fold push_option env gm_empty
      in map (\<lambda>i. the (gm_get m (show_nat i))) (takeWhile (\<lambda>i. gm_get m (show_nat i) \<noteq> None) [0..<length m + 1]))"

section \<open>Who pushes\<close>

definition directory_of :: "'w processor \<Rightarrow> mem_store \<Rightarrow> mem_store" where
  "directory_of p s = (case pc_directory p of Some d \<Rightarrow> d | None \<Rightarrow> s)"

definition principal_by_name :: "'w processor \<Rightarrow> go_time \<Rightarrow> mem_store \<Rightarrow> string \<Rightarrow> caller option" where
  "principal_by_name p now s name =
     (if name = [] then None
      else case find (\<lambda>q. pn_name q = name) (gt_principals (pc_gate p)) of
             Some q \<Rightarrow> Some (if pn_is_agent q then q\<lparr>pn_policy := agent_policy_or (pc_gate p) (pn_policy q)\<rparr> else q)
           | None \<Rightarrow>
               (case get_stored_principal (directory_of p s) (pc_org p) name of
                  Some sp \<Rightarrow> Some \<lparr>pn_name = sp_name sp, pn_is_agent = False, pn_admin = False, pn_policy = no_policy, pn_stored = True\<rparr>
                | None \<Rightarrow>
                    (case get_agent_by_name s name of
                       None \<Rightarrow> None
                     | Some ap \<Rightarrow>
                         if agent_live ap now
                         then Some \<lparr>pn_name = ag_name ap, pn_is_agent = True, pn_admin = False,
                                pn_policy = agent_policy_or (pc_gate p) default_agent_policy, pn_stored = False\<rparr>
                         else None)))"

definition lane_by_name :: "'w processor \<Rightarrow> string \<Rightarrow> bot_lane option" where
  "lane_by_name p name = (if name = [] then None else find (\<lambda>l. bl_name l = name) (pc_lanes p))"

section \<open>Tags\<close>

definition tag_allowed :: "bot_lane \<Rightarrow> string \<Rightarrow> bool" where
  "tag_allowed l tag = list_ex (\<lambda>pat. match_path pat tag) (bl_tags l)"

definition tag_policy_enforced :: "'w processor \<Rightarrow> bool" where
  "tag_policy_enforced p =
     (if pc_org p = [] then False else case gt_settings (pc_gate p) of Settings st \<Rightarrow> os_enforce_tags st | _ \<Rightarrow> False)"

definition authorize_tag_write :: "'w processor \<Rightarrow> go_time \<Rightarrow> mem_store \<Rightarrow> string \<Rightarrow> string \<Rightarrow> string \<Rightarrow> bool" where
  "authorize_tag_write p now s author lane tag =
     (if lane \<noteq> [] then (case lane_by_name p lane of None \<Rightarrow> False | Some l \<Rightarrow> tag_allowed l tag)
      else if author = [] then True
      else if (case principal_by_name p now s author of None \<Rightarrow> False | Some q \<Rightarrow> pn_admin q) then True
      else (case org_member_role (directory_of p s) (pc_org p) author of
              None \<Rightarrow> False | Some role \<Rightarrow> role = ''admin'' \<or> role = ''releaser''))"

section \<open>Verdicts\<close>

text \<open>Why the daemon itself refuses a ref, next to the refusals of \<open>decide\<close>.\<close>

datatype refusal =
  BadSnapshotRef | UnknownWorkspace string | ForeignWorkspace string string | ClosedWorkspace string
| ServerOwnedRef | TagDenied string | NoWorkspaceOrigin | Unindexed | AlreadyLanded string | SecondStack string
| SnapshotTooBig int

text \<open>The lines a push prints, as what they report.\<close>

datatype push_line =
  IndependentStep string string | NearCap string nat int | AckableNote policy_violation | NeverStreamed string
| CarriedForward string string | KeepsAck string | CarriesFindings string "policy_violation list"
| SeriesHead string | PushedTo string string | SnapshotStored string
| CouldNotInspect | OtherRefRejected | Refused_by refusal | Decided decision | RecordFailed

record verdict =
  vd_update :: ref_update
  vd_skip :: bool
  vd_snapshot :: bool
  vd_decision :: decision
  vd_refusal :: "refusal option"
  vd_changed :: "string list"
  vd_env :: "string list"
  vd_author :: string
  vd_failed :: bool
  vd_advice :: "push_line list"
  vd_workspace :: string
  vd_branch :: string
  vd_adds :: int
  vd_dels :: int
  vd_ackable :: "(string, policy_violation list) gomap"

definition new_verdict :: "ref_update \<Rightarrow> verdict" where
  "new_verdict u = \<lparr>vd_update = u, vd_skip = False, vd_snapshot = False, vd_decision = rejected, vd_refusal = None, vd_changed = [],
     vd_env = [], vd_author = [], vd_failed = False, vd_advice = [], vd_workspace = [], vd_branch = [], vd_adds = 0, vd_dels = 0,
     vd_ackable = gm_empty\<rparr>"

definition vd_accepted :: "verdict \<Rightarrow> bool" where
  "vd_accepted v \<longleftrightarrow> \<not> vd_failed v \<and> (vd_skip v \<or> dc_accepted (vd_decision v))"

definition failed_verdict :: "ref_update \<Rightarrow> verdict" where
  "failed_verdict u = (new_verdict u)\<lparr>vd_failed := True\<rparr>"

definition refused_verdict :: "ref_update \<Rightarrow> refusal \<Rightarrow> verdict" where
  "refused_verdict u r = (new_verdict u)\<lparr>vd_refusal := Some r\<rparr>"

definition evaluate_tag :: "'w processor \<Rightarrow> go_time \<Rightarrow> mem_store \<Rightarrow> ref_update \<Rightarrow> string list \<Rightarrow> verdict" where
  "evaluate_tag p now s u env =
     (let tag = drop (length ''refs/tags/'') (ru_ref u) in
      if \<not> tag_policy_enforced p then (new_verdict u)\<lparr>vd_skip := True\<rparr>
      else if authorize_tag_write p now s (remote_user env) (remote_lane env) tag then (new_verdict u)\<lparr>vd_skip := True\<rparr>
      else refused_verdict u (TagDenied tag))"

section \<open>Workspace refs\<close>

definition code_in :: "nat \<Rightarrow> nat \<Rightarrow> char \<Rightarrow> bool" where
  "code_in lo hi c \<longleftrightarrow> lo \<le> of_char c \<and> (of_char c :: nat) \<le> hi"

definition ref_word :: "char \<Rightarrow> bool" where
  "ref_word c \<longleftrightarrow> code_in 0x30 0x39 c \<or> code_in 0x41 0x5A c \<or> code_in 0x61 0x7A c"

text \<open>\<open>^[a-zA-Z0-9][a-zA-Z0-9._-]*$\<close>\<close>

definition workspace_id_ok :: "string \<Rightarrow> bool" where
  "workspace_id_ok s \<longleftrightarrow> (case s of [] \<Rightarrow> False
     | c # cs \<Rightarrow> ref_word c \<and> list_all (\<lambda>x. ref_word x \<or> x \<in> set ''._-'') cs)"

definition snapshot_ref_workspace_id :: "string \<Rightarrow> string option" where
  "snapshot_ref_workspace_id ref =
     (case go_cut_prefix ref ''refs/workspaces/'' of
        None \<Rightarrow> None
      | Some rest \<Rightarrow> (case go_cut slash rest of None \<Rightarrow> None | Some (i, _) \<Rightarrow> if i = [] then None else Some i))"

definition snapshot_ref_parts :: "string \<Rightarrow> string \<times> string \<times> bool" where
  "snapshot_ref_parts ref =
     (case go_cut_prefix ref ''refs/workspaces/'' of
        None \<Rightarrow> ([], [], False)
      | Some rest \<Rightarrow>
          (case go_cut slash rest of
             None \<Rightarrow> ([], [], False)
           | Some (i, branch) \<Rightarrow>
               if i = [] then ([], [], False) else (i, branch, slash \<notin> set branch \<and> workspace_id_ok branch)))"

text \<open>Which workspace branch a push says it comes from; the last option of a kind counts.\<close>

definition origin_option :: "string \<Rightarrow> string list \<Rightarrow> string" where
  "origin_option name opts = foldl (\<lambda>acc o'. case go_cut_prefix o' name of None \<Rightarrow> acc | Some v \<Rightarrow> v) [] opts"

definition resolve_origin ::
  "mem_store \<Rightarrow> ref_update \<Rightarrow> string list \<Rightarrow> string \<Rightarrow> verdict + string \<times> string \<times> workspace option" where
  "resolve_origin s u env author =
     (let opts = push_options env;
          i = origin_option ''workspace='' opts;
          b = origin_option ''workspace-branch='' opts;
          branch = (if b = [] then ''head'' else b)
      in if i = [] then Inr ([], [], None)
         else case get_workspace s i of
                None \<Rightarrow> Inl (refused_verdict u (UnknownWorkspace i))
              | Some ws \<Rightarrow>
                  if author \<noteq> [] \<and> ws_owner ws \<noteq> [] \<and> author \<noteq> ws_owner ws
                  then Inl (refused_verdict u (ForeignWorkspace i (ws_owner ws)))
                  else if ws_status ws = ''closed'' then Inl (refused_verdict u (ClosedWorkspace i))
                  else Inr (i, branch, Some ws))"

section \<open>What the pushed commits touch\<close>

definition empty_if_zero :: "string \<Rightarrow> string" where
  "empty_if_zero sha = (if sha = zero_oid then empty_tree_oid else sha)"

definition diff_line :: "'w processor \<Rightarrow> 'w \<Rightarrow> string \<Rightarrow> string \<Rightarrow> (string \<times> contract_file option) option" where
  "diff_line p w new line =
     (let fields = go_fields line in
      if length fields < 2 then None
      else (let path = last fields in
            if prefix ''D'' (hd fields) then Some (path, None)
            else Some (path, map_option (\<lambda>c. \<lparr>cf_path = path, cf_content = c\<rparr>) (pc_blob p w new path))))"

definition push_diff :: "'w processor \<Rightarrow> 'w \<Rightarrow> string \<Rightarrow> string \<Rightarrow> (string list \<times> contract_file list) option" where
  "push_diff p w old new =
     (case run_git p w [''diff'', ''--name-status'', empty_if_zero old, new] of
        None \<Rightarrow> None
      | Some out \<Rightarrow>
          if out = [] then Some ([], [])
          else (let rows = List.map_filter (diff_line p w new) (go_split newline out)
                in Some (map fst rows, List.map_filter snd rows)))"

definition content_bytes :: "contract_file list \<Rightarrow> int" where
  "content_bytes files = int (sum_list (map (\<lambda>f. length (cf_content f)) files))"

definition numstat_count :: "string \<Rightarrow> int" where
  "numstat_count f = (case go_atoi f of None \<Rightarrow> 0 | Some n \<Rightarrow> n)"

definition numstat_totals :: "'w processor \<Rightarrow> 'w \<Rightarrow> string \<Rightarrow> string \<Rightarrow> int \<times> int" where
  "numstat_totals p w old new =
     (case run_git p w [''diff'', ''--numstat'', empty_if_zero old, new] of
        None \<Rightarrow> (0, 0)
      | Some out \<Rightarrow>
          (let rows = filter (\<lambda>fs. length fs \<ge> 3) (map go_fields (go_split newline out))
           in (sum_list (map (\<lambda>fs. numstat_count (fs ! 0)) rows), sum_list (map (\<lambda>fs. numstat_count (fs ! 1)) rows))))"

definition merge_base :: "'w processor \<Rightarrow> 'w \<Rightarrow> string \<Rightarrow> string option" where
  "merge_base p w sha = run_git p w [''merge-base'', sha, pc_trunk_ref p]"

text \<open>The base a delta is measured from: the merge base with trunk where there is one.\<close>

definition delta_base :: "'w processor \<Rightarrow> 'w \<Rightarrow> string \<Rightarrow> string \<Rightarrow> string" where
  "delta_base p w sha fallback =
     (case merge_base p w sha of
        None \<Rightarrow> fallback | Some mb \<Rightarrow> if go_trim_space mb = [] then fallback else go_trim_space mb)"

section \<open>Ownership\<close>

definition held_at :: "string \<Rightarrow> bool" where
  "held_at at \<longleftrightarrow> at \<noteq> [] \<and> at \<noteq> zero_oid"

definition blob_exists_at :: "'w processor \<Rightarrow> 'w \<Rightarrow> string \<Rightarrow> string \<Rightarrow> bool" where
  "blob_exists_at p w at path \<longleftrightarrow> held_at at \<and> run_git p w [''cat-file'', ''-e'', at @ '':'' @ path] \<noteq> None"

definition tree_has_content_at :: "'w processor \<Rightarrow> 'w \<Rightarrow> string \<Rightarrow> string \<Rightarrow> bool" where
  "tree_has_content_at p w at dir \<longleftrightarrow> held_at at \<and>
     (case run_git p w [''ls-tree'', ''--name-only'', at, dir @ ''/''] of None \<Rightarrow> False | Some out \<Rightarrow> go_trim_space out \<noteq> [])"

definition manifest_owners_at :: "'w processor \<Rightarrow> 'w \<Rightarrow> string \<Rightarrow> string \<Rightarrow> string list" where
  "manifest_owners_at p w at path =
     (case run_git p w [''cat-file'', ''-p'', at @ '':'' @ path] of
        None \<Rightarrow> [] | Some out \<Rightarrow> (case pc_manifest_owners p out of None \<Rightarrow> [] | Some os \<Rightarrow> os))"

record ownership_touch =
  ot_modifies :: bool
  ot_creates :: bool
  ot_owners :: "string list"

definition touch_path :: "'w processor \<Rightarrow> 'w \<Rightarrow> string \<Rightarrow> string \<Rightarrow> ownership_touch \<Rightarrow> string \<Rightarrow> ownership_touch" where
  "touch_path p w base new t path =
     (let (dir, name) = (case cut_last slash path of None \<Rightarrow> ([], path) | Some (d, n) \<Rightarrow> (d, n)) in
      if name \<noteq> ''OWNERS'' \<and> name \<noteq> ''PROJECT.yaml'' then t
      else if blob_exists_at p w base path \<or> name = ''OWNERS'' \<or> dir = [] \<or> tree_has_content_at p w base dir
      then t\<lparr>ot_modifies := True\<rparr>
      else t\<lparr>ot_creates := True, ot_owners := ot_owners t @ manifest_owners_at p w new path\<rparr>)"

definition classify_ownership_touch :: "'w processor \<Rightarrow> 'w \<Rightarrow> string \<Rightarrow> string \<Rightarrow> string list \<Rightarrow> ownership_touch" where
  "classify_ownership_touch p w base new paths =
     foldl (touch_path p w base new) \<lparr>ot_modifies = False, ot_creates = False, ot_owners = []\<rparr> paths"

section \<open>The series of a push\<close>

definition stack_walk_limit :: nat where "stack_walk_limit = 100"

text \<open>First-parent ancestors that trunk does not have; of everything when trunk is unborn.\<close>

definition walk_revs :: "'w processor \<Rightarrow> 'w \<Rightarrow> string \<Rightarrow> string list" where
  "walk_revs p w start =
     (let args = [''rev-list'', ''--first-parent'', ''--max-count='' @ show_nat stack_walk_limit, start] in
      case (case run_git p w (args @ [''^'' @ pc_trunk_ref p]) of None \<Rightarrow> run_git p w args | Some out \<Rightarrow> Some out) of
        None \<Rightarrow> [] | Some out \<Rightarrow> if out = [] then [] else go_split newline out)"

definition commit_message :: "'w processor \<Rightarrow> 'w \<Rightarrow> string \<Rightarrow> string option" where
  "commit_message p w at = run_git p w [''log'', ''-1'', ''--format=%B'', at]"

definition parent_or_empty :: "'w processor \<Rightarrow> 'w \<Rightarrow> string \<Rightarrow> string" where
  "parent_or_empty p w sha =
     (if run_git p w [''rev-parse'', ''--verify'', ''-q'', sha @ ''^''] = None then empty_tree_oid else sha @ ''^'')"

definition commit_own_paths :: "'w processor \<Rightarrow> 'w \<Rightarrow> string \<Rightarrow> string list" where
  "commit_own_paths p w sha =
     (case run_git p w [''diff'', ''--name-only'', parent_or_empty p w sha, sha] of
        None \<Rightarrow> [] | Some out \<Rightarrow> if out = [] then [] else go_split newline out)"

record series_member =
  sm_sha :: string
  sm_change :: string
  sm_title :: string
  sm_changed :: "string list"

text \<open>The walk from the tip down; the first commit of a Change-Id is that Change's head. None when a
  message cannot be read.\<close>

fun series_walk ::
  "'w processor \<Rightarrow> 'w \<Rightarrow> mem_store \<Rightarrow> string \<Rightarrow> string \<Rightarrow> string list \<Rightarrow> string list \<Rightarrow> series_member list option" where
  "series_walk p w s tip tip_id seen [] = Some []"
| "series_walk p w s tip tip_id seen (sha # shas) =
     (case commit_message p w sha of
        None \<Rightarrow> None
      | Some msg \<Rightarrow>
          (case (if sha = tip then Some tip_id else parse_change_id msg) of
             None \<Rightarrow> series_walk p w s tip tip_id seen shas
           | Some i \<Rightarrow>
               if i \<in> set seen then series_walk p w s tip tip_id seen shas
               else if sha \<noteq> tip \<and> (case get_change s i of None \<Rightarrow> False | Some c \<Rightarrow> ch_state c = state_landed)
               then series_walk p w s tip tip_id (i # seen) shas
               else map_option (\<lambda>ms. \<lparr>sm_sha = sha, sm_change = i, sm_title = first_line msg, sm_changed = []\<rparr> # ms)
                      (series_walk p w s tip tip_id (i # seen) shas)))"

definition with_paths :: "'w processor \<Rightarrow> 'w \<Rightarrow> verdict \<Rightarrow> series_member \<Rightarrow> series_member" where
  "with_paths p w v m =
     m\<lparr>sm_changed := (if sm_sha m = ru_new (vd_update v) then vd_changed v else commit_own_paths p w (sm_sha m))\<rparr>"

definition tip_only :: "verdict \<Rightarrow> series_member list" where
  "tip_only v = [\<lparr>sm_sha = ru_new (vd_update v), sm_change = dc_change_id (vd_decision v),
     sm_title = first_line (dc_message (vd_decision v)), sm_changed = vd_changed v\<rparr>]"

definition series_members :: "'w processor \<Rightarrow> 'w \<Rightarrow> mem_store \<Rightarrow> verdict \<Rightarrow> series_member list" where
  "series_members p w s v =
     (let u = vd_update v; shas = walk_revs p w (ru_new u) in
      if ru_ref u = pc_trunk_ref p \<or> shas = [] then tip_only v
      else case series_walk p w s (ru_new u) (dc_change_id (vd_decision v)) [] shas of
             None \<Rightarrow> tip_only v
           | Some top_down \<Rightarrow> map (with_paths p w v) (rev top_down))"

text \<open>The base of a Change: the nearest ancestor that belongs to another Change the store knows, else
  the merge base with trunk.\<close>

definition pending_base :: "'w processor \<Rightarrow> 'w \<Rightarrow> mem_store \<Rightarrow> string \<Rightarrow> string \<Rightarrow> bool" where
  "pending_base p w s key sha \<longleftrightarrow>
     (case commit_message p w sha of
        None \<Rightarrow> False
      | Some msg \<Rightarrow> (case parse_change_id msg of None \<Rightarrow> False | Some k \<Rightarrow> k \<noteq> key \<and> get_change s k \<noteq> None))"

definition nearest_pending_change_base :: "'w processor \<Rightarrow> 'w \<Rightarrow> mem_store \<Rightarrow> string \<Rightarrow> string \<Rightarrow> string option" where
  "nearest_pending_change_base p w s sha key = find (pending_base p w s key) (walk_revs p w (sha @ ''~1''))"

definition compute_base_sha :: "'w processor \<Rightarrow> 'w \<Rightarrow> mem_store \<Rightarrow> ref_update \<Rightarrow> string \<Rightarrow> string" where
  "compute_base_sha p w s u key =
     (if ru_ref u = pc_trunk_ref p then (if ru_old u = zero_oid then [] else ru_old u)
      else case nearest_pending_change_base p w s (ru_new u) key of
             Some base \<Rightarrow> base
           | None \<Rightarrow> (case merge_base p w (ru_new u) of None \<Rightarrow> [] | Some base \<Rightarrow> base))"

section \<open>Contract inputs\<close>

definition contract_project_of :: "indexed_project \<Rightarrow> contract_project" where
  "contract_project_of i =
     \<lparr>cp_name = ip_name i, cp_path = ip_path i, cp_deps = ip_deps i, cp_test_deps = ip_test_deps i, cp_consumes = ip_consumes i,
      cp_gen = ip_contract_gen i, cp_http = (ip_openapi i \<noteq> []), cp_openapi = ip_openapi i, cp_openapi_present = ip_openapi_present i\<rparr>"

definition go_module_path :: "'w processor \<Rightarrow> 'w \<Rightarrow> string \<Rightarrow> string" where
  "go_module_path p w at =
     (case pc_blob p w at ''go.mod'' of
        None \<Rightarrow> []
      | Some content \<Rightarrow>
          (case first_some (\<lambda>l. go_cut_prefix (go_trim_space l) ''module '') (go_split newline content) of
             None \<Rightarrow> [] | Some rest \<Rightarrow> go_trim_space rest))"

end
