(* ===== verification/Carry.thy ===== *)
theory Carry
  imports Push
begin

text \<open>
  The trivial-rebase carry-forward (\<open>runkod/trivialrebase.go\<close>): when a new head provably carries the
  old delta, its approvals move with it under every tier and its passing checks under the
  conflict-only tier. \<open>carry_forward\<close> answers whether every check the gate will ask for is green at
  the new head, in which case the daemon does not trigger CI again.
\<close>

section \<open>Trivial rebases\<close>

definition trivial_rebase_of :: "'w processor \<Rightarrow> 'w \<Rightarrow> change \<Rightarrow> string \<Rightarrow> string \<Rightarrow> bool" where
  "trivial_rebase_of p w old new_base new_head =
     (if ch_state old \<noteq> state_open \<or> ch_base old = [] \<or> ch_head old = [] \<or> ch_head old = new_head \<or> new_base = [] then False
      else case (commit_message p w (ch_head old), commit_message p w new_head) of
             (Some old_msg, Some new_msg) \<Rightarrow>
               if old_msg \<noteq> new_msg then False
               else (case (run_git p w [''merge-tree'', ''--write-tree'', ''--merge-base='' @ ch_base old, new_base, ch_head old],
                           run_git p w [''rev-parse'', new_head @ ''^{tree}'']) of
                       (Some replayed, Some tree) \<Rightarrow> first_line (go_trim_space replayed) = go_trim_space tree
                     | _ \<Rightarrow> False)
           | _ \<Rightarrow> False)"

section \<open>Carrying\<close>

definition effective_revalidation :: "'w processor \<Rightarrow> string" where
  "effective_revalidation p =
     resolve_revalidation (if pc_org p = [] then NoDirectory else gt_settings (pc_gate p)) (gt_revalidation (pc_gate p))"

definition org_global_required_checks :: "'w processor \<Rightarrow> string list" where
  "org_global_required_checks p =
     (if pc_org p = [] then [] else case gt_settings (pc_gate p) of Settings st \<Rightarrow> os_global_checks st | _ \<Rightarrow> [])"

definition carry_approval :: "change \<Rightarrow> change \<Rightarrow> approval \<Rightarrow> mem_store \<Rightarrow> mem_store" where
  "carry_approval old new a s =
     (if av_head a \<noteq> ch_head old then s
      else snd (record_approval (ch_key new) (av_owner a) (av_by a) (ch_head new) s))"

definition carry_approvals :: "change \<Rightarrow> change \<Rightarrow> mem_store \<Rightarrow> mem_store" where
  "carry_approvals old new s = fold (carry_approval old new) (list_approvals s (ch_key new)) s"

definition green_at :: "mem_store \<Rightarrow> string \<Rightarrow> string \<Rightarrow> string \<Rightarrow> bool" where
  "green_at s key head name \<longleftrightarrow>
     gm_true (fold (\<lambda>r m. gm_put m (cv_name r) (cv_status r = check_status_completed \<and> cv_conclusion r = conclusion_success))
       (list_check_runs s key head) gm_empty) name"

definition carry_required :: "'w processor \<Rightarrow> aff_result \<Rightarrow> indexed_project list \<Rightarrow> string list" where
  "carry_required p result indexed =
     required_check_names result indexed @ gt_global_checks (pc_gate p) @ org_global_required_checks p"

definition carry_forward_trivial_rebase ::
  "'w processor \<Rightarrow> change \<Rightarrow> change \<Rightarrow> aff_result \<Rightarrow> indexed_project list \<Rightarrow> mem_store \<Rightarrow> bool \<times> mem_store" where
  "carry_forward_trivial_rebase p old new result indexed s =
     (let s1 = carry_approvals old new s in
      if effective_revalidation p \<noteq> scope_conflict_only then (False, s1)
      else (case copy_passing_check_runs (ch_key new) (ch_head old) (ch_head new) s1 of
              (Inl _, s2) \<Rightarrow> (False, s2)
            | (Inr _, s2) \<Rightarrow> (list_all (green_at s2 (ch_key new) (ch_head new)) (carry_required p result indexed), s2)))"

end
