(* ===== verification/Funnel.thy ===== *)
theory Funnel
  imports Carry
begin

text \<open>
  The pre-receive funnel (\<open>runkod/prereceive.go\<close>): \<open>evaluate\<close> decides one ref of a push without
  writing, \<open>process_batch\<close> commits all refs of a push or none, \<open>commit_push\<close> writes the Changes of a
  series bottom-up: the stable ref, the row, the carried results, the webhook and the reserved
  agent-policy run.
\<close>

section \<open>Snapshots\<close>

definition agent_of :: "'w processor \<Rightarrow> go_time \<Rightarrow> mem_store \<Rightarrow> string \<Rightarrow> caller option" where
  "agent_of p now s author =
     (case principal_by_name p now s author of None \<Rightarrow> None | Some q \<Rightarrow> if pn_is_agent q then Some q else None)"

definition push_facts :: "string list \<Rightarrow> int \<Rightarrow> ownership_touch \<Rightarrow> string \<Rightarrow> push_summary" where
  "push_facts paths bytes t author =
     \<lparr>ps_changed = paths, ps_diff_bytes = bytes, ps_affinity = [], ps_affinity_projects = [], ps_modifies_owners = ot_modifies t,
      ps_enabled = [], ps_is_land = False, ps_is_create = ot_creates t, ps_author = author, ps_new_owners = ot_owners t\<rparr>"

definition snapshot_findings ::
  "'w processor \<Rightarrow> go_time \<Rightarrow> 'w \<Rightarrow> mem_store \<Rightarrow> workspace \<Rightarrow> string \<Rightarrow> string \<Rightarrow> string \<Rightarrow> string list \<Rightarrow> contract_file list \<Rightarrow>
   policy_violation list \<times> policy_violation list" where
  "snapshot_findings p now w s ws author base new paths files =
     (case agent_of p now s author of
        None \<Rightarrow> ([], [])
      | Some q \<Rightarrow>
          split_ackable (evaluate_policy (pn_policy q)
            ((push_facts paths (content_bytes files) (classify_ownership_touch p w base new paths) author)
               \<lparr>ps_affinity := ws_allowlist ws, ps_affinity_projects := ws_affinity ws\<rparr>)))"

definition default_max_snapshot_bytes :: int where "default_max_snapshot_bytes = 32 * 2 ^ 20"

definition snapshot_cap :: "'w processor \<Rightarrow> int" where
  "snapshot_cap p = (if pc_snapshot_cap p = 0 then default_max_snapshot_bytes else pc_snapshot_cap p)"

definition evaluate_snapshot ::
  "'w processor \<Rightarrow> go_time \<Rightarrow> 'w \<Rightarrow> mem_store \<Rightarrow> ref_update \<Rightarrow> string \<Rightarrow> string list \<Rightarrow> verdict" where
  "evaluate_snapshot p now w s u i env =
     (case get_workspace s i of
        None \<Rightarrow> (refused_verdict u (UnknownWorkspace i))\<lparr>vd_snapshot := True\<rparr>
      | Some ws \<Rightarrow>
          (let author = remote_user env;
               refused = (\<lambda>r. (refused_verdict u r)\<lparr>vd_snapshot := True, vd_author := author\<rparr>)
           in if author \<noteq> [] \<and> ws_owner ws \<noteq> [] \<and> author \<noteq> ws_owner ws then refused (ForeignWorkspace i (ws_owner ws))
              else if ws_status ws = ''closed'' then refused (ClosedWorkspace i)
              else
                (let base = delta_base p w (ru_new u) (ru_old u) in
                 case push_diff p w base (ru_new u) of
                   None \<Rightarrow> failed_verdict u
                 | Some (paths, files) \<Rightarrow>
                     (let (adds, dels) = numstat_totals p w base (ru_new u);
                          (hard, ackable) = snapshot_findings p now w s ws author base (ru_new u) paths files
                      in if hard \<noteq> [] then
                           (new_verdict u)\<lparr>vd_snapshot := True, vd_author := author, vd_decision := rejected\<lparr>dc_policy := hard\<rparr>\<rparr>
                         else if snapshot_cap p > 0 \<and> content_bytes files > snapshot_cap p then
                           (refused_verdict u (SnapshotTooBig (content_bytes files)))\<lparr>vd_snapshot := True\<rparr>
                         else (case pc_scanner p files of
                                 None \<Rightarrow> failed_verdict u
                               | Some findings \<Rightarrow>
                                   if findings \<noteq> [] then
                                     (new_verdict u)\<lparr>vd_snapshot := True, vd_decision := rejected\<lparr>dc_secrets := findings\<rparr>\<rparr>
                                   else
                                     (new_verdict u)\<lparr>vd_snapshot := True, vd_changed := paths, vd_env := env, vd_author := author,
                                        vd_adds := adds, vd_dels := dels, vd_advice := map AckableNote ackable,
                                        vd_decision := rejected\<lparr>dc_accepted := True\<rparr>\<rparr>)))))"

section \<open>Per-Change policy\<close>

definition top_dir :: "string \<Rightarrow> string" where
  "top_dir path = takeWhile (\<lambda>c. c \<noteq> slash) path"

definition disjoint_top_dirs :: "string list \<Rightarrow> string list \<Rightarrow> bool" where
  "disjoint_top_dirs a b = (if a = [] \<or> b = [] then False else \<not> list_ex (\<lambda>q. top_dir q \<in> set (map top_dir a)) b)"

text \<open>The content policy of one member, of its own commit against its first parent.\<close>

definition member_findings ::
  "'w processor \<Rightarrow> 'w \<Rightarrow> agent_policy \<Rightarrow> string \<Rightarrow> series_member \<Rightarrow> string list \<Rightarrow> contract_file list \<Rightarrow> policy_violation list" where
  "member_findings p w pol author m paths files =
     snd (split_ackable (evaluate_policy (pol\<lparr>ap_require_affinity := False\<rparr>)
       (push_facts paths (content_bytes files) (classify_ownership_touch p w (parent_or_empty p w (sm_sha m)) (sm_sha m) paths) author)))"

definition member_advice ::
  "agent_policy \<Rightarrow> (series_member \<times> string list) option \<Rightarrow> series_member \<Rightarrow> string list \<Rightarrow> contract_file list \<Rightarrow> push_line list" where
  "member_advice pol previous m paths files =
     (case previous of
        None \<Rightarrow> []
      | Some (q, earlier) \<Rightarrow> if disjoint_top_dirs earlier paths then [IndependentStep (sm_change m) (sm_change q)] else [])
     @ (if ap_max_files pol > 0 \<and> int (length paths) * 2 > ap_max_files pol
           \<or> ap_max_bytes pol > 0 \<and> content_bytes files * 2 > ap_max_bytes pol
        then [NearCap (sm_change m) (length paths) (content_bytes files)] else [])"

text \<open>The members bottom-up; None when one of them cannot be measured.\<close>

fun measure_members ::
  "'w processor \<Rightarrow> 'w \<Rightarrow> agent_policy \<Rightarrow> string \<Rightarrow> (series_member \<times> string list) option \<Rightarrow> series_member list \<Rightarrow>
   push_line list \<times> (string, policy_violation list) gomap \<Rightarrow> (push_line list \<times> (string, policy_violation list) gomap) option" where
  "measure_members p w pol author previous [] acc = Some acc"
| "measure_members p w pol author previous (m # ms) acc =
     (case push_diff p w (parent_or_empty p w (sm_sha m)) (sm_sha m) of
        None \<Rightarrow> None
      | Some (paths, files) \<Rightarrow>
          (let found = member_findings p w pol author m paths files
           in measure_members p w pol author (Some (m, paths)) ms
                (fst acc @ member_advice pol previous m paths files,
                 if found \<noteq> [] then gm_put (snd acc) (sm_change m) found else snd acc)))"

definition enforce_per_change_caps :: "'w processor \<Rightarrow> go_time \<Rightarrow> 'w \<Rightarrow> mem_store \<Rightarrow> verdict \<Rightarrow> verdict" where
  "enforce_per_change_caps p now w s v =
     (case agent_of p now s (vd_author v) of
        None \<Rightarrow> v
      | Some q \<Rightarrow>
          (case measure_members p w (pn_policy q) (vd_author v) None (series_members p w s v) ([], gm_empty) of
             None \<Rightarrow> v\<lparr>vd_failed := True\<rparr>
           | Some (advice, ackable) \<Rightarrow> v\<lparr>vd_advice := advice, vd_ackable := ackable\<rparr>))"

text \<open>One branch of a workspace carries one stack: the push must contain every open Change of it.\<close>

definition branch_stack :: "mem_store \<Rightarrow> verdict \<Rightarrow> change list" where
  "branch_stack s v =
     filter (\<lambda>c. ch_origin_workspace c = vd_workspace v \<and> ch_origin_branch c = vd_branch v) (list_changes s state_open)"

definition enforce_one_stack_per_branch :: "'w processor \<Rightarrow> 'w \<Rightarrow> mem_store \<Rightarrow> verdict \<Rightarrow> verdict option" where
  "enforce_one_stack_per_branch p w s v =
     (let in_series = set (map sm_change (series_members p w s v)) in
      case find (\<lambda>c. ch_key c \<notin> in_series) (branch_stack s v) of
        None \<Rightarrow> None
      | Some c \<Rightarrow> Some (v\<lparr>vd_decision := rejected, vd_refusal := Some (SecondStack (ch_key c))\<rparr>))"

section \<open>Evaluating one ref\<close>

text \<open>The whole push keeps only the structural part of an agent's policy.\<close>

definition whole_push_policy :: "agent_policy \<Rightarrow> agent_policy" where
  "whole_push_policy pol = pol\<lparr>ap_max_files := 0, ap_max_bytes := 0, ap_denylist := [], ap_can_modify_owners := True, ap_can_create := True\<rparr>"

definition human_principal :: principal_info where
  "human_principal = \<lparr>pp_is_agent = False, pp_policy = no_policy\<rparr>"

definition plain_request :: "'w processor \<Rightarrow> ref_update \<Rightarrow> string \<Rightarrow> string list \<Rightarrow> contract_file list \<Rightarrow> push_request" where
  "plain_request p u msg paths files =
     \<lparr>pq_ref = ru_ref u, pq_trunk = pc_trunk p, pq_message = msg, pq_files = files, pq_changed = paths, pq_diff_bytes = 0,
      pq_principal = human_principal, pq_affinity = [], pq_affinity_projects = [], pq_modifies_owners = False, pq_enabled = [],
      pq_is_land = False, pq_is_create = False, pq_author = [], pq_new_owners = [], pq_seed = ru_new u, pq_module = [], pq_projects = []\<rparr>"

definition as_agent :: "caller \<Rightarrow> string \<Rightarrow> workspace option \<Rightarrow> push_request \<Rightarrow> push_request" where
  "as_agent q author origin r =
     (let r1 = r\<lparr>pq_principal := \<lparr>pp_is_agent = True, pp_policy = whole_push_policy (pn_policy q)\<rparr>,
                 pq_diff_bytes := content_bytes (pq_files r), pq_author := author\<rparr>
      in case origin of
           None \<Rightarrow> r1
         | Some ws \<Rightarrow> if author \<noteq> [] \<and> ws_owner ws = author
                      then r1\<lparr>pq_affinity := ws_allowlist ws, pq_affinity_projects := ws_affinity ws\<rparr> else r1)"

text \<open>What \<open>decide\<close> is asked: None when the pushed head cannot be indexed.\<close>

definition push_request_of ::
  "'w processor \<Rightarrow> go_time \<Rightarrow> 'w \<Rightarrow> mem_store \<Rightarrow> ref_update \<Rightarrow> string \<Rightarrow> workspace option \<Rightarrow> string \<Rightarrow> string list \<Rightarrow> contract_file list \<Rightarrow>
   push_request option" where
  "push_request_of p now w s u author origin msg paths files =
     (let r0 = plain_request p u msg paths files;
          r1 = (if parse_magic_ref (ru_ref u) = None then Some r0
                else map_option (\<lambda>indexed. r0\<lparr>pq_projects := map contract_project_of indexed,
                                              pq_module := go_module_path p w (ru_new u)\<rparr>)
                       (rd_index (gt_reads (pc_gate p)) w (ru_new u)))
      in map_option (\<lambda>r. case agent_of p now s author of None \<Rightarrow> r | Some q \<Rightarrow> as_agent q author origin r) r1)"

definition trunk_born :: "'w processor \<Rightarrow> 'w \<Rightarrow> bool" where
  "trunk_born p w \<longleftrightarrow> run_git p w [''rev-parse'', ''--verify'', ''--quiet'', pc_trunk_ref p] \<noteq> None"

text \<open>The checks on an accepted Change push, after the decision.\<close>

definition settle_change_push :: "'w processor \<Rightarrow> go_time \<Rightarrow> 'w \<Rightarrow> mem_store \<Rightarrow> verdict \<Rightarrow> verdict" where
  "settle_change_push p now w s v =
     (if case get_change s (dc_change_id (vd_decision v)) of None \<Rightarrow> False | Some c \<Rightarrow> ch_state c = state_landed
      then refused_verdict (vd_update v) (AlreadyLanded (dc_change_id (vd_decision v)))
      else case (if vd_workspace v \<noteq> [] then enforce_one_stack_per_branch p w s v else None) of
             Some refused \<Rightarrow> refused
           | None \<Rightarrow> enforce_per_change_caps p now w s v)"

text \<open>The delta of a push and its message; None when git cannot tell.\<close>

definition change_delta_base :: "'w processor \<Rightarrow> 'w \<Rightarrow> ref_update \<Rightarrow> string" where
  "change_delta_base p w u =
     (if parse_magic_ref (ru_ref u) \<noteq> None \<or> ru_old u = zero_oid then delta_base p w (ru_new u) (ru_old u) else ru_old u)"

definition inspect_push :: "'w processor \<Rightarrow> 'w \<Rightarrow> ref_update \<Rightarrow> (string list \<times> contract_file list \<times> string) option" where
  "inspect_push p w u =
     (case push_diff p w (change_delta_base p w u) (ru_new u) of
        None \<Rightarrow> None
      | Some (paths, files) \<Rightarrow> map_option (\<lambda>msg. (paths, files, msg)) (commit_message p w (ru_new u)))"

definition decided_verdict ::
  "'w processor \<Rightarrow> ref_update \<Rightarrow> string list \<Rightarrow> string \<Rightarrow> string \<Rightarrow> push_request \<Rightarrow> verdict" where
  "decided_verdict p u env i branch r =
     (new_verdict u)\<lparr>vd_changed := pq_changed r, vd_env := env, vd_author := remote_user env, vd_workspace := i,
        vd_branch := branch, vd_decision := decide (pc_scanner p) (pc_imports p) r\<rparr>"

definition evaluate_change_push ::
  "'w processor \<Rightarrow> go_time \<Rightarrow> 'w \<Rightarrow> mem_store \<Rightarrow> ref_update \<Rightarrow> string list \<Rightarrow> string \<Rightarrow> string \<Rightarrow> workspace option \<Rightarrow> verdict" where
  "evaluate_change_push p now w s u env i branch origin =
     (if parse_magic_ref (ru_ref u) \<noteq> None \<and> pc_require_workspace p \<and> i = [] \<and> trunk_born p w
      then (refused_verdict u NoWorkspaceOrigin)\<lparr>vd_author := remote_user env\<rparr>
      else case inspect_push p w u of
             None \<Rightarrow> failed_verdict u
           | Some (paths, files, msg) \<Rightarrow>
               (case push_request_of p now w s u (remote_user env) origin msg paths files of
                  None \<Rightarrow> (refused_verdict u Unindexed)\<lparr>vd_author := remote_user env\<rparr>
                | Some r \<Rightarrow>
                    (let v = decided_verdict p u env i branch r
                     in if dc_accepted (vd_decision v) \<and> parse_magic_ref (ru_ref u) \<noteq> None
                        then settle_change_push p now w s v else v)))"

definition evaluate :: "'w processor \<Rightarrow> go_time \<Rightarrow> 'w \<Rightarrow> mem_store \<Rightarrow> ref_update \<Rightarrow> string list \<Rightarrow> verdict" where
  "evaluate p now w s u env =
     (case snapshot_ref_workspace_id (ru_ref u) of
        Some i \<Rightarrow>
          (case snapshot_ref_parts (ru_ref u) of
             (_, _, good) \<Rightarrow> if \<not> good then (refused_verdict u BadSnapshotRef)\<lparr>vd_snapshot := True\<rparr>
                            else evaluate_snapshot p now w s u i env)
      | None \<Rightarrow>
          if prefix ''refs/changes/'' (ru_ref u) then refused_verdict u ServerOwnedRef
          else if prefix ''refs/tags/'' (ru_ref u) then evaluate_tag p now s u env
          else if ru_ref u \<noteq> pc_trunk_ref p \<and> parse_magic_ref (ru_ref u) = None then (new_verdict u)\<lparr>vd_skip := True\<rparr>
          else (case resolve_origin s u env (remote_user env) of
                  Inl v \<Rightarrow> v
                | Inr (i, branch, origin) \<Rightarrow> evaluate_change_push p now w s u env i branch origin))"

section \<open>Committing\<close>

record push_result =
  rs_ref :: string
  rs_accepted :: bool
  rs_lines :: "push_line list"
  rs_change :: string

definition change_ref :: "string \<Rightarrow> string" where
  "change_ref key = ''refs/changes/'' @ key @ ''/head''"

definition acknowledged_at :: "mem_store \<Rightarrow> string \<Rightarrow> string \<Rightarrow> bool" where
  "acknowledged_at s key head = list_ex (\<lambda>r. cv_name r = agent_policy_check_name \<and> cv_status r = check_status_completed
     \<and> cv_conclusion r = conclusion_success) (list_check_runs s key head)"

definition policy_run :: "go_time \<Rightarrow> check_run_view" where
  "policy_run now = \<lparr>cv_name = agent_policy_check_name, cv_status = check_status_completed, cv_conclusion = ''failure'',
     cv_last_seen = now, cv_ttl = 0, cv_details_url = [], cv_copied_from = [], cv_reporter = ''runkod''\<rparr>"

text \<open>The carry-forward or the webhook for a new head; answers whether it is covered.\<close>

definition carry_over ::
  "'w processor \<Rightarrow> 'w \<Rightarrow> change option \<Rightarrow> string \<Rightarrow> change \<Rightarrow> aff_result \<Rightarrow> indexed_project list \<Rightarrow> mem_store \<Rightarrow> bool \<times> mem_store" where
  "carry_over p w old base c result indexed s =
     (case old of
        None \<Rightarrow> (False, s)
      | Some o' \<Rightarrow> if trivial_rebase_of p w o' base (ch_head c)
                  then carry_forward_trivial_rebase p o' c result indexed s else (False, s))"

definition carry_or_announce ::
  "'w processor \<Rightarrow> go_time \<Rightarrow> 'w \<Rightarrow> string list \<Rightarrow> change option \<Rightarrow> string \<Rightarrow> change \<Rightarrow> mem_store \<Rightarrow> bool \<times> push_line list \<times> mem_store" where
  "carry_or_announce p now w paths old base c s =
     (case affected_for_change (pc_gate p) (ch_head c) paths w of
        None \<Rightarrow> (False, [], s)
      | Some (result, indexed) \<Rightarrow>
          (let (full, s1) = carry_over p w old base c result indexed s
           in (full, if full then [CarriedForward (ch_key c) (case old of None \<Rightarrow> [] | Some o' \<Rightarrow> ch_head o')] else [],
               if full then s1 else enqueue_change_updated (pc_hooks p) now c result s1)))"

text \<open>A member with findings owes the agent-policy run, unless a carried acknowledgement covers it.\<close>

definition owe_policy_run ::
  "go_time \<Rightarrow> policy_violation list \<Rightarrow> bool \<Rightarrow> change \<Rightarrow> mem_store \<Rightarrow> push_line list \<times> mem_store" where
  "owe_policy_run now found full c s =
     (if found = [] then ([], s)
      else if full \<and> acknowledged_at s (ch_key c) (ch_head c) then ([KeepsAck (ch_key c)], s)
      else ([CarriesFindings (ch_key c) found], snd (upsert_check_run now (ch_key c) (ch_head c) (policy_run now) s)))"

definition commit_member ::
  "'w processor \<Rightarrow> go_time \<Rightarrow> verdict \<Rightarrow> series_member \<Rightarrow> 'w sys \<Rightarrow> (unit + change \<times> push_line list) \<times> 'w sys" where
  "commit_member p now v m y =
     (case pc_update_ref p (change_ref (sm_change m)) (sm_sha m) (sy_repo y) of
        (False, w) \<Rightarrow> (Inl (), y\<lparr>sy_repo := w\<rparr>)
      | (True, w) \<Rightarrow>
          (let base = compute_base_sha p w (sy_store y) ((vd_update v)\<lparr>ru_new := sm_sha m\<rparr>) (sm_change m);
               old = get_change (sy_store y) (sm_change m)
           in case create_or_update_change (sm_change m)
                     \<lparr>pf_base = base, pf_head = sm_sha m, pf_git_ref = change_ref (sm_change m), pf_title = sm_title m,
                      pf_author = vd_author v, pf_workspace = vd_workspace v, pf_branch = vd_branch v\<rparr> (sy_store y) of
                (Inl _, s) \<Rightarrow> (Inl (), y\<lparr>sy_repo := w, sy_store := s\<rparr>)
              | (Inr c, s) \<Rightarrow>
                  (let (full, carried, s1) = carry_or_announce p now w (sm_changed m) old base c s;
                       found = (case gm_get (vd_ackable v) (sm_change m) of None \<Rightarrow> [] | Some vs \<Rightarrow> vs);
                       (noted, s2) = owe_policy_run now found full c s1
                   in (Inr (c, carried @ noted @ (if sm_sha m = ru_new (vd_update v) then [] else [SeriesHead (ch_key c)])),
                       y\<lparr>sy_repo := w, sy_store := s2\<rparr>))))"

text \<open>The members in order; the first failure ends the walk, and what was written stays.\<close>

fun commit_members ::
  "'w processor \<Rightarrow> go_time \<Rightarrow> verdict \<Rightarrow> series_member list \<Rightarrow> string \<times> push_line list \<Rightarrow> 'w sys \<Rightarrow>
   (unit + string \<times> push_line list) \<times> 'w sys" where
  "commit_members p now v [] acc y = (Inr acc, y)"
| "commit_members p now v (m # ms) acc y =
     (case commit_member p now v m y of
        (Inl (), y') \<Rightarrow> (Inl (), y')
      | (Inr (c, lines), y') \<Rightarrow>
          commit_members p now v ms (if sm_sha m = ru_new (vd_update v) then ch_key c else fst acc, snd acc @ lines) y')"

definition never_streamed_advice :: "mem_store \<Rightarrow> string \<Rightarrow> push_line list" where
  "never_streamed_advice s i =
     (case list_workspace_events s i 25 0 of
        Inl _ \<Rightarrow> []
      | Inr events \<Rightarrow>
          if list_ex (\<lambda>e. we_type e = ''change_pushed'') events then []
          else if length (filter (\<lambda>e. we_type e = ''snapshot_pushed'') events) \<ge> 2 then []
          else if list_workspace_activity s i 1 0 = Inr [] then [NeverStreamed i] else [])"

definition commit_push :: "'w processor \<Rightarrow> go_time \<Rightarrow> verdict \<Rightarrow> 'w sys \<Rightarrow> push_result \<times> 'w sys" where
  "commit_push p now v y =
     (let u = vd_update v; lost = \<lparr>rs_ref = ru_ref u, rs_accepted = False, rs_lines = [RecordFailed], rs_change = []\<rparr> in
      if vd_failed v then (lost\<lparr>rs_lines := [CouldNotInspect]\<rparr>, y)
      else
      (case commit_members p now v (series_members p (sy_repo y) (sy_store y) v) ([], vd_advice v) y of
         (Inl (), y') \<Rightarrow> (lost, y')
       | (Inr (tip, lines), y') \<Rightarrow>
           (let streamed = vd_workspace v \<noteq> [] \<and> tip \<noteq> [];
                hint = (if streamed then never_streamed_advice (sy_store y') (vd_workspace v) else []);
                y'' = (if streamed
                       then record_event now ((change_event ''change_pushed'' (vd_workspace v) (vd_branch v) (vd_author v) (ru_new u) tip)
                              \<lparr>we_files := int (length (vd_changed v))\<rparr>) y'
                       else y')
            in (\<lparr>rs_ref = ru_ref u, rs_accepted = True, rs_lines = lines @ hint @ [PushedTo tip (ru_ref u)], rs_change = tip\<rparr>, y''))))"

section \<open>A push\<close>

definition rejection_lines :: "verdict \<Rightarrow> push_line list" where
  "rejection_lines v =
     (if vd_failed v then [CouldNotInspect]
      else if \<not> dc_accepted (vd_decision v)
      then (case vd_refusal v of Some r \<Rightarrow> [Refused_by r] | None \<Rightarrow> [Decided (vd_decision v)])
      else [OtherRefRejected])"

definition commit_snapshot :: "go_time \<Rightarrow> verdict \<Rightarrow> 'w sys \<Rightarrow> push_result \<times> 'w sys" where
  "commit_snapshot now v y =
     (let u = vd_update v; (i, branch, good) = snapshot_ref_parts (ru_ref u);
          y' = (if good
                then record_event now ((change_event ''snapshot_pushed'' i branch (vd_author v) (ru_new u) [])
                       \<lparr>we_files := int (length (vd_changed v)), we_additions := vd_adds v, we_deletions := vd_dels v\<rparr>) y
                else y)
      in (\<lparr>rs_ref = ru_ref u, rs_accepted = True, rs_lines = vd_advice v @ [SnapshotStored (ru_ref u)], rs_change = []\<rparr>, y'))"

definition process_one :: "'w processor \<Rightarrow> go_time \<Rightarrow> bool \<Rightarrow> verdict \<Rightarrow> 'w sys \<Rightarrow> push_result \<times> 'w sys" where
  "process_one p now all_accepted v y =
     (if vd_skip v then (\<lparr>rs_ref = ru_ref (vd_update v), rs_accepted = True, rs_lines = [], rs_change = []\<rparr>, y)
      else if \<not> all_accepted
      then (\<lparr>rs_ref = ru_ref (vd_update v), rs_accepted = False, rs_lines = rejection_lines v, rs_change = []\<rparr>, y)
      else if vd_snapshot v then commit_snapshot now v y
      else commit_push p now v y)"

fun process_all :: "'w processor \<Rightarrow> go_time \<Rightarrow> bool \<Rightarrow> verdict list \<Rightarrow> 'w sys \<Rightarrow> push_result list \<times> 'w sys" where
  "process_all p now ok [] y = ([], y)"
| "process_all p now ok (v # vs) y =
     (let (r, y1) = process_one p now ok v y; (rs, y2) = process_all p now ok vs y1 in (r # rs, y2))"

definition process_batch :: "'w processor \<Rightarrow> go_time \<Rightarrow> ref_update list \<Rightarrow> string list \<Rightarrow> 'w sys \<Rightarrow> push_result list \<times> 'w sys" where
  "process_batch p now updates env y =
     (let vs = map (\<lambda>u. evaluate p now (sy_repo y) (sy_store y) u env) updates
      in process_all p now (list_all vd_accepted vs) vs y)"

end
