(* ===== verification/FunnelLaws.thy ===== *)
theory FunnelLaws
  imports Funnel
begin

text \<open>
  What the receive funnel guarantees: a push is written whole or not at all, what an accepted ref has
  passed, the row and the agent-policy run every committed member has, and what the carry-forward
  lets through.
\<close>

section \<open>All or nothing\<close>

lemma process_all_refused:
  "process_all p now False vs y =
     (map (\<lambda>v. \<lparr>rs_ref = ru_ref (vd_update v), rs_accepted = vd_skip v, rs_lines = (if vd_skip v then [] else rejection_lines v),
        rs_change = []\<rparr>) vs, y)"
  by (induction vs) (auto simp: process_one_def)

text \<open>C5. A push with a ref that is not accepted writes nothing: the store, the repository and the live feed
  are as they were, and the only refs reported as accepted are those outside every governed shape.\<close>

theorem batch_all_or_nothing:
  assumes "u \<in> set updates" "\<not> vd_accepted (evaluate p now (sy_repo y) (sy_store y) u env)"
  shows "snd (process_batch p now updates env y) = y
     \<and> map rs_ref (fst (process_batch p now updates env y)) = map (\<lambda>u. ru_ref (vd_update (evaluate p now (sy_repo y) (sy_store y) u env))) updates
     \<and> map rs_accepted (fst (process_batch p now updates env y)) = map (\<lambda>u. vd_skip (evaluate p now (sy_repo y) (sy_store y) u env)) updates"
proof -
  have "list_all vd_accepted (map (\<lambda>u. evaluate p now (sy_repo y) (sy_store y) u env) updates) \<longleftrightarrow> False"
    using assms by (auto simp: list_all_iff)
  then show ?thesis by (simp add: process_batch_def Let_def process_all_refused o_def)
qed

section \<open>What an accepted ref has passed\<close>

lemma evaluate_snapshot_accepted:
  assumes "vd_accepted (evaluate_snapshot p now w s u i env)"
  obtains ws paths files where "get_workspace s i = Some ws" "ws_status ws \<noteq> ''closed''"
    "remote_user env = [] \<or> ws_owner ws = [] \<or> remote_user env = ws_owner ws"
    "push_diff p w (delta_base p w (ru_new u) (ru_old u)) (ru_new u) = Some (paths, files)" "pc_scanner p files = Some []"
    "fst (snapshot_findings p now w s ws (remote_user env) (delta_base p w (ru_new u) (ru_old u)) (ru_new u) paths files) = []"
    "snapshot_cap p > 0 \<longrightarrow> content_bytes files \<le> snapshot_cap p"
  using assms
  by (auto simp: evaluate_snapshot_def vd_accepted_def Let_def new_verdict_def refused_verdict_def failed_verdict_def rejected_def
      split: option.splits if_splits prod.splits)

lemma resolve_origin_cases:
  assumes "resolve_origin s u env author = Inr (i, branch, origin)" "i \<noteq> []"
  shows "\<exists>ws. origin = Some ws \<and> get_workspace s i = Some ws \<and> ws_status ws \<noteq> ''closed'' \<and> (author = [] \<or> ws_owner ws = [] \<or> author = ws_owner ws)"
proof -
  let ?i = "origin_option ''workspace='' (push_options env)"
  have i: "i = ?i" "?i \<noteq> []" using assms by (auto simp: resolve_origin_def Let_def split: if_splits option.splits)
  show ?thesis
  proof (cases "get_workspace s ?i")
    case (Some ws)
    then show ?thesis
      using assms(1) i(2) unfolding resolve_origin_def Let_def i(1) by (simp split: if_splits)
  qed (use assms i in \<open>simp add: resolve_origin_def Let_def\<close>)
qed

lemma enforce_caps_keeps:
  "vd_update (enforce_per_change_caps p now w s v) = vd_update v" "vd_skip (enforce_per_change_caps p now w s v) = vd_skip v"
  "vd_decision (enforce_per_change_caps p now w s v) = vd_decision v" "vd_workspace (enforce_per_change_caps p now w s v) = vd_workspace v"
  "vd_branch (enforce_per_change_caps p now w s v) = vd_branch v" "vd_changed (enforce_per_change_caps p now w s v) = vd_changed v"
  "vd_snapshot (enforce_per_change_caps p now w s v) = vd_snapshot v" "vd_author (enforce_per_change_caps p now w s v) = vd_author v"
  by (auto simp: enforce_per_change_caps_def split: option.splits)

lemma series_members_keeps:
  assumes "vd_update v = vd_update v'" "vd_decision v = vd_decision v'" "vd_changed v = vd_changed v'"
  shows "series_members p w s v = series_members p w s v'"
proof -
  have "with_paths p w v = with_paths p w v'" "tip_only v = tip_only v'" using assms by (auto simp: with_paths_def tip_only_def)
  then show ?thesis unfolding series_members_def Let_def using assms by (auto split: option.split)
qed

text \<open>What the checks on an accepted Change push let through.\<close>

lemma settle_accepted:
  assumes "vd_accepted (settle_change_push p now w s v)" "dc_accepted (vd_decision v)" "\<not> vd_skip v"
  shows "settle_change_push p now w s v = enforce_per_change_caps p now w s v
     \<and> \<not> (\<exists>c. get_change s (dc_change_id (vd_decision v)) = Some c \<and> ch_state c = state_landed)
     \<and> (vd_workspace v \<noteq> [] \<longrightarrow> ch_key ` set (branch_stack s v) \<subseteq> set (map sm_change (series_members p w s v)))"
proof -
  have open_id: "\<not> (case get_change s (dc_change_id (vd_decision v)) of None \<Rightarrow> False | Some c \<Rightarrow> ch_state c = state_landed)"
    using assms(1) by (auto simp: settle_change_push_def vd_accepted_def refused_verdict_def new_verdict_def rejected_def)
  have none: "(if vd_workspace v \<noteq> [] then enforce_one_stack_per_branch p w s v else None) = None"
  proof (rule ccontr)
    assume "\<not> ?thesis"
    then obtain r where r: "(if vd_workspace v \<noteq> [] then enforce_one_stack_per_branch p w s v else None) = Some r" by auto
    then have "\<not> vd_accepted r" using assms(3)
      by (auto simp: enforce_one_stack_per_branch_def Let_def vd_accepted_def rejected_def split: if_splits option.splits)
    then show False using assms(1) open_id r by (simp add: settle_change_push_def)
  qed
  have "vd_workspace v \<noteq> [] \<longrightarrow> ch_key ` set (branch_stack s v) \<subseteq> set (map sm_change (series_members p w s v))"
    using none by (auto simp: enforce_one_stack_per_branch_def Let_def find_None_iff split: option.splits)
  then show ?thesis using none open_id by (auto simp: settle_change_push_def)
qed

lemma as_agent_keeps:
  "pq_ref (as_agent q author origin r) = pq_ref r" "pq_trunk (as_agent q author origin r) = pq_trunk r"
  "pq_files (as_agent q author origin r) = pq_files r" "pq_changed (as_agent q author origin r) = pq_changed r"
  "pq_message (as_agent q author origin r) = pq_message r"
  by (auto simp: as_agent_def Let_def split: option.splits)

lemma push_request_fields:
  assumes "push_request_of p now w s u author origin msg paths files = Some r"
  shows "pq_ref r = ru_ref u" "pq_trunk r = pc_trunk p" "pq_files r = files" "pq_changed r = paths" "pq_message r = msg"
proof -
  let ?r0 = "plain_request p u msg paths files"
  have r0: "pq_ref ?r0 = ru_ref u" "pq_trunk ?r0 = pc_trunk p" "pq_files ?r0 = files" "pq_changed ?r0 = paths" "pq_message ?r0 = msg"
    by (simp_all add: plain_request_def)
  obtain r1 where r1: "r = r1 \<or> (\<exists>q. r = as_agent q author origin r1)" "r1 = ?r0 \<or> (\<exists>ps m. r1 = ?r0\<lparr>pq_projects := ps, pq_module := m\<rparr>)"
    using assms unfolding push_request_of_def Let_def by (cases "agent_of p now s author") (auto split: if_splits)
  show "pq_ref r = ru_ref u" "pq_trunk r = pc_trunk p" "pq_files r = files" "pq_changed r = paths" "pq_message r = msg"
    using r1 r0 by (auto simp: as_agent_keeps)
qed

text \<open>An accepted Change push from branch \<open>branch\<close> of workspace \<open>i\<close> (none when empty): its request, its
  verdict before the per-Change policy, and the series it carries.\<close>

definition passed_change_push ::
  "'w processor \<Rightarrow> go_time \<Rightarrow> 'w \<Rightarrow> mem_store \<Rightarrow> ref_update \<Rightarrow> string list \<Rightarrow> string \<Rightarrow> string \<Rightarrow> workspace option \<Rightarrow> push_request \<Rightarrow> bool" where
  "passed_change_push p now w s u env i branch origin r \<longleftrightarrow>
     (\<exists>paths files msg. inspect_push p w u = Some (paths, files, msg)
        \<and> push_request_of p now w s u (remote_user env) origin msg paths files = Some r)
   \<and> (pc_require_workspace p \<and> trunk_born p w \<longrightarrow> i \<noteq> [])
   \<and> clean_agent r \<and> pc_scanner p (pq_files r) = Some [] \<and> contract_findings (pc_imports p) r = []
   \<and> (\<forall>c. get_change s (dc_change_id (decide (pc_scanner p) (pc_imports p) r)) = Some c \<longrightarrow> ch_state c \<noteq> state_landed)
   \<and> (i \<noteq> [] \<longrightarrow> (\<forall>c \<in> set (list_changes s state_open). ch_origin_workspace c = i \<and> ch_origin_branch c = branch \<longrightarrow>
          ch_key c \<in> sm_change ` set (series_members p w s (decided_verdict p u env i branch r))))"

lemma evaluate_change_push_accepted:
  assumes "vd_accepted (evaluate_change_push p now w s u env i branch origin)"
  obtains r where "parse_magic_ref (ru_ref u) \<noteq> None" "passed_change_push p now w s u env i branch origin r"
    "evaluate_change_push p now w s u env i branch origin = enforce_per_change_caps p now w s (decided_verdict p u env i branch r)"
proof -
  let ?magic = "parse_magic_ref (ru_ref u) \<noteq> None"
  have origin: "\<not> (?magic \<and> pc_require_workspace p \<and> i = [] \<and> trunk_born p w)"
    using assms by (auto simp: evaluate_change_push_def vd_accepted_def refused_verdict_def new_verdict_def rejected_def)
  obtain paths files msg where seen: "inspect_push p w u = Some (paths, files, msg)"
    using assms origin
    by (cases "inspect_push p w u") (auto simp: evaluate_change_push_def vd_accepted_def failed_verdict_def)
  obtain r where r: "push_request_of p now w s u (remote_user env) origin msg paths files = Some r"
    using assms origin seen
    by (cases "push_request_of p now w s u (remote_user env) origin msg paths files")
      (auto simp: evaluate_change_push_def vd_accepted_def refused_verdict_def new_verdict_def rejected_def)
  let ?v = "decided_verdict p u env i branch r"
  have run: "evaluate_change_push p now w s u env i branch origin =
      (if dc_accepted (vd_decision ?v) \<and> ?magic then settle_change_push p now w s ?v else ?v)"
    unfolding evaluate_change_push_def Let_def if_not_P [OF origin] seen by (simp add: r)
  have fresh: "\<not> vd_skip ?v" "vd_workspace ?v = i" "vd_decision ?v = decide (pc_scanner p) (pc_imports p) r"
    by (simp_all add: decided_verdict_def new_verdict_def)
  have ok: "dc_accepted (vd_decision ?v)"
    using assms fresh(1) unfolding run by (auto simp: vd_accepted_def split: if_splits)
  then have passed: "?magic" "clean_agent r" "pc_scanner p (pq_files r) = Some []" "contract_findings (pc_imports p) r = []"
    using push_request_fields(1) [OF r] unfolding fresh(3) by (auto simp: decide_accepted_iff)
  have accepted: "vd_accepted (settle_change_push p now w s ?v)" using assms ok passed(1) unfolding run by simp
  have settled: "settle_change_push p now w s ?v = enforce_per_change_caps p now w s ?v"
      "\<And>c. get_change s (dc_change_id (decide (pc_scanner p) (pc_imports p) r)) = Some c \<Longrightarrow> ch_state c \<noteq> state_landed"
      "i \<noteq> [] \<longrightarrow> ch_key ` set (branch_stack s ?v) \<subseteq> set (map sm_change (series_members p w s ?v))"
    using settle_accepted [OF accepted ok fresh(1)] fresh(2,3) by auto
  have stack: "i \<noteq> [] \<longrightarrow> (\<forall>c \<in> set (list_changes s state_open). ch_origin_workspace c = i \<and> ch_origin_branch c = branch \<longrightarrow>
      ch_key c \<in> sm_change ` set (series_members p w s ?v))"
    using settled(3) by (auto simp: branch_stack_def decided_verdict_def)
  have "passed_change_push p now w s u env i branch origin r"
    unfolding passed_change_push_def using origin seen r passed settled(1,2) stack by blast
  then show thesis using that passed(1) ok settled(1) run by simp
qed

definition passed_snapshot :: "'w processor \<Rightarrow> go_time \<Rightarrow> 'w \<Rightarrow> mem_store \<Rightarrow> ref_update \<Rightarrow> string \<Rightarrow> string \<Rightarrow> bool" where
  "passed_snapshot p now w s u author i \<longleftrightarrow>
     (\<exists>ws paths files. get_workspace s i = Some ws \<and> ws_status ws \<noteq> ''closed''
        \<and> (author = [] \<or> ws_owner ws = [] \<or> author = ws_owner ws)
        \<and> push_diff p w (delta_base p w (ru_new u) (ru_old u)) (ru_new u) = Some (paths, files) \<and> pc_scanner p files = Some []
        \<and> fst (snapshot_findings p now w s ws author (delta_base p w (ru_new u) (ru_old u)) (ru_new u) paths files) = []
        \<and> (snapshot_cap p > 0 \<longrightarrow> content_bytes files \<le> snapshot_cap p))"

text \<open>The workspace and the branch a push names in its options; the branch is \<open>head\<close> when it names none.
  A workspace a push comes from is registered, open, and the pusher's own unless one of them is anonymous.\<close>

definition pushed_from :: "string list \<Rightarrow> string \<times> string" where
  "pushed_from env =
     (let i = origin_option ''workspace='' (push_options env); b = origin_option ''workspace-branch='' (push_options env)
      in (i, if i = [] then [] else if b = [] then ''head'' else b))"

definition passed_origin :: "mem_store \<Rightarrow> string \<Rightarrow> string \<Rightarrow> bool" where
  "passed_origin s author i \<longleftrightarrow> (\<exists>ws. get_workspace s i = Some ws \<and> ws_status ws \<noteq> ''closed''
     \<and> (author = [] \<or> ws_owner ws = [] \<or> author = ws_owner ws))"

lemma trunk_ref_shape: "snapshot_ref_workspace_id (pc_trunk_ref p) = None" "\<not> prefix ''refs/changes/'' (pc_trunk_ref p)"
    "\<not> prefix ''refs/tags/'' (pc_trunk_ref p)" "parse_magic_ref (pc_trunk_ref p) = None"
  by (simp_all add: snapshot_ref_workspace_id_def pc_trunk_ref_def go_cut_prefix_def parse_magic_ref_def magic_ref_prefix_def)

lemma magic_ref_shape:
  assumes "parse_magic_ref r \<noteq> None"
  shows "snapshot_ref_workspace_id r = None" "\<not> prefix ''refs/changes/'' r" "\<not> prefix ''refs/tags/'' r"
proof -
  have "prefix ''refs/for/'' r" using assms by (auto simp: parse_magic_ref_def magic_ref_prefix_def split: if_splits)
  then show "snapshot_ref_workspace_id r = None" "\<not> prefix ''refs/changes/'' r" "\<not> prefix ''refs/tags/'' r"
    by (auto simp: snapshot_ref_workspace_id_def go_cut_prefix_def prefix_def)
qed

lemma failed_not_accepted [simp]:
  "\<not> vd_accepted (failed_verdict u)" "\<not> vd_accepted (refused_verdict u r)"
  "\<not> vd_accepted ((refused_verdict u r)\<lparr>vd_snapshot := b\<rparr>)"
  by (simp_all add: vd_accepted_def failed_verdict_def refused_verdict_def new_verdict_def rejected_def)

lemma resolve_origin_refused: "resolve_origin s u env author = Inl v \<Longrightarrow> \<not> vd_accepted v"
  by (cases "get_workspace s (origin_option ''workspace='' (push_options env))")
    (auto simp: resolve_origin_def Let_def split: if_splits)

lemma resolve_origin_pushed:
  assumes "resolve_origin s u env author = Inr (i, branch, origin)"
  shows "pushed_from env = (i, branch)" "origin = (if i = [] then None else get_workspace s i)"
  using assms by (auto simp: resolve_origin_def pushed_from_def Let_def split: if_splits option.splits)

text \<open>C6. A ref the funnel accepts is never trunk or a server-owned ref. A tag has passed the org's tag policy;
  a workspace snapshot is of a registered open workspace of the pusher (or one of the two is anonymous),
  without a hard policy finding, within the size cap, and the secret scan found nothing in it. A Change
  push names in its options the workspace and the branch it comes from: the workspace is registered, open
  and the pusher's, and there is one where the org asks for one and trunk exists; the push has no hard
  policy finding, no secret and no contract violation, does not reopen a landed Change, and its series has
  every open Change that was pushed from this branch of this workspace.\<close>

theorem accepted_ref_passed:
  assumes "vd_accepted (evaluate p now w s u env)"
  shows "\<not> prefix ''refs/changes/'' (ru_ref u) \<and> ru_ref u \<noteq> pc_trunk_ref p
    \<and> (prefix ''refs/tags/'' (ru_ref u) \<longrightarrow> tag_policy_enforced p \<longrightarrow>
         authorize_tag_write p now s (remote_user env) (remote_lane env) (drop (length ''refs/tags/'') (ru_ref u)))
    \<and> (\<forall>i. snapshot_ref_workspace_id (ru_ref u) = Some i \<longrightarrow> passed_snapshot p now w s u (remote_user env) i)
    \<and> (parse_magic_ref (ru_ref u) \<noteq> None \<longrightarrow>
         (case pushed_from env of (i, branch) \<Rightarrow>
            (i \<noteq> [] \<longrightarrow> passed_origin s (remote_user env) i)
          \<and> (\<exists>r. passed_change_push p now w s u env i branch (if i = [] then None else get_workspace s i) r)))"
proof -
  note run = assms [unfolded evaluate_def]
  have "\<not> prefix ''refs/changes/'' (ru_ref u)"
  proof
    assume c: "prefix ''refs/changes/'' (ru_ref u)"
    then have "snapshot_ref_workspace_id (ru_ref u) = None"
      by (auto simp: snapshot_ref_workspace_id_def go_cut_prefix_def prefix_def)
    then show False using run c by simp
  qed
  moreover have "ru_ref u \<noteq> pc_trunk_ref p"
  proof
    assume t: "ru_ref u = pc_trunk_ref p"
    show False
    proof (cases "resolve_origin s u env (remote_user env)")
      case (Inl v)
      then show ?thesis using run t resolve_origin_refused [OF Inl] by (simp add: trunk_ref_shape)
    next
      case (Inr r)
      obtain i branch origin where r: "r = (i, branch, origin)" by (cases r)
      have "vd_accepted (evaluate_change_push p now w s u env i branch origin)"
        using run t Inr r by (simp add: trunk_ref_shape)
      then show ?thesis by (rule evaluate_change_push_accepted) (use t in \<open>simp add: trunk_ref_shape\<close>)
    qed
  qed
  moreover have "prefix ''refs/tags/'' (ru_ref u) \<longrightarrow> tag_policy_enforced p \<longrightarrow>
         authorize_tag_write p now s (remote_user env) (remote_lane env) (drop (length ''refs/tags/'') (ru_ref u))"
  proof (intro impI)
    assume t: "prefix ''refs/tags/'' (ru_ref u)" "tag_policy_enforced p"
    then have "snapshot_ref_workspace_id (ru_ref u) = None" "\<not> prefix ''refs/changes/'' (ru_ref u)"
      by (auto simp: snapshot_ref_workspace_id_def go_cut_prefix_def prefix_def)
    then show "authorize_tag_write p now s (remote_user env) (remote_lane env) (drop (length ''refs/tags/'') (ru_ref u))"
      using run t by (auto simp: evaluate_tag_def Let_def split: if_splits)
  qed
  moreover have "\<forall>i. snapshot_ref_workspace_id (ru_ref u) = Some i \<longrightarrow> passed_snapshot p now w s u (remote_user env) i"
  proof (intro allI impI)
    fix i assume i: "snapshot_ref_workspace_id (ru_ref u) = Some i"
    have "vd_accepted (evaluate_snapshot p now w s u i env)"
      using run i by (auto split: prod.splits if_splits)
    then show "passed_snapshot p now w s u (remote_user env) i"
      unfolding passed_snapshot_def by (rule evaluate_snapshot_accepted) blast
  qed
  moreover have "case pushed_from env of (i, branch) \<Rightarrow> (i \<noteq> [] \<longrightarrow> passed_origin s (remote_user env) i)
      \<and> (\<exists>r. passed_change_push p now w s u env i branch (if i = [] then None else get_workspace s i) r)" if m: "parse_magic_ref (ru_ref u) \<noteq> None"
  proof (cases "resolve_origin s u env (remote_user env)")
    case (Inl v)
    then show ?thesis using run m resolve_origin_refused [OF Inl] by (simp add: magic_ref_shape [OF m])
  next
    case (Inr r)
    obtain i branch origin where r: "r = (i, branch, origin)" by (cases r)
    have "vd_accepted (evaluate_change_push p now w s u env i branch origin)"
      using run m Inr r by (simp add: magic_ref_shape [OF m])
    then obtain q where "passed_change_push p now w s u env i branch origin q"
      by (rule evaluate_change_push_accepted)
    moreover have "i \<noteq> [] \<longrightarrow> passed_origin s (remote_user env) i"
      unfolding passed_origin_def using resolve_origin_cases [OF Inr [unfolded r]] by blast
    ultimately show ?thesis using resolve_origin_pushed [OF Inr [unfolded r]] by auto
  qed
  ultimately show ?thesis by blast
qed

section \<open>What a committed member leaves in the store\<close>

lemma find_in_vals:
  assumes "gm_all (\<lambda>k r. name_of r = k) m"
  shows "find (\<lambda>r. name_of r = k) (gm_vals m) = gm_get m k"
proof -
  have "list_all (\<lambda>(k, r). name_of r = k) m" using assms by (simp add: gm_all_def)
  then show ?thesis unfolding gm_vals_def gm_get_def by (induction m) auto
qed

lemma find_run_stored:
  assumes "store_ok s"
  shows "find_run (list_check_runs s key head) name = sub_get (ms_check_runs s) (check_run_key key head) name"
proof -
  have "gm_all (\<lambda>k r. cv_name r = k) (gm_sub (ms_check_runs s) (check_run_key key head))"
    using assms by (auto simp: store_ok_def intro: sub_all_sub)
  then show ?thesis by (simp add: find_run_def list_check_runs_def sub_get_def find_in_vals)
qed

lemma vals_names: "gm_all (\<lambda>k r. name_of r = k) m \<Longrightarrow> map name_of (gm_vals m) = map fst m"
  by (auto simp: gm_all_def gm_vals_def list_all_iff)

lemma list_ex_named:
  "distinct (map name_of xs) \<Longrightarrow>
   list_ex (\<lambda>r. name_of r = n \<and> P r) xs \<longleftrightarrow> (case find (\<lambda>r. name_of r = n) xs of None \<Rightarrow> False | Some r \<Rightarrow> P r)"
  by (induction xs) (auto simp: list_ex_iff image_iff)

lemma acknowledged_at_stored:
  assumes "store_ok s"
  shows "acknowledged_at s key head \<longleftrightarrow> green (list_check_runs s key head) agent_policy_check_name"
proof -
  have all: "gm_all (\<lambda>k r. cv_name r = k) (gm_sub (ms_check_runs s) (check_run_key key head))"
    using assms by (auto simp: store_ok_def intro: sub_all_sub)
  then have "distinct (map cv_name (list_check_runs s key head))"
    unfolding list_check_runs_def vals_names [OF all] by (simp add: gm_all_def gm_wf_def)
  then show ?thesis by (simp add: acknowledged_at_def green_def find_run_def list_ex_named)
qed

text \<open>The carry-forward and the announcement write no Change row and keep the invariant.\<close>

lemma carry_approvals_keeps:
  "store_ok s \<Longrightarrow> store_ok (carry_approvals old new s)"
  "ms_changes (carry_approvals old new s) = ms_changes s" "ms_check_runs (carry_approvals old new s) = ms_check_runs s"
proof -
  have "(store_ok s \<longrightarrow> store_ok (fold (carry_approval old new) as s))
      \<and> ms_changes (fold (carry_approval old new) as s) = ms_changes s
      \<and> ms_check_runs (fold (carry_approval old new) as s) = ms_check_runs s" for as
  proof (induction as arbitrary: s)
    case (Cons a as)
    have "store_ok s \<longrightarrow> store_ok (carry_approval old new a s)" by (simp add: carry_approval_def review_ops_ok(1))
    moreover have "ms_changes (carry_approval old new a s) = ms_changes s" "ms_check_runs (carry_approval old new a s) = ms_check_runs s"
      by (simp_all add: carry_approval_def record_approval_def split: option.splits)
    ultimately show ?case using Cons.IH [of "carry_approval old new a s"] by simp
  qed simp
  then show "store_ok s \<Longrightarrow> store_ok (carry_approvals old new s)"
    "ms_changes (carry_approvals old new s) = ms_changes s" "ms_check_runs (carry_approvals old new s) = ms_check_runs s"
    by (simp_all add: carry_approvals_def)
qed

lemma carry_forward_keeps:
  assumes "carry_forward_trivial_rebase p old new result indexed s = (b, s')"
  shows "store_ok s \<Longrightarrow> store_ok s'" "ms_changes s' = ms_changes s"
proof -
  let ?s1 = "carry_approvals old new s"
  have s': "s' = ?s1 \<or> s' = snd (copy_passing_check_runs (ch_key new) (ch_head old) (ch_head new) ?s1)"
    using assms by (auto simp: carry_forward_trivial_rebase_def Let_def split: if_splits prod.splits sum.splits)
  then show "store_ok s \<Longrightarrow> store_ok s'" using carry_approvals_keeps(1) copy_ok by blast
  show "ms_changes s' = ms_changes s"
    using s' by (auto simp: carry_approvals_keeps copy_passing_check_runs_def Let_def)
qed

lemma enqueue_change_updated_keeps:
  "store_ok s \<Longrightarrow> store_ok (enqueue_change_updated h now c result s)"
  "ms_changes (enqueue_change_updated h now c result s) = ms_changes s"
  "ms_check_runs (enqueue_change_updated h now c result s) = ms_check_runs s"
  unfolding enqueue_change_updated_def enqueue_envelope_def enqueue_payload_def
    apply (simp add: outbox_ops_ok(1) split: option.splits)
   apply (simp_all add: enqueue_webhook_def Let_def split: option.splits)
  done

lemma carry_over_keeps:
  assumes "carry_over p w old base c result indexed s = (full, s')"
  shows "store_ok s \<Longrightarrow> store_ok s'" "ms_changes s' = ms_changes s"
    "full \<Longrightarrow> \<exists>o'. old = Some o' \<and> trivial_rebase_of p w o' base (ch_head c)"
  using assms by (auto simp: carry_over_def dest: carry_forward_keeps split: option.splits if_splits)

lemma carry_or_announce_keeps:
  assumes "carry_or_announce p now w paths old base c s = (full, lines, s')"
  shows "store_ok s \<Longrightarrow> store_ok s'" "ms_changes s' = ms_changes s"
    "full \<Longrightarrow> \<exists>o'. old = Some o' \<and> trivial_rebase_of p w o' base (ch_head c)"
  using assms enqueue_change_updated_keeps
  by (auto simp: carry_or_announce_def Let_def dest: carry_over_keeps split: option.splits prod.splits if_splits)

lemma amend_change_fields:
  "ch_head (amend_change f c) = pf_head f" "ch_base (amend_change f c) = pf_base f" "ch_key (amend_change f c) = ch_key c"
  by (simp_all add: amend_change_def Let_def)

lemma owe_policy_run_keeps:
  assumes "owe_policy_run now found full c s = (lines, s')"
  shows "store_ok s \<Longrightarrow> store_ok s'" "ms_changes s' = ms_changes s"
proof -
  have "s' = s \<or> s' = snd (upsert_check_run now (ch_key c) (ch_head c) (policy_run now) s)"
    using assms by (auto simp: owe_policy_run_def split: if_splits)
  then show "store_ok s \<Longrightarrow> store_ok s'" "ms_changes s' = ms_changes s"
    using review_ops_ok(3) by (auto simp: upsert_check_run_def Let_def)
qed

text \<open>The run a member with findings has: failing, or a carried acknowledgement.\<close>

lemma owe_policy_run_exists:
  assumes "owe_policy_run now found full c s = (lines, s')" "found \<noteq> []"
  shows "(\<exists>r. sub_get (ms_check_runs s') (check_run_key (ch_key c) (ch_head c)) agent_policy_check_name = Some r
             \<and> cv_conclusion r = ''failure'') \<or> full \<and> acknowledged_at s' (ch_key c) (ch_head c)"
  using assms by (auto simp: owe_policy_run_def upsert_check_run_def policy_run_def Let_def split: if_splits)

lemma commit_member_effect:
  assumes "commit_member p now v m y = (Inr (c, lines), y')" "store_ok (sy_store y)"
  obtains base s1 where "base = compute_base_sha p (sy_repo y') (sy_store y) ((vd_update v)\<lparr>ru_new := sm_sha m\<rparr>) (sm_change m)"
    "ch_key c = sm_change m" "ch_head c = sm_sha m" "ch_base c = base" "store_ok (sy_store y')"
    "ms_changes (sy_store y') = gm_put (ms_changes (sy_store y)) (sm_change m) c"
    "gm_get (vd_ackable v) (sm_change m) = Some found \<and> found \<noteq> [] \<longrightarrow>
      (\<exists>r. sub_get (ms_check_runs (sy_store y')) (check_run_key (sm_change m) (sm_sha m)) agent_policy_check_name = Some r
             \<and> cv_conclusion r = ''failure'')
      \<or> (\<exists>old. get_change (sy_store y) (sm_change m) = Some old \<and> trivial_rebase_of p (sy_repo y') old base (sm_sha m))
        \<and> acknowledged_at (sy_store y') (sm_change m) (sm_sha m)"
proof -
  obtain w where w: "pc_update_ref p (change_ref (sm_change m)) (sm_sha m) (sy_repo y) = (True, w)" "sy_repo y' = w"
    using assms(1) by (auto simp: commit_member_def Let_def create_or_update_change_def split: prod.splits bool.splits)
  let ?base = "compute_base_sha p w (sy_store y) ((vd_update v)\<lparr>ru_new := sm_sha m\<rparr>) (sm_change m)"
  let ?f = "\<lparr>pf_base = ?base, pf_head = sm_sha m, pf_git_ref = change_ref (sm_change m), pf_title = sm_title m,
      pf_author = vd_author v, pf_workspace = vd_workspace v, pf_branch = vd_branch v\<rparr>"
  let ?old = "get_change (sy_store y) (sm_change m)"
  define row where "row = (case ?old of Some existing \<Rightarrow> amend_change ?f existing | None \<Rightarrow> new_change (sm_change m) ?f)"
  define s0 where "s0 = put_change row (sm_change m) (sy_store y)"
  obtain full carried s1 where s1: "carry_or_announce p now w (sm_changed m) ?old ?base row s0 = (full, carried, s1)"
    by (cases "carry_or_announce p now w (sm_changed m) ?old ?base row s0")
  let ?found = "case gm_get (vd_ackable v) (sm_change m) of None \<Rightarrow> [] | Some vs \<Rightarrow> vs"
  obtain noted s2 where s2: "owe_policy_run now ?found full row s1 = (noted, s2)" by fastforce
  have run: "c = row" "sy_store y' = s2"
    using assms(1) w(1) s1 s2
    by (simp_all add: commit_member_def create_or_update_change_def Let_def row_def [symmetric] s0_def [symmetric])
      (auto simp: Let_def split_beta)
  have row: "change_ok (sm_change m) row" "ch_head row = sm_sha m" "ch_base row = ?base"
    using change_ok_get [of "sy_store y" "sm_change m"] assms(2)
    by (auto simp: row_def store_ok_def amend_change_fields intro: amend_change_ok new_change_ok split: option.splits)
      (auto simp: new_change_def)
  have key: "ch_key row = sm_change m" using row(1) by (simp add: change_ok_def)
  have ok: "store_ok s0" "store_ok s1" "store_ok s2"
    using put_change_ok [OF assms(2) row(1)] carry_or_announce_keeps(1) [OF s1] owe_policy_run_keeps(1) [OF s2] s0_def by auto
  have changes: "ms_changes s2 = gm_put (ms_changes (sy_store y)) (sm_change m) row"
    using carry_or_announce_keeps(2) [OF s1] owe_policy_run_keeps(2) [OF s2] by (simp add: s0_def put_change_def)
  have "?found \<noteq> [] \<Longrightarrow> (\<exists>r. sub_get (ms_check_runs s2) (check_run_key (sm_change m) (sm_sha m)) agent_policy_check_name = Some r
             \<and> cv_conclusion r = ''failure'')
      \<or> (\<exists>old. ?old = Some old \<and> trivial_rebase_of p w old ?base (sm_sha m)) \<and> acknowledged_at s2 (sm_change m) (sm_sha m)"
    using owe_policy_run_exists [OF s2] carry_or_announce_keeps(3) [OF s1] unfolding key row(2) by blast
  then show thesis
    using that [of ?base] key row(2,3) ok(3) changes run w(2) by (auto split: option.splits)
qed

lemma merge_check_names_set: "set (merge_check_names names extra) = set names \<union> {n \<in> set extra. n \<noteq> []}"
proof -
  have "set (fold (\<lambda>n out. if n \<noteq> [] \<and> n \<notin> set out then out @ [n] else out) extra names) = set names \<union> {n \<in> set extra. n \<noteq> []}"
    by (induction extra arbitrary: names) auto
  then show ?thesis by (simp add: merge_check_names_def)
qed

lemma policy_run_required:
  assumes "store_ok s" "sub_get (ms_check_runs s) (check_run_key key head) agent_policy_check_name = Some r"
  shows "agent_policy_check_name \<in> set (gate_checks g lane False result indexed (list_check_runs s key head))"
proof -
  have "find_run (list_check_runs s key head) agent_policy_check_name = Some r"
    using assms by (simp add: find_run_stored)
  then have "list_ex (\<lambda>r. cv_name r = agent_policy_check_name) (list_check_runs s key head)"
    by (auto simp: find_run_def list_ex_iff find_Some_iff)
  moreover have "agent_policy_check_name \<noteq> []" by (simp add: agent_policy_check_name_def)
  ultimately show ?thesis by (auto simp: gate_checks_def Let_def merge_check_names_set split: option.splits)
qed

text \<open>C7. Committing a member of a push moves its row to the pushed commit, creates no other row and changes none;
  and right after it a Change for which the push recorded an agent's policy finding is mergeable only in a zone that
  waives it, or when the new head is a trivial rebase whose acknowledgement by a human was carried with it. (What
  comes later is not of this theorem: a server-side sync moves the head without the finding, as
  \<open>sync_sheds_findings\<close> in \<open>Sync\<close> shows.)\<close>

theorem push_findings_block:
  assumes "commit_member p now v m y = (Inr (c, lines), y')" "store_ok (sy_store y)"
  shows "ms_changes (sy_store y') = gm_put (ms_changes (sy_store y)) (sm_change m) c \<and> ch_key c = sm_change m \<and> ch_head c = sm_sha m
    \<and> store_ok (sy_store y')
    \<and> (\<forall>found result indexed now'. gm_get (vd_ackable v) (sm_change m) = Some found \<and> found \<noteq> []
         \<and> gate_open (pc_gate p) (sy_repo y') (sy_store y') now' (sm_change m) c None result indexed \<longrightarrow>
           gate_auto (pc_gate p) (sy_repo y') None result
         \<or> acknowledged_at (sy_store y') (sm_change m) (sm_sha m)
           \<and> (\<exists>old. get_change (sy_store y) (sm_change m) = Some old \<and> trivial_rebase_of p (sy_repo y') old (ch_base c) (sm_sha m)))"
proof -
  let ?run = "\<lambda>r. sub_get (ms_check_runs (sy_store y')) (check_run_key (sm_change m) (sm_sha m)) agent_policy_check_name = Some r"
  let ?ack = "acknowledged_at (sy_store y') (sm_change m) (sm_sha m)
     \<and> (\<exists>old. get_change (sy_store y) (sm_change m) = Some old \<and> trivial_rebase_of p (sy_repo y') old (ch_base c) (sm_sha m))"
  have row: "ms_changes (sy_store y') = gm_put (ms_changes (sy_store y)) (sm_change m) c" "ch_key c = sm_change m" "ch_head c = sm_sha m"
      "store_ok (sy_store y')"
    by (rule commit_member_effect [OF assms], simp)+
  have found: "(\<exists>r. ?run r \<and> cv_conclusion r = ''failure'') \<or> ?ack"
    if "gm_get (vd_ackable v) (sm_change m) = Some found" "found \<noteq> []" for found
    by (rule commit_member_effect [OF assms, of found]) (use that in auto)
  have blocked: "gate_auto (pc_gate p) (sy_repo y') None result"
    if "gate_open (pc_gate p) (sy_repo y') (sy_store y') now' (sm_change m) c None result indexed" "?run r" "cv_conclusion r = ''failure''"
    for result indexed now' r
  proof (rule ccontr)
    assume "\<not> ?thesis"
    then have "green (list_check_runs (sy_store y') (sm_change m) (sm_sha m)) agent_policy_check_name"
      using that(1) policy_run_required [OF row(4) that(2), of "pc_gate p" None result indexed] row(3)
      by (simp add: gate_open_def Let_def list_all_iff)
    then show False using that(2,3) row(4) by (simp add: green_def find_run_stored conclusion_success_def)
  qed
  show ?thesis using row found blocked by blast
qed

section \<open>A push\<close>

text \<open>An agent pushes two commits onto trunk at \<open>c1\<close>: \<open>c2\<close> has no Change-Id and adds a file of the
  \<open>security\<close> tree, \<open>c3\<close> on top of it is the Change and touches \<open>app/a\<close>.\<close>

definition demo_change_id :: string where
  "demo_change_id = ''I0123456789012345678901234567890123456789''"

definition demo_lines :: "string list \<Rightarrow> string" where
  "demo_lines ls = concat (map (\<lambda>l. l @ [newline]) ls)"

definition demo_answers :: "(string list \<times> string) list" where
  "demo_answers =
     [([''merge-base'', ''c3'', ''refs/heads/main''], demo_lines [''c1'']),
      ([''rev-parse'', ''--verify'', ''--quiet'', ''refs/heads/main''], demo_lines [''c1'']),
      ([''rev-parse'', ''--verify'', ''-q'', ''c3^''], demo_lines [''c2'']),
      ([''diff'', ''--name-status'', ''c1'', ''c3''], demo_lines [''M app/a'', ''A security/x'']),
      ([''diff'', ''--name-status'', ''c3^'', ''c3''], demo_lines [''M app/a'']),
      ([''log'', ''-1'', ''--format=%B'', ''c3''], demo_lines [''t'', [], ''Change-Id: '' @ demo_change_id]),
      ([''log'', ''-1'', ''--format=%B'', ''c2''], demo_lines [''wip'']),
      ([''rev-list'', ''--first-parent'', ''--max-count=100'', ''c3'', ''^refs/heads/main''], demo_lines [''c3'', ''c2''])]"

definition demo_processor :: "repo processor" where
  "demo_processor = \<lparr>pc_gate = demo_gate, pc_hooks = demo_hooks, pc_exec = (\<lambda>w args. map_of demo_answers args),
     pc_update_ref = (\<lambda>r x w. (True, w)), pc_blob = (\<lambda>w a b. Some []), pc_manifest_owners = (\<lambda>_. None),
     pc_scanner = (\<lambda>_. Some []), pc_imports = (\<lambda>_. None), pc_lanes = [], pc_directory = None, pc_org = [],
     pc_require_workspace = True, pc_snapshot_cap = 0\<rparr>"

definition demo_workspace :: workspace where
  "demo_workspace = \<lparr>ws_id = ''w1'', ws_owner = ''bot'', ws_base = ''c1'', ws_affinity = [], ws_allowlist = [''app'', ''security''],
     ws_snapshot_ref = [], ws_status = ''active'', ws_created = 0\<rparr>"

definition demo_push_store :: mem_store where
  "demo_push_store = new_mem_store\<lparr>ms_workspaces := gm_put gm_empty ''w1'' demo_workspace\<rparr>"

definition demo_update :: ref_update where
  "demo_update = \<lparr>ru_old = zero_oid, ru_new = ''c3'', ru_ref = ''refs/for/main''\<rparr>"

definition demo_env :: "string list" where
  "demo_env = [''REMOTE_USER=bot'', ''GIT_PUSH_OPTION_0=workspace=w1'']"

text \<open>The push is accepted with no finding, although the whole delta touches a path of the agent's
  denylist: the content policy measures the commit of each member alone, and a commit without a
  Change-Id is nobody's.\<close>

lemma folded_commit_unmeasured:
  "let v = evaluate demo_processor 0 demo_repo demo_push_store demo_update demo_env in
     vd_accepted v \<and> vd_ackable v = [] \<and> vd_changed v = [''app/a'', ''security/x'']
   \<and> match_any (ap_denylist default_agent_policy) ''security/x'' \<noteq> None \<and> agent_of demo_processor 0 demo_push_store ''bot'' \<noteq> None"
  by code_simp

definition demo_server_owned :: ref_update where
  "demo_server_owned = \<lparr>ru_old = zero_oid, ru_new = ''c3'', ru_ref = ''refs/changes/I1/head''\<rparr>"

definition demo_push_sys :: "repo sys" where
  "demo_push_sys = \<lparr>sy_store = demo_push_store, sy_repo = demo_repo, sy_bus = None, sy_kick = False\<rparr>"

theorem batch_all_or_nothing_witness:
  "snd (process_batch demo_processor 0 [demo_update, demo_server_owned] demo_env demo_push_sys) = demo_push_sys"
proof -
  have "\<not> vd_accepted (evaluate demo_processor 0 (sy_repo demo_push_sys) (sy_store demo_push_sys) demo_server_owned demo_env)"
    by code_simp
  then show ?thesis
    using batch_all_or_nothing [of demo_server_owned "[demo_update, demo_server_owned]" demo_processor 0 demo_push_sys demo_env] by simp
qed

theorem accepted_ref_passed_witness:
  "\<exists>r. passed_change_push demo_processor 0 demo_repo demo_push_store demo_update demo_env ''w1'' ''head'' (Some demo_workspace) r"
proof -
  have accepted: "vd_accepted (evaluate demo_processor 0 demo_repo demo_push_store demo_update demo_env)"
    using folded_commit_unmeasured by (simp add: Let_def)
  have "parse_magic_ref (ru_ref demo_update) \<noteq> None" by code_simp
  moreover have "pushed_from demo_env = (''w1'', ''head'')" by code_simp
  moreover have "get_workspace demo_push_store ''w1'' = Some demo_workspace" by code_simp
  ultimately show ?thesis using accepted_ref_passed [OF accepted] by simp
qed

definition demo_member :: series_member where
  "demo_member = \<lparr>sm_sha = ''c3'', sm_change = demo_change_id, sm_title = ''t'', sm_changed = [''app/a'']\<rparr>"

definition demo_finding_verdict :: verdict where
  "demo_finding_verdict = (new_verdict demo_update)\<lparr>vd_author := ''bot'',
     vd_ackable := gm_put gm_empty demo_change_id [ackable_violation DenylistPath ''security/x'']\<rparr>"

theorem push_findings_block_witness:
  "\<exists>c lines y'. commit_member demo_processor 0 demo_finding_verdict demo_member demo_push_sys = (Inr (c, lines), y')
     \<and> (\<forall>result indexed now'. \<not> gate_open demo_gate (sy_repo y') (sy_store y') now' demo_change_id c None result indexed)"
proof -
  obtain c lines y' where run: "commit_member demo_processor 0 demo_finding_verdict demo_member demo_push_sys = (Inr (c, lines), y')"
    by (simp add: commit_member_def demo_processor_def create_or_update_change_def Let_def split_beta)
  have ok: "store_ok (sy_store demo_push_sys)"
    using store_ok_new by (simp add: demo_push_sys_def demo_push_store_def store_ok_def orgs_ok_def demo_workspace_def gm_all_put)
  have "gm_get (vd_ackable demo_finding_verdict) (sm_change demo_member) = Some [ackable_violation DenylistPath ''security/x'']"
    by (simp add: demo_finding_verdict_def demo_member_def)
  moreover have "get_change (sy_store demo_push_sys) (sm_change demo_member) = None"
    by (simp add: demo_push_sys_def demo_push_store_def new_mem_store_def get_change_def)
  moreover have "\<not> gate_auto demo_gate w None result" for w result
    by (simp add: gate_auto_def gate_zones_def auto_approve_zones_def auto_approve_disabled_def demo_gate_def demo_settings_def
        auto_approved_all_def auto_approved_def list_all_iff)
  moreover have "pc_gate demo_processor = demo_gate" "sm_change demo_member = demo_change_id" by (simp_all add: demo_processor_def demo_member_def)
  ultimately show ?thesis using push_findings_block [OF run ok] run by (metis list.discI option.distinct(1))
qed

end
