(* ===== verification/Sync.thy ===== *)
theory Sync
  imports FunnelLaws
begin

text \<open>
  Stacks and their server-side sync (\<open>runkod/rpc.go\<close>, \<open>stackForChange\<close>; \<open>runkod/sync.go\<close>): the tree of open
  Changes around a Change, and the rebase of that tree onto trunk's tip. All members are rebased
  first, which only creates objects; refs and rows move when the whole stack came out clean.
\<close>

section \<open>The stack of a Change\<close>

definition alive_changes :: "change list \<Rightarrow> change \<Rightarrow> change list" where
  "alive_changes cs c = filter (\<lambda>x. ch_state x = state_open \<or> ch_key x = ch_key c) cs"

text \<open>The Changes based on the head of the one with this key, by key.\<close>

definition child_of :: "change list \<Rightarrow> string \<Rightarrow> change \<Rightarrow> bool" where
  "child_of cs key x \<longleftrightarrow>
     (case gm_get (by_head cs) (ch_base x) of None \<Rightarrow> False | Some p \<Rightarrow> ch_key p \<noteq> ch_key x \<and> ch_key p = key)"

definition children_of :: "change list \<Rightarrow> string \<Rightarrow> change list" where
  "children_of cs key = sort_key ch_key (filter (child_of cs key) cs)"

text \<open>The pre-order walk, on a list of what is still to visit.\<close>

function down_walk :: "change list \<Rightarrow> string list \<Rightarrow> change list \<Rightarrow> change list" where
  "down_walk cs seen [] = []"
| "down_walk cs seen (c # todo) =
     (if ch_key c \<in> set seen then down_walk cs seen todo
      else c # down_walk cs (ch_key c # seen) (children_of cs (ch_key c) @ todo))"
  by pat_completeness auto

termination
proof (relation "inv_image (less_than <*lex*> less_than)
    (\<lambda>(cs, seen, todo). (card (ch_key ` (set cs \<union> set todo) - set seen), length todo))", goal_cases)
  case (2 cs seen c todo)
  have "card (ch_key ` (set cs \<union> set todo) - set seen) \<le> card (ch_key ` (set cs \<union> set (c # todo)) - set seen)"
    by (intro card_mono) auto
  then show ?case by auto
next
  case (3 cs seen c todo)
  have "set (children_of cs (ch_key c)) \<subseteq> set cs" by (auto simp: children_of_def)
  then have "ch_key ` (set cs \<union> set (children_of cs (ch_key c) @ todo)) - set (ch_key c # seen)
      \<subset> ch_key ` (set cs \<union> set (c # todo)) - set seen"
    using 3 by auto
  then show ?case by (auto simp: psubset_card_mono)
qed (auto intro: wf_inv_image wf_lex_prod)

definition stack_root :: "change list \<Rightarrow> change \<Rightarrow> change" where
  "stack_root alive c = hd (ancestors (by_head alive) [ch_key c] [c])"

definition index_of :: "string \<Rightarrow> change list \<Rightarrow> nat" where
  "index_of key chain = (let n = length (takeWhile (\<lambda>c. ch_key c \<noteq> key) chain) in if n = length chain then 0 else n)"

definition stack_for_change :: "change list \<Rightarrow> change \<Rightarrow> change list \<times> nat" where
  "stack_for_change cs c =
     (let alive = alive_changes cs c; chain = down_walk alive [] [stack_root alive c]
      in (chain, index_of (ch_key c) chain))"

section \<open>Planning a sync\<close>

datatype sync_stop = SyncUnsupported | SyncBroken | SyncRaced | SyncConflict string "string list"

text \<open>What reading a commit's author and message answers: name, email, message.\<close>

type_synonym 'w head_info = "'w \<Rightarrow> string \<Rightarrow> (string \<times> string \<times> string) option"

definition rebased_commit ::
  "'w server \<Rightarrow> 'w head_info \<Rightarrow> change \<Rightarrow> string \<Rightarrow> string \<Rightarrow> 'w \<Rightarrow> string option \<times> 'w" where
  "rebased_commit sv info m tree new_base w =
     (let known = info w (ch_head m);
          author = (case known of None \<Rightarrow> \<lparr>id_name = [], id_email = []\<rparr> | Some (n, e, _) \<Rightarrow> \<lparr>id_name = n, id_email = e\<rparr>)
      in commit_tree (gt_git (sv_gate sv)) tree new_base
           (landed_message (map_option (\<lambda>(_, _, msg). msg) known) (ch_title m) (ch_key m))
           author (land_identity (gt_server (sv_gate sv))) w)"

text \<open>Where each member goes: its new base and head, unchanged when it is there already.\<close>

fun plan_sync ::
  "'w server \<Rightarrow> 'w head_info \<Rightarrow> string \<Rightarrow> (string, string) gomap \<Rightarrow> change list \<Rightarrow> 'w \<Rightarrow>
   (sync_stop + (change \<times> string \<times> string) list) \<times> 'w" where
  "plan_sync sv info tip heads [] w = (Inr [], w)"
| "plan_sync sv info tip heads (m # ms) w =
     (let new_base = (case gm_get heads (ch_base m) of None \<Rightarrow> tip | Some h \<Rightarrow> h);
          extend = (\<lambda>new_head w1. case plan_sync sv info tip (gm_put heads (ch_head m) new_head) ms w1 of
                      (Inl e, w2) \<Rightarrow> (Inl e, w2)
                    | (Inr moves, w2) \<Rightarrow> (Inr ((m, new_base, new_head) # moves), w2))
      in if ch_state m \<noteq> state_open then plan_sync sv info tip heads ms w
         else if ch_base m = [] then (Inl SyncUnsupported, w)
         else if ch_base m = new_base then extend (ch_head m) w
         else case rebase (gt_git (sv_gate sv)) (ch_base m) new_base (ch_head m) w of
                RebaseError \<Rightarrow> (Inl SyncBroken, w)
              | Conflicted paths \<Rightarrow> (Inl (SyncConflict (ch_key m) paths), w)
              | Clean tree \<Rightarrow>
                  (case rebased_commit sv info m tree new_base w of
                     (None, w1) \<Rightarrow> (Inl SyncBroken, w1)
                   | (Some new_head, w1) \<Rightarrow> extend new_head w1))"

section \<open>Writing it\<close>

definition member_fields :: "change \<Rightarrow> string \<Rightarrow> string \<Rightarrow> push_fields" where
  "member_fields m new_base new_head =
     \<lparr>pf_base = new_base, pf_head = new_head, pf_git_ref = change_ref (ch_key m), pf_title = ch_title m,
      pf_author = ch_authored_by m, pf_workspace = [], pf_branch = []\<rparr>"

text \<open>One member: the stable ref by compare-and-swap against the head the plan started from, the row,
  the carried results or the webhook. \<open>ou\<close> is what others do before it.\<close>

definition write_member ::
  "'w server \<Rightarrow> 'w processor option \<Rightarrow> go_time \<Rightarrow> 'w outside \<Rightarrow> change \<times> string \<times> string \<Rightarrow> 'w sys \<Rightarrow> (sync_stop + unit) \<times> 'w sys" where
  "write_member sv proc now ou = (\<lambda>(m, new_base, new_head) y.
     (let (ok, w) = g_update_ref (gt_git (sv_gate sv)) (change_ref (ch_key m)) new_head (ch_head m) (ou_git ou 0 (sy_repo y));
          s0 = ou_store ou (sy_store y)
      in if \<not> ok then (Inl SyncRaced, y\<lparr>sy_repo := w, sy_store := s0\<rparr>)
         else case create_or_update_change (ch_key m) (member_fields m new_base new_head) s0 of
                (Inl _, s1) \<Rightarrow> (Inl SyncBroken, y\<lparr>sy_repo := w, sy_store := s1\<rparr>)
              | (Inr c, s1) \<Rightarrow>
                  (case proc of
                     None \<Rightarrow> (Inr (), y\<lparr>sy_repo := w, sy_store := s1\<rparr>)
                   | Some p \<Rightarrow>
                       (let paths = (case git_diff_names_only (gt_git (sv_gate sv)) new_base new_head w of None \<Rightarrow> [] | Some ps \<Rightarrow> ps);
                            (_, _, s2) = carry_or_announce p now w paths (Some m) new_base c s1
                        in (Inr (), y\<lparr>sy_repo := w, sy_store := s2\<rparr>)))))"

fun write_members ::
  "'w server \<Rightarrow> 'w processor option \<Rightarrow> go_time \<Rightarrow> (nat \<Rightarrow> 'w outside) \<Rightarrow> nat \<Rightarrow> (change \<times> string \<times> string) list \<Rightarrow> 'w sys \<Rightarrow>
   (sync_stop + unit) \<times> 'w sys" where
  "write_members sv proc now ou i [] y = (Inr (), y)"
| "write_members sv proc now ou i (mv # mvs) y =
     (case write_member sv proc now (ou i) mv y of
        (Inl e, y') \<Rightarrow> (Inl e, y')
      | (Inr _, y') \<Rightarrow> write_members sv proc now ou (i + 1) mvs y')"

datatype sync_decision =
  Synced "change list" | AlreadyInSync "change list" | StackConflict string "string list"

definition sync_stopped :: "sync_stop \<Rightarrow> 'w sys \<Rightarrow> ('w, sync_decision) reply" where
  "sync_stopped e y =
     (case e of
        SyncUnsupported \<Rightarrow> refuse 409 ''sync_unsupported'' y
      | SyncBroken \<Rightarrow> broken y
      | SyncRaced \<Rightarrow> refuse 409 ''sync_race'' y
      | SyncConflict key paths \<Rightarrow> (Inr (StackConflict key paths), y))"

definition sync_change_core ::
  "'w server \<Rightarrow> 'w processor option \<Rightarrow> 'w head_info \<Rightarrow> go_time \<Rightarrow> (nat \<Rightarrow> 'w outside) \<Rightarrow> change \<Rightarrow> 'w sys \<Rightarrow>
   ('w, sync_decision) reply" where
  "sync_change_core sv proc info now ou c y =
     (case require_open_change c of
        Some e \<Rightarrow> (Inl e, y)
      | None \<Rightarrow>
          (case trunk_tip (sv_gate sv) (sy_repo y) of
             None \<Rightarrow> (Inr (AlreadyInSync [c]), y)
           | Some tip \<Rightarrow>
               (let chain = fst (stack_for_change (list_changes (sy_store y) state_open) c) in
                case plan_sync sv info tip gm_empty chain (sy_repo y) of
                  (Inl e, w) \<Rightarrow> sync_stopped e (y\<lparr>sy_repo := w\<rparr>)
                | (Inr moves, w) \<Rightarrow>
                    (let writes = filter (\<lambda>(m, new_base, _). ch_base m \<noteq> new_base) moves in
                     if writes = [] then (Inr (AlreadyInSync chain), y\<lparr>sy_repo := w\<rparr>)
                     else case write_members sv proc now ou 0 writes (y\<lparr>sy_repo := w\<rparr>) of
                            (Inl e, y') \<Rightarrow> sync_stopped e y'
                          | (Inr _, y') \<Rightarrow>
                              (Inr (Synced (List.map_filter (\<lambda>m. get_change (sy_store y') (ch_key m)) chain)), kick_automerge sv y')))))"

section \<open>The stack is the tree around its Change\<close>

lemma last_kept:
  "(if F = [] then (if P then Some a else g) else Some (last F)) =
     (if (if P then a # F else F) = [] then g else Some (last (if P then a # F else F)))"
  by (cases P; cases F) auto

lemma by_head_put:
  "gm_get (fold (\<lambda>c m. if ch_head c \<noteq> [] then gm_put m (ch_head c) c else m) cs m) h
     = (let same = filter (\<lambda>c. ch_head c = h \<and> h \<noteq> []) cs in if same = [] then gm_get m h else Some (last same))"
proof (induction cs arbitrary: m)
  case (Cons a cs)
  let ?m = "if ch_head a \<noteq> [] then gm_put m (ch_head a) a else m"
  have put: "gm_get ?m h = (if ch_head a = h \<and> h \<noteq> [] then Some a else gm_get m h)"
    by (cases "ch_head a = []") (simp_all only: gm_get_put if_True if_False simp_thms split: if_split, (simp | blast)+)
  show ?case
    unfolding fold_Cons o_apply Cons.IH [of ?m] Let_def put filter.simps by (rule last_kept)
qed (simp only: fold_Nil filter.simps Let_def simp_thms if_True id_apply)

lemma by_head_some:
  assumes "p \<in> set cs" "ch_head p \<noteq> []" "inj_on ch_head (set cs)"
  shows "gm_get (by_head cs) (ch_head p) = Some p"
proof -
  let ?same = "filter (\<lambda>c. ch_head c = ch_head p \<and> ch_head p \<noteq> []) cs"
  have same: "?same \<noteq> []" using assms(1,2) unfolding filter_empty_conv by blast
  have "last ?same \<in> set ?same" using last_in_set [OF same] .
  then have "last ?same \<in> set cs \<and> ch_head (last ?same) = ch_head p" unfolding set_filter mem_Collect_eq by blast
  then have "last ?same = p" using inj_onD [OF assms(3)] assms(1) by blast
  then show ?thesis unfolding by_head_def by_head_put Let_def using same by (simp only: if_False)
qed

lemma ancestors_parents:
  assumes "chain \<noteq> []" "successively (\<lambda>p q. gm_get heads (ch_base q) = Some p) chain"
  shows "successively (\<lambda>p q. gm_get heads (ch_base q) = Some p) (ancestors heads seen chain)"
  using assms
proof (induction heads seen chain rule: ancestors.induct)
  case (1 heads seen chain)
  then obtain c cs where chain: "chain = c # cs" by (cases chain) auto
  show ?case
  proof (cases "next_parent heads seen c")
    case None
    then show ?thesis using 1 chain by (simp add: ancestors.simps)
  next
    case (Some p)
    then have "gm_get heads (ch_base c) = Some p"
      by (auto simp: next_parent_def split: option.splits if_splits)
    then have "successively (\<lambda>p q. gm_get heads (ch_base q) = Some p) (ancestors heads (ch_key p # seen) (p # chain))"
      using 1(1) [OF chain Some] 1(3) chain by simp
    moreover have "ancestors heads seen chain = ancestors heads (ch_key p # seen) (p # chain)"
      using Some chain by (subst ancestors.simps) simp
    ultimately show ?thesis by simp
  qed
qed

lemma down_walk_distinct:
  "distinct (map ch_key (down_walk cs seen todo)) \<and> ch_key ` set (down_walk cs seen todo) \<inter> set seen = {}"
  by (induction cs seen todo rule: down_walk.induct) auto

lemma down_walk_within:
  "set (down_walk cs seen todo) \<subseteq> set cs \<union> set todo"
  by (induction cs seen todo rule: down_walk.induct) (auto simp: children_of_def)

lemma down_walk_complete:
  "(\<forall>x\<in>set todo. ch_key x \<in> set seen \<union> ch_key ` set (down_walk cs seen todo))
     \<and> (\<forall>x\<in>set (down_walk cs seen todo). \<forall>y\<in>set (children_of cs (ch_key x)).
          ch_key y \<in> set seen \<union> ch_key ` set (down_walk cs seen todo))"
  by (induction cs seen todo rule: down_walk.induct) auto

lemma down_walk_parents:
  assumes "down_walk cs seen todo = xs @ y # ys"
  shows "y \<in> set todo \<or> (\<exists>x\<in>set xs. y \<in> set (children_of cs (ch_key x)))"
  using assms
proof (induction cs seen todo arbitrary: xs rule: down_walk.induct)
  case (2 cs seen c todo)
  then show ?case by (cases "ch_key c \<in> set seen"; cases xs) (auto dest!: "2.IH")
qed auto

declare down_walk.simps [simp del]

lemma ancestors_of:
  fixes alive c
  defines "up \<equiv> ancestors (by_head alive) [ch_key c] [c]"
  assumes "c \<in> set alive"
  shows "up \<noteq> []" "last up = c" "distinct (map ch_key up)" "set up \<subseteq> set alive"
    "successively (\<lambda>p q. gm_get (by_head alive) (ch_base q) = Some p) up"
proof -
  have "distinct (map ch_key up) \<and> suffix [c] up \<and> successively (\<lambda>p q. ch_base q = ch_head p) up"
    unfolding up_def by (rule ancestors_chain) (auto dest: by_head_get)
  then show ne: "up \<noteq> []" "last up = c" and "distinct (map ch_key up)" by (auto simp: suffix_def)
  show parents: "successively (\<lambda>p q. gm_get (by_head alive) (ch_base q) = Some p) up"
    unfolding up_def by (rule ancestors_parents) auto
  show "set up \<subseteq> set alive"
  proof
    fix x assume "x \<in> set up"
    then obtain i where i: "i < length up" "x = up ! i" by (metis in_set_conv_nth)
    show "x \<in> set alive"
    proof (cases "Suc i < length up")
      case True
      then have "gm_get (by_head alive) (ch_base (up ! Suc i)) = Some x"
        using parents i by (auto simp: successively_conv_nth)
      then show ?thesis by (simp add: by_head_get)
    next
      case False
      then have "i = length up - 1" using i by linarith
      then have "x = c" using i ne by (simp add: last_conv_nth)
      then show ?thesis using assms by simp
    qed
  qed
qed

lemma child_listed:
  assumes "y \<in> set cs" "gm_get (by_head cs) (ch_base y) = Some p" "ch_key p \<noteq> ch_key y"
  shows "y \<in> set (children_of cs (ch_key p))"
  using assms by (simp add: children_of_def child_of_def)

lemma walk_reaches:
  assumes "distinct (map ch_key alive)" "set todo \<subseteq> set alive"
  shows "set todo \<subseteq> set (down_walk alive [] todo)"
    and "x \<in> set (down_walk alive [] todo) \<Longrightarrow> y \<in> set (children_of alive (ch_key x)) \<Longrightarrow> y \<in> set (down_walk alive [] todo)"
proof -
  have within: "set (down_walk alive [] todo) \<subseteq> set alive"
    using down_walk_within [of alive "[]" todo] assms(2) by auto
  have inj: "inj_on ch_key (set alive)" using assms(1) by (simp add: distinct_map)
  have keyed: "z \<in> set (down_walk alive [] todo)" if "z \<in> set alive" "ch_key z \<in> ch_key ` set (down_walk alive [] todo)" for z
    using that within inj by (auto dest: inj_onD)
  show "set todo \<subseteq> set (down_walk alive [] todo)"
    using down_walk_complete [of todo "[]" alive] assms(2) by (auto intro: keyed)
  assume "x \<in> set (down_walk alive [] todo)" "y \<in> set (children_of alive (ch_key x))"
  moreover have "y \<in> set alive" using calculation(2) by (simp add: children_of_def)
  ultimately show "y \<in> set (down_walk alive [] todo)"
    using down_walk_complete [of todo "[]" alive] by (auto intro: keyed)
qed

text \<open>The walk up ends at a Change without a parent, or whose parent was walked already.\<close>

lemma ancestors_end:
  assumes "chain \<noteq> []" "set seen = ch_key ` set chain"
    and "gm_get heads (ch_base (hd (ancestors heads seen chain))) = Some p"
  shows "ch_key p \<in> ch_key ` set (ancestors heads seen chain)"
  using assms
proof (induction heads seen chain rule: ancestors.induct)
  case (1 heads seen chain)
  then obtain c cs where chain: "chain = c # cs" by (cases chain) auto
  show ?case
  proof (cases "next_parent heads seen c")
    case None
    then have up: "ancestors heads seen chain = chain" using chain by (simp add: ancestors.simps)
    then show ?thesis using None 1(3,4) chain by (auto simp: next_parent_def split: if_splits)
  next
    case (Some q)
    have up: "ancestors heads seen chain = ancestors heads (ch_key q # seen) (q # chain)"
      using Some chain by (subst ancestors.simps) simp
    show ?thesis unfolding up using 1(1) [OF chain Some] 1(3,4) chain unfolding up by simp
  qed
qed

lemma ancestors_in_stack:
  assumes "distinct (map ch_key alive)" "c \<in> set alive"
  shows "set (ancestors (by_head alive) [ch_key c] [c]) \<subseteq> set (down_walk alive [] [stack_root alive c])"
proof -
  let ?up = "ancestors (by_head alive) [ch_key c] [c]" and ?down = "down_walk alive [] [stack_root alive c]"
  note up = ancestors_of [OF assms(2)]
  have root: "?up ! 0 = stack_root alive c" "stack_root alive c \<in> set alive"
    using up(1,4) by (auto simp: stack_root_def hd_conv_nth)
  note reach = walk_reaches [OF assms(1), of "[stack_root alive c]"]
  have "i < length ?up \<Longrightarrow> ?up ! i \<in> set ?down" for i
  proof (induction i)
    case 0
    then show ?case using reach(1) root by simp
  next
    case (Suc i)
    then have "gm_get (by_head alive) (ch_base (?up ! Suc i)) = Some (?up ! i)"
      using up(5) by (auto simp: successively_conv_nth)
    moreover have "ch_key (?up ! i) \<noteq> ch_key (?up ! Suc i)"
      using up(3) Suc(2) by (auto simp: distinct_conv_nth)
    ultimately have "?up ! Suc i \<in> set (children_of alive (ch_key (?up ! i)))"
      using up(4) Suc(2) by (intro child_listed) (auto dest: nth_mem)
    then show ?case using reach(2) Suc root by simp
  qed
  then show ?thesis by (auto simp: in_set_conv_nth)
qed

lemma requested_in_stack:
  assumes "distinct (map ch_key alive)" "c \<in> set alive"
  shows "c \<in> set (down_walk alive [] [stack_root alive c])"
  using ancestors_in_stack [OF assms] ancestors_of(1,2) [OF assms(2)] last_in_set by fastforce

text \<open>The parent of the walk's first member, if it has one, is a member.\<close>

lemma root_parent_in_stack:
  assumes "distinct (map ch_key alive)" "c \<in> set alive" "gm_get (by_head alive) (ch_base (stack_root alive c)) = Some p"
  shows "p \<in> set (down_walk alive [] [stack_root alive c])"
proof -
  let ?up = "ancestors (by_head alive) [ch_key c] [c]"
  have "ch_key p \<in> ch_key ` set ?up"
    by (rule ancestors_end) (use assms(3) in \<open>simp_all add: stack_root_def\<close>)
  then obtain q where q: "q \<in> set ?up" "ch_key q = ch_key p" by auto
  have "p \<in> set alive" using by_head_get [OF assms(3)] by blast
  then have "p = q" using q ancestors_of(4) [OF assms(2)] assms(1) by (auto simp: distinct_map dest: inj_onD)
  then show ?thesis using q(1) ancestors_in_stack [OF assms(1,2)] by blast
qed

lemma index_of_nth:
  assumes "c \<in> set chain" "distinct (map ch_key chain)"
  shows "index_of (ch_key c) chain < length chain \<and> chain ! index_of (ch_key c) chain = c"
proof -
  let ?n = "length (takeWhile (\<lambda>x. ch_key x \<noteq> ch_key c) chain)"
  have "takeWhile (\<lambda>x. ch_key x \<noteq> ch_key c) chain \<noteq> chain" using assms(1) by (auto simp: takeWhile_eq_all_conv)
  then have n: "?n < length chain"
    by (metis length_takeWhile_le le_neq_implies_less takeWhile_eq_take take_all order_refl)
  then have "ch_key (chain ! ?n) = ch_key c" using nth_length_takeWhile by blast
  then have "chain ! ?n = c"
    using assms n by (metis distinct_map inj_onD nth_mem)
  then show ?thesis using n by (simp add: index_of_def Let_def)
qed

lemma stack_for_change_facts:
  fixes cs c
  defines "alive \<equiv> alive_changes cs c"
  assumes keys: "distinct (map ch_key cs)" and mem: "c \<in> set cs" and run: "stack_for_change cs c = (chain, i)"
  shows "set alive = {x \<in> set cs. ch_state x = state_open \<or> x = c}" "distinct (map ch_key alive)"
    "chain = down_walk alive [] [stack_root alive c]" "stack_root alive c \<in> set alive" "i < length chain" "chain ! i = c"
proof -
  have inj: "inj_on ch_key (set cs)" using keys by (simp add: distinct_map)
  show set: "set alive = {x \<in> set cs. ch_state x = state_open \<or> x = c}"
    using mem inj by (auto simp: alive_def alive_changes_def dest: inj_onD)
  show dist: "distinct (map ch_key alive)"
    using keys by (simp add: alive_def alive_changes_def distinct_map_filter)
  show chain: "chain = down_walk alive [] [stack_root alive c]"
    using run by (simp add: stack_for_change_def alive_def Let_def)
  have c: "c \<in> set alive" using set mem by simp
  show "stack_root alive c \<in> set alive"
    using ancestors_of(1,4) [OF c] by (auto simp: stack_root_def)
  have "i = index_of (ch_key c) chain" using run by (auto simp: stack_for_change_def Let_def)
  moreover have "distinct (map ch_key chain)" unfolding chain using down_walk_distinct by blast
  ultimately show "i < length chain" "chain ! i = c"
    using index_of_nth [of c chain] requested_in_stack [OF dist c] chain by auto
qed

text \<open>C19. The stack of a Change is the whole tree of pending work around it, and lists it in an order one can rebase
  in. Over rows with distinct keys, when no two of the pending ones share a head: the requested Change stands at the
  reported position; the members are distinct, each an open Change or the requested one; every member after the
  first has its parent, the member whose head is its base, at an earlier place; the pending Change on whose head a
  member, the first one included, is based is a member; and so is a pending Change based on the head of a member.\<close>
theorem stack_is_tree:
  assumes "distinct (map ch_key cs)" "c \<in> set cs"
    "inj_on ch_head {x \<in> set cs. ch_state x = state_open \<or> x = c}" "stack_for_change cs c = (chain, i)"
  shows "i < length chain \<and> chain ! i = c \<and> distinct (map ch_key chain)
     \<and> (\<forall>x\<in>set chain. x \<in> set cs \<and> (ch_state x = state_open \<or> x = c))
     \<and> (\<forall>k. 0 < k \<and> k < length chain \<longrightarrow> (\<exists>j<k. ch_head (chain ! j) = ch_base (chain ! k)))
     \<and> (\<forall>x\<in>set chain. \<forall>p\<in>set cs. ch_head p \<noteq> [] \<and> ch_base x = ch_head p \<and> (ch_state p = state_open \<or> p = c)
          \<longrightarrow> p \<in> set chain)
     \<and> (\<forall>p\<in>set chain. \<forall>x\<in>set cs. ch_head p \<noteq> [] \<and> ch_base x = ch_head p \<and> (ch_state x = state_open \<or> x = c)
          \<longrightarrow> x \<in> set chain)"
proof -
  let ?alive = "alive_changes cs c"
  note f = stack_for_change_facts [OF assms(1,2,4)]
  have within: "set chain \<subseteq> set ?alive" unfolding f(3) using down_walk_within [of ?alive "[]" "[stack_root ?alive c]"] f(4) by auto
  have parents: "\<exists>j<k. ch_head (chain ! j) = ch_base (chain ! k)" if k: "0 < k" "k < length chain" for k
  proof -
    have split: "chain = take k chain @ chain ! k # drop (Suc k) chain" using k by (simp add: id_take_nth_drop)
    have "chain ! k \<noteq> stack_root ?alive c"
    proof -
      have "chain ! 0 = stack_root ?alive c"
        unfolding f(3) by (simp add: down_walk.simps)
      moreover have "distinct chain" using down_walk_distinct [of ?alive "[]" "[stack_root ?alive c]"] unfolding f(3) [symmetric] by (simp add: distinct_map)
      ultimately show ?thesis using k by (metis distinct_conv_nth less_trans neq_iff)
    qed
    then obtain x where "x \<in> set (take k chain)" "chain ! k \<in> set (children_of ?alive (ch_key x))"
      using down_walk_parents [OF split [unfolded f(3)]] unfolding f(3) by auto
    moreover from this obtain j where "j < k" "x = chain ! j" using k by (auto simp: in_set_conv_nth)
    moreover have "x \<in> set ?alive" using calculation(1) within by (auto dest: in_set_takeD)
    ultimately have "\<exists>p\<in>set ?alive. ch_head p = ch_base (chain ! k) \<and> ch_key p = ch_key x"
      by (auto simp: children_of_def child_of_def dest: by_head_get split: option.splits)
    then have "ch_head x = ch_base (chain ! k)"
      using f(2) \<open>x \<in> set ?alive\<close> by (auto simp: distinct_map dest: inj_onD)
    then show ?thesis using \<open>j < k\<close> \<open>x = chain ! j\<close> by blast
  qed
  have up: "p \<in> set chain"
    if "x \<in> set chain" "p \<in> set cs" "ch_head p \<noteq> []" "ch_base x = ch_head p" "ch_state p = state_open \<or> p = c" for p x
  proof -
    note member = that(1) and based = that(4)
    obtain k where k: "k < length chain" "x = chain ! k" using member unfolding in_set_conv_nth by blast
    have alive: "p \<in> set ?alive" using that f(1) by auto
    show ?thesis
    proof (cases "k = 0")
      case True
      have "x = stack_root ?alive c" using k True unfolding f(3) by (simp add: down_walk.simps)
      moreover have "gm_get (by_head ?alive) (ch_base x) = Some p"
        using alive that(3,4) assms(3) f(1) by (simp add: by_head_some)
      moreover have "c \<in> set ?alive" using f(1) assms(2) by simp
      ultimately show ?thesis using root_parent_in_stack [OF f(2), of c p] unfolding f(3) by simp
    next
      case False
      then obtain j where j: "j < k" "ch_head (chain ! j) = ch_head p" using parents [of k] k based by auto
      have "chain ! j \<in> set chain" using j(1) k(1) by simp
      then have "chain ! j = p" using within alive j(2) assms(3) unfolding f(1) by (auto dest: inj_onD)
      then show ?thesis using \<open>chain ! j \<in> set chain\<close> by simp
    qed
  qed
  have down: "x \<in> set chain"
    if "p \<in> set chain" "x \<in> set cs" "ch_head p \<noteq> []" "ch_base x = ch_head p" "ch_state x = state_open \<or> x = c" for p x
  proof (cases "x = p")
    case False
    have alive: "x \<in> set ?alive" "p \<in> set ?alive" using that f(1) within by auto
    then have "gm_get (by_head ?alive) (ch_base x) = Some p"
      using that(3,4) assms(3) f(1) by (simp add: by_head_some)
    moreover have "ch_key p \<noteq> ch_key x" using False alive f(2) by (auto simp: distinct_map dest: inj_onD)
    ultimately have "x \<in> set (children_of ?alive (ch_key p))" using alive child_listed by blast
    then show ?thesis using walk_reaches(2) [OF f(2), of "[stack_root ?alive c]"] f(3,4) that(1) by simp
  qed (use that in simp)
  have "distinct (map ch_key chain)" using down_walk_distinct [of ?alive "[]" "[stack_root ?alive c]"] unfolding f(3) by blast
  moreover have "\<forall>x\<in>set chain. x \<in> set cs \<and> (ch_state x = state_open \<or> x = c)" using within unfolding f(1) by blast
  ultimately show ?thesis
    using f(5,6) parents up down by (intro conjI) (assumption | blast)+
qed

section \<open>A sync moves the whole stack or nothing\<close>

text \<open>Where a plan puts its members: on the new head of the member at their base, else on the tip.\<close>

fun placed :: "string \<Rightarrow> (string, string) gomap \<Rightarrow> (change \<times> string \<times> string) list \<Rightarrow> bool" where
  "placed tip heads [] \<longleftrightarrow> True"
| "placed tip heads ((m, b, h) # mvs) \<longleftrightarrow>
     b = (case gm_get heads (ch_base m) of None \<Rightarrow> tip | Some h' \<Rightarrow> h')
   \<and> (if b = ch_base m then h = ch_head m else valid_oid h) \<and> placed tip (gm_put heads (ch_head m) h) mvs"

lemma rebased_commit_effect:
  assumes "git_laws (gt_git (sv_gate sv))" "rebased_commit sv info m tree b w = (res, w')"
  shows "g_resolve (gt_git (sv_gate sv)) w' r = g_resolve (gt_git (sv_gate sv)) w r" "res = Some h \<Longrightarrow> valid_oid h"
  using assms git_laws_commit [OF assms(1)]
  by (auto simp: rebased_commit_def commit_tree_def Let_def) (metis fst_conv snd_conv)+

lemma plan_sync_refs:
  assumes "git_laws (gt_git (sv_gate sv))" "plan_sync sv info tip heads ms w = (res, w')"
  shows "g_resolve (gt_git (sv_gate sv)) w' r = g_resolve (gt_git (sv_gate sv)) w r"
  using assms(2)
proof (induction ms arbitrary: heads w res w')
  case (Cons m ms)
  then show ?case
    by (auto simp: Let_def rebased_commit_effect(1) [OF assms(1)] split: if_splits prod.splits sum.splits option.splits rebase_result.splits)
qed simp

lemma plan_sync_placed:
  assumes "git_laws (gt_git (sv_gate sv))" "plan_sync sv info tip heads ms w = (Inr moves, w')" "\<forall>m\<in>set ms. ch_state m = state_open"
  shows "map fst moves = ms \<and> placed tip heads moves"
  using assms(2,3)
proof (induction ms arbitrary: heads w moves w')
  case (Cons m ms)
  then show ?case
    by (auto simp: Let_def dest!: rebased_commit_effect(2) [OF assms(1)] Cons.IH
      split: if_splits prod.splits sum.splits option.splits rebase_result.splits)
qed simp

lemma placed_nth:
  assumes "placed tip heads mvs" "k < length mvs" "mvs ! k = (m, b, h)"
  shows "(\<exists>j<k. ch_head (fst (mvs ! j)) = ch_base m \<and> b = snd (snd (mvs ! j)))
     \<or> (\<forall>j<k. ch_head (fst (mvs ! j)) \<noteq> ch_base m) \<and> b = (case gm_get heads (ch_base m) of None \<Rightarrow> tip | Some h' \<Rightarrow> h')"
  using assms
proof (induction tip heads mvs arbitrary: k rule: placed.induct)
  case (2 tip heads m0 b0 h0 mvs)
  show ?case
  proof (cases k)
    case 0
    then show ?thesis using 2 by auto
  next
    case (Suc k')
    let ?heads = "gm_put heads (ch_head m0) h0"
    have "(\<exists>j<k'. ch_head (fst (mvs ! j)) = ch_base m \<and> b = snd (snd (mvs ! j)))
        \<or> (\<forall>j<k'. ch_head (fst (mvs ! j)) \<noteq> ch_base m) \<and> b = (case gm_get ?heads (ch_base m) of None \<Rightarrow> tip | Some h' \<Rightarrow> h')"
      using 2 Suc by simp
    then show ?thesis unfolding Suc by (auto simp: less_Suc_eq_0_disj split: if_splits)
  qed
qed simp

lemma placed_member: "placed tip heads mvs \<Longrightarrow> (m, b, h) \<in> set mvs \<Longrightarrow> if b = ch_base m then h = ch_head m else valid_oid h"
  by (induction tip heads mvs rule: placed.induct) auto

lemma change_ref_eq [simp]: "change_ref a = change_ref b \<longleftrightarrow> a = b"
  by (simp add: change_ref_def)

lemma write_member_effect:
  assumes "git_laws (gt_git (sv_gate sv))" "valid_oid h" "get_change (sy_store y) (ch_key m) = Some m"
    "g_resolve (gt_git (sv_gate sv)) (sy_repo y) (change_ref (ch_key m)) = Some (ch_head m)"
  obtains y' where "write_member sv proc now nobody (m, b, h) y = (Inr (), y')"
    "\<And>r. g_resolve (gt_git (sv_gate sv)) (sy_repo y') r
       = (if r = change_ref (ch_key m) then Some h else g_resolve (gt_git (sv_gate sv)) (sy_repo y) r)"
    "\<And>k. get_change (sy_store y') k = (if k = ch_key m then Some (amend_change (member_fields m b h) m) else get_change (sy_store y) k)"
proof -
  let ?g = "gt_git (sv_gate sv)" and ?row = "amend_change (member_fields m b h) m"
  have "valid_oid (ch_head m)" using git_laws_resolve [OF assms(1,4)] .
  then have ok: "fst (g_update_ref ?g (change_ref (ch_key m)) h (ch_head m) (sy_repo y))"
    using git_laws_update(1) [OF assms(1,2)] assms(4) by (simp add: valid_oid_def)
  obtain w where w: "g_update_ref ?g (change_ref (ch_key m)) h (ch_head m) (sy_repo y) = (True, w)"
    using ok by (metis eq_fst_iff)
  then have refs: "\<And>r. g_resolve ?g w r = (if r = change_ref (ch_key m) then Some h else g_resolve ?g (sy_repo y) r)"
    using git_laws_update(2) [OF assms(1,2)] by (metis fst_conv snd_conv)
  let ?s1 = "put_change ?row (ch_key m) (sy_store y)"
  let ?paths = "case git_diff_names_only ?g b h w of None \<Rightarrow> [] | Some ps \<Rightarrow> ps"
  let ?s2 = "case proc of None \<Rightarrow> ?s1 | Some p \<Rightarrow> snd (snd (carry_or_announce p now w ?paths (Some m) b ?row ?s1))"
  have "ms_changes (snd (snd (carry_or_announce p now w paths old base c s))) = ms_changes s" for p paths old base c s
    using carry_or_announce_keeps(2) [of p now w paths old base c s] by (metis prod.collapse)
  then have rows: "ms_changes ?s2 = ms_changes ?s1" by (simp split: option.split)
  have "write_member sv proc now nobody (m, b, h) y = (Inr (), y\<lparr>sy_repo := w, sy_store := ?s2\<rparr>)"
    using w assms(3) by (auto simp: write_member_def nobody_def id_def create_or_update_change_def Let_def split: option.split prod.split)
  then show thesis
    using that [of "y\<lparr>sy_repo := w, sy_store := ?s2\<rparr>"] refs rows by (simp add: get_change_def put_change_def)
qed

lemma write_members_effect:
  assumes "git_laws (gt_git (sv_gate sv))" "distinct (map (ch_key \<circ> fst) mvs)"
    "\<forall>(m, b, h)\<in>set mvs. valid_oid h \<and> get_change (sy_store y) (ch_key m) = Some m
       \<and> g_resolve (gt_git (sv_gate sv)) (sy_repo y) (change_ref (ch_key m)) = Some (ch_head m)"
  obtains y' where "write_members sv proc now (\<lambda>_. nobody) i mvs y = (Inr (), y')"
    "\<And>m b h. (m, b, h) \<in> set mvs \<Longrightarrow> get_change (sy_store y') (ch_key m) = Some (amend_change (member_fields m b h) m)
        \<and> g_resolve (gt_git (sv_gate sv)) (sy_repo y') (change_ref (ch_key m)) = Some h"
    "\<And>k. k \<notin> ch_key ` fst ` set mvs \<Longrightarrow> get_change (sy_store y') k = get_change (sy_store y) k"
    "\<And>r. r \<notin> (\<lambda>mv. change_ref (ch_key (fst mv))) ` set mvs \<Longrightarrow>
        g_resolve (gt_git (sv_gate sv)) (sy_repo y') r = g_resolve (gt_git (sv_gate sv)) (sy_repo y) r"
  using assms(2,3)
proof (induction mvs arbitrary: i y thesis)
  case Nil
  show ?case by (rule Nil(1) [of y]) simp_all
next
  case (Cons mv mvs)
  obtain m b h where mv: "mv = (m, b, h)" by (cases mv)
  have fresh: "ch_key (fst x) \<noteq> ch_key m" if "x \<in> set mvs" for x using Cons.prems(2) that mv by force
  obtain y1 where y1: "write_member sv proc now nobody (m, b, h) y = (Inr (), y1)"
    "\<And>r. g_resolve (gt_git (sv_gate sv)) (sy_repo y1) r
       = (if r = change_ref (ch_key m) then Some h else g_resolve (gt_git (sv_gate sv)) (sy_repo y) r)"
    "\<And>k. get_change (sy_store y1) k = (if k = ch_key m then Some (amend_change (member_fields m b h) m) else get_change (sy_store y) k)"
    using write_member_effect [OF assms(1), of h y m proc now b] Cons.prems(3) mv by auto
  have "\<forall>(m, b, h)\<in>set mvs. valid_oid h \<and> get_change (sy_store y1) (ch_key m) = Some m
       \<and> g_resolve (gt_git (sv_gate sv)) (sy_repo y1) (change_ref (ch_key m)) = Some (ch_head m)"
    using Cons.prems(3) fresh y1(2,3) by fastforce
  moreover have "distinct (map (ch_key \<circ> fst) mvs)" using Cons.prems(2) by (simp add: o_def)
  ultimately obtain y' where y': "write_members sv proc now (\<lambda>_. nobody) (i + 1) mvs y1 = (Inr (), y')"
    "\<And>m b h. (m, b, h) \<in> set mvs \<Longrightarrow> get_change (sy_store y') (ch_key m) = Some (amend_change (member_fields m b h) m)
        \<and> g_resolve (gt_git (sv_gate sv)) (sy_repo y') (change_ref (ch_key m)) = Some h"
    "\<And>k. k \<notin> ch_key ` fst ` set mvs \<Longrightarrow> get_change (sy_store y') k = get_change (sy_store y1) k"
    "\<And>r. r \<notin> (\<lambda>mv. change_ref (ch_key (fst mv))) ` set mvs \<Longrightarrow>
        g_resolve (gt_git (sv_gate sv)) (sy_repo y') r = g_resolve (gt_git (sv_gate sv)) (sy_repo y1) r"
    using Cons.IH [of "i + 1" y1] by blast
  have here: "ch_key m \<notin> ch_key ` fst ` set mvs" "change_ref (ch_key m) \<notin> (\<lambda>mv. change_ref (ch_key (fst mv))) ` set mvs"
    using fresh by (auto simp: image_iff) (metis fst_conv fresh)+
  show ?case
  proof (rule Cons.prems(1) [of y'])
    show "write_members sv proc now (\<lambda>_. nobody) i (mv # mvs) y = (Inr (), y')" using y1(1) y'(1) mv by simp
    fix m' b' h' assume "(m', b', h') \<in> set (mv # mvs)"
    then show "get_change (sy_store y') (ch_key m') = Some (amend_change (member_fields m' b' h') m')
        \<and> g_resolve (gt_git (sv_gate sv)) (sy_repo y') (change_ref (ch_key m')) = Some h'"
      using y'(2-4) here y1(2,3) mv by auto
  next
    fix k assume "k \<notin> ch_key ` fst ` set (mv # mvs)"
    then show "get_change (sy_store y') k = get_change (sy_store y) k" using y'(3) y1(3) mv by simp
  next
    fix r assume "r \<notin> (\<lambda>mv. change_ref (ch_key (fst mv))) ` set (mv # mvs)"
    then show "g_resolve (gt_git (sv_gate sv)) (sy_repo y') r = g_resolve (gt_git (sv_gate sv)) (sy_repo y) r"
      using y'(4) y1(2) mv by simp
  qed
qed

definition moved_row :: "change \<times> string \<times> string \<Rightarrow> change" where
  "moved_row = (\<lambda>(m, b, h). if ch_base m = b then m else amend_change (member_fields m b h) m)"

text \<open>Writing the members a plan moves leaves every member of the plan where the plan has it.\<close>

lemma sync_writes_effect:
  assumes laws: "git_laws (gt_git (sv_gate sv))" and plan: "placed tip heads moves"
    and keys: "distinct (map (ch_key \<circ> fst) moves)"
    and rows: "\<And>m b h. (m, b, h) \<in> set moves \<Longrightarrow> get_change (sy_store y) (ch_key m) = Some m
       \<and> g_resolve (gt_git (sv_gate sv)) (sy_repo y) (change_ref (ch_key m)) = Some (ch_head m)"
  obtains y' where "write_members sv proc now (\<lambda>_. nobody) i (filter (\<lambda>(m, b, _). ch_base m \<noteq> b) moves) y = (Inr (), y')"
    "\<And>m b h. (m, b, h) \<in> set moves \<Longrightarrow> get_change (sy_store y') (ch_key m) = Some (moved_row (m, b, h))
        \<and> g_resolve (gt_git (sv_gate sv)) (sy_repo y') (change_ref (ch_key m)) = Some h"
    "\<And>k. k \<notin> set (map (ch_key \<circ> fst) moves) \<Longrightarrow> get_change (sy_store y') k = get_change (sy_store y) k"
    "\<And>r. r \<notin> set (map (change_ref \<circ> ch_key \<circ> fst) moves) \<Longrightarrow>
        g_resolve (gt_git (sv_gate sv)) (sy_repo y') r = g_resolve (gt_git (sv_gate sv)) (sy_repo y) r"
proof -
  let ?w = "filter (\<lambda>(m, b, _). ch_base m \<noteq> b) moves" and ?g = "gt_git (sv_gate sv)"
  have "distinct (map (ch_key \<circ> fst) ?w)" using keys by (simp add: distinct_map_filter)
  moreover have "\<forall>(m, b, h)\<in>set ?w. valid_oid h \<and> get_change (sy_store y) (ch_key m) = Some m
      \<and> g_resolve ?g (sy_repo y) (change_ref (ch_key m)) = Some (ch_head m)"
    using rows placed_member [OF plan] by fastforce
  ultimately obtain y' where y': "write_members sv proc now (\<lambda>_. nobody) i ?w y = (Inr (), y')"
    "\<And>m b h. (m, b, h) \<in> set ?w \<Longrightarrow> get_change (sy_store y') (ch_key m) = Some (amend_change (member_fields m b h) m)
        \<and> g_resolve ?g (sy_repo y') (change_ref (ch_key m)) = Some h"
    "\<And>k. k \<notin> ch_key ` fst ` set ?w \<Longrightarrow> get_change (sy_store y') k = get_change (sy_store y) k"
    "\<And>r. r \<notin> (\<lambda>mv. change_ref (ch_key (fst mv))) ` set ?w \<Longrightarrow> g_resolve ?g (sy_repo y') r = g_resolve ?g (sy_repo y) r"
    by (rule write_members_effect [OF laws]) blast
  have there: "get_change (sy_store y') (ch_key m) = Some (moved_row (m, b, h))
      \<and> g_resolve ?g (sy_repo y') (change_ref (ch_key m)) = Some h" if mv: "(m, b, h) \<in> set moves" for m b h
  proof (cases "ch_base m = b")
    case True
    have "mv = (m, b, h)" if "mv \<in> set moves" "ch_key (fst mv) = ch_key m" for mv
      using keys mv that inj_onD [of "ch_key \<circ> fst" "set moves" mv "(m, b, h)"] by (simp add: distinct_map)
    then have kept: "ch_key m \<notin> ch_key ` fst ` set ?w" "change_ref (ch_key m) \<notin> (\<lambda>mv. change_ref (ch_key (fst mv))) ` set ?w"
      using True by fastforce+
    show ?thesis
      using y'(3) [OF kept(1)] y'(4) [OF kept(2)] rows [OF mv] placed_member [OF plan mv] True by (simp add: moved_row_def)
  next
    case False
    then show ?thesis using y'(2) [of m b h] mv by (simp add: moved_row_def)
  qed
  have others: "k \<notin> ch_key ` fst ` set ?w" if "k \<notin> set (map (ch_key \<circ> fst) moves)" for k using that by force
  have unmoved: "r \<notin> (\<lambda>mv. change_ref (ch_key (fst mv))) ` set ?w" if "r \<notin> set (map (change_ref \<circ> ch_key \<circ> fst) moves)" for r
    using that by force
  show thesis
    by (rule that [OF y'(1)]) (rule there, assumption, rule y'(3), rule others, assumption, rule y'(4), rule unmoved, assumption)
qed

lemma moved_row_fields:
  assumes "placed tip heads moves" "(m, b, h) \<in> set moves"
  shows "ch_key (moved_row (m, b, h)) = ch_key m" "ch_base (moved_row (m, b, h)) = b" "ch_head (moved_row (m, b, h)) = h"
  using placed_member [OF assms] by (auto simp: moved_row_def amend_change_fields member_fields_def split: if_splits)

text \<open>The Changes of the stack of \<open>c\<close> and their places after a sync.\<close>

definition restacked :: "string \<Rightarrow> change list \<Rightarrow> change list \<Rightarrow> bool" where
  "restacked tip chain stack \<longleftrightarrow> map ch_key stack = map ch_key chain
     \<and> (\<forall>k<length chain. (\<exists>j<k. ch_head (chain ! j) = ch_base (chain ! k) \<and> ch_base (stack ! k) = ch_head (stack ! j))
          \<or> (\<forall>j<k. ch_head (chain ! j) \<noteq> ch_base (chain ! k)) \<and> ch_base (stack ! k) = tip)"

lemma moved_restacked:
  assumes "placed tip gm_empty moves"
  shows "restacked tip (map fst moves) (map moved_row moves)"
proof -
  have row: "ch_key (moved_row (moves ! k)) = ch_key (fst (moves ! k)) \<and> ch_base (moved_row (moves ! k)) = fst (snd (moves ! k))
      \<and> ch_head (moved_row (moves ! k)) = snd (snd (moves ! k))" if "k < length moves" for k
    using moved_row_fields [OF assms, of "fst (moves ! k)" "fst (snd (moves ! k))" "snd (snd (moves ! k))"] that by simp
  have "map ch_key (map moved_row moves) = map ch_key (map fst moves)"
    by (rule nth_equalityI) (use row in simp_all)
  moreover have "(\<exists>j<k. ch_head (map fst moves ! j) = ch_base (map fst moves ! k)
          \<and> ch_base (map moved_row moves ! k) = ch_head (map moved_row moves ! j))
      \<or> (\<forall>j<k. ch_head (map fst moves ! j) \<noteq> ch_base (map fst moves ! k)) \<and> ch_base (map moved_row moves ! k) = tip"
    if "k < length moves" for k
    using placed_nth [OF assms that, of "fst (moves ! k)" "fst (snd (moves ! k))" "snd (snd (moves ! k))"] row that by fastforce
  ultimately show ?thesis by (simp add: restacked_def)
qed

lemma rows_reported:
  "\<forall>mv\<in>set moves. get_change s (ch_key (fst mv)) = Some (f mv) \<Longrightarrow>
   List.map_filter (\<lambda>m. get_change s (ch_key m)) (map fst moves) = map f moves"
  by (induction moves) simp_all

lemma kick_automerge_frame [simp]: "sy_store (kick_automerge sv y) = sy_store y" "sy_repo (kick_automerge sv y) = sy_repo y"
  by (simp_all add: kick_automerge_def)

text \<open>C18. A sync moves the whole stack or nothing. When nobody else acts meanwhile and the stable refs agree with the
  open rows: either the answer is not Synced, and then every ref and the whole store
  are as they were, conflicts included; or it is, and then the stack has the same members in the same order, each
  based on the new head of the member it was based on, or on trunk's tip when it was based on none; every row and
  every stable ref agree with the reported stack, and no other row or ref has moved.\<close>
theorem sync_whole_stack:
  fixes sv :: "'w server"
  defines "g \<equiv> gt_git (sv_gate sv)"
  assumes laws: "git_laws g" and rows: "gm_all change_ok (ms_changes (sy_store y))"
    and c: "get_change (sy_store y) (ch_key c) = Some c"
    and refs: "\<And>x. x \<in> set (list_changes (sy_store y) state_open) \<Longrightarrow>
          g_resolve g (sy_repo y) (change_ref (ch_key x)) = Some (ch_head x)"
    and run: "sync_change_core sv proc info now (\<lambda>_. nobody) c y = (r, y')"
  shows "(\<forall>st. r \<noteq> Inr (Synced st)) \<and> sy_store y' = sy_store y \<and> (\<forall>f. g_resolve g (sy_repo y') f = g_resolve g (sy_repo y) f)
     \<or> (\<exists>tip stack chain. trunk_tip (sv_gate sv) (sy_repo y) = Some tip \<and> r = Inr (Synced stack)
          \<and> chain = fst (stack_for_change (list_changes (sy_store y) state_open) c) \<and> restacked tip chain stack
          \<and> (\<forall>x\<in>set stack. get_change (sy_store y') (ch_key x) = Some x
               \<and> g_resolve g (sy_repo y') (change_ref (ch_key x)) = Some (ch_head x))
          \<and> (\<forall>k. k \<notin> ch_key ` set stack \<longrightarrow> get_change (sy_store y') k = get_change (sy_store y) k)
          \<and> (\<forall>f. f \<notin> (change_ref \<circ> ch_key) ` set stack \<longrightarrow> g_resolve g (sy_repo y') f = g_resolve g (sy_repo y) f))"
proof -
  have laws': "git_laws (gt_git (sv_gate sv))" using laws by (simp add: g_def)
  let ?open = "list_changes (sy_store y) state_open"
  obtain chain i where chain: "stack_for_change ?open c = (chain, i)" by fastforce
  show ?thesis
  proof (cases "trunk_tip (sv_gate sv) (sy_repo y)")
    case None
    then show ?thesis using run
      by (auto simp: sync_change_core_def g_def require_open_change_def split: if_splits)
  next
    case (Some tip)
    obtain res w where plan: "plan_sync sv info tip gm_empty chain (sy_repo y) = (res, w)" by fastforce
    have same: "g_resolve g w f = g_resolve g (sy_repo y) f" for f unfolding g_def by (rule plan_sync_refs [OF laws' plan])
    have open_c: "ch_state c = state_open \<or> (\<forall>st. r \<noteq> Inr (Synced st)) \<and> y' = y"
      using run by (auto simp: sync_change_core_def require_open_change_def)
    show ?thesis
    proof (cases "ch_state c = state_open \<and> (\<exists>moves. res = Inr moves \<and> filter (\<lambda>(m, b, _). ch_base m \<noteq> b) moves \<noteq> [])")
      case False
      then have "(\<forall>st. r \<noteq> Inr (Synced st)) \<and> (y' = y \<or> y' = y\<lparr>sy_repo := w\<rparr>)"
        using run open_c Some chain plan
        by (cases res) (auto simp: sync_change_core_def sync_stopped_def refuse_def broken_def require_open_change_def Let_def
          split: sync_stop.splits if_splits)
      then show ?thesis using same by auto
    next
      case True
      then obtain moves where moves: "res = Inr moves" "filter (\<lambda>(m, b, _). ch_base m \<noteq> b) moves \<noteq> []"
        and st: "ch_state c = state_open" by blast
      have listed: "c \<in> set ?open"
        using c st rows by (auto simp: list_changes_def Let_def get_change_def gm_vals_iff gm_all_wf state_open_def state_landed_def)
      note f = stack_for_change_facts [OF list_open_rows(1) [OF rows] listed chain]
      have "set chain \<subseteq> set ?open" and dist: "distinct (map ch_key chain)"
        using down_walk_within [of "alive_changes ?open c" "[]" "[stack_root (alive_changes ?open c) c]"] f(1,4)
          down_walk_distinct [of "alive_changes ?open c" "[]" "[stack_root (alive_changes ?open c) c]"] unfolding f(3) by auto
      then have member: "get_change (sy_store y) (ch_key m) = Some m \<and> ch_state m = state_open
          \<and> g_resolve g w (change_ref (ch_key m)) = Some (ch_head m)" if "m \<in> set chain" for m
        using that list_open_rows(2) [OF rows] refs same by auto
      have placed: "map fst moves = chain" "placed tip gm_empty moves"
        using plan_sync_placed [OF laws' plan [unfolded moves(1)]] member by auto
      have keys: "distinct (map (ch_key \<circ> fst) moves)" using dist unfolding placed(1) [symmetric] by (simp add: o_def)
      obtain y1 where y1: "write_members sv proc now (\<lambda>_. nobody) 0 (filter (\<lambda>(m, b, _). ch_base m \<noteq> b) moves) (y\<lparr>sy_repo := w\<rparr>) = (Inr (), y1)"
        "\<And>m b h. (m, b, h) \<in> set moves \<Longrightarrow> get_change (sy_store y1) (ch_key m) = Some (moved_row (m, b, h))
            \<and> g_resolve g (sy_repo y1) (change_ref (ch_key m)) = Some h"
        "\<And>k. k \<notin> set (map (ch_key \<circ> fst) moves) \<Longrightarrow> get_change (sy_store y1) k = get_change (sy_store y) k"
        "\<And>r. r \<notin> set (map (change_ref \<circ> ch_key \<circ> fst) moves) \<Longrightarrow> g_resolve g (sy_repo y1) r = g_resolve g w r"
        unfolding g_def
        by (rule sync_writes_effect [OF laws' placed(2) keys, of "y\<lparr>sy_repo := w\<rparr>" proc now 0])
          (use member placed(1) in \<open>force simp: g_def\<close>, force)
      have stack: "List.map_filter (\<lambda>m. get_change (sy_store y1) (ch_key m)) chain = map moved_row moves"
        unfolding placed(1) [symmetric] by (rule rows_reported) (use y1(2) in auto)
      have answer: "r = Inr (Synced (map moved_row moves))" "y' = kick_automerge sv y1"
        using run st Some chain plan moves y1(1) stack by (auto simp: sync_change_core_def require_open_change_def Let_def)
      have key: "ch_key (moved_row mv) = ch_key (fst mv) \<and> ch_head (moved_row mv) = snd (snd mv)" if "mv \<in> set moves" for mv
        using moved_row_fields [OF placed(2), of "fst mv" "fst (snd mv)" "snd (snd mv)"] that by simp
      have "ch_key ` set (map moved_row moves) = set (map (ch_key \<circ> fst) moves)"
        "(change_ref \<circ> ch_key) ` set (map moved_row moves) = set (map (change_ref \<circ> ch_key \<circ> fst) moves)"
        using key by (auto simp: image_iff) (metis fst_conv snd_conv)+
      moreover have "\<forall>x\<in>set (map moved_row moves). get_change (sy_store y1) (ch_key x) = Some x
          \<and> g_resolve g (sy_repo y1) (change_ref (ch_key x)) = Some (ch_head x)"
        using y1(2) key by fastforce
      ultimately show ?thesis
        using answer Some chain moved_restacked [OF placed(2)] placed(1) y1(3,4) same by auto
    qed
  qed
qed

section \<open>Findings a sync sheds\<close>

text \<open>A run that has not succeeded does not reach the new head, and a sync mints none there: the agent-policy
  run with which a push blocks the gate stays behind at the old head.\<close>

lemma carry_or_announce_sheds:
  assumes "carry_or_announce p now w paths (Some m) b c s = (full, lines, s')" "store_ok s"
    "sub_get (ms_check_runs s) (check_run_key (ch_key c) (ch_head c)) n = None"
    "\<And>r. sub_get (ms_check_runs s) (check_run_key (ch_key c) (ch_head m)) n = Some r \<Longrightarrow> cv_conclusion r \<noteq> conclusion_success"
  shows "sub_get (ms_check_runs s') (check_run_key (ch_key c) (ch_head c)) n = None"
proof -
  note kept = carry_approvals_keeps(1) [OF assms(2), of m c] carry_approvals_keeps(3) [of m c s]
  have "sub_get (ms_check_runs (snd (copy_passing_check_runs (ch_key c) (ch_head m) (ch_head c) (carry_approvals m c s))))
      (check_run_key (ch_key c) (ch_head c)) n = None"
    using copy_view [OF kept(1), of "ch_key c" "ch_head m" "ch_head c" n] kept(2) assms(3,4) by (auto split: option.splits)
  then have over: "sub_get (ms_check_runs s1) (check_run_key (ch_key c) (ch_head c)) n = None"
    if "carry_over p w (Some m) b c result indexed s = (ok, s1)" for result indexed ok s1
    using that kept(2) assms(3)
    by (auto simp: carry_over_def carry_forward_trivial_rebase_def Let_def split: if_splits prod.splits sum.splits)
  show ?thesis
    using assms(1,3) over
    by (auto simp: carry_or_announce_def Let_def enqueue_change_updated_keeps(3) split: option.splits prod.splits if_splits)
qed

lemma sync_sheds_findings:
  fixes sv :: "'w server"
  assumes "write_member sv proc now nobody (m, b, h) y = (Inr (), y')" "store_ok (sy_store y)"
    "get_change (sy_store y) (ch_key m) = Some m"
    "sub_get (ms_check_runs (sy_store y)) (check_run_key (ch_key m) h) agent_policy_check_name = None"
    "sub_get (ms_check_runs (sy_store y)) (check_run_key (ch_key m) (ch_head m)) agent_policy_check_name = Some r"
    "cv_conclusion r = ''failure''"
  shows "find_run (list_check_runs (sy_store y') (ch_key m) h) agent_policy_check_name = None"
proof -
  let ?row = "amend_change (member_fields m b h) m"
  let ?s1 = "put_change ?row (ch_key m) (sy_store y)"
  have "change_ok (ch_key m) ?row"
    using assms(2) by (intro amend_change_ok change_ok_get [OF _ assms(3)]) (simp add: store_ok_def)
  then have ok: "store_ok ?s1" by (rule put_change_ok [OF assms(2)])
  have row: "ch_key ?row = ch_key m" "ch_head ?row = h" by (simp_all add: amend_change_fields member_fields_def)
  let ?paths = "case git_diff_names_only (gt_git (sv_gate sv)) b h (sy_repo y') of None \<Rightarrow> [] | Some ps \<Rightarrow> ps"
  have cases: "sy_store y' = ?s1 \<or> (\<exists>(p :: 'w processor) w paths full lines. carry_or_announce p now w paths (Some m) b ?row ?s1 = (full, lines, sy_store y'))"
  proof (cases proc)
    case None
    then show ?thesis using assms(1,3)
      by (auto simp: write_member_def nobody_def create_or_update_change_def Let_def split_beta split: if_splits)
  next
    case (Some p)
    then have "sy_store y' = snd (snd (carry_or_announce p now (sy_repo y') ?paths (Some m) b ?row ?s1))"
      using assms(1,3)
      by (auto simp: write_member_def nobody_def create_or_update_change_def Let_def split_beta split: if_splits)
    then have "carry_or_announce p now (sy_repo y') ?paths (Some m) b ?row ?s1 =
        (fst (carry_or_announce p now (sy_repo y') ?paths (Some m) b ?row ?s1),
         fst (snd (carry_or_announce p now (sy_repo y') ?paths (Some m) b ?row ?s1)), sy_store y')" by simp
    then show ?thesis by (intro disjI2 exI)
  qed
  have "sub_get (ms_check_runs (sy_store y')) (check_run_key (ch_key m) h) agent_policy_check_name = None"
    using cases
  proof (elim disjE exE)
    fix p :: "'w processor" and w paths full lines assume "carry_or_announce p now w paths (Some m) b ?row ?s1 = (full, lines, sy_store y')"
    from carry_or_announce_sheds [OF this ok, unfolded row, of agent_policy_check_name] show ?thesis
      using assms(4-6) by (simp add: put_change_def conclusion_success_def)
  qed (use assms(4) in \<open>simp add: put_change_def\<close>)
  moreover have "store_ok (sy_store y')"
    using cases ok carry_or_announce_keeps(1) by metis
  ultimately show ?thesis by (simp add: find_run_stored)
qed

section \<open>A stack of two behind trunk\<close>

definition demo_upper :: change where
  "demo_upper = demo_open_change\<lparr>ch_key := ''I2'', ch_base := ''c2'', ch_head := ''c4''\<rparr>"

definition demo_lower :: change where
  "demo_lower = demo_open_change\<lparr>ch_base := ''c0''\<rparr>"

definition demo_stack_sys :: "repo sys" where
  "demo_stack_sys = demo_sys\<lparr>sy_store := put_change demo_upper ''I2'' (put_change demo_lower ''I1'' new_mem_store),
     sy_repo := demo_repo\<lparr>rp_refs := [(''refs/heads/main'', ''c1''), (change_ref ''I1'', ''c2''), (change_ref ''I2'', ''c4'')],
       rp_count := 7\<rparr>\<rparr>"

definition demo_head_info :: "repo head_info" where
  "demo_head_info = (\<lambda>w x. Some (''bob'', ''bob@example.com'', ''m''))"

lemma demo_stack: "stack_for_change [demo_lower, demo_upper] demo_upper = ([demo_lower, demo_upper], 1)"
  by code_simp

theorem stack_is_tree_witness:
  "demo_lower \<in> set (fst (stack_for_change [demo_lower, demo_upper] demo_upper))
   \<and> (\<exists>j<1. ch_head (fst (stack_for_change [demo_lower, demo_upper] demo_upper) ! j) = ch_base demo_upper)"
proof -
  have "distinct (map ch_key [demo_lower, demo_upper])" "demo_upper \<in> set [demo_lower, demo_upper]"
    "inj_on ch_head {x \<in> set [demo_lower, demo_upper]. ch_state x = state_open \<or> x = demo_upper}"
    by (auto simp: demo_lower_def demo_upper_def demo_open_change_def new_change_def inj_on_def)
  from stack_is_tree [OF this demo_stack] show ?thesis by (auto simp: demo_stack)
qed

lemma demo_stack_synced:
  "\<exists>st. fst (sync_change_core demo_daemon None demo_head_info 0 (\<lambda>_. nobody) demo_upper demo_stack_sys) = Inr (Synced st)"
proof -
  have "(case fst (sync_change_core demo_daemon None demo_head_info 0 (\<lambda>_. nobody) demo_upper demo_stack_sys) of
      Inr (Synced st) \<Rightarrow> True | _ \<Rightarrow> False)" by code_simp
  then show ?thesis by (auto split: sum.splits sync_decision.splits)
qed

lemma demo_stack_rows: "list_changes (sy_store demo_stack_sys) state_open = [demo_lower, demo_upper]"
  by code_simp

theorem sync_whole_stack_witness:
  "\<exists>stack. fst (sync_change_core demo_daemon None demo_head_info 0 (\<lambda>_. nobody) demo_upper demo_stack_sys) = Inr (Synced stack)
     \<and> map ch_key stack = [''I1'', ''I2''] \<and> ch_base (stack ! 0) = ''c1'' \<and> ch_base (stack ! 1) = ch_head (stack ! 0)"
proof -
  obtain r y' where run: "sync_change_core demo_daemon None demo_head_info 0 (\<lambda>_. nobody) demo_upper demo_stack_sys = (r, y')" by fastforce
  have fields: "ch_key demo_lower = ''I1''" "ch_key demo_upper = ''I2''" "ch_head demo_lower = ''c2''" "ch_head demo_upper = ''c4''"
      "ch_base demo_lower = ''c0''" "ch_base demo_upper = ''c2''" "ch_state demo_upper = state_open"
    by (simp_all add: demo_lower_def demo_upper_def demo_open_change_def new_change_def)
  have gate: "sv_gate demo_daemon = demo_gate" by (simp add: demo_daemon_def)
  have rows: "gm_all change_ok (ms_changes (sy_store demo_stack_sys))" by code_simp
  have got: "get_change (sy_store demo_stack_sys) (ch_key demo_upper) = Some demo_upper"
    using list_open_rows(2) [OF rows, of demo_upper] by (simp add: demo_stack_rows)
  have refs: "g_resolve (gt_git demo_gate) (sy_repo demo_stack_sys) (change_ref (ch_key x)) = Some (ch_head x)"
    if "x \<in> set (list_changes (sy_store demo_stack_sys) state_open)" for x
  proof -
    have "x = demo_lower \<or> x = demo_upper" using that by (simp add: demo_stack_rows)
    then show ?thesis
      by (elim disjE)
        (simp_all add: demo_git fields demo_stack_sys_def demo_repo_def repo_git_def change_ref_def gm_get_def valid_oid_def zero_oid_def numeral_eq_Suc)
  qed
  have tip: "trunk_tip demo_gate (sy_repo demo_stack_sys) = Some ''c1''" by code_simp
  obtain st where st: "r = Inr (Synced st)" using demo_stack_synced run by auto
  have "restacked ''c1'' [demo_lower, demo_upper] st"
    using sync_whole_stack [of demo_daemon, unfolded gate, OF demo_git_laws rows got refs run] st tip by (auto simp: demo_stack_rows demo_stack)
  then have keys: "map ch_key st = [''I1'', ''I2'']" and at: "\<And>k. k < 2 \<Longrightarrow>
      (\<exists>j<k. ch_head ([demo_lower, demo_upper] ! j) = ch_base ([demo_lower, demo_upper] ! k) \<and> ch_base (st ! k) = ch_head (st ! j))
      \<or> (\<forall>j<k. ch_head ([demo_lower, demo_upper] ! j) \<noteq> ch_base ([demo_lower, demo_upper] ! k)) \<and> ch_base (st ! k) = ''c1''"
    by (auto simp: restacked_def fields numeral_2_eq_2)
  show ?thesis using run st keys at [of 0] at [of 1] by (auto simp: fields)
qed

end
