(* ===== verification/History.thy ===== *)
theory History
  imports Push
begin

text \<open>
  The repository browser (\<open>runkod/history.go\<close>, \<open>runkod/repo.go\<close>): the log of a path with the Change each
  commit landed, blame by region, and trees and files at a revision. \<open>git\<close> is the output of a git
  command line run in the repository, None when it fails.
\<close>

type_synonym 'w git_out = "'w \<Rightarrow> string list \<Rightarrow> string option"

section \<open>Log records\<close>

record commit_info =
  ci_sha :: string
  ci_subject :: string
  ci_author :: string
  ci_email :: string
  ci_authored :: int
  ci_committed :: int
  ci_change :: string
  ci_state :: string
  ci_landed :: int

definition unit_sep :: char where "unit_sep = CHR 0x1F"
definition record_sep :: char where "record_sep = CHR 0x1E"

definition log_format :: string where
  "log_format = ''%H%x1f%an%x1f%ae%x1f%at%x1f%ct%x1f%s%x1f%(trailers:key=Change-Id,valueonly,separator=%x2C)%x1e''"

definition first_change_id :: "string \<Rightarrow> string" where
  "first_change_id v = go_trim_space (takeWhile (\<lambda>c. c \<noteq> CHR '','') (go_trim_space v))"

definition parse_log_record :: "string \<Rightarrow> commit_info option" where
  "parse_log_record r =
     (let rec = go_trim_left (\<lambda>c. c = newline) r; f = go_split unit_sep rec
      in if go_trim_space rec = [] \<or> length f < 7 then None
         else Some \<lparr>ci_sha = f ! 0, ci_subject = f ! 5, ci_author = f ! 1, ci_email = f ! 2, ci_authored = atoi_kept (f ! 3),
                ci_committed = atoi_kept (f ! 4), ci_change = first_change_id (f ! 6), ci_state = [], ci_landed = 0\<rparr>)"

definition parse_log_records :: "string \<Rightarrow> commit_info list" where
  "parse_log_records out = List.map_filter parse_log_record (go_split record_sep out)"

text \<open>The state and the landing time of the Change a commit names, from the rows of the store.\<close>

definition resolve_change_state :: "mem_store \<Rightarrow> commit_info \<Rightarrow> commit_info" where
  "resolve_change_state s c =
     (if ci_change c = [] then c
      else case get_change s (ci_change c) of
             None \<Rightarrow> c\<lparr>ci_state := [], ci_landed := 0\<rparr>
           | Some row \<Rightarrow> c\<lparr>ci_state := ch_state row,
                 ci_landed := (if ch_landed_at row = 0 then 0 else unix_seconds (ch_landed_at row))\<rparr>)"

definition is_blob_at :: "'w git_out \<Rightarrow> 'w \<Rightarrow> string \<Rightarrow> string \<Rightarrow> bool" where
  "is_blob_at git w r path \<longleftrightarrow>
     (case git w [''cat-file'', ''-t'', r @ '':'' @ path] of None \<Rightarrow> False | Some out \<Rightarrow> go_trim_space out = ''blob'')"

definition trim_slashes :: "string \<Rightarrow> string" where
  "trim_slashes p = go_trim_left (\<lambda>c. c = slash) (go_trim_right (\<lambda>c. c = slash) p)"

text \<open>One commit more than asked for tells whether there are more.\<close>

definition list_commits ::
  "'w git_out \<Rightarrow> 'w \<Rightarrow> mem_store \<Rightarrow> string \<Rightarrow> string \<Rightarrow> int \<Rightarrow> int \<Rightarrow> (commit_info list \<times> bool) option" where
  "list_commits git w s r path0 limit offset =
     (let path = trim_slashes path0;
          args = [''log'', ''--format='' @ log_format, ''--skip='' @ show_int offset, ''--max-count='' @ show_int (limit + 1)]
                 @ (if path \<noteq> [] \<and> is_blob_at git w r path then [''--follow''] else [])
                 @ [r] @ (if path \<noteq> [] then [''--'', path] else [])
      in case git w args of
           None \<Rightarrow> None
         | Some out \<Rightarrow>
             (let commits = parse_log_records out; more = int (length commits) > limit
              in Some (map (resolve_change_state s) (if more then take (nat limit) commits else commits), more)))"

section \<open>Blame\<close>

record blame_region =
  br_start :: int
  br_count :: int
  br_sha :: string
  br_subject :: string
  br_author :: string
  br_authored :: int
  br_change :: string
  br_state :: string

record blame_meta =
  bm_author :: string
  bm_at :: int
  bm_subject :: string

record blame_state =
  bs_metas :: "(string, blame_meta) gomap"
  bs_regions :: "blame_region list"
  bs_lines :: "string list"
  bs_cur :: "blame_region option"
  bs_group :: string

definition blame_start :: blame_state where
  "blame_start = \<lparr>bs_metas = gm_empty, bs_regions = [], bs_lines = [], bs_cur = None, bs_group = []\<rparr>"

definition flush_region :: "blame_state \<Rightarrow> blame_state" where
  "flush_region b = (case bs_cur b of None \<Rightarrow> b | Some r \<Rightarrow> b\<lparr>bs_regions := bs_regions b @ [r], bs_cur := None\<rparr>)"

definition new_region :: "int \<Rightarrow> string \<Rightarrow> blame_region" where
  "new_region line sha = \<lparr>br_start = line, br_count = 1, br_sha = sha, br_subject = [], br_author = [], br_authored = 0,
     br_change = [], br_state = []\<rparr>"

text \<open>A group header names the commit of the next line; the region grows while the commit stays and the
  lines follow each other.\<close>

definition blame_group :: "string \<Rightarrow> int \<Rightarrow> blame_state \<Rightarrow> blame_state" where
  "blame_group sha line b0 =
     (let b = b0\<lparr>bs_group := sha,
                 bs_metas := (if gm_get (bs_metas b0) sha = None then gm_put (bs_metas b0) sha \<lparr>bm_author = [], bm_at = 0, bm_subject = []\<rparr>
                              else bs_metas b0)\<rparr>
      in case bs_cur b of
           Some r \<Rightarrow> if br_sha r = sha \<and> br_start r + br_count r = line then b\<lparr>bs_cur := Some (r\<lparr>br_count := br_count r + 1\<rparr>)\<rparr>
                     else (flush_region b)\<lparr>bs_cur := Some (new_region line sha)\<rparr>
         | None \<Rightarrow> b\<lparr>bs_cur := Some (new_region line sha)\<rparr>)"

definition blame_tag :: "string \<Rightarrow> blame_meta \<Rightarrow> blame_meta" where
  "blame_tag raw m =
     (case go_cut_prefix raw ''author '' of
        Some v \<Rightarrow> m\<lparr>bm_author := v\<rparr>
      | None \<Rightarrow>
          (case go_cut_prefix raw ''author-time '' of
             Some v \<Rightarrow> m\<lparr>bm_at := atoi_kept v\<rparr>
           | None \<Rightarrow> (case go_cut_prefix raw ''summary '' of Some v \<Rightarrow> m\<lparr>bm_subject := v\<rparr> | None \<Rightarrow> m)))"

definition blame_line :: "string \<Rightarrow> blame_state \<Rightarrow> blame_state option" where
  "blame_line raw b =
     (if raw = [] then Some b
      else if hd raw = CHR 0x09 then Some (b\<lparr>bs_lines := bs_lines b @ [tl raw]\<rparr>)
      else (let f = go_fields raw in
            if length f \<ge> 3 \<and> length (f ! 0) = 40 \<and> list_all is_hex (f ! 0)
            then (case go_atoi (f ! 2) of None \<Rightarrow> None | Some line \<Rightarrow> Some (blame_group (f ! 0) line b))
            else (case gm_get (bs_metas b) (bs_group b) of
                    None \<Rightarrow> Some b
                  | Some m \<Rightarrow> Some (b\<lparr>bs_metas := gm_put (bs_metas b) (bs_group b) (blame_tag raw m)\<rparr>))))"

fun blame_lines :: "string list \<Rightarrow> blame_state \<Rightarrow> blame_state option" where
  "blame_lines [] b = Some b"
| "blame_lines (l # ls) b = (case blame_line l b of None \<Rightarrow> None | Some b' \<Rightarrow> blame_lines ls b')"

definition describe_region :: "(string, blame_meta) gomap \<Rightarrow> blame_region \<Rightarrow> blame_region" where
  "describe_region ms r =
     (case gm_get ms (br_sha r) of
        None \<Rightarrow> r
      | Some m \<Rightarrow> r\<lparr>br_author := bm_author m, br_authored := bm_at m, br_subject := bm_subject m\<rparr>)"

definition parse_blame_porcelain :: "string \<Rightarrow> (blame_region list \<times> string list) option" where
  "parse_blame_porcelain out =
     (case blame_lines (go_split newline out) blame_start of
        None \<Rightarrow> None
      | Some b \<Rightarrow> (let b' = flush_region b in Some (map (describe_region (bs_metas b')) (bs_regions b'), bs_lines b')))"

text \<open>The Change of each blamed commit, by one log call over the distinct commits.\<close>

definition attach_blame_changes :: "'w git_out \<Rightarrow> 'w \<Rightarrow> mem_store \<Rightarrow> blame_region list \<Rightarrow> blame_region list option" where
  "attach_blame_changes git w s regions =
     (let shas = rev (remdups (rev (map br_sha regions)))
      in if shas = [] then Some regions
         else case git w ([''log'', ''--no-walk=unsorted'', ''--format='' @ log_format] @ shas) of
                None \<Rightarrow> None
              | Some out \<Rightarrow>
                  (let by_sha = fold (\<lambda>c m. gm_put m (ci_sha c) c) (map (resolve_change_state s) (parse_log_records out)) gm_empty
                   in Some (map (\<lambda>r. case gm_get by_sha (br_sha r) of None \<Rightarrow> r
                                     | Some c \<Rightarrow> r\<lparr>br_change := ci_change c, br_state := ci_state c\<rparr>) regions)))"

section \<open>Trees and files\<close>

record browse_entry =
  be_name :: string
  be_path :: string
  be_dir :: bool
  be_size :: int

text \<open>A revision of the browser: the trunk tip when none is given, nothing when trunk is unborn.\<close>

definition resolve_repo_rev :: "'w gate \<Rightarrow> 'w \<Rightarrow> string \<Rightarrow> api_error + string option" where
  "resolve_repo_rev g w r =
     (if r = [] then Inr (trunk_tip g w)
      else case g_resolve (gt_git g) w (r @ ''^{commit}'') of
             None \<Rightarrow> Inl (typed_err 400 ''unknown_revision'') | Some x \<Rightarrow> Inr (Some x))"

text \<open>A line of \<open>ls-tree -l\<close>; None when it is not one. What is neither a tree nor a blob is left out.\<close>

definition tree_line :: "string \<Rightarrow> string \<Rightarrow> (browse_entry option) option" where
  "tree_line path line =
     (case go_cut CHR 0x09 line of
        None \<Rightarrow> None
      | Some (left, name) \<Rightarrow>
          (let meta = go_fields left;
               full = (if path \<noteq> [] \<and> path \<noteq> ''.'' then path @ [slash] @ name else name)
           in if length meta \<noteq> 4 then None
              else if meta ! 1 = ''tree'' then Some (Some \<lparr>be_name = name, be_path = full, be_dir = True, be_size = 0\<rparr>)
              else if meta ! 1 = ''blob''
                then Some (Some \<lparr>be_name = name, be_path = full, be_dir = False, be_size = atoi_kept (meta ! 3)\<rparr>)
              else Some None))"

definition repo_tree :: "'w git_out \<Rightarrow> 'w \<Rightarrow> string \<Rightarrow> string \<Rightarrow> api_error + browse_entry list" where
  "repo_tree git w r path0 =
     (let path = trim_slashes path0; spec = (if path \<noteq> [] \<and> path \<noteq> ''.'' then r @ '':'' @ path else r)
      in case git w [''-c'', ''core.quotePath=false'', ''ls-tree'', ''-l'', spec] of
           None \<Rightarrow> Inl (typed_err 404 [])
         | Some out \<Rightarrow>
             (let rows = map (tree_line path) (filter (\<lambda>l. l \<noteq> []) (go_split newline (go_trim_right (\<lambda>c. c = newline) out)))
              in if None \<in> set rows then Inl internal_err
                 else (let entries = List.map_filter the rows
                       in Inr (sort_key be_name (filter be_dir entries) @ sort_key be_name (filter (\<lambda>e. \<not> be_dir e) entries)))))"

definition blob_content_cap :: nat where "blob_content_cap = 1048576"

record repo_blob =
  rb_content :: string
  rb_binary :: bool
  rb_truncated :: bool
  rb_size :: int

definition rune_start :: "char \<Rightarrow> bool" where
  "rune_start c \<longleftrightarrow> (of_char c :: nat) div 64 \<noteq> 2"

text \<open>The longest cut of at most \<open>n\<close> bytes that does not split a character.\<close>

fun rune_cut :: "string \<Rightarrow> nat \<Rightarrow> nat" where
  "rune_cut s 0 = 0"
| "rune_cut s (Suc n) = (if rune_start (s ! Suc n) then Suc n else rune_cut s n)"

definition view_blob :: "string \<Rightarrow> repo_blob" where
  "view_blob content =
     (let size = int (length content) in
      if CHR 0x00 \<in> set content then \<lparr>rb_content = [], rb_binary = True, rb_truncated = False, rb_size = size\<rparr>
      else if length content > blob_content_cap
        then \<lparr>rb_content = take (rune_cut content blob_content_cap) content, rb_binary = False, rb_truncated = True, rb_size = size\<rparr>
      else \<lparr>rb_content = content, rb_binary = False, rb_truncated = False, rb_size = size\<rparr>)"

definition repo_blob_at :: "('w \<Rightarrow> string \<Rightarrow> string \<Rightarrow> string option) \<Rightarrow> 'w \<Rightarrow> string \<Rightarrow> string \<Rightarrow> api_error + repo_blob" where
  "repo_blob_at blob w r path =
     (case blob w r (trim_slashes path) of None \<Rightarrow> Inl (typed_err 404 []) | Some content \<Rightarrow> Inr (view_blob content))"

definition blame_line_cap :: int where "blame_line_cap = 5000"

definition blame_file ::
  "'w git_out \<Rightarrow> ('w \<Rightarrow> string \<Rightarrow> string \<Rightarrow> string option) \<Rightarrow> 'w \<Rightarrow> mem_store \<Rightarrow> string \<Rightarrow> string \<Rightarrow>
   api_error + blame_region list \<times> string list \<times> bool" where
  "blame_file git blob w s r path0 =
     (let path = trim_slashes path0 in
      case repo_blob_at blob w r path of
        Inl e \<Rightarrow> Inl e
      | Inr b \<Rightarrow>
          if rb_binary b then Inl (typed_err 422 ''blame_binary'')
          else (let lines = int (length (filter (\<lambda>c. c = newline) (rb_content b))) + 1;
                    cut = rb_truncated b \<or> lines > blame_line_cap
                in case git w ([''blame'', ''--porcelain''] @ (if cut then [''-L'', ''1,'' @ show_int blame_line_cap] else []) @ [r, ''--'', path]) of
                     None \<Rightarrow> Inl internal_err
                   | Some out \<Rightarrow>
                       (case parse_blame_porcelain out of
                          None \<Rightarrow> Inl internal_err
                        | Some (regions, ls) \<Rightarrow>
                            (case attach_blame_changes git w s regions of
                               None \<Rightarrow> Inl internal_err | Some rs \<Rightarrow> Inr (rs, ls, cut)))))"

section \<open>Reading back a log\<close>

text \<open>What git prints for a commit, and the commits it prints so that they read back.\<close>

definition log_record :: "commit_info \<Rightarrow> string" where
  "log_record c = go_join [unit_sep] [ci_sha c, ci_author c, ci_email c, show_int (ci_authored c), show_int (ci_committed c),
     ci_subject c, ci_change c] @ [record_sep, newline]"

definition free_of_seps :: "string \<Rightarrow> bool" where
  "free_of_seps s \<longleftrightarrow> unit_sep \<notin> set s \<and> record_sep \<notin> set s"

definition loggable :: "commit_info \<Rightarrow> bool" where
  "loggable c \<longleftrightarrow> ci_sha c \<noteq> [] \<and> \<not> is_space (hd (ci_sha c)) \<and> list_all free_of_seps [ci_sha c, ci_author c, ci_email c, ci_subject c, ci_change c]
     \<and> - (2 ^ 63) \<le> ci_authored c \<and> ci_authored c < 2 ^ 63 \<and> - (2 ^ 63) \<le> ci_committed c \<and> ci_committed c < 2 ^ 63
     \<and> first_change_id (ci_change c) = ci_change c \<and> ci_state c = [] \<and> ci_landed c = 0"

lemma show_int_chars: "c \<in> set (show_int v) \<Longrightarrow> is_digit c \<or> c = CHR ''-''"
  using show_nat_shape(2) by (auto simp: show_int_def list_all_iff split: if_splits)

lemma show_int_free: "free_of_seps (show_int v)" "newline \<notin> set (show_int v)"
  using show_int_chars [of unit_sep v] show_int_chars [of record_sep v] show_int_chars [of newline v]
  by (auto simp: free_of_seps_def unit_sep_def record_sep_def is_digit_def less_eq_char_def)

lemma trim_leading_newline:
  "x \<noteq> newline \<Longrightarrow> pre = [] \<or> pre = [newline] \<Longrightarrow> go_trim_left (\<lambda>c. c = newline) (pre @ x # t) = x # t"
  by (auto simp: go_trim_left_def)

lemma trim_space_nonempty: "\<not> is_space x \<Longrightarrow> go_trim_space (x # t) \<noteq> []"
  by (auto simp: go_trim_space_def go_trim_left_def go_trim_right_def)

lemma go_split_fields: "xs \<noteq> [] \<Longrightarrow> (\<And>x. x \<in> set xs \<Longrightarrow> c \<notin> set x) \<Longrightarrow> go_split c (go_join [c] xs) = xs"
  by (induction "[c]" xs rule: go_join.induct) (auto simp: go_split_free go_split_append)

lemma set_go_join: "set (go_join sep xs) \<subseteq> \<Union> (set ` set xs) \<union> set sep"
  by (induction sep xs rule: go_join.induct) auto

lemma parse_log_record_back:
  assumes "loggable c" "pre = [] \<or> pre = [newline]"
  shows "parse_log_record (pre @ go_join [unit_sep] [ci_sha c, ci_author c, ci_email c, show_int (ci_authored c),
     show_int (ci_committed c), ci_subject c, ci_change c]) = Some c"
proof -
  let ?f = "[ci_sha c, ci_author c, ci_email c, show_int (ci_authored c), show_int (ci_committed c), ci_subject c, ci_change c]"
  let ?r = "go_join [unit_sep] ?f"
  obtain x xs where sha: "ci_sha c = x # xs" "\<not> is_space x" using assms(1) by (cases "ci_sha c") (auto simp: loggable_def)
  then have hd: "?r = x # tl ?r" "x \<noteq> newline" by (auto simp: is_space_def)
  have "go_trim_left (\<lambda>c. c = newline) (pre @ ?r) = ?r"
    using trim_leading_newline [OF hd(2) assms(2), of "tl ?r"] unfolding hd(1) [symmetric] .
  moreover have "go_trim_space ?r \<noteq> []"
    using trim_space_nonempty [OF sha(2), of "tl ?r"] unfolding hd(1) [symmetric] .
  moreover have "go_split unit_sep ?r = ?f"
    by (rule go_split_fields) (use assms(1) show_int_free in \<open>auto simp: loggable_def free_of_seps_def\<close>)
  ultimately show ?thesis
    using assms(1) by (simp add: parse_log_record_def Let_def loggable_def atoi_kept_show)
qed

text \<open>Reading a log back gives the commits git printed, in order: separators of the format do not occur in
  the fields, so no field is cut, merged or dropped, whatever else the fields hold.\<close>
theorem log_round_trip:
  assumes "list_all loggable cs"
  shows "parse_log_records (concat (map log_record cs)) = cs"
proof -
  have "parse_log_records (pre @ concat (map log_record cs)) = cs" if "list_all loggable cs" "pre = [] \<or> pre = [newline]" for pre
    using that
  proof (induction cs arbitrary: pre)
    case Nil
    then show ?case
      by (auto simp: parse_log_records_def parse_log_record_def record_sep_def go_trim_left_def go_trim_space_def go_trim_right_def
        map_filter_simps)
  next
    case (Cons c cs)
    let ?f = "[ci_sha c, ci_author c, ci_email c, show_int (ci_authored c), show_int (ci_committed c), ci_subject c, ci_change c]"
    have "record_sep \<notin> set (pre @ go_join [unit_sep] ?f)"
      using Cons.prems show_int_free(1) set_go_join [of "[unit_sep]" ?f]
      by (auto simp: loggable_def free_of_seps_def record_sep_def unit_sep_def)
    then have "parse_log_records (pre @ concat (map log_record (c # cs)))
        = c # parse_log_records ([newline] @ concat (map log_record cs))"
      using go_split_append [of record_sep "pre @ go_join [unit_sep] ?f" "newline # concat (map log_record cs)"]
        parse_log_record_back [of c pre] Cons.prems
      by (simp add: parse_log_records_def log_record_def map_filter_simps)
    then show ?case using Cons.IH [of "[newline]"] Cons.prems by simp
  qed
  from this [of "[]"] show ?thesis using assms by simp
qed

definition demo_commit :: "string \<Rightarrow> string \<Rightarrow> commit_info" where
  "demo_commit sha change = \<lparr>ci_sha = sha, ci_subject = ''fix: a, b'', ci_author = ''Ann'', ci_email = ''ann@example.com'',
     ci_authored = 5, ci_committed = -7, ci_change = change, ci_state = [], ci_landed = 0\<rparr>"

theorem log_round_trip_witness:
  "parse_log_records (concat (map log_record [demo_commit ''c1'' ''I1'', demo_commit ''c2'' []])) = [demo_commit ''c1'' ''I1'', demo_commit ''c2'' []]"
proof -
  have "list_all loggable [demo_commit ''c1'' ''I1'', demo_commit ''c2'' []]"
    by (simp add: loggable_def demo_commit_def free_of_seps_def unit_sep_def record_sep_def is_space_def first_change_id_def
      go_trim_space_def go_trim_left_def go_trim_right_def)
  then show ?thesis by (rule log_round_trip)
qed

section \<open>Blame regions cover the file\<close>

definition word_ok :: "string \<Rightarrow> bool" where
  "word_ok x \<longleftrightarrow> x \<noteq> [] \<and> list_all (\<lambda>c. \<not> is_space c) x"

lemma go_fields_join:
  assumes "ws \<noteq> []" "\<And>x. x \<in> set ws \<Longrightarrow> word_ok x"
  shows "go_fields (go_join '' '' ws) = ws"
proof -
  let ?sp = "\<lambda>c. if is_space c then CHR '' '' else c"
  have "map ?sp (go_join '' '' ws) = go_join '' '' ws"
    using assms(2) set_go_join [of "'' ''" ws] by (intro map_idI) (auto simp: word_ok_def list_all_iff)
  moreover have "go_split CHR '' '' (go_join '' '' ws) = ws"
    using assms by (intro go_split_fields) (auto simp: word_ok_def list_all_iff is_space_def)
  moreover have "filter (\<lambda>f. f \<noteq> []) ws = ws" using assms(2) by (intro filter_True) (auto simp: word_ok_def)
  ultimately show ?thesis by (simp add: go_fields_def)
qed

text \<open>What git prints for one line of the file: the group header, tags, and the line behind a tab.\<close>

record blamed_line =
  bl_sha :: string
  bl_orig :: string
  bl_more :: "string list"
  bl_tagged :: "string list"
  bl_text :: string

definition blame_header :: "blamed_line \<Rightarrow> int \<Rightarrow> string" where
  "blame_header x i = go_join '' '' (bl_sha x # bl_orig x # show_int i # bl_more x)"

definition group_header :: "string \<Rightarrow> bool" where
  "group_header raw \<longleftrightarrow> (let f = go_fields raw in length f \<ge> 3 \<and> length (f ! 0) = 40 \<and> list_all is_hex (f ! 0))"

definition blamed_ok :: "blamed_line \<Rightarrow> bool" where
  "blamed_ok x \<longleftrightarrow> length (bl_sha x) = 40 \<and> list_all is_hex (bl_sha x) \<and> list_all word_ok (bl_orig x # bl_more x)
     \<and> list_all (\<lambda>t. t \<noteq> [] \<and> hd t \<noteq> CHR 0x09 \<and> newline \<notin> set t \<and> \<not> group_header t) (bl_tagged x) \<and> newline \<notin> set (bl_text x)"

definition blamed_lines :: "blamed_line \<Rightarrow> int \<Rightarrow> string list" where
  "blamed_lines x i = blame_header x i # bl_tagged x @ [CHR 0x09 # bl_text x]"

fun blame_text :: "blamed_line list \<Rightarrow> int \<Rightarrow> string" where
  "blame_text [] i = []"
| "blame_text (x # xs) i = concat (map (\<lambda>l. l @ [newline]) (blamed_lines x i)) @ blame_text xs (i + 1)"

text \<open>Regions that follow each other from line \<open>i\<close> up to line \<open>j\<close>, and the commit of each line they cover.\<close>

fun spans :: "int \<Rightarrow> blame_region list \<Rightarrow> int \<Rightarrow> bool" where
  "spans i [] j \<longleftrightarrow> i = j"
| "spans i (r # rs) j \<longleftrightarrow> br_start r = i \<and> 1 \<le> br_count r \<and> spans (i + br_count r) rs j"

definition line_shas :: "blame_region list \<Rightarrow> string list" where
  "line_shas rs = concat (map (\<lambda>r. replicate (nat (br_count r)) (br_sha r)) rs)"

lemma spans_append: "spans i (rs @ [r]) j \<longleftrightarrow> spans i rs (br_start r) \<and> 1 \<le> br_count r \<and> br_start r + br_count r = j"
  by (induction rs arbitrary: i) auto

definition all_regions :: "blame_state \<Rightarrow> blame_region list" where
  "all_regions b = bs_regions b @ (case bs_cur b of None \<Rightarrow> [] | Some r \<Rightarrow> [r])"

lemma flush_all: "bs_regions (flush_region b) = all_regions b"
  by (simp add: flush_region_def all_regions_def split: option.split)

text \<open>After some lines: the regions cover them, neighbours differ, and a region is open unless none is there.\<close>

definition blame_inv :: "int \<Rightarrow> int \<Rightarrow> string list \<Rightarrow> string list \<Rightarrow> blame_state \<Rightarrow> bool" where
  "blame_inv i j shas ls b \<longleftrightarrow> spans i (all_regions b) j \<and> line_shas (all_regions b) = shas \<and> bs_lines b = ls
     \<and> distinct_adj (map br_sha (all_regions b)) \<and> (bs_cur b = None \<longrightarrow> bs_regions b = [])"

lemma word_ok_hex: "length x = 40 \<Longrightarrow> list_all is_hex x \<Longrightarrow> word_ok x"
  by (auto simp: word_ok_def is_hex_def is_space_def list_all_iff less_eq_char_def)

lemma word_ok_show: "word_ok (show_int v)"
proof -
  have "show_int v \<noteq> []" using show_nat_shape(1) by (simp add: show_int_def)
  moreover have "\<not> is_space c" if "c \<in> set (show_int v)" for c
    using show_int_chars [OF that] by (auto simp: is_space_def is_digit_def less_eq_char_def)
  ultimately show ?thesis by (simp add: word_ok_def list_all_iff)
qed

lemma blame_header_fields:
  assumes "blamed_ok x"
  shows "go_fields (blame_header x i) = bl_sha x # bl_orig x # show_int i # bl_more x"
  unfolding blame_header_def
  by (rule go_fields_join) (use assms word_ok_hex word_ok_show in \<open>auto simp: blamed_ok_def list_all_iff\<close>)

lemma blame_group_inv:
  assumes "blame_inv i j shas ls b"
  shows "blame_inv i (j + 1) (shas @ [sha]) ls (blame_group sha j b)"
proof (cases "bs_cur b")
  case None
  then have "i = j" "shas = []" using assms by (auto simp: blame_inv_def all_regions_def line_shas_def)
  then show ?thesis using None assms
    by (simp add: blame_inv_def all_regions_def blame_group_def Let_def line_shas_def new_region_def)
next
  case (Some r)
  have inv: "spans i (bs_regions b) (br_start r)" "1 \<le> br_count r" "br_start r + br_count r = j"
      "line_shas (bs_regions b) @ replicate (nat (br_count r)) (br_sha r) = shas" "bs_lines b = ls"
      "distinct_adj (map br_sha (bs_regions b @ [r]))"
    using assms Some by (auto simp: blame_inv_def all_regions_def spans_append line_shas_def)
  show ?thesis
  proof (cases "br_sha r = sha")
    case True
    have "replicate (nat (br_count r + 1)) sha = replicate (nat (br_count r)) sha @ [sha]"
      using inv(2) by (simp add: nat_add_distrib replicate_append_same flip: replicate_Suc)
    then show ?thesis
      using Some True inv by (auto simp: blame_inv_def all_regions_def blame_group_def Let_def line_shas_def spans_append)
  next
    case False
    have "distinct_adj (map br_sha (bs_regions b @ [r, new_region j sha]))"
      using inv(6) False by (simp add: distinct_adj_append_iff new_region_def)
    then show ?thesis
      using Some False inv
      by (auto simp: blame_inv_def all_regions_def blame_group_def Let_def line_shas_def flush_region_def spans_append new_region_def)
        (use spans_append [of i "bs_regions b @ [r]" "new_region j sha" "j + 1"] in \<open>simp_all add: new_region_def spans_append\<close>)
  qed
qed

lemma blame_lines_append:
  "blame_lines (xs @ ys) b = (case blame_lines xs b of None \<Rightarrow> None | Some b' \<Rightarrow> blame_lines ys b')"
  by (induction xs arbitrary: b) (auto split: option.split)

lemma blame_tags_inv:
  assumes "list_all (\<lambda>t. t \<noteq> [] \<and> hd t \<noteq> CHR 0x09 \<and> newline \<notin> set t \<and> \<not> group_header t) ts" "blame_inv i j shas ls b"
  shows "\<exists>b'. blame_lines ts b = Some b' \<and> blame_inv i j shas ls b'"
  using assms
proof (induction ts arbitrary: b)
  case (Cons t ts)
  obtain b1 where "blame_line t b = Some b1" "blame_inv i j shas ls b1"
    using Cons.prems
    by (cases "gm_get (bs_metas b) (bs_group b)")
      (auto simp: blame_line_def Let_def group_header_def blame_inv_def all_regions_def split: option.splits)
  then show ?case using Cons.IH [of b1] Cons.prems by simp
qed simp

lemma blamed_lines_inv:
  assumes "blamed_ok x" "- (2 ^ 63) \<le> j" "j < 2 ^ 63" "blame_inv i j shas ls b"
  shows "\<exists>b'. blame_lines (blamed_lines x j) b = Some b' \<and> blame_inv i (j + 1) (shas @ [bl_sha x]) (ls @ [bl_text x]) b'"
proof -
  obtain c cs where "bl_sha x = c # cs" "is_hex c"
    using assms(1) by (cases "bl_sha x") (auto simp: blamed_ok_def)
  then have head: "blame_header x j \<noteq> []" "hd (blame_header x j) \<noteq> CHR 0x09"
    by (auto simp: blame_header_def is_hex_def less_eq_char_def)
  have "length (bl_sha x) = 40" "list_all is_hex (bl_sha x)" using assms(1) by (simp_all add: blamed_ok_def)
  then have "blame_line (blame_header x j) b = Some (blame_group (bl_sha x) j b)"
    using head assms(2,3) by (simp add: blame_line_def blame_header_fields [OF assms(1)] Let_def go_atoi_show)
  moreover obtain b1 where b1: "blame_lines (bl_tagged x) (blame_group (bl_sha x) j b) = Some b1"
      "blame_inv i (j + 1) (shas @ [bl_sha x]) ls b1"
    using blame_tags_inv [OF _ blame_group_inv [OF assms(4)]] assms(1) by (auto simp: blamed_ok_def)
  moreover have "blame_line (CHR 0x09 # bl_text x) b1 = Some (b1\<lparr>bs_lines := ls @ [bl_text x]\<rparr>)"
    using b1(2) by (simp add: blame_line_def blame_inv_def)
  moreover have "blame_inv i (j + 1) (shas @ [bl_sha x]) (ls @ [bl_text x]) (b1\<lparr>bs_lines := ls @ [bl_text x]\<rparr>)"
    using b1(2) by (simp add: blame_inv_def all_regions_def)
  ultimately show ?thesis by (simp add: blamed_lines_def blame_lines_append)
qed

lemma go_split_lines:
  "(\<And>l. l \<in> set ls \<Longrightarrow> newline \<notin> set l) \<Longrightarrow> go_split newline (concat (map (\<lambda>l. l @ [newline]) ls) @ t) = ls @ go_split newline t"
  by (induction ls) (auto simp: go_split_append)

lemma blamed_lines_free:
  assumes "blamed_ok x" "l \<in> set (blamed_lines x j)"
  shows "newline \<notin> set l"
proof -
  have "newline \<notin> set w" if "w \<in> set (bl_sha x # bl_orig x # show_int j # bl_more x)" for w
    using that assms(1) show_int_free(2) word_ok_hex
    by (auto simp: blamed_ok_def word_ok_def list_all_iff is_space_def)
  then have "newline \<notin> set (blame_header x j)"
    unfolding blame_header_def using set_go_join [of "'' ''" "bl_sha x # bl_orig x # show_int j # bl_more x"] by auto
  then show ?thesis using assms by (auto simp: blamed_lines_def blamed_ok_def list_all_iff)
qed

lemma blame_text_inv:
  assumes "list_all blamed_ok xs" "- (2 ^ 63) \<le> j" "j + int (length xs) \<le> 2 ^ 63" "blame_inv i j shas ls b"
  shows "\<exists>b'. blame_lines (go_split newline (blame_text xs j)) b = Some b'
     \<and> blame_inv i (j + int (length xs)) (shas @ map bl_sha xs) (ls @ map bl_text xs) b'"
  using assms
proof (induction xs arbitrary: j shas ls b)
  case Nil
  then show ?case by (simp add: blame_line_def)
next
  case (Cons x xs)
  obtain b1 where b1: "blame_lines (blamed_lines x j) b = Some b1" "blame_inv i (j + 1) (shas @ [bl_sha x]) (ls @ [bl_text x]) b1"
    using blamed_lines_inv [of x j i shas ls b] Cons.prems by auto
  have "blame_lines (go_split newline (blame_text (x # xs) j)) b = blame_lines (go_split newline (blame_text xs (j + 1))) b1"
    using go_split_lines [of "blamed_lines x j"] blamed_lines_free [of x _ j] Cons.prems(1) b1(1)
    by (simp add: blame_lines_append)
  then show ?case using Cons.IH [OF _ _ _ b1(2)] Cons.prems by (auto simp: algebra_simps)
qed

lemma describe_region_keeps [simp]:
  "br_sha (describe_region ms r) = br_sha r" "br_start (describe_region ms r) = br_start r" "br_count (describe_region ms r) = br_count r"
  by (auto simp: describe_region_def split: option.split)

lemma spans_describe [simp]: "spans i (map (describe_region ms) rs) j = spans i rs j"
  by (induction rs arbitrary: i) auto

text \<open>Blame regions tile the file: reading what git prints for a file, line after line, gives the lines as they are,
  and regions that start at the first line, leave no gap and do not overlap, give every line the commit git
  gave it, and are maximal, since neighbours differ in their commit.\<close>
theorem blame_regions_cover:
  assumes "list_all blamed_ok xs" "int (length xs) < 2 ^ 63"
  shows "\<exists>regions. parse_blame_porcelain (blame_text xs 1) = Some (regions, map bl_text xs)
     \<and> spans 1 regions (1 + int (length xs)) \<and> line_shas regions = map bl_sha xs \<and> distinct_adj (map br_sha regions)"
proof -
  have "blame_inv 1 1 [] [] blame_start" by (simp add: blame_inv_def blame_start_def all_regions_def line_shas_def)
  then obtain b where b: "blame_lines (go_split newline (blame_text xs 1)) blame_start = Some b"
      "blame_inv 1 (1 + int (length xs)) (map bl_sha xs) (map bl_text xs) b"
    using blame_text_inv [OF assms(1), of 1 1 "[]" "[]" blame_start] assms(2) by auto
  let ?rs = "map (describe_region (bs_metas (flush_region b))) (all_regions b)"
  have "parse_blame_porcelain (blame_text xs 1) = Some (?rs, map bl_text xs)"
    using b by (auto simp: parse_blame_porcelain_def Let_def flush_region_def blame_inv_def all_regions_def split: option.split)
  moreover have "spans 1 ?rs (1 + int (length xs))" "line_shas ?rs = map bl_sha xs" "distinct_adj (map br_sha ?rs)"
    using b(2) by (simp_all add: blame_inv_def line_shas_def o_def)
  ultimately show ?thesis by blast
qed

definition demo_blame :: "blamed_line list" where
  "demo_blame = [\<lparr>bl_sha = replicate 40 CHR ''a'', bl_orig = ''3'', bl_more = [''2''], bl_tagged = [''author Ann'', ''summary fix''], bl_text = ''x''\<rparr>,
     \<lparr>bl_sha = replicate 40 CHR ''a'', bl_orig = ''4'', bl_more = [], bl_tagged = [], bl_text = []\<rparr>,
     \<lparr>bl_sha = replicate 40 CHR ''b'', bl_orig = ''1'', bl_more = [''1''], bl_tagged = [''author Bob''], bl_text = ''y''\<rparr>]"

theorem blame_regions_cover_witness:
  "\<exists>regions. parse_blame_porcelain (blame_text demo_blame 1) = Some (regions, [''x'', [], ''y''])
     \<and> line_shas regions = [replicate 40 CHR ''a'', replicate 40 CHR ''a'', replicate 40 CHR ''b'']"
proof -
  have "list_all blamed_ok demo_blame" by code_simp
  moreover have "int (length demo_blame) < 2 ^ 63" by (simp add: demo_blame_def)
  ultimately show ?thesis using blame_regions_cover [of demo_blame] by (auto simp: demo_blame_def)
qed

end
