(* ===== verification/Diff.thy ===== *)
theory Diff
  imports History
begin

text \<open>
  The per-Change diff of the review page (\<open>runkod/diff.go\<close>): a patch printed by git, read line by line into
  files, hunks and numbered lines.
\<close>

section \<open>Data\<close>

datatype line_type = Context | Added | Removed

record shown_line =
  dl_type :: line_type
  dl_content :: string
  dl_old :: int
  dl_new :: int

record diff_hunk =
  dh_old_start :: int
  dh_old_lines :: int
  dh_new_start :: int
  dh_new_lines :: int
  dh_header :: string
  dh_lines :: "shown_line list"

record file_diff =
  fd_path :: string
  fd_old_path :: string
  fd_status :: string
  fd_binary :: bool
  fd_hunks :: "diff_hunk list"
  fd_adds :: int
  fd_dels :: int

section \<open>Headers\<close>

text \<open>\<open>strings.Cut\<close> and the cut at \<open>strings.LastIndex\<close>.\<close>

fun cut_first :: "string \<Rightarrow> string \<Rightarrow> (string \<times> string) option" where
  "cut_first sep [] = (if sep = [] then Some ([], []) else None)"
| "cut_first sep (c # cs) =
     (case go_cut_prefix (c # cs) sep of
        Some r \<Rightarrow> Some ([], r)
      | None \<Rightarrow> (case cut_first sep cs of None \<Rightarrow> None | Some (a, b) \<Rightarrow> Some (c # a, b)))"

fun cut_final :: "string \<Rightarrow> string \<Rightarrow> (string \<times> string) option" where
  "cut_final sep [] = (if sep = [] then Some ([], []) else None)"
| "cut_final sep (c # cs) =
     (case cut_final sep cs of
        Some (a, b) \<Rightarrow> Some (c # a, b)
      | None \<Rightarrow> (case go_cut_prefix (c # cs) sep of Some r \<Rightarrow> Some ([], r) | None \<Rightarrow> None))"

definition split_diff_git_paths :: "string \<Rightarrow> (string \<times> string) option" where
  "split_diff_git_paths line =
     (case go_cut_prefix line ''diff --git a/'' of None \<Rightarrow> None | Some rest \<Rightarrow> cut_final '' b/'' rest)"

definition parse_hunk_range :: "string \<Rightarrow> (int \<times> int) option" where
  "parse_hunk_range s =
     (case go_cut CHR '','' s of
        None \<Rightarrow> (case go_atoi s of None \<Rightarrow> None | Some start \<Rightarrow> Some (start, 1))
      | Some (a, b) \<Rightarrow> (case (go_atoi a, go_atoi b) of (Some start, Some n) \<Rightarrow> Some (start, n) | _ \<Rightarrow> None))"

definition parse_hunk_header :: "string \<Rightarrow> diff_hunk option" where
  "parse_hunk_header line =
     (case go_cut_prefix line ''@@ '' of
        None \<Rightarrow> None
      | Some rest \<Rightarrow>
          (case cut_first '' @@'' rest of
             None \<Rightarrow> None
           | Some (marks, header) \<Rightarrow>
               (case go_cut CHR '' '' marks of
                  None \<Rightarrow> None
                | Some (old_part, new_part) \<Rightarrow>
                    (case (go_cut_prefix old_part ''-'', go_cut_prefix new_part ''+'') of
                       (Some o1, Some n1) \<Rightarrow>
                         (case (parse_hunk_range o1, parse_hunk_range n1) of
                            (Some (os, ol), Some (ns, nl)) \<Rightarrow>
                              Some \<lparr>dh_old_start = os, dh_old_lines = ol, dh_new_start = ns, dh_new_lines = nl,
                                dh_header = (case go_cut_prefix header '' '' of Some h \<Rightarrow> h | None \<Rightarrow> header), dh_lines = []\<rparr>
                          | _ \<Rightarrow> None)
                     | _ \<Rightarrow> None))))"

section \<open>The patch\<close>

record diff_state =
  ds_files :: "file_diff list"
  ds_cur :: "file_diff option"
  ds_hunk :: "diff_hunk option"
  ds_old :: int
  ds_new :: int

definition diff_start :: diff_state where
  "diff_start = \<lparr>ds_files = [], ds_cur = None, ds_hunk = None, ds_old = 0, ds_new = 0\<rparr>"

definition flush_hunk :: "diff_state \<Rightarrow> diff_state" where
  "flush_hunk d =
     (case (ds_cur d, ds_hunk d) of
        (Some f, Some h) \<Rightarrow> d\<lparr>ds_cur := Some (f\<lparr>fd_hunks := fd_hunks f @ [h]\<rparr>), ds_hunk := None\<rparr>
      | _ \<Rightarrow> d\<lparr>ds_hunk := None\<rparr>)"

definition flush_file :: "diff_state \<Rightarrow> diff_state" where
  "flush_file d0 =
     (let d = flush_hunk d0 in
      case ds_cur d of None \<Rightarrow> d | Some f \<Rightarrow> d\<lparr>ds_files := ds_files d @ [f], ds_cur := None\<rparr>)"

definition new_file_diff :: "string \<Rightarrow> file_diff" where
  "new_file_diff line =
     (let f = \<lparr>fd_path = [], fd_old_path = [], fd_status = ''modified'', fd_binary = False, fd_hunks = [], fd_adds = 0, fd_dels = 0\<rparr>
      in case split_diff_git_paths line of
           None \<Rightarrow> f
         | Some (a, b) \<Rightarrow> if a \<noteq> b then f\<lparr>fd_path := b, fd_old_path := a\<rparr> else f\<lparr>fd_path := b\<rparr>)"

text \<open>The extended headers, before a hunk and, the two path lines, also inside one.\<close>

definition file_header :: "string \<Rightarrow> file_diff \<Rightarrow> file_diff option" where
  "file_header line f =
     (if prefix ''new file mode '' line then Some (f\<lparr>fd_status := ''added''\<rparr>)
      else if prefix ''deleted file mode '' line then Some (f\<lparr>fd_status := ''deleted''\<rparr>)
      else case go_cut_prefix line ''rename from '' of
        Some p \<Rightarrow> Some (f\<lparr>fd_status := ''renamed'', fd_old_path := p\<rparr>)
      | None \<Rightarrow>
      case go_cut_prefix line ''rename to '' of
        Some p \<Rightarrow> Some (f\<lparr>fd_status := ''renamed'', fd_path := p\<rparr>)
      | None \<Rightarrow>
      if prefix ''Binary files '' line \<or> line = ''GIT binary patch'' then Some (f\<lparr>fd_binary := True\<rparr>)
      else if prefix ''--- '' line
        then Some (case go_cut_prefix line ''--- a/'' of Some p \<Rightarrow> if fd_status f = ''deleted'' then f\<lparr>fd_path := p\<rparr> else f | None \<Rightarrow> f)
      else if prefix ''+++ '' line
        then Some (case go_cut_prefix line ''+++ b/'' of Some p \<Rightarrow> f\<lparr>fd_path := p\<rparr> | None \<Rightarrow> f)
      else None)"

definition add_line :: "shown_line \<Rightarrow> diff_hunk \<Rightarrow> diff_hunk" where
  "add_line l h = h\<lparr>dh_lines := dh_lines h @ [l]\<rparr>"

definition hunk_line :: "char \<Rightarrow> string \<Rightarrow> file_diff \<Rightarrow> diff_hunk \<Rightarrow> diff_state \<Rightarrow> diff_state" where
  "hunk_line marker content f h d =
     (if marker = CHR ''+''
        then d\<lparr>ds_cur := Some (f\<lparr>fd_adds := fd_adds f + 1\<rparr>), ds_new := ds_new d + 1,
               ds_hunk := Some (add_line \<lparr>dl_type = Added, dl_content = content, dl_old = 0, dl_new = ds_new d\<rparr> h)\<rparr>
      else if marker = CHR ''-''
        then d\<lparr>ds_cur := Some (f\<lparr>fd_dels := fd_dels f + 1\<rparr>), ds_old := ds_old d + 1,
               ds_hunk := Some (add_line \<lparr>dl_type = Removed, dl_content = content, dl_old = ds_old d, dl_new = 0\<rparr> h)\<rparr>
      else if marker = CHR '' ''
        then d\<lparr>ds_old := ds_old d + 1, ds_new := ds_new d + 1,
               ds_hunk := Some (add_line \<lparr>dl_type = Context, dl_content = content, dl_old = ds_old d, dl_new = ds_new d\<rparr> h)\<rparr>
      else d)"

definition patch_line :: "string \<Rightarrow> diff_state \<Rightarrow> diff_state option" where
  "patch_line line d =
     (if prefix ''diff --git '' line then Some ((flush_file d)\<lparr>ds_cur := Some (new_file_diff line)\<rparr>)
      else case ds_cur d of
        None \<Rightarrow> Some d
      | Some f \<Rightarrow>
          (case file_header line f of
             Some f' \<Rightarrow> Some (d\<lparr>ds_cur := Some f'\<rparr>)
           | None \<Rightarrow>
               if prefix ''@@ '' line then
                 (case parse_hunk_header line of
                    None \<Rightarrow> None
                  | Some h \<Rightarrow> Some ((flush_hunk d)\<lparr>ds_hunk := Some h, ds_old := dh_old_start h, ds_new := dh_new_start h\<rparr>))
               else (case (ds_hunk d, line) of (Some h, m # content) \<Rightarrow> Some (hunk_line m content f h d) | _ \<Rightarrow> Some d)))"

fun patch_lines :: "string list \<Rightarrow> diff_state \<Rightarrow> diff_state option" where
  "patch_lines [] d = Some d"
| "patch_lines (l # ls) d = (case patch_line l d of None \<Rightarrow> None | Some d' \<Rightarrow> patch_lines ls d')"

definition parse_unified_diff :: "string \<Rightarrow> file_diff list option" where
  "parse_unified_diff patch = map_option (\<lambda>d. ds_files (flush_file d)) (patch_lines (go_split newline patch) diff_start)"

definition compute_change_diff :: "'w git_out \<Rightarrow> 'w \<Rightarrow> string \<Rightarrow> string \<Rightarrow> file_diff list option" where
  "compute_change_diff git w base head =
     (case git w [''-c'', ''core.quotePath=false'', ''diff'', ''-M'', ''--no-color'', ''--no-ext-diff'',
                  (if base = [] then empty_tree_oid else base), head] of
        None \<Rightarrow> None | Some out \<Rightarrow> parse_unified_diff out)"

section \<open>Numbering\<close>

text \<open>The numbers the two sides of a hunk carry, line by line, and the counts of a file.\<close>

fun numbered_lines :: "int \<Rightarrow> int \<Rightarrow> shown_line list \<Rightarrow> bool" where
  "numbered_lines o1 n1 [] \<longleftrightarrow> True"
| "numbered_lines o1 n1 (l # ls) \<longleftrightarrow>
     (case dl_type l of
        Context \<Rightarrow> dl_old l = o1 \<and> dl_new l = n1 \<and> numbered_lines (o1 + 1) (n1 + 1) ls
      | Added \<Rightarrow> dl_old l = 0 \<and> dl_new l = n1 \<and> numbered_lines o1 (n1 + 1) ls
      | Removed \<Rightarrow> dl_old l = o1 \<and> dl_new l = 0 \<and> numbered_lines (o1 + 1) n1 ls)"

definition count_type :: "line_type \<Rightarrow> shown_line list \<Rightarrow> int" where
  "count_type t ls = int (length (filter (\<lambda>l. dl_type l = t) ls))"

definition hunk_numbered :: "diff_hunk \<Rightarrow> bool" where
  "hunk_numbered h \<longleftrightarrow> numbered_lines (dh_old_start h) (dh_new_start h) (dh_lines h)"

definition file_numbered :: "file_diff \<Rightarrow> bool" where
  "file_numbered f \<longleftrightarrow> list_all hunk_numbered (fd_hunks f)
     \<and> fd_adds f = count_type Added (concat (map dh_lines (fd_hunks f)))
     \<and> fd_dels f = count_type Removed (concat (map dh_lines (fd_hunks f)))"

lemma numbered_snoc:
  "numbered_lines o1 n1 (ls @ [l]) \<longleftrightarrow> numbered_lines o1 n1 ls
     \<and> (case dl_type l of
          Context \<Rightarrow> dl_old l = o1 + count_type Context ls + count_type Removed ls \<and> dl_new l = n1 + count_type Context ls + count_type Added ls
        | Added \<Rightarrow> dl_old l = 0 \<and> dl_new l = n1 + count_type Context ls + count_type Added ls
        | Removed \<Rightarrow> dl_old l = o1 + count_type Context ls + count_type Removed ls \<and> dl_new l = 0)"
  by (induction ls arbitrary: o1 n1) (auto simp: count_type_def algebra_simps split: line_type.splits)

lemma count_type_simps [simp]:
  "count_type t [] = 0" "count_type t (xs @ ys) = count_type t xs + count_type t ys"
  "count_type t [l] = (if dl_type l = t then 1 else 0)"
  by (simp_all add: count_type_def)

text \<open>Between two lines: the file so far with the hunk in progress is numbered, and the counters stand behind it.\<close>

definition hunk_in_progress :: "diff_state \<Rightarrow> diff_hunk \<Rightarrow> bool" where
  "hunk_in_progress d h \<longleftrightarrow> hunk_numbered h
     \<and> ds_old d = dh_old_start h + count_type Context (dh_lines h) + count_type Removed (dh_lines h)
     \<and> ds_new d = dh_new_start h + count_type Context (dh_lines h) + count_type Added (dh_lines h)"

definition with_hunk :: "diff_hunk option \<Rightarrow> file_diff \<Rightarrow> file_diff" where
  "with_hunk ho f = (case ho of None \<Rightarrow> f | Some h \<Rightarrow> f\<lparr>fd_hunks := fd_hunks f @ [h]\<rparr>)"

definition diff_inv :: "diff_state \<Rightarrow> bool" where
  "diff_inv d \<longleftrightarrow> list_all file_numbered (ds_files d)
     \<and> (case ds_cur d of None \<Rightarrow> ds_hunk d = None | Some f \<Rightarrow> file_numbered (with_hunk (ds_hunk d) f))
     \<and> (case ds_hunk d of None \<Rightarrow> True | Some h \<Rightarrow> hunk_in_progress d h)"

lemma flush_hunk_inv:
  assumes "diff_inv d"
  shows "diff_inv (flush_hunk d)" "ds_hunk (flush_hunk d) = None" "ds_files (flush_hunk d) = ds_files d"
    "ds_cur (flush_hunk d) = None \<longleftrightarrow> ds_cur d = None"
  using assms by (auto simp: flush_hunk_def diff_inv_def with_hunk_def split: option.splits)

lemma flush_file_inv:
  assumes "diff_inv d"
  shows "diff_inv (flush_file d)" "ds_cur (flush_file d) = None" "ds_hunk (flush_file d) = None"
  using flush_hunk_inv [OF assms] by (auto simp: flush_file_def Let_def diff_inv_def with_hunk_def split: option.splits)

lemma file_header_keeps:
  assumes "file_header line f = Some f'"
  shows "fd_hunks f' = fd_hunks f" "fd_adds f' = fd_adds f" "fd_dels f' = fd_dels f"
  using assms by (auto simp: file_header_def split: if_splits option.splits)

lemma header_empty: "parse_hunk_header line = Some h \<Longrightarrow> dh_lines h = []"
  by (auto simp: parse_hunk_header_def split: option.splits prod.splits)

lemma with_hunk_file:
  "file_numbered (with_hunk (Some h) f) \<longleftrightarrow> list_all hunk_numbered (fd_hunks f) \<and> hunk_numbered h
     \<and> fd_adds f = count_type Added (concat (map dh_lines (fd_hunks f))) + count_type Added (dh_lines h)
     \<and> fd_dels f = count_type Removed (concat (map dh_lines (fd_hunks f))) + count_type Removed (dh_lines h)"
  by (auto simp: file_numbered_def with_hunk_def)

lemma hunk_line_inv:
  assumes "diff_inv d" "ds_cur d = Some f" "ds_hunk d = Some h"
  shows "diff_inv (hunk_line m content f h d)"
proof -
  have inv: "list_all file_numbered (ds_files d)" "file_numbered (with_hunk (Some h) f)" "hunk_in_progress d h"
    using assms by (auto simp: diff_inv_def)
  have "hunk_in_progress (hunk_line m content f h d) h'" "file_numbered (with_hunk (Some h') f')"
    if "ds_hunk (hunk_line m content f h d) = Some h'" "ds_cur (hunk_line m content f h d) = Some f'" for h' f'
    using that inv(2,3) assms(2,3)
    by (auto simp: hunk_line_def hunk_in_progress_def with_hunk_file hunk_numbered_def add_line_def numbered_snoc split: if_splits)
  moreover have "ds_hunk (hunk_line m content f h d) \<noteq> None" "ds_cur (hunk_line m content f h d) \<noteq> None"
      "ds_files (hunk_line m content f h d) = ds_files d"
    using assms(2,3) by (auto simp: hunk_line_def)
  ultimately show ?thesis using inv(1) by (auto simp: diff_inv_def)
qed

lemma patch_line_inv:
  assumes "diff_inv d" "patch_line line d = Some d'"
  shows "diff_inv d'"
proof (cases "prefix ''diff --git '' line")
  case True
  then have "d' = (flush_file d)\<lparr>ds_cur := Some (new_file_diff line)\<rparr>" using assms(2) by (simp add: patch_line_def)
  moreover have "file_numbered (new_file_diff line)"
    by (auto simp: new_file_diff_def file_numbered_def Let_def split: option.splits)
  ultimately show ?thesis using flush_file_inv [OF assms(1)] by (auto simp: diff_inv_def with_hunk_def)
next
  case False
  show ?thesis
  proof (cases "ds_cur d")
    case None
    then show ?thesis using False assms by (simp add: patch_line_def)
  next
    case (Some f)
    have f: "file_numbered (with_hunk (ds_hunk d) f)" using assms(1) Some by (simp add: diff_inv_def)
    show ?thesis
    proof (cases "file_header line f")
      case head: (Some f')
      then have "file_numbered (with_hunk (ds_hunk d) f')"
        using f file_header_keeps [OF head] by (auto simp: file_numbered_def with_hunk_def split: option.splits)
      moreover have "d' = d\<lparr>ds_cur := Some f'\<rparr>" using assms(2) False Some head by (simp add: patch_line_def)
      ultimately show ?thesis using assms(1) Some
        by (auto simp: diff_inv_def hunk_in_progress_def split: option.splits)
    next
      case none: None
      show ?thesis
      proof (cases "prefix ''@@ '' line")
        case True
        then obtain h where h: "parse_hunk_header line = Some h"
            "d' = (flush_hunk d)\<lparr>ds_hunk := Some h, ds_old := dh_old_start h, ds_new := dh_new_start h\<rparr>"
          using assms(2) False Some none by (auto simp: patch_line_def split: option.splits)
        have "dh_lines h = []" using header_empty [OF h(1)] .
        moreover obtain f' where "ds_cur (flush_hunk d) = Some f'" "file_numbered f'"
          using flush_hunk_inv [OF assms(1)] Some by (auto simp: diff_inv_def with_hunk_def)
        ultimately show ?thesis
          using h(2) flush_hunk_inv(1-3) [OF assms(1)]
          by (auto simp: diff_inv_def with_hunk_def file_numbered_def hunk_in_progress_def hunk_numbered_def)
      next
        case False': False
        show ?thesis
        proof (cases "ds_hunk d")
          case None
          then show ?thesis using assms False False' Some none by (simp add: patch_line_def)
        next
          case hunk: (Some h)
          have "patch_line line d = (case line of [] \<Rightarrow> Some d | m # content \<Rightarrow> Some (hunk_line m content f h d))"
            unfolding patch_line_def if_not_P [OF False] if_not_P [OF False'] Some option.case none hunk
            by (cases line) simp_all
          then show ?thesis
            using assms hunk_line_inv [OF assms(1) Some hunk] by (auto split: list.splits)
        qed
      qed
    qed
  qed
qed

lemma patch_lines_inv: "patch_lines ls d = Some d' \<Longrightarrow> diff_inv d \<Longrightarrow> diff_inv d'"
  by (induction ls arbitrary: d) (auto split: option.splits intro: patch_line_inv)

text \<open>C28. A parsed diff is consistently numbered, whatever text it was parsed from: in every hunk the old-side
  numbers of context and removed lines and the new-side numbers of context and added lines count up by one
  from the starts its header names, a line that is missing on a side has number 0 there, and the
  additions and deletions of a file are the added and removed lines of its hunks.\<close>
theorem diff_numbered:
  assumes "parse_unified_diff patch = Some files" "f \<in> set files"
  shows "fd_adds f = count_type Added (concat (map dh_lines (fd_hunks f)))
     \<and> fd_dels f = count_type Removed (concat (map dh_lines (fd_hunks f)))
     \<and> (\<forall>h\<in>set (fd_hunks f). numbered_lines (dh_old_start h) (dh_new_start h) (dh_lines h))"
proof -
  obtain d where d: "patch_lines (go_split newline patch) diff_start = Some d" "files = ds_files (flush_file d)"
    using assms(1) by (auto simp: parse_unified_diff_def)
  have "diff_inv diff_start" by (simp add: diff_inv_def diff_start_def)
  then have "diff_inv (flush_file d)" using patch_lines_inv [OF d(1)] flush_file_inv(1) by blast
  then have "file_numbered f" using assms(2) d(2) by (auto simp: diff_inv_def list_all_iff)
  then show ?thesis by (auto simp: file_numbered_def hunk_numbered_def list_all_iff)
qed

definition demo_patch :: string where
  "demo_patch = go_join [newline] [''diff --git a/q.sql b/q.sql'', ''--- a/q.sql'', ''+++ b/q.sql'', ''@@ -1,3 +1,2 @@'', '' select'',
     ''-from a'', ''+from b'', ''--- old note'', []]"

theorem diff_numbered_witness:
  "\<exists>f. parse_unified_diff demo_patch = Some [f] \<and> fd_dels f = 1 \<and> count_type Removed (concat (map dh_lines (fd_hunks f))) = 1"
proof -
  have "(case parse_unified_diff demo_patch of Some [f] \<Rightarrow> fd_dels f = 1 | _ \<Rightarrow> False)" by code_simp
  then obtain f where f: "parse_unified_diff demo_patch = Some [f]" "fd_dels f = 1"
    by (auto split: option.splits list.splits)
  from diff_numbered [OF f(1)] show ?thesis using f by simp
qed

section \<open>Content read as a header\<close>

text \<open>A removed line whose text starts with two dashes and a space prints as a path line, and is dropped: the
  third old line of the demonstration is missing from the diff. An added line that prints as
  \<open>+++ b/<path>\<close> renames the file in the diff.\<close>

lemma removed_comment_dropped:
  "map (\<lambda>f. map (map dl_content \<circ> dh_lines) (fd_hunks f)) (the (parse_unified_diff demo_patch)) = [[[''select'', ''from a'', ''from b'']]]"
  by code_simp

lemma added_line_renames:
  assumes "ds_cur d = Some f" "patch_line (''+++ b/'' @ p) d = Some d'"
  shows "ds_cur d' = Some (f\<lparr>fd_path := p\<rparr>) \<and> ds_hunk d' = ds_hunk d"
  using assms by (auto simp: patch_line_def file_header_def go_cut_prefix_def)

end
