(* ===== verification/Release.thy ===== *)
theory Release
  imports History
begin

text \<open>
  Releases (\<open>runkod/release.go\<close>, \<open>createReleaseCore\<close> in \<open>runkod/actions.go\<close>, \<open>platform/project/release.go\<close>,
  \<open>internal/gitstore/tag.go\<close>): the configuration a manifest gives, the next version, the changelog from
  landed Changes, the annotated tag and the row.
\<close>

section \<open>Configuration\<close>

record release_config =
  rg_tag_prefix :: string
  rg_versioning :: string
  rg_changelog :: string

definition chosen :: "(string \<times> yaml_value) list \<Rightarrow> string \<Rightarrow> (string \<Rightarrow> bool) \<Rightarrow> string \<Rightarrow> string" where
  "chosen m key good def = (case gm_get m key of Some (YStr v) \<Rightarrow> if good v then v else def | _ \<Rightarrow> def)"

definition release_config_of :: "manifest \<Rightarrow> string \<Rightarrow> release_config option" where
  "release_config_of m path =
     (if \<not> has_capability (mf_capabilities m) ''release'' then None
      else (let cfg = as_map (gm_get (mf_config m) ''release'')
            in Some \<lparr>rg_tag_prefix = chosen cfg ''tag_prefix'' (\<lambda>v. v \<noteq> []) (path @ ''/v''),
                 rg_versioning = chosen cfg ''versioning'' (\<lambda>v. v = ''semver'' \<or> v = ''manual'') ''semver'',
                 rg_changelog = chosen cfg ''changelog'' (\<lambda>v. v = ''from-changes'' \<or> v = ''none'') ''from-changes''\<rparr>))"

section \<open>Versions\<close>

definition semver_parts :: "string \<Rightarrow> (string \<times> string \<times> string) option" where
  "semver_parts v =
     (case go_split CHR ''.'' v of
        [a, b, c] \<Rightarrow> if list_all (\<lambda>x. x \<noteq> [] \<and> list_all is_digit x) [a, b, c] then Some (a, b, c) else None
      | _ \<Rightarrow> None)"

text \<open>The patch number is read with its error dropped and incremented in 64 bits.\<close>

definition bump_patch :: "string \<Rightarrow> int" where
  "bump_patch c = sint (word_of_int (atoi_kept c) + 1 :: 64 word)"

definition next_version :: "string \<Rightarrow> release_config \<Rightarrow> release option \<Rightarrow> api_error + string" where
  "next_version explicit cfg latest =
     (if explicit \<noteq> []
      then (if rg_versioning cfg = ''semver'' \<and> semver_parts explicit = None then Inl (typed_err 400 ''invalid_version'') else Inr explicit)
      else if rg_versioning cfg = ''manual'' then Inl (typed_err 400 ''missing_field'')
      else case latest of
             None \<Rightarrow> Inr ''0.1.0''
           | Some r \<Rightarrow>
               (case semver_parts (rl_version r) of
                  None \<Rightarrow> Inl (typed_err 409 ''invalid_version'')
                | Some (a, b, c) \<Rightarrow> Inr (a @ ''.'' @ b @ ''.'' @ show_int (bump_patch c))))"

section \<open>Changelog\<close>

definition changelog_max_commits :: int where "changelog_max_commits = 200"

definition commits_since :: "'w git_out \<Rightarrow> 'w \<Rightarrow> string \<Rightarrow> string \<Rightarrow> string \<Rightarrow> int \<Rightarrow> commit_info list option" where
  "commits_since git w r since path limit =
     map_option parse_log_records
       (git w ([''log'', ''--format='' @ log_format, ''--max-count='' @ show_int limit]
               @ [if since \<noteq> [] then since @ ''..'' @ r else r] @ (if path \<noteq> [] then [''--'', path] else [])))"

text \<open>The key of the landed Change behind a commit, or nothing.\<close>

definition landed_key :: "mem_store \<Rightarrow> commit_info \<Rightarrow> string" where
  "landed_key s c =
     (if ci_change c = [] then []
      else case get_change s (ci_change c) of
             None \<Rightarrow> [] | Some row \<Rightarrow> if ch_state row = state_landed then ci_change c else [])"

definition changelog_line :: "mem_store \<Rightarrow> commit_info \<Rightarrow> string" where
  "changelog_line s c =
     (let key = landed_key s c
      in ''- '' @ ci_subject c @ (if key \<noteq> [] then '' ('' @ key @ '')'' else []) @ [newline])"

definition derive_changelog :: "mem_store \<Rightarrow> string \<Rightarrow> commit_info list \<Rightarrow> string \<times> string" where
  "derive_changelog s version commits =
     (''## '' @ version @ [newline] @ concat (map (changelog_line s) commits),
      case filter (\<lambda>k. k \<noteq> []) (map (landed_key s) commits) of [] \<Rightarrow> [] | k # _ \<Rightarrow> k)"

section \<open>Tags\<close>

text \<open>What running \<open>git tag -a\<close> answers.\<close>

datatype tag_run = TagDone | TagTaken | TagFailed
datatype tag_answer = TagMade string | TagExists | TagBroken

record 'w release_git =
  rt_git :: "'w git_out"
  rt_manifest :: "'w \<Rightarrow> string \<Rightarrow> string \<Rightarrow> manifest option"
  rt_tag :: "string \<Rightarrow> string \<Rightarrow> string \<Rightarrow> 'w \<Rightarrow> tag_run \<times> 'w"

definition tag_ref :: "string \<Rightarrow> string" where
  "tag_ref name = ''refs/tags/'' @ name"

definition create_annotated_tag :: "'w git \<Rightarrow> 'w release_git \<Rightarrow> string \<Rightarrow> string \<Rightarrow> string \<Rightarrow> 'w \<Rightarrow> tag_answer \<times> 'w" where
  "create_annotated_tag g rg name target message w =
     (if g_resolve g w (tag_ref name) \<noteq> None then (TagExists, w)
      else case rt_tag rg name target message w of
             (TagTaken, w') \<Rightarrow> (TagExists, w')
           | (TagFailed, w') \<Rightarrow> (TagBroken, w')
           | (TagDone, w') \<Rightarrow> (case g_resolve g w' (tag_ref name) of None \<Rightarrow> (TagBroken, w') | Some x \<Rightarrow> (TagMade x, w')))"

section \<open>Creating a release\<close>

definition resolve_release_project ::
  "'w gate \<Rightarrow> 'w release_git \<Rightarrow> string \<Rightarrow> 'w \<Rightarrow> api_error + indexed_project \<times> release_config \<times> string" where
  "resolve_release_project g rg name w =
     (case trunk_tip g w of
        None \<Rightarrow> Inl (typed_err 409 ''trunk_unborn'')
      | Some tip \<Rightarrow>
          (case rd_index (gt_reads g) w tip of
             None \<Rightarrow> Inl internal_err
           | Some indexed \<Rightarrow>
               (case find (\<lambda>p. ip_name p = name) indexed of
                  None \<Rightarrow> Inl (typed_err 404 [])
                | Some p \<Rightarrow>
                    (case rt_manifest rg w tip (path_join [ip_path p, ''PROJECT.yaml'']) of
                       None \<Rightarrow> Inl internal_err
                     | Some m \<Rightarrow>
                         (case release_config_of m (ip_path p) of
                            None \<Rightarrow> Inl (typed_err 409 ''release_not_enabled'')
                          | Some cfg \<Rightarrow> Inr (p, cfg, tip))))))"

definition list_releases_core ::
  "'w gate \<Rightarrow> 'w release_git \<Rightarrow> 'w \<Rightarrow> mem_store \<Rightarrow> string \<Rightarrow> int \<Rightarrow> int \<Rightarrow> api_error + release list" where
  "list_releases_core g rg w s name limit offset =
     (case resolve_release_project g rg name w of Inl e \<Rightarrow> Inl e | Inr _ \<Rightarrow> Inr (list_releases s name limit offset))"

definition tag_denied :: "'w processor option \<Rightarrow> go_time \<Rightarrow> mem_store \<Rightarrow> caller option \<Rightarrow> bot_lane option \<Rightarrow> string \<Rightarrow> bool" where
  "tag_denied proc now s asker lane tag =
     (case proc of
        None \<Rightarrow> False
      | Some p \<Rightarrow> tag_policy_enforced p
          \<and> \<not> authorize_tag_write p now s (case asker of None \<Rightarrow> [] | Some a \<Rightarrow> pn_name a) (case lane of None \<Rightarrow> [] | Some l \<Rightarrow> bl_name l) tag)"

definition release_notes ::
  "'w release_git \<Rightarrow> 'w \<Rightarrow> mem_store \<Rightarrow> release_config \<Rightarrow> string \<Rightarrow> string \<Rightarrow> string \<Rightarrow> string \<Rightarrow> (string \<times> string) option" where
  "release_notes rg w s cfg name path tip version =
     (if rg_changelog cfg \<noteq> ''from-changes'' then Some ([], [])
      else (let since = (case get_latest_release s name of None \<Rightarrow> [] | Some r \<Rightarrow> rl_target_sha r)
            in map_option (derive_changelog s version) (commits_since (rt_git rg) w tip since path changelog_max_commits)))"

definition creator_name :: "caller option \<Rightarrow> bot_lane option \<Rightarrow> string" where
  "creator_name asker lane = (case asker of Some p \<Rightarrow> pn_name p | None \<Rightarrow> (case lane of Some l \<Rightarrow> bl_name l | None \<Rightarrow> []))"

definition record_release :: "'w server \<Rightarrow> go_time \<Rightarrow> release \<Rightarrow> 'w sys \<Rightarrow> ('w, release) reply" where
  "record_release sv now row y =
     (case create_release now row (sy_store y) of
        (Inl _, s) \<Rightarrow> refuse 409 ''version_exists'' (y\<lparr>sy_store := s\<rparr>)
      | (Inr r, s) \<Rightarrow> (Inr r, y\<lparr>sy_store := enqueue_release_webhook (sv_hooks sv) now r s\<rparr>))"

definition cut_release ::
  "'w server \<Rightarrow> 'w processor option \<Rightarrow> 'w release_git \<Rightarrow> go_time \<Rightarrow> string \<Rightarrow> indexed_project \<Rightarrow> release_config \<Rightarrow> string \<Rightarrow> string \<Rightarrow>
   caller option \<Rightarrow> bot_lane option \<Rightarrow> 'w sys \<Rightarrow> ('w, release) reply" where
  "cut_release sv proc rg now name p cfg tip version asker lane y =
     (let tag = rg_tag_prefix cfg @ version in
      if tag_denied proc now (sy_store y) asker lane tag then refuse 403 ''release_denied'' y
      else case release_notes rg (sy_repo y) (sy_store y) cfg name (ip_path p) tip version of
             None \<Rightarrow> broken y
           | Some (changelog, head_key) \<Rightarrow>
               (case create_annotated_tag (gt_git (sv_gate sv)) rg tag tip
                       (''Release '' @ name @ '' '' @ version @ [newline, newline] @ changelog) (sy_repo y) of
                  (TagExists, w) \<Rightarrow> refuse 409 ''tag_exists'' (y\<lparr>sy_repo := w\<rparr>)
                | (TagBroken, w) \<Rightarrow> broken (y\<lparr>sy_repo := w\<rparr>)
                | (TagMade sha, w) \<Rightarrow>
                    record_release sv now
                      \<lparr>rl_project = name, rl_path = ip_path p, rl_version = version, rl_tag_ref = tag_ref tag, rl_tag_sha = sha,
                       rl_target_sha = tip, rl_head_change = head_key, rl_changelog = changelog,
                       rl_created_by = creator_name asker lane, rl_created = 0\<rparr> (y\<lparr>sy_repo := w\<rparr>)))"

definition create_release_core ::
  "'w server \<Rightarrow> 'w processor option \<Rightarrow> 'w release_git \<Rightarrow> go_time \<Rightarrow> string \<Rightarrow> string \<Rightarrow> caller option \<Rightarrow> bot_lane option \<Rightarrow>
   'w sys \<Rightarrow> ('w, release) reply" where
  "create_release_core sv proc rg now name explicit asker lane y =
     (case resolve_release_project (sv_gate sv) rg name (sy_repo y) of
        Inl e \<Rightarrow> (Inl e, y)
      | Inr (p, cfg, tip) \<Rightarrow>
          (case next_version explicit cfg (get_latest_release (sy_store y) name) of
             Inl e \<Rightarrow> (Inl e, y)
           | Inr version \<Rightarrow> cut_release sv proc rg now name p cfg tip version asker lane y))"

section \<open>Automatic versions\<close>

lemma decimal_value_digits: "c \<noteq> [] \<Longrightarrow> list_all is_digit c \<Longrightarrow> decimal_value c = Some (int (digits_value (rev c)))"
  by (cases c) (auto simp: decimal_value_def is_digit_def less_eq_char_def)

lemma bump_patch_digits:
  assumes "c \<noteq> []" "list_all is_digit c"
  shows "bump_patch c = (if int (digits_value (rev c)) < 2 ^ 63 - 1 then int (digits_value (rev c)) + 1 else - (2 ^ 63))"
proof -
  let ?n = "int (digits_value (rev c))"
  have kept: "atoi_kept c = min (2 ^ 63 - 1) ?n" using assms by (simp add: atoi_kept_def decimal_value_digits)
  have eval: "sint (word_of_int k + 1 :: 64 word) = signed_take_bit 63 (k + 1)" for k :: int
  proof -
    have "(word_of_int k + 1 :: 64 word) = word_of_int (k + 1)" by simp
    then show ?thesis by (simp only: sint_sbintrunc') simp
  qed
  show ?thesis
  proof (cases "?n < 2 ^ 63 - 1")
    case True
    then have "signed_take_bit 63 (?n + 1) = ?n + 1" by (intro signed_take_bit_int_eq_self) auto
    moreover have "atoi_kept c = ?n" using True kept by simp
    ultimately show ?thesis using True by (simp only: bump_patch_def eval if_True)
  next
    case False
    then have "atoi_kept c = 2 ^ 63 - 1" using kept by simp
    then show ?thesis using False by (simp only: bump_patch_def eval) simp
  qed
qed

lemma semver_parts_iff:
  "semver_parts v = Some (a, b, c) \<longleftrightarrow> v = a @ ''.'' @ b @ ''.'' @ c \<and> list_all (\<lambda>x. x \<noteq> [] \<and> list_all is_digit x) [a, b, c]"
proof
  assume "semver_parts v = Some (a, b, c)"
  then have "go_split CHR ''.'' v = [a, b, c]" "list_all (\<lambda>x. x \<noteq> [] \<and> list_all is_digit x) [a, b, c]"
    by (auto simp: semver_parts_def split: list.splits if_splits)
  then show "v = a @ ''.'' @ b @ ''.'' @ c \<and> list_all (\<lambda>x. x \<noteq> [] \<and> list_all is_digit x) [a, b, c]"
    using go_join_split [of "CHR ''.''" v] by simp
next
  assume r: "v = a @ ''.'' @ b @ ''.'' @ c \<and> list_all (\<lambda>x. x \<noteq> [] \<and> list_all is_digit x) [a, b, c]"
  have "CHR ''.'' \<notin> set x" if "list_all is_digit x" for x
    using that by (auto simp: list_all_iff is_digit_def less_eq_char_def)
  then have "go_split CHR ''.'' v = [a, b, c]" using r by (simp add: go_split_append go_split_free)
  then show "semver_parts v = Some (a, b, c)" using r by (simp add: semver_parts_def)
qed

text \<open>An automatic version bump keeps the major and minor numbers of the latest release and increments the
  patch number, so it is a semantic version again and differs from the latest, as long as the patch number
  is below 2^63 - 1. From there on the increment wraps round and the version it prints is not one.\<close>
theorem automatic_version_advances:
  assumes "next_version [] cfg (Some r) = Inr v"
  shows "\<exists>a b c. semver_parts (rl_version r) = Some (a, b, c)
     \<and> (let n = digits_value (rev c) in
         if int n < 2 ^ 63 - 1 then semver_parts v = Some (a, b, show_nat (n + 1)) \<and> v \<noteq> rl_version r
         else v = a @ ''.'' @ b @ ''.-9223372036854775808'' \<and> semver_parts v = None)"
proof -
  obtain a b c where parts: "semver_parts (rl_version r) = Some (a, b, c)" "v = a @ ''.'' @ b @ ''.'' @ show_int (bump_patch c)"
    using assms by (auto simp: next_version_def split: if_splits option.splits)
  have ok: "rl_version r = a @ ''.'' @ b @ ''.'' @ c" "a \<noteq> []" "b \<noteq> []" "c \<noteq> []"
      "list_all is_digit a" "list_all is_digit b" "list_all is_digit c"
    using parts(1) by (auto simp: semver_parts_iff)
  let ?n = "digits_value (rev c)"
  show ?thesis
  proof (cases "int ?n < 2 ^ 63 - 1")
    case True
    then have v: "v = a @ ''.'' @ b @ ''.'' @ show_nat (?n + 1)"
      using parts(2) ok by (simp add: bump_patch_digits show_int_def nat_add_distrib)
    have "semver_parts v = Some (a, b, show_nat (?n + 1))"
      using ok v show_nat_shape(1,2) [of "?n + 1"] by (simp add: semver_parts_iff)
    moreover have "show_nat (?n + 1) \<noteq> c" using show_nat_shape(3) [of "?n + 1"] by auto
    ultimately show ?thesis using parts(1) True ok(1) v by auto
  next
    case False
    have "show_int (- (2 ^ 63)) = ''-9223372036854775808''"
      by (simp add: show_int_def show_nat_def digits_rev.simps) code_simp
    then have v: "v = a @ ''.'' @ b @ ''.-9223372036854775808''"
      using parts(2) ok(4,7) False by (simp add: bump_patch_digits)
    have "CHR ''.'' \<notin> set x" if "list_all is_digit x" for x
      using that by (auto simp: list_all_iff is_digit_def less_eq_char_def)
    then have "go_split CHR ''.'' v = [a, b, ''-9223372036854775808'']"
      unfolding v using ok(5,6) by (simp add: go_split_append go_split_free)
    then have "semver_parts v = None" by (simp add: semver_parts_def is_digit_def less_eq_char_def)
    then show ?thesis using parts(1) False v by auto
  qed
qed

definition demo_release :: "string \<Rightarrow> release" where
  "demo_release v = \<lparr>rl_project = ''app'', rl_path = ''app'', rl_version = v, rl_tag_ref = ''refs/tags/app/v'' @ v, rl_tag_sha = ''t1'',
     rl_target_sha = ''c0'', rl_head_change = [], rl_changelog = [], rl_created_by = ''ann'', rl_created = 1\<rparr>"

definition demo_release_config :: release_config where
  "demo_release_config = \<lparr>rg_tag_prefix = ''app/v'', rg_versioning = ''semver'', rg_changelog = ''none''\<rparr>"

theorem automatic_version_advances_witness:
  "next_version [] demo_release_config (Some (demo_release ''1.2.9'')) = Inr ''1.2.10'' \<and> semver_parts ''1.2.10'' = Some (''1'', ''2'', ''10'')"
proof -
  have bumped: "next_version [] demo_release_config (Some (demo_release ''1.2.9'')) = Inr ''1.2.10''" by code_simp
  have parts: "semver_parts ''1.2.9'' = Some (''1'', ''2'', ''9'')" by code_simp
  have nine: "digits_value (rev ''9'') = 9" "show_nat 10 = ''10''" by code_simp+
  show ?thesis
    using automatic_version_advances [OF bumped] bumped parts nine by (auto simp: demo_release_def)
qed

section \<open>A release\<close>

text \<open>\<open>git tag\<close> creates the tag it is given or fails; it moves no ref that exists.\<close>

definition tag_laws :: "'w git \<Rightarrow> 'w release_git \<Rightarrow> bool" where
  "tag_laws g rg \<longleftrightarrow> (\<forall>name target message w. let (res, w') = rt_tag rg name target message w in
     (res = TagDone \<longrightarrow> g_resolve g w (tag_ref name) = None)
     \<and> (\<forall>f. res \<noteq> TagDone \<or> f \<noteq> tag_ref name \<longrightarrow> g_resolve g w' f = g_resolve g w f))"

lemma enqueue_release_frame [simp]:
  "ms_releases (enqueue_release_webhook h now r s) = ms_releases s" "ms_changes (enqueue_release_webhook h now r s) = ms_changes s"
  by (simp_all add: enqueue_release_webhook_def)
    (simp add: enqueue_payload_def enqueue_webhook_def Let_def split: option.splits)

lemma latest_snoc: "gm_sub (ms_releases s) name = xs @ [r] \<Longrightarrow> get_latest_release s name = Some r"
  by (cases xs) (simp_all add: get_latest_release_def)

lemma create_annotated_tag_refs:
  assumes "tag_laws g rg" "create_annotated_tag g rg name target message w = (res, w')"
  shows "(case res of TagMade x \<Rightarrow> g_resolve g w (tag_ref name) = None \<and> g_resolve g w' (tag_ref name) = Some x
          | _ \<Rightarrow> g_resolve g w' (tag_ref name) = g_resolve g w (tag_ref name))
     \<and> (\<forall>f. f \<noteq> tag_ref name \<longrightarrow> g_resolve g w' f = g_resolve g w f)"
proof -
  obtain x w1 where run: "rt_tag rg name target message w = (x, w1)" by fastforce
  have "(x = TagDone \<longrightarrow> g_resolve g w (tag_ref name) = None)
     \<and> (\<forall>f. x \<noteq> TagDone \<or> f \<noteq> tag_ref name \<longrightarrow> g_resolve g w1 f = g_resolve g w f)"
    using assms(1) run unfolding tag_laws_def by (auto simp: Let_def split_beta) (metis fst_conv snd_conv)+
  then show ?thesis
    using assms(2) run by (cases x) (auto simp: create_annotated_tag_def split: if_splits option.splits)
qed

text \<open>C24. A release is minted once and never moved. When the answer is a release, it targets the trunk tip that was
  read, its version is new to the project and its tag name was free; the caller was allowed to write that tag
  if the org enforces tag policy; afterwards the tag is the recorded object, the row is the project's latest,
  the earlier rows and all Changes are as they were and no other ref has moved. A refusal leaves the store as
  it was, and every ref too, save that a version that lost to an equal one keeps the tag it wrote.\<close>
theorem release_minted:
  fixes sv :: "'w server"
  defines "g \<equiv> gt_git (sv_gate sv)"
  assumes laws: "tag_laws g rg" and run: "create_release_core sv proc rg now name explicit asker lane y = (r, y')"
  shows "case r of
      Inl e \<Rightarrow> sy_store y' = sy_store y
        \<and> (\<forall>f. ae_code e \<noteq> ''version_exists'' \<longrightarrow> g_resolve g (sy_repo y') f = g_resolve g (sy_repo y) f)
    | Inr rel \<Rightarrow> trunk_tip (sv_gate sv) (sy_repo y) = Some (rl_target_sha rel)
        \<and> (\<forall>x\<in>set (gm_sub (ms_releases (sy_store y)) name). rl_version x \<noteq> rl_version rel)
        \<and> (\<exists>tag. rl_tag_ref rel = tag_ref tag \<and> suffix (rl_version rel) tag \<and> \<not> tag_denied proc now (sy_store y) asker lane tag)
        \<and> g_resolve g (sy_repo y) (rl_tag_ref rel) = None \<and> g_resolve g (sy_repo y') (rl_tag_ref rel) = Some (rl_tag_sha rel)
        \<and> (\<forall>f. f \<noteq> rl_tag_ref rel \<longrightarrow> g_resolve g (sy_repo y') f = g_resolve g (sy_repo y) f)
        \<and> gm_sub (ms_releases (sy_store y')) name = gm_sub (ms_releases (sy_store y)) name @ [rel]
        \<and> get_latest_release (sy_store y') name = Some rel \<and> ms_changes (sy_store y') = ms_changes (sy_store y)"
proof (cases "\<exists>p cfg tip version. resolve_release_project (sv_gate sv) rg name (sy_repo y) = Inr (p, cfg, tip)
    \<and> next_version explicit cfg (get_latest_release (sy_store y) name) = Inr version")
  case False
  then show ?thesis using run by (auto simp: create_release_core_def split: sum.splits)
next
  case True
  then obtain p cfg tip version where found: "resolve_release_project (sv_gate sv) rg name (sy_repo y) = Inr (p, cfg, tip)"
    and version: "next_version explicit cfg (get_latest_release (sy_store y) name) = Inr version" by blast
  have tip: "trunk_tip (sv_gate sv) (sy_repo y) = Some tip"
    using found by (auto simp: resolve_release_project_def split: option.splits)
  have cut: "cut_release sv proc rg now name p cfg tip version asker lane y = (r, y')"
    using run found version by (simp add: create_release_core_def)
  let ?tag = "rg_tag_prefix cfg @ version"
  show ?thesis
  proof (cases "tag_denied proc now (sy_store y) asker lane ?tag \<or>
      release_notes rg (sy_repo y) (sy_store y) cfg name (ip_path p) tip version = None")
    case True
    then show ?thesis using cut by (auto simp: cut_release_def refuse_def broken_def Let_def split: if_splits)
  next
    case False
    then obtain changelog head_key where noted: "\<not> tag_denied proc now (sy_store y) asker lane ?tag"
        "release_notes rg (sy_repo y) (sy_store y) cfg name (ip_path p) tip version = Some (changelog, head_key)" by auto
    let ?msg = "''Release '' @ name @ '' '' @ version @ [newline, newline] @ changelog"
    obtain res w where tagged: "create_annotated_tag g rg ?tag tip ?msg (sy_repo y) = (res, w)" by fastforce
    note refs = create_annotated_tag_refs [OF laws tagged]
    show ?thesis
    proof (cases res)
      case (TagMade sha)
      let ?row = "\<lparr>rl_project = name, rl_path = ip_path p, rl_version = version, rl_tag_ref = tag_ref ?tag, rl_tag_sha = sha,
          rl_target_sha = tip, rl_head_change = head_key, rl_changelog = changelog, rl_created_by = creator_name asker lane, rl_created = 0\<rparr>"
      have recd: "record_release sv now ?row (y\<lparr>sy_repo := w\<rparr>) = (r, y')"
        using cut noted tagged TagMade unfolding cut_release_def g_def by (simp add: Let_def)
      show ?thesis
      proof (cases "list_ex (\<lambda>e. rl_version e = version) (gm_sub (ms_releases (sy_store y)) name)")
        case True
        then show ?thesis using recd by (auto simp: record_release_def create_release_def refuse_def typed_err_def)
      next
        case False
        then have "r = Inr (?row\<lparr>rl_created := now\<rparr>)" "sy_repo y' = w"
            "gm_sub (ms_releases (sy_store y')) name = gm_sub (ms_releases (sy_store y)) name @ [?row\<lparr>rl_created := now\<rparr>]"
            "ms_changes (sy_store y') = ms_changes (sy_store y)"
          using recd by (auto simp: record_release_def create_release_def Let_def)
        then show ?thesis
          using refs TagMade tip noted(1) False latest_snoc [of "sy_store y'" name]
          by (auto simp: list_ex_iff suffix_def)
      qed
    qed (use refs cut noted tagged in \<open>auto simp: cut_release_def refuse_def broken_def Let_def g_def; metis\<close>)+
  qed
qed

definition demo_release_git :: "repo release_git" where
  "demo_release_git = \<lparr>rt_git = (\<lambda>w args. None),
     rt_manifest = (\<lambda>w tip path. Some ((demo_manifest ''app'')\<lparr>mf_capabilities := [''release''],
        mf_config := [(''release'', YMap [(''changelog'', YStr ''none'')])]\<rparr>)),
     rt_tag = (\<lambda>name target message w. if g_resolve repo_git w (tag_ref name) = None
        then (TagDone, w\<lparr>rp_refs := gm_put (rp_refs w) (tag_ref name) ''t9''\<rparr>) else (TagTaken, w))\<rparr>"

lemma demo_tag_laws: "tag_laws (gt_git demo_gate) demo_release_git"
  by (simp add: tag_laws_def demo_git demo_release_git_def Let_def) (simp add: repo_git_def)

lemma demo_release_made:
  "\<exists>rel. fst (create_release_core demo_daemon None demo_release_git 7 ''app'' [] None None demo_sys) = Inr rel \<and> rl_version rel = ''0.1.0''
     \<and> rl_tag_ref rel = ''refs/tags/app/v0.1.0''"
proof -
  have "(case fst (create_release_core demo_daemon None demo_release_git 7 ''app'' [] None None demo_sys) of
      Inr rel \<Rightarrow> rl_version rel = ''0.1.0'' \<and> rl_tag_ref rel = ''refs/tags/app/v0.1.0'' | Inl _ \<Rightarrow> False)" by code_simp
  then show ?thesis by (auto split: sum.splits)
qed

theorem release_minted_witness:
  "\<exists>rel. get_latest_release (sy_store (snd (create_release_core demo_daemon None demo_release_git 7 ''app'' [] None None demo_sys))) ''app'' = Some rel
     \<and> rl_version rel = ''0.1.0'' \<and> rl_target_sha rel = ''c1''"
proof -
  obtain r y' where run: "create_release_core demo_daemon None demo_release_git 7 ''app'' [] None None demo_sys = (r, y')" by fastforce
  obtain rel where rel: "r = Inr rel" "rl_version rel = ''0.1.0''" using demo_release_made run by auto
  have gate: "sv_gate demo_daemon = demo_gate" by (simp add: demo_daemon_def)
  have "trunk_tip demo_gate (sy_repo demo_sys) = Some ''c1''" by code_simp
  then show ?thesis
    using release_minted [OF demo_tag_laws [folded gate] run] rel run by (auto simp: gate)
qed

end
