(* ===== verification/Credential.thy ===== *)
theory Credential
  imports History
begin

text \<open>
  Password hashes of stored accounts (\<open>runkod/credential.go\<close>): PBKDF2 over HMAC-SHA-256, the text form of a
  hash and the cache of verified passwords, with what they use of \<open>crypto/pbkdf2\<close>, \<open>crypto/hmac\<close> and
  \<open>encoding/base64\<close>. Bytes are characters. The random bytes are arguments, None when reading them fails.
\<close>

unbundle bit_operations_syntax

section \<open>Base 64\<close>

definition b64_alphabet :: string where
  "b64_alphabet = ''ABCDEFGHIJKLMNOPQRSTUVWXYZabcdefghijklmnopqrstuvwxyz0123456789+/''"

definition b64_char :: "nat \<Rightarrow> char" where
  "b64_char n = b64_alphabet ! n"

definition b64_value :: "char \<Rightarrow> nat option" where
  "b64_value c = (if c \<in> set b64_alphabet then Some (length (takeWhile (\<lambda>x. x \<noteq> c) b64_alphabet)) else None)"

fun sextets :: "nat list \<Rightarrow> nat list" where
  "sextets (a # b # c # bs) = [a div 4, a mod 4 * 16 + b div 16, b mod 16 * 4 + c div 64, c mod 64] @ sextets bs"
| "sextets [a, b] = [a div 4, a mod 4 * 16 + b div 16, b mod 16 * 4]"
| "sextets [a] = [a div 4, a mod 4 * 16]"
| "sextets [] = []"

text \<open>A group of one letter is an error; the bits a short group leaves over are ignored.\<close>

fun octets :: "nat list \<Rightarrow> nat list option" where
  "octets (a # b # c # d # ss) =
     map_option ((@) [a * 4 + b div 16, b mod 16 * 16 + c div 4, c mod 4 * 64 + d]) (octets ss)"
| "octets [a, b, c] = Some [a * 4 + b div 16, b mod 16 * 16 + c div 4]"
| "octets [a, b] = Some [a * 4 + b div 16]"
| "octets [a] = None"
| "octets [] = Some []"

definition b64_raw_encode :: "string \<Rightarrow> string" where
  "b64_raw_encode s = map b64_char (sextets (map of_char s))"

definition b64_letters :: "string \<Rightarrow> string option" where
  "b64_letters s =
     (let vs = map b64_value s
      in if None \<in> set vs then None else map_option (map char_of) (octets (map the vs)))"

definition without_newlines :: "string \<Rightarrow> string" where
  "without_newlines s = filter (\<lambda>c. c \<noteq> newline \<and> c \<noteq> CHR 0x0D) s"

definition b64_raw_decode :: "string \<Rightarrow> string option" where
  "b64_raw_decode s = b64_letters (without_newlines s)"

text \<open>With padding, the letters come in fours.\<close>

definition b64_std_decode :: "string \<Rightarrow> string option" where
  "b64_std_decode s0 =
     (let s = without_newlines s0
      in if length s mod 4 \<noteq> 0 then None
         else if suffix ''=='' s then b64_letters (take (length s - 2) s)
         else if suffix ''='' s then b64_letters (take (length s - 1) s)
         else b64_letters s)"

lemma b64_value_char: "n < 64 \<Longrightarrow> b64_value (b64_char n) = Some n"
proof -
  have "list_all (\<lambda>n. b64_value (b64_char n) = Some n) [0..<64]" by code_simp
  then show "n < 64 \<Longrightarrow> b64_value (b64_char n) = Some n" by (simp add: list_all_iff)
qed

lemma b64_char_class: "n < 64 \<Longrightarrow> b64_char n \<notin> {newline, CHR 0x0D, CHR ''$''}"
proof -
  have "list_all (\<lambda>n. b64_char n \<notin> {newline, CHR 0x0D, CHR ''$''}) [0..<64]" by code_simp
  then show "n < 64 \<Longrightarrow> b64_char n \<notin> {newline, CHR 0x0D, CHR ''$''}" by (simp add: list_all_iff)
qed

lemma sextets_small: "\<forall>b\<in>set bs. b < 256 \<Longrightarrow> n \<in> set (sextets bs) \<Longrightarrow> n < 64"
  by (induction bs rule: sextets.induct) auto

lemma octets_sextets: "\<forall>b\<in>set bs. b < 256 \<Longrightarrow> octets (sextets bs) = Some bs"
proof (induction bs rule: sextets.induct)
  case (1 a b c bs)
  have "b div 16 < 16" "c div 64 < 4" using "1.prems" by auto
  moreover have "(a mod 4 * 16 + b div 16) div 16 = a mod 4" "(b mod 16 * 4 + c div 64) div 4 = b mod 16"
      "(a mod 4 * 16 + b div 16) mod 16 = b div 16" "(b mod 16 * 4 + c div 64) mod 4 = c div 64"
    using calculation by (auto simp: div_add1_eq)
  ultimately show ?case using 1 by simp
next
  case (2 a b)
  have "b div 16 < 16" using "2.prems" by auto
  then have "(a mod 4 * 16 + b div 16) div 16 = a mod 4" "(a mod 4 * 16 + b div 16) mod 16 = b div 16" by auto
  then show ?case by simp
qed auto

lemma b64_round_trip: "b64_raw_decode (b64_raw_encode s) = Some s"
proof -
  let ?bs = "map of_char s :: nat list"
  have small: "n < 64" if "n \<in> set (sextets ?bs)" for n
    using that by (rule sextets_small [rotated]) auto
  then have "without_newlines (b64_raw_encode s) = b64_raw_encode s"
    using b64_char_class by (fastforce simp: without_newlines_def b64_raw_encode_def filter_id_conv)
  moreover have letters: "map b64_value (b64_raw_encode s) = map Some (sextets ?bs)"
    using small b64_value_char by (simp add: b64_raw_encode_def)
  moreover have "map (the \<circ> b64_value) (b64_raw_encode s) = sextets ?bs"
    using arg_cong [OF letters, of "map the"] by (simp add: comp_def)
  moreover have "octets (sextets ?bs) = Some ?bs" by (rule octets_sextets) auto
  moreover have "map char_of ?bs = s" by (simp add: comp_def)
  ultimately show ?thesis
    by (simp add: b64_raw_decode_def b64_letters_def Let_def image_iff)
qed

section \<open>Key derivation\<close>

definition hmac_sha256 :: "string \<Rightarrow> string \<Rightarrow> string" where
  "hmac_sha256 key msg =
     (let k = hmac_key key in sha256_bytes (xor_bytes 0x5C k @ sha256_bytes (xor_bytes 0x36 k @ msg)))"

definition xor_strings :: "string \<Rightarrow> string \<Rightarrow> string" where
  "xor_strings a b = map2 (\<lambda>x y. char_of (xor (of_char x) (of_char y) :: nat)) a b"

text \<open>One block: the exclusive or of \<open>c\<close> iterates of the keyed hash, the first of the salt and the block's number.\<close>

definition pbkdf2_block :: "string \<Rightarrow> string \<Rightarrow> nat \<Rightarrow> nat \<Rightarrow> string" where
  "pbkdf2_block password salt c i =
     (let u1 = hmac_sha256 password (salt @ map char_of (be_bytes 4 i))
      in fst (((\<lambda>(t, u). let v = hmac_sha256 password u in (xor_strings t v, v)) ^^ (c - 1)) (u1, u1)))"

definition pbkdf2_key :: "string \<Rightarrow> string \<Rightarrow> nat \<Rightarrow> nat \<Rightarrow> string option" where
  "pbkdf2_key password salt c n =
     (let blocks = (n + 31) div 32
      in if n = 0 \<or> blocks > 2 ^ 32 - 1 then None
         else Some (take n (concat (map (pbkdf2_block password salt c) [1..<blocks + 1]))))"

section \<open>Hashes\<close>

definition credential_iterations :: nat where "credential_iterations = 600000"

definition hash_credential :: "string option \<Rightarrow> string \<Rightarrow> string option" where
  "hash_credential random password =
     (case random of
        None \<Rightarrow> None
      | Some salt \<Rightarrow>
          map_option (\<lambda>dk. go_join ''$'' [''pbkdf2-sha256'', show_nat credential_iterations, b64_raw_encode salt, b64_raw_encode dk])
            (pbkdf2_key password salt credential_iterations 32))"

definition verify_credential :: "string \<Rightarrow> string \<Rightarrow> bool" where
  "verify_credential password encoded =
     (case go_split CHR ''$'' encoded of
        [scheme, c, s, k] \<Rightarrow>
          scheme = ''pbkdf2-sha256''
          \<and> (case (go_atoi c, b64_raw_decode s, b64_raw_decode k) of
               (Some n, Some salt, Some want) \<Rightarrow> 1 \<le> n \<and> pbkdf2_key password salt (nat n) (length want) = Some want
             | _ \<Rightarrow> False)
      | _ \<Rightarrow> False)"

lemma length_word_bytes [simp]: "length (word_bytes w) = 4"
  by (simp add: word_bytes_def)

lemma length_round256 [simp]: "length (round256 st x) = length st"
  by (induction st x rule: round256.induct) (auto simp: Let_def split: prod.splits)

lemma length_foldl_round256 [simp]: "length (foldl round256 st xs) = length st"
  by (induction xs arbitrary: st) auto

lemma length_sha256_words [simp]: "length (sha256_words s) = 8"
proof -
  have "length (foldl block256 st bs) = length st" for st bs
    by (induction bs arbitrary: st) (auto simp: block256_def)
  moreover have "length (primes_upto 19) = 8" by code_simp
  ultimately show ?thesis by (simp add: sha256_words_def h256_def)
qed

lemma length_hmac [simp]: "length (hmac_sha256 key msg) = 32"
proof -
  have "length (concat (map word_bytes ws)) = 4 * length ws" for ws by (induction ws) auto
  then show ?thesis by (simp add: hmac_sha256_def sha256_bytes_def Let_def)
qed

lemma iterate_length:
  assumes "length u1 = 32"
  shows "length (fst (((\<lambda>(t, u). let v = hmac_sha256 password u in (xor_strings t v, v)) ^^ k) (u1, u1))) = 32"
proof (induction k)
  case (Suc k)
  obtain t u where "((\<lambda>(t, u). let v = hmac_sha256 password u in (xor_strings t v, v)) ^^ k) (u1, u1) = (t, u)" by fastforce
  then show ?case using Suc by (simp add: Let_def xor_strings_def)
qed (use assms in simp)

lemma length_pbkdf2_block [simp]: "length (pbkdf2_block password salt c i) = 32"
  unfolding pbkdf2_block_def Let_def by (rule iterate_length [unfolded Let_def]) simp

lemma pbkdf2_key_32: "\<exists>k. pbkdf2_key password salt c 32 = Some k \<and> length k = 32"
  by (simp add: pbkdf2_key_def Let_def)

lemma credential_round_trip_aux:
  "\<exists>h. hash_credential (Some salt) password = Some h \<and> verify_credential password h
     \<and> (\<forall>q. verify_credential q h \<longleftrightarrow> pbkdf2_key q salt 600000 32 = pbkdf2_key password salt 600000 32)"
proof -
  obtain dk where dk: "pbkdf2_key password salt 600000 32 = Some dk" "length dk = 32" using pbkdf2_key_32 by blast
  let ?f = "[''pbkdf2-sha256'', show_nat 600000, b64_raw_encode salt, b64_raw_encode dk]"
  have raw: "CHR ''$'' \<notin> set (b64_raw_encode s)" for s
    using b64_char_class sextets_small [of "map of_char s"] by (fastforce simp: b64_raw_encode_def)
  have "CHR ''$'' \<notin> set (show_nat 600000)"
    using show_nat_shape(2) [of 600000] by (auto simp: list_all_iff is_digit_def less_eq_char_def)
  then have split: "go_split CHR ''$'' (go_join [CHR ''$''] ?f) = ?f"
    by (intro go_split_fields) (use raw in auto)
  have "go_atoi (show_int 600000) = Some 600000" by (rule go_atoi_show) simp_all
  then have "go_atoi (show_nat 600000) = Some 600000" by (simp add: show_int_def)
  then have "verify_credential q (go_join ''$'' ?f) \<longleftrightarrow> pbkdf2_key q salt 600000 32 = Some dk" for q
    unfolding verify_credential_def split by (simp add: b64_round_trip dk(2))
  then show ?thesis using dk(1) by (simp add: hash_credential_def credential_iterations_def)
qed

text \<open>C31. A stored password hash is good for exactly the passwords that derive its key: the hash of a password under
  any salt can be read back, it accepts that password, and it accepts another password only if both derive
  the same 32 bytes under that salt with 600000 iterations.\<close>
theorem credential_round_trip:
  "\<exists>h. hash_credential (Some salt) password = Some h \<and> verify_credential password h
     \<and> (\<forall>q. verify_credential q h \<longleftrightarrow> pbkdf2_key q salt 600000 32 = pbkdf2_key password salt 600000 32)"
  by (rule credential_round_trip_aux)

section \<open>The cache of verified passwords\<close>

record cred_cache =
  cc_key :: "string option"
  cc_ok :: "(string, string) gomap"

definition cache_digest :: "cred_cache \<Rightarrow> string \<Rightarrow> string" where
  "cache_digest c password = hmac_sha256 (case cc_key c of None \<Rightarrow> [] | Some k \<Rightarrow> k) password"

definition cache_hit :: "cred_cache \<Rightarrow> string \<Rightarrow> string \<Rightarrow> bool" where
  "cache_hit c name password = (gm_get (cc_ok c) name = Some (cache_digest c password))"

text \<open>\<open>random\<close> is the key that is drawn when there is none yet; over 1024 entries the cache starts again.\<close>

definition cache_remember :: "string option \<Rightarrow> string \<Rightarrow> string \<Rightarrow> cred_cache \<Rightarrow> cred_cache" where
  "cache_remember random name password c =
     (if cc_key c = None \<and> random = None then c
      else (let c1 = (if cc_key c = None then c\<lparr>cc_key := random\<rparr> else c);
                c2 = (if length (cc_ok c1) > 1024 then c1\<lparr>cc_ok := gm_empty\<rparr> else c1)
            in c2\<lparr>cc_ok := gm_put (cc_ok c2) name (cache_digest c2 password)\<rparr>))"

text \<open>Every entry is the digest of a password that verified for the account of its name.\<close>

definition cache_sound :: "(string \<Rightarrow> string option) \<Rightarrow> cred_cache \<Rightarrow> bool" where
  "cache_sound credential c \<longleftrightarrow> (cc_key c = None \<longrightarrow> cc_ok c = gm_empty)
     \<and> (\<forall>name d. gm_get (cc_ok c) name = Some d \<longrightarrow>
          (\<exists>h p. credential name = Some h \<and> verify_credential p h \<and> d = cache_digest c p))"

definition no_cache :: cred_cache where
  "no_cache = \<lparr>cc_key = None, cc_ok = gm_empty\<rparr>"

lemma no_cache_sound: "cache_sound credential no_cache"
  by (simp add: cache_sound_def no_cache_def)

text \<open>A password passes by the cache if it has the digest of one that verified.\<close>

definition passes :: "cred_cache \<Rightarrow> string \<Rightarrow> string \<Rightarrow> bool" where
  "passes c h password \<longleftrightarrow> (\<exists>p. verify_credential p h \<and> (p = password \<or> cache_digest c p = cache_digest c password))"

lemma cache_hit_passes:
  "cache_sound credential c \<Longrightarrow> credential name = Some h \<Longrightarrow> cache_hit c name password \<or> verify_credential password h
   \<Longrightarrow> passes c h password"
  unfolding cache_sound_def cache_hit_def passes_def by (metis option.inject)

lemma cache_remember_sound:
  assumes sound: "cache_sound credential c" and row: "credential name = Some h"
    and ok: "cache_hit c name password \<or> verify_credential password h"
  shows "cache_sound credential (cache_remember random name password c)"
proof (cases "cc_key c = None")
  case True
  then have empty: "cc_ok c = gm_empty" using sound by (simp add: cache_sound_def)
  then have "verify_credential password h" using ok by (simp add: cache_hit_def)
  then show ?thesis using True empty sound row
    by (auto simp: cache_remember_def cache_sound_def cache_digest_def Let_def gm_get_empty)
next
  case False
  obtain p where p: "verify_credential p h" "cache_digest c p = cache_digest c password"
    using cache_hit_passes [OF sound row ok] by (auto simp: passes_def)
  have digest: "cache_digest (c\<lparr>cc_ok := m\<rparr>) = cache_digest c" for m by (simp add: cache_digest_def fun_eq_iff)
  show ?thesis
    using False sound row p unfolding cache_remember_def cache_sound_def Let_def
    by (auto simp: digest split: if_splits)
qed

end
