(* ===== verification/Identity.thy ===== *)
theory Identity
  imports Credential
begin

text \<open>
  Who is calling (\<open>runkod/auth.go\<close>, \<open>agentprincipal.go\<close>, \<open>signup.go\<close>, the git gate of \<open>runkod/api.go\<close>):
  credentials resolve to the deploy token, a lane, a configured principal, a minted agent or an account;
  agents are minted and accounts sign up. The clock and random bytes are arguments.
\<close>

section \<open>Configuration and answers\<close>

text \<open>Tokens of lanes and principals stand beside what they name. \<open>au_directory\<close> is the hub's store of accounts
  and memberships when one is wired.\<close>

record 'w auth =
  au_gate :: "'w gate"
  au_token :: string
  au_lanes :: "(string \<times> bot_lane) list"
  au_principals :: "(string \<times> caller) list"
  au_org :: string
  au_directory :: "mem_store option"
  au_allow_signup :: bool
  au_signup_code :: string
  au_public_read :: bool

text \<open>A resolved credential; a denied one is valid but for an account of another org.\<close>

record credential =
  rs_ok :: bool
  rs_denied :: bool
  rs_principal :: "caller option"
  rs_lane :: "bot_lane option"

definition no_credential :: credential where
  "no_credential = \<lparr>rs_ok = False, rs_denied = False, rs_principal = None, rs_lane = None\<rparr>"

definition deploy_credential :: credential where
  "deploy_credential = no_credential\<lparr>rs_ok := True\<rparr>"

definition denied_credential :: credential where
  "denied_credential = no_credential\<lparr>rs_denied := True\<rparr>"

definition principal_credential :: "caller \<Rightarrow> credential" where
  "principal_credential p = deploy_credential\<lparr>rs_principal := Some p\<rparr>"

definition lane_credential :: "bot_lane \<Rightarrow> credential" where
  "lane_credential l = deploy_credential\<lparr>rs_lane := Some l\<rparr>"

section \<open>Agents\<close>

definition agent_caller :: "'w auth \<Rightarrow> agent_principal \<Rightarrow> caller" where
  "agent_caller a ap = \<lparr>pn_name = ag_name ap, pn_is_agent = True, pn_admin = False,
     pn_policy = agent_policy_or (au_gate a) default_agent_policy, pn_stored = False\<rparr>"

definition agent_by_token :: "'w auth \<Rightarrow> go_time \<Rightarrow> mem_store \<Rightarrow> string \<Rightarrow> caller option" where
  "agent_by_token a now s token =
     (case get_agent_by_token_hash s (sha256_hex token) of
        None \<Rightarrow> None | Some ap \<Rightarrow> if agent_live ap now then Some (agent_caller a ap) else None)"

definition agent_by_basic :: "'w auth \<Rightarrow> go_time \<Rightarrow> mem_store \<Rightarrow> string \<Rightarrow> string \<Rightarrow> caller option" where
  "agent_by_basic a now s user pass =
     (case get_agent_by_name s user of
        None \<Rightarrow> None
      | Some ap \<Rightarrow> if agent_live ap now \<and> sha256_hex pass = ag_token_hash ap then Some (agent_caller a ap) else None)"

definition hour :: int where "hour = 3600000000000"
definition agent_default_ttl :: int where "agent_default_ttl = 8 * hour"
definition agent_max_ttl :: int where "agent_max_ttl = 7 * 24 * hour"
definition agent_mint_retries :: nat where "agent_mint_retries = 4"

definition task_slug_char :: "char \<Rightarrow> bool" where
  "task_slug_char c \<longleftrightarrow> (CHR ''a'' \<le> c \<and> c \<le> CHR ''z'') \<or> (CHR ''0'' \<le> c \<and> c \<le> CHR ''9'')"

definition task_slug_ok :: "string \<Rightarrow> bool" where
  "task_slug_ok t \<longleftrightarrow> t \<noteq> [] \<and> length t \<le> 40 \<and> task_slug_char (hd t) \<and> list_all (\<lambda>c. task_slug_char c \<or> c = CHR ''-'') (tl t)"

definition hex_encode :: "string \<Rightarrow> string" where
  "hex_encode s = concat (map (\<lambda>c. [hex_digit (of_char c div 16), hex_digit (of_char c mod 16)]) s)"

definition clamp_ttl :: "int \<Rightarrow> int" where
  "clamp_ttl ttl = (let t = (if ttl \<le> 0 then agent_default_ttl else ttl) in if t > agent_max_ttl then agent_max_ttl else t)"

definition agent_row :: "go_time \<Rightarrow> int \<Rightarrow> string \<Rightarrow> string \<Rightarrow> string \<Rightarrow> string \<Rightarrow> agent_principal" where
  "agent_row now ttl task by tail token =
     \<lparr>ag_name = ''agent-'' @ task @ ''-'' @ tail, ag_task = task, ag_token_hash = sha256_hex token, ag_created_by = by,
      ag_created = now, ag_expires = now + ttl, ag_revoked = False\<rparr>"

text \<open>Each try draws two bytes for the name and 32 for the token; a name that is taken costs a try.\<close>

fun mint_tries :: "go_time \<Rightarrow> int \<Rightarrow> string \<Rightarrow> string \<Rightarrow> (string \<times> string) option list \<Rightarrow> mem_store \<Rightarrow>
    (api_error + agent_principal \<times> string) \<times> mem_store" where
  "mint_tries now ttl task by [] s = (Inl internal_err, s)"
| "mint_tries now ttl task by (None # draws) s = (Inl internal_err, s)"
| "mint_tries now ttl task by (Some (two, raw) # draws) s =
     (let token = hex_encode raw in
      case mint_agent_principal (agent_row now ttl task by (hex_encode two) token) s of
        (Inl _, s') \<Rightarrow> mint_tries now ttl task by draws s'
      | (Inr ap, s') \<Rightarrow> (Inr (ap, token), s'))"

definition mint_agent_core ::
  "go_time \<Rightarrow> (nat \<Rightarrow> (string \<times> string) option) \<Rightarrow> string \<Rightarrow> int \<Rightarrow> caller option \<Rightarrow> mem_store \<Rightarrow>
   (api_error + agent_principal \<times> string) \<times> mem_store" where
  "mint_agent_core now draw task ttl minter s =
     (if (case minter of None \<Rightarrow> False | Some m \<Rightarrow> pn_is_agent m) then (Inl (typed_err 403 ''agents_cannot_mint''), s)
      else if \<not> task_slug_ok task then (Inl (typed_err 400 ''invalid_task_slug''), s)
      else mint_tries now (clamp_ttl ttl) task (case minter of None \<Rightarrow> [] | Some m \<Rightarrow> pn_name m)
             (map draw [0..<agent_mint_retries]) s)"

definition revoke_agent_core :: "string \<Rightarrow> mem_store \<Rightarrow> (api_error + unit) \<times> mem_store" where
  "revoke_agent_core name s =
     (if get_agent_by_name s name = None then (Inl (typed_err 404 ''agent_not_found''), s)
      else case revoke_agent_principal name s of
             (Inl _, s') \<Rightarrow> (Inl (typed_err 500 []), s') | (Inr u, s') \<Rightarrow> (Inr u, s'))"

section \<open>Credentials\<close>

definition token_of :: "(string \<times> 'a) list \<Rightarrow> string \<Rightarrow> 'a option" where
  "token_of ts token = map_option snd (find (\<lambda>t. fst t = token) ts)"

definition caller_for_bearer :: "'w auth \<Rightarrow> go_time \<Rightarrow> mem_store \<Rightarrow> string \<Rightarrow> credential" where
  "caller_for_bearer a now s token =
     (if token = au_token a then deploy_credential
      else case token_of (au_lanes a) token of
             Some l \<Rightarrow> lane_credential l
           | None \<Rightarrow>
               (case token_of (au_principals a) token of
                  Some p \<Rightarrow> principal_credential p
                | None \<Rightarrow> (case agent_by_token a now s token of None \<Rightarrow> no_credential | Some p \<Rightarrow> principal_credential p)))"

definition directory_store :: "'w auth \<Rightarrow> mem_store \<Rightarrow> mem_store" where
  "directory_store a s = (case au_directory a of Some d \<Rightarrow> d | None \<Rightarrow> s)"

definition account_caller :: "stored_principal \<Rightarrow> bool \<Rightarrow> caller" where
  "account_caller sp admin = \<lparr>pn_name = sp_name sp, pn_is_agent = False, pn_admin = admin, pn_policy = no_policy, pn_stored = True\<rparr>"

text \<open>Whether a password opens an account, by the cache or by its hash, and the cache after a success.\<close>

definition opens :: "cred_cache \<Rightarrow> string \<Rightarrow> string \<Rightarrow> string \<Rightarrow> bool" where
  "opens c key h pass \<longleftrightarrow> cache_hit c key pass \<or> verify_credential pass h"

fun cross_org_account ::
  "string option \<Rightarrow> string \<Rightarrow> string \<Rightarrow> string \<Rightarrow> stored_principal list \<Rightarrow> cred_cache \<Rightarrow> stored_principal option \<times> cred_cache" where
  "cross_org_account random org user pass [] c = (None, c)"
| "cross_org_account random org user pass (sp # rows) c =
     (if sp_org sp = org then cross_org_account random org user pass rows c
      else if opens c (nul_key (sp_org sp) user) (sp_credential sp) pass
        then (Some sp, cache_remember random (nul_key (sp_org sp) user) pass c)
      else cross_org_account random org user pass rows c)"

text \<open>An account of this org: with a directory its membership decides, and its role makes it an administrator.\<close>

definition org_account :: "'w auth \<Rightarrow> bool \<Rightarrow> stored_principal \<Rightarrow> credential" where
  "org_account a gated sp =
     (case au_directory a of
        Some d \<Rightarrow>
          if gated \<and> au_org a \<noteq> []
          then (case org_member_role d (au_org a) (sp_name sp) of
                  None \<Rightarrow> denied_credential
                | Some role \<Rightarrow> principal_credential (account_caller sp (role = ''admin'')))
          else principal_credential (account_caller sp False)
      | None \<Rightarrow> principal_credential (account_caller sp False))"

definition foreign_account ::
  "'w auth \<Rightarrow> string option \<Rightarrow> bool \<Rightarrow> string \<Rightarrow> string \<Rightarrow> cred_cache \<Rightarrow> credential \<times> cred_cache" where
  "foreign_account a random gated user pass c =
     (case au_directory a of
        None \<Rightarrow> (no_credential, c)
      | Some d \<Rightarrow>
          (case cross_org_account random (au_org a) user pass (list_principal_orgs d user) c of
             (None, c') \<Rightarrow> (no_credential, c')
           | (Some sp, c') \<Rightarrow> (if gated then denied_credential else principal_credential (account_caller sp False), c')))"

definition account_credential ::
  "'w auth \<Rightarrow> string option \<Rightarrow> mem_store \<Rightarrow> bool \<Rightarrow> string \<Rightarrow> string \<Rightarrow> cred_cache \<Rightarrow> credential \<times> cred_cache" where
  "account_credential a random s gated user pass c =
     (case get_stored_principal (directory_store a s) (au_org a) user of
        Some sp \<Rightarrow>
          if opens c (nul_key (au_org a) user) (sp_credential sp) pass
          then (org_account a gated sp, cache_remember random (nul_key (au_org a) user) pass c)
          else foreign_account a random gated user pass c
      | None \<Rightarrow> foreign_account a random gated user pass c)"

definition caller_for_basic ::
  "'w auth \<Rightarrow> string option \<Rightarrow> go_time \<Rightarrow> mem_store \<Rightarrow> bool \<Rightarrow> string \<Rightarrow> string \<Rightarrow> cred_cache \<Rightarrow> credential \<times> cred_cache" where
  "caller_for_basic a random now s gated user pass c =
     (case find (\<lambda>t. user = pn_name (snd t) \<and> pass = fst t) (au_principals a) of
        Some t \<Rightarrow> (principal_credential (snd t), c)
      | None \<Rightarrow>
          (case find (\<lambda>t. user = bl_name (snd t) \<and> pass = fst t) (au_lanes a) of
             Some t \<Rightarrow> (lane_credential (snd t), c)
           | None \<Rightarrow>
               if pass = au_token a then (deploy_credential, c)
               else (case agent_by_basic a now s user pass of
                       Some p \<Rightarrow> (principal_credential p, c)
                     | None \<Rightarrow> account_credential a random s gated user pass c)))"

definition caller_for_header ::
  "'w auth \<Rightarrow> string option \<Rightarrow> go_time \<Rightarrow> mem_store \<Rightarrow> bool \<Rightarrow> string \<Rightarrow> cred_cache \<Rightarrow> credential \<times> cred_cache" where
  "caller_for_header a random now s gated header c =
     (case go_cut_prefix header ''Bearer '' of
        Some token \<Rightarrow> (caller_for_bearer a now s token, c)
      | None \<Rightarrow>
          (case go_cut_prefix header ''Basic '' of
             None \<Rightarrow> (no_credential, c)
           | Some b64 \<Rightarrow>
               (case b64_std_decode b64 of
                  None \<Rightarrow> (no_credential, c)
                | Some raw \<Rightarrow>
                    (case go_cut CHR '':'' raw of
                       None \<Rightarrow> (no_credential, c)
                     | Some (user, pass) \<Rightarrow> caller_for_basic a random now s gated user pass c))))"

section \<open>The git gate\<close>

datatype git_access =
  GitUnauthorized | GitForbidden | GitAnonymousRead | GitServed "(string \<times> string) option"

definition is_upload_pack :: "string \<Rightarrow> string \<Rightarrow> string \<Rightarrow> bool" where
  "is_upload_pack verb path service \<longleftrightarrow>
     suffix ''/git-upload-pack'' path \<and> verb = ''POST''
   \<or> suffix ''/info/refs'' path \<and> verb = ''GET'' \<and> service = ''git-upload-pack''"

text \<open>Git clients send any user name with a token: a principal is found by its token alone, after the pair has failed.
  The name travels to the hook in the environment.\<close>

definition git_credential ::
  "'w auth \<Rightarrow> string option \<Rightarrow> go_time \<Rightarrow> mem_store \<Rightarrow> string \<Rightarrow> string \<Rightarrow> cred_cache \<Rightarrow> credential \<times> cred_cache" where
  "git_credential a random now s user pass c =
     (let (r, c') = caller_for_basic a random now s True user pass c
      in (if \<not> rs_ok r \<and> \<not> rs_denied r
          then (case token_of (au_principals a) pass of Some p \<Rightarrow> principal_credential p | None \<Rightarrow> r) else r, c'))"

definition require_git_auth ::
  "'w auth \<Rightarrow> string option \<Rightarrow> go_time \<Rightarrow> mem_store \<Rightarrow> (string \<times> string) option \<Rightarrow> string \<Rightarrow> string \<Rightarrow> string \<Rightarrow> cred_cache \<Rightarrow>
   git_access \<times> cred_cache" where
  "require_git_auth a random now s basic verb path service c =
     (case basic of
        None \<Rightarrow> (if au_public_read a \<and> is_upload_pack verb path service then GitAnonymousRead else GitUnauthorized, c)
      | Some (user, pass) \<Rightarrow>
          (let (r, c') = git_credential a random now s user pass c
           in (if rs_denied r then GitForbidden
               else if \<not> rs_ok r then GitUnauthorized
               else case rs_principal r of
                      Some p \<Rightarrow> GitServed (Some (''REMOTE_USER'', pn_name p))
                    | None \<Rightarrow> (case rs_lane r of Some l \<Rightarrow> GitServed (Some (''REMOTE_LANE'', bl_name l)) | None \<Rightarrow> GitServed None), c')))"

section \<open>Signing up\<close>

record signup_request =
  sr_name :: string
  sr_password :: string
  sr_code :: string
  sr_email :: string
  sr_org :: string

definition principal_name_ok :: "string \<Rightarrow> bool" where
  "principal_name_ok n \<longleftrightarrow> workspace_id_ok n \<and> 2 \<le> length n \<and> length n \<le> 63"

definition min_password_length :: nat where "min_password_length = 8"

definition config_name :: "'w auth \<Rightarrow> string \<Rightarrow> bool" where
  "config_name a name \<longleftrightarrow> list_ex (\<lambda>t. pn_name (snd t) = name) (au_principals a) \<or> list_ex (\<lambda>t. bl_name (snd t) = name) (au_lanes a)"

definition code_ok :: "'w auth \<Rightarrow> signup_request \<Rightarrow> bool" where
  "code_ok a req \<longleftrightarrow> au_signup_code a = [] \<or> sr_code req = au_signup_code a"

definition signup_core ::
  "'w auth \<Rightarrow> (string \<Rightarrow> string option) \<Rightarrow> string option \<Rightarrow> signup_request \<Rightarrow> mem_store \<Rightarrow> (api_error + unit) \<times> mem_store" where
  "signup_core a parse_address salt req s =
     (let email = go_trim_space (sr_email req) in
      if \<not> au_allow_signup a then (Inl (typed_err 403 ''signup_disabled''), s)
      else if \<not> code_ok a req then (Inl (typed_err 403 ''bad_signup_code''), s)
      else if \<not> principal_name_ok (sr_name req) then (Inl (typed_err 400 ''invalid_name''), s)
      else if length (sr_password req) < min_password_length then (Inl (typed_err 400 ''weak_password''), s)
      else if email \<noteq> [] \<and> \<not> valid_bare_email parse_address email then (Inl (typed_err 400 ''invalid_email''), s)
      else if config_name a (sr_name req) then (Inl (typed_err 409 ''name_taken''), s)
      else if get_stored_principal s (sr_org req) (sr_name req) \<noteq> None then (Inl (typed_err 409 ''name_taken''), s)
      else case hash_credential salt (sr_password req) of
             None \<Rightarrow> (Inl internal_err, s)
           | Some h \<Rightarrow>
               (case create_principal (sr_org req) (sr_name req) h email s of
                  (Inl _, s') \<Rightarrow> (Inl (typed_err 409 ''name_taken''), s') | (Inr u, s') \<Rightarrow> (Inr u, s')))"

text \<open>The answer tells whether an existing account was recovered.\<close>

definition signup_or_recover_core ::
  "'w auth \<Rightarrow> string option \<Rightarrow> (string \<Rightarrow> string option) \<Rightarrow> string option \<Rightarrow> signup_request \<Rightarrow> mem_store \<Rightarrow> cred_cache \<Rightarrow>
   (api_error + bool) \<times> mem_store \<times> cred_cache" where
  "signup_or_recover_core a random parse_address salt req s c =
     (let key = nul_key (sr_org req) (sr_name req);
          register = (case signup_core a parse_address salt req s of (Inl e, s') \<Rightarrow> (Inl e, s', c) | (Inr _, s') \<Rightarrow> (Inr False, s', c))
      in if au_allow_signup a \<and> code_ok a req
         then (case get_stored_principal (directory_store a s) (sr_org req) (sr_name req) of
                 Some sp \<Rightarrow>
                   if opens c key (sp_credential sp) (sr_password req) then (Inr True, s, cache_remember random key (sr_password req) c)
                   else register
               | None \<Rightarrow> register)
         else register)"


section \<open>The life of an agent\<close>

lemma find_unique:
  assumes "x \<in> set xs" "P x" "\<And>y. y \<in> set xs \<Longrightarrow> P y \<Longrightarrow> y = x"
  shows "find P xs = Some x"
proof -
  obtain y where "find P xs = Some y" using assms(1,2) by (cases "find P xs") (auto simp: find_None_iff)
  moreover from this have "y \<in> set xs" "P y" by (auto simp: find_Some_iff)
  ultimately show ?thesis using assms(3) by blast
qed

lemma mint_tries_made:
  assumes "mint_tries now ttl task who draws s = (Inr (ap, token), s')"
  shows "(\<exists>two. ap = agent_row now ttl task who two token) \<and> get_agent_by_name s (ag_name ap) = None
    \<and> s' = s\<lparr>ms_agents := gm_put (ms_agents s) (ag_name ap) ap\<rparr>"
  using assms
  by (induction now ttl task who draws s rule: mint_tries.induct)
    (auto simp: Let_def mint_agent_principal_def get_agent_by_name_def agent_row_def split: option.splits)

lemma clamp_ttl_bounds: "0 < clamp_ttl ttl \<and> clamp_ttl ttl \<le> agent_max_ttl"
  by (simp add: clamp_ttl_def Let_def agent_default_ttl_def agent_max_ttl_def hour_def)

lemma agent_token_found:
  assumes "gm_wf m" "gm_get m n = Some ap" "\<And>k b. gm_get m k = Some b \<Longrightarrow> ag_token_hash b = ag_token_hash ap \<Longrightarrow> b = ap"
    "sha256_hex token = ag_token_hash ap"
  shows "get_agent_by_token_hash (s\<lparr>ms_agents := m\<rparr>) (sha256_hex token) = Some ap"
  unfolding get_agent_by_token_hash_def
  by (rule find_unique) (use assms gm_vals_iff [OF assms(1)] in auto)

definition unconfigured :: "'w auth \<Rightarrow> string \<Rightarrow> bool" where
  "unconfigured a token \<longleftrightarrow> token \<noteq> au_token a \<and> token_of (au_lanes a) token = None \<and> token_of (au_principals a) token = None"

lemma bearer_agent:
  "unconfigured a token \<Longrightarrow> caller_for_bearer a now s token =
     (case get_agent_by_token_hash s (sha256_hex token) of
        None \<Rightarrow> no_credential | Some ap \<Rightarrow> if agent_live ap now then principal_credential (agent_caller a ap) else no_credential)"
  by (simp add: caller_for_bearer_def unconfigured_def agent_by_token_def split: option.splits)

text \<open>C16. An agent's token works exactly from its minting to its end. Only somebody who is not an agent mints it; its
  name was free, it carries the task, and its life is at most seven days; minting writes that one row. As long as
  the token is no configured one and no other agent's token has its hash, it then authenticates as that agent
  until it expires, and never again once it is revoked; it is never an administrator.\<close>
theorem agent_token_lifetime:
  assumes mint: "mint_agent_core now draw task ttl minter s = (Inr (ap, token), s')"
    and ok: "store_ok s" and free: "unconfigured a token"
    and unique: "\<And>k b. gm_get (ms_agents s) k = Some b \<Longrightarrow> ag_token_hash b \<noteq> sha256_hex token"
  shows "(case minter of None \<Rightarrow> True | Some m \<Rightarrow> \<not> pn_is_agent m)
     \<and> ag_task ap = task \<and> get_agent_by_name s (ag_name ap) = None
     \<and> now < ag_expires ap \<and> ag_expires ap \<le> now + agent_max_ttl
     \<and> s' = s\<lparr>ms_agents := gm_put (ms_agents s) (ag_name ap) ap\<rparr>
     \<and> (\<forall>later. caller_for_bearer a later s' token =
            (if later < ag_expires ap then principal_credential (agent_caller a ap) else no_credential)
          \<and> caller_for_bearer a later (snd (revoke_agent_core (ag_name ap) s')) token = no_credential)
     \<and> pn_is_agent (agent_caller a ap) \<and> \<not> pn_admin (agent_caller a ap)"
proof -
  have tries: "mint_tries now (clamp_ttl ttl) task (case minter of None \<Rightarrow> [] | Some m \<Rightarrow> pn_name m)
      (map draw [0..<agent_mint_retries]) s = (Inr (ap, token), s')"
    and human: "case minter of None \<Rightarrow> True | Some m \<Rightarrow> \<not> pn_is_agent m"
    using mint by (auto simp: mint_agent_core_def split: if_splits option.splits)
  note made = mint_tries_made [OF tries]
  then obtain two where row: "ap = agent_row now (clamp_ttl ttl) task (case minter of None \<Rightarrow> [] | Some m \<Rightarrow> pn_name m) two token"
    and s': "s' = s\<lparr>ms_agents := gm_put (ms_agents s) (ag_name ap) ap\<rparr>" by blast
  have wf: "gm_wf (ms_agents s)" using ok by (simp add: store_ok_def gm_all_def)
  have hash: "sha256_hex token = ag_token_hash ap" "\<not> ag_revoked ap" using row by (simp_all add: agent_row_def)
  have found: "get_agent_by_token_hash (s\<lparr>ms_agents := gm_put (ms_agents s) (ag_name ap) b\<rparr>) (sha256_hex token) = Some b"
    if "ag_token_hash b = ag_token_hash ap" for b
    by (rule agent_token_found [where n = "ag_name ap"]) (use that wf hash unique in \<open>auto split: if_splits\<close>)
  let ?gone = "ap\<lparr>ag_revoked := True\<rparr>"
  have gone: "snd (revoke_agent_core (ag_name ap) s') = s\<lparr>ms_agents := gm_put (gm_put (ms_agents s) (ag_name ap) ap) (ag_name ap) ?gone\<rparr>"
    by (simp add: s' revoke_agent_core_def revoke_agent_principal_def get_agent_by_name_def)
  have revoked: "get_agent_by_token_hash (snd (revoke_agent_core (ag_name ap) s')) (sha256_hex token) = Some ?gone"
    unfolding gone
    by (rule agent_token_found [where n = "ag_name ap"]) (use wf hash unique in \<open>auto split: if_splits\<close>)
  have live: "agent_live ap later \<longleftrightarrow> later < ag_expires ap" for later using hash(2) by (simp add: agent_live_def)
  show ?thesis
    using made human row clamp_ttl_bounds [of ttl] found [OF refl] revoked live s'
    by (auto simp: bearer_agent [OF free] agent_row_def agent_live_def agent_caller_def)
qed

section \<open>Passwords\<close>

definition account_hash :: "'w auth \<Rightarrow> mem_store \<Rightarrow> string \<Rightarrow> string option" where
  "account_hash a s key = map_option sp_credential (gm_get (ms_principals (directory_store a s)) key)"

text \<open>Names of orgs have no NUL in them, so a key of the store belongs to one org and one name.\<close>

definition orgs_plain :: "'w auth \<Rightarrow> mem_store \<Rightarrow> bool" where
  "orgs_plain a s \<longleftrightarrow> CHR 0x00 \<notin> set (au_org a) \<and> (\<forall>sp\<in>set (gm_vals (ms_principals (directory_store a s))). CHR 0x00 \<notin> set (sp_org sp))"

lemma listed_account:
  assumes "store_ok d" "sp \<in> set (list_principal_orgs d user)"
  shows "gm_get (ms_principals d) (nul_key (sp_org sp) user) = Some sp \<and> sp_name sp = user"
proof -
  have all: "gm_all (\<lambda>k p. nul_key (sp_org p) (sp_name p) = k) (ms_principals d)" using assms(1) by (simp add: store_ok_def)
  have "sp \<in> set (gm_vals (ms_principals d))" "sp_name sp = user" using assms(2) by (auto simp: list_principal_orgs_def)
  moreover have "gm_wf (ms_principals d)" using all by (simp add: gm_all_def)
  ultimately obtain k where k: "gm_get (ms_principals d) k = Some sp" using gm_vals_iff by metis
  then show ?thesis using gm_all_get [OF all k] \<open>sp_name sp = user\<close> by simp
qed

lemma cross_org_account_sound:
  assumes "\<And>sp. sp \<in> set rows \<Longrightarrow> credential (nul_key (sp_org sp) user) = Some (sp_credential sp)"
    "cache_sound credential c" "cross_org_account random org user pass rows c = (r, c')"
  shows "cache_sound credential c' \<and> (\<forall>sp. r = Some sp \<longrightarrow> sp \<in> set rows \<and> sp_org sp \<noteq> org \<and> passes c (sp_credential sp) pass)"
  using assms
proof (induction random org user pass rows c arbitrary: r rule: cross_org_account.induct)
  case (2 random org user pass sp rows c)
  show ?case
  proof (cases "sp_org sp \<noteq> org \<and> opens c (nul_key (sp_org sp) user) (sp_credential sp) pass")
    case True
    have row: "credential (nul_key (sp_org sp) user) = Some (sp_credential sp)" using "2.prems"(1) by simp
    have "opens c (nul_key (sp_org sp) user) (sp_credential sp) pass" using True by simp
    note ok = this [unfolded opens_def]
    have "r = Some sp" "c' = cache_remember random (nul_key (sp_org sp) user) pass c" using True "2.prems"(3) by simp_all
    then show ?thesis
      using True cache_hit_passes [OF "2.prems"(2) row ok] cache_remember_sound [OF "2.prems"(2) row ok] by simp
  next
    case False
    then have rest: "cross_org_account random org user pass rows c = (r, c')" using "2.prems"(3) by (auto split: if_splits)
    have rows: "\<And>x. x \<in> set rows \<Longrightarrow> credential (nul_key (sp_org x) user) = Some (sp_credential x)" using "2.prems"(1) by simp
    have "cache_sound credential c' \<and> (\<forall>sp. r = Some sp \<longrightarrow> sp \<in> set rows \<and> sp_org sp \<noteq> org \<and> passes c (sp_credential sp) pass)"
    proof (cases "sp_org sp = org")
      case True
      show ?thesis by (rule "2.IH"(1) [OF True rows "2.prems"(2) rest])
    next
      case other: False
      then have "\<not> opens c (nul_key (sp_org sp) user) (sp_credential sp) pass" using False by simp
      then show ?thesis by (rule "2.IH"(2) [OF other _ rows "2.prems"(2) rest])
    qed
    then show ?thesis by auto
  qed
qed auto

text \<open>What an account's credential stands for: an account of that name whose password it is, of this org and with
  its role there where membership counts.\<close>

definition account_identity :: "'w auth \<Rightarrow> mem_store \<Rightarrow> bool \<Rightarrow> cred_cache \<Rightarrow> string \<Rightarrow> string \<Rightarrow> caller \<Rightarrow> bool" where
  "account_identity a s gated c user pass p \<longleftrightarrow>
     (\<exists>sp. gm_get (ms_principals (directory_store a s)) (nul_key (sp_org sp) user) = Some sp \<and> sp_name sp = user
        \<and> passes c (sp_credential sp) pass \<and> p = account_caller sp (pn_admin p)
        \<and> (pn_admin p \<longrightarrow> (\<exists>d. au_directory a = Some d \<and> org_member_role d (au_org a) user = Some ''admin''))
        \<and> (gated \<longrightarrow> sp_org sp = au_org a)
        \<and> (gated \<and> au_org a \<noteq> [] \<longrightarrow> (\<forall>d. au_directory a = Some d \<longrightarrow> org_member_role d (au_org a) user \<noteq> None)))"

lemma foreign_account_sound:
  assumes "store_ok (directory_store a s)" "cache_sound (account_hash a s) c" "foreign_account a random gated user pass c = (r, c')"
  shows "cache_sound (account_hash a s) c'
    \<and> (rs_ok r \<longrightarrow> (\<exists>p. r = principal_credential p \<and> account_identity a s gated c user pass p))"
proof (cases "au_directory a")
  case None
  then have "r = no_credential" "c' = c" using assms(3) by (simp_all add: foreign_account_def)
  then show ?thesis using assms(2) by (simp add: no_credential_def)
next
  case (Some d)
  then have d: "directory_store a s = d" by (simp add: directory_store_def)
  obtain ro c1 where run: "cross_org_account random (au_org a) user pass (list_principal_orgs d user) c = (ro, c1)" by fastforce
  have rows: "account_hash a s (nul_key (sp_org sp) user) = Some (sp_credential sp)" if "sp \<in> set (list_principal_orgs d user)" for sp
    using listed_account [OF assms(1) that [folded d]] by (simp add: account_hash_def d)
  note sound = cross_org_account_sound [OF rows assms(2) run]
  have "c' = c1" using assms(3) Some run by (auto simp: foreign_account_def split: option.splits)
  moreover have "\<exists>p. r = principal_credential p \<and> account_identity a s gated c user pass p" if okr: "rs_ok r"
  proof -
    obtain sp where sp: "ro = Some sp" "\<not> gated" "r = principal_credential (account_caller sp False)"
      using assms(3) Some run okr
      by (auto simp: foreign_account_def no_credential_def denied_credential_def split: option.splits if_splits)
    have "sp \<in> set (list_principal_orgs d user)" "passes c (sp_credential sp) pass" using sound sp(1) by auto
    then have "account_identity a s gated c user pass (account_caller sp False)"
      unfolding account_identity_def d
      by (intro exI [of _ sp]) (use listed_account [OF assms(1) [unfolded d]] sp(2) in \<open>simp add: account_caller_def\<close>)
    then show ?thesis using sp(3) by blast
  qed
  ultimately show ?thesis using sound by blast
qed

lemma account_credential_sound:
  assumes ok: "store_ok (directory_store a s)" "orgs_plain a s" "cache_sound (account_hash a s) c"
    and run: "account_credential a random s gated user pass c = (r, c')"
  shows "cache_sound (account_hash a s) c'
    \<and> (rs_ok r \<longrightarrow> (\<exists>p. r = principal_credential p \<and> account_identity a s gated c user pass p))"
proof (cases "\<exists>sp. get_stored_principal (directory_store a s) (au_org a) user = Some sp
    \<and> opens c (nul_key (au_org a) user) (sp_credential sp) pass")
  case False
  then have "foreign_account a random gated user pass c = (r, c')"
    using run by (auto simp: account_credential_def split: option.splits)
  then show ?thesis by (rule foreign_account_sound [OF ok(1,3)])
next
  case True
  then obtain sp where sp: "get_stored_principal (directory_store a s) (au_org a) user = Some sp"
      "opens c (nul_key (au_org a) user) (sp_credential sp) pass" by blast
  let ?k = "nul_key (au_org a) user"
  have all: "gm_all (\<lambda>k p. nul_key (sp_org p) (sp_name p) = k) (ms_principals (directory_store a s))"
    using ok(1) by (simp add: store_ok_def)
  have got: "gm_get (ms_principals (directory_store a s)) ?k = Some sp" using sp(1) by (simp add: get_stored_principal_def)
  then have "nul_key (sp_org sp) (sp_name sp) = ?k" using gm_all_get [OF all] by blast
  moreover have "sp \<in> set (gm_vals (ms_principals (directory_store a s)))"
    using got all gm_vals_iff by (metis gm_all_def)
  ultimately have names: "sp_org sp = au_org a" "sp_name sp = user"
    using ok(2) nul_key_inj [of "sp_org sp" "au_org a" "sp_name sp" user] by (auto simp: orgs_plain_def)
  have row: "account_hash a s ?k = Some (sp_credential sp)" using got by (simp add: account_hash_def)
  note hit = sp(2) [unfolded opens_def]
  have res: "r = org_account a gated sp" "c' = cache_remember random ?k pass c"
    using run sp by (simp_all add: account_credential_def)
  have "\<exists>p. r = principal_credential p \<and> account_identity a s gated c user pass p" if okr: "rs_ok r"
  proof -
    obtain adm where adm: "r = principal_credential (account_caller sp adm)"
        "adm \<Longrightarrow> \<exists>d. au_directory a = Some d \<and> org_member_role d (au_org a) user = Some ''admin''"
        "gated \<and> au_org a \<noteq> [] \<Longrightarrow> \<forall>d. au_directory a = Some d \<longrightarrow> org_member_role d (au_org a) user \<noteq> None"
      using okr res(1) names
      by (auto simp: org_account_def denied_credential_def no_credential_def split: option.splits if_splits)
    have "account_identity a s gated c user pass (account_caller sp adm)"
      unfolding account_identity_def
      by (intro exI [of _ sp]) (use got names cache_hit_passes [OF ok(3) row hit] adm(2,3) in \<open>simp add: account_caller_def\<close>)
    then show ?thesis using adm(1) by blast
  qed
  then show ?thesis using res(2) cache_remember_sound [OF ok(3) row hit] by simp
qed

text \<open>C11. Nobody is taken for somebody else. When a user name and a password resolve, they are the name and token of a
  configured principal or lane, or the deploy token under any name, or the name and token of an agent that is
  neither expired nor revoked, or the name of an account and a password of it (one that verified, up to the keyed
  digest of the cache); where membership counts the account is one of this org and a member, and only a member
  with the role of an administrator becomes one. The principal carries the name that was given, an agent is
  never an administrator, and the cache keeps holding only digests of passwords that verified.\<close>
theorem basic_identity_sound:
  assumes ok: "store_ok (directory_store a s)" "store_ok s" "orgs_plain a s" and cache: "cache_sound (account_hash a s) c"
    and run: "caller_for_basic a random now s gated user pass c = (r, c')"
  shows "cache_sound (account_hash a s) c'
    \<and> (rs_ok r \<longrightarrow>
        (case rs_principal r of
           Some p \<Rightarrow> pn_name p = user
             \<and> ((pass, p) \<in> set (au_principals a)
                \<or> (\<exists>ap. get_agent_by_name s user = Some ap \<and> agent_live ap now \<and> sha256_hex pass = ag_token_hash ap
                      \<and> p = agent_caller a ap \<and> \<not> pn_admin p)
                \<or> account_identity a s gated c user pass p)
         | None \<Rightarrow> (case rs_lane r of Some l \<Rightarrow> bl_name l = user \<and> (pass, l) \<in> set (au_lanes a) | None \<Rightarrow> pass = au_token a)))"
proof -
  have agents: "gm_all (\<lambda>k b. ag_name b = k) (ms_agents s)" using ok(2) by (simp add: store_ok_def)
  consider (config) t where "t \<in> set (au_principals a)" "user = pn_name (snd t)" "pass = fst t" "r = principal_credential (snd t)" "c' = c"
    | (lane) t where "t \<in> set (au_lanes a)" "user = bl_name (snd t)" "pass = fst t" "r = lane_credential (snd t)" "c' = c"
    | (deploy) "pass = au_token a" "r = deploy_credential" "c' = c"
    | (agent) p where "agent_by_basic a now s user pass = Some p" "r = principal_credential p" "c' = c"
    | (account) "account_credential a random s gated user pass c = (r, c')"
  proof (cases "find (\<lambda>t. user = pn_name (snd t) \<and> pass = fst t) (au_principals a)")
    case (Some t)
    then have "t \<in> set (au_principals a) \<and> user = pn_name (snd t) \<and> pass = fst t" by (auto simp: find_Some_iff)
    moreover have "r = principal_credential (snd t)" "c' = c" using run Some by (simp_all add: caller_for_basic_def)
    ultimately show ?thesis using config by blast
  next
    case no_principal: None
    show ?thesis
    proof (cases "find (\<lambda>t. user = bl_name (snd t) \<and> pass = fst t) (au_lanes a)")
      case (Some t)
      then have "t \<in> set (au_lanes a) \<and> user = bl_name (snd t) \<and> pass = fst t" by (auto simp: find_Some_iff)
      moreover have "r = lane_credential (snd t)" "c' = c" using run Some no_principal by (simp_all add: caller_for_basic_def)
      ultimately show ?thesis using lane by blast
    next
      case None
      then have "(if pass = au_token a then (deploy_credential, c)
          else case agent_by_basic a now s user pass of Some p \<Rightarrow> (principal_credential p, c)
               | None \<Rightarrow> account_credential a random s gated user pass c) = (r, c')"
        using run no_principal by (simp add: caller_for_basic_def)
      then consider "pass = au_token a" "r = deploy_credential \<and> c' = c"
        | p where "agent_by_basic a now s user pass = Some p" "r = principal_credential p \<and> c' = c"
        | "account_credential a random s gated user pass c = (r, c')"
        by (cases "pass = au_token a"; cases "agent_by_basic a now s user pass") simp_all
      then show ?thesis using deploy agent account by metis
    qed
  qed
  then show ?thesis
  proof cases
    case config
    then show ?thesis using cache by (cases t) (auto simp: principal_credential_def deploy_credential_def)
  next
    case lane
    then show ?thesis using cache by (cases t) (auto simp: lane_credential_def deploy_credential_def no_credential_def)
  next
    case deploy
    then show ?thesis using cache by (auto simp: deploy_credential_def no_credential_def)
  next
    case agent
    then obtain ap where ap: "get_agent_by_name s user = Some ap" "agent_live ap now" "sha256_hex pass = ag_token_hash ap" "p = agent_caller a ap"
      by (auto simp: agent_by_basic_def split: option.splits if_splits)
    then have "ag_name ap = user" using gm_all_get [OF agents] by (simp add: get_agent_by_name_def)
    then show ?thesis using cache agent(2,3) ap by (auto simp: principal_credential_def agent_caller_def)
  next
    case account
    note sound = account_credential_sound [OF ok(1,3) cache account]
    show ?thesis
    proof (cases "rs_ok r")
      case True
      then obtain p where p: "r = principal_credential p" "account_identity a s gated c user pass p" using sound by blast
      then obtain sp where "sp_name sp = user" "p = account_caller sp (pn_admin p)" by (auto simp: account_identity_def)
      then have "pn_name p = user" unfolding account_caller_def by (metis caller.select_convs(1))
      then show ?thesis using sound p by (simp add: principal_credential_def)
    qed (use sound in simp)
  qed
qed


definition demo_auth :: "repo auth" where
  "demo_auth = \<lparr>au_gate = demo_gate, au_token = ''deploy'', au_lanes = [], au_principals = [(''tok'', account_caller
       \<lparr>sp_org = [], sp_name = ''ann'', sp_credential = [], sp_email = []\<rparr> True)],
     au_org = [], au_directory = None, au_allow_signup = True, au_signup_code = [], au_public_read = False\<rparr>"

definition demo_agent :: agent_principal where
  "demo_agent = agent_row 5 100 ''fix'' [] ''0a1b'' ''secret''"

definition demo_agent_store :: mem_store where
  "demo_agent_store = new_mem_store\<lparr>ms_agents := gm_put gm_empty ''agent-fix-0a1b'' demo_agent\<rparr>"

lemma demo_agent_store_ok: "store_ok demo_agent_store"
proof -
  have "gm_all (\<lambda>k b. ag_name b = k) (gm_put gm_empty ''agent-fix-0a1b'' demo_agent)"
    by (rule gm_all_put) (simp_all add: demo_agent_def agent_row_def)
  then show ?thesis using store_ok_new by (simp add: demo_agent_store_def store_ok_def orgs_ok_def)
qed

lemma demo_agent_named: "get_agent_by_name demo_agent_store ''agent-fix-0a1b'' = Some demo_agent"
  by (simp add: get_agent_by_name_def demo_agent_store_def)

lemma demo_no_accounts: "ms_principals demo_agent_store = gm_empty" "directory_store demo_auth s = s"
  by (simp_all add: demo_agent_store_def new_mem_store_def directory_store_def demo_auth_def)

theorem agent_token_lifetime_witness:
  "\<exists>ap token s'. mint_agent_core 5 (\<lambda>_. Some (''ab'', ''cd'')) ''fix'' 0 None new_mem_store = (Inr (ap, token), s')
     \<and> caller_for_bearer demo_auth 6 s' token = principal_credential (agent_caller demo_auth ap)
     \<and> caller_for_bearer demo_auth (6 + agent_default_ttl) s' token = no_credential"
proof -
  let ?token = "hex_encode ''cd''"
  let ?ap = "agent_row 5 agent_default_ttl ''fix'' [] (hex_encode ''ab'') ?token"
  let ?s = "new_mem_store\<lparr>ms_agents := gm_put gm_empty (ag_name ?ap) ?ap\<rparr>"
  have "task_slug_ok ''fix''" by code_simp
  moreover have "clamp_ttl 0 = agent_default_ttl" by code_simp
  moreover have "[0..<agent_mint_retries] = [0, 1, 2, 3]" by code_simp
  ultimately have run: "mint_agent_core 5 (\<lambda>_. Some (''ab'', ''cd'')) ''fix'' 0 None new_mem_store = (Inr (?ap, ?token), ?s)"
    by (simp add: mint_agent_core_def mint_agent_principal_def Let_def new_mem_store_def)
  have "?token = ''6364''" by code_simp
  then have free: "unconfigured demo_auth ?token" by (simp add: unconfigured_def demo_auth_def token_of_def)
  have "0 < agent_default_ttl" "6 < 5 + agent_default_ttl" by code_simp+
  then show ?thesis
    using run agent_token_lifetime [OF run store_ok_new free] by (auto simp: new_mem_store_def agent_row_def)
qed

theorem basic_identity_sound_witness:
  "let (r, c') = caller_for_basic demo_auth None 50 demo_agent_store True ''agent-fix-0a1b'' ''secret'' no_cache
   in rs_principal r = Some (agent_caller demo_auth demo_agent) \<and> cache_sound (account_hash demo_auth demo_agent_store) c'
     \<and> pn_name (agent_caller demo_auth demo_agent) = ''agent-fix-0a1b''"
proof -
  have "agent_by_basic demo_auth 50 demo_agent_store ''agent-fix-0a1b'' ''secret'' = Some (agent_caller demo_auth demo_agent)"
    by (simp add: agent_by_basic_def demo_agent_named demo_agent_def agent_row_def agent_live_def)
  then have run: "caller_for_basic demo_auth None 50 demo_agent_store True ''agent-fix-0a1b'' ''secret'' no_cache
      = (principal_credential (agent_caller demo_auth demo_agent), no_cache)"
    by (simp add: caller_for_basic_def demo_auth_def account_caller_def)
  have "orgs_plain demo_auth demo_agent_store" by (simp add: orgs_plain_def demo_no_accounts gm_vals_def gm_empty_def) (simp add: demo_auth_def)
  from basic_identity_sound [OF _ demo_agent_store_ok this no_cache_sound run]
  show ?thesis using run demo_agent_store_ok by (simp add: demo_no_accounts principal_credential_def deploy_credential_def)
qed

section \<open>Accounts\<close>

lemma config_name_free:
  assumes "\<not> config_name a name"
  shows "find (\<lambda>t. name = pn_name (snd t) \<and> P t) (au_principals a) = None" "find (\<lambda>t. name = bl_name (snd t) \<and> Q t) (au_lanes a) = None"
  using assms by (auto simp: config_name_def list_ex_iff find_None_iff)

lemma signup_effect:
  assumes "signup_core a parse_address salt req s = (Inr u, s')"
  shows "au_allow_signup a \<and> code_ok a req \<and> \<not> config_name a (sr_name req)
    \<and> get_stored_principal s (sr_org req) (sr_name req) = None
    \<and> (\<exists>sp. sp_org sp = sr_org req \<and> sp_name sp = sr_name req \<and> verify_credential (sr_password req) (sp_credential sp)
        \<and> s' = s\<lparr>ms_principals := gm_put (ms_principals s) (nul_key (sr_org req) (sr_name req)) sp\<rparr>)"
proof -
  obtain h where h: "hash_credential salt (sr_password req) = Some h"
      "create_principal (sr_org req) (sr_name req) h (go_trim_space (sr_email req)) s = (Inr u, s')"
    and guards: "au_allow_signup a" "code_ok a req" "\<not> config_name a (sr_name req)" "get_stored_principal s (sr_org req) (sr_name req) = None"
    using assms by (auto simp: signup_core_def Let_def split: if_splits option.splits prod.splits sum.splits)
  obtain r where r: "salt = Some r" using h(1) by (cases salt) (auto simp: hash_credential_def)
  have "verify_credential (sr_password req) h" using credential_round_trip_aux [of r "sr_password req"] h(1) r by auto
  then show ?thesis
    using guards h(2) by (auto simp: create_principal_def intro!: exI [of _ "\<lparr>sp_org = sr_org req, sp_name = sr_name req,
        sp_credential = h, sp_email = go_trim_space (sr_email req)\<rparr>"] split: option.splits)
qed

text \<open>Signing up opens an account for the one who signs up and for nobody else: it happens only when sign-up is
  enabled and the code is right, under a name that neither a configured principal or lane nor another account of the
  org has; it writes that one row, and the name and password then resolve to the account, a human without rights
  of an administrator, wherever no agent has that name and the password is not the deploy token.\<close>
theorem signup_opens_account:
  assumes run: "signup_core a parse_address salt req s = (Inr u, s')"
  shows "au_allow_signup a \<and> code_ok a req \<and> \<not> config_name a (sr_name req)
    \<and> get_stored_principal s (sr_org req) (sr_name req) = None
    \<and> (\<exists>sp. sp_org sp = sr_org req \<and> sp_name sp = sr_name req
        \<and> s' = s\<lparr>ms_principals := gm_put (ms_principals s) (nul_key (sr_org req) (sr_name req)) sp\<rparr>
        \<and> (au_directory a = None \<and> sr_org req = au_org a \<and> sr_password req \<noteq> au_token a \<and> get_agent_by_name s (sr_name req) = None \<longrightarrow>
             (\<forall>random now gated c. fst (caller_for_basic a random now s' gated (sr_name req) (sr_password req) c)
                = principal_credential (account_caller sp False))))"
proof -
  obtain sp where sp: "sp_org sp = sr_org req" "sp_name sp = sr_name req" "verify_credential (sr_password req) (sp_credential sp)"
      "s' = s\<lparr>ms_principals := gm_put (ms_principals s) (nul_key (sr_org req) (sr_name req)) sp\<rparr>"
    using signup_effect [OF run] by blast
  have "fst (caller_for_basic a random now s' gated (sr_name req) (sr_password req) c) = principal_credential (account_caller sp False)"
    if "au_directory a = None" "sr_org req = au_org a" "sr_password req \<noteq> au_token a" "get_agent_by_name s (sr_name req) = None" for random now gated c
  proof -
    have "agent_by_basic a now s' (sr_name req) (sr_password req) = None"
      using that(4) sp(4) by (simp add: agent_by_basic_def get_agent_by_name_def)
    moreover have "get_stored_principal (directory_store a s') (au_org a) (sr_name req) = Some sp"
      using that(1,2) sp(4) by (simp add: directory_store_def get_stored_principal_def)
    moreover have "\<not> config_name a (sr_name req)" using signup_effect [OF run] by blast
    ultimately show ?thesis
      using that sp(3)
      by (simp add: caller_for_basic_def config_name_free account_credential_def opens_def org_account_def)
  qed
  then show ?thesis using signup_effect [OF run] sp by blast
qed

text \<open>Sign-up does not look at the agents' names, and the funnel looks up accounts before agents: whoever may sign up
  turns the pushes of a live agent into pushes of a human, without its policy.\<close>

lemma account_shadows_agent:
  assumes signup: "signup_core a parse_address salt req s = (Inr u, s')" and name: "sr_name req \<noteq> []"
    and same: "sr_org req = pc_org p" "pc_directory p = None" "gt_principals (pc_gate p) = map snd (au_principals a)"
    and agent: "get_agent_by_name s (sr_name req) = Some ap" "agent_live ap now"
  shows "map_option pn_is_agent (principal_by_name p now s (sr_name req)) = Some True
    \<and> map_option pn_is_agent (principal_by_name p now s' (sr_name req)) = Some False"
proof -
  note effect = signup_effect [OF signup]
  have "find (\<lambda>q. pn_name q = sr_name req) (map snd (au_principals a)) = None"
    using effect by (auto simp: config_name_def list_ex_iff find_None_iff)
  then show ?thesis
    using effect name same agent
    by (auto simp: principal_by_name_def directory_of_def get_stored_principal_def get_agent_by_name_def)
qed

definition demo_signup :: signup_request where
  "demo_signup = \<lparr>sr_name = ''agent-fix-0a1b'', sr_password = ''longenough'', sr_code = [], sr_email = [], sr_org = []\<rparr>"

lemma demo_signup_runs:
  "\<exists>s'. signup_core demo_auth (\<lambda>_. None) (Some ''salt'') demo_signup demo_agent_store = (Inr (), s')"
proof -
  obtain h where "hash_credential (Some ''salt'') ''longenough'' = Some h" using credential_round_trip_aux by blast
  moreover have "principal_name_ok ''agent-fix-0a1b''" "go_trim_space [] = []" by code_simp+
  ultimately show ?thesis
    by (simp add: signup_core_def demo_signup_def demo_auth_def code_ok_def min_password_length_def config_name_def account_caller_def
        get_stored_principal_def demo_no_accounts create_principal_def)
qed

theorem signup_opens_account_witness:
  "\<exists>s' sp. signup_core demo_auth (\<lambda>_. None) (Some ''salt'') (demo_signup\<lparr>sr_name := ''bea''\<rparr>) demo_agent_store = (Inr (), s')
     \<and> fst (caller_for_basic demo_auth None 9 s' True ''bea'' ''longenough'' no_cache) = principal_credential (account_caller sp False)"
proof -
  obtain h where "hash_credential (Some ''salt'') ''longenough'' = Some h" using credential_round_trip_aux by blast
  moreover have "principal_name_ok ''bea''" "go_trim_space [] = []" by code_simp+
  ultimately obtain s' where run: "signup_core demo_auth (\<lambda>_. None) (Some ''salt'') (demo_signup\<lparr>sr_name := ''bea''\<rparr>) demo_agent_store = (Inr (), s')"
    by (simp add: signup_core_def demo_signup_def demo_auth_def code_ok_def min_password_length_def config_name_def account_caller_def
        get_stored_principal_def demo_no_accounts create_principal_def)
  have "get_agent_by_name demo_agent_store ''bea'' = None" by (simp add: get_agent_by_name_def demo_agent_store_def)
  then show ?thesis
    using run signup_opens_account [OF run] by (auto simp: demo_signup_def demo_auth_def)
qed

end
