(* ===== verification/Hub.thy ===== *)
theory Hub
  imports Identity
begin

text \<open>
  The hub of organisations (\<open>runkod/orghub.go\<close>): the registry of mounted orgs, sign-up into an org, org creation with
  its first commit, memberships, settings, the archive and the agent policies, and the router. The hub's accounts and
  memberships are one store. Making a bare repository, its hook, its first commit and a server around it is what the
  configuration does to the repositories; each may fail.
\<close>

section \<open>Configuration and state\<close>

record 'w org_hub =
  oh_auth :: "'w auth"
  oh_default :: string
  oh_mount :: string
  oh_allow_create :: bool
  oh_trunk :: string
  oh_agents_md :: string
  oh_skill_md :: string
  oh_skill_path :: string
  oh_ensure_repo :: "string \<Rightarrow> 'w \<Rightarrow> bool \<times> 'w"
  oh_install_hook :: "string \<Rightarrow> 'w \<Rightarrow> bool \<times> 'w"
  oh_resolve :: "string \<Rightarrow> string \<Rightarrow> 'w \<Rightarrow> string option"
  oh_commit :: "string \<Rightarrow> (string \<times> string) list \<Rightarrow> string \<Rightarrow> 'w \<Rightarrow> string option \<times> 'w"
  oh_update_ref :: "string \<Rightarrow> string \<Rightarrow> string \<Rightarrow> 'w \<Rightarrow> bool \<times> 'w"
  oh_new_store :: "string \<Rightarrow> bool"
  oh_new_server :: "string \<Rightarrow> bool"
  oh_index :: "string \<Rightarrow> string \<Rightarrow> 'w \<Rightarrow> indexed_project list option"

record 'w hub_state =
  hb_store :: mem_store
  hb_orgs :: "string list"
  hb_archived :: "(string, bool) gomap"
  hb_cache :: cred_cache
  hb_repos :: 'w

text \<open>A request: its \<open>Authorization\<close> header, the clock, and the bytes drawn should the cache need a key.\<close>

record hub_request =
  hr_header :: string
  hr_now :: go_time
  hr_random :: "string option"

type_synonym ('w, 'a) hub_reply = "(api_error + 'a) \<times> 'w hub_state"

definition hub_refuse :: "int \<Rightarrow> string \<Rightarrow> 'w hub_state \<Rightarrow> ('w, 'a) hub_reply" where
  "hub_refuse status code st = (Inl (typed_err status code), st)"

definition hub_broken :: "'w hub_state \<Rightarrow> ('w, 'a) hub_reply" where
  "hub_broken st = (Inl internal_err, st)"

definition org_name_char :: "char \<Rightarrow> bool" where
  "org_name_char c \<longleftrightarrow> (CHR ''a'' \<le> c \<and> c \<le> CHR ''z'') \<or> (CHR ''0'' \<le> c \<and> c \<le> CHR ''9'') \<or> c = CHR ''-''"

definition org_name_ok :: "string \<Rightarrow> bool" where
  "org_name_ok n \<longleftrightarrow> n \<noteq> [] \<and> length n \<le> 39 \<and> CHR ''a'' \<le> hd n \<and> hd n \<le> CHR ''z'' \<and> list_all org_name_char (tl n)"

definition reserved_org_names :: "string list" where
  "reserved_org_names =
     [''api'', ''o'', ''internal'', ''demo'', ''landing'', ''assets'', ''repo'', ''healthz'', ''readyz'', ''metrics'',
      ''changes'', ''browse'', ''projects'', ''workspaces'', ''search'', ''settings'', ''admin'', ''graph'', ''login'', ''signup'']"

definition usable_org_name :: "string \<Rightarrow> bool" where
  "usable_org_name n \<longleftrightarrow> org_name_ok n \<and> n \<notin> set reserved_org_names"

definition known_org :: "'w org_hub \<Rightarrow> 'w hub_state \<Rightarrow> string \<Rightarrow> bool" where
  "known_org h st name \<longleftrightarrow> name = oh_default h \<and> oh_default h \<noteq> [] \<or> name \<in> set (hb_orgs st)"

record org_info =
  oi_name :: string
  oi_role :: string
  oi_api :: string
  oi_git :: string
  oi_default :: bool

definition org_info_for :: "'w org_hub \<Rightarrow> string \<Rightarrow> string \<Rightarrow> org_info" where
  "org_info_for h name role =
     (if name = oh_default h
      then \<lparr>oi_name = name, oi_role = role, oi_api = [], oi_git = slash # oh_mount h, oi_default = True\<rparr>
      else \<lparr>oi_name = name, oi_role = role, oi_api = ''/o/'' @ name, oi_git = ''/o/'' @ name @ [slash] @ name @ ''.git'',
            oi_default = False\<rparr>)"

section \<open>Callers of the hub\<close>

definition hub_auth :: "'w org_hub \<Rightarrow> 'w hub_state \<Rightarrow> 'w auth" where
  "hub_auth h st = (oh_auth h)\<lparr>au_directory := Some (hb_store st)\<rparr>"

text \<open>Who calls, whatever org the account is of; agents and lanes manage no orgs.\<close>

definition hub_caller :: "'w org_hub \<Rightarrow> hub_request \<Rightarrow> 'w hub_state \<Rightarrow> ('w, credential) hub_reply" where
  "hub_caller h rq st =
     (let (r, c) = caller_for_header (hub_auth h st) (hr_random rq) (hr_now rq) (hb_store st) False (hr_header rq) (hb_cache st);
          st1 = st\<lparr>hb_cache := c\<rparr>
      in if \<not> rs_ok r then hub_refuse 401 ''unauthorized'' st1
         else if (case rs_principal r of None \<Rightarrow> False | Some p \<Rightarrow> pn_is_agent p) then hub_refuse 403 ''agent_denied'' st1
         else if rs_lane r \<noteq> None then hub_refuse 403 ''lane_denied'' st1
         else (Inr r, st1))"

definition is_operator :: "credential \<Rightarrow> bool" where
  "is_operator r = (case rs_principal r of None \<Rightarrow> True | Some p \<Rightarrow> \<not> pn_stored p \<and> \<not> pn_is_agent p)"

record org_access =
  oa_role :: string
  oa_read :: bool
  oa_admin :: bool

definition org_access_of :: "'w hub_state \<Rightarrow> credential \<Rightarrow> string \<Rightarrow> org_access" where
  "org_access_of st r org =
     (if is_operator r then \<lparr>oa_role = ''operator'', oa_read = True, oa_admin = True\<rparr>
      else case org_member_role (hb_store st) org (case rs_principal r of None \<Rightarrow> [] | Some p \<Rightarrow> pn_name p) of
             None \<Rightarrow> \<lparr>oa_role = [], oa_read = False, oa_admin = False\<rparr>
           | Some role \<Rightarrow> \<lparr>oa_role = role, oa_read = True, oa_admin = (role = ''admin'')\<rparr>)"

definition require_org :: "'w org_hub \<Rightarrow> hub_request \<Rightarrow> string \<Rightarrow> bool \<Rightarrow> 'w hub_state \<Rightarrow> ('w, credential) hub_reply" where
  "require_org h rq org admin_only st =
     (case hub_caller h rq st of
        (Inl e, st1) \<Rightarrow> (Inl e, st1)
      | (Inr r, st1) \<Rightarrow>
          if \<not> known_org h st1 org then hub_refuse 404 ''unknown_org'' st1
          else (let a = org_access_of st1 r org
                in if \<not> oa_read a then hub_refuse 403 ''not_org_member'' st1
                   else if admin_only \<and> \<not> oa_admin a then hub_refuse 403 ''not_org_admin'' st1
                   else (Inr r, st1)))"

definition require_operator :: "'w org_hub \<Rightarrow> hub_request \<Rightarrow> 'w hub_state \<Rightarrow> ('w, credential) hub_reply" where
  "require_operator h rq st =
     (case hub_caller h rq st of
        (Inl e, st1) \<Rightarrow> (Inl e, st1)
      | (Inr r, st1) \<Rightarrow> if \<not> is_operator r then hub_refuse 403 ''operator_only'' st1 else (Inr r, st1))"

section \<open>Creating an org\<close>

text \<open>The first tree of an org. The texts that teach agents are the generator's.\<close>

definition genesis_manifest :: string where
  "genesis_manifest = go_join [newline]
     [''# Root glue project, seeded at org creation. It owns every path'',
      ''# no deeper PROJECT.yaml claims, so every change resolves a merge policy;'',
      ''# carve real projects out of it with `runko project create`.'',
      ''schema: project/v1'', ''name: repo'', ''type: other'', []]"

definition genesis_owners :: "string \<Rightarrow> string" where
  "genesis_owners creator = go_join [newline]
     [''# Path ownership: the nearest OWNERS file up the tree applies'',
      ''# wherever a PROJECT.yaml names no owners itself. Seeded with the org's'',
      ''# creator - add teammates as they join.'', creator, []]"

definition genesis_contributing :: "string \<Rightarrow> string \<Rightarrow> string" where
  "genesis_contributing org trunk = go_join [newline]
     [''# Contributing to '' @ org, [], ''Trunk (`'' @ trunk @ ''`) is closed to direct push: work lands as reviewed'',
      ''Changes. The three commands that matter:'', [],
      ''    runko change create -m \"<what and why>\"   # commit your work as one Change'',
      ''    runko change push                          # submit it (and its stack) for review'',
      ''    runko change land --change <Change-Id>     # rebase-land once its gates are green'', [],
      ''No runko CLI? Plain git works end to end: `git push origin HEAD:refs/for/'' @ trunk @ ''`'',
      ''creates the same Change, and the server's reply names your next step at'',
      ''every push. `runko doctor` checks a checkout and prints the cheat-sheet;'',
      ''AGENTS.md (alongside this file) teaches coding agents the same loop.'', []]"

definition genesis_files :: "'w org_hub \<Rightarrow> string \<Rightarrow> string \<Rightarrow> (string \<times> string) list" where
  "genesis_files h org creator =
     [(''PROJECT.yaml'', genesis_manifest), (''OWNERS'', genesis_owners creator), (''AGENTS.md'', oh_agents_md h),
      (oh_skill_path h, oh_skill_md h), (''CONTRIBUTING.md'', genesis_contributing org (oh_trunk h))]"

text \<open>A trunk that is born is left alone.\<close>

definition seed_genesis :: "'w org_hub \<Rightarrow> string \<Rightarrow> string \<Rightarrow> 'w \<Rightarrow> bool \<times> 'w" where
  "seed_genesis h org creator w =
     (let trunk = ''refs/heads/'' @ oh_trunk h in
      if oh_resolve h org trunk w \<noteq> None then (True, w)
      else case oh_commit h org (genesis_files h org creator)
               (''org genesis: root manifest, OWNERS ('' @ creator @ ''), AGENTS.md, agent skill, CONTRIBUTING.md'') w of
             (None, w1) \<Rightarrow> (False, w1)
           | (Some c, w1) \<Rightarrow> oh_update_ref h org trunk c w1)"

text \<open>The repository of an org: bare, with its hook, and seeded when somebody creates it.\<close>

definition prepare_repo :: "'w org_hub \<Rightarrow> string \<Rightarrow> string \<Rightarrow> 'w \<Rightarrow> bool \<times> 'w" where
  "prepare_repo h org creator w =
     (case oh_ensure_repo h org w of
        (False, w1) \<Rightarrow> (False, w1)
      | (True, w1) \<Rightarrow>
          (case oh_install_hook h org w1 of
             (False, w2) \<Rightarrow> (False, w2)
           | (True, w2) \<Rightarrow> if creator \<noteq> [] then seed_genesis h org creator w2 else (True, w2)))"

definition mount_org :: "string \<Rightarrow> string \<Rightarrow> 'w hub_state \<Rightarrow> ('w, unit) hub_reply" where
  "mount_org org creator st =
     (if creator \<noteq> []
      then (case upsert_org_member org creator ''admin'' (hb_store st) of
              (Inl _, s) \<Rightarrow> hub_broken (st\<lparr>hb_store := s\<rparr>)
            | (Inr _, s) \<Rightarrow> (Inr (), st\<lparr>hb_store := s, hb_orgs := hb_orgs st @ [org]\<rparr>))
      else (Inr (), st\<lparr>hb_orgs := hb_orgs st @ [org]\<rparr>))"

definition create_org :: "'w org_hub \<Rightarrow> string \<Rightarrow> string \<Rightarrow> bool \<Rightarrow> 'w hub_state \<Rightarrow> ('w, unit) hub_reply" where
  "create_org h org creator fresh st =
     (if \<not> usable_org_name org then hub_refuse 400 ''invalid_org_name'' st
      else if org = oh_default h \<or> org \<in> set (hb_orgs st) \<and> fresh then hub_refuse 409 ''org_exists'' st
      else if org \<in> set (hb_orgs st) then (Inr (), st)
      else (case prepare_repo h org creator (hb_repos st) of
              (False, w) \<Rightarrow> hub_broken (st\<lparr>hb_repos := w\<rparr>)
            | (True, w) \<Rightarrow>
                (case ensure_org org (hb_store st) of
                   (Inl _, s) \<Rightarrow> hub_broken (st\<lparr>hb_repos := w, hb_store := s\<rparr>)
                 | (Inr _, s) \<Rightarrow>
                     if \<not> oh_new_store h org \<or> \<not> oh_new_server h org then hub_broken (st\<lparr>hb_repos := w, hb_store := s\<rparr>)
                     else mount_org org creator (st\<lparr>hb_repos := w, hb_store := s\<rparr>))))"

text \<open>Booting mounts every org the store knows, the archived ones too.\<close>

fun load_orgs :: "'w org_hub \<Rightarrow> org_record list \<Rightarrow> 'w hub_state \<Rightarrow> ('w, string list) hub_reply" where
  "load_orgs h [] st = (Inr [], st)"
| "load_orgs h (o1 # recs) st =
     (if orr_name o1 = oh_default h then load_orgs h recs st
      else case create_org h (orr_name o1) [] False st of
             (Inl e, st1) \<Rightarrow> (Inl e, st1)
           | (Inr _, st1) \<Rightarrow>
               (let st2 = (if orr_archived o1 then st1\<lparr>hb_archived := gm_put (hb_archived st1) (orr_name o1) True\<rparr> else st1) in
                case load_orgs h recs st2 of
                  (Inl e, st3) \<Rightarrow> (Inl e, st3) | (Inr names, st3) \<Rightarrow> (Inr (orr_name o1 # names), st3)))"

definition load_existing :: "'w org_hub \<Rightarrow> 'w hub_state \<Rightarrow> ('w, string list) hub_reply" where
  "load_existing h st = load_orgs h (list_org_records (hb_store st)) st"

section \<open>Signing up into an org\<close>

record hub_signup_request =
  hs_account :: signup_request
  hs_org :: string
  hs_mode :: string

definition signup_org_refusal :: "'w org_hub \<Rightarrow> string \<Rightarrow> string \<Rightarrow> 'w hub_state \<Rightarrow> api_error option" where
  "signup_org_refusal h mode org st =
     (if org = [] then Some (typed_err 400 ''missing_org'')
      else if mode = ''create'' then
        (if \<not> oh_allow_create h then Some (typed_err 403 ''org_create_disabled'')
         else if \<not> usable_org_name org then Some (typed_err 400 ''invalid_org_name'')
         else if org = oh_default h \<or> known_org h st org then Some (typed_err 409 ''org_exists'')
         else None)
      else if mode = ''join'' then (if \<not> known_org h st org then Some (typed_err 404 ''unknown_org'') else None)
      else Some (typed_err 400 ''invalid_org_mode''))"

text \<open>Joining keeps the role of a member.\<close>

definition join_org :: "'w org_hub \<Rightarrow> string \<Rightarrow> string \<Rightarrow> 'w hub_state \<Rightarrow> ('w, org_info) hub_reply" where
  "join_org h org name st =
     (case org_member_role (hb_store st) org name of
        Some role \<Rightarrow> (Inr (org_info_for h org role), st)
      | None \<Rightarrow>
          (case upsert_org_member org name ''member'' (hb_store st) of
             (Inl _, s) \<Rightarrow> hub_broken (st\<lparr>hb_store := s\<rparr>)
           | (Inr _, s) \<Rightarrow> (Inr (org_info_for h org ''member''), st\<lparr>hb_store := s\<rparr>)))"

definition hub_signup ::
  "'w org_hub \<Rightarrow> (string \<Rightarrow> string option) \<Rightarrow> string option \<Rightarrow> string option \<Rightarrow> hub_signup_request \<Rightarrow> 'w hub_state \<Rightarrow>
   ('w, org_info) hub_reply" where
  "hub_signup h parse_address random salt rq st =
     (let org = go_trim_space (hs_org rq); account = (hs_account rq)\<lparr>sr_org := org\<rparr> in
      case signup_org_refusal h (hs_mode rq) org st of
        Some e \<Rightarrow> (Inl e, st)
      | None \<Rightarrow>
          (case ensure_org org (hb_store st) of
             (Inl _, s) \<Rightarrow> hub_broken (st\<lparr>hb_store := s\<rparr>)
           | (Inr _, s) \<Rightarrow>
               (let st1 = st\<lparr>hb_store := s\<rparr> in
                case signup_or_recover_core (hub_auth h st1) random parse_address salt account s (hb_cache st1) of
                  (Inl e, s2, c) \<Rightarrow> (Inl e, st1\<lparr>hb_store := s2, hb_cache := c\<rparr>)
                | (Inr _, s2, c) \<Rightarrow>
                    (let st2 = st1\<lparr>hb_store := s2, hb_cache := c\<rparr> in
                     if hs_mode rq = ''create''
                     then (case create_org h org (sr_name account) True st2 of
                             (Inl e, st3) \<Rightarrow> (Inl e, st3)
                           | (Inr _, st3) \<Rightarrow> (Inr (org_info_for h org ''admin''), st3))
                     else join_org h org (sr_name account) st2))))"

section \<open>Orgs for an account\<close>

text \<open>\<open>Request.BasicAuth\<close>.\<close>

definition basic_auth :: "string \<Rightarrow> (string \<times> string) option" where
  "basic_auth header =
     (if length header < 6 \<or> \<not> go_equal_fold (take 6 header) ''Basic '' then None
      else case b64_std_decode (drop 6 header) of None \<Rightarrow> None | Some raw \<Rightarrow> go_cut CHR '':'' raw)"

text \<open>The creator's account is copied into the new org with the hash the password verified against.\<close>

definition copy_account :: "string \<Rightarrow> string \<Rightarrow> string \<Rightarrow> 'w hub_state \<Rightarrow> bool \<times> 'w hub_state" where
  "copy_account org name pass st =
     (case find (\<lambda>sp. verify_credential pass (sp_credential sp)) (list_principal_orgs (hb_store st) name) of
        None \<Rightarrow> (True, st)
      | Some sp \<Rightarrow>
          (case create_principal org name (sp_credential sp) (sp_email sp) (hb_store st) of
             (Inl _, s) \<Rightarrow> (False, st\<lparr>hb_store := s\<rparr>) | (Inr _, s) \<Rightarrow> (True, st\<lparr>hb_store := s\<rparr>)))"

definition caller_of :: "credential \<Rightarrow> string" where
  "caller_of r = (case rs_principal r of None \<Rightarrow> [] | Some p \<Rightarrow> pn_name p)"

definition hub_create_org :: "'w org_hub \<Rightarrow> hub_request \<Rightarrow> string \<Rightarrow> 'w hub_state \<Rightarrow> ('w, org_info) hub_reply" where
  "hub_create_org h rq org st =
     (case hub_caller h rq st of
        (Inl e, st1) \<Rightarrow> (Inl e, st1)
      | (Inr r, st1) \<Rightarrow>
          if \<not> oh_allow_create h then hub_refuse 403 ''org_create_disabled'' st1
          else (case create_org h org (caller_of r) True st1 of
                  (Inl e, st2) \<Rightarrow> (Inl e, st2)
                | (Inr _, st2) \<Rightarrow>
                    (let stored = (case rs_principal r of None \<Rightarrow> False | Some p \<Rightarrow> pn_stored p);
                         (ok, st3) = (case basic_auth (hr_header rq) of
                             Some (_, pass) \<Rightarrow> if stored then copy_account org (caller_of r) pass st2 else (True, st2)
                           | None \<Rightarrow> (True, st2))
                     in if \<not> ok then hub_broken st3
                        else (Inr (org_info_for h org (if caller_of r = [] then ''operator'' else ''admin'')), st3))))"

definition org_archived :: "'w hub_state \<Rightarrow> string \<Rightarrow> bool" where
  "org_archived st org = gm_true (hb_archived st) org"

text \<open>Without credentials: the public orgs that are not archived.\<close>

definition public_orgs :: "'w org_hub \<Rightarrow> 'w hub_state \<Rightarrow> org_info list" where
  "public_orgs h st =
     map (\<lambda>n. org_info_for h n ''anonymous'')
       (filter (\<lambda>n. \<not> org_archived st n \<and> os_public_read (get_org_settings (hb_store st) n))
          (rev (remdups (rev (list_org_names (hb_store st) @ (if oh_default h \<noteq> [] then [oh_default h] else []))))))"

definition operator_orgs :: "'w org_hub \<Rightarrow> 'w hub_state \<Rightarrow> org_info list" where
  "operator_orgs h st =
     (let recs = list_org_records (hb_store st); names = map orr_name recs;
          mounted = filter (\<lambda>n. n \<notin> set names) (hb_orgs st)
      in map (\<lambda>n. org_info_for h n ''operator'')
           (map orr_name (filter (\<lambda>o1. \<not> orr_archived o1) recs) @ mounted
            @ (if oh_default h \<noteq> [] \<and> oh_default h \<notin> set (names @ mounted) then [oh_default h] else [])))"

text \<open>A membership counts when the password opens that org's account of the name.\<close>

fun member_orgs :: "'w org_hub \<Rightarrow> hub_request \<Rightarrow> string \<Rightarrow> string \<Rightarrow> org_membership list \<Rightarrow> 'w hub_state \<Rightarrow> org_info list \<times> 'w hub_state" where
  "member_orgs h rq name pass [] st = ([], st)"
| "member_orgs h rq name pass (m # ms) st =
     (case get_stored_principal (hb_store st) (om_org m) name of
        None \<Rightarrow> member_orgs h rq name pass ms st
      | Some sp \<Rightarrow>
          if opens (hb_cache st) (nul_key (om_org m) (sp_name sp)) (sp_credential sp) pass
          then (let (out, st') = member_orgs h rq name pass ms
                      (st\<lparr>hb_cache := cache_remember (hr_random rq) (nul_key (om_org m) (sp_name sp)) pass (hb_cache st)\<rparr>)
                in (org_info_for h (om_org m) (om_role m) # out, st'))
          else member_orgs h rq name pass ms st)"

definition list_orgs :: "'w org_hub \<Rightarrow> hub_request \<Rightarrow> 'w hub_state \<Rightarrow> ('w, org_info list) hub_reply" where
  "list_orgs h rq st =
     (if hr_header rq = [] then (Inr (public_orgs h st), st)
      else case hub_caller h rq st of
             (Inl e, st1) \<Rightarrow> (Inl e, st1)
           | (Inr r, st1) \<Rightarrow>
               if is_operator r then (Inr (sort_key oi_name (operator_orgs h st1)), st1)
               else (let pass = (case basic_auth (hr_header rq) of None \<Rightarrow> [] | Some (_, p) \<Rightarrow> p);
                         (out, st2) = member_orgs h rq (caller_of r) pass (list_org_memberships (hb_store st1) (caller_of r)) st1
                     in (Inr (sort_key oi_name out), st2)))"

section \<open>Members\<close>

definition hub_members :: "'w org_hub \<Rightarrow> hub_request \<Rightarrow> string \<Rightarrow> 'w hub_state \<Rightarrow> ('w, org_member list) hub_reply" where
  "hub_members h rq org st =
     (case require_org h rq org False st of
        (Inl e, st1) \<Rightarrow> (Inl e, st1) | (Inr _, st1) \<Rightarrow> (Inr (list_org_members (hb_store st1) org), st1))"

definition hub_remove_member :: "'w org_hub \<Rightarrow> hub_request \<Rightarrow> string \<Rightarrow> string \<Rightarrow> 'w hub_state \<Rightarrow> ('w, unit) hub_reply" where
  "hub_remove_member h rq org name st =
     (case require_org h rq org True st of
        (Inl e, st1) \<Rightarrow> (Inl e, st1)
      | (Inr _, st1) \<Rightarrow>
          if org_member_role (hb_store st1) org name = None then hub_refuse 404 ''not_a_member'' st1
          else (case remove_org_member org name (hb_store st1) of
                  (Inl _, s) \<Rightarrow> hub_broken (st1\<lparr>hb_store := s\<rparr>) | (Inr u, s) \<Rightarrow> (Inr u, st1\<lparr>hb_store := s\<rparr>)))"

definition member_roles :: "string list" where "member_roles = [''member'', ''admin'', ''releaser'']"

definition hub_add_member :: "'w org_hub \<Rightarrow> hub_request \<Rightarrow> string \<Rightarrow> string \<Rightarrow> string \<Rightarrow> 'w hub_state \<Rightarrow> ('w, string) hub_reply" where
  "hub_add_member h rq org name role0 st =
     (case require_org h rq org True st of
        (Inl e, st1) \<Rightarrow> (Inl e, st1)
      | (Inr _, st1) \<Rightarrow>
          (let role = (if role0 = [] then ''member'' else role0) in
           if role \<notin> set member_roles then hub_refuse 400 ''invalid_role'' st1
           else if get_stored_principal (hb_store st1) org name = None then hub_refuse 404 ''unknown_principal'' st1
           else (case ensure_org org (hb_store st1) of
                   (Inl _, s) \<Rightarrow> hub_broken (st1\<lparr>hb_store := s\<rparr>)
                 | (Inr _, s) \<Rightarrow>
                     (case upsert_org_member org name role s of
                        (Inl _, s2) \<Rightarrow> hub_broken (st1\<lparr>hb_store := s2\<rparr>)
                      | (Inr _, s2) \<Rightarrow> (Inr role, st1\<lparr>hb_store := s2\<rparr>)))))"

section \<open>Settings\<close>

definition max_org_description :: nat where "max_org_description = 1000"
definition max_org_required_checks :: nat where "max_org_required_checks = 64"

definition clean_checks :: "string list \<Rightarrow> string list" where
  "clean_checks cs = rev (remdups (rev (filter (\<lambda>c. c \<noteq> []) (map go_trim_space cs))))"

text \<open>An org whose trunk is not born restricts nothing; None is a scan that failed.\<close>

definition restricted_projects :: "'w org_hub \<Rightarrow> string \<Rightarrow> 'w \<Rightarrow> string list option" where
  "restricted_projects h org w =
     (case oh_resolve h org ''HEAD^{commit}'' w of
        None \<Rightarrow> Some []
      | Some head \<Rightarrow> map_option (\<lambda>ps. map ip_name (filter (\<lambda>p. ip_visibility p = ''restricted'') ps)) (oh_index h org head w))"

definition hub_settings :: "'w org_hub \<Rightarrow> hub_request \<Rightarrow> string \<Rightarrow> 'w hub_state \<Rightarrow> ('w, org_settings) hub_reply" where
  "hub_settings h rq org st =
     (case require_org h rq org False st of
        (Inl e, st1) \<Rightarrow> (Inl e, st1) | (Inr _, st1) \<Rightarrow> (Inr (get_org_settings (hb_store st1) org), st1))"

definition save_settings :: "string \<Rightarrow> org_settings \<Rightarrow> 'w hub_state \<Rightarrow> ('w, org_settings) hub_reply" where
  "save_settings org settings st =
     (let kept = settings\<lparr>os_mirror_repo := os_mirror_repo (get_org_settings (hb_store st) org)\<rparr>
      in case update_org_settings org kept (hb_store st) of
           (Inl _, s) \<Rightarrow> hub_broken (st\<lparr>hb_store := s\<rparr>) | (Inr _, s) \<Rightarrow> (Inr kept, st\<lparr>hb_store := s\<rparr>))"

definition put_settings :: "'w org_hub \<Rightarrow> hub_request \<Rightarrow> string \<Rightarrow> org_settings \<Rightarrow> 'w hub_state \<Rightarrow> ('w, org_settings) hub_reply" where
  "put_settings h rq org settings0 st =
     (case require_org h rq org True st of
        (Inl e, st1) \<Rightarrow> (Inl e, st1)
      | (Inr _, st1) \<Rightarrow>
          (let settings = settings0\<lparr>os_global_checks := clean_checks (os_global_checks settings0)\<rparr> in
           if length (os_description settings) > max_org_description then hub_refuse 400 ''description_too_long'' st1
           else if length (os_global_checks settings) > max_org_required_checks then hub_refuse 400 ''too_many_checks'' st1
           else if os_revalidation settings \<notin> {[], scope_conflict_only, scope_intersection, scope_always}
             then hub_refuse 400 ''invalid_revalidation_policy'' st1
           else if os_public_read settings
             then (case restricted_projects h org (hb_repos st1) of
                     None \<Rightarrow> hub_broken st1
                   | Some [] \<Rightarrow> save_settings org settings st1
                   | Some _ \<Rightarrow> hub_refuse 400 ''restricted_projects_present'' st1)
           else save_settings org settings st1))"

section \<open>The operator's surface\<close>

definition admin_create_org :: "'w org_hub \<Rightarrow> hub_request \<Rightarrow> string \<Rightarrow> 'w hub_state \<Rightarrow> ('w, org_info) hub_reply" where
  "admin_create_org h rq org st =
     (case require_operator h rq st of
        (Inl e, st1) \<Rightarrow> (Inl e, st1)
      | (Inr r, st1) \<Rightarrow>
          (case create_org h org (caller_of r) True st1 of
             (Inl e, st2) \<Rightarrow> (Inl e, st2) | (Inr _, st2) \<Rightarrow> (Inr (org_info_for h org ''operator''), st2)))"

record admin_row =
  ar_org :: string
  ar_description :: string
  ar_members :: "string list"
  ar_archived :: bool
  ar_default :: bool

definition admin_orgs :: "'w org_hub \<Rightarrow> hub_request \<Rightarrow> 'w hub_state \<Rightarrow> ('w, admin_row list) hub_reply" where
  "admin_orgs h rq st =
     (case require_operator h rq st of
        (Inl e, st1) \<Rightarrow> (Inl e, st1)
      | (Inr _, st1) \<Rightarrow>
          (let recs0 = list_org_records (hb_store st1);
               recs = (if oh_default h \<noteq> [] \<and> oh_default h \<notin> set (map orr_name recs0)
                       then \<lparr>orr_name = oh_default h, orr_archived = False\<rparr> # recs0 else recs0)
           in (Inr (map (\<lambda>o1. \<lparr>ar_org = orr_name o1, ar_description = os_description (get_org_settings (hb_store st1) (orr_name o1)),
                         ar_members = map omb_name (list_org_members (hb_store st1) (orr_name o1)),
                         ar_archived = orr_archived o1, ar_default = (orr_name o1 = oh_default h)\<rparr>) recs), st1)))"

definition archive_org :: "'w org_hub \<Rightarrow> hub_request \<Rightarrow> string \<Rightarrow> bool \<Rightarrow> 'w hub_state \<Rightarrow> ('w, unit) hub_reply" where
  "archive_org h rq org flag st =
     (case require_operator h rq st of
        (Inl e, st1) \<Rightarrow> (Inl e, st1)
      | (Inr _, st1) \<Rightarrow>
          if org = oh_default h then hub_refuse 400 ''default_org_immutable'' st1
          else if \<not> known_org h st1 org then hub_refuse 404 ''unknown_org'' st1
          else (case set_org_archived org flag (hb_store st1) of
                  (Inl _, s) \<Rightarrow> hub_broken (st1\<lparr>hb_store := s\<rparr>)
                | (Inr u, s) \<Rightarrow> (Inr u, st1\<lparr>hb_store := s, hb_archived := gm_put (hb_archived st1) org flag\<rparr>)))"

definition agent_policy_org :: "'w org_hub \<Rightarrow> hub_request \<Rightarrow> string \<Rightarrow> 'w hub_state \<Rightarrow> ('w, credential) hub_reply" where
  "agent_policy_org h rq org st =
     (case require_operator h rq st of
        (Inl e, st1) \<Rightarrow> (Inl e, st1)
      | (Inr r, st1) \<Rightarrow>
          if (case rs_principal r of None \<Rightarrow> False | Some p \<Rightarrow> pn_is_agent p) then hub_refuse 403 ''agents_cannot_set_policy'' st1
          else if \<not> known_org h st1 org then hub_refuse 404 ''unknown_org'' st1
          else (Inr r, st1))"

definition hub_get_policy :: "'w org_hub \<Rightarrow> hub_request \<Rightarrow> string \<Rightarrow> 'w hub_state \<Rightarrow> ('w, bool \<times> agent_policy) hub_reply" where
  "hub_get_policy h rq org st =
     (case agent_policy_org h rq org st of
        (Inl e, st1) \<Rightarrow> (Inl e, st1)
      | (Inr _, st1) \<Rightarrow>
          (case get_agent_policy (hb_store st1) org [] of
             None \<Rightarrow> (Inr (False, default_agent_policy), st1) | Some p \<Rightarrow> (Inr (True, p), st1)))"

definition hub_set_policy :: "'w org_hub \<Rightarrow> hub_request \<Rightarrow> string \<Rightarrow> agent_policy \<Rightarrow> 'w hub_state \<Rightarrow> ('w, bool \<times> agent_policy) hub_reply" where
  "hub_set_policy h rq org p st =
     (case agent_policy_org h rq org st of
        (Inl e, st1) \<Rightarrow> (Inl e, st1)
      | (Inr _, st1) \<Rightarrow>
          (case set_agent_policy org [] p (hb_store st1) of
             (Inl _, s) \<Rightarrow> hub_broken (st1\<lparr>hb_store := s\<rparr>) | (Inr _, s) \<Rightarrow> (Inr (True, p), st1\<lparr>hb_store := s\<rparr>)))"

definition hub_delete_policy :: "'w org_hub \<Rightarrow> hub_request \<Rightarrow> string \<Rightarrow> 'w hub_state \<Rightarrow> ('w, bool \<times> agent_policy) hub_reply" where
  "hub_delete_policy h rq org st =
     (case agent_policy_org h rq org st of
        (Inl e, st1) \<Rightarrow> (Inl e, st1)
      | (Inr _, st1) \<Rightarrow>
          (case delete_agent_policy org [] (hb_store st1) of
             (Inl _, s) \<Rightarrow> hub_broken (st1\<lparr>hb_store := s\<rparr>)
           | (Inr _, s) \<Rightarrow> (Inr (False, default_agent_policy), st1\<lparr>hb_store := s\<rparr>)))"

section \<open>Routing\<close>

datatype org_route = OrgPreflight | OrgGone | OrgUnknown | ToDefaultOrg | ToOrg string

definition route_org :: "'w org_hub \<Rightarrow> 'w hub_state \<Rightarrow> string \<Rightarrow> string \<Rightarrow> org_route" where
  "route_org h st verb name =
     (let target = (if name = oh_default h \<and> oh_default h \<noteq> [] then Some ToDefaultOrg
                    else if name \<in> set (hb_orgs st) then Some (ToOrg name) else None) in
      if (org_archived st name \<or> target = None) \<and> verb = ''OPTIONS'' then OrgPreflight
      else if org_archived st name then OrgGone
      else case target of None \<Rightarrow> OrgUnknown | Some t \<Rightarrow> t)"

section \<open>Who is let in\<close>

lemma hub_caller_frame:
  assumes "hub_caller h rq st = (res, st1)"
  shows "hb_store st1 = hb_store st" "hb_orgs st1 = hb_orgs st" "hb_archived st1 = hb_archived st" "hb_repos st1 = hb_repos st"
  using assms by (auto simp: hub_caller_def hub_refuse_def Let_def split: prod.splits if_splits)

lemma require_org_frame:
  assumes "require_org h rq org b st = (res, st1)"
  shows "hb_store st1 = hb_store st" "hb_orgs st1 = hb_orgs st" "hb_archived st1 = hb_archived st" "hb_repos st1 = hb_repos st"
  using assms hub_caller_frame [of h rq st]
  by (auto simp: require_org_def hub_refuse_def Let_def split: prod.splits sum.splits if_splits)

lemma require_operator_frame:
  assumes "require_operator h rq st = (res, st1)"
  shows "hb_store st1 = hb_store st" "hb_orgs st1 = hb_orgs st" "hb_archived st1 = hb_archived st" "hb_repos st1 = hb_repos st"
  using assms hub_caller_frame [of h rq st]
  by (auto simp: require_operator_def hub_refuse_def split: prod.splits sum.splits if_splits)

lemma require_org_admin:
  assumes "require_org h rq org True st = (Inr r, st1)"
  shows "known_org h st org \<and> (\<exists>st0. hub_caller h rq st = (Inr r, st0))
    \<and> (is_operator r \<or> org_member_role (hb_store st) org (caller_of r) = Some ''admin'')"
  using assms hub_caller_frame [of h rq st]
  by (auto simp: require_org_def hub_refuse_def Let_def org_access_of_def known_org_def caller_of_def
      split: prod.splits sum.splits if_splits option.splits)

lemma hub_caller_human:
  assumes "hub_caller h rq st = (Inr r, st1)"
  shows "rs_ok r \<and> rs_lane r = None \<and> (\<forall>p. rs_principal r = Some p \<longrightarrow> \<not> pn_is_agent p)"
  using assms by (auto simp: hub_caller_def hub_refuse_def Let_def split: prod.splits if_splits option.splits)

text \<open>Two stores agree outside an org.\<close>

definition same_elsewhere :: "string \<Rightarrow> mem_store \<Rightarrow> mem_store \<Rightarrow> bool" where
  "same_elsewhere org s s' \<longleftrightarrow>
     (\<forall>other who. other \<noteq> org \<longrightarrow> org_member_role s' other who = org_member_role s other who \<and> get_org_settings s' other = get_org_settings s other)"

lemma same_elsewhere_refl [simp]: "same_elsewhere org s s"
  by (simp add: same_elsewhere_def)

lemma same_elsewhere_trans: "same_elsewhere org s s1 \<Longrightarrow> same_elsewhere org s1 s2 \<Longrightarrow> same_elsewhere org s s2"
  by (simp add: same_elsewhere_def)

lemmas role_simps = org_member_role_def sub_get_def gm_sub_def

lemma directory_elsewhere:
  "ensure_org org s = (res, s') \<Longrightarrow> same_elsewhere org s s'"
  "upsert_org_member org n x s = (res, s') \<Longrightarrow> same_elsewhere org s s'"
  "remove_org_member org n s = (res, s') \<Longrightarrow> same_elsewhere org s s'"
  "update_org_settings org settings s = (res, s') \<Longrightarrow> same_elsewhere org s s'"
  by (auto simp: same_elsewhere_def ensure_org_def upsert_org_member_def remove_org_member_def update_org_settings_def
      role_simps get_org_settings_def split: option.splits)

text \<open>Behind the administrator's guard, with the store as it was.\<close>

lemma guarded_store:
  assumes "require_org h rq org b st = (res, st1)"
    and "\<And>r. res = Inr r \<Longrightarrow> hb_store st1 = hb_store st \<Longrightarrow> same_elsewhere org (hb_store st) (hb_store (snd (k r st1)))"
  shows "same_elsewhere org (hb_store st) (hb_store (snd (case res of Inl e \<Rightarrow> (Inl e, st1) | Inr r \<Rightarrow> k r st1)))"
  using require_org_frame(1) [OF assms(1)] assms(2) by (cases res) simp_all

lemma add_member_elsewhere: "same_elsewhere org (hb_store st) (hb_store (snd (hub_add_member h rq org name role st)))"
proof (cases "require_org h rq org True st")
  case (Pair res st1)
  show ?thesis
    unfolding hub_add_member_def Pair prod.case
  proof (rule guarded_store [OF Pair])
    fix r
    assume eq: "hb_store st1 = hb_store st"
    have up: "same_elsewhere org (hb_store st) (hb_store (snd (
        case ensure_org org (hb_store st1) of
          (Inl _, s) \<Rightarrow> hub_broken (st1\<lparr>hb_store := s\<rparr>)
        | (Inr _, s) \<Rightarrow>
            (case upsert_org_member org name rl s of
               (Inl _, s2) \<Rightarrow> hub_broken (st1\<lparr>hb_store := s2\<rparr>)
             | (Inr _, s2) \<Rightarrow> (Inr rl, st1\<lparr>hb_store := s2\<rparr>)))))" for rl
    proof -
      obtain a s where ens: "ensure_org org (hb_store st) = (a, s)" by fastforce
      obtain b s2 where up: "upsert_org_member org name rl s = (b, s2)" by fastforce
      have "same_elsewhere org (hb_store st) s" "same_elsewhere org (hb_store st) s2"
        using directory_elsewhere(1) [OF ens] directory_elsewhere(2) [OF up] same_elsewhere_trans by blast+
      then show ?thesis using eq ens up by (cases a; cases b) (simp_all add: hub_broken_def)
    qed
    show "same_elsewhere org (hb_store st) (hb_store (snd (let role = if role = [] then ''member'' else role in
           if role \<notin> set member_roles then hub_refuse 400 ''invalid_role'' st1
           else if get_stored_principal (hb_store st1) org name = None then hub_refuse 404 ''unknown_principal'' st1
           else (case ensure_org org (hb_store st1) of
                   (Inl _, s) \<Rightarrow> hub_broken (st1\<lparr>hb_store := s\<rparr>)
                 | (Inr _, s) \<Rightarrow>
                     (case upsert_org_member org name role s of
                        (Inl _, s2) \<Rightarrow> hub_broken (st1\<lparr>hb_store := s2\<rparr>)
                      | (Inr _, s2) \<Rightarrow> (Inr role, st1\<lparr>hb_store := s2\<rparr>))))))"
      unfolding Let_def using eq up by (auto simp: hub_refuse_def)
  qed
qed

lemma remove_member_elsewhere: "same_elsewhere org (hb_store st) (hb_store (snd (hub_remove_member h rq org name st)))"
proof (cases "require_org h rq org True st")
  case (Pair res st1)
  show ?thesis
    unfolding hub_remove_member_def Pair prod.case
  proof (rule guarded_store [OF Pair])
    fix r
    assume eq: "hb_store st1 = hb_store st"
    obtain a s where "remove_org_member org name (hb_store st) = (a, s)" by fastforce
    then show "same_elsewhere org (hb_store st) (hb_store (snd (
          if org_member_role (hb_store st1) org name = None then hub_refuse 404 ''not_a_member'' st1
          else (case remove_org_member org name (hb_store st1) of
                  (Inl _, s) \<Rightarrow> hub_broken (st1\<lparr>hb_store := s\<rparr>) | (Inr u, s) \<Rightarrow> (Inr u, st1\<lparr>hb_store := s\<rparr>)))))"
      using eq directory_elsewhere(3) by (cases a) (auto simp: hub_refuse_def hub_broken_def)
  qed
qed

lemma save_settings_elsewhere: "same_elsewhere org (hb_store st) (hb_store (snd (save_settings org settings st)))"
  by (auto simp: save_settings_def hub_broken_def Let_def split: prod.splits sum.splits intro: directory_elsewhere)

lemma put_settings_elsewhere: "same_elsewhere org (hb_store st) (hb_store (snd (put_settings h rq org settings st)))"
proof (cases "require_org h rq org True st")
  case (Pair res st1)
  show ?thesis
    unfolding put_settings_def Pair prod.case
  proof (rule guarded_store [OF Pair])
    fix r
    assume eq: "hb_store st1 = hb_store st"
    have save: "same_elsewhere org (hb_store st) (hb_store (snd (save_settings org q st1)))" for q
      using save_settings_elsewhere [of org st1 q] eq by simp
    show "same_elsewhere org (hb_store st) (hb_store (snd (let settings = settings\<lparr>os_global_checks := clean_checks (os_global_checks settings)\<rparr> in
           if length (os_description settings) > max_org_description then hub_refuse 400 ''description_too_long'' st1
           else if length (os_global_checks settings) > max_org_required_checks then hub_refuse 400 ''too_many_checks'' st1
           else if os_revalidation settings \<notin> {[], scope_conflict_only, scope_intersection, scope_always}
             then hub_refuse 400 ''invalid_revalidation_policy'' st1
           else if os_public_read settings
             then (case restricted_projects h org (hb_repos st1) of
                     None \<Rightarrow> hub_broken st1
                   | Some [] \<Rightarrow> save_settings org settings st1
                   | Some _ \<Rightarrow> hub_refuse 400 ''restricted_projects_present'' st1)
           else save_settings org settings st1)))"
      unfolding Let_def by (simp add: save eq hub_refuse_def hub_broken_def split: option.split list.split)
  qed
qed

lemma guarded_org_changes:
  assumes "st' \<in> {snd (hub_add_member h rq org name role st), snd (hub_remove_member h rq org name st), snd (put_settings h rq org settings st)}"
    and "\<And>r st1. require_org h rq org True st \<noteq> (Inr r, st1)"
  shows "hb_store st' = hb_store st"
proof (cases "require_org h rq org True st")
  case (Pair res st1)
  then have "hb_store st1 = hb_store st" by (rule require_org_frame)
  moreover obtain e where "res = Inl e" using Pair assms(2) by (cases res) auto
  ultimately show ?thesis using assms(1) Pair by (auto simp: hub_add_member_def hub_remove_member_def put_settings_def)
qed

text \<open>C12. The handlers that add a member to an org, remove one and save the org's settings serve its administrators
  only: when one of them leaves a membership or a setting other than it was, the caller is neither an agent nor a lane,
  and is an operator of the daemon or goes by a name that has the role of an administrator in that org; and only that
  org's members and settings have changed. (Signing up into an open org, creating an org and connecting one to GitHub
  write memberships or settings too; they ask for no administrator and are not of this theorem.)\<close>
theorem org_changes_need_admin:
  assumes step: "st' \<in> {snd (hub_add_member h rq org name role st), snd (hub_remove_member h rq org name st), snd (put_settings h rq org settings st)}"
    and change: "ms_org_members (hb_store st') \<noteq> ms_org_members (hb_store st) \<or> ms_org_settings (hb_store st') \<noteq> ms_org_settings (hb_store st)"
  shows "(\<exists>r st1. hub_caller h rq st = (Inr r, st1) \<and> rs_lane r = None \<and> (\<forall>p. rs_principal r = Some p \<longrightarrow> \<not> pn_is_agent p)
      \<and> (is_operator r \<or> org_member_role (hb_store st) org (caller_of r) = Some ''admin''))
    \<and> (\<forall>other who. other \<noteq> org \<longrightarrow> org_member_role (hb_store st') other who = org_member_role (hb_store st) other who
        \<and> get_org_settings (hb_store st') other = get_org_settings (hb_store st) other)"
proof -
  have "same_elsewhere org (hb_store st) (hb_store st')"
    using step add_member_elsewhere remove_member_elsewhere put_settings_elsewhere by fastforce
  moreover obtain r st1 where "require_org h rq org True st = (Inr r, st1)"
    using guarded_org_changes [OF step] change by metis
  then have "\<exists>st0. hub_caller h rq st = (Inr r, st0)"
      "is_operator r \<or> org_member_role (hb_store st) org (caller_of r) = Some ''admin''"
    using require_org_admin by blast+
  ultimately show ?thesis unfolding same_elsewhere_def using hub_caller_human by blast
qed


section \<open>The registry of mounted orgs\<close>

definition hub_ok :: "'w org_hub \<Rightarrow> 'w hub_state \<Rightarrow> bool" where
  "hub_ok h st \<longleftrightarrow> orgs_ok (hb_store st) \<and> distinct (hb_orgs st)
     \<and> (\<forall>n\<in>set (hb_orgs st). usable_org_name n \<and> n \<noteq> oh_default h \<and> n \<in> set (list_org_names (hb_store st)))
     \<and> (\<forall>n. org_archived st n \<longrightarrow> n \<in> set (hb_orgs st))"

text \<open>What unregisters nothing, and what leaves the mounted orgs alone besides.\<close>

definition registry_grows :: "mem_store \<Rightarrow> mem_store \<Rightarrow> bool" where
  "registry_grows s s' \<longleftrightarrow> set (list_org_names s) \<subseteq> set (list_org_names s') \<and> (orgs_ok s \<longrightarrow> orgs_ok s')"

definition quiet :: "'w hub_state \<Rightarrow> 'w hub_state \<Rightarrow> bool" where
  "quiet st st' \<longleftrightarrow> hb_orgs st' = hb_orgs st \<and> hb_archived st' = hb_archived st \<and> registry_grows (hb_store st) (hb_store st')"

lemma registry_grows_refl [simp]: "registry_grows s s"
  by (simp add: registry_grows_def)

lemma registry_grows_trans: "registry_grows s s1 \<Longrightarrow> registry_grows s1 s2 \<Longrightarrow> registry_grows s s2"
  by (auto simp: registry_grows_def)

lemma quiet_refl [simp]: "quiet st st"
  by (simp add: quiet_def)

lemma quiet_trans: "quiet st st1 \<Longrightarrow> quiet st1 st2 \<Longrightarrow> quiet st st2"
  by (auto simp: quiet_def intro: registry_grows_trans)

lemma hub_ok_quiet: "hub_ok h st \<Longrightarrow> quiet st st' \<Longrightarrow> hub_ok h st'"
  by (auto simp: hub_ok_def quiet_def registry_grows_def org_archived_def)

lemma quiet_fields [simp]:
  "quiet st (st'\<lparr>hb_repos := w\<rparr>) \<longleftrightarrow> quiet st st'" "quiet st (st'\<lparr>hb_cache := c\<rparr>) \<longleftrightarrow> quiet st st'"
  "quiet st (st\<lparr>hb_store := s\<rparr>) \<longleftrightarrow> registry_grows (hb_store st) s"
  by (simp_all add: quiet_def)

lemma registry_grows_same:
  "ms_org_names s' = ms_org_names s \<Longrightarrow> ms_org_members s' = ms_org_members s \<Longrightarrow> registry_grows s s'"
  by (simp add: registry_grows_def list_org_names_def orgs_ok_def)

lemma ensured_org: "ensure_org org s = (res, s') \<Longrightarrow> orgs_ok s \<Longrightarrow> org \<in> set (list_org_names s')"
  by (auto simp: ensure_org_def list_org_names_def orgs_ok_def gm_keys_iff split: option.splits)

lemma directory_grows:
  "ensure_org org s = (res, s') \<Longrightarrow> registry_grows s s'"
  "upsert_org_member org n x s = (res, s') \<Longrightarrow> registry_grows s s'"
  "remove_org_member org n s = (res, s') \<Longrightarrow> registry_grows s s'"
  "update_org_settings org settings s = (res, s') \<Longrightarrow> registry_grows s s'"
  "set_org_archived org flag s = (res, s') \<Longrightarrow> registry_grows s s'"
  "set_agent_policy org n p s = (res, s') \<Longrightarrow> registry_grows s s'"
  "delete_agent_policy org n s = (res, s') \<Longrightarrow> registry_grows s s'"
  "create_principal org n hash email s = (res, s') \<Longrightarrow> registry_grows s s'"
proof -
  show "registry_grows s s'" if "ensure_org org s = (res, s')"
    using that ensure_org_ok [of s org] by (auto simp: registry_grows_def ensure_org_def list_org_names_def split: option.splits)
  show "registry_grows s s'" if "upsert_org_member org n x s = (res, s')"
    using that upsert_org_member_ok [of s org n x] by (auto simp: registry_grows_def upsert_org_member_def list_org_names_def split: option.splits)
  show "registry_grows s s'" if "remove_org_member org n s = (res, s')"
    using that remove_org_member_ok [of s org n] by (auto simp: registry_grows_def remove_org_member_def list_org_names_def split: option.splits)
qed (auto simp: update_org_settings_def set_org_archived_def set_agent_policy_def delete_agent_policy_def create_principal_def
       intro!: registry_grows_same split: option.splits)

lemma guarded_quiet:
  assumes "require_org h rq org b st = (res, st1)" and "\<And>r. res = Inr r \<Longrightarrow> quiet st1 (snd (k r st1))"
  shows "quiet st (snd (case res of Inl e \<Rightarrow> (Inl e, st1) | Inr r \<Rightarrow> k r st1))"
proof -
  have "quiet st st1" using require_org_frame [OF assms(1)] by (simp add: quiet_def)
  then show ?thesis using assms(2) quiet_trans by (cases res) auto
qed

lemma operator_quiet: "require_operator h rq st = (res, st1) \<Longrightarrow> quiet st st1"
  using require_operator_frame [of h rq st res st1] by (simp add: quiet_def)

lemma caller_quiet: "hub_caller h rq st = (res, st1) \<Longrightarrow> quiet st st1"
  using hub_caller_frame [of h rq st res st1] by (simp add: quiet_def)

lemma create_org_mounts:
  assumes ok: "hub_ok h st" and run: "create_org h org creator fresh st = (res, st')"
  shows "hub_ok h st' \<and> registry_grows (hb_store st) (hb_store st') \<and> (res = Inr () \<longrightarrow> org \<in> set (hb_orgs st'))"
proof (cases "usable_org_name org \<and> org \<noteq> oh_default h \<and> org \<notin> set (hb_orgs st)")
  case False
  then have "st' = st \<and> (res = Inr () \<longrightarrow> org \<in> set (hb_orgs st))"
    using run by (auto simp: create_org_def hub_refuse_def split: if_splits)
  then show ?thesis using ok by simp
next
  case new: True
  obtain b w where prep: "prepare_repo h org creator (hb_repos st) = (b, w)" by fastforce
  obtain e s where ens: "ensure_org org (hb_store st) = (e, s)" by fastforce
  obtain e2 s2 where up: "upsert_org_member org creator ''admin'' s = (e2, s2)" by fastforce
  have grows: "registry_grows (hb_store st) s" "registry_grows s s2" using directory_grows ens up by blast+
  have inside: "org \<in> set (list_org_names s)" using ensured_org [OF ens] ok by (simp add: hub_ok_def)
  have mounted: "hub_ok h (st\<lparr>hb_repos := w, hb_store := x, hb_orgs := hb_orgs st @ [org]\<rparr>)"
    if "registry_grows s x" for x
    using ok new inside grows(1) that by (auto simp: hub_ok_def registry_grows_def org_archived_def)
  have quiet: "hub_ok h (st\<lparr>hb_repos := w, hb_store := x\<rparr>)" if "registry_grows (hb_store st) x" for x
    by (rule hub_ok_quiet [OF ok]) (use that in \<open>simp add: quiet_def\<close>)
  have grows2: "registry_grows (hb_store st) s2" using registry_grows_trans [OF grows] .
  show ?thesis
  proof (cases "b \<and> e = Inr () \<and> oh_new_store h org \<and> oh_new_server h org")
    case False
    then have "hb_store st' \<in> {hb_store st, s}" "st' = st\<lparr>hb_repos := w, hb_store := hb_store st'\<rparr>" "res \<noteq> Inr ()"
      using run new prep ens by (auto simp: create_org_def hub_broken_def split: sum.splits if_splits bool.splits)
    then show ?thesis using quiet grows(1) by (metis empty_iff insert_iff registry_grows_refl)
  next
    case True
    then have run2: "mount_org org creator (st\<lparr>hb_repos := w, hb_store := s\<rparr>) = (res, st')"
      using run new prep ens by (simp add: create_org_def)
    show ?thesis
    proof (cases "creator = []")
      case True
      then have "st' = st\<lparr>hb_repos := w, hb_store := s, hb_orgs := hb_orgs st @ [org]\<rparr>" using run2 by (simp add: mount_org_def)
      then show ?thesis using mounted [of s] grows(1) by simp
    next
      case False
      then consider "e2 \<noteq> Inr ()" "st' = st\<lparr>hb_repos := w, hb_store := s2\<rparr>" "res \<noteq> Inr ()"
        | "st' = st\<lparr>hb_repos := w, hb_store := s2, hb_orgs := hb_orgs st @ [org]\<rparr>"
        using run2 up by (cases e2) (auto simp: mount_org_def hub_broken_def)
      then show ?thesis using mounted [OF grows(2)] quiet [OF grows2] grows2 by cases auto
    qed
  qed
qed

lemma member_changes_quiet:
  "quiet st (snd (hub_add_member h rq org name role st))" "quiet st (snd (hub_remove_member h rq org name st))"
proof -
  obtain res st1 where req: "require_org h rq org True st = (res, st1)" by fastforce
  have up: "quiet st1 (snd (case ensure_org org (hb_store st1) of
        (Inl _, s) \<Rightarrow> hub_broken (st1\<lparr>hb_store := s\<rparr>)
      | (Inr _, s) \<Rightarrow>
          (case upsert_org_member org name rl s of
             (Inl _, s2) \<Rightarrow> hub_broken (st1\<lparr>hb_store := s2\<rparr>)
           | (Inr _, s2) \<Rightarrow> (Inr rl, st1\<lparr>hb_store := s2\<rparr>))))" for rl
  proof -
    obtain a s where ens: "ensure_org org (hb_store st1) = (a, s)" by fastforce
    obtain b s2 where up: "upsert_org_member org name rl s = (b, s2)" by fastforce
    show ?thesis
      using directory_grows(1) [OF ens] directory_grows(2) [OF up] ens up registry_grows_trans
      by (cases a; cases b) (auto simp: hub_broken_def)
  qed
  show "quiet st (snd (hub_add_member h rq org name role st))"
    unfolding hub_add_member_def req prod.case
    by (rule guarded_quiet [OF req]) (auto simp: Let_def hub_refuse_def up simp del: quiet_fields)
  show "quiet st (snd (hub_remove_member h rq org name st))"
    unfolding hub_remove_member_def req prod.case
    by (rule guarded_quiet [OF req])
      (auto simp: hub_refuse_def hub_broken_def dest: directory_grows(3) split: prod.splits sum.splits)
qed

lemma save_settings_quiet: "quiet st (snd (save_settings org settings st))"
  by (auto simp: save_settings_def hub_broken_def Let_def dest: directory_grows(4) split: prod.splits sum.splits)

lemma put_settings_quiet: "quiet st (snd (put_settings h rq org settings st))"
proof -
  obtain res st1 where req: "require_org h rq org True st = (res, st1)" by fastforce
  show ?thesis
    unfolding put_settings_def req prod.case
    by (rule guarded_quiet [OF req])
      (simp add: Let_def hub_refuse_def hub_broken_def save_settings_quiet split: option.split list.split)
qed

lemma policy_changes_quiet:
  "quiet st (snd (hub_set_policy h rq org p st))" "quiet st (snd (hub_delete_policy h rq org st))"
proof -
  obtain res st1 where req: "require_operator h rq st = (res, st1)" by fastforce
  note quiet = operator_quiet [OF req]
  obtain a s where a: "set_agent_policy org [] p (hb_store st1) = (a, s)" by fastforce
  obtain b s2 where b: "delete_agent_policy org [] (hb_store st1) = (b, s2)" by fastforce
  have "registry_grows (hb_store st1) s" "registry_grows (hb_store st1) s2"
    using directory_grows(6) [OF a] directory_grows(7) [OF b] by simp_all
  then have later: "quiet st (st1\<lparr>hb_store := s\<rparr>)" "quiet st (st1\<lparr>hb_store := s2\<rparr>)"
    using quiet_trans [OF quiet] by simp_all
  have "snd (agent_policy_org h rq org st) = st1" using req by (cases res) (auto simp: agent_policy_org_def hub_refuse_def)
  then obtain r1 where pol: "agent_policy_org h rq org st = (r1, st1)" by (metis prod.collapse)
  show "quiet st (snd (hub_set_policy h rq org p st))"
    using pol a later(1) quiet by (cases r1; cases a) (auto simp: hub_set_policy_def hub_broken_def simp del: quiet_fields)
  show "quiet st (snd (hub_delete_policy h rq org st))"
    using pol b later(2) quiet by (cases r1; cases b) (auto simp: hub_delete_policy_def hub_broken_def simp del: quiet_fields)
qed

lemma list_orgs_quiet: "quiet st (snd (list_orgs h rq st))"
proof -
  have members: "quiet st1 (snd (member_orgs h rq name pass ms st1))" for name pass ms st1
    by (induction h rq name pass ms st1 rule: member_orgs.induct)
      (auto simp: quiet_def split: option.splits prod.splits)
  obtain res st1 where call: "hub_caller h rq st = (res, st1)" by fastforce
  then have "quiet st st1" by (rule caller_quiet)
  moreover note quiet_trans [OF this members]
  ultimately show ?thesis
    using call by (cases res) (auto simp: list_orgs_def Let_def case_prod_beta)
qed

lemma archive_org_ok:
  assumes "hub_ok h st"
  shows "hub_ok h (snd (archive_org h rq org flag st))"
proof -
  obtain res st1 where req: "require_operator h rq st = (res, st1)" by fastforce
  have ok1: "hub_ok h st1" using hub_ok_quiet [OF assms operator_quiet [OF req]] .
  obtain a s where a: "set_org_archived org flag (hb_store st1) = (a, s)" by fastforce
  note grows = directory_grows(5) [OF a]
  have "hub_ok h (st1\<lparr>hb_store := s, hb_archived := gm_put (hb_archived st1) org flag\<rparr>)" if "org \<noteq> oh_default h" "known_org h st1 org"
    using ok1 grows that by (auto simp: hub_ok_def registry_grows_def org_archived_def known_org_def split: if_splits)
  moreover have "a = Inr ()" using a by (auto simp: set_org_archived_def)
  ultimately show ?thesis
    using req ok1 a by (cases res) (simp_all add: archive_org_def hub_refuse_def)
qed

lemma load_orgs_ok:
  "hub_ok h st \<Longrightarrow> hub_ok h (snd (load_orgs h recs st))"
proof (induction h recs st rule: load_orgs.induct)
  case (2 h o1 recs st)
  show ?case
  proof (cases "orr_name o1 = oh_default h")
    case True
    then show ?thesis using "2.IH"(1) "2.prems" by simp
  next
    case other: False
    obtain res st1 where mk: "create_org h (orr_name o1) [] False st = (res, st1)" by fastforce
    note made = create_org_mounts [OF "2.prems" mk]
    show ?thesis
    proof (cases res)
      case (Inl e)
      then show ?thesis using made mk other by simp
    next
      case (Inr u)
      let ?st2 = "if orr_archived o1 then st1\<lparr>hb_archived := gm_put (hb_archived st1) (orr_name o1) True\<rparr> else st1"
      have "hub_ok h ?st2" using made Inr by (auto simp: hub_ok_def org_archived_def split: if_splits)
      then have "hub_ok h (snd (load_orgs h recs ?st2))" using "2.IH"(2) [OF other mk [symmetric] Inr refl] by simp
      moreover obtain res2 st3 where "load_orgs h recs ?st2 = (res2, st3)" by fastforce
      ultimately show ?thesis using mk other Inr by (cases res2) (simp_all add: Let_def)
    qed
  qed
qed simp

lemma copy_account_quiet: "copy_account org name pass st = (b, st') \<Longrightarrow> quiet st st'"
  by (auto simp: copy_account_def dest: directory_grows(8) split: option.splits prod.splits sum.splits)

lemma hub_create_org_ok:
  assumes "hub_ok h st"
  shows "hub_ok h (snd (hub_create_org h rq org st))"
proof -
  obtain res st1 where call: "hub_caller h rq st = (res, st1)" by fastforce
  have ok1: "hub_ok h st1" using hub_ok_quiet [OF assms caller_quiet [OF call]] .
  show ?thesis
  proof (cases "\<exists>r. res = Inr r \<and> oh_allow_create h")
    case False
    then show ?thesis using call ok1 by (cases res) (auto simp: hub_create_org_def hub_refuse_def)
  next
    case True
    then obtain r where r: "res = Inr r" "oh_allow_create h" by blast
    obtain e st2 where mk: "create_org h org (caller_of r) True st1 = (e, st2)" by fastforce
    have ok2: "hub_ok h st2" using create_org_mounts [OF ok1 mk] by simp
    have "hub_ok h (snd (copy_account org name pass st2))" for name pass
      using hub_ok_quiet [OF ok2 copy_account_quiet] by (metis prod.collapse)
    then show ?thesis
      using call r mk ok2
      by (cases e) (simp_all add: hub_create_org_def hub_broken_def Let_def case_prod_beta split: option.split)
  qed
qed

lemma admin_create_org_ok:
  assumes "hub_ok h st"
  shows "hub_ok h (snd (admin_create_org h rq org st))"
proof -
  obtain res st1 where req: "require_operator h rq st = (res, st1)" by fastforce
  have ok1: "hub_ok h st1" using hub_ok_quiet [OF assms operator_quiet [OF req]] .
  show ?thesis
  proof (cases res)
    case (Inr r)
    obtain e st2 where mk: "create_org h org (caller_of r) True st1 = (e, st2)" by fastforce
    then show ?thesis using create_org_mounts [OF ok1 mk] req Inr by (cases e) (simp_all add: admin_create_org_def)
  qed (use req ok1 in \<open>simp add: admin_create_org_def\<close>)
qed

lemma signup_grows:
  "signup_or_recover_core a random parse_address salt req s c = (res, s', c') \<Longrightarrow> registry_grows s s'"
proof -
  have "registry_grows s (snd (signup_core a parse_address salt req s))"
    by (auto simp: signup_core_def Let_def dest: directory_grows(8) split: option.splits prod.splits sum.splits)
  then show "signup_or_recover_core a random parse_address salt req s c = (res, s', c') \<Longrightarrow> registry_grows s s'"
    by (cases "signup_core a parse_address salt req s"; cases "fst (signup_core a parse_address salt req s)")
      (auto simp: signup_or_recover_core_def Let_def split: if_splits option.splits)
qed

lemma join_org_quiet: "quiet st (snd (join_org h org name st))"
  by (auto simp: join_org_def hub_broken_def dest: directory_grows(2) split: option.splits prod.splits sum.splits)

lemma hub_signup_ok:
  assumes "hub_ok h st"
  shows "hub_ok h (snd (hub_signup h parse_address random salt rq st))"
proof -
  let ?org = "go_trim_space (hs_org rq)"
  let ?account = "(hs_account rq)\<lparr>sr_org := ?org\<rparr>"
  obtain a s where ens: "ensure_org ?org (hb_store st) = (a, s)" by fastforce
  let ?st1 = "st\<lparr>hb_store := s\<rparr>"
  obtain b s2 c where sign: "signup_or_recover_core (hub_auth h ?st1) random parse_address salt ?account s (hb_cache st) = (b, s2, c)"
    using prod_cases3 by blast
  let ?st2 = "st\<lparr>hb_store := s2, hb_cache := c\<rparr>"
  let ?name = "sr_name (hs_account rq)"
  have ok1: "hub_ok h ?st1" using hub_ok_quiet [OF assms] directory_grows(1) [OF ens] by simp
  have ok2: "hub_ok h ?st2" by (rule hub_ok_quiet [OF ok1]) (use signup_grows [OF sign] in \<open>simp add: quiet_def\<close>)
  obtain e st3 where mk: "create_org h ?org ?name True ?st2 = (e, st3)" by fastforce
  have "hub_ok h st3" using create_org_mounts [OF ok2 mk] by simp
  moreover have "hub_ok h (snd (join_org h ?org ?name ?st2))" by (rule hub_ok_quiet [OF ok2 join_org_quiet])
  moreover note known = ens sign mk
  ultimately show ?thesis
  proof (cases "signup_org_refusal h (hs_mode rq) ?org st")
    case None
    then show ?thesis
      using known \<open>hub_ok h st3\<close> \<open>hub_ok h (snd (join_org h ?org ?name ?st2))\<close> ok1 ok2
      by (cases a; cases b; cases e) (simp_all add: hub_signup_def hub_broken_def Let_def)
  qed (use assms in \<open>simp add: hub_signup_def Let_def\<close>)
qed

text \<open>A run of the hub: its handlers, booting, and anything the orgs' own servers do that registers no org.\<close>

inductive hub_step :: "'w org_hub \<Rightarrow> 'w hub_state \<Rightarrow> 'w hub_state \<Rightarrow> bool" for h where
  boot: "hub_step h st (snd (load_existing h st))"
| signup: "hub_step h st (snd (hub_signup h parse_address random salt srq st))"
| create: "hub_step h st (snd (hub_create_org h rq org st))"
| admin_create: "hub_step h st (snd (admin_create_org h rq org st))"
| add: "hub_step h st (snd (hub_add_member h rq org name role st))"
| remove: "hub_step h st (snd (hub_remove_member h rq org name st))"
| settings: "hub_step h st (snd (put_settings h rq org settings st))"
| archive: "hub_step h st (snd (archive_org h rq org flag st))"
| set_policy: "hub_step h st (snd (hub_set_policy h rq org p st))"
| delete_policy: "hub_step h st (snd (hub_delete_policy h rq org st))"
| list_all_orgs: "hub_step h st (snd (list_orgs h rq st))"
| serve: "registry_grows (hb_store st) s \<Longrightarrow> hub_step h st (st\<lparr>hb_store := s, hb_cache := c, hb_repos := w\<rparr>)"

definition fresh_hub :: "mem_store \<Rightarrow> 'w \<Rightarrow> 'w hub_state" where
  "fresh_hub s w = \<lparr>hb_store = s, hb_orgs = [], hb_archived = gm_empty, hb_cache = no_cache, hb_repos = w\<rparr>"

inductive hub_reachable :: "'w org_hub \<Rightarrow> 'w hub_state \<Rightarrow> bool" for h where
  fresh: "orgs_ok s \<Longrightarrow> hub_reachable h (fresh_hub s w)"
| step: "hub_reachable h st \<Longrightarrow> hub_step h st st' \<Longrightarrow> hub_reachable h st'"

lemma hub_step_ok: "hub_step h st st' \<Longrightarrow> hub_ok h st \<Longrightarrow> hub_ok h st'"
proof (induction rule: hub_step.induct)
  case (boot st)
  then show ?case unfolding load_existing_def by (rule load_orgs_ok)
next
  case (serve st s c w)
  show ?case by (rule hub_ok_quiet [OF serve.prems]) (use serve.hyps in \<open>simp add: quiet_def\<close>)
qed (blast intro: hub_signup_ok hub_create_org_ok admin_create_org_ok archive_org_ok
       hub_ok_quiet member_changes_quiet put_settings_quiet policy_changes_quiet list_orgs_quiet)+

lemma hub_reachable_ok: "hub_reachable h st \<Longrightarrow> hub_ok h st"
proof (induction rule: hub_reachable.induct)
  case (step st st')
  then show ?case using hub_step_ok by blast
qed (simp add: fresh_hub_def hub_ok_def org_archived_def)

text \<open>C15. In every state the hub reaches, the router sends a request to an org's server only for an org that is registered
  in the store, has a name one may give an org, is not the default org and is not archived; it answers that an org is
  gone only for one it has mounted; no org is mounted twice; and the default org is always reached under its own name.\<close>
theorem hub_routes_registered_orgs:
  assumes "hub_reachable h st"
  shows "distinct (hb_orgs st)
    \<and> (route_org h st verb name = ToOrg org \<longrightarrow> org = name \<and> usable_org_name org \<and> org \<noteq> oh_default h
         \<and> org \<in> set (list_org_names (hb_store st)) \<and> \<not> org_archived st org)
    \<and> (route_org h st verb name = OrgGone \<longrightarrow> name \<in> set (hb_orgs st) \<and> name \<noteq> oh_default h)
    \<and> (oh_default h \<noteq> [] \<longrightarrow> route_org h st verb (oh_default h) = ToDefaultOrg)"
  using hub_reachable_ok [OF assms] by (auto simp: hub_ok_def route_org_def Let_def split: if_splits)

section \<open>Settings as they are saved\<close>

lemma trim_space_ends:
  assumes "go_trim_space s \<noteq> []"
  shows "\<not> is_space (hd (go_trim_space s)) \<and> \<not> is_space (last (go_trim_space s))"
proof -
  have "\<not> is_space (last (go_trim_right is_space u))" if "go_trim_right is_space u \<noteq> []" for u
    using that hd_dropWhile [of is_space "rev u"] by (simp add: go_trim_right_def last_rev)
  moreover have "hd (go_trim_right is_space u) = hd u" if "go_trim_right is_space u \<noteq> []" for u
  proof -
    have "prefix (go_trim_right is_space u) u"
      by (metis go_trim_right_def prefixI rev_append rev_rev_ident takeWhile_dropWhile_id)
    then show ?thesis using that by (metis hd_append prefix_def)
  qed
  moreover have "go_trim_left is_space s \<noteq> []" using assms by (auto simp: go_trim_space_def go_trim_right_def)
  then have "\<not> is_space (hd (go_trim_left is_space s))" using hd_dropWhile [of is_space s] by (simp add: go_trim_left_def)
  ultimately show ?thesis using assms by (simp add: go_trim_space_def)
qed

lemma clean_checks_clean:
  "distinct (clean_checks cs) \<and> set (clean_checks cs) = go_trim_space ` set cs - {[]} \<and> (\<forall>c\<in>set (clean_checks cs). c \<noteq> [] \<and> go_trim_space c = c)"
  using trim_space_ends go_trim_space_id by (fastforce simp: clean_checks_def)

text \<open>What an org's settings become: a save that succeeds leaves exactly what it answers; its required checks are the
  requested ones, trimmed, without empty names or repetitions, at most 64 of them; its revalidation policy is empty or one
  of the three tiers; the mirror is the one the org had; and an org is readable by the public only when no project at
  its head is restricted.\<close>
theorem settings_saved_clean:
  assumes run: "put_settings h rq org settings st = (Inr saved, st')"
  shows "get_org_settings (hb_store st') org = saved
    \<and> distinct (os_global_checks saved) \<and> length (os_global_checks saved) \<le> 64
    \<and> set (os_global_checks saved) = go_trim_space ` set (os_global_checks settings) - {[]}
    \<and> os_revalidation saved \<in> {[], scope_conflict_only, scope_intersection, scope_always}
    \<and> os_mirror_repo saved = os_mirror_repo (get_org_settings (hb_store st) org)
    \<and> os_public_read saved = os_public_read settings
    \<and> (\<forall>head. os_public_read saved \<and> oh_resolve h org ''HEAD^{commit}'' (hb_repos st) = Some head \<longrightarrow>
         (\<exists>ps. oh_index h org head (hb_repos st) = Some ps \<and> (\<forall>p\<in>set ps. ip_visibility p \<noteq> ''restricted'')))"
proof -
  let ?s = "settings\<lparr>os_global_checks := clean_checks (os_global_checks settings)\<rparr>"
  obtain res st1 where req: "require_org h rq org True st = (res, st1)" by fastforce
  note frame = require_org_frame [OF req]
  obtain r where r: "res = Inr r" using run req by (cases res) (auto simp: put_settings_def)
  note body = run [unfolded put_settings_def req r, simplified Let_def prod.case sum.case]
  have short: "\<not> length (os_description ?s) > max_org_description"
    by (rule notI) (use body in \<open>simp add: hub_refuse_def\<close>)
  have few: "\<not> length (os_global_checks ?s) > max_org_required_checks"
    by (rule notI) (use body short in \<open>simp add: hub_refuse_def\<close>)
  have policy: "os_revalidation ?s \<in> {[], scope_conflict_only, scope_intersection, scope_always}"
    by (rule ccontr) (use body short few in \<open>simp add: hub_refuse_def\<close>)
  have rest: "(if os_public_read ?s
               then (case restricted_projects h org (hb_repos st1) of
                       None \<Rightarrow> hub_broken st1
                     | Some [] \<Rightarrow> save_settings org ?s st1
                     | Some _ \<Rightarrow> hub_refuse 400 ''restricted_projects_present'' st1)
               else save_settings org ?s st1) = (Inr saved, st')"
    using body short few policy by (simp only: if_False not_False_eq_True simp_thms if_True)
  have public: "restricted_projects h org (hb_repos st1) = Some []" if "os_public_read settings"
    using rest that by (cases "restricted_projects h org (hb_repos st1)") (auto simp: hub_refuse_def hub_broken_def split: list.splits)
  have save: "save_settings org ?s st1 = (Inr saved, st')" using rest public by (cases "os_public_read settings") simp_all
  have ok: "length (clean_checks (os_global_checks settings)) \<le> max_org_required_checks"
      "os_revalidation settings \<in> {[], scope_conflict_only, scope_intersection, scope_always}"
    using few policy by simp_all
  have eq: "saved = ?s\<lparr>os_mirror_repo := os_mirror_repo (get_org_settings (hb_store st) org)\<rparr> \<and> get_org_settings (hb_store st') org = saved"
    using save frame(1) by (auto simp: save_settings_def update_org_settings_def get_org_settings_def Let_def)
  have index: "\<exists>ps. oh_index h org head (hb_repos st) = Some ps \<and> (\<forall>p\<in>set ps. ip_visibility p \<noteq> ''restricted'')"
    if "os_public_read settings" "oh_resolve h org ''HEAD^{commit}'' (hb_repos st) = Some head" for head
    using public [OF that(1)] that(2) frame(4) by (auto simp: restricted_projects_def filter_empty_conv)
  have clean: "distinct (clean_checks (os_global_checks settings))"
      "set (clean_checks (os_global_checks settings)) = go_trim_space ` set (os_global_checks settings) - {[]}"
    using clean_checks_clean by blast+
  have parts: "os_global_checks saved = clean_checks (os_global_checks settings)" "os_revalidation saved = os_revalidation settings"
      "os_mirror_repo saved = os_mirror_repo (get_org_settings (hb_store st) org)" "os_public_read saved = os_public_read settings"
    using eq by simp_all
  show ?thesis
    unfolding parts by (intro conjI clean policy [simplified] allI impI)
      (use eq ok index in \<open>auto simp: max_org_required_checks_def\<close>)
qed

section \<open>Signing up into an org\<close>

lemma join_org_effect:
  assumes "join_org h org name st = (Inr info, st')"
  shows "org_member_role (hb_store st') org name = Some (oi_role info) \<and> hb_orgs st' = hb_orgs st
    \<and> (\<forall>role. org_member_role (hb_store st) org name = Some role \<longrightarrow> oi_role info = role \<and> st' = st)
    \<and> (org_member_role (hb_store st) org name = None \<longrightarrow> oi_role info = ''member'')"
  using assms
  by (auto simp: join_org_def hub_broken_def upsert_org_member_def role_simps org_info_for_def split: option.splits prod.splits sum.splits if_splits)

lemma gm_get_nil: "gm_get [] k = None"
  by (simp add: gm_get_def)

lemma ensured_role: "ensure_org org s = (a, s') \<Longrightarrow> org_member_role s' o1 who = org_member_role s o1 who"
  by (cases "o1 = org") (auto simp: ensure_org_def role_simps gm_get_nil split: option.splits)

lemma upserted_role:
  "upsert_org_member org n x s = (Inr u, s') \<Longrightarrow> org_member_role s' o1 who = (if o1 = org \<and> who = n then Some x else org_member_role s o1 who)"
  by (cases "o1 = org") (auto simp: upsert_org_member_def role_simps split: option.splits)

lemma create_org_admin:
  assumes "create_org h org creator True st = (Inr (), st')" "creator \<noteq> []"
  shows "org_member_role (hb_store st') org creator = Some ''admin'' \<and> org \<in> set (hb_orgs st') \<and> usable_org_name org
    \<and> (\<forall>who. who \<noteq> creator \<longrightarrow> org_member_role (hb_store st') org who = org_member_role (hb_store st) org who)"
proof -
  obtain b w where prep: "prepare_repo h org creator (hb_repos st) = (b, w)" by fastforce
  obtain e s where ens: "ensure_org org (hb_store st) = (e, s)" by fastforce
  have new: "usable_org_name org" "org \<notin> set (hb_orgs st)" "b" "e = Inr ()" "mount_org org creator (st\<lparr>hb_repos := w, hb_store := s\<rparr>) = (Inr (), st')"
    using assms(1) prep ens by (auto simp: create_org_def hub_refuse_def hub_broken_def split: if_splits sum.splits bool.splits)
  then show ?thesis
    using assms(2) ensured_role [OF ens]
    by (auto simp: mount_org_def hub_broken_def upserted_role split: prod.splits sum.splits)
qed

lemma signup_frame:
  assumes "signup_or_recover_core a random parse_address salt req s c = (res, s', c')"
  shows "ms_org_members s' = ms_org_members s"
  using assms
  by (auto simp: signup_or_recover_core_def signup_core_def create_principal_def Let_def split: if_splits option.splits prod.splits sum.splits)

text \<open>A sign-up that is accepted leaves the account a member: of a new org, with a name one may give and unknown before,
  as its administrator; or of an org that was known, with the role the account had there, or as a plain member when
  it had none. Nobody else's role changes in the org.\<close>
theorem hub_signup_joins:
  assumes run: "hub_signup h parse_address random salt rq st = (Inr info, st')" and named: "sr_name (hs_account rq) \<noteq> []"
  shows "let org = go_trim_space (hs_org rq); name = sr_name (hs_account rq) in
      known_org h st' org \<and> org_member_role (hb_store st') org name = Some (oi_role info)
    \<and> (hs_mode rq = ''create'' \<longrightarrow> \<not> known_org h st org \<and> usable_org_name org \<and> oi_role info = ''admin'')
    \<and> (hs_mode rq \<noteq> ''create'' \<longrightarrow> known_org h st org
         \<and> oi_role info = (case org_member_role (hb_store st) org name of None \<Rightarrow> ''member'' | Some role \<Rightarrow> role))
    \<and> (\<forall>who. who \<noteq> name \<longrightarrow> org_member_role (hb_store st') org who = org_member_role (hb_store st) org who)"
proof -
  let ?org = "go_trim_space (hs_org rq)" and ?name = "sr_name (hs_account rq)"
  obtain a s where ens: "ensure_org ?org (hb_store st) = (a, s)" by fastforce
  obtain b s2 c where sign: "signup_or_recover_core (hub_auth h (st\<lparr>hb_store := s\<rparr>)) random parse_address salt
      ((hs_account rq)\<lparr>sr_org := ?org\<rparr>) s (hb_cache st) = (b, s2, c)"
    using prod_cases3 by blast
  let ?st2 = "st\<lparr>hb_store := s2, hb_cache := c\<rparr>"
  have roles: "org_member_role s2 o1 who = org_member_role (hb_store st) o1 who" for o1 who
    using ensured_role [OF ens] signup_frame [OF sign] by (simp add: org_member_role_def)
  have none: "signup_org_refusal h (hs_mode rq) ?org st = None"
    using run by (cases "signup_org_refusal h (hs_mode rq) ?org st") (auto simp: hub_signup_def Let_def)
  have passed: "(\<exists>u. a = Inr u) \<and> (\<exists>u. b = Inr u)"
    using run none ens sign by (cases a; cases b) (simp_all add: hub_signup_def hub_broken_def Let_def)
  show ?thesis
  proof (cases "hs_mode rq = ''create''")
    case True
    obtain e st3 where mk: "create_org h ?org ?name True ?st2 = (e, st3)" by fastforce
    have done_: "e = Inr ()" "st' = st3" "info = org_info_for h ?org ''admin''"
      using run none ens sign passed mk True by (cases e; auto simp: hub_signup_def Let_def)+
    have "\<not> known_org h st ?org" using none True by (auto simp: signup_org_refusal_def split: if_splits)
    moreover note create_org_admin [OF mk [unfolded done_(1)] named]
    ultimately show ?thesis using done_ True roles by (simp add: Let_def known_org_def org_info_for_def)
  next
    case False
    have joined: "join_org h ?org ?name ?st2 = (Inr info, st')"
      using run none ens sign passed False by (auto simp: hub_signup_def Let_def)
    have known: "known_org h st ?org" using none False by (auto simp: signup_org_refusal_def split: if_splits)
    have "org_member_role (hb_store st') ?org who = org_member_role s2 ?org who" if "who \<noteq> ?name" for who
      using joined that
      by (auto simp: join_org_def hub_broken_def upsert_org_member_def role_simps split: option.splits prod.splits sum.splits)
    then show ?thesis
      using join_org_effect [OF joined] known False roles by (auto simp: Let_def known_org_def split: option.split)
  qed
qed

text \<open>The row of a new org is written before the sign-up is accepted: whoever asks, also where sign-up is disabled, leaves
  one behind, and booting mounts every row.\<close>

lemma refused_signup_strands_org:
  assumes "oh_allow_create h" "usable_org_name (go_trim_space (hs_org rq))" "\<not> known_org h st (go_trim_space (hs_org rq))"
    "go_trim_space (hs_org rq) \<noteq> oh_default h" "hs_mode rq = ''create''" "\<not> au_allow_signup (oh_auth h)" "orgs_ok (hb_store st)"
  shows "\<exists>st'. hub_signup h parse_address random salt rq st = (Inl (typed_err 403 ''signup_disabled''), st')
    \<and> go_trim_space (hs_org rq) \<in> set (list_org_names (hb_store st'))"
proof -
  let ?org = "go_trim_space (hs_org rq)"
  have "?org \<noteq> []" using assms(2) by (auto simp: usable_org_name_def org_name_ok_def)
  then have "signup_org_refusal h ''create'' ?org st = None" using assms(1-4) by (simp add: signup_org_refusal_def)
  moreover obtain a s where ens: "ensure_org ?org (hb_store st) = (a, s)" by fastforce
  moreover have "a = Inr ()" using ens by (auto simp: ensure_org_def split: option.splits)
  moreover note ensured_org [OF ens assms(7)]
  ultimately show ?thesis
    using assms(5,6) by (simp add: hub_signup_def Let_def signup_or_recover_core_def signup_core_def hub_auth_def)
qed

section \<open>Names of other orgs\<close>

lemma cross_org_account_finds:
  assumes "sp \<in> set rows" "sp_org sp \<noteq> org" "verify_credential pass (sp_credential sp)"
  shows "\<exists>row c'. row \<in> set rows \<and> cross_org_account random org user pass rows c = (Some row, c')"
  using assms by (induction rows) (auto simp: opens_def)

lemma account_opens_hub:
  assumes "au_directory a = Some d" "sp \<in> set (list_principal_orgs d user)" "sp_org sp \<noteq> au_org a" "verify_credential pass (sp_credential sp)"
    and "store_ok d" "orgs_plain a s"
  shows "\<exists>row c'. sp_name row = user \<and> account_credential a random s False user pass c = (principal_credential (account_caller row False), c')"
proof (cases "\<exists>own. get_stored_principal (directory_store a s) (au_org a) user = Some own \<and> opens c (nul_key (au_org a) user) (sp_credential own) pass")
  case True
  then obtain own where own: "get_stored_principal (directory_store a s) (au_org a) user = Some own"
    "opens c (nul_key (au_org a) user) (sp_credential own) pass" by blast
  have d: "directory_store a s = d" using assms(1) by (simp add: directory_store_def)
  have all: "gm_all (\<lambda>k p. nul_key (sp_org p) (sp_name p) = k) (ms_principals d)" using assms(5) by (simp add: store_ok_def)
  have got: "gm_get (ms_principals d) (nul_key (au_org a) user) = Some own" using own(1) d by (simp add: get_stored_principal_def)
  then have "own \<in> set (gm_vals (ms_principals d))" using all gm_vals_iff by (metis gm_all_def)
  then have "sp_name own = user"
    using gm_all_get [OF all got] assms(6) nul_key_inj [of "sp_org own" "au_org a" "sp_name own" user] d by (simp add: orgs_plain_def)
  then show ?thesis using own assms(1) by (auto simp: account_credential_def org_account_def)
next
  case False
  obtain row c' where row: "row \<in> set (list_principal_orgs d user)"
      "cross_org_account random (au_org a) user pass (list_principal_orgs d user) c = (Some row, c')"
    using cross_org_account_finds [OF assms(2,3,4)] by metis
  have "sp_name row = user" using row(1) by (auto simp: list_principal_orgs_def)
  moreover have "account_credential a random s False user pass c = foreign_account a random False user pass c"
    using False by (auto simp: account_credential_def split: option.splits)
  ultimately show ?thesis using row(2) assms(1) by (auto simp: foreign_account_def)
qed

lemma go_cut_append: "c \<notin> set u \<Longrightarrow> go_cut c (u @ c # v) = Some (u, v)"
  by (induction u) (auto simp: go_cut_def)

lemma hub_caller_account:
  assumes header: "hr_header rq = ''Basic '' @ b64" "b64_std_decode b64 = Some (user @ CHR '':'' # pass)" "CHR '':'' \<notin> set user"
    and sp: "sp \<in> set (list_principal_orgs (hb_store st) user)" "sp_org sp \<noteq> au_org (oh_auth h)" "verify_credential pass (sp_credential sp)"
    and free: "\<not> config_name (oh_auth h) user" "pass \<noteq> au_token (oh_auth h)" "get_agent_by_name (hb_store st) user = None"
    and ok: "store_ok (hb_store st)" "orgs_plain (hub_auth h st) (hb_store st)"
  shows "\<exists>row st1. sp_name row = user \<and> hub_caller h rq st = (Inr (principal_credential (account_caller row False)), st1)"
proof -
  let ?a = "hub_auth h st"
  have a: "au_directory ?a = Some (hb_store st)" "au_org ?a = au_org (oh_auth h)" "au_token ?a = au_token (oh_auth h)"
      "config_name ?a user = config_name (oh_auth h) user"
    by (simp_all add: hub_auth_def config_name_def)
  obtain row c' where row: "sp_name row = user"
      "account_credential ?a (hr_random rq) (hb_store st) False user pass (hb_cache st) = (principal_credential (account_caller row False), c')"
    using account_opens_hub [OF a(1) sp(1) _ sp(3) ok] sp(2) a(2) by metis
  have "caller_for_basic ?a (hr_random rq) (hr_now rq) (hb_store st) False user pass (hb_cache st)
      = (principal_credential (account_caller row False), c')"
    using free a row(2) by (simp add: caller_for_basic_def config_name_free agent_by_basic_def)
  moreover have "go_cut CHR '':'' (user @ CHR '':'' # pass) = Some (user, pass)" using header(3) by (simp add: go_cut_append)
  moreover have "go_cut_prefix (''Basic '' @ b64) ''Bearer '' = None" "go_cut_prefix (''Basic '' @ b64) ''Basic '' = Some b64"
    by (simp_all add: go_cut_prefix_def)
  ultimately have "caller_for_header ?a (hr_random rq) (hr_now rq) (hb_store st) False (hr_header rq) (hb_cache st)
      = (principal_credential (account_caller row False), c')"
    using header(1,2) by (simp add: caller_for_header_def)
  then have "hub_caller h rq st = (Inr (principal_credential (account_caller row False)), st\<lparr>hb_cache := c'\<rparr>)"
    by (simp add: hub_caller_def principal_credential_def account_caller_def deploy_credential_def
        no_credential_def)
  then show ?thesis using row(1) by blast
qed

lemma require_org_by_name:
  assumes header: "hr_header rq = ''Basic '' @ b64" "b64_std_decode b64 = Some (user @ CHR '':'' # pass)" "CHR '':'' \<notin> set user"
    and sp: "sp \<in> set (list_principal_orgs (hb_store st) user)" "sp_org sp \<noteq> au_org (oh_auth h)" "verify_credential pass (sp_credential sp)"
    and free: "\<not> config_name (oh_auth h) user" "pass \<noteq> au_token (oh_auth h)" "get_agent_by_name (hb_store st) user = None"
    and ok: "store_ok (hb_store st)" "orgs_plain (hub_auth h st) (hb_store st)"
    and org: "known_org h st org" "org_member_role (hb_store st) org user = Some ''admin''"
  shows "\<exists>row st1. sp_name row = user \<and> require_org h rq org True st = (Inr (principal_credential (account_caller row False)), st1)"
proof -
  obtain row st1 where row: "sp_name row = user" "hub_caller h rq st = (Inr (principal_credential (account_caller row False)), st1)"
    using hub_caller_account [OF header sp free ok] by blast
  note frame = hub_caller_frame [OF row(2)]
  have "org_access_of st1 (principal_credential (account_caller row False)) org = \<lparr>oa_role = ''admin'', oa_read = True, oa_admin = True\<rparr>"
    using org(2) row(1) frame(1) by (simp add: org_access_of_def is_operator_def principal_credential_def account_caller_def)
  moreover have "known_org h st1 org" using org(1) frame(2) by (simp add: known_org_def)
  ultimately show ?thesis using row by (intro exI [of _ row] exI [of _ st1]) (simp add: require_org_def)
qed

lemma guarded_removal:
  assumes req: "require_org h rq org True st = (Inr r, st1)" and "org_member_role (hb_store st) org victim \<noteq> None"
  shows "\<exists>st2. hub_remove_member h rq org victim st = (Inr (), st2) \<and> org_member_role (hb_store st2) org victim = None"
proof -
  obtain members where "gm_get (ms_org_members (hb_store st)) org = Some members"
    using assms(2) by (cases "gm_get (ms_org_members (hb_store st)) org") (auto simp: role_simps gm_get_def)
  then show ?thesis
    using assms(2) require_org_frame(1) [OF req] req by (auto simp: hub_remove_member_def remove_org_member_def role_simps)
qed

text \<open>C29. An administrator of an org is recognised by name alone, not as the account of that org: whoever has an account of
  the administrator's name in any other org, with a password of their own, is let through the guard of the org's
  administrators and removes any of its members, its administrators included. (The list of orgs, in contrast, does
  check the password against the org's own account.)\<close>
theorem stranger_administers:
  assumes header: "hr_header rq = ''Basic '' @ b64" "b64_std_decode b64 = Some (user @ CHR '':'' # pass)" "CHR '':'' \<notin> set user"
    and stranger: "sp \<in> set (list_principal_orgs (hb_store st) user)" "sp_org sp \<noteq> au_org (oh_auth h)" "verify_credential pass (sp_credential sp)"
    and free: "\<not> config_name (oh_auth h) user" "pass \<noteq> au_token (oh_auth h)" "get_agent_by_name (hb_store st) user = None"
    and ok: "store_ok (hb_store st)" "orgs_plain (hub_auth h st) (hb_store st)"
    and org: "known_org h st org" "org_member_role (hb_store st) org user = Some ''admin''" "org_member_role (hb_store st) org victim \<noteq> None"
  shows "\<exists>st1. hub_remove_member h rq org victim st = (Inr (), st1) \<and> org_member_role (hb_store st1) org victim = None"
  using require_org_by_name [OF header stranger free ok org(1,2)] guarded_removal org(3) by blast

text \<open>Two orgs, and a name that has an account in each.\<close>

definition demo_hub :: "repo org_hub" where
  "demo_hub = \<lparr>oh_auth = demo_auth\<lparr>au_org := ''main''\<rparr>, oh_default = ''main'', oh_mount = ''main.git'', oh_allow_create = True, oh_trunk = ''main'',
     oh_agents_md = ''agents'', oh_skill_md = ''skill'', oh_skill_path = ''SKILL.md'',
     oh_ensure_repo = (\<lambda>_ w. (True, w)), oh_install_hook = (\<lambda>_ w. (True, w)), oh_resolve = (\<lambda>_ _ _. None),
     oh_commit = (\<lambda>_ _ _ w. (Some ''c1'', w)), oh_update_ref = (\<lambda>_ _ _ w. (True, w)), oh_new_store = (\<lambda>_. True),
     oh_new_server = (\<lambda>_. True), oh_index = (\<lambda>_ _ _. Some [])\<rparr>"

definition demo_account :: "string \<Rightarrow> string \<Rightarrow> stored_principal" where
  "demo_account org h = \<lparr>sp_org = org, sp_name = ''bob'', sp_credential = h, sp_email = []\<rparr>"

definition demo_orgs_store :: "string \<Rightarrow> mem_store" where
  "demo_orgs_store h = new_mem_store
     \<lparr>ms_principals := gm_put (gm_put gm_empty (nul_key ''alpha'' ''bob'') (demo_account ''alpha'' ''x'')) (nul_key ''beta'' ''bob'') (demo_account ''beta'' h),
      ms_org_names := [''alpha''],
      ms_org_members := gm_put gm_empty ''alpha'' (gm_put (gm_put gm_empty ''bob'' ''admin'') ''cat'' ''admin'')\<rparr>"

definition demo_hub_state :: "string \<Rightarrow> repo hub_state" where
  "demo_hub_state h = \<lparr>hb_store = demo_orgs_store h, hb_orgs = [''alpha''], hb_archived = gm_empty, hb_cache = no_cache, hb_repos = demo_repo\<rparr>"

definition demo_hub_request :: hub_request where
  "demo_hub_request = \<lparr>hr_header = ''Basic Ym9iOmxvbmdlbm91Z2g='', hr_now = 9, hr_random = None\<rparr>"

lemma demo_orgs_store_ok: "store_ok (demo_orgs_store h)"
proof -
  have "gm_all (\<lambda>k p. nul_key (sp_org p) (sp_name p) = k)
      (gm_put (gm_put gm_empty (nul_key ''alpha'' ''bob'') (demo_account ''alpha'' ''x'')) (nul_key ''beta'' ''bob'') (demo_account ''beta'' h))"
    by (intro gm_all_put) (simp_all add: demo_account_def)
  moreover have "orgs_ok (demo_orgs_store h)"
    by (simp add: orgs_ok_def demo_orgs_store_def sub_wf_def gm_put_def gm_empty_def gm_wf_def gm_keys_def)
  ultimately show ?thesis
    using store_ok_new by (simp add: store_ok_def demo_orgs_store_def)
qed

lemma demo_orgs_facts:
  "demo_account ''beta'' h \<in> set (list_principal_orgs (demo_orgs_store h) ''bob'')"
  "orgs_plain (hub_auth demo_hub (demo_hub_state h)) (demo_orgs_store h)"
  "org_member_role (demo_orgs_store h) ''alpha'' ''bob'' = Some ''admin''" "org_member_role (demo_orgs_store h) ''alpha'' ''cat'' = Some ''admin''"
  "get_stored_principal (demo_orgs_store h) ''alpha'' ''bob'' = Some (demo_account ''alpha'' ''x'')"
  "get_agent_by_name (demo_orgs_store h) n = None" "known_org demo_hub (demo_hub_state h) ''alpha''"
  by (simp_all add: list_principal_orgs_def demo_orgs_store_def demo_account_def gm_put_def gm_empty_def nul_key_def gm_vals_def
      orgs_plain_def directory_store_def hub_auth_def demo_hub_def demo_auth_def demo_hub_state_def role_simps gm_get_def
      get_stored_principal_def get_agent_by_name_def new_mem_store_def known_org_def)

lemma demo_hub_facts:
  "hr_header demo_hub_request = ''Basic '' @ ''Ym9iOmxvbmdlbm91Z2g=''" "hb_store (demo_hub_state h) = demo_orgs_store h"
  "sp_org (demo_account o1 h) = o1" "sp_credential (demo_account o1 h) = h" "au_org (oh_auth demo_hub) = ''main''"
  "\<not> config_name (oh_auth demo_hub) ''bob''" "au_token (oh_auth demo_hub) = ''deploy''"
  by (simp_all add: demo_hub_request_def demo_hub_state_def demo_account_def demo_hub_def demo_auth_def config_name_def account_caller_def)

lemma demo_header: "b64_std_decode ''Ym9iOmxvbmdlbm91Z2g='' = Some (''bob'' @ CHR '':'' # ''longenough'')"
  by code_simp

theorem stranger_administers_witness:
  "\<exists>h st1. \<not> verify_credential ''longenough'' (sp_credential (demo_account ''alpha'' ''x''))
     \<and> get_stored_principal (demo_orgs_store h) ''alpha'' ''bob'' = Some (demo_account ''alpha'' ''x'')
     \<and> hub_remove_member demo_hub demo_hub_request ''alpha'' ''cat'' (demo_hub_state h) = (Inr (), st1)
     \<and> org_member_role (hb_store st1) ''alpha'' ''cat'' = None"
proof -
  obtain h where h: "verify_credential ''longenough'' h" using credential_round_trip_aux by blast
  have "\<not> verify_credential ''longenough'' ''x''" by code_simp
  then show ?thesis
    using stranger_administers [OF demo_hub_facts(1) demo_header, of "demo_account ''beta'' h" "demo_hub_state h" demo_hub "''alpha''" "''cat''"]
      h demo_orgs_store_ok [of h] demo_orgs_facts [of h] by (auto simp: demo_hub_facts)
qed

theorem org_changes_need_admin_witness:
  "\<exists>h r st1 st'. st' = snd (hub_remove_member demo_hub demo_hub_request ''alpha'' ''cat'' (demo_hub_state h))
     \<and> hub_caller demo_hub demo_hub_request (demo_hub_state h) = (Inr r, st1)
     \<and> (is_operator r \<or> org_member_role (demo_orgs_store h) ''alpha'' (caller_of r) = Some ''admin'')
     \<and> org_member_role (hb_store st') ''beta'' ''bob'' = org_member_role (demo_orgs_store h) ''beta'' ''bob''"
proof -
  obtain h where h: "verify_credential ''longenough'' h" using credential_round_trip_aux by blast
  let ?st = "demo_hub_state h"
  obtain r st1 where "require_org demo_hub demo_hub_request ''alpha'' True ?st = (Inr r, st1)"
    using require_org_by_name [OF demo_hub_facts(1) demo_header, of "demo_account ''beta'' h" ?st demo_hub "''alpha''"] h
      demo_orgs_store_ok [of h] demo_orgs_facts [of h] by (auto simp: demo_hub_facts)
  then obtain st2 where st2: "hub_remove_member demo_hub demo_hub_request ''alpha'' ''cat'' ?st = (Inr (), st2)"
      "org_member_role (hb_store st2) ''alpha'' ''cat'' = None"
    using guarded_removal [of demo_hub demo_hub_request "''alpha''" ?st r st1 "''cat''"] demo_orgs_facts(4) [of h]
    by (auto simp: demo_hub_facts)
  have "ms_org_members (hb_store st2) \<noteq> ms_org_members (hb_store ?st)"
    using st2(2) demo_orgs_facts(4) [of h] by (auto simp: demo_hub_facts role_simps)
  with org_changes_need_admin [of st2 demo_hub demo_hub_request "''alpha''" "''cat''" "[]" ?st zero_org_settings] st2(1)
  obtain r st1 where "hub_caller demo_hub demo_hub_request ?st = (Inr r, st1)"
      "is_operator r \<or> org_member_role (demo_orgs_store h) ''alpha'' (caller_of r) = Some ''admin''"
      "org_member_role (hb_store st2) ''beta'' ''bob'' = org_member_role (demo_orgs_store h) ''beta'' ''bob''"
    by (auto simp: demo_hub_facts)
  then show ?thesis using st2(1) by (intro exI [of _ h] exI [of _ r] exI [of _ st1] exI [of _ st2]) simp
qed

text \<open>An operator's request, and a sign-up into the first org.\<close>

definition demo_operator_request :: hub_request where
  "demo_operator_request = \<lparr>hr_header = ''Bearer deploy'', hr_now = 9, hr_random = None\<rparr>"

definition demo_settings :: org_settings where
  "demo_settings = zero_org_settings\<lparr>os_global_checks := [''lint'', '' lint'', []], os_public_read := True\<rparr>"

definition demo_hub_signup :: hub_signup_request where
  "demo_hub_signup = \<lparr>hs_account = demo_signup\<lparr>sr_name := ''bea''\<rparr>, hs_org = '' alpha'', hs_mode = ''join''\<rparr>"

lemma demo_operator: "require_org demo_hub demo_operator_request ''alpha'' b (demo_hub_state h) = (Inr deploy_credential, demo_hub_state h)"
  by (simp add: require_org_def hub_caller_def demo_operator_request_def caller_for_header_def go_cut_prefix_def caller_for_bearer_def
      hub_auth_def demo_hub_def demo_auth_def demo_hub_state_def deploy_credential_def no_credential_def known_org_def org_access_of_def is_operator_def)

lemma demo_unrestricted: "restricted_projects demo_hub org w = Some []"
  by (simp add: restricted_projects_def demo_hub_def)

theorem settings_saved_clean_witness:
  "\<exists>saved st'. put_settings demo_hub demo_operator_request ''alpha'' demo_settings (demo_hub_state []) = (Inr saved, st')
     \<and> set (os_global_checks saved) = {''lint''} \<and> get_org_settings (hb_store st') ''alpha'' = saved"
proof -
  have checks: "clean_checks [''lint'', '' lint'', []] = [''lint'']" "go_trim_space ''lint'' = ''lint''" "go_trim_space '' lint'' = ''lint''" "go_trim_space [] = []"
    by code_simp+
  then have "\<exists>saved st'. put_settings demo_hub demo_operator_request ''alpha'' demo_settings (demo_hub_state []) = (Inr saved, st')"
    using demo_unrestricted by (simp add: put_settings_def demo_operator demo_settings_def zero_org_settings_def Let_def max_org_description_def
        max_org_required_checks_def save_settings_def update_org_settings_def)
  then obtain saved st' where run: "put_settings demo_hub demo_operator_request ''alpha'' demo_settings (demo_hub_state []) = (Inr saved, st')"
    by blast
  then show ?thesis using settings_saved_clean [OF run] checks by (auto simp: demo_settings_def)
qed

theorem hub_routes_registered_orgs_witness:
  "\<exists>st. hub_reachable demo_hub st \<and> route_org demo_hub st ''GET'' ''alpha'' = ToOrg ''alpha'' \<and> ''alpha'' \<in> set (list_org_names (hb_store st))
     \<and> route_org demo_hub st ''GET'' ''main'' = ToDefaultOrg"
proof -
  let ?st0 = "fresh_hub (demo_orgs_store []) demo_repo"
  have "hub_reachable demo_hub ?st0" using demo_orgs_store_ok by (intro hub_reachable.fresh) (simp add: store_ok_def)
  then have reach: "hub_reachable demo_hub (snd (load_existing demo_hub ?st0))" by (intro hub_reachable.step [OF _ hub_step.boot])
  have "usable_org_name ''alpha''" by code_simp
  then have "hb_orgs (snd (load_existing demo_hub ?st0)) = [''alpha'']" "hb_archived (snd (load_existing demo_hub ?st0)) = gm_empty"
    by (auto simp: load_existing_def fresh_hub_def list_org_records_def demo_orgs_store_def demo_hub_def create_org_def prepare_repo_def
        ensure_org_def mount_org_def new_mem_store_def Let_def gm_true_def gm_put_def gm_empty_def gm_get_def)
  then have "route_org demo_hub (snd (load_existing demo_hub ?st0)) ''GET'' ''alpha'' = ToOrg ''alpha''"
    by (simp add: route_org_def demo_hub_def org_archived_def gm_true_def)
  moreover have "oh_default demo_hub = ''main''" by (simp add: demo_hub_def)
  ultimately show ?thesis using hub_routes_registered_orgs [OF reach, of "''GET''"] reach by fastforce
qed

theorem hub_signup_joins_witness:
  "\<exists>info st'. hub_signup demo_hub (\<lambda>_. None) None (Some ''salt'') demo_hub_signup (demo_hub_state []) = (Inr info, st')
     \<and> org_member_role (hb_store st') ''alpha'' ''bea'' = Some ''member''
     \<and> org_member_role (hb_store st') ''alpha'' ''bob'' = Some ''admin''"
proof -
  obtain h where "hash_credential (Some ''salt'') ''longenough'' = Some h" using credential_round_trip_aux by blast
  moreover have trim: "principal_name_ok ''bea''" "go_trim_space [] = []" "go_trim_space '' alpha'' = ''alpha''" by code_simp+
  moreover have names: "sr_name (hs_account demo_hub_signup) = ''bea''" "hs_org demo_hub_signup = '' alpha''" "hs_mode demo_hub_signup = ''join''"
    by (simp_all add: demo_hub_signup_def)
  ultimately have "\<exists>info st'. hub_signup demo_hub (\<lambda>_. None) None (Some ''salt'') demo_hub_signup (demo_hub_state []) = (Inr info, st')"
    by (simp add: hub_signup_def demo_hub_signup_def Let_def signup_org_refusal_def demo_orgs_facts ensure_org_def demo_hub_state_def
        demo_orgs_store_def new_mem_store_def signup_or_recover_core_def signup_core_def hub_auth_def demo_hub_def demo_auth_def demo_signup_def
        code_ok_def min_password_length_def config_name_def account_caller_def get_stored_principal_def directory_store_def nul_key_def
        create_principal_def join_org_def role_simps gm_get_nil upsert_org_member_def known_org_def)
  then obtain info st' where run: "hub_signup demo_hub (\<lambda>_. None) None (Some ''salt'') demo_hub_signup (demo_hub_state []) = (Inr info, st')" by blast
  have "org_member_role (demo_orgs_store []) ''alpha'' ''bea'' = None"
    by (simp add: demo_orgs_store_def role_simps gm_get_nil)
  then show ?thesis
    using hub_signup_joins [OF run] run trim names demo_orgs_facts(3) [of "[]"]
    by (auto simp: Let_def demo_hub_state_def)
qed

end
