(* ===== verification/Workspaces.thy ===== *)
theory Workspaces
  imports History
begin

text \<open>
  The workspace registry (\<open>runkod/workspace.go\<close>): creating a workspace over projects and paths, the read cone
  its checkout materializes, moving its base, and deleting it with its refs and feeds.
\<close>

section \<open>Branches\<close>

record 'w ws_git =
  wg_git :: "'w git_out"
  wg_delete :: "string \<Rightarrow> 'w \<Rightarrow> bool \<times> 'w"

definition branch_of :: "string \<Rightarrow> string \<Rightarrow> string option" where
  "branch_of wid ref = (case snapshot_ref_parts ref of (i, branch, good) \<Rightarrow> if good \<and> i = wid then Some branch else None)"

definition workspace_branches :: "'w ws_git \<Rightarrow> 'w \<Rightarrow> string \<Rightarrow> string list" where
  "workspace_branches wg w wid =
     (case wg_git wg w [''for-each-ref'', ''--format=%(refname)'', ''refs/workspaces/'' @ wid @ ''/''] of
        None \<Rightarrow> [] | Some out \<Rightarrow> sort (List.map_filter (branch_of wid) (go_fields out)))"

section \<open>The read cone\<close>

text \<open>\<open>path.Ext\<close> is empty when the last element has no dot.\<close>

definition has_ext :: "string \<Rightarrow> bool" where
  "has_ext p \<longleftrightarrow> CHR ''.'' \<in> set (takeWhile (\<lambda>c. c \<noteq> slash) (rev p))"

definition cone_dir_for :: "string \<Rightarrow> string" where
  "cone_dir_for surface =
     (if surface = [] then []
      else let dir = (if has_ext surface then path_dir surface else surface)
           in if dir = ''.'' \<or> dir = ''/'' \<or> dir = [] then [] else dir)"

definition projects_by_name :: "indexed_project list \<Rightarrow> (string, indexed_project) gomap" where
  "projects_by_name ps = fold (\<lambda>p m. gm_put m (ip_name p) p) ps gm_empty"

text \<open>The directories of the contract surfaces a project consumes.\<close>

definition surfaces_of :: "indexed_project \<Rightarrow> string list" where
  "surfaces_of p = ip_contract_dir p # ip_openapi p # ip_schema_paths p"

definition consumed_dirs :: "(string, indexed_project) gomap \<Rightarrow> indexed_project \<Rightarrow> string list" where
  "consumed_dirs m p =
     filter (\<lambda>d. d \<noteq> []) (map cone_dir_for (concat (map surfaces_of (List.map_filter (gm_get m) (ip_consumes p)))))"

text \<open>The walk over declared and test dependencies, breadth first; it collects the paths to materialize.\<close>

function cone_walk :: "(string, indexed_project) gomap \<Rightarrow> string list \<Rightarrow> string list \<Rightarrow> string list \<Rightarrow> string list" where
  "cone_walk m seen [] acc = acc"
| "cone_walk m seen (n # queue) acc =
     (if n \<in> set seen then cone_walk m seen queue acc
      else case gm_get m n of
             None \<Rightarrow> cone_walk m (n # seen) queue acc
           | Some p \<Rightarrow> cone_walk m (n # seen) (queue @ ip_deps p @ ip_test_deps p)
               ((if ip_path p \<noteq> [] then [ip_path p] else []) @ consumed_dirs m p @ acc))"
  by pat_completeness auto

termination
proof (relation "inv_image (less_than <*lex*> less_than)
    (\<lambda>(m, seen, queue, acc). (card (set (gm_keys m) - set seen), length queue))", goal_cases)
  case (3 m seen n queue acc)
  have "card (set (gm_keys m) - set (n # seen)) \<le> card (set (gm_keys m) - set seen)"
    by (intro card_mono) auto
  then show ?case by auto
next
  case (4 m seen n queue acc p)
  then have "n \<in> set (gm_keys m)" by (simp add: gm_keys_iff)
  then have "set (gm_keys m) - set (n # seen) \<subset> set (gm_keys m) - set seen" using 4 by auto
  then show ?case by (auto simp: psubset_card_mono)
qed (auto intro: wf_inv_image wf_lex_prod)

definition expand_cone_to_deps :: "string list \<Rightarrow> string list \<Rightarrow> indexed_project list \<Rightarrow> string list" where
  "expand_cone_to_deps affinity allowlist ps =
     sorted_names (cone_walk (projects_by_name ps) [] affinity allowlist)"

definition cone_closure :: "'w gate \<Rightarrow> 'w \<Rightarrow> workspace \<Rightarrow> string list" where
  "cone_closure g w ws =
     (if ws_affinity ws = [] then ws_allowlist ws
      else case rd_index (gt_reads g) w (ws_base ws) of
             None \<Rightarrow> ws_allowlist ws
           | Some ps \<Rightarrow> expand_cone_to_deps (ws_affinity ws) (ws_allowlist ws) ps)"

section \<open>Creating\<close>

text \<open>The paths of the named projects, sorted, and the names that are not indexed.\<close>

definition resolve_project_paths :: "indexed_project list \<Rightarrow> string list \<Rightarrow> string list \<times> string list" where
  "resolve_project_paths ps names =
     (let m = projects_by_name ps
      in (sort (map ip_path (List.map_filter (gm_get m) names)), filter (\<lambda>n. gm_get m n = None) names))"

definition project_at :: "indexed_project list \<Rightarrow> (string, string) gomap" where
  "project_at ps = fold (\<lambda>p m. gm_put m (ip_path p) (ip_name p)) ps gm_empty"

definition root_project_name :: "(string, string) gomap \<Rightarrow> string option" where
  "root_project_name m = (case gm_get m [] of Some n \<Rightarrow> Some n | None \<Rightarrow> gm_get m ''.'')"

definition is_abs :: "string \<Rightarrow> bool" where
  "is_abs p \<longleftrightarrow> p \<noteq> [] \<and> hd p = slash"

definition new_path_root :: "(string, string) gomap \<Rightarrow> string \<Rightarrow> api_error + string" where
  "new_path_root m raw =
     (let p = go_trim_suffix raw ''/''; invalid = typed_err 400 ''invalid_new_path'' in
      if p = [] \<or> p = ''.'' then
        (if is_abs raw then Inl invalid else if root_project_name m \<noteq> None then Inl invalid else Inr [])
      else if p \<noteq> path_clean p \<or> is_abs p \<or> p = ''..'' \<or> prefix ''../'' p then Inl invalid
      else if gm_get m p \<noteq> None then Inl (typed_err 409 ''project_exists_at_path'')
      else Inr p)"

fun new_path_roots :: "(string, string) gomap \<Rightarrow> string list \<Rightarrow> api_error + string list" where
  "new_path_roots m [] = Inr []"
| "new_path_roots m (raw # rest) =
     (case new_path_root m raw of
        Inl e \<Rightarrow> Inl e
      | Inr r \<Rightarrow> (case new_path_roots m rest of Inl e \<Rightarrow> Inl e | Inr rs \<Rightarrow> Inr (r # rs)))"

definition validate_new_paths :: "indexed_project list option \<Rightarrow> string list \<Rightarrow> api_error + string list" where
  "validate_new_paths indexed raws =
     (if raws = [] then Inr []
      else case indexed of None \<Rightarrow> Inl internal_err | Some ps \<Rightarrow> new_path_roots (project_at ps) raws)"

definition merge_path_roots :: "string list \<Rightarrow> string list \<Rightarrow> string list" where
  "merge_path_roots a b = sorted_names (a @ b)"

definition new_workspace :: "string \<Rightarrow> string \<Rightarrow> string \<Rightarrow> string list \<Rightarrow> string list \<Rightarrow> workspace" where
  "new_workspace name owner base projects paths =
     \<lparr>ws_id = name, ws_owner = owner, ws_base = base, ws_affinity = projects, ws_allowlist = paths,
      ws_snapshot_ref = ''refs/workspaces/'' @ name @ ''/head'', ws_status = ''active'', ws_created = 0\<rparr>"

definition create_workspace_core ::
  "'w server \<Rightarrow> go_time \<Rightarrow> string \<Rightarrow> string \<Rightarrow> string list \<Rightarrow> string list \<Rightarrow> 'w sys \<Rightarrow> ('w, workspace) reply" where
  "create_workspace_core sv now name owner projects new_paths y =
     (if \<not> workspace_id_ok name then refuse 400 ''invalid_workspace_name'' y
      else if owner = [] \<or> projects = [] \<and> new_paths = [] then refuse 400 ''missing_field'' y
      else case trunk_tip (sv_gate sv) (sy_repo y) of
        None \<Rightarrow> refuse 409 ''trunk_unborn'' y
      | Some base \<Rightarrow>
          (case rd_index (gt_reads (sv_gate sv)) (sy_repo y) base of
             None \<Rightarrow> broken y
           | Some ps \<Rightarrow>
               (let (paths, unknown) = resolve_project_paths ps projects in
                if unknown \<noteq> [] then refuse 400 ''unknown_project'' y
                else case validate_new_paths (Some ps) new_paths of
                       Inl e \<Rightarrow> (Inl e, y)
                     | Inr roots \<Rightarrow>
                         (case create_workspace now (new_workspace name owner base projects (merge_path_roots paths roots)) (sy_store y) of
                            (Inl _, s) \<Rightarrow> refuse 409 ''workspace_exists'' (y\<lparr>sy_store := s\<rparr>)
                          | (Inr ws, s) \<Rightarrow> (Inr ws, y\<lparr>sy_store := s\<rparr>)))))"

text \<open>The preview of a cone for projects that no workspace names yet.\<close>

definition split_comma_list :: "string \<Rightarrow> string list" where
  "split_comma_list s = (if s = [] then [] else filter (\<lambda>x. x \<noteq> []) (map go_trim_space (go_split CHR '','' s)))"

definition sparse_patterns :: "'w gate \<Rightarrow> 'w \<Rightarrow> string \<Rightarrow> api_error + string list" where
  "sparse_patterns g w query =
     (let names = split_comma_list query in
      if names = [] then Inl (typed_err 400 ''missing_field'')
      else case trunk_tip g w of
        None \<Rightarrow> Inl (typed_err 409 ''trunk_unborn'')
      | Some base \<Rightarrow>
          (case rd_index (gt_reads g) w base of
             None \<Rightarrow> Inl internal_err
           | Some ps \<Rightarrow>
               (let (paths, unknown) = resolve_project_paths ps names in
                if unknown \<noteq> [] then Inl (typed_err 400 ''unknown_project'') else Inr (expand_cone_to_deps names paths ps))))"

section \<open>Moving the base, deleting\<close>

definition update_workspace_base_core :: "'w server \<Rightarrow> string \<Rightarrow> string \<Rightarrow> 'w sys \<Rightarrow> ('w, workspace) reply" where
  "update_workspace_base_core sv wid base y =
     (if base = [] then refuse 400 ''missing_field'' y
      else if g_resolve (gt_git (sv_gate sv)) (sy_repo y) (base @ ''^{commit}'') = None then refuse 400 ''unknown_revision'' y
      else case update_workspace_base wid base (sy_store y) of
             (Inl _, s) \<Rightarrow> not_found (y\<lparr>sy_store := s\<rparr>)
           | (Inr ws, s) \<Rightarrow> (Inr ws, y\<lparr>sy_store := s\<rparr>))"

definition branch_ref :: "string \<Rightarrow> string \<Rightarrow> string" where
  "branch_ref wid branch = ''refs/workspaces/'' @ wid @ ''/'' @ branch"

fun delete_branches :: "'w ws_git \<Rightarrow> string \<Rightarrow> string list \<Rightarrow> 'w \<Rightarrow> bool \<times> 'w" where
  "delete_branches wg wid [] w = (True, w)"
| "delete_branches wg wid (b # bs) w =
     (case wg_delete wg (branch_ref wid b) w of (False, w') \<Rightarrow> (False, w') | (True, w') \<Rightarrow> delete_branches wg wid bs w')"

definition not_workspace_owner :: "workspace \<Rightarrow> caller option \<Rightarrow> bool" where
  "not_workspace_owner ws asker \<longleftrightarrow>
     (case asker of None \<Rightarrow> False | Some p \<Rightarrow> \<not> pn_admin p \<and> ws_owner ws \<noteq> [] \<and> pn_name p \<noteq> ws_owner ws)"

definition delete_workspace_core :: "'w ws_git \<Rightarrow> string \<Rightarrow> caller option \<Rightarrow> 'w sys \<Rightarrow> ('w, unit) reply" where
  "delete_workspace_core wg wid asker y =
     (case get_workspace (sy_store y) wid of
        None \<Rightarrow> refuse 404 ''workspace_not_found'' y
      | Some ws \<Rightarrow>
          if not_workspace_owner ws asker then refuse 403 ''not_workspace_owner'' y
          else if list_ex (\<lambda>c. ch_origin_workspace c = wid) (list_changes (sy_store y) state_open)
            then refuse 409 ''workspace_has_open_changes'' y
          else (case delete_branches wg wid (workspace_branches wg (sy_repo y) wid) (sy_repo y) of
                  (False, w) \<Rightarrow> broken (y\<lparr>sy_repo := w\<rparr>)
                | (True, w) \<Rightarrow>
                    (case delete_workspace wid (sy_store y) of
                       (Inl _, s) \<Rightarrow> broken (y\<lparr>sy_repo := w, sy_store := s\<rparr>)
                     | (Inr _, s) \<Rightarrow>
                         (Inr (), y\<lparr>sy_repo := w,
                            sy_store := snd (delete_workspace_activity wid (snd (delete_workspace_events wid s)))\<rparr>))))"

section \<open>The cone is the closure of the affinity\<close>

inductive needed :: "(string, indexed_project) gomap \<Rightarrow> string list \<Rightarrow> string \<Rightarrow> bool" for m affinity where
  asked: "n \<in> set affinity \<Longrightarrow> needed m affinity n"
| dep: "needed m affinity n \<Longrightarrow> gm_get m n = Some p \<Longrightarrow> d \<in> set (ip_deps p @ ip_test_deps p) \<Longrightarrow> needed m affinity d"

definition materialized :: "(string, indexed_project) gomap \<Rightarrow> indexed_project \<Rightarrow> string set" where
  "materialized m p = {d. d = ip_path p \<and> d \<noteq> []} \<union> set (consumed_dirs m p)"

lemma needed_trans:
  assumes "needed m xs n" "\<And>x. x \<in> set xs \<Longrightarrow> needed m ys x"
  shows "needed m ys n"
  using assms(1) by induction (auto intro: assms(2) needed.dep)

lemma needed_cong: "set xs = set ys \<Longrightarrow> needed m xs n = needed m ys n"
  by (auto elim!: needed_trans intro: needed.asked)

lemma needed_closed:
  assumes "needed m xs n" "\<And>x p. x \<in> set xs \<Longrightarrow> gm_get m x = Some p \<Longrightarrow> set (ip_deps p @ ip_test_deps p) \<subseteq> set xs"
  shows "n \<in> set xs"
  using assms(1) by induction (use assms(2) in blast)+

lemma skip_unknown:
  assumes "gm_get m n = None"
  shows "{f r | k r. k \<notin> set (n # seen) \<and> N k \<and> gm_get m k = Some r} = {f r | k r. k \<notin> set seen \<and> N k \<and> gm_get m k = Some r}"
proof -
  have "k \<notin> set (n # seen) \<and> N k \<and> gm_get m k = Some r \<longleftrightarrow> k \<notin> set seen \<and> N k \<and> gm_get m k = Some r" for k r
    using assms by auto
  then show ?thesis by simp
qed

lemma skip_known:
  assumes "gm_get m n = Some p" "n \<notin> set seen" "N n"
  shows "{f r | k r. k \<notin> set seen \<and> N k \<and> gm_get m k = Some r}
    = insert (f p) {f r | k r. k \<notin> set (n # seen) \<and> N k \<and> gm_get m k = Some r}" (is "?A = insert _ ?B")
proof
  show "?A \<subseteq> insert (f p) ?B"
  proof
    fix x assume "x \<in> ?A"
    then obtain k r where "x = f r" "k \<notin> set seen" "N k" "gm_get m k = Some r" by blast
    then show "x \<in> insert (f p) ?B" using assms(1) by (cases "k = n") auto
  qed
  show "insert (f p) ?B \<subseteq> ?A" using assms by auto
qed

text \<open>The walk with its visited names closed up to the queue collects what the unvisited names need.\<close>

lemma cone_walk_set:
  assumes "\<And>x p. x \<in> set seen \<Longrightarrow> gm_get m x = Some p \<Longrightarrow> set (ip_deps p @ ip_test_deps p) \<subseteq> set (seen @ queue)"
  shows "set (cone_walk m seen queue acc) =
    set acc \<union> \<Union> {materialized m p | n p. n \<notin> set seen \<and> needed m (seen @ queue) n \<and> gm_get m n = Some p}"
  using assms
proof (induction m seen queue acc rule: cone_walk.induct)
  case (1 m seen acc)
  have "n \<in> set seen" if "needed m (seen @ []) n" for n
    using needed_closed [OF that] 1 by simp
  then show ?case by auto
next
  case (2 m seen n queue acc)
  show ?case
  proof (cases "n \<in> set seen")
    case True
    have "needed m (seen @ n # queue) = needed m (seen @ queue)"
      by (intro ext needed_cong) (use True in auto)
    moreover have "set (seen @ queue) = set (seen @ n # queue)" using True by auto
    then have "\<And>x p. x \<in> set seen \<Longrightarrow> gm_get m x = Some p \<Longrightarrow> set (ip_deps p @ ip_test_deps p) \<subseteq> set (seen @ queue)"
      using "2.prems" by metis
    ultimately show ?thesis using "2.IH"(1) [OF True] True by simp
  next
    case new: False
    show ?thesis
    proof (cases "gm_get m n")
      case None
      have "needed m (seen @ n # queue) = needed m ((n # seen) @ queue)"
        by (intro ext needed_cong) auto
      moreover have "\<And>x p. x \<in> set (n # seen) \<Longrightarrow> gm_get m x = Some p \<Longrightarrow> set (ip_deps p @ ip_test_deps p) \<subseteq> set ((n # seen) @ queue)"
        using "2.prems" None by fastforce
      ultimately show ?thesis
        using "2.IH"(2) [OF new None] new None skip_unknown [where f = "materialized m" and seen = seen, OF None] by simp
    next
      case (Some p)
      let ?q = "queue @ ip_deps p @ ip_test_deps p"
      have n: "needed m (seen @ n # queue) n" by (rule needed.asked) simp
      have same: "needed m (seen @ n # queue) = needed m ((n # seen) @ ?q)"
      proof (intro ext iffI)
        fix k
        show "needed m (seen @ n # queue) k \<Longrightarrow> needed m ((n # seen) @ ?q) k"
          by (erule needed_trans) (auto intro: needed.asked)
        show "needed m ((n # seen) @ ?q) k \<Longrightarrow> needed m (seen @ n # queue) k"
          by (erule needed_trans) (use needed.dep [OF n Some] in \<open>auto intro: needed.asked\<close>)
      qed
      have closed: "\<And>x r. x \<in> set (n # seen) \<Longrightarrow> gm_get m x = Some r \<Longrightarrow> set (ip_deps r @ ip_test_deps r) \<subseteq> set ((n # seen) @ ?q)"
        using "2.prems" Some by fastforce
      let ?acc = "(if ip_path p \<noteq> [] then [ip_path p] else []) @ consumed_dirs m p @ acc"
      have walk: "cone_walk m seen (n # queue) acc = cone_walk m (n # seen) ?q ?acc" using new Some by simp
      have rest: "set (cone_walk m (n # seen) ?q ?acc) = set ?acc
          \<union> \<Union> {materialized m r | k r. k \<notin> set (n # seen) \<and> needed m ((n # seen) @ ?q) k \<and> gm_get m k = Some r}"
        by (rule "2.IH"(3) [OF new Some closed])
      have "set ?acc = materialized m p \<union> set acc" by (auto simp: materialized_def)
      then show ?thesis
        unfolding walk rest same
          skip_known [where N = "needed m ((n # seen) @ ?q)" and f = "materialized m", OF Some new n [unfolded same]]
        by blast
    qed
  qed
qed

text \<open>C27. The read cone of a workspace is exactly what it needs: the write allowlist, the directories of all projects
  reached from the affinity along declared and test dependencies, and the contract surfaces those projects
  consume, without following the consumed projects any further; names that are not indexed add nothing.\<close>
theorem cone_exact:
  fixes ps
  defines "m \<equiv> projects_by_name ps"
  shows "set (expand_cone_to_deps affinity allowlist ps) =
      set allowlist \<union> {d. \<exists>n p. needed m affinity n \<and> gm_get m n = Some p \<and> (d = ip_path p \<and> d \<noteq> [] \<or> d \<in> set (consumed_dirs m p))}
    \<and> sorted (expand_cone_to_deps affinity allowlist ps) \<and> distinct (expand_cone_to_deps affinity allowlist ps)"
proof -
  have "set (cone_walk m [] affinity allowlist) =
      set allowlist \<union> \<Union> {materialized m p | n p. n \<notin> set [] \<and> needed m ([] @ affinity) n \<and> gm_get m n = Some p}"
    by (rule cone_walk_set) simp
  then show ?thesis by (auto simp: expand_cone_to_deps_def m_def materialized_def)
qed

section \<open>Deleting a workspace\<close>

text \<open>Deleting a ref removes that ref or nothing, and the listing of a namespace, when it succeeds, names the refs it has.\<close>

definition refs_listing :: "'w ws_git \<Rightarrow> string \<Rightarrow> 'w \<Rightarrow> string option" where
  "refs_listing wg wid w = wg_git wg w [''for-each-ref'', ''--format=%(refname)'', ''refs/workspaces/'' @ wid @ ''/'']"

definition ws_git_laws :: "'w git \<Rightarrow> 'w ws_git \<Rightarrow> bool" where
  "ws_git_laws g wg \<longleftrightarrow>
     (\<forall>ref w f. g_resolve g (snd (wg_delete wg ref w)) f = (if fst (wg_delete wg ref w) \<and> f = ref then None else g_resolve g w f))
   \<and> (\<forall>wid w out. refs_listing wg wid w = Some out
        \<longrightarrow> set (go_fields out) = {f. prefix (''refs/workspaces/'' @ wid @ ''/'') f \<and> g_resolve g w f \<noteq> None})"

lemma snapshot_ref_parts_branch:
  assumes "slash \<notin> set wid" "wid \<noteq> []" "workspace_id_ok branch"
  shows "snapshot_ref_parts (branch_ref wid branch) = (wid, branch, True)"
proof -
  have "slash \<notin> set branch"
    using assms(3) by (cases branch) (auto simp: workspace_id_ok_def list_all_iff ref_word_def code_in_def)
  moreover have "go_cut slash (wid @ slash # branch) = Some (wid, branch)"
    using assms(1) by (auto simp: go_cut_def takeWhile_tail dropWhile_append)
  moreover have "go_cut_prefix (branch_ref wid branch) ''refs/workspaces/'' = Some (wid @ slash # branch)"
    by (simp add: branch_ref_def go_cut_prefix_Some)
  ultimately show ?thesis using assms by (simp add: snapshot_ref_parts_def)
qed

lemma delete_branches_refs:
  assumes "ws_git_laws g wg" "delete_branches wg wid bs w = (True, w')"
  shows "g_resolve g w' f = (if f \<in> branch_ref wid ` set bs then None else g_resolve g w f)"
  using assms(2)
proof (induction bs arbitrary: w)
  case (Cons b bs)
  obtain ok w1 where d: "wg_delete wg (branch_ref wid b) w = (ok, w1)" by fastforce
  then have "ok" "delete_branches wg wid bs w1 = (True, w')" using Cons.prems by (cases ok; simp)+
  moreover have "g_resolve g w1 f = (if ok \<and> f = branch_ref wid b then None else g_resolve g w f)"
    using assms(1) d unfolding ws_git_laws_def by (metis fst_conv snd_conv)
  ultimately show ?case using Cons.IH [of w1] by auto
qed simp

lemma workspace_branches_listed:
  assumes "ws_git_laws g wg" "slash \<notin> set wid" "wid \<noteq> []" "workspace_id_ok b" "g_resolve g w (branch_ref wid b) \<noteq> None"
    and listed: "refs_listing wg wid w \<noteq> None"
  shows "b \<in> set (workspace_branches wg w wid)"
proof -
  obtain out where out: "refs_listing wg wid w = Some out"
      "set (go_fields out) = {f. prefix (''refs/workspaces/'' @ wid @ ''/'') f \<and> g_resolve g w f \<noteq> None}"
    using assms(1) listed unfolding ws_git_laws_def by blast
  have "branch_ref wid b \<in> set (go_fields out)" unfolding out(2) using assms(5) by (simp add: branch_ref_def)
  moreover have "branch_of wid (branch_ref wid b) = Some b"
    using snapshot_ref_parts_branch [OF assms(2-4)] by (simp add: branch_of_def)
  ultimately show ?thesis
    using out(1) by (force simp: workspace_branches_def List.map_filter_def refs_listing_def)
qed

text \<open>A listing that fails reads as no branches.\<close>

lemma unlisted_branches: "refs_listing wg wid w = None \<Longrightarrow> workspace_branches wg w wid = []"
  by (simp add: workspace_branches_def refs_listing_def)

text \<open>C25. Deleting a workspace happens only when nothing is in flight. It succeeds only for the owner, an administrator or the
  anonymous deploy token, and only when no open Change was born there; then its row, its timeline and its activity are
  gone, and no Change, no other workspace and no ref outside its namespace has changed. Its branches are gone when
  its refs could be listed; when the listing failed, every ref is still there although the deletion reports success (a
  flaw of the code). When it fails the store is as it was.\<close>
theorem workspace_deleted_whole:
  assumes laws: "ws_git_laws g wg" and wid: "slash \<notin> set wid" "wid \<noteq> []"
    and run: "delete_workspace_core wg wid asker y = (r, y')"
  shows "case r of
      Inl e \<Rightarrow> sy_store y' = sy_store y
    | Inr _ \<Rightarrow> (\<exists>ws. get_workspace (sy_store y) wid = Some ws
          \<and> (case asker of None \<Rightarrow> True | Some p \<Rightarrow> pn_admin p \<or> ws_owner ws = [] \<or> pn_name p = ws_owner ws))
        \<and> (\<forall>c\<in>set (list_changes (sy_store y) state_open). ch_origin_workspace c \<noteq> wid)
        \<and> get_workspace (sy_store y') wid = None \<and> gm_sub (ms_ws_events (sy_store y')) wid = []
        \<and> gm_sub (ms_ws_activity (sy_store y')) wid = []
        \<and> (if refs_listing wg wid (sy_repo y) \<noteq> None then \<forall>b. workspace_id_ok b \<longrightarrow> g_resolve g (sy_repo y') (branch_ref wid b) = None
           else \<forall>f. g_resolve g (sy_repo y') f = g_resolve g (sy_repo y) f)
        \<and> ms_changes (sy_store y') = ms_changes (sy_store y)
        \<and> (\<forall>other. other \<noteq> wid \<longrightarrow> get_workspace (sy_store y') other = get_workspace (sy_store y) other)
        \<and> (\<forall>f. \<not> prefix (''refs/workspaces/'' @ wid @ ''/'') f \<longrightarrow> g_resolve g (sy_repo y') f = g_resolve g (sy_repo y) f)"
proof (cases r)
  case (Inl e)
  then show ?thesis using run
    by (auto simp: delete_workspace_core_def refuse_def broken_def delete_workspace_def get_workspace_def
      split: option.splits if_splits prod.splits bool.splits sum.splits)
next
  case (Inr u)
  let ?bs = "workspace_branches wg (sy_repo y) wid"
  obtain ws where ws: "get_workspace (sy_store y) wid = Some ws" "\<not> not_workspace_owner ws asker"
      "\<not> list_ex (\<lambda>c. ch_origin_workspace c = wid) (list_changes (sy_store y) state_open)"
    using run Inr by (auto simp: delete_workspace_core_def refuse_def split: option.splits if_splits)
  obtain ok w where del: "delete_branches wg wid ?bs (sy_repo y) = (ok, w)" by fastforce
  have ok: "ok" "y' = y\<lparr>sy_repo := w, sy_store := snd (delete_workspace_activity wid (snd (delete_workspace_events wid
      (snd (delete_workspace wid (sy_store y))))))\<rparr>"
    using run Inr ws del by (cases ok; auto simp: delete_workspace_core_def broken_def delete_workspace_def get_workspace_def)+
  have refs: "g_resolve g w f = (if f \<in> branch_ref wid ` set ?bs then None else g_resolve g (sy_repo y) f)" for f
    using delete_branches_refs [OF laws, of wid ?bs "sy_repo y" w f] del ok(1) by simp
  have "if refs_listing wg wid (sy_repo y) \<noteq> None then \<forall>b. workspace_id_ok b \<longrightarrow> g_resolve g w (branch_ref wid b) = None
      else \<forall>f. g_resolve g w f = g_resolve g (sy_repo y) f"
  proof (cases "refs_listing wg wid (sy_repo y)")
    case None
    then show ?thesis using refs unlisted_branches [OF None] by simp
  next
    case (Some out)
    have "g_resolve g w (branch_ref wid b) = None" if "workspace_id_ok b" for b
      using refs [of "branch_ref wid b"] workspace_branches_listed [OF laws wid that] Some by auto
    then show ?thesis using Some by simp
  qed
  moreover have "g_resolve g w f = g_resolve g (sy_repo y) f" if "\<not> prefix (''refs/workspaces/'' @ wid @ ''/'') f" for f
    using refs [of f] that by (auto simp: branch_ref_def)
  moreover have "case asker of None \<Rightarrow> True | Some p \<Rightarrow> pn_admin p \<or> ws_owner ws = [] \<or> pn_name p = ws_owner ws"
    using ws(2) by (auto simp: not_workspace_owner_def split: option.splits)
  ultimately show ?thesis
    using Inr ws ok(2)
    by (auto simp: list_ex_iff get_workspace_def delete_workspace_def delete_workspace_events_def delete_workspace_activity_def)
qed

text \<open>The name rule lets names through that git refuses as a ref: two dots in a row, a dot at the end.\<close>

lemma bad_ref_names_pass: "workspace_id_ok ''a..b''" "workspace_id_ok ''a.''" "workspace_id_ok ''a.lock''"
  by code_simp+

text \<open>A repository whose refs have no blanks in their names.\<close>

definition word_git :: "repo git" where
  "word_git = repo_git\<lparr>g_resolve := (\<lambda>w f. if word_ok f then g_resolve repo_git w f else None)\<rparr>"

definition demo_ws_git :: "repo ws_git" where
  "demo_ws_git = \<lparr>wg_git = (\<lambda>w args. Some (go_join '' '' (filter (\<lambda>f. prefix (last args) f \<and> g_resolve word_git w f \<noteq> None)
       (gm_keys (rp_refs w))))),
     wg_delete = (\<lambda>ref w. (True, w\<lparr>rp_refs := gm_del (rp_refs w) ref\<rparr>))\<rparr>"

lemma go_fields_words:
  assumes "\<And>x. x \<in> set ws \<Longrightarrow> word_ok x"
  shows "go_fields (go_join '' '' ws) = ws"
  by (cases "ws = []") (use assms go_fields_join in \<open>auto simp: go_fields_def\<close>)

lemma demo_ws_laws: "ws_git_laws word_git demo_ws_git"
proof -
  have known: "f \<in> set (gm_keys (rp_refs w)) \<and> word_ok f" if "g_resolve word_git w f \<noteq> None" for w f
    using that by (auto simp: word_git_def repo_git_def gm_keys_iff split: if_splits option.splits)
  have "set (go_fields (go_join '' '' (filter (\<lambda>f. prefix pre f \<and> g_resolve word_git w f \<noteq> None) (gm_keys (rp_refs w)))))
      = {f. prefix pre f \<and> g_resolve word_git w f \<noteq> None}" for w pre
    using known by (subst go_fields_words) auto
  moreover have "g_resolve word_git (w\<lparr>rp_refs := gm_del (rp_refs w) ref\<rparr>) f = (if f = ref then None else g_resolve word_git w f)" for w ref f
    by (simp add: word_git_def repo_git_def)
  ultimately show ?thesis by (simp add: ws_git_laws_def demo_ws_git_def refs_listing_def)
qed

definition demo_ws_sys :: "repo sys" where
  "demo_ws_sys = demo_sys\<lparr>sy_store := snd (create_workspace 9 (new_workspace ''w1'' ''bob'' ''c1'' [''app''] [''app'']) demo_change_store),
     sy_repo := demo_repo\<lparr>rp_refs := [(''refs/heads/main'', ''c1''), (branch_ref ''w1'' ''head'', ''c2'')]\<rparr>\<rparr>"

theorem workspace_deleted_whole_witness:
  "let y' = snd (delete_workspace_core demo_ws_git ''w1'' None demo_ws_sys) in
     get_workspace (sy_store y') ''w1'' = None \<and> g_resolve word_git (sy_repo y') (branch_ref ''w1'' ''head'') = None
     \<and> g_resolve word_git (sy_repo y') ''refs/heads/main'' = Some ''c1''"
proof -
  obtain r y' where run: "delete_workspace_core demo_ws_git ''w1'' None demo_ws_sys = (r, y')" by fastforce
  have "(case fst (delete_workspace_core demo_ws_git ''w1'' None demo_ws_sys) of Inr _ \<Rightarrow> True | Inl _ \<Rightarrow> False)" by code_simp
  then obtain u where r: "r = Inr u" using run by (cases r) auto
  have "g_resolve word_git (sy_repo demo_ws_sys) ''refs/heads/main'' = Some ''c1''" "workspace_id_ok ''head''" by code_simp+
  moreover have "refs_listing demo_ws_git ''w1'' (sy_repo demo_ws_sys) \<noteq> None" by (simp add: refs_listing_def demo_ws_git_def)
  ultimately show ?thesis
    using workspace_deleted_whole [OF demo_ws_laws _ _ run] r run by (auto simp: Let_def)
qed

end
