(* ===== verification/Activity.thy ===== *)
theory Activity
  imports Workspaces
begin

text \<open>
  The activity feed's intake (\<open>runkod/activity.go\<close>): what an agent's harness reports of its work, normalised, cut
  to length, scanned for secrets and stored. The scanner is a parameter; None is a daemon without one.
\<close>

section \<open>Characters of a text\<close>

text \<open>The length of the UTF-8 sequence a text starts with, 0 when it starts with none.\<close>

definition byte_in :: "nat \<Rightarrow> nat \<Rightarrow> char \<Rightarrow> bool" where
  "byte_in lo hi c \<longleftrightarrow> lo \<le> byte_of c \<and> byte_of c \<le> hi"

definition second_range :: "char \<Rightarrow> nat \<times> nat" where
  "second_range c =
     (if byte_of c = 0xE0 then (0xA0, 0xBF) else if byte_of c = 0xED then (0x80, 0x9F)
      else if byte_of c = 0xF0 then (0x90, 0xBF) else if byte_of c = 0xF4 then (0x80, 0x8F) else (0x80, 0xBF))"

definition lead_length :: "char \<Rightarrow> nat" where
  "lead_length c =
     (if byte_in 0 0x7F c then 1 else if byte_in 0xC2 0xDF c then 2 else if byte_in 0xE0 0xEF c then 3
      else if byte_in 0xF0 0xF4 c then 4 else 0)"

fun rune_width :: "string \<Rightarrow> nat" where
  "rune_width [] = 0"
| "rune_width (c # cs) =
     (let n = lead_length c in
      if n \<le> 1 then n
      else case cs of
             [] \<Rightarrow> 0
           | d # _ \<Rightarrow> if byte_in (fst (second_range c)) (snd (second_range c)) d \<and> n - 1 \<le> length cs
                     \<and> list_all (byte_in 0x80 0xBF) (take (n - 2) (tl cs)) then n else 0)"

definition replacement :: string where
  "replacement = [CHR 0xEF, CHR 0xBF, CHR 0xBD]"

text \<open>\<open>[]rune(s)\<close>, each character as the bytes it prints as; a byte that starts none is one replacement character.\<close>

function runes :: "string \<Rightarrow> string list" where
  "runes [] = []"
| "runes (c # cs) =
     (let n = rune_width (c # cs) in
      if n = 0 then replacement # runes cs else take n (c # cs) # runes (drop n (c # cs)))"
  by pat_completeness auto
termination by (relation "measure length") auto

definition truncate_runes :: "string \<Rightarrow> nat \<Rightarrow> string" where
  "truncate_runes s n = (if length s \<le> n \<or> length (runes s) \<le> n then s else concat (take n (runes s)))"

section \<open>Rows\<close>

definition activity_detail_max :: nat where "activity_detail_max = 240"
definition activity_batch_max :: nat where "activity_batch_max = 100"

record activity_event =
  ae_kind :: string
  ae_detail :: string
  ae_session :: string

definition activity_kinds :: "string list" where
  "activity_kinds = [''read'', ''edit'', ''command'', ''search'', ''note'']"

definition normalize_activity_kind :: "string \<Rightarrow> string" where
  "normalize_activity_kind k = (if k \<in> set activity_kinds then k else ''note'')"

definition activity_row :: "string \<Rightarrow> string \<Rightarrow> activity_event \<Rightarrow> workspace_activity" where
  "activity_row wid actor e = \<lparr>wa_id = 0, wa_workspace = wid, wa_actor = actor, wa_kind = normalize_activity_kind (ae_kind e),
     wa_detail = truncate_runes (ae_detail e) activity_detail_max, wa_session = truncate_runes (ae_session e) activity_detail_max,
     wa_occurred = 0\<rparr>"

definition redaction :: "string \<Rightarrow> string" where
  "redaction rule = ''[redacted: '' @ rule @ '']''"

definition redact_row :: "secret_finding \<Rightarrow> workspace_activity list \<Rightarrow> workspace_activity list" where
  "redact_row f rows =
     (case go_atoi (sf_path f) of
        None \<Rightarrow> rows
      | Some i \<Rightarrow> if 0 \<le> i \<and> i < int (length rows)
                  then rows[nat i := (rows ! nat i)\<lparr>wa_detail := redaction (sf_rule f)\<rparr>] else rows)"

definition scanned_details :: "workspace_activity list \<Rightarrow> contract_file list" where
  "scanned_details rows = map (\<lambda>i. \<lparr>cf_path = show_nat i, cf_content = wa_detail (rows ! i)\<rparr>) [0..<length rows]"

text \<open>A scanner that fails redacts the whole batch.\<close>

definition redact_activity_secrets :: "secret_scanner option \<Rightarrow> workspace_activity list \<Rightarrow> workspace_activity list" where
  "redact_activity_secrets scanner rows =
     (case scanner of
        None \<Rightarrow> rows
      | Some scanning \<Rightarrow>
          (case scanning (scanned_details rows) of
             None \<Rightarrow> map (\<lambda>r. r\<lparr>wa_detail := redaction ''scan_error''\<rparr>) rows
           | Some findings \<Rightarrow> fold redact_row findings rows))"

section \<open>The core\<close>

definition activity_poke :: "string \<Rightarrow> string \<Rightarrow> workspace_activity list \<Rightarrow> workspace_event" where
  "activity_poke wid actor stored = \<lparr>we_id = 0, we_type = ''agent_activity'', we_workspace = wid, we_branch = [], we_actor = actor,
     we_sha = [], we_change = [], we_files = 0, we_additions = 0, we_deletions = 0,
     we_occurred = (if stored = [] then 0 else wa_occurred (last stored))\<rparr>"

definition record_activity_core ::
  "secret_scanner option \<Rightarrow> go_time \<Rightarrow> string \<Rightarrow> caller option \<Rightarrow> activity_event list \<Rightarrow> 'w sys \<Rightarrow> ('w, int) reply" where
  "record_activity_core scanner now wid asker events y =
     (case get_workspace (sy_store y) wid of
        None \<Rightarrow> refuse 404 ''workspace_not_found'' y
      | Some ws \<Rightarrow>
          if not_workspace_owner ws asker then refuse 403 ''not_workspace_owner'' y
          else if ws_status ws = ''closed'' then refuse 409 ''workspace_closed'' y
          else if events = [] then refuse 400 ''missing_field'' y
          else if length events > activity_batch_max then refuse 400 ''batch_too_large'' y
          else (let rows = redact_activity_secrets scanner (map (activity_row wid (caller_name asker)) events)
                in case record_workspace_activity now rows (sy_store y) of
                     (Inl _, s) \<Rightarrow> broken (y\<lparr>sy_store := s\<rparr>)
                   | (Inr stored, s) \<Rightarrow>
                       (Inr (int (length stored)),
                        y\<lparr>sy_store := s, sy_bus := publish_to (activity_poke wid (caller_name asker) stored) (sy_bus y)\<rparr>)))"

section \<open>Lengths\<close>

text \<open>A sequence stands for itself whatever follows it.\<close>

definition whole_rune :: "string \<Rightarrow> bool" where
  "whole_rune r \<longleftrightarrow> r \<noteq> [] \<and> rune_width r = length r"

lemma rune_width_le: "rune_width s \<le> length s"
  by (cases s) (auto simp: lead_length_def split: list.splits)

lemma rune_width_4: "rune_width s \<le> 4"
  by (cases s) (auto simp: Let_def lead_length_def split: list.splits)

lemma rune_width_append: "whole_rune r \<Longrightarrow> rune_width (r @ s) = length r"
  by (cases r) (auto simp: whole_rune_def Let_def split: list.splits if_splits)

lemma rune_width_take: "rune_width s = n \<Longrightarrow> n \<noteq> 0 \<Longrightarrow> whole_rune (take n s)"
  using rune_width_le [of s]
  by (cases s; cases "tl s") (auto simp: whole_rune_def Let_def take_Cons' min_def split: if_splits)

lemma replacement_whole: "whole_rune replacement"
  unfolding whole_rune_def replacement_def by code_simp

lemma runes_whole: "r \<in> set (runes s) \<Longrightarrow> whole_rune r"
proof (induction s rule: runes.induct)
  case (2 c cs)
  show ?case
  proof (cases "rune_width (c # cs) = 0")
    case True
    then show ?thesis using "2.IH"(1) [OF refl] "2.prems" replacement_whole by (simp add: Let_def del: rune_width.simps) blast
  next
    case False
    then show ?thesis
      using "2.IH"(2) [OF refl] "2.prems" rune_width_take [OF refl False] by (simp add: Let_def del: rune_width.simps) blast
  qed
qed simp

lemma runes_concat: "(\<And>r. r \<in> set rs \<Longrightarrow> whole_rune r) \<Longrightarrow> runes (concat rs) = rs"
proof (induction rs)
  case (Cons r rs)
  have r: "whole_rune r" "r \<noteq> []" using Cons.prems by (auto simp: whole_rune_def)
  then obtain c cs where c: "r @ concat rs = c # cs" by (cases r) auto
  have "rune_width (c # cs) = length r" using rune_width_append [OF r(1)] c by metis
  then have "runes (c # cs) = take (length r) (c # cs) # runes (drop (length r) (c # cs))" using r(2) by (simp add: Let_def)
  also have "\<dots> = r # runes (concat rs)" unfolding c [symmetric] by simp
  finally show ?case using Cons c by simp
qed simp

lemma length_runes: "length (runes s) \<le> length s"
proof (induction s rule: runes.induct)
  case (2 c cs)
  then show ?case by (cases "rune_width (c # cs)") (auto simp: Let_def)
qed simp

lemma truncate_runes_bound: "length (runes (truncate_runes s n)) \<le> n"
proof (cases "length s \<le> n \<or> length (runes s) \<le> n")
  case True
  then show ?thesis using length_runes [of s] by (auto simp: truncate_runes_def)
next
  case False
  have "runes (concat (take n (runes s))) = take n (runes s)"
    by (rule runes_concat) (auto dest: in_set_takeD intro: runes_whole)
  then show ?thesis using False by (simp add: truncate_runes_def)
qed

section \<open>What is stored\<close>

lemma length_history [simp]: "length (act.history now s es) = length es"
  by (induction es arbitrary: s) auto

lemma redact_row_length [simp]: "length (redact_row f rows) = length rows"
  by (simp add: redact_row_def split: option.splits)

lemma redact_rows_length [simp]: "length (fold redact_row fs rows) = length rows"
  by (induction fs arbitrary: rows) auto

text \<open>What a redacted batch holds at a place: what it held, or the mark of a finding there.\<close>

lemma redact_rows_at:
  assumes "i < length rows" "int (length rows) < 2 ^ 63"
  shows "(\<exists>d. fold redact_row fs rows ! i = (rows ! i)\<lparr>wa_detail := d\<rparr>
      \<and> (if \<exists>f\<in>set fs. go_atoi (sf_path f) = Some (int i) then \<exists>f\<in>set fs. d = redaction (sf_rule f) else d = wa_detail (rows ! i)))"
  using assms
proof (induction fs rule: rev_induct)
  case (snoc f fs)
  let ?old = "fold redact_row fs rows"
  obtain d where d: "?old ! i = (rows ! i)\<lparr>wa_detail := d\<rparr>"
      "if \<exists>f\<in>set fs. go_atoi (sf_path f) = Some (int i) then \<exists>f\<in>set fs. d = redaction (sf_rule f) else d = wa_detail (rows ! i)"
    using snoc by auto
  show ?case
  proof (cases "go_atoi (sf_path f) = Some (int i)")
    case True
    then have "redact_row f ?old ! i = (rows ! i)\<lparr>wa_detail := redaction (sf_rule f)\<rparr>"
      using snoc.prems(1) d(1) by (simp add: redact_row_def)
    then show ?thesis using True by (auto intro!: exI [of _ "redaction (sf_rule f)"])
  next
    case False
    then have "redact_row f ?old ! i = ?old ! i"
      by (cases "go_atoi (sf_path f)") (auto simp: redact_row_def nth_list_update)
    then show ?thesis using d False by (cases "\<exists>f\<in>set fs. go_atoi (sf_path f) = Some (int i)") (auto intro!: exI [of _ d])
  qed
qed (auto intro!: exI [of _ "wa_detail (rows ! i)"])

text \<open>C30. Reported activity is stored cut and without what the scanner found. A batch is taken only from the owner of an
  open workspace, an administrator or the deploy token, and only if it has 1 to 100 events; then one row per event
  is stored, in their order, under the caller's name, with a known kind and at most 240 characters of session. The
  detail of a row is the reported one cut to 240 characters if the scanner found nothing in it, and otherwise only
  the name of a rule it broke; if the scanner failed no detail is stored at all. A refused batch stores nothing.\<close>
theorem activity_redacted:
  assumes run: "record_activity_core (Some scanning) now wid asker events y = (r, y')"
  shows "case r of
      Inl e \<Rightarrow> sy_store y' = sy_store y
    | Inr n \<Rightarrow> n = int (length events) \<and> 1 \<le> length events \<and> length events \<le> 100
        \<and> (\<exists>ws. get_workspace (sy_store y) wid = Some ws \<and> ws_status ws \<noteq> ''closed'' \<and> \<not> not_workspace_owner ws asker)
        \<and> (let base = map (activity_row wid (caller_name asker)) events; out = scanning (scanned_details base) in
            \<exists>rows. sy_store y' = snd (record_workspace_activity now rows (sy_store y)) \<and> length rows = length events
              \<and> (\<forall>i<length events.
                    wa_workspace (rows ! i) = wid \<and> wa_actor (rows ! i) = caller_name asker \<and> wa_kind (rows ! i) \<in> set activity_kinds
                  \<and> length (runes (wa_session (rows ! i))) \<le> 240
                  \<and> (case out of
                       None \<Rightarrow> wa_detail (rows ! i) = redaction ''scan_error''
                     | Some fs \<Rightarrow>
                         if \<exists>f\<in>set fs. go_atoi (sf_path f) = Some (int i)
                         then \<exists>f\<in>set fs. wa_detail (rows ! i) = redaction (sf_rule f)
                         else wa_detail (rows ! i) = truncate_runes (ae_detail (events ! i)) 240
                           \<and> length (runes (wa_detail (rows ! i))) \<le> 240)))"
proof (cases r)
  case (Inl e)
  then show ?thesis using run
    by (auto simp: record_activity_core_def refuse_def broken_def record_workspace_activity_def Let_def split: option.splits if_splits prod.splits)
next
  case (Inr n)
  let ?base = "map (activity_row wid (caller_name asker)) events"
  let ?rows = "redact_activity_secrets (Some scanning) ?base"
  have guards: "\<exists>ws. get_workspace (sy_store y) wid = Some ws \<and> ws_status ws \<noteq> ''closed'' \<and> \<not> not_workspace_owner ws asker"
      "1 \<le> length events" "length events \<le> 100"
    using run Inr by (auto simp: record_activity_core_def refuse_def activity_batch_max_def Suc_le_eq split: option.splits if_splits)
  obtain ws where "get_workspace (sy_store y) wid = Some ws" "ws_status ws \<noteq> ''closed''" "\<not> not_workspace_owner ws asker"
    using guards(1) by blast
  moreover have "events \<noteq> []" "\<not> activity_batch_max < length events" using guards(2,3) by (auto simp: activity_batch_max_def)
  ultimately have eff: "sy_store y' = snd (record_workspace_activity now ?rows (sy_store y))" "n = int (length ?rows)"
    using run Inr by (auto simp: record_activity_core_def record_workspace_activity_def record_activities_foldl Let_def)
  have len: "length ?rows = length events" by (simp add: redact_activity_secrets_def split: option.splits)
  have row: "wa_workspace (?base ! i) = wid \<and> wa_actor (?base ! i) = caller_name asker \<and> wa_kind (?base ! i) \<in> set activity_kinds
      \<and> length (runes (wa_session (?base ! i))) \<le> 240 \<and> wa_detail (?base ! i) = truncate_runes (ae_detail (events ! i)) 240
      \<and> length (runes (wa_detail (?base ! i))) \<le> 240" if "i < length events" for i
    using that truncate_runes_bound [of _ 240]
    by (simp add: activity_row_def activity_detail_max_def normalize_activity_kind_def activity_kinds_def)
  have at: "\<exists>d. ?rows ! i = (?base ! i)\<lparr>wa_detail := d\<rparr> \<and> (case scanning (scanned_details ?base) of
        None \<Rightarrow> d = redaction ''scan_error''
      | Some fs \<Rightarrow> if \<exists>f\<in>set fs. go_atoi (sf_path f) = Some (int i) then \<exists>f\<in>set fs. d = redaction (sf_rule f)
                   else d = wa_detail (?base ! i))" if "i < length events" for i
  proof (cases "scanning (scanned_details ?base)")
    case None
    then show ?thesis using that by (simp add: redact_activity_secrets_def)
  next
    case (Some fs)
    then show ?thesis using redact_rows_at [of i ?base fs] that guards(3) by (simp add: redact_activity_secrets_def)
  qed
  show ?thesis
    unfolding Inr sum.case Let_def
  proof (intro conjI exI [of _ ?rows] allI impI)
    fix i assume i: "i < length events"
    obtain d where d: "?rows ! i = (?base ! i)\<lparr>wa_detail := d\<rparr>" "case scanning (scanned_details ?base) of
        None \<Rightarrow> d = redaction ''scan_error''
      | Some fs \<Rightarrow> if \<exists>f\<in>set fs. go_atoi (sf_path f) = Some (int i) then \<exists>f\<in>set fs. d = redaction (sf_rule f)
                   else d = wa_detail (?base ! i)" using at [OF i] by blast
    note r = row [OF i]
    show "wa_workspace (?rows ! i) = wid" "wa_actor (?rows ! i) = caller_name asker" "wa_kind (?rows ! i) \<in> set activity_kinds"
      "length (runes (wa_session (?rows ! i))) \<le> 240" using d(1) r by simp_all
    show "case scanning (scanned_details ?base) of
        None \<Rightarrow> wa_detail (?rows ! i) = redaction ''scan_error''
      | Some fs \<Rightarrow>
          if \<exists>f\<in>set fs. go_atoi (sf_path f) = Some (int i) then \<exists>f\<in>set fs. wa_detail (?rows ! i) = redaction (sf_rule f)
          else wa_detail (?rows ! i) = truncate_runes (ae_detail (events ! i)) 240 \<and> length (runes (wa_detail (?rows ! i))) \<le> 240"
      using d r by (auto split: option.splits if_splits)
  qed (use guards eff len in simp_all)
qed


definition demo_activity_sys :: "repo sys" where
  "demo_activity_sys = demo_sys\<lparr>sy_store := snd (create_workspace 9 (new_workspace ''w1'' ''bob'' ''c1'' [''app''] [''app'']) demo_change_store)\<rparr>"

definition demo_scanner :: secret_scanner where
  "demo_scanner fs = Some (map (\<lambda>f. \<lparr>sf_path = cf_path f, sf_line = 1, sf_rule = ''key''\<rparr>) (filter (\<lambda>f. prefix ''KEY'' (cf_content f)) fs))"

definition demo_reports :: "activity_event list" where
  "demo_reports = [\<lparr>ae_kind = ''read'', ae_detail = ''a.go'', ae_session = []\<rparr>, \<lparr>ae_kind = ''run'', ae_detail = ''KEY=1'', ae_session = []\<rparr>]"

theorem activity_redacted_witness:
  "\<exists>y' rows. record_activity_core (Some demo_scanner) 9 ''w1'' None demo_reports demo_activity_sys = (Inr 2, y')
     \<and> sy_store y' = snd (record_workspace_activity 9 rows (sy_store demo_activity_sys))
     \<and> wa_detail (rows ! 0) = ''a.go'' \<and> wa_detail (rows ! 1) = ''[redacted: key]'' \<and> wa_kind (rows ! 1) \<in> set activity_kinds"
proof -
  obtain r y' where run: "record_activity_core (Some demo_scanner) 9 ''w1'' None demo_reports demo_activity_sys = (r, y')" by fastforce
  have "(case fst (record_activity_core (Some demo_scanner) 9 ''w1'' None demo_reports demo_activity_sys) of Inr n \<Rightarrow> n = 2 | Inl _ \<Rightarrow> False)"
    by code_simp
  then have r: "r = Inr 2" using run by (cases r) auto
  have out: "demo_scanner (scanned_details (map (activity_row ''w1'' []) demo_reports)) = Some [\<lparr>sf_path = ''1'', sf_line = 1, sf_rule = ''key''\<rparr>]"
    and vals: "length demo_reports = 2" "go_atoi ''1'' = Some 1" "truncate_runes ''a.go'' 240 = ''a.go''" "redaction ''key'' = ''[redacted: key]''"
      "ae_detail (demo_reports ! 0) = ''a.go''"
    by code_simp+
  have name: "caller_name None = []" by (simp add: caller_name_def)
  obtain rows where rows: "sy_store y' = snd (record_workspace_activity 9 rows (sy_store demo_activity_sys))"
      "\<forall>i<2. wa_workspace (rows ! i) = ''w1'' \<and> wa_actor (rows ! i) = [] \<and> wa_kind (rows ! i) \<in> set activity_kinds
          \<and> length (runes (wa_session (rows ! i))) \<le> 240
          \<and> (if \<exists>f\<in>set [\<lparr>sf_path = ''1'', sf_line = 1, sf_rule = ''key''\<rparr>]. go_atoi (sf_path f) = Some (int i)
             then \<exists>f\<in>set [\<lparr>sf_path = ''1'', sf_line = 1, sf_rule = ''key''\<rparr>]. wa_detail (rows ! i) = redaction (sf_rule f)
             else wa_detail (rows ! i) = truncate_runes (ae_detail (demo_reports ! i)) 240 \<and> length (runes (wa_detail (rows ! i))) \<le> 240)"
    using activity_redacted [OF run] unfolding r sum.case name Let_def out option.case vals(1) by blast
  have "wa_detail (rows ! 0) = ''a.go''" "wa_detail (rows ! 1) = ''[redacted: key]''" "wa_kind (rows ! 1) \<in> set activity_kinds"
    using rows(2) [rule_format, of 0] rows(2) [rule_format, of 1] vals(2-5) by simp_all
  then show ?thesis using run r rows(1) by blast
qed

end
