(* ===== verification/Mirror.thy ===== *)
theory Mirror
  imports Landing Credential
begin

text \<open>
  The outbound mirror (\<open>platform/mirror/mirror.go\<close>, \<open>runkod/mirror.go\<close>): trunk, tags and change refs are pushed to
  another git host. A push of trunk is leased on what the cursor says the mirror has; anything else freezes the cursor
  until an administrator unfreezes it. The git program is a parameter: \<open>mg_run\<close> runs it with an environment, \<open>mg_out\<close>
  reads the local repository, and \<open>env i\<close> is what happens between the calls of one sync, landings included. Timers,
  locks and the loop that calls a sync are not modelled.
\<close>

section \<open>A remote\<close>

record 'w mirror_git =
  mg_run :: "string list \<Rightarrow> string list \<Rightarrow> 'w \<Rightarrow> string option \<times> 'w"
  mg_out :: "'w \<Rightarrow> string list \<Rightarrow> string option"
  mg_delete :: "string \<Rightarrow> 'w \<Rightarrow> bool \<times> 'w"

text \<open>\<open>mre_source\<close> is what a token source answers at this call, when there is one.\<close>

record mirror_remote =
  mre_url :: string
  mre_username :: string
  mre_token :: string
  mre_source :: "string option option"

definition mirror_username :: "mirror_remote \<Rightarrow> string" where
  "mirror_username r = (if mre_username r = [] then ''x-access-token'' else mre_username r)"

definition b64_std_encode :: "string \<Rightarrow> string" where
  "b64_std_encode s =
     (let e = b64_raw_encode s in e @ replicate ((4 - length e mod 4) mod 4) (CHR ''=''))"

text \<open>The header that authenticates travels in the environment; None is a token source that fails.\<close>

definition mirror_env :: "mirror_remote \<Rightarrow> string list option" where
  "mirror_env r =
     (if \<not> prefix ''https://'' (mre_url r) then Some []
      else case (case mre_source r of None \<Rightarrow> Some (mre_token r) | Some t \<Rightarrow> t) of
             None \<Rightarrow> None
           | Some token \<Rightarrow>
               if token = [] then Some []
               else Some [''GIT_CONFIG_COUNT=1'', ''GIT_CONFIG_KEY_0=http.extraHeader'',
                      ''GIT_CONFIG_VALUE_0=Authorization: Basic '' @ b64_std_encode (mirror_username r @ '':'' @ token)])"

definition mirror_exec :: "'w mirror_git \<Rightarrow> mirror_remote \<Rightarrow> string list \<Rightarrow> 'w \<Rightarrow> string option \<times> 'w" where
  "mirror_exec g r args w =
     (case mirror_env r of
        None \<Rightarrow> (None, w)
      | Some env \<Rightarrow> (let (out, w1) = mg_run g env args w in (map_option (go_trim_right (\<lambda>c. c = newline)) out, w1)))"

definition ls_remote :: "'w mirror_git \<Rightarrow> mirror_remote \<Rightarrow> string \<Rightarrow> 'w \<Rightarrow> string option \<times> 'w" where
  "ls_remote g r ref w =
     (let (out, w1) = mirror_exec g r [''ls-remote'', mre_url r, ref] w
      in (map_option (\<lambda>o1. case go_fields o1 of [] \<Rightarrow> [] | f # _ \<Rightarrow> f) out, w1))"

definition push_with_lease :: "'w mirror_git \<Rightarrow> mirror_remote \<Rightarrow> string \<Rightarrow> string \<Rightarrow> string \<Rightarrow> 'w \<Rightarrow> bool \<times> 'w" where
  "push_with_lease g r ref expected tip w =
     (let (out, w1) = mirror_exec g r
          [''push'', ''--force-with-lease='' @ ref @ '':'' @ expected, mre_url r, ''+'' @ tip @ '':'' @ ref] w
      in (out \<noteq> None, w1))"

definition push_refspecs :: "'w mirror_git \<Rightarrow> mirror_remote \<Rightarrow> string list \<Rightarrow> 'w \<Rightarrow> bool \<times> 'w" where
  "push_refspecs g r specs w =
     (let (out, w1) = mirror_exec g r ([''push'', mre_url r] @ specs) w in (out \<noteq> None, w1))"

section \<open>The worker\<close>

definition mirror_remote_name :: string where "mirror_remote_name = ''mirror''"

datatype mirror_error =
  MirrorStore | MirrorFrozen string | MirrorLs | MirrorDiverged string string string | MirrorLease string | MirrorPush string

definition git_rev_parse :: "'w mirror_git \<Rightarrow> 'w \<Rightarrow> string \<Rightarrow> string option" where
  "git_rev_parse g w ref = map_option (go_trim_right (\<lambda>c. c = newline)) (mg_out g w [''rev-parse'', ''--verify'', ref])"

type_synonym 'w mirror_step = "mirror_error option \<times> 'w \<times> mem_store"

definition freeze_with :: "go_time \<Rightarrow> string \<Rightarrow> mirror_error \<Rightarrow> 'w \<Rightarrow> mem_store \<Rightarrow> 'w mirror_step" where
  "freeze_with now ref e w s =
     (case freeze_mirror_cursor now mirror_remote_name ref s of
        (Inl _, s1) \<Rightarrow> (Some MirrorStore, w, s1) | (Inr _, s1) \<Rightarrow> (Some e, w, s1))"

definition record_cursor :: "go_time \<Rightarrow> string \<Rightarrow> string \<Rightarrow> 'w \<Rightarrow> mem_store \<Rightarrow> 'w mirror_step" where
  "record_cursor now ref sha w s =
     (case upsert_mirror_cursor now mirror_remote_name ref sha s of
        (Inl _, s1) \<Rightarrow> (Some MirrorStore, w, s1) | (Inr _, s1) \<Rightarrow> (None, w, s1))"

text \<open>The sha the mirror is expected to have, empty before the first sync.\<close>

definition lease_sha :: "mirror_cursor option \<Rightarrow> string" where
  "lease_sha cursor = (case cursor of None \<Rightarrow> [] | Some c \<Rightarrow> mc_last_synced c)"

definition sync_trunk ::
  "(nat \<Rightarrow> 'w \<Rightarrow> 'w) \<Rightarrow> 'w mirror_git \<Rightarrow> mirror_remote \<Rightarrow> string \<Rightarrow> go_time \<Rightarrow> 'w \<Rightarrow> mem_store \<Rightarrow> 'w mirror_step" where
  "sync_trunk env g r trunk_name now w s =
     (let trunk = ''refs/heads/'' @ trunk_name in
      case git_rev_parse g w trunk of
        None \<Rightarrow> (None, w, s)
      | Some tip \<Rightarrow>
          (let cursor = get_mirror_cursor s mirror_remote_name trunk in
           if (case cursor of None \<Rightarrow> False | Some c \<Rightarrow> mc_frozen c) then (Some (MirrorFrozen trunk), w, s)
           else if (case cursor of None \<Rightarrow> False | Some c \<Rightarrow> mc_last_synced c = tip) then (None, w, s)
           else (case ls_remote g r trunk (env 0 w) of
                   (None, w2) \<Rightarrow> (Some MirrorLs, w2, s)
                 | (Some sha, w2) \<Rightarrow>
                     if sha \<noteq> lease_sha cursor \<and> sha \<noteq> tip
                     then freeze_with now trunk (MirrorDiverged trunk sha (lease_sha cursor)) w2 s
                     else if sha \<noteq> tip
                     then (case push_with_lease g r trunk sha tip (env 1 w2) of
                             (False, w4) \<Rightarrow> freeze_with now trunk (MirrorLease trunk) w4 s
                           | (True, w4) \<Rightarrow> record_cursor now trunk tip w4 s)
                     else record_cursor now trunk tip w2 s)))"

text \<open>Refs whose objects are gone are deleted before a namespace is pushed.\<close>

fun heal_refs :: "'w mirror_git \<Rightarrow> string list \<Rightarrow> 'w \<Rightarrow> 'w" where
  "heal_refs g [] w = w"
| "heal_refs g (line # lines) w =
     heal_refs g lines
       (case go_cut CHR '' '' line of
          None \<Rightarrow> w
        | Some (ref, obj) \<Rightarrow> if mg_out g w [''cat-file'', ''-e'', obj] = None then snd (mg_delete g ref w) else w)"

definition heal_namespace :: "'w mirror_git \<Rightarrow> string \<Rightarrow> 'w \<Rightarrow> 'w" where
  "heal_namespace g namespace w =
     (case mg_out g w [''for-each-ref'', ''--format=%(refname) %(objectname)'', namespace] of
        None \<Rightarrow> w
      | Some out \<Rightarrow> heal_refs g (go_split newline (go_trim_space out)) w)"

definition sync_namespace ::
  "'w mirror_git \<Rightarrow> mirror_remote \<Rightarrow> string \<Rightarrow> string \<Rightarrow> go_time \<Rightarrow> 'w \<Rightarrow> mem_store \<Rightarrow> 'w mirror_step" where
  "sync_namespace g r name spec now w s =
     (case push_refspecs g r [spec] (heal_namespace g (go_trim_suffix name ''/*'') w) of
        (False, w1) \<Rightarrow> (Some (MirrorPush name), w1, s)
      | (True, w1) \<Rightarrow> record_cursor now name [] w1 s)"

record mirror_worker =
  mw_remote :: "mirror_remote option"
  mw_trunk :: string
  mw_error :: "mirror_error option"
  mw_synced :: "go_time option"

definition tags_spec :: string where "tags_spec = ''refs/tags/*:refs/tags/*''"
definition changes_spec :: string where "changes_spec = ''+refs/changes/*:refs/changes/*''"

text \<open>The first error is kept; the later namespaces run all the same.\<close>

definition first_error :: "'a option \<Rightarrow> 'a option \<Rightarrow> 'a option" where
  "first_error a b = (case a of None \<Rightarrow> b | Some x \<Rightarrow> Some x)"

definition sync_once ::
  "(nat \<Rightarrow> 'w \<Rightarrow> 'w) \<Rightarrow> 'w mirror_git \<Rightarrow> go_time \<Rightarrow> mirror_worker \<Rightarrow> 'w \<Rightarrow> mem_store \<Rightarrow>
   mirror_error option \<times> mirror_worker \<times> 'w \<times> mem_store" where
  "sync_once env g now mw w s =
     (case mw_remote mw of
        None \<Rightarrow> (None, mw, w, s)
      | Some r \<Rightarrow>
          (let (e1, w1, s1) = sync_trunk env g r (mw_trunk mw) now w s;
               (e2, w2, s2) = sync_namespace g r ''refs/tags/*'' tags_spec now w1 s1;
               (e3, w3, s3) = sync_namespace g r ''refs/changes/*'' changes_spec now w2 s2;
               e = first_error (first_error e1 e2) e3
           in (e, mw\<lparr>mw_error := e, mw_synced := Some now\<rparr>, w3, s3)))"

definition set_remote :: "mirror_remote \<Rightarrow> mirror_worker \<Rightarrow> mirror_worker" where
  "set_remote r mw = mw\<lparr>mw_remote := Some r\<rparr>"

section \<open>The handlers\<close>

record mirror_status =
  mst_url :: string
  mst_cursors :: "mirror_cursor list"
  mst_error :: "mirror_error option"
  mst_synced :: "go_time option"

definition mirror_status_of :: "mirror_worker \<Rightarrow> mem_store \<Rightarrow> mirror_status option" where
  "mirror_status_of mw s =
     (case mw_remote mw of
        None \<Rightarrow> None
      | Some r \<Rightarrow> Some \<lparr>mst_url = mre_url r, mst_cursors = list_mirror_cursors s mirror_remote_name, mst_error = mw_error mw,
                      mst_synced = mw_synced mw\<rparr>)"

text \<open>Unfreezing adopts the tip the mirror has, and answers both tips.\<close>

definition unfreeze_mirror ::
  "'w mirror_git \<Rightarrow> go_time \<Rightarrow> mirror_worker \<Rightarrow> caller option \<Rightarrow> bot_lane option \<Rightarrow> string \<Rightarrow> 'w \<Rightarrow> mem_store \<Rightarrow>
   (api_error + string \<times> string) \<times> 'w \<times> mem_store" where
  "unfreeze_mirror g now mw asker lane ref w s =
     (case mw_remote mw of
        None \<Rightarrow> (Inl (typed_err 404 []), w, s)
      | Some r \<Rightarrow>
          (case authorize_force_land asker lane of
             Some e \<Rightarrow> (Inl e, w, s)
           | None \<Rightarrow>
               if ref = [] then (Inl (typed_err 400 ''missing_field''), w, s)
               else (case ls_remote g r ref w of
                       (None, w1) \<Rightarrow> (Inl (typed_err 502 []), w1, s)
                     | (Some sha, w1) \<Rightarrow>
                         (let tip = (case git_rev_parse g w1 ref of None \<Rightarrow> [] | Some t \<Rightarrow> t) in
                          case upsert_mirror_cursor now mirror_remote_name ref sha s of
                            (Inl _, s1) \<Rightarrow> (Inl internal_err, w1, s1) | (Inr _, s1) \<Rightarrow> (Inr (sha, tip), w1, s1)))))"

definition mirror_frozen_count :: "mirror_worker option \<Rightarrow> mem_store \<Rightarrow> nat" where
  "mirror_frozen_count mw s =
     (if mw = None then 0 else length (filter mc_frozen (list_mirror_cursors s mirror_remote_name)))"

section \<open>What the wire promises\<close>

text \<open>\<open>far w ref\<close> is what the mirror has at a ref, empty when it has nothing. Listing tells it and changes nothing. A leased
  push that succeeds replaces the expected value by the tip; one that fails may still have been applied, when the lease
  held. The other pushes and the deletion of a local ref leave branches of the mirror alone.\<close>

definition wire_laws :: "'w mirror_git \<Rightarrow> mirror_remote \<Rightarrow> ('w \<Rightarrow> string \<Rightarrow> string) \<Rightarrow> string \<Rightarrow> bool" where
  "wire_laws g r far trunk \<longleftrightarrow>
     (\<forall>w. let (out, w1) = ls_remote g r trunk w in far w1 = far w \<and> (\<forall>sha. out = Some sha \<longrightarrow> sha = far w trunk))
   \<and> (\<forall>expected tip w. let (ok, w1) = push_with_lease g r trunk expected tip w in
        (\<forall>x. x \<noteq> trunk \<longrightarrow> far w1 x = far w x)
      \<and> (ok \<longrightarrow> far w trunk = expected \<and> far w1 trunk = tip)
      \<and> (\<not> ok \<longrightarrow> far w1 trunk = far w trunk \<or> far w trunk = expected \<and> far w1 trunk = tip))
   \<and> (\<forall>spec\<in>{tags_spec, changes_spec}. \<forall>w x. prefix ''refs/heads/'' x \<longrightarrow> far (snd (push_refspecs g r [spec] w)) x = far w x)
   \<and> (\<forall>ref w. far (snd (mg_delete g ref w)) = far w)"

lemma wire_ls:
  assumes "wire_laws g r far trunk" "ls_remote g r trunk w = (out, w1)"
  shows "far w1 = far w" "out = Some sha \<Longrightarrow> sha = far w trunk"
proof -
  have "let (out, w1) = ls_remote g r trunk w in far w1 = far w \<and> (\<forall>sha. out = Some sha \<longrightarrow> sha = far w trunk)"
    using assms(1) unfolding wire_laws_def by blast
  then show "far w1 = far w" "out = Some sha \<Longrightarrow> sha = far w trunk" using assms(2) by simp_all
qed

lemma wire_push:
  assumes "wire_laws g r far trunk" "push_with_lease g r trunk expected tip w = (ok, w1)"
  shows "ok \<Longrightarrow> far w trunk = expected \<and> far w1 trunk = tip"
    "\<not> ok \<Longrightarrow> far w1 trunk = far w trunk \<or> far w trunk = expected \<and> far w1 trunk = tip"
proof -
  have "let (ok, w1) = push_with_lease g r trunk expected tip w in
        (\<forall>x. x \<noteq> trunk \<longrightarrow> far w1 x = far w x)
      \<and> (ok \<longrightarrow> far w trunk = expected \<and> far w1 trunk = tip)
      \<and> (\<not> ok \<longrightarrow> far w1 trunk = far w trunk \<or> far w trunk = expected \<and> far w1 trunk = tip)"
    using assms(1) unfolding wire_laws_def by blast
  then show "ok \<Longrightarrow> far w trunk = expected \<and> far w1 trunk = tip"
    "\<not> ok \<Longrightarrow> far w1 trunk = far w trunk \<or> far w trunk = expected \<and> far w1 trunk = tip" using assms(2) by simp_all
qed

lemma heal_refs_far: "wire_laws g r far trunk \<Longrightarrow> far (heal_refs g lines w) = far w"
  by (induction g lines w rule: heal_refs.induct) (auto simp: wire_laws_def split: option.splits)

lemma sync_namespace_far:
  assumes "wire_laws g r far trunk" "prefix ''refs/heads/'' x" "spec \<in> {tags_spec, changes_spec}"
    and "sync_namespace g r name spec now w s = (e, w1, s1)"
  shows "far w1 x = far w x"
proof -
  have "far (heal_namespace g (go_trim_suffix name ''/*'') w) = far w"
    using heal_refs_far [OF assms(1)] by (simp add: heal_namespace_def split: option.split)
  moreover have "far (snd (push_refspecs g r [spec] v)) x = far v x" for v
    using assms(1-3) unfolding wire_laws_def by blast
  moreover have "w1 = snd (push_refspecs g r [spec] (heal_namespace g (go_trim_suffix name ''/*'') w))"
    using assms(4)
    by (auto simp: sync_namespace_def record_cursor_def upsert_mirror_cursor_def split: prod.splits bool.splits)
  ultimately show ?thesis by simp
qed

lemma cursor_put: "get_mirror_cursor (s\<lparr>ms_mirrors := gm_put (ms_mirrors s) (nul_key n ref) c\<rparr>) n x = (if x = ref then Some c else get_mirror_cursor s n x)"
  by (auto simp: get_mirror_cursor_def nul_key_def)

lemma record_cursor_effect:
  "record_cursor now ref sha w s = (e, w1, s1) \<Longrightarrow> e = None \<and> w1 = w
     \<and> get_mirror_cursor s1 mirror_remote_name x = (if x = ref then Some \<lparr>mc_ref = ref, mc_last_synced = sha, mc_frozen = False, mc_updated = now\<rparr>
         else get_mirror_cursor s mirror_remote_name x)"
  by (auto simp: record_cursor_def upsert_mirror_cursor_def cursor_put)

lemma freeze_with_effect:
  "freeze_with now ref e w s = (e1, w1, s1) \<Longrightarrow> e1 = Some e \<and> w1 = w \<and> (\<exists>c. get_mirror_cursor s1 mirror_remote_name ref = Some c \<and> mc_frozen c)
     \<and> (\<forall>x. x \<noteq> ref \<longrightarrow> get_mirror_cursor s1 mirror_remote_name x = get_mirror_cursor s mirror_remote_name x)"
  by (auto simp: freeze_with_def freeze_mirror_cursor_def Let_def cursor_put)

lemma sync_namespace_cursor:
  assumes "sync_namespace g r name spec now w s = (e, w1, s1)" "x \<noteq> name"
  shows "get_mirror_cursor s1 mirror_remote_name x = get_mirror_cursor s mirror_remote_name x"
  using assms record_cursor_effect by (fastforce simp: sync_namespace_def split: prod.splits bool.splits)

text \<open>The three parts of a sync, seen from trunk: only the first touches the mirror's trunk and its cursor.\<close>

lemma sync_once_trunk:
  assumes laws: "wire_laws g r far trunk" and mw: "mw_remote mw = Some r" and trunk: "trunk = ''refs/heads/'' @ mw_trunk mw"
    and run: "sync_once env g now mw w s = (e, mw', w', s')"
  obtains e1 w1 s1 where "sync_trunk env g r (mw_trunk mw) now w s = (e1, w1, s1)" "far w' trunk = far w1 trunk"
    "get_mirror_cursor s' mirror_remote_name trunk = get_mirror_cursor s1 mirror_remote_name trunk" "e1 \<noteq> None \<Longrightarrow> e = e1"
proof -
  obtain e1 w1 s1 where a: "sync_trunk env g r (mw_trunk mw) now w s = (e1, w1, s1)" using prod_cases3 by blast
  obtain e2 w2 s2 where b: "sync_namespace g r ''refs/tags/*'' tags_spec now w1 s1 = (e2, w2, s2)" using prod_cases3 by blast
  obtain e3 w3 s3 where c: "sync_namespace g r ''refs/changes/*'' changes_spec now w2 s2 = (e3, w3, s3)" using prod_cases3 by blast
  have res: "e = first_error (first_error e1 e2) e3" "w' = w3" "s' = s3"
    using run mw a b c by (simp_all add: sync_once_def Let_def)
  have "prefix ''refs/heads/'' trunk" using trunk by simp
  then have "far w3 trunk = far w1 trunk"
    using sync_namespace_far [OF laws _ _ b] sync_namespace_far [OF laws _ _ c] by simp
  moreover have "trunk \<noteq> ''refs/tags/*''" "trunk \<noteq> ''refs/changes/*''" using trunk by auto
  then have "get_mirror_cursor s3 mirror_remote_name trunk = get_mirror_cursor s1 mirror_remote_name trunk"
    using sync_namespace_cursor [OF b] sync_namespace_cursor [OF c] by simp
  moreover have "e1 \<noteq> None \<Longrightarrow> e = e1" using res(1) by (auto simp: first_error_def)
  ultimately show thesis using that [OF a] res by simp
qed

definition frozen_at :: "mem_store \<Rightarrow> string \<Rightarrow> bool" where
  "frozen_at s trunk \<longleftrightarrow> (\<exists>c. get_mirror_cursor s mirror_remote_name trunk = Some c \<and> mc_frozen c)"

lemma sync_trunk_cases:
  assumes run: "sync_trunk env g r t now w s = (e, w1, s1)" and trunk: "trunk = ''refs/heads/'' @ t"
  obtains (unborn) "git_rev_parse g w trunk = None" "e = None" "w1 = w" "s1 = s"
  | (frozen) "frozen_at s trunk" "e = Some (MirrorFrozen trunk)" "w1 = w" "s1 = s"
  | (current) c where "get_mirror_cursor s mirror_remote_name trunk = Some c" "git_rev_parse g w trunk = Some (mc_last_synced c)"
      "\<not> frozen_at s trunk" "e = None" "w1 = w" "s1 = s"
  | (unreachable) "\<not> frozen_at s trunk" "ls_remote g r trunk (env 0 w) = (None, w1)" "e = Some MirrorLs" "s1 = s"
  | (diverged) tip sha where "git_rev_parse g w trunk = Some tip" "\<not> frozen_at s trunk" "ls_remote g r trunk (env 0 w) = (Some sha, w1)"
      "sha \<noteq> lease_sha (get_mirror_cursor s mirror_remote_name trunk)" "sha \<noteq> tip"
      "e = Some (MirrorDiverged trunk sha (lease_sha (get_mirror_cursor s mirror_remote_name trunk)))" "frozen_at s1 trunk"
  | (lost) tip w2 where "git_rev_parse g w trunk = Some tip" "\<not> frozen_at s trunk"
      "ls_remote g r trunk (env 0 w) = (Some (lease_sha (get_mirror_cursor s mirror_remote_name trunk)), w2)"
      "push_with_lease g r trunk (lease_sha (get_mirror_cursor s mirror_remote_name trunk)) tip (env 1 w2) = (False, w1)"
      "e = Some (MirrorLease trunk)" "frozen_at s1 trunk"
  | (pushed) tip w2 where "git_rev_parse g w trunk = Some tip" "\<not> frozen_at s trunk"
      "ls_remote g r trunk (env 0 w) = (Some (lease_sha (get_mirror_cursor s mirror_remote_name trunk)), w2)"
      "push_with_lease g r trunk (lease_sha (get_mirror_cursor s mirror_remote_name trunk)) tip (env 1 w2) = (True, w1)"
      "e = None" "get_mirror_cursor s1 mirror_remote_name trunk = Some \<lparr>mc_ref = trunk, mc_last_synced = tip, mc_frozen = False, mc_updated = now\<rparr>"
  | (adopted) tip where "git_rev_parse g w trunk = Some tip" "\<not> frozen_at s trunk" "ls_remote g r trunk (env 0 w) = (Some tip, w1)"
      "e = None" "get_mirror_cursor s1 mirror_remote_name trunk = Some \<lparr>mc_ref = trunk, mc_last_synced = tip, mc_frozen = False, mc_updated = now\<rparr>"
proof -
  let ?cursor = "get_mirror_cursor s mirror_remote_name trunk"
  have frozen_iff: "(case ?cursor of None \<Rightarrow> False | Some c \<Rightarrow> mc_frozen c) \<longleftrightarrow> frozen_at s trunk"
    by (auto simp: frozen_at_def split: option.split)
  note def_ = run [unfolded sync_trunk_def Let_def trunk [symmetric] frozen_iff]
  show thesis
  proof (cases "git_rev_parse g w trunk")
    case None
    then show thesis using unborn def_ by simp
  next
    case tip: (Some tip)
    show thesis
    proof (cases "frozen_at s trunk")
      case True
      then show thesis using frozen def_ tip by simp
    next
      case live: False
      show thesis
      proof (cases "\<exists>c. ?cursor = Some c \<and> mc_last_synced c = tip")
        case True
        then show thesis using current def_ tip live by auto
      next
        case moved: False
        then have not_current: "(case ?cursor of None \<Rightarrow> False | Some c \<Rightarrow> mc_last_synced c = tip) = False"
          by (cases ?cursor) auto
        obtain out w2 where ls: "ls_remote g r trunk (env 0 w) = (out, w2)" by fastforce
        show thesis
        proof (cases out)
          case None
          then show thesis using unreachable def_ tip live not_current ls by simp
        next
          case (Some sha)
          show thesis
          proof (cases "sha \<noteq> lease_sha ?cursor \<and> sha \<noteq> tip")
            case True
            then have fr: "freeze_with now trunk (MirrorDiverged trunk sha (lease_sha ?cursor)) w2 s = (e, w1, s1)"
              using def_ tip live not_current ls Some by simp
            show thesis
              using diverged [OF tip live] freeze_with_effect [OF fr] ls Some True by (auto simp: frozen_at_def)
          next
            case agree: False
            show thesis
            proof (cases "sha = tip")
              case True
              then have "record_cursor now trunk tip w2 s = (e, w1, s1)" using def_ tip live not_current ls Some by simp
              from record_cursor_effect [OF this, of trunk] show thesis using adopted [OF tip live] ls Some True by simp
            next
              case False
              then have lease: "sha = lease_sha ?cursor" using agree by simp
              obtain ok w4 where push: "push_with_lease g r trunk sha tip (env 1 w2) = (ok, w4)" by fastforce
              show thesis
              proof (cases ok)
                case True
                then have "record_cursor now trunk tip w4 s = (e, w1, s1)" using def_ tip live not_current ls Some lease False push by simp
                from record_cursor_effect [OF this, of trunk] show thesis using pushed [OF tip live] ls Some lease push True by simp
              next
                case lost': False
                then have fr: "freeze_with now trunk (MirrorLease trunk) w4 s = (e, w1, s1)"
                  using def_ tip live not_current ls Some lease False push by simp
                then have "e = Some (MirrorLease trunk)" "w1 = w4" "frozen_at s1 trunk"
                  using freeze_with_effect [OF fr] by (auto simp: frozen_at_def)
                then show thesis using lost [OF tip live] ls Some lease push lost' by simp
              qed
            qed
          qed
        qed
      qed
    qed
  qed
qed

text \<open>C9. What others write to the mirror's trunk is never overwritten behind their back: whatever happens between the calls
  of a sync, the mirror's trunk ends as it was at one of those moments, or the cursor was not frozen, the mirror had
  exactly what the cursor says was last pushed there (nothing, before the first sync) when the push ran, and it now
  has the tip the sync read at its start. A frozen trunk is not touched at all.\<close>
theorem mirror_foreign_kept:
  fixes far :: "'w \<Rightarrow> string \<Rightarrow> string"
  assumes laws: "wire_laws g r far trunk" and mw: "mw_remote mw = Some r" and trunk: "trunk = ''refs/heads/'' @ mw_trunk mw"
    and run: "sync_once env g now mw w s = (e, mw', w', s')"
  shows "let w2 = snd (ls_remote g r trunk (env 0 w)); w3 = env 1 w2; cursor = get_mirror_cursor s mirror_remote_name trunk in
      (far w' trunk \<in> {far w trunk, far w2 trunk, far w3 trunk}
       \<or> (\<not> frozen_at s trunk \<and> far w3 trunk = lease_sha cursor \<and> git_rev_parse g w trunk = Some (far w' trunk)))
    \<and> (frozen_at s trunk \<and> git_rev_parse g w trunk \<noteq> None \<longrightarrow> far w' trunk = far w trunk \<and> e = Some (MirrorFrozen trunk) \<and> frozen_at s' trunk)"
proof -
  obtain e1 w1 s1 where st: "sync_trunk env g r (mw_trunk mw) now w s = (e1, w1, s1)" "far w' trunk = far w1 trunk"
      "get_mirror_cursor s' mirror_remote_name trunk = get_mirror_cursor s1 mirror_remote_name trunk" "e1 \<noteq> None \<Longrightarrow> e = e1"
    using sync_once_trunk [OF laws mw trunk run] by blast
  show ?thesis
    using st(1) trunk
  proof (cases rule: sync_trunk_cases)
    case (lost tip w2)
    then show ?thesis using wire_push(2) [OF laws lost(4)] st(2) by (auto simp: Let_def)
  next
    case (pushed tip w2)
    then show ?thesis using wire_push(1) [OF laws pushed(4)] st(2) by (auto simp: Let_def)
  qed (use st in \<open>auto simp: Let_def frozen_at_def\<close>)
qed

section \<open>Own writes\<close>

text \<open>The mirror has what the cursor says, and nothing before the first sync.\<close>

definition mirror_agrees :: "('w \<Rightarrow> string \<Rightarrow> string) \<Rightarrow> string \<Rightarrow> 'w \<Rightarrow> mem_store \<Rightarrow> bool" where
  "mirror_agrees far trunk w s \<longleftrightarrow> \<not> frozen_at s trunk \<and> far w trunk = lease_sha (get_mirror_cursor s mirror_remote_name trunk)"

text \<open>A life without foreign writes: the daemon changes its own repository and its store, and syncs run, with more of
  the daemon's work going on inside them. It remembers what each sync answered.\<close>

inductive mirror_life :: "'w mirror_git \<Rightarrow> ('w \<Rightarrow> string \<Rightarrow> string) \<Rightarrow> mirror_worker \<Rightarrow> 'w \<times> mem_store \<Rightarrow> mirror_error option list \<Rightarrow> 'w \<times> mem_store \<Rightarrow> bool"
  for g far mw where
  refl: "mirror_life g far mw st [] st"
| work: "mirror_life g far mw st es (w, s) \<Longrightarrow> far w1 = far w \<Longrightarrow>
    (\<And>x. get_mirror_cursor s1 mirror_remote_name x = get_mirror_cursor s mirror_remote_name x) \<Longrightarrow> mirror_life g far mw st es (w1, s1)"
| sync: "mirror_life g far mw st es (w, s) \<Longrightarrow> (\<And>i v. far (env i v) = far v) \<Longrightarrow>
    sync_once env g now (mw\<lparr>mw_error := err, mw_synced := at\<rparr>) w s = (e, mw1, w1, s1) \<Longrightarrow> mirror_life g far mw st (es @ [e]) (w1, s1)"

text \<open>What a sync answers when it could not reach the mirror, or when its leased push failed.\<close>

definition wire_failed :: "string \<Rightarrow> mirror_error option \<Rightarrow> bool" where
  "wire_failed trunk e \<longleftrightarrow> e = Some MirrorLs \<or> e = Some (MirrorLease trunk)"

lemma sync_once_late:
  assumes "sync_once env g now mw w s = (e, mw', w', s')" "mw_remote mw = Some r" "sync_trunk env g r (mw_trunk mw) now w s = (None, w1, s1)"
  shows "\<not> wire_failed trunk e" "e \<noteq> Some (MirrorDiverged trunk a b)"
  using assms
  by (auto simp: wire_failed_def sync_once_def first_error_def sync_namespace_def record_cursor_def upsert_mirror_cursor_def Let_def
      split: prod.splits bool.splits option.splits)

lemma sync_keeps_agreement:
  assumes laws: "wire_laws g r far trunk" and mw: "mw_remote mw = Some r" and trunk: "trunk = ''refs/heads/'' @ mw_trunk mw"
    and quiet: "\<And>i v. far (env i v) = far v" and ok: "mirror_agrees far trunk w s"
    and run: "sync_once env g now mw w s = (e, mw', w', s')"
  shows "(mirror_agrees far trunk w' s' \<or> e = Some (MirrorLease trunk) \<and> frozen_at s' trunk)
    \<and> (\<forall>tip. git_rev_parse g w trunk = Some tip \<longrightarrow> wire_failed trunk e \<or> far w' trunk = tip \<and> \<not> frozen_at s' trunk)
    \<and> (\<forall>a b. e \<noteq> Some (MirrorDiverged trunk a b))"
proof -
  obtain e1 w1 s1 where st: "sync_trunk env g r (mw_trunk mw) now w s = (e1, w1, s1)" "far w' trunk = far w1 trunk"
      "get_mirror_cursor s' mirror_remote_name trunk = get_mirror_cursor s1 mirror_remote_name trunk" "e1 \<noteq> None \<Longrightarrow> e = e1"
    using sync_once_trunk [OF laws mw trunk run] by blast
  have later: "\<forall>a b. e \<noteq> Some (MirrorDiverged trunk a b)" if "e1 = None \<or> e1 = Some MirrorLs"
    using that st(4) sync_once_late(2) [OF run mw] st(1) by auto
  have agree: "mirror_agrees far trunk w' s'" if "far w1 trunk = lease_sha (get_mirror_cursor s1 mirror_remote_name trunk)" "\<not> frozen_at s1 trunk"
    using that st by (simp add: mirror_agrees_def frozen_at_def)
  have frozen': "frozen_at s' trunk \<longleftrightarrow> frozen_at s1 trunk" using st(3) by (simp add: frozen_at_def)
  show ?thesis
    using st(1) trunk
  proof (cases rule: sync_trunk_cases)
    case unborn
    then show ?thesis using agree ok later by (simp add: mirror_agrees_def)
  next
    case frozen
    then show ?thesis using ok by (simp add: mirror_agrees_def)
  next
    case (current c)
    then show ?thesis using agree ok later st(2) frozen' by (simp add: mirror_agrees_def lease_sha_def)
  next
    case unreachable
    then have "far w1 = far w" using wire_ls(1) [OF laws] quiet by metis
    then show ?thesis using agree ok later unreachable st(4) by (simp add: mirror_agrees_def wire_failed_def)
  next
    case (diverged tip sha)
    then have "sha = far w trunk" using wire_ls(2) [OF laws] quiet by metis
    then show ?thesis using ok diverged by (simp add: mirror_agrees_def)
  next
    case (lost tip w2)
    then show ?thesis using st(4) frozen' by (simp add: wire_failed_def)
  next
    case (pushed tip w2)
    then have "far w1 trunk = tip" using wire_push(1) [OF laws] by blast
    then show ?thesis using agree later st(2) pushed frozen' by (simp add: lease_sha_def frozen_at_def)
  next
    case (adopted tip)
    then have "far w1 = far w" "tip = far w trunk" using wire_ls [OF laws] quiet by metis+
    then show ?thesis using agree later st(2) adopted frozen' by (simp add: lease_sha_def frozen_at_def)
  qed
qed

lemma sync_frozen:
  assumes laws: "wire_laws g r far trunk" and mw: "mw_remote mw = Some r" and trunk: "trunk = ''refs/heads/'' @ mw_trunk mw"
    and frozen: "frozen_at s trunk" and run: "sync_once env g now mw w s = (e, mw', w', s')"
  shows "frozen_at s' trunk \<and> (\<forall>a b. e \<noteq> Some (MirrorDiverged trunk a b))"
proof -
  obtain e1 w1 s1 where st: "sync_trunk env g r (mw_trunk mw) now w s = (e1, w1, s1)" "far w' trunk = far w1 trunk"
      "get_mirror_cursor s' mirror_remote_name trunk = get_mirror_cursor s1 mirror_remote_name trunk" "e1 \<noteq> None \<Longrightarrow> e = e1"
    using sync_once_trunk [OF laws mw trunk run] by blast
  have "(s1 = s \<and> (e1 = None \<or> e1 = Some (MirrorFrozen trunk)))"
    using st(1) trunk by (cases rule: sync_trunk_cases) (use frozen in \<open>auto simp: frozen_at_def\<close>)
  moreover have "e1 = None \<Longrightarrow> \<forall>a b. e \<noteq> Some (MirrorDiverged trunk a b)"
    using sync_once_late(2) [OF run mw] st(1) by blast
  ultimately show ?thesis using frozen st(3,4) by (auto simp: frozen_at_def)
qed


text \<open>A push that fails for any other reason counts as a lost lease: an outage of the network between listing and push
  freezes a mirror that nobody else has written.\<close>

lemma failed_push_freezes:
  assumes "git_rev_parse g w trunk = Some tip" "trunk = ''refs/heads/'' @ t" "\<not> frozen_at s trunk"
    "get_mirror_cursor s mirror_remote_name trunk = Some c" "mc_last_synced c \<noteq> tip"
    "ls_remote g r trunk (env 0 w) = (Some (mc_last_synced c), w2)"
    "push_with_lease g r trunk (mc_last_synced c) tip (env 1 w2) = (False, w3)" "far w3 trunk = mc_last_synced c"
    "sync_trunk env g r t now w s = (e, w1, s1)"
  shows "frozen_at s1 trunk \<and> far w1 trunk = mc_last_synced c"
  using assms(9,2)
  by (cases rule: sync_trunk_cases) (use assms in \<open>auto simp: lease_sha_def frozen_at_def\<close>)

text \<open>C26. Only the deploy token, or an administrator who is no agent, unfreezes a mirror, never a lane; and what that sanctions is one
  overwrite: the cursor is live again with the tip the mirror had at that moment, and when nobody else writes the mirror
  meanwhile the next sync puts the tip of trunk there, unless it answers that the mirror could not be listed or that the push failed.\<close>
theorem unfreeze_sanctions_one_overwrite:
  fixes far :: "'w \<Rightarrow> string \<Rightarrow> string"
  assumes laws: "wire_laws g r far trunk" and mw: "mw_remote mw = Some r" and trunk: "trunk = ''refs/heads/'' @ mw_trunk mw"
    and run: "unfreeze_mirror g now mw asker lane trunk w s = (Inr (sha, tip), w1, s1)"
  shows "lane = None \<and> (\<forall>p. asker = Some p \<longrightarrow> \<not> pn_is_agent p \<and> pn_admin p)
    \<and> sha = far w trunk \<and> \<not> frozen_at s1 trunk \<and> lease_sha (get_mirror_cursor s1 mirror_remote_name trunk) = sha
    \<and> (\<forall>env later tip1 e mw' w' s'. (\<forall>i v. far (env i v) = far v) \<and> git_rev_parse g w1 trunk = Some tip1 \<and> sync_once env g later mw w1 s1 = (e, mw', w', s') \<longrightarrow>
         wire_failed trunk e \<or> far w' trunk = tip1 \<and> \<not> frozen_at s' trunk)"
proof -
  have auth: "authorize_force_land asker lane = None"
    using run mw by (auto simp: unfreeze_mirror_def split: option.splits)
  obtain out w2 where ls: "ls_remote g r trunk w = (out, w2)" by fastforce
  have eff: "out = Some sha" "w1 = w2" "get_mirror_cursor s1 mirror_remote_name trunk = Some \<lparr>mc_ref = trunk, mc_last_synced = sha, mc_frozen = False, mc_updated = now\<rparr>"
    using run mw auth ls trunk by (auto simp: unfreeze_mirror_def upsert_mirror_cursor_def Let_def cursor_put split: option.splits)
  then have seen: "sha = far w trunk" "far w1 = far w" using wire_ls [OF laws ls] by simp_all
  have ok: "mirror_agrees far trunk w1 s1" using eff(3) seen by (simp add: mirror_agrees_def frozen_at_def lease_sha_def)
  have who: "lane = None \<and> (\<forall>p. asker = Some p \<longrightarrow> \<not> pn_is_agent p \<and> pn_admin p)"
    using auth by (auto simp: authorize_force_land_def split: option.splits if_splits)
  have "\<not> frozen_at s1 trunk" "lease_sha (get_mirror_cursor s1 mirror_remote_name trunk) = sha"
    using eff(3) by (simp_all add: frozen_at_def lease_sha_def)
  then show ?thesis using who seen(1) sync_keeps_agreement [OF laws mw trunk _ ok] by blast
qed

section \<open>Two repositories and a wire\<close>

record wire =
  wi_near :: "(string, string) gomap"
  wi_far :: "(string, string) gomap"

definition first_word :: "string \<Rightarrow> string" where
  "first_word v = (case go_fields v of [] \<Rightarrow> [] | f # _ \<Rightarrow> f)"

definition wire_far :: "wire \<Rightarrow> string \<Rightarrow> string" where
  "wire_far w ref = (case gm_get (wi_far w) ref of None \<Rightarrow> [] | Some v \<Rightarrow> v)"

definition wire_ref :: string where "wire_ref = ''refs/heads/main''"

text \<open>Listing prints one word and the ref; a leased push of the branch compares and swaps; other pushes add tags.\<close>

definition wire_run :: "string list \<Rightarrow> string list \<Rightarrow> wire \<Rightarrow> string option \<times> wire" where
  "wire_run env args w =
     (case args of
        [a, b, c] \<Rightarrow>
          if a = ''ls-remote''
          then (let sha = wire_far w c in (if first_word (go_trim_right (\<lambda>x. x = newline) sha) = sha then Some sha else None, w))
          else (Some [], w\<lparr>wi_far := gm_put (wi_far w) ''refs/tags/v1'' ''t''\<rparr>)
      | [a, b, c, d] \<Rightarrow>
          (case (go_cut_prefix b (''--force-with-lease='' @ wire_ref @ '':''), go_cut_prefix (go_trim_suffix d ('':'' @ wire_ref)) ''+'') of
             (Some expected, Some tip) \<Rightarrow>
               if wire_far w wire_ref = expected then (Some [], w\<lparr>wi_far := gm_put (wi_far w) wire_ref tip\<rparr>) else (None, w)
           | _ \<Rightarrow> (None, w))
      | _ \<Rightarrow> (Some [], w))"

definition wire_git :: "wire mirror_git" where
  "wire_git = \<lparr>mg_run = wire_run,
     mg_out = (\<lambda>w args. case args of [a, b, ref] \<Rightarrow> if a = ''rev-parse'' then gm_get (wi_near w) ref else Some [] | _ \<Rightarrow> Some []),
     mg_delete = (\<lambda>ref w. (True, w\<lparr>wi_near := gm_del (wi_near w) ref\<rparr>))\<rparr>"

definition wire_remote :: mirror_remote where
  "wire_remote = \<lparr>mre_url = ''ssh://backup'', mre_username = [], mre_token = [], mre_source = None\<rparr>"

lemma wire_exec: "mirror_exec wire_git wire_remote args w =
    (let (out, w1) = wire_run [] args w in (map_option (go_trim_right (\<lambda>c. c = newline)) out, w1))"
  by (simp add: mirror_exec_def mirror_env_def wire_remote_def wire_git_def)

lemma wire_ls_remote:
  "ls_remote wire_git wire_remote ref w =
     (let sha = wire_far w ref in (if first_word (go_trim_right (\<lambda>x. x = newline) sha) = sha then Some sha else None, w))"
  by (auto simp: ls_remote_def wire_exec wire_run_def Let_def first_word_def)

lemma wire_push_lease:
  "push_with_lease wire_git wire_remote wire_ref expected tip w =
     (if wire_far w wire_ref = expected then (True, w\<lparr>wi_far := gm_put (wi_far w) wire_ref tip\<rparr>) else (False, w))"
proof -
  have "go_cut_prefix (''--force-with-lease='' @ wire_ref @ '':'' @ expected) (''--force-with-lease='' @ wire_ref @ '':'') = Some expected"
    by (simp add: go_cut_prefix_Some)
  moreover have "go_trim_suffix (''+'' @ tip @ '':'' @ wire_ref) ('':'' @ wire_ref) = ''+'' @ tip"
    by (simp add: go_trim_suffix_def suffix_def)
  moreover have "go_cut_prefix (''+'' @ tip) ''+'' = Some tip" by (simp add: go_cut_prefix_Some)
  ultimately show ?thesis by (simp add: push_with_lease_def wire_exec wire_run_def)
qed

lemma wire_git_laws: "wire_laws wire_git wire_remote wire_far wire_ref"
proof -
  have ls: "case ls_remote wire_git wire_remote wire_ref w of (out, w1) \<Rightarrow> wire_far w1 = wire_far w \<and> (\<forall>sha. out = Some sha \<longrightarrow> sha = wire_far w wire_ref)" for w
    by (simp add: wire_ls_remote Let_def)
  have push: "case push_with_lease wire_git wire_remote wire_ref expected tip w of (ok, w1) \<Rightarrow>
        (\<forall>x. x \<noteq> wire_ref \<longrightarrow> wire_far w1 x = wire_far w x)
      \<and> (ok \<longrightarrow> wire_far w wire_ref = expected \<and> wire_far w1 wire_ref = tip)
      \<and> (\<not> ok \<longrightarrow> wire_far w1 wire_ref = wire_far w wire_ref \<or> wire_far w wire_ref = expected \<and> wire_far w1 wire_ref = tip)" for expected tip w
    by (simp add: wire_push_lease wire_far_def)
  have specs: "wire_far (snd (push_refspecs wire_git wire_remote [spec] w)) x = wire_far w x" if "prefix ''refs/heads/'' x" for spec w x
    using that by (auto simp: push_refspecs_def wire_exec wire_run_def wire_far_def)
  have del: "wire_far (snd (mg_delete wire_git ref w)) = wire_far w" for ref w
    by (simp add: wire_git_def wire_far_def fun_eq_iff)
  show "wire_laws wire_git wire_remote wire_far wire_ref"
    unfolding wire_laws_def Let_def by (intro conjI allI ballI impI ls push specs del)
qed

definition wire_worker :: mirror_worker where
  "wire_worker = \<lparr>mw_remote = Some wire_remote, mw_trunk = ''main'', mw_error = None, mw_synced = None\<rparr>"

definition wire_at :: "string \<Rightarrow> wire" where
  "wire_at tip = \<lparr>wi_near = [(wire_ref, tip)], wi_far = []\<rparr>"

lemma wire_worker_facts: "mw_remote wire_worker = Some wire_remote" "wire_ref = ''refs/heads/'' @ mw_trunk wire_worker"
  by (simp_all add: wire_worker_def wire_ref_def)

theorem mirror_foreign_kept_witness:
  "let w = (wire_at ''c2'')\<lparr>wi_far := [(wire_ref, ''zz'')]\<rparr>; (e, mw', w', s') = sync_once (\<lambda>_ v. v) wire_git 7 wire_worker w new_mem_store
   in wire_far w' wire_ref = ''zz''"
proof -
  obtain e mw' w' s' where run: "sync_once (\<lambda>_ v. v) wire_git 7 wire_worker ((wire_at ''c2'')\<lparr>wi_far := [(wire_ref, ''zz'')]\<rparr>) new_mem_store = (e, mw', w', s')"
    using prod_cases4 by blast
  have "get_mirror_cursor new_mem_store mirror_remote_name wire_ref = None"
    by (simp add: get_mirror_cursor_def new_mem_store_def)
  moreover have "wire_far ((wire_at ''c2'')\<lparr>wi_far := [(wire_ref, ''zz'')]\<rparr>) wire_ref = ''zz''" by (simp add: wire_far_def gm_get_def)
  ultimately show ?thesis
    using mirror_foreign_kept [OF wire_git_laws wire_worker_facts run] run
    by (simp add: wire_ls_remote Let_def lease_sha_def)
qed

text \<open>On this wire nothing fails.\<close>

lemma wire_syncs:
  assumes live: "\<not> frozen_at s wire_ref" and ls: "fst (ls_remote wire_git wire_remote wire_ref w) \<noteq> None"
    and run: "sync_once (\<lambda>_ v. v) wire_git now wire_worker w s = (e, mw', w', s')"
  shows "\<not> wire_failed wire_ref e"
proof -
  obtain e1 w1 s1 where st: "sync_trunk (\<lambda>_ v. v) wire_git wire_remote (mw_trunk wire_worker) now w s = (e1, w1, s1)"
      "wire_far w' wire_ref = wire_far w1 wire_ref" "get_mirror_cursor s' mirror_remote_name wire_ref = get_mirror_cursor s1 mirror_remote_name wire_ref" "e1 \<noteq> None \<Longrightarrow> e = e1"
    using sync_once_trunk [OF wire_git_laws wire_worker_facts run] by blast
  have "\<not> wire_failed wire_ref e1"
    using st(1) wire_worker_facts(2)
  proof (cases rule: sync_trunk_cases)
    case (lost tip w2)
    then have "wire_far w2 wire_ref = lease_sha (get_mirror_cursor s mirror_remote_name wire_ref)"
      using wire_ls [OF wire_git_laws lost(3)] by simp
    then show ?thesis using lost(4) by (simp add: wire_push_lease)
  qed (use ls in \<open>auto simp: wire_failed_def\<close>)
  then show ?thesis using sync_once_late(1) [OF run wire_worker_facts(1)] st(1,4) by (cases e1) auto
qed


theorem unfreeze_sanctions_one_overwrite_witness:
  "\<exists>w1 s1 e mw' w' s'. unfreeze_mirror wire_git 8 wire_worker None None wire_ref ((wire_at ''c2'')\<lparr>wi_far := [(wire_ref, ''zz'')]\<rparr>) new_mem_store
       = (Inr (''zz'', ''c2''), w1, s1)
     \<and> sync_once (\<lambda>_ v. v) wire_git 9 wire_worker w1 s1 = (e, mw', w', s') \<and> wire_far w' wire_ref = ''c2''"
proof -
  let ?w = "(wire_at ''c2'')\<lparr>wi_far := [(wire_ref, ''zz'')]\<rparr>"
  have words: "first_word (go_trim_right (\<lambda>x. x = newline) ''zz'') = ''zz''" "go_trim_right (\<lambda>x. x = newline) ''c2'' = ''c2''" by code_simp+
  have far: "wire_far ?w wire_ref = ''zz''" by (simp add: wire_far_def gm_get_def)
  have tip: "git_rev_parse wire_git ?w wire_ref = Some ''c2''" by (simp add: git_rev_parse_def wire_git_def wire_at_def gm_get_def words)
  have named: "wire_ref \<noteq> []" by (simp add: wire_ref_def)
  obtain s1 where run: "unfreeze_mirror wire_git 8 wire_worker None None wire_ref ?w new_mem_store = (Inr (''zz'', ''c2''), ?w, s1)"
    using far tip named by (simp add: unfreeze_mirror_def wire_worker_facts authorize_force_land_def wire_ls_remote Let_def words upsert_mirror_cursor_def)
  have ls: "fst (ls_remote wire_git wire_remote wire_ref ?w) \<noteq> None" by (simp add: wire_ls_remote Let_def far words)
  obtain e mw' w' s' where sync: "sync_once (\<lambda>_ v. v) wire_git 9 wire_worker ?w s1 = (e, mw', w', s')" using prod_cases4 by blast
  have quiet: "\<forall>i v. wire_far ((\<lambda>_ v. v) i v) = wire_far v" by simp
  note claim = unfreeze_sanctions_one_overwrite [OF wire_git_laws wire_worker_facts run]
  have live: "\<not> frozen_at s1 wire_ref" using claim by (elim conjE)
  have "\<forall>env later tip1 e mw' w' s'. (\<forall>i v. wire_far (env i v) = wire_far v) \<and> git_rev_parse wire_git ?w wire_ref = Some tip1
      \<and> sync_once env wire_git later wire_worker ?w s1 = (e, mw', w', s') \<longrightarrow> wire_failed wire_ref e \<or> wire_far w' wire_ref = tip1 \<and> \<not> frozen_at s' wire_ref"
    using claim by (elim conjE)
  note next_sync = this
  have "wire_failed wire_ref e \<or> wire_far w' wire_ref = ''c2'' \<and> \<not> frozen_at s' wire_ref"
    by (rule next_sync [rule_format, OF conjI [OF quiet conjI [OF tip sync]]])
  then have "wire_far w' wire_ref = ''c2''" using wire_syncs [OF live ls sync] by simp
  then show ?thesis using run sync by blast
qed

end
