(* ===== verification/Watchdog.thy ===== *)
theory Watchdog
  imports Checks StoreTypes Push
begin

text \<open>
  The CI reconciler (\<open>watchdog/watchdog.go\<close>): a sweep over the open Changes reports what a finished run of CI did not
  report, links the runs that still go on, and asks once for a rerun of a check that never showed up. The two HTTP
  clients are parameters: each call answers in a world that it may change, None or False when it fails. Texts of
  log lines are not modelled; the lines of a sweep are kept as values.
\<close>

section \<open>Clients\<close>

record open_change =
  oc_key :: string
  oc_head :: string

record gh_job =
  gj_id :: int
  gj_name :: string
  gj_status :: string
  gj_conclusion :: string
  gj_url :: string

record 'w watch_clients =
  wc_list :: "'w \<Rightarrow> open_change list option \<times> 'w"
  wc_requirements :: "string \<Rightarrow> 'w \<Rightarrow> merge_requirements option \<times> 'w"
  wc_report :: "string \<Rightarrow> (string \<times> string) list \<Rightarrow> 'w \<Rightarrow> bool \<times> 'w"
  wc_rerun :: "string \<Rightarrow> string \<Rightarrow> 'w \<Rightarrow> bool \<times> 'w"
  wc_run :: "string \<Rightarrow> 'w \<Rightarrow> (string \<times> string) option \<times> 'w"
  wc_runs :: "'w \<Rightarrow> (int \<times> string) list option \<times> 'w"
  wc_jobs :: "int \<Rightarrow> 'w \<Rightarrow> gh_job list option \<times> 'w"

text \<open>The body of a report: a conclusion only when completed.\<close>

definition report_fields :: "string \<Rightarrow> string \<Rightarrow> string \<Rightarrow> string \<Rightarrow> string \<Rightarrow> (string \<times> string) list" where
  "report_fields name external status conclusion url =
     [(''name'', name), (''external_id'', external), (''status'', status), (''details_url'', url), (''reporter'', ''ci-watchdog'')]
     @ (if status = ''completed'' then [(''conclusion'', conclusion)] else [])"

definition report_check ::
  "'w watch_clients \<Rightarrow> string \<Rightarrow> string \<Rightarrow> string \<Rightarrow> string \<Rightarrow> string \<Rightarrow> string \<Rightarrow> 'w \<Rightarrow> bool \<times> 'w" where
  "report_check cl key name external status conclusion url w = wc_report cl key (report_fields name external status conclusion url) w"

text \<open>A conclusion that Runko does not know counts as a failure.\<close>

definition shared_conclusions :: "string list" where
  "shared_conclusions = [''success'', ''failure'', ''cancelled'', ''skipped'', ''timed_out'', ''action_required'', ''neutral'']"

definition map_conclusion :: "string \<Rightarrow> string" where
  "map_conclusion gha = (if gha \<in> set shared_conclusions then gha else ''failure'')"

text \<open>One component of a path: what comes before the next slash, not empty.\<close>

definition take_component :: "string \<Rightarrow> (string \<times> string) option" where
  "take_component s =
     (let c = takeWhile (\<lambda>x. x \<noteq> slash) s in
      if c = [] \<or> length c = length s then None else Some (c, drop (length c + 1) s))"

text \<open>The pattern \<open>^https?://[^/]+/([^/]+/[^/]+)/actions/runs/(\d+)\<close>, and only the repository that is allowed.\<close>

definition parse_run_url :: "string \<Rightarrow> string \<Rightarrow> string option" where
  "parse_run_url repo url =
     (case (case go_cut_prefix url ''https://'' of Some r \<Rightarrow> Some r | None \<Rightarrow> go_cut_prefix url ''http://'') of
        None \<Rightarrow> None
      | Some rest \<Rightarrow>
          (case take_component rest of
             None \<Rightarrow> None
           | Some (_, r1) \<Rightarrow>
               (case take_component r1 of
                  None \<Rightarrow> None
                | Some (owner, r2) \<Rightarrow>
                    (case take_component r2 of
                       None \<Rightarrow> None
                     | Some (name, r3) \<Rightarrow>
                         (case go_cut_prefix r3 ''actions/runs/'' of
                            None \<Rightarrow> None
                          | Some tail \<Rightarrow>
                              (let digits = takeWhile is_digit tail in
                               if digits = [] \<or> owner @ [slash] @ name \<noteq> repo then None else Some digits))))))"

record run_job =
  rj_external :: string
  rj_status :: string
  rj_conclusion :: string
  rj_url :: string

type_synonym jobs = "(string, run_job) gomap"

definition run_job_of :: "int \<Rightarrow> gh_job \<Rightarrow> run_job" where
  "run_job_of run j =
     \<lparr>rj_external = show_int run @ ''-'' @ show_int (gj_id j), rj_status = gj_status j, rj_conclusion = gj_conclusion j, rj_url = gj_url j\<rparr>"

text \<open>The newest run stamped with the Change and its head, and its jobs by name; None is a failed call.\<close>

definition find_change_jobs :: "'w watch_clients \<Rightarrow> string \<Rightarrow> string \<Rightarrow> 'w \<Rightarrow> jobs option \<times> 'w" where
  "find_change_jobs cl key head w =
     (case wc_runs cl w of
        (None, w1) \<Rightarrow> (None, w1)
      | (Some runs, w1) \<Rightarrow>
          (let run = (case find (\<lambda>(i, title). sublist (key @ ''@'' @ head) title) runs of None \<Rightarrow> 0 | Some (i, _) \<Rightarrow> i) in
           if run = 0 then (Some gm_empty, w1)
           else case wc_jobs cl run w1 of
                  (None, w2) \<Rightarrow> (None, w2)
                | (Some js, w2) \<Rightarrow> (Some (foldl (\<lambda>m j. gm_put m (gj_name j) (run_job_of run j)) gm_empty js), w2)))"

section \<open>A sweep\<close>

record 'w watchdog =
  wd_clients :: "'w watch_clients"
  wd_repo :: string
  wd_grace :: int
  wd_rerun :: bool
  wd_first :: "(string, go_time) gomap"
  wd_rescued :: "(string, bool) gomap"

text \<open>The lines of what failed; that of a rerun keeps the Change it was asked for, the code prints its key.\<close>

datatype watch_error =
    ListFailed
  | RequirementsFailed string
  | CallFailed string string
  | DiscoveryFailed string
  | RerunFailed open_change string

record 'w sweep =
  sw_world :: 'w
  sw_first :: "(string, go_time) gomap"
  sw_rescued :: "(string, bool) gomap"
  sw_jobs :: "(string, jobs) gomap"
  sw_reported :: "(open_change \<times> string \<times> string) list"
  sw_backfilled :: "(open_change \<times> string) list"
  sw_rescues :: "(open_change \<times> string) list"
  sw_errors :: "watch_error list"

definition watch_key :: "open_change \<Rightarrow> string \<Rightarrow> string" where
  "watch_key c name = oc_key c @ ''|'' @ oc_head c @ ''|'' @ name"

definition note_error :: "watch_error \<Rightarrow> 'w \<Rightarrow> 'w sweep \<Rightarrow> 'w sweep" where
  "note_error e w st = st\<lparr>sw_world := w, sw_errors := sw_errors st @ [e]\<rparr>"

text \<open>Posting a conclusion, and what becomes of it.\<close>

definition post_conclusion ::
  "'w watchdog \<Rightarrow> open_change \<Rightarrow> string \<Rightarrow> string \<Rightarrow> string \<Rightarrow> string \<Rightarrow> 'w \<Rightarrow> 'w sweep \<Rightarrow> 'w sweep" where
  "post_conclusion wd c name external conclusion url w st =
     (let mapped = map_conclusion conclusion in
      case report_check (wd_clients wd) (oc_key c) name external ''completed'' mapped url w of
        (False, w1) \<Rightarrow> note_error (CallFailed (oc_key c) name) w1 st
      | (True, w1) \<Rightarrow> st\<lparr>sw_world := w1, sw_reported := sw_reported st @ [(c, name, mapped)]\<rparr>)"

text \<open>A check that has a link is reconciled with its run past the grace window.\<close>

definition reconcile_linked ::
  "'w watchdog \<Rightarrow> go_time \<Rightarrow> open_change \<Rightarrow> string \<Rightarrow> string \<Rightarrow> go_time \<Rightarrow> 'w sweep \<Rightarrow> 'w sweep" where
  "reconcile_linked wd now c name url first st =
     (if now - first < wd_grace wd then st
      else case parse_run_url (wd_repo wd) url of
             None \<Rightarrow> st
           | Some run \<Rightarrow>
               (case wc_run (wd_clients wd) run (sw_world st) of
                  (None, w) \<Rightarrow> note_error (CallFailed (oc_key c) name) w st
                | (Some (status, conclusion), w) \<Rightarrow>
                    if status \<noteq> ''completed'' then st\<lparr>sw_world := w\<rparr>
                    else post_conclusion wd c name run conclusion url w st))"

definition discover_jobs :: "'w watchdog \<Rightarrow> open_change \<Rightarrow> 'w sweep \<Rightarrow> jobs \<times> 'w sweep" where
  "discover_jobs wd c st =
     (if wd_repo wd = [] then (gm_empty, st)
      else case find_change_jobs (wd_clients wd) (oc_key c) (oc_head c) (sw_world st) of
             (None, w) \<Rightarrow> (gm_empty, note_error (DiscoveryFailed (oc_key c)) w st)
           | (Some jobs, w) \<Rightarrow> (jobs, st\<lparr>sw_world := w\<rparr>))"

text \<open>Discovery is asked once for each Change in a sweep.\<close>

definition jobs_for :: "'w watchdog \<Rightarrow> open_change \<Rightarrow> 'w sweep \<Rightarrow> jobs \<times> 'w sweep" where
  "jobs_for wd c st =
     (let k = oc_key c @ ''|'' @ oc_head c in
      case gm_get (sw_jobs st) k of
        Some jobs \<Rightarrow> (jobs, st)
      | None \<Rightarrow> (let (jobs, st1) = discover_jobs wd c st in (jobs, st1\<lparr>sw_jobs := gm_put (sw_jobs st1) k jobs\<rparr>)))"

definition report_job :: "'w watchdog \<Rightarrow> open_change \<Rightarrow> string \<Rightarrow> run_job \<Rightarrow> 'w sweep \<Rightarrow> 'w sweep" where
  "report_job wd c name job st =
     (if rj_status job = ''completed'' then post_conclusion wd c name (rj_external job) (rj_conclusion job) (rj_url job) (sw_world st) st
      else case report_check (wd_clients wd) (oc_key c) name (rj_external job) ''in_progress'' [] (rj_url job) (sw_world st) of
             (False, w) \<Rightarrow> note_error (CallFailed (oc_key c) name) w st
           | (True, w) \<Rightarrow> st\<lparr>sw_world := w, sw_backfilled := sw_backfilled st @ [(c, name)]\<rparr>)"

definition rescue :: "'w watchdog \<Rightarrow> go_time \<Rightarrow> open_change \<Rightarrow> string \<Rightarrow> go_time \<Rightarrow> 'w sweep \<Rightarrow> 'w sweep" where
  "rescue wd now c name first st =
     (if now - first < wd_grace wd \<or> \<not> wd_rerun wd \<or> gm_true (sw_rescued st) (watch_key c name) then st
      else case wc_rerun (wd_clients wd) (oc_key c) name (sw_world st) of
             (False, w) \<Rightarrow> note_error (RerunFailed c name) w st
           | (True, w) \<Rightarrow> st\<lparr>sw_world := w, sw_rescued := gm_put (sw_rescued st) (watch_key c name) True,
                            sw_rescues := sw_rescues st @ [(c, name)]\<rparr>)"

text \<open>What is still pending is carried over: when it was first seen, and whether it was rescued.\<close>

definition first_seen :: "'w watchdog \<Rightarrow> go_time \<Rightarrow> string \<Rightarrow> go_time" where
  "first_seen wd now key = (case gm_get (wd_first wd) key of None \<Rightarrow> now | Some t \<Rightarrow> t)"

definition carry_mark :: "'w watchdog \<Rightarrow> go_time \<Rightarrow> string \<Rightarrow> 'w sweep \<Rightarrow> 'w sweep" where
  "carry_mark wd now key st =
     st\<lparr>sw_first := gm_put (sw_first st) key (first_seen wd now key),
        sw_rescued := (if gm_true (wd_rescued wd) key then gm_put (sw_rescued st) key True else sw_rescued st)\<rparr>"

definition sweep_check ::
  "'w watchdog \<Rightarrow> go_time \<Rightarrow> open_change \<Rightarrow> merge_requirements \<Rightarrow> string \<Rightarrow> 'w sweep \<Rightarrow> 'w sweep" where
  "sweep_check wd now c reqs name st0 =
     (let key = watch_key c name; first = first_seen wd now key; st = carry_mark wd now key st0;
          url = (case gm_get (mr_details reqs) name of None \<Rightarrow> [] | Some u \<Rightarrow> u)
      in if url \<noteq> [] then reconcile_linked wd now c name url first st
         else (let (jobs, st1) = jobs_for wd c st in
               case gm_get jobs name of Some job \<Rightarrow> report_job wd c name job st1 | None \<Rightarrow> rescue wd now c name first st1))"

definition watch_change :: "'w watchdog \<Rightarrow> go_time \<Rightarrow> 'w sweep \<Rightarrow> open_change \<Rightarrow> 'w sweep" where
  "watch_change wd now st c =
     (case wc_requirements (wd_clients wd) (oc_key c) (sw_world st) of
        (None, w) \<Rightarrow> note_error (RequirementsFailed (oc_key c)) w st
      | (Some reqs, w) \<Rightarrow> foldl (\<lambda>st1 name. sweep_check wd now c reqs name st1) (st\<lparr>sw_world := w\<rparr>) (mr_pend_checks reqs))"

definition start_sweep :: "'w \<Rightarrow> 'w sweep" where
  "start_sweep w = \<lparr>sw_world = w, sw_first = gm_empty, sw_rescued = gm_empty, sw_jobs = gm_empty, sw_reported = [], sw_backfilled = [],
     sw_rescues = [], sw_errors = []\<rparr>"

text \<open>When the list cannot be had the bookkeeping stays.\<close>

definition watch_sweep :: "go_time \<Rightarrow> 'w watchdog \<Rightarrow> 'w \<Rightarrow> 'w sweep \<times> 'w watchdog" where
  "watch_sweep now wd w =
     (case wc_list (wd_clients wd) w of
        (None, w1) \<Rightarrow> (note_error ListFailed w1 (start_sweep w), wd)
      | (Some cs, w1) \<Rightarrow>
          (let st = foldl (watch_change wd now) (start_sweep w1) cs in (st, wd\<lparr>wd_first := sw_first st, wd_rescued := sw_rescued st\<rparr>)))"

text \<open>The sweeps of the daemon, one for each tick.\<close>

fun watch_sweeps :: "go_time list \<Rightarrow> 'w watchdog \<Rightarrow> 'w \<Rightarrow> 'w sweep list" where
  "watch_sweeps [] wd w = []"
| "watch_sweeps (now # nows) wd w = (let (st, wd1) = watch_sweep now wd w in st # watch_sweeps nows wd1 (sw_world st))"

section \<open>Rescues\<close>

lemma note_error_frame [simp]:
  "sw_rescued (note_error e w st) = sw_rescued st" "sw_rescues (note_error e w st) = sw_rescues st" "sw_reported (note_error e w st) = sw_reported st"
  "sw_first (note_error e w st) = sw_first st" "sw_jobs (note_error e w st) = sw_jobs st"
  by (simp_all add: note_error_def)

lemma post_conclusion_frame [simp]:
  "sw_rescued (post_conclusion wd c name x y u w st) = sw_rescued st" "sw_rescues (post_conclusion wd c name x y u w st) = sw_rescues st"
  "sw_first (post_conclusion wd c name x y u w st) = sw_first st" "sw_jobs (post_conclusion wd c name x y u w st) = sw_jobs st"
  by (simp_all add: post_conclusion_def Let_def split: prod.split bool.split)

lemma reconcile_linked_frame [simp]:
  "sw_rescued (reconcile_linked wd now c name u f st) = sw_rescued st" "sw_rescues (reconcile_linked wd now c name u f st) = sw_rescues st"
  "sw_first (reconcile_linked wd now c name u f st) = sw_first st" "sw_jobs (reconcile_linked wd now c name u f st) = sw_jobs st"
  by (simp_all add: reconcile_linked_def split: prod.split option.split)

lemma report_job_frame [simp]:
  "sw_rescued (report_job wd c name j st) = sw_rescued st" "sw_rescues (report_job wd c name j st) = sw_rescues st"
  "sw_first (report_job wd c name j st) = sw_first st" "sw_jobs (report_job wd c name j st) = sw_jobs st"
  by (simp_all add: report_job_def split: prod.split bool.split)

lemma jobs_for_frame:
  assumes "jobs_for wd c st = (jobs, st1)"
  shows "sw_rescued st1 = sw_rescued st" "sw_rescues st1 = sw_rescues st" "sw_reported st1 = sw_reported st" "sw_first st1 = sw_first st"
  using assms by (auto simp: jobs_for_def discover_jobs_def Let_def split: option.splits prod.splits if_splits)

lemma carry_mark_frame [simp]:
  "sw_rescues (carry_mark wd now key st) = sw_rescues st" "sw_reported (carry_mark wd now key st) = sw_reported st"
  "gm_true (sw_rescued (carry_mark wd now key st)) k \<longleftrightarrow> gm_true (sw_rescued st) k \<or> k = key \<and> gm_true (wd_rescued wd) key"
  by (auto simp: carry_mark_def)

text \<open>What one check does to the rescues: nothing, or one more for it, which is then marked.\<close>

lemma sweep_check_rescues:
  fixes wd :: "'w watchdog"
  defines "st' \<equiv> \<lambda>wd now c reqs name st. sweep_check wd now c reqs name st"
  shows "(sw_rescues (st' wd now c reqs name st) = sw_rescues st
        \<and> (\<forall>k. gm_true (sw_rescued (st' wd now c reqs name st)) k \<longleftrightarrow> gm_true (sw_rescued st) k \<or> k = watch_key c name \<and> gm_true (wd_rescued wd) k))
    \<or> (sw_rescues (st' wd now c reqs name st) = sw_rescues st @ [(c, name)]
        \<and> \<not> gm_true (sw_rescued st) (watch_key c name) \<and> \<not> gm_true (wd_rescued wd) (watch_key c name)
        \<and> (\<forall>k. gm_true (sw_rescued (st' wd now c reqs name st)) k \<longleftrightarrow> gm_true (sw_rescued st) k \<or> k = watch_key c name)
        \<and> wd_rerun wd \<and> wd_grace wd \<le> now - first_seen wd now (watch_key c name))"
proof -
  let ?st = "carry_mark wd now (watch_key c name) st"
  obtain jobs st1 where j: "jobs_for wd c ?st = (jobs, st1)" by fastforce
  note frame = jobs_for_frame [OF j]
  have res: "sw_rescues (rescue wd now c name f st1) = sw_rescues st1 \<and> sw_rescued (rescue wd now c name f st1) = sw_rescued st1
      \<or> \<not> gm_true (sw_rescued st1) (watch_key c name) \<and> sw_rescues (rescue wd now c name f st1) = sw_rescues st1 @ [(c, name)]
        \<and> sw_rescued (rescue wd now c name f st1) = gm_put (sw_rescued st1) (watch_key c name) True
        \<and> wd_rerun wd \<and> wd_grace wd \<le> now - f" for f
    by (auto simp: rescue_def split: prod.split bool.split)
  show ?thesis
    using res [of "first_seen wd now (watch_key c name)"] frame j
    by (auto simp: st'_def sweep_check_def Let_def split: option.split)
qed

definition rescues_of :: "open_change \<Rightarrow> string \<Rightarrow> 'w sweep \<Rightarrow> nat" where
  "rescues_of c name st = count_list (sw_rescues st) (c, name)"

text \<open>Inside a sweep a check is rescued at most once, only when it was not before, and is marked from then on.\<close>

definition rescue_inv :: "'w watchdog \<Rightarrow> open_change \<Rightarrow> string \<Rightarrow> 'w sweep \<Rightarrow> bool" where
  "rescue_inv wd c name st \<longleftrightarrow> rescues_of c name st \<le> 1
     \<and> (rescues_of c name st = 1 \<longrightarrow> gm_true (sw_rescued st) (watch_key c name) \<and> \<not> gm_true (wd_rescued wd) (watch_key c name))"

lemma sweep_check_inv:
  assumes "rescue_inv wd c0 n0 st"
  shows "rescue_inv wd c0 n0 (sweep_check wd now c reqs name st)
    \<and> (gm_true (sw_rescued st) k \<longrightarrow> gm_true (sw_rescued (sweep_check wd now c reqs name st)) k)
    \<and> (gm_true (wd_rescued wd) (watch_key c name) \<longrightarrow> gm_true (sw_rescued (sweep_check wd now c reqs name st)) (watch_key c name))"
proof -
  let ?st = "sweep_check wd now c reqs name st" and ?key = "watch_key c name"
  consider (same) "sw_rescues ?st = sw_rescues st"
      "\<forall>k. gm_true (sw_rescued ?st) k \<longleftrightarrow> gm_true (sw_rescued st) k \<or> k = ?key \<and> gm_true (wd_rescued wd) k"
    | (more) "sw_rescues ?st = sw_rescues st @ [(c, name)]" "\<not> gm_true (sw_rescued st) ?key" "\<not> gm_true (wd_rescued wd) ?key"
      "\<forall>k. gm_true (sw_rescued ?st) k \<longleftrightarrow> gm_true (sw_rescued st) k \<or> k = ?key"
    using sweep_check_rescues [of wd now c reqs name st] by blast
  then show ?thesis
  proof cases
    case same
    have "rescues_of c0 n0 ?st = rescues_of c0 n0 st" using same(1) by (simp add: rescues_of_def)
    then have "rescue_inv wd c0 n0 ?st" using assms spec [OF same(2)] unfolding rescue_inv_def by simp
    then show ?thesis using spec [OF same(2)] by simp
  next
    case more
    have "rescue_inv wd c0 n0 ?st"
    proof (cases "(c, name) = (c0, n0)")
      case True
      then have "rescues_of c0 n0 st = 0" using assms more(2) unfolding rescue_inv_def
        by (cases "rescues_of c0 n0 st") auto
      then show ?thesis using True more spec [OF more(4)] unfolding rescue_inv_def by (simp add: rescues_of_def)
    next
      case False
      then have "rescues_of c0 n0 ?st = rescues_of c0 n0 st" using more(1) by (auto simp: rescues_of_def)
      then show ?thesis using assms spec [OF more(4)] unfolding rescue_inv_def by simp
    qed
    then show ?thesis using spec [OF more(4)] by simp
  qed
qed

lemma fold_checks_inv:
  assumes "rescue_inv wd c0 n0 st"
  shows "rescue_inv wd c0 n0 (foldl (\<lambda>st1 name. sweep_check wd now c reqs name st1) st names)
    \<and> (gm_true (sw_rescued st) k \<longrightarrow> gm_true (sw_rescued (foldl (\<lambda>st1 name. sweep_check wd now c reqs name st1) st names)) k)
    \<and> (name \<in> set names \<and> gm_true (wd_rescued wd) (watch_key c name) \<longrightarrow>
         gm_true (sw_rescued (foldl (\<lambda>st1 name. sweep_check wd now c reqs name st1) st names)) (watch_key c name))"
  using assms
proof (induction names arbitrary: st k)
  case (Cons x names)
  note step = sweep_check_inv [OF Cons.prems, of now c reqs x]
  let ?st = "sweep_check wd now c reqs x st"
  have inv: "rescue_inv wd c0 n0 ?st" using step by blast
  note later = Cons.IH [OF inv]
  have "gm_true (sw_rescued (foldl (\<lambda>st1 name. sweep_check wd now c reqs name st1) ?st names)) (watch_key c name)"
    if "name = x" "gm_true (wd_rescued wd) (watch_key c name)"
    using step that later by blast
  then show ?case unfolding foldl_Cons using later step by (metis set_ConsD)
qed simp

text \<open>The requirements of a Change can be read, and name the check among the pending ones.\<close>

definition pending_reads :: "'w watch_clients \<Rightarrow> open_change \<Rightarrow> string \<Rightarrow> bool" where
  "pending_reads cl c name \<longleftrightarrow> (\<forall>w. \<exists>reqs w1. wc_requirements cl (oc_key c) w = (Some reqs, w1) \<and> name \<in> set (mr_pend_checks reqs))"

lemma pending_readsD: "pending_reads cl c name \<Longrightarrow> wc_requirements cl (oc_key c) w = (o1, w1) \<Longrightarrow> \<exists>reqs. o1 = Some reqs \<and> name \<in> set (mr_pend_checks reqs)"
  by (metis pending_reads_def prod.inject)

lemma watch_change_inv:
  assumes "rescue_inv wd c0 n0 st"
  shows "rescue_inv wd c0 n0 (watch_change wd now st c) \<and> (gm_true (sw_rescued st) k \<longrightarrow> gm_true (sw_rescued (watch_change wd now st c)) k)
    \<and> (gm_true (wd_rescued wd) (watch_key c name)
       \<and> pending_reads (wd_clients wd) c name \<longrightarrow>
         gm_true (sw_rescued (watch_change wd now st c)) (watch_key c name))"
proof -
  obtain o1 w1 where r: "wc_requirements (wd_clients wd) (oc_key c) (sw_world st) = (o1, w1)" by fastforce
  have inv: "rescue_inv wd c0 n0 (st\<lparr>sw_world := w1\<rparr>)" "rescue_inv wd c0 n0 (note_error e w1 st)" for e
    using assms by (simp_all add: rescue_inv_def rescues_of_def)
  show ?thesis
  proof (cases o1)
    case None
    then have "\<not> pending_reads (wd_clients wd) c name" using pending_readsD [OF _ r] None by fastforce
    then show ?thesis using None r inv(2) by (simp add: watch_change_def)
  next
    case (Some reqs)
    have eq: "watch_change wd now st c = foldl (\<lambda>st1 name. sweep_check wd now c reqs name st1) (st\<lparr>sw_world := w1\<rparr>) (mr_pend_checks reqs)"
      using r Some by (simp add: watch_change_def)
    have pend: "name \<in> set (mr_pend_checks reqs)" if "pending_reads (wd_clients wd) c name"
      using pending_readsD [OF that r] Some by simp
    show ?thesis
      unfolding eq using fold_checks_inv [OF inv(1), of now c reqs "mr_pend_checks reqs" k name] pend by simp
  qed
qed

lemma fold_changes_inv:
  assumes "rescue_inv wd c0 n0 st"
  shows "rescue_inv wd c0 n0 (foldl (watch_change wd now) st cs)
    \<and> (gm_true (sw_rescued st) k \<longrightarrow> gm_true (sw_rescued (foldl (watch_change wd now) st cs)) k)
    \<and> (c \<in> set cs \<and> gm_true (wd_rescued wd) (watch_key c name)
       \<and> pending_reads (wd_clients wd) c name \<longrightarrow>
         gm_true (sw_rescued (foldl (watch_change wd now) st cs)) (watch_key c name))"
  using assms
proof (induction cs arbitrary: st k)
  case (Cons x cs)
  let ?st = "watch_change wd now st x"
  have inv: "rescue_inv wd c0 n0 ?st" using watch_change_inv [OF Cons.prems] by blast
  have mono: "gm_true (sw_rescued st) k' \<longrightarrow> gm_true (sw_rescued ?st) k'" for k' using watch_change_inv [OF Cons.prems] by blast
  have here: "c = x \<and> gm_true (wd_rescued wd) (watch_key c name) \<and> pending_reads (wd_clients wd) c name \<longrightarrow> gm_true (sw_rescued ?st) (watch_key c name)"
    using watch_change_inv [OF Cons.prems] by blast
  note later = Cons.IH [OF inv]
  have keep: "gm_true (sw_rescued ?st) k' \<longrightarrow> gm_true (sw_rescued (foldl (watch_change wd now) ?st cs)) k'" for k' using later by blast
  have rest: "c \<in> set cs \<and> gm_true (wd_rescued wd) (watch_key c name) \<and> pending_reads (wd_clients wd) c name \<longrightarrow>
      gm_true (sw_rescued (foldl (watch_change wd now) ?st cs)) (watch_key c name)" using later by blast
  show ?case
    unfolding foldl_Cons
  proof (intro conjI)
    show "rescue_inv wd c0 n0 (foldl (watch_change wd now) ?st cs)" using later by blast
    show "gm_true (sw_rescued st) k \<longrightarrow> gm_true (sw_rescued (foldl (watch_change wd now) ?st cs)) k" using mono keep by blast
    show "c \<in> set (x # cs) \<and> gm_true (wd_rescued wd) (watch_key c name) \<and> pending_reads (wd_clients wd) c name \<longrightarrow>
        gm_true (sw_rescued (foldl (watch_change wd now) ?st cs)) (watch_key c name)"
      using here keep [of "watch_key c name"] rest by (metis set_ConsD)
  qed
qed simp

text \<open>A check that no sweep sees anything but pending, as far as sweeps can see.\<close>

definition stays_pending :: "'w watch_clients \<Rightarrow> open_change \<Rightarrow> string \<Rightarrow> bool" where
  "stays_pending cl c name \<longleftrightarrow>
     (\<forall>w cs w1. wc_list cl w = (Some cs, w1) \<longrightarrow> c \<in> set cs)
   \<and> pending_reads cl c name"

lemma watch_sweep_rescues:
  assumes "stays_pending (wd_clients wd) c name" "watch_sweep now wd w = (st, wd')"
  shows "wd_clients wd' = wd_clients wd
    \<and> rescues_of c name st + of_bool (gm_true (wd_rescued wd) (watch_key c name)) \<le> of_bool (gm_true (wd_rescued wd') (watch_key c name))"
proof -
  obtain o1 w1 where l: "wc_list (wd_clients wd) w = (o1, w1)" by fastforce
  show ?thesis
  proof (cases o1)
    case None
    then show ?thesis using assms(2) l by (auto simp: watch_sweep_def rescues_of_def note_error_def start_sweep_def)
  next
    case (Some cs)
    have start: "rescue_inv wd c name (start_sweep w1)" by (simp add: rescue_inv_def rescues_of_def start_sweep_def)
    have eq: "st = foldl (watch_change wd now) (start_sweep w1) cs" "wd' = wd\<lparr>wd_first := sw_first st, wd_rescued := sw_rescued st\<rparr>"
      using assms(2) l Some by (auto simp: watch_sweep_def Let_def)
    have "c \<in> set cs" using assms(1) l Some by (auto simp: stays_pending_def)
    then have "rescue_inv wd c name st" "gm_true (wd_rescued wd) (watch_key c name) \<longrightarrow> gm_true (sw_rescued st) (watch_key c name)"
      using fold_changes_inv [OF start, of now cs _ c name] assms(1) unfolding eq(1) stays_pending_def by blast+
    then show ?thesis
      using eq(2) by (cases "rescues_of c name st") (auto simp: rescue_inv_def)
  qed
qed

text \<open>The requests for a rerun that a sweep sends: those that were answered, and those that failed.\<close>

definition asks_of :: "open_change \<Rightarrow> string \<Rightarrow> 'w sweep \<Rightarrow> nat" where
  "asks_of c name st = rescues_of c name st + count_list (sw_errors st) (RerunFailed c name)"

lemma note_error_asks [simp]: "\<forall>c n. e \<noteq> RerunFailed c n \<Longrightarrow> asks_of c0 n0 (note_error e w st) = asks_of c0 n0 st"
  by (auto simp: asks_of_def rescues_of_def note_error_def)

lemma reporting_asks [simp]:
  "asks_of c0 n0 (post_conclusion wd c name x y u w st) = asks_of c0 n0 st"
  "asks_of c0 n0 (reconcile_linked wd now c name u f st) = asks_of c0 n0 st"
  "asks_of c0 n0 (report_job wd c name j st) = asks_of c0 n0 st"
  "asks_of c0 n0 (carry_mark wd now key st) = asks_of c0 n0 st"
proof -
  show post: "asks_of c0 n0 (post_conclusion wd c name x y u w st) = asks_of c0 n0 st" for x y u w
    by (simp add: post_conclusion_def Let_def split: prod.split bool.split) (simp add: asks_of_def rescues_of_def)
  show "asks_of c0 n0 (reconcile_linked wd now c name u f st) = asks_of c0 n0 st"
    by (simp add: reconcile_linked_def post split: prod.split option.split) (simp add: asks_of_def rescues_of_def)
  show "asks_of c0 n0 (report_job wd c name j st) = asks_of c0 n0 st"
    by (simp add: report_job_def post split: prod.split bool.split) (simp add: asks_of_def rescues_of_def)
  show "asks_of c0 n0 (carry_mark wd now key st) = asks_of c0 n0 st"
    by (simp add: asks_of_def rescues_of_def carry_mark_def)
qed

lemma jobs_for_asks: "jobs_for wd c st = (jobs, st1) \<Longrightarrow> asks_of c0 n0 st1 = asks_of c0 n0 st"
  by (auto simp: jobs_for_def discover_jobs_def Let_def asks_of_def rescues_of_def note_error_def split: option.splits prod.splits if_splits)

text \<open>A request is for the check at hand, which was not rescued in an earlier sweep, and past its grace window.\<close>

definition may_ask :: "'w watchdog \<Rightarrow> go_time \<Rightarrow> string \<Rightarrow> bool" where
  "may_ask wd now key \<longleftrightarrow> \<not> gm_true (wd_rescued wd) key \<and> wd_rerun wd \<and> wd_grace wd \<le> now - first_seen wd now key"

lemma rescue_asks:
  "asks_of c0 n0 (rescue wd now c name f st) = asks_of c0 n0 st
   \<or> c0 = c \<and> n0 = name \<and> \<not> gm_true (sw_rescued st) (watch_key c name) \<and> wd_rerun wd \<and> wd_grace wd \<le> now - f"
  by (auto simp: rescue_def asks_of_def rescues_of_def note_error_def split: prod.split bool.split)

lemma rescue_first [simp]: "sw_first (rescue wd now c name f st) = sw_first st"
  by (simp add: rescue_def split: prod.split bool.split)

lemma sweep_check_asks:
  "asks_of c0 n0 (sweep_check wd now c reqs name st) = asks_of c0 n0 st \<or> c0 = c \<and> n0 = name \<and> may_ask wd now (watch_key c name)"
  "sw_first (sweep_check wd now c reqs name st) = gm_put (sw_first st) (watch_key c name) (first_seen wd now (watch_key c name))"
proof -
  let ?key = "watch_key c name"
  let ?st = "carry_mark wd now ?key st" and ?f = "first_seen wd now ?key"
  obtain jobs st1 where j: "jobs_for wd c ?st = (jobs, st1)" by fastforce
  note frame = jobs_for_frame [OF j] jobs_for_asks [OF j]
  have marked: "gm_true (wd_rescued wd) ?key \<Longrightarrow> gm_true (sw_rescued st1) ?key" using frame(1) by simp
  show "asks_of c0 n0 (sweep_check wd now c reqs name st) = asks_of c0 n0 st \<or> c0 = c \<and> n0 = name \<and> may_ask wd now ?key"
    using rescue_asks [of c0 n0 wd now c name ?f st1] marked frame(5) j
    by (auto simp: sweep_check_def Let_def may_ask_def split: option.split)
  show "sw_first (sweep_check wd now c reqs name st) = gm_put (sw_first st) ?key ?f"
    using frame(4) j by (auto simp: sweep_check_def Let_def carry_mark_def split: option.split)
qed

definition ask_inv :: "'w watchdog \<Rightarrow> go_time \<Rightarrow> open_change \<Rightarrow> string \<Rightarrow> 'w sweep \<Rightarrow> bool" where
  "ask_inv wd now c name st \<longleftrightarrow> (asks_of c name st > 0 \<longrightarrow> may_ask wd now (watch_key c name))
     \<and> (\<forall>k t. gm_get (sw_first st) k = Some t \<longrightarrow> t = first_seen wd now k)"

lemma sweep_check_ask_inv: "ask_inv wd now c0 n0 st \<Longrightarrow> ask_inv wd now c0 n0 (sweep_check wd now c reqs name st)"
  using sweep_check_asks(1) [of c0 n0 wd now c reqs name st] by (auto simp: ask_inv_def sweep_check_asks(2) gm_get_put)

lemma watch_change_ask_inv:
  assumes "ask_inv wd now c0 n0 st"
  shows "ask_inv wd now c0 n0 (watch_change wd now st c)"
proof -
  have fold: "ask_inv wd now c0 n0 st1 \<Longrightarrow> ask_inv wd now c0 n0 (foldl (\<lambda>st1 name. sweep_check wd now c reqs name st1) st1 names)" for st1 reqs names
    by (induction names arbitrary: st1) (simp_all add: sweep_check_ask_inv)
  have "ask_inv wd now c0 n0 (st\<lparr>sw_world := w1\<rparr>)" "ask_inv wd now c0 n0 (note_error (RequirementsFailed k) w1 st)" for k w1
    using assms by (simp_all add: ask_inv_def) (simp add: asks_of_def rescues_of_def)
  then show ?thesis using fold by (auto simp: watch_change_def split: prod.split option.split)
qed

lemma watch_sweep_asks:
  assumes "watch_sweep now wd w = (st, wd')"
  shows "asks_of c name st > 0 \<longrightarrow> may_ask wd now (watch_key c name)"
    "gm_get (wd_first wd') k = Some t \<Longrightarrow> gm_get (wd_first wd) k = Some t \<or> t = now"
    "wd_rerun wd' = wd_rerun wd \<and> wd_grace wd' = wd_grace wd"
proof -
  have fold: "ask_inv wd now c name st1 \<Longrightarrow> ask_inv wd now c name (foldl (watch_change wd now) st1 cs)" for st1 cs
    by (induction cs arbitrary: st1) (simp_all add: watch_change_ask_inv)
  have start: "ask_inv wd now c name (start_sweep v)" "ask_inv wd now c name (note_error ListFailed w1 (start_sweep v))" for v w1
    by (simp_all add: ask_inv_def) (simp_all add: start_sweep_def asks_of_def rescues_of_def)
  have inv: "ask_inv wd now c name st" "wd' = wd \<or> wd' = wd\<lparr>wd_first := sw_first st, wd_rescued := sw_rescued st\<rparr>"
    using assms start fold [OF start(1)] by (auto simp: watch_sweep_def Let_def split: prod.splits option.splits)
  show "asks_of c name st > 0 \<longrightarrow> may_ask wd now (watch_key c name)" using inv(1) by (simp add: ask_inv_def)
  show "gm_get (wd_first wd') k = Some t \<Longrightarrow> gm_get (wd_first wd) k = Some t \<or> t = now"
  proof -
    assume get: "gm_get (wd_first wd') k = Some t"
    show "gm_get (wd_first wd) k = Some t \<or> t = now"
    proof (cases "wd' = wd")
      case False
      then have "gm_get (sw_first st) k = Some t" using inv(2) get by auto
      then have "t = first_seen wd now k" using inv(1) by (simp add: ask_inv_def)
      then show ?thesis by (cases "gm_get (wd_first wd) k") (simp_all add: first_seen_def)
    qed (use get in simp)
  qed
  show "wd_rerun wd' = wd_rerun wd \<and> wd_grace wd' = wd_grace wd" using inv(2) by auto
qed

text \<open>A request sent in a sweep: a rerun is enabled, and the grace window has passed since a sweep saw the check pending.\<close>

lemma watch_sweeps_ask_late:
  assumes "i < length nows" "asks_of c name (watch_sweeps nows wd w ! i) > 0"
  shows "wd_rerun wd \<and> (\<exists>t. (gm_get (wd_first wd) (watch_key c name) = Some t \<or> t \<in> set (take (Suc i) nows)) \<and> wd_grace wd \<le> nows ! i - t)"
  using assms
proof (induction nows arbitrary: i wd w)
  case (Cons now nows)
  obtain st wd' where run: "watch_sweep now wd w = (st, wd')" by fastforce
  note facts = watch_sweep_asks [OF run]
  show ?case
  proof (cases i)
    case 0
    then have may: "may_ask wd now (watch_key c name)" using facts(1) [of c name] Cons.prems run by simp
    show ?thesis
      using may 0 by (cases "gm_get (wd_first wd) (watch_key c name)") (auto simp: may_ask_def first_seen_def)
  next
    case (Suc k)
    then obtain t where t: "wd_rerun wd'" "gm_get (wd_first wd') (watch_key c name) = Some t \<or> t \<in> set (take (Suc k) nows)"
        "wd_grace wd' \<le> nows ! k - t"
      using Cons.IH [of k wd' "sw_world st"] Cons.prems run by auto
    then have "gm_get (wd_first wd) (watch_key c name) = Some t \<or> t = now \<or> t \<in> set (take (Suc k) nows)" using facts(2) by blast
    then show ?thesis using t facts(3) Suc by auto
  qed
qed simp

text \<open>A check that is marked as rescued stays marked while it is pending, and is not asked for.\<close>

lemma watch_sweeps_marked:
  assumes "stays_pending (wd_clients wd) c name" "gm_true (wd_rescued wd) (watch_key c name)" "st \<in> set (watch_sweeps nows wd w)"
  shows "asks_of c name st = 0"
  using assms
proof (induction nows arbitrary: wd w)
  case (Cons now nows)
  obtain st1 wd' where run: "watch_sweep now wd w = (st1, wd')" by fastforce
  note one = watch_sweep_rescues [OF Cons.prems(1) run]
  then have "stays_pending (wd_clients wd') c name" "gm_true (wd_rescued wd') (watch_key c name)"
    using Cons.prems(1,2) by (simp, cases "gm_true (wd_rescued wd') (watch_key c name)") auto
  then show ?case
    using Cons.IH [of wd' "sw_world st1"] Cons.prems(2,3) run watch_sweep_asks(1) [OF run, of c name] by (auto simp: may_ask_def)
qed simp

lemma watch_sweeps_after:
  assumes "stays_pending (wd_clients wd) c name" "i < j" "j < length nows" "rescues_of c name (watch_sweeps nows wd w ! i) > 0"
  shows "asks_of c name (watch_sweeps nows wd w ! j) = 0"
  using assms
proof (induction nows arbitrary: i j wd w)
  case (Cons now nows)
  obtain st wd' where run: "watch_sweep now wd w = (st, wd')" by fastforce
  obtain k where j: "j = Suc k" using Cons.prems(2) by (cases j) auto
  note one = watch_sweep_rescues [OF Cons.prems(1) run]
  then have pend: "stays_pending (wd_clients wd') c name" using Cons.prems(1) by simp
  have len: "length (watch_sweeps ns wd w) = length ns" for ns wd and w :: 'a
    by (induction ns arbitrary: wd w) (simp_all add: split_beta)
  show ?case
  proof (cases i)
    case 0
    then have "gm_true (wd_rescued wd') (watch_key c name)"
      using one Cons.prems(4) run by (cases "gm_true (wd_rescued wd') (watch_key c name)") auto
    moreover have "watch_sweeps nows wd' (sw_world st) ! k \<in> set (watch_sweeps nows wd' (sw_world st))"
      using Cons.prems(3) j by (simp add: len)
    ultimately show ?thesis using watch_sweeps_marked [OF pend] run j by simp
  next
    case (Suc l)
    then show ?thesis using Cons.IH [OF pend, of l k] Cons.prems run j by simp
  qed
qed simp

lemma watch_sweeps_rescues:
  assumes "stays_pending (wd_clients wd) c name"
  shows "sum_list (map (rescues_of c name) (watch_sweeps nows wd w)) + of_bool (gm_true (wd_rescued wd) (watch_key c name)) \<le> 1"
  using assms
proof (induction nows arbitrary: wd w)
  case (Cons now nows)
  obtain st wd' where run: "watch_sweep now wd w = (st, wd')" by fastforce
  note one = watch_sweep_rescues [OF Cons.prems run]
  then have "stays_pending (wd_clients wd') c name" using Cons.prems by simp
  note later = Cons.IH [OF this, of "sw_world st"]
  show ?case using one later run by (simp add: add.assoc)
qed simp

text \<open>C13. The watchdog rescues a check once. Over any number of sweeps of which each one that gets the list of open Changes
  can read the requirements of the check's Change and finds the check pending: at most one request for a rerun is
  answered, none when one was before; after the sweep with the answered request none is sent any more; and every request
  sent, answered or failed, comes with reruns enabled and past the grace window since a sweep (or the bookkeeping at
  the start) saw the check. A request that fails, even one whose answer is lost, is sent again by later sweeps, and a
  requirements read that fails forgets the rescue (\<open>failed_read_forgets\<close>).\<close>
theorem watchdog_rescues_once:
  assumes "stays_pending (wd_clients wd) c name"
  shows "sum_list (map (rescues_of c name) (watch_sweeps nows wd w)) + of_bool (gm_true (wd_rescued wd) (watch_key c name)) \<le> 1
    \<and> (gm_true (wd_rescued wd) (watch_key c name) \<longrightarrow> (\<forall>st \<in> set (watch_sweeps nows wd w). asks_of c name st = 0))
    \<and> (\<forall>i j. i < j \<and> j < length nows \<and> rescues_of c name (watch_sweeps nows wd w ! i) > 0 \<longrightarrow>
         asks_of c name (watch_sweeps nows wd w ! j) = 0)
    \<and> (\<forall>i < length nows. asks_of c name (watch_sweeps nows wd w ! i) > 0 \<longrightarrow>
         wd_rerun wd \<and> (\<exists>t. (gm_get (wd_first wd) (watch_key c name) = Some t \<or> t \<in> set (take (Suc i) nows)) \<and> wd_grace wd \<le> nows ! i - t))"
  by (intro conjI allI impI ballI; (elim conjE)?)
    (rule watch_sweeps_rescues [OF assms], erule (1) watch_sweeps_marked [OF assms], erule (2) watch_sweeps_after [OF assms],
     erule (1) watch_sweeps_ask_late [THEN conjunct1], erule (1) watch_sweeps_ask_late [THEN conjunct2])

section \<open>Reports\<close>

text \<open>What a conclusion is founded on: the finished run that the link of the check names, or the finished job of the name in
  the newest run stamped with the Change and its head.\<close>

definition run_says :: "'w watchdog \<Rightarrow> string \<Rightarrow> bool" where
  "run_says wd m \<longleftrightarrow> (\<exists>url run conclusion w w1. parse_run_url (wd_repo wd) url = Some run
     \<and> wc_run (wd_clients wd) run w = (Some (''completed'', conclusion), w1) \<and> m = map_conclusion conclusion)"

definition cache_key :: "open_change \<Rightarrow> string" where
  "cache_key c = oc_key c @ ''|'' @ oc_head c"

definition job_says :: "'w watchdog \<Rightarrow> open_change \<Rightarrow> string \<Rightarrow> string \<Rightarrow> bool" where
  "job_says wd c name m \<longleftrightarrow> (\<exists>c1 w jobs w1 j. cache_key c1 = cache_key c
     \<and> find_change_jobs (wd_clients wd) (oc_key c1) (oc_head c1) w = (Some jobs, w1)
     \<and> gm_get jobs name = Some j \<and> rj_status j = ''completed'' \<and> m = map_conclusion (rj_conclusion j))"

definition jobs_found :: "'w watchdog \<Rightarrow> string \<Rightarrow> jobs \<Rightarrow> bool" where
  "jobs_found wd k jobs \<longleftrightarrow> jobs = gm_empty
     \<or> (\<exists>c w w1. cache_key c = k \<and> find_change_jobs (wd_clients wd) (oc_key c) (oc_head c) w = (Some jobs, w1))"

definition report_inv :: "'w watchdog \<Rightarrow> 'w sweep \<Rightarrow> bool" where
  "report_inv wd st \<longleftrightarrow> (\<forall>(c, name, m)\<in>set (sw_reported st). run_says wd m \<or> job_says wd c name m)
     \<and> (\<forall>k jobs. gm_get (sw_jobs st) k = Some jobs \<longrightarrow> jobs_found wd k jobs)"

lemma report_inv_cong: "sw_reported st' = sw_reported st \<Longrightarrow> sw_jobs st' = sw_jobs st \<Longrightarrow> report_inv wd st' \<longleftrightarrow> report_inv wd st"
  by (simp add: report_inv_def)

lemma post_conclusion_inv:
  assumes "report_inv wd st" "run_says wd (map_conclusion x) \<or> job_says wd c name (map_conclusion x)"
  shows "report_inv wd (post_conclusion wd c name e x u w st)"
  using assms by (auto simp: post_conclusion_def Let_def note_error_def report_inv_def split: prod.split bool.split)

lemma reconcile_linked_inv:
  assumes "report_inv wd st"
  shows "report_inv wd (reconcile_linked wd now c name u f st)"
proof (cases "now - f < wd_grace wd \<or> parse_run_url (wd_repo wd) u = None")
  case True
  then show ?thesis using assms by (auto simp: reconcile_linked_def)
next
  case False
  then obtain run where run: "parse_run_url (wd_repo wd) u = Some run" by blast
  obtain o1 w where get: "wc_run (wd_clients wd) run (sw_world st) = (o1, w)" by fastforce
  show ?thesis
  proof (cases "\<exists>x. o1 = Some (''completed'', x)")
    case True
    then obtain x where x: "o1 = Some (''completed'', x)" by blast
    then have "run_says wd (map_conclusion x)" using run get unfolding run_says_def by blast
    then show ?thesis using post_conclusion_inv [OF assms] False run get x by (simp add: reconcile_linked_def)
  next
    case other: False
    then show ?thesis
      using assms False run get
      by (cases o1) (auto simp: reconcile_linked_def note_error_def report_inv_def split: prod.split)
  qed
qed

lemma jobs_for_inv:
  assumes "report_inv wd st" "jobs_for wd c st = (jobs, st1)"
  shows "report_inv wd st1 \<and> jobs_found wd (cache_key c) jobs"
proof (cases "gm_get (sw_jobs st) (cache_key c)")
  case (Some js)
  then have "jobs = js" "st1 = st" using assms(2) by (simp_all add: jobs_for_def cache_key_def Let_def)
  then show ?thesis using assms(1) Some by (simp add: report_inv_def)
next
  case None
  obtain js st2 where d: "discover_jobs wd c st = (js, st2)" by fastforce
  then have eq: "jobs = js" "st1 = st2\<lparr>sw_jobs := gm_put (sw_jobs st2) (cache_key c) js\<rparr>"
    using assms(2) None by (auto simp: jobs_for_def cache_key_def Let_def)
  have "jobs_found wd (cache_key c) js" "sw_reported st2 = sw_reported st" "sw_jobs st2 = sw_jobs st"
    using d by (auto simp: discover_jobs_def jobs_found_def split: if_splits option.splits prod.splits)
  then show ?thesis using assms(1) eq by (auto simp: report_inv_def)
qed

lemma sweep_check_reports:
  assumes "report_inv wd st"
  shows "report_inv wd (sweep_check wd now c reqs name st)"
proof -
  let ?st = "carry_mark wd now (watch_key c name) st"
  have start: "report_inv wd ?st" using assms by (simp add: report_inv_def carry_mark_def)
  obtain jobs st1 where j: "jobs_for wd c ?st = (jobs, st1)" by fastforce
  note found = jobs_for_inv [OF start j]
  have "report_inv wd (report_job wd c name job st1)" if "gm_get jobs name = Some job" for job
  proof (cases "rj_status job = ''completed''")
    case True
    then have "job_says wd c name (map_conclusion (rj_conclusion job))"
      using found that unfolding jobs_found_def job_says_def by fastforce
    then show ?thesis using True post_conclusion_inv [of wd st1 "rj_conclusion job" c name] found by (simp add: report_job_def)
  next
    case False
    then show ?thesis using found by (auto simp: report_job_def note_error_def report_inv_def split: prod.split bool.split)
  qed
  moreover have "report_inv wd (rescue wd now c name f st1)" for f
    using found by (auto simp: rescue_def note_error_def report_inv_def split: prod.split bool.split)
  ultimately show ?thesis
    using reconcile_linked_inv [OF start] j by (simp add: sweep_check_def Let_def split: option.split)
qed

lemma watch_change_reports:
  assumes "report_inv wd st"
  shows "report_inv wd (watch_change wd now st c)"
proof -
  have fold: "report_inv wd st1 \<Longrightarrow> report_inv wd (foldl (\<lambda>st1 name. sweep_check wd now c reqs name st1) st1 names)" for st1 reqs names
    by (induction names arbitrary: st1) (simp_all add: sweep_check_reports)
  have "report_inv wd (st\<lparr>sw_world := w1\<rparr>)" "report_inv wd (note_error e w1 st)" for e w1
    using assms by (simp_all add: report_inv_def note_error_def)
  then show ?thesis using fold by (auto simp: watch_change_def split: prod.split option.split)
qed

text \<open>C14. The watchdog states facts: each conclusion it reports in a sweep is that of a run of the one allowed repository, or of the
  job with the name of the check in the newest run stamped with the Change and its head, which CI says is completed,
  and a conclusion Runko does not know is reported as a failure; so it never reports success where CI did not say
  success.\<close>
theorem watchdog_reports_facts:
  assumes "(c, name, m) \<in> set (sw_reported (fst (watch_sweep now wd w)))"
  shows "(run_says wd m \<or> job_says wd c name m) \<and> m \<in> set shared_conclusions
    \<and> (m = ''success'' \<longrightarrow>
         (\<exists>run v v1. wc_run (wd_clients wd) run v = (Some (''completed'', ''success''), v1))
       \<or> (\<exists>c1 v jobs v1 j. cache_key c1 = cache_key c \<and> find_change_jobs (wd_clients wd) (oc_key c1) (oc_head c1) v = (Some jobs, v1)
            \<and> gm_get jobs name = Some j \<and> rj_status j = ''completed'' \<and> rj_conclusion j = ''success''))"
proof -
  have fold: "report_inv wd st \<Longrightarrow> report_inv wd (foldl (watch_change wd now) st cs)" for st cs
    by (induction cs arbitrary: st) (simp_all add: watch_change_reports)
  have start: "report_inv wd (start_sweep v)" for v by (simp add: report_inv_def start_sweep_def)
  obtain o1 w1 where l: "wc_list (wd_clients wd) w = (o1, w1)" by fastforce
  have "report_inv wd (fst (watch_sweep now wd w))"
  proof (cases o1)
    case None
    then show ?thesis using start l by (simp add: watch_sweep_def report_inv_def)
  next
    case (Some cs)
    then show ?thesis using fold [OF start] l by (simp add: watch_sweep_def Let_def)
  qed
  then have says: "run_says wd m \<or> job_says wd c name m" using assms by (fastforce simp: report_inv_def)
  have known: "map_conclusion x \<in> set shared_conclusions" "map_conclusion x = ''success'' \<longleftrightarrow> x = ''success''" for x
    by (simp_all add: map_conclusion_def shared_conclusions_def)
  show ?thesis
  proof (intro conjI impI says)
    show "m \<in> set shared_conclusions" using says known(1) by (auto simp: run_says_def job_says_def)
    assume "m = ''success''"
    then show "(\<exists>run v v1. wc_run (wd_clients wd) run v = (Some (''completed'', ''success''), v1))
       \<or> (\<exists>c1 v jobs v1 j. cache_key c1 = cache_key c \<and> find_change_jobs (wd_clients wd) (oc_key c1) (oc_head c1) v = (Some jobs, v1)
            \<and> gm_get jobs name = Some j \<and> rj_status j = ''completed'' \<and> rj_conclusion j = ''success'')"
      using says known(2) unfolding run_says_def job_says_def by metis
  qed
qed

text \<open>A read of the requirements that fails drops the marks of its Change: the rescue is forgotten, and the same check is
  asked for again once the grace window has passed anew.\<close>

lemma failed_read_forgets:
  assumes "wc_list (wd_clients wd) w = (Some [c], w1)" "wc_requirements (wd_clients wd) (oc_key c) w1 = (None, w2)"
  shows "wd_rescued (snd (watch_sweep now wd w)) = gm_empty \<and> wd_first (snd (watch_sweep now wd w)) = gm_empty"
  using assms by (simp add: watch_sweep_def Let_def watch_change_def start_sweep_def)

section \<open>A small CI\<close>

definition demo_watched :: open_change where "demo_watched = \<lparr>oc_key = ''I1'', oc_head = ''h1''\<rparr>"

definition demo_needs :: "(string, string) gomap \<Rightarrow> merge_requirements" where
  "demo_needs details = \<lparr>mr_change = ''I1'', mr_req_owners = [], mr_sat_owners = [], mr_out_owners = [], mr_req_checks = [''lint''],
     mr_pass_checks = [], mr_fail_checks = [], mr_pend_checks = [''lint''], mr_details = details, mr_mergeable = False, mr_blockers = [],
     mr_attention = [], mr_auto_approved = False\<rparr>"

definition demo_clients :: "(string, string) gomap \<Rightarrow> nat watch_clients" where
  "demo_clients details = \<lparr>wc_list = (\<lambda>w. (Some [demo_watched], w)), wc_requirements = (\<lambda>_ w. (Some (demo_needs details), w)),
     wc_report = (\<lambda>_ _ w. (True, w)), wc_rerun = (\<lambda>_ _ w. (True, Suc w)), wc_run = (\<lambda>_ w. (Some (''completed'', ''success''), w)),
     wc_runs = (\<lambda>w. (Some [], w)), wc_jobs = (\<lambda>_ w. (None, w))\<rparr>"

definition demo_watchdog :: "(string, string) gomap \<Rightarrow> nat watchdog" where
  "demo_watchdog details = \<lparr>wd_clients = demo_clients details, wd_repo = ''acme/mono'', wd_grace = 5, wd_rerun = True,
     wd_first = gm_empty, wd_rescued = gm_empty\<rparr>"

text \<open>A daemon that takes every request for a rerun, but whose first answer is lost.\<close>

definition demo_lossy :: "nat watchdog" where
  "demo_lossy = (demo_watchdog gm_empty)\<lparr>wd_clients := (demo_clients gm_empty)\<lparr>wc_rerun := (\<lambda>_ _ w. (w > 0, Suc w))\<rparr>\<rparr>"

lemma lost_answer_asks_again:
  "map (asks_of demo_watched ''lint'') (watch_sweeps [0, 10, 20, 30] demo_lossy 0) = [0, 1, 1, 0]
   \<and> map sw_world (watch_sweeps [0, 10, 20, 30] demo_lossy 0) = [0, 1, 2, 2]"
  by code_simp

theorem watchdog_rescues_once_witness:
  "map (rescues_of demo_watched ''lint'') (watch_sweeps [0, 10, 20, 30] demo_lossy 0) = [0, 0, 1, 0]
   \<and> asks_of demo_watched ''lint'' (watch_sweeps [0, 10, 20, 30] demo_lossy 0 ! 3) = 0
   \<and> sum_list (map (rescues_of demo_watched ''lint'') (watch_sweeps [0, 10, 20, 30] demo_lossy 0)) \<le> 1"
proof -
  let ?ss = "watch_sweeps [0, 10, 20, 30] demo_lossy 0"
  have pend: "stays_pending (wd_clients demo_lossy) demo_watched ''lint''"
    by (simp add: stays_pending_def pending_reads_def demo_lossy_def demo_watchdog_def demo_clients_def demo_needs_def)
  have run: "map (rescues_of demo_watched ''lint'') ?ss = [0, 0, 1, 0]" by code_simp
  note all = watchdog_rescues_once [OF pend, of "[0, 10, 20, 30]" 0]
  have "rescues_of demo_watched ''lint'' (?ss ! 2) > 0" by code_simp
  then have "asks_of demo_watched ''lint'' (?ss ! 3) = 0"
    using all by (elim conjE) (drule spec [of _ 2], drule spec [of _ 3], simp)
  then show ?thesis using run all by simp
qed

definition demo_link :: "(string, string) gomap" where
  "demo_link = [(''lint'', ''https://github.com/acme/mono/actions/runs/42'')]"

theorem watchdog_reports_facts_witness:
  "sw_reported (fst (watch_sweep 9 ((demo_watchdog demo_link)\<lparr>wd_first := [(watch_key demo_watched ''lint'', 1)]\<rparr>) 0)) = [(demo_watched, ''lint'', ''success'')]
   \<and> run_says (demo_watchdog demo_link) ''success''"
proof -
  let ?wd = "(demo_watchdog demo_link)\<lparr>wd_first := [(watch_key demo_watched ''lint'', 1)]\<rparr>"
  have run: "sw_reported (fst (watch_sweep 9 ?wd 0)) = [(demo_watched, ''lint'', ''success'')]" by code_simp
  then have "run_says ?wd ''success'' \<or> job_says ?wd demo_watched ''lint'' ''success''"
    using watchdog_reports_facts [of demo_watched "''lint''" "''success''" 9 ?wd 0] by simp
  moreover have "\<not> job_says ?wd demo_watched ''lint'' ''success''"
    by (auto simp: job_says_def find_change_jobs_def demo_watchdog_def demo_clients_def Let_def gm_empty_def gm_get_def)
  ultimately show ?thesis using run by (simp add: run_says_def)
qed

end
