(* ===== verification/Scaffold.thy ===== *)
theory Scaffold
  imports Index
begin

text \<open>
  From an intent to the files of a project and back (\<open>platform/project\<close>): the validation of an intent, the built-in
  templates, the plan of a creation, and the plan of a deletion with the surgery on the manifests of other projects.
  Rendering a manifest as YAML is a parameter; texts of errors are not modelled.
\<close>

section \<open>Data\<close>

record intent =
  it_name :: string
  it_type :: string
  it_language :: string
  it_template :: string
  it_path :: string
  it_owners :: "string list"
  it_capabilities :: "string list option"
  it_no_template :: bool
  it_engine :: string
  it_api :: string

datatype file_action = CreateFile

record file_write =
  fw_path :: string
  fw_action :: file_action
  fw_content :: string

definition create_file :: "string \<Rightarrow> string \<Rightarrow> file_write" where
  "create_file path content = \<lparr>fw_path = path, fw_action = CreateFile, fw_content = content\<rparr>"

lemma create_file_path [simp]: "fw_path (create_file p c) = p"
  by (simp add: create_file_def)

record intent_error =
  er_code :: string
  er_field :: string

definition bad :: "string \<Rightarrow> string \<Rightarrow> intent_error" where
  "bad code field = \<lparr>er_code = code, er_field = field\<rparr>"

record project_manifest = manifest +
  pm_schema :: string
  pm_language :: string

record project_plan =
  pp_path :: string
  pp_manifest :: project_manifest
  pp_files :: "file_write list"

record template =
  tp_id :: string
  tp_type :: string
  tp_language :: string
  tp_capabilities :: "string list"
  tp_files :: "intent \<Rightarrow> file_write list"

record template_set =
  tt_by_id :: "(string, template) gomap"
  tt_by_type_lang :: "(string \<times> string, string) gomap"
  tt_aliases :: "(string, string) gomap"

section \<open>Templates\<close>

definition template_get :: "template_set \<Rightarrow> string \<Rightarrow> template option" where
  "template_get ts i = gm_get (tt_by_id ts) (case gm_get (tt_aliases ts) i of None \<Rightarrow> i | Some target \<Rightarrow> target)"

definition default_for :: "template_set \<Rightarrow> string \<Rightarrow> string \<Rightarrow> template option" where
  "default_for ts ty lang = (case gm_get (tt_by_type_lang ts) (ty, lang) of None \<Rightarrow> None | Some i \<Rightarrow> template_get ts i)"

definition has_language :: "template_set \<Rightarrow> string \<Rightarrow> bool" where
  "has_language ts lang \<longleftrightarrow> list_ex (\<lambda>k. snd k = lang) (gm_keys (tt_by_type_lang ts))"

definition template_languages :: "template_set \<Rightarrow> string list" where
  "template_languages ts = sort (remdups (map snd (gm_keys (tt_by_type_lang ts))))"

definition default_language :: string where "default_language = ''go''"

definition go_package_name :: "string \<Rightarrow> string" where
  "go_package_name n = go_replace_char CHR ''-'' ''_'' n"

definition java_package_name :: "string \<Rightarrow> string" where
  "java_package_name n = go_replace_char CHR ''-'' [] n"

definition to_upper_char :: "char \<Rightarrow> char" where
  "to_upper_char c = (if CHR ''a'' \<le> c \<and> c \<le> CHR ''z'' then char_of (of_char c - (32::nat)) else c)"

definition java_class_name :: "string \<Rightarrow> string" where
  "java_class_name n = concat (map (\<lambda>seg. case seg of [] \<Rightarrow> [] | c # cs \<Rightarrow> to_upper_char c # cs) (go_split CHR ''-'' n))"

definition cpp_guard :: "string \<Rightarrow> string" where
  "cpp_guard n = map to_upper_char (go_replace_char CHR ''-'' ''_'' n) @ ''_H_''"

definition text_lines :: "string list \<Rightarrow> string" where
  "text_lines ls = concat (map (\<lambda>l. l @ [newline]) ls)"

definition readme_file :: "intent \<Rightarrow> file_write" where
  "readme_file i = create_file ''README.md''
     (text_lines [''# '' @ it_name i, [], ''A '' @ it_type i @ '' scaffolded by `runko project create`.''])"

record lang_def =
  ld_id :: string
  ld_entry :: "intent \<Rightarrow> file_write"
  ld_lib :: "intent \<Rightarrow> file_write"

definition lang_go :: lang_def where
  "lang_go = \<lparr>ld_id = ''go'',
     ld_entry = (\<lambda>_. create_file ''main.go'' (text_lines [''package main'', [], ''func main() {}''])),
     ld_lib = (\<lambda>i. create_file ''lib.go'' (text_lines [''package '' @ go_package_name (it_name i)]))\<rparr>"

definition lang_python :: lang_def where
  "lang_python = \<lparr>ld_id = ''python'',
     ld_entry = (\<lambda>_. create_file ''main.py''
       (text_lines [''def main():'', ''    pass'', [], [], ''if __name__ == \"__main__\":'', ''    main()''])),
     ld_lib = (\<lambda>i. create_file (go_package_name (it_name i) @ ''.py'')
       (text_lines [''\"\"\"Package '' @ go_package_name (it_name i) @ ''.\"\"\"'']))\<rparr>"

definition lang_ts :: lang_def where
  "lang_ts = \<lparr>ld_id = ''ts'',
     ld_entry = (\<lambda>_. create_file ''main.ts'' (text_lines [''function main() {}'', [], ''main();''])),
     ld_lib = (\<lambda>_. create_file ''index.ts'' (text_lines [''export {};'']))\<rparr>"

definition lang_rust :: lang_def where
  "lang_rust = \<lparr>ld_id = ''rust'',
     ld_entry = (\<lambda>_. create_file ''src/main.rs'' (text_lines [''fn main() {}''])),
     ld_lib = (\<lambda>i. create_file ''src/lib.rs'' (text_lines [''//! '' @ it_name i @ ''.'']))\<rparr>"

definition lang_java :: lang_def where
  "lang_java = \<lparr>ld_id = ''java'',
     ld_entry = (\<lambda>i. create_file ''Main.java'' (text_lines [''package '' @ java_package_name (it_name i) @ '';'', [],
       ''public class Main {'', ''    public static void main(String[] args) {}'', ''}''])),
     ld_lib = (\<lambda>i. create_file (java_class_name (it_name i) @ ''.java'')
       (text_lines [''package '' @ java_package_name (it_name i) @ '';'', [], ''public class '' @ java_class_name (it_name i) @ '' {}'']))\<rparr>"

definition lang_cpp :: lang_def where
  "lang_cpp = \<lparr>ld_id = ''cpp'',
     ld_entry = (\<lambda>_. create_file ''main.cc'' (text_lines [''int main() { return 0; }''])),
     ld_lib = (\<lambda>i. create_file (go_package_name (it_name i) @ ''.h'')
       (let guard = cpp_guard (it_name i) in
        text_lines [''#ifndef '' @ guard, ''#define '' @ guard, [], ''#endif  // '' @ guard]))\<rparr>"

definition builtin_langs :: "lang_def list" where
  "builtin_langs = [lang_go, lang_python, lang_ts, lang_rust, lang_java, lang_cpp]"

definition project_types :: "string list" where
  "project_types = [''library'', ''service'', ''app'', ''job'', ''other'']"

definition template_files :: "lang_def \<Rightarrow> string \<Rightarrow> intent \<Rightarrow> file_write list" where
  "template_files lang pt i =
     (if pt = ''other'' then [readme_file i]
      else if pt = ''library'' then [readme_file i, ld_lib lang i]
      else [readme_file i, ld_entry lang i])"

definition template_of :: "lang_def \<Rightarrow> string \<Rightarrow> template" where
  "template_of lang pt =
     \<lparr>tp_id = pt @ ''-'' @ ld_id lang, tp_type = pt, tp_language = ld_id lang, tp_capabilities = [''build''],
      tp_files = template_files lang pt\<rparr>"

definition builtin_templates :: "template list" where
  "builtin_templates = concat (map (\<lambda>lang. map (template_of lang) project_types) builtin_langs)"

definition default_templates :: template_set where
  "default_templates =
     \<lparr>tt_by_id = foldl (\<lambda>m t. gm_put m (tp_id t) t) gm_empty builtin_templates,
      tt_by_type_lang = foldl (\<lambda>m t. gm_put m (tp_type t, tp_language t) (tp_id t)) gm_empty builtin_templates,
      tt_aliases = foldl (\<lambda>m pt. gm_put m (pt @ ''-default'') (pt @ ''-'' @ default_language)) gm_empty project_types\<rparr>"

section \<open>Validating an intent\<close>

definition lower_char :: "char \<Rightarrow> bool" where "lower_char c \<longleftrightarrow> CHR ''a'' \<le> c \<and> c \<le> CHR ''z''"
definition digit_char :: "char \<Rightarrow> bool" where "digit_char c \<longleftrightarrow> CHR ''0'' \<le> c \<and> c \<le> CHR ''9''"

definition project_name_ok :: "string \<Rightarrow> bool" where
  "project_name_ok n \<longleftrightarrow> 2 \<le> length n \<and> length n \<le> 63 \<and> lower_char (hd n)
     \<and> list_all (\<lambda>c. lower_char c \<or> digit_char c \<or> c = CHR ''-'') (tl n)"

definition owner_id_ok :: "string \<Rightarrow> bool" where
  "owner_id_ok s \<longleftrightarrow> s \<noteq> [] \<and> (lower_char (hd s) \<or> digit_char (hd s))
     \<and> list_all (\<lambda>c. lower_char c \<or> digit_char c \<or> c \<in> {CHR ''.'', CHR ''_'', CHR ''-''}) (tl s)"

definition owner_ok :: "string \<Rightarrow> bool" where
  "owner_ok s =
     (case go_cut_prefix s ''user:'' of
        Some r \<Rightarrow> owner_id_ok r
      | None \<Rightarrow> (case go_cut_prefix s ''group:'' of Some r \<Rightarrow> owner_id_ok r | None \<Rightarrow> False))"

definition language_ok :: "string \<Rightarrow> bool" where
  "language_ok s \<longleftrightarrow> s \<noteq> [] \<and> length s \<le> 32 \<and> lower_char (hd s)
     \<and> list_all (\<lambda>c. lower_char c \<or> digit_char c \<or> c \<in> {CHR ''+'', CHR ''_'', CHR ''-''}) (tl s)"

definition valid_capabilities :: "string list" where
  "valid_capabilities = [''rpc'', ''http'', ''deploy'', ''data_store'', ''build'', ''release'']"

definition engine_bazel :: string where "engine_bazel = ''bazel''"
definition engine_vite :: string where "engine_vite = ''vite''"
definition engine_none :: string where "engine_none = ''none''"

definition cap_list :: "intent \<Rightarrow> string list" where
  "cap_list i = (case it_capabilities i of None \<Rightarrow> [] | Some cs \<Rightarrow> cs)"

definition when_err :: "bool \<Rightarrow> intent_error \<Rightarrow> intent_error list" where
  "when_err b e = (if b then [e] else [])"

definition name_errors :: "intent \<Rightarrow> intent_error list" where
  "name_errors i = (if it_name i = [] then [bad ''required_field'' ''name'']
                    else when_err (\<not> project_name_ok (it_name i)) (bad ''invalid_format'' ''name''))"

definition language_errors :: "template_set \<Rightarrow> intent \<Rightarrow> intent_error list" where
  "language_errors ts i =
     (if it_language i = [] then []
      else if \<not> language_ok (it_language i) then [bad ''invalid_format'' ''language'']
      else when_err (\<not> it_no_template i \<and> \<not> has_language ts (it_language i)) (bad ''unsupported_language'' ''language''))"

definition engine_errors :: "intent \<Rightarrow> intent_error list" where
  "engine_errors i =
     when_err (it_engine i \<notin> {[], engine_bazel, engine_vite, engine_none}) (bad ''unsupported_build_engine'' ''build_engine'')
     @ when_err (it_engine i \<in> {engine_vite, engine_none} \<and> ''build'' \<in> set (cap_list i)) (bad ''invalid_combination'' ''build_engine'')"

definition api_errors :: "intent \<Rightarrow> intent_error list" where
  "api_errors i =
     when_err (it_api i \<notin> {[], ''grpc'', ''rest'', ''none''}) (bad ''unsupported_api'' ''api'')
     @ when_err (it_type i = ''service'' \<and> it_api i = []) (bad ''api_required'' ''api'')
     @ when_err (it_api i \<in> {''grpc'', ''rest''} \<and> it_type i \<noteq> ''service'' \<and> it_type i \<noteq> ''app'') (bad ''invalid_combination'' ''api'')"

definition template_errors :: "template_set \<Rightarrow> intent \<Rightarrow> intent_error list" where
  "template_errors ts i =
     (if it_template i = [] then []
      else case template_get ts (it_template i) of
             None \<Rightarrow> [bad ''not_found'' ''template_id'']
           | Some t \<Rightarrow> when_err (it_language i \<noteq> [] \<and> tp_language t \<noteq> [] \<and> tp_language t \<noteq> it_language i)
                         (bad ''invalid_combination'' ''template_id''))"

definition validate :: "template_set \<Rightarrow> intent \<Rightarrow> intent_error list" where
  "validate ts i =
     name_errors i
     @ when_err (it_type i \<notin> set project_types) (bad ''invalid_enum'' ''type'')
     @ map (\<lambda>_. bad ''invalid_format'' ''owners'') (filter (\<lambda>o1. \<not> owner_ok o1) (it_owners i))
     @ map (\<lambda>_. bad ''invalid_enum'' ''capabilities'') (filter (\<lambda>c. c \<notin> set valid_capabilities) (cap_list i))
     @ language_errors ts i
     @ when_err (it_no_template i \<and> it_template i \<noteq> []) (bad ''invalid_combination'' ''template_id'')
     @ engine_errors i @ api_errors i @ template_errors ts i"

section \<open>Build wiring and contract stubs\<close>

definition default_build_engine :: "string \<Rightarrow> bool \<Rightarrow> string" where
  "default_build_engine lang no_template = (if lang = ''ts'' \<and> \<not> no_template then engine_vite else engine_bazel)"

definition build_config :: "string \<Rightarrow> yaml_value" where
  "build_config path = YMap [(''engine'', YStr ''bazel''), (''target_patterns'', YSeq [YStr (''//'' @ path @ ''/...'')])]"

definition build_files :: "string \<Rightarrow> file_write list" where
  "build_files path = [create_file ''BUILD.bazel'' (text_lines
     [''# Generated by \"runko project create\" (build capability).'',
      ''# Target pattern for this project: //'' @ path @ ''/...'', ''#'',
      ''# Org-specific language rules (go_library, py_library, ...) layer on top via'',
      ''# org templates - this file is deliberately minimal so create_project never'',
      ''# requires hand-authored BUILD content.'', [], ''filegroup('', ''    name = \"srcs\",'',
      ''    srcs = glob([\"**/*\"], exclude = [\"BUILD.bazel\"]),'', ''    visibility = [\"//visibility:public\"],'', '')''])]"

text \<open>A name of a project has no character that quoting would change.\<close>

definition vite_files :: "string \<Rightarrow> file_write list" where
  "vite_files name =
     [create_file ''package.json'' (text_lines
        [''{'', ''  \"name\": \"'' @ name @ ''\",'', ''  \"private\": true,'', ''  \"type\": \"module\",'', ''  \"scripts\": {'',
         ''    \"dev\": \"vite\",'', ''    \"build\": \"vite build\",'', ''    \"preview\": \"vite preview\"'', ''  },'',
         ''  \"devDependencies\": {'', ''    \"vite\": \"^8\"'', ''  }'', ''}'']),
      create_file ''vite.config.ts'' (text_lines
        [''// Generated by \"runko project create\" (build_engine: vite).'',
         ''// Vite is a territory scaffold, not a build-graph engine - this project'',
         ''// rides the declared affected floor; there is no capability_config.build'',
         ''// binding to keep in sync.'', ''export default {};''])]"

definition grpc_files :: "string \<Rightarrow> string \<Rightarrow> file_write list" where
  "grpc_files project path =
     (let name = go_package_name project in
      [create_file (''proto/'' @ name @ ''/v1/'' @ name @ ''.proto'') (text_lines
         [''// '' @ project @ '''s contract surface: sources live in-boundary,'',
          ''// generated Go is committed at proto/gen/ beside them. Regenerate after'',
          ''// any edit: buf generate (see ../../buf.gen.yaml). Consumers of this'',
          ''// contract must declare a dependency on '' @ project @ ''.'', ''syntax = \"proto3\";'', [],
          ''package '' @ name @ ''.v1;'', [], ''// TODO: replace <module> with this monorepo's Go module path.'',
          ''option go_package = \"<module>/'' @ path @ ''/proto/gen/'' @ name @ ''/v1;'' @ name @ ''v1\";'']),
       create_file ''proto/buf.gen.yaml'' (text_lines
         [''# Generated Go is committed at gen/ beside the sources.'',
          ''# Regenerate after a .proto edit, with the plugins on PATH:'',
          ''#   go install google.golang.org/protobuf/cmd/protoc-gen-go'',
          ''#   go install connectrpc.com/connect/cmd/protoc-gen-connect-go'',
          ''#   (cd '' @ path @ ''/proto && buf generate)'', ''version: v2'', ''inputs:'', ''  - directory: .'', ''plugins:'',
          ''  - local: protoc-gen-go'', ''    out: gen'', ''    opt: paths=source_relative'',
          ''  - local: protoc-gen-connect-go'', ''    out: gen'', ''    opt: paths=source_relative''])])"

definition rest_files :: "string \<Rightarrow> file_write list" where
  "rest_files project = [create_file ''openapi.yaml'' (text_lines
     [''# '' @ project @ '''s REST contract: mandatory while the http'',
      ''# capability is declared - receive refuses a push that deletes it.'',
      ''# Consumers generate clients from THIS file and declare a dependency'', ''# edge on '' @ project @ ''.'',
      ''openapi: 3.1.0'', ''info:'', ''  title: '' @ project, ''  version: 0.1.0'', ''paths: {}''])]"

definition api_files :: "intent \<Rightarrow> string \<Rightarrow> file_write list" where
  "api_files i path =
     (if it_api i = ''grpc'' then grpc_files (it_name i) path else if it_api i = ''rest'' then rest_files (it_name i) else [])"

section \<open>The plan of a creation\<close>

definition bare_template :: template where
  "bare_template = \<lparr>tp_id = [], tp_type = [], tp_language = [], tp_capabilities = [''build''], tp_files = (\<lambda>i. [readme_file i])\<rparr>"

definition pick_template :: "template_set \<Rightarrow> intent \<Rightarrow> template option" where
  "pick_template ts i =
     (if it_no_template i then Some bare_template
      else if it_template i \<noteq> [] then template_get ts (it_template i)
      else default_for ts (it_type i) (if it_language i = [] then default_language else it_language i))"

definition plan_path :: "intent \<Rightarrow> string" where
  "plan_path i = (if it_path i = [] then it_name i else it_path i)"

text \<open>The engine: what the intent says; a capability asked for forces the one engine with a binding; else the language's.\<close>

definition plan_engine :: "template \<Rightarrow> intent \<Rightarrow> string" where
  "plan_engine t i =
     (if it_engine i \<noteq> [] then it_engine i
      else if it_capabilities i \<noteq> None \<and> ''build'' \<in> set (cap_list i) then engine_bazel
      else default_build_engine (tp_language t) (it_no_template i))"

definition add_capability :: "string \<Rightarrow> string list \<Rightarrow> string list" where
  "add_capability c cs = (if c \<in> set cs then cs else cs @ [c])"

definition built_capabilities :: "template \<Rightarrow> intent \<Rightarrow> string list" where
  "built_capabilities t i =
     (let cs = (case it_capabilities i of None \<Rightarrow> tp_capabilities t | Some cs \<Rightarrow> cs) in
      if plan_engine t i = engine_bazel
      then (if it_engine i = engine_bazel then add_capability ''build'' cs else cs)
      else filter (\<lambda>c. c \<noteq> ''build'') cs)"

definition plan_capabilities :: "template \<Rightarrow> intent \<Rightarrow> string list" where
  "plan_capabilities t i =
     (let cs = built_capabilities t i in
      if it_api i = ''grpc'' then add_capability ''rpc'' cs
      else if it_api i = ''rest'' then add_capability ''http'' cs else cs)"

definition plan_config :: "template \<Rightarrow> intent \<Rightarrow> (string \<times> yaml_value) list" where
  "plan_config t i =
     (let c = (if ''build'' \<in> set (built_capabilities t i) then [(''build'', build_config (plan_path i))] else []) in
      if it_api i = ''grpc'' then gm_put c ''rpc'' (YMap [(''path'', YStr ''proto'')])
      else if it_api i = ''rest'' then gm_put c ''http'' (YMap [(''openapi'', YStr ''openapi.yaml'')]) else c)"

definition planned_manifest :: "template \<Rightarrow> intent \<Rightarrow> project_manifest" where
  "planned_manifest t i =
     \<lparr>mf_name = it_name i, mf_type = it_type i, mf_owners = it_owners i, mf_capabilities = plan_capabilities t i,
      mf_config = plan_config t i, mf_deps = [], mf_test_deps = [], mf_consumes = [], mf_root_inval = [], mf_prose = [],
      mf_visibility = [], mf_auto_approve = None, mf_ci = None, mf_deploy_registry = [], mf_gitops = None,
      pm_schema = ''project/v1'', pm_language = it_language i\<rparr>"

definition plan_files :: "template \<Rightarrow> intent \<Rightarrow> string \<Rightarrow> file_write list" where
  "plan_files t i yaml =
     create_file ''PROJECT.yaml'' yaml # tp_files t i
     @ (if ''build'' \<in> set (plan_capabilities t i) then build_files (plan_path i) else [])
     @ (if plan_engine t i = engine_vite then vite_files (it_name i) else [])
     @ api_files i (plan_path i)"

definition plan_create :: "(project_manifest \<Rightarrow> string option) \<Rightarrow> template_set \<Rightarrow> intent \<Rightarrow> intent_error list + project_plan" where
  "plan_create marshal ts i =
     (let errs = validate ts i in
      if errs \<noteq> [] then Inl errs
      else case pick_template ts i of
             None \<Rightarrow> Inl [bad ''no_default_template'' ''type'']
           | Some t \<Rightarrow>
               (case marshal (planned_manifest t i) of
                  None \<Rightarrow> Inl [bad ''internal'' []]
                | Some yaml \<Rightarrow> Inr \<lparr>pp_path = plan_path i, pp_manifest = planned_manifest t i, pp_files = plan_files t i yaml\<rparr>))"

section \<open>What a plan holds\<close>

lemma gm_fold_values:
  assumes "gm_get (foldl (\<lambda>m t. gm_put m (f t) (g t)) m0 ts) k = Some v"
  shows "gm_get m0 k = Some v \<or> (\<exists>t\<in>set ts. g t = v)"
  using assms by (induction ts arbitrary: m0) (fastforce split: if_splits)+

lemma default_template_known:
  assumes "template_get default_templates k = Some t"
  shows "t \<in> set builtin_templates"
proof -
  obtain k' where "gm_get (foldl (\<lambda>m t. gm_put m (tp_id t) t) gm_empty builtin_templates) k' = Some t"
    using assms by (auto simp: template_get_def default_templates_def)
  from gm_fold_values [OF this] show ?thesis by simp
qed

lemma picked_template:
  assumes "pick_template default_templates i = Some t"
  shows "t = bare_template \<or> (\<exists>lang\<in>set builtin_langs. \<exists>pt\<in>set project_types. t = template_of lang pt)"
proof -
  have "t = bare_template \<or> t \<in> set builtin_templates"
    using assms default_template_known by (auto simp: pick_template_def default_for_def split: if_splits option.splits)
  then show ?thesis by (auto simp: builtin_templates_def)
qed

text \<open>The source files of the templates.\<close>

definition source_path :: "string \<Rightarrow> bool" where
  "source_path x \<longleftrightarrow> x \<in> set [''main.go'', ''lib.go'', ''main.py'', ''main.ts'', ''index.ts'', ''src/main.rs'', ''src/lib.rs'', ''Main.java'', ''main.cc'']
     \<or> x \<noteq> [] \<and> last x \<in> {CHR ''y'', CHR ''a'', CHR ''h''}"

lemma lang_paths:
  assumes "lang \<in> set builtin_langs"
  shows "source_path (fw_path (ld_entry lang i)) \<and> source_path (fw_path (ld_lib lang i))"
proof -
  have "source_path ''main.go''" "source_path ''lib.go''" "source_path ''main.py''" "source_path ''main.ts''" "source_path ''index.ts''"
    "source_path ''src/main.rs''" "source_path ''src/lib.rs''" "source_path ''Main.java''" "source_path ''main.cc''"
    by (simp_all add: source_path_def)
  moreover have "source_path (u @ ''.py'')" "source_path (u @ ''.java'')" "source_path (u @ ''.h'')" for u by (simp_all add: source_path_def)
  moreover have "lang = lang_go \<or> lang = lang_python \<or> lang = lang_ts \<or> lang = lang_rust \<or> lang = lang_java \<or> lang = lang_cpp"
    using assms by (simp add: builtin_langs_def)
  ultimately show ?thesis
    by (elim disjE)
      (simp_all only: lang_go_def lang_python_def lang_ts_def lang_rust_def lang_java_def lang_cpp_def lang_def.simps create_file_path simp_thms)
qed

lemma template_paths:
  assumes "pick_template default_templates i = Some t"
  shows "map fw_path (tp_files t i) = [''README.md''] \<or> (\<exists>x. map fw_path (tp_files t i) = [''README.md'', x] \<and> source_path x)"
proof -
  have readme: "fw_path (readme_file i) = ''README.md''" by (simp add: readme_file_def create_file_def)
  from picked_template [OF assms] show ?thesis
  proof (elim disjE bexE)
    assume "t = bare_template"
    then show ?thesis using readme by (simp add: bare_template_def)
  next
    fix lang pt
    assume "lang \<in> set builtin_langs" "t = template_of lang pt"
    then show ?thesis using readme lang_paths [of lang i] by (simp add: template_of_def template_files_def)
  qed
qed

lemma build_capability_iff:
  "''build'' \<in> set (plan_capabilities t i) \<longleftrightarrow> ''build'' \<in> set (built_capabilities t i)"
  by (auto simp: plan_capabilities_def add_capability_def Let_def)

lemma built_needs_bazel: "''build'' \<in> set (built_capabilities t i) \<Longrightarrow> plan_engine t i = engine_bazel"
  by (auto simp: built_capabilities_def Let_def split: if_splits)

lemma config_build:
  "gm_get (plan_config t i) ''build'' = (if ''build'' \<in> set (built_capabilities t i) then Some (build_config (plan_path i)) else None)"
proof -
  have one: "gm_get [(a, b)] k = (if k = a then Some b else None)" "gm_get [] k = None" for a k :: string and b :: yaml_value
    by (simp_all add: gm_get_def)
  show ?thesis by (auto simp: plan_config_def Let_def one)
qed

lemma plan_create_parts:
  assumes "plan_create marshal ts i = Inr plan"
  obtains t yaml where "validate ts i = []" "pick_template ts i = Some t" "marshal (planned_manifest t i) = Some yaml"
    "plan = \<lparr>pp_path = plan_path i, pp_manifest = planned_manifest t i, pp_files = plan_files t i yaml\<rparr>"
  using assms by (auto simp: plan_create_def Let_def split: if_splits option.splits)

lemma when_err_nil [simp]: "when_err b e = [] \<longleftrightarrow> \<not> b"
  by (simp add: when_err_def)

text \<open>What a valid intent satisfies.\<close>

lemma valid_intent:
  assumes "validate ts i = []"
  shows "project_name_ok (it_name i)" "it_type i \<in> set project_types" "\<forall>o1\<in>set (it_owners i). owner_ok o1"
    "set (cap_list i) \<subseteq> set valid_capabilities" "it_engine i \<in> {[], engine_bazel, engine_vite, engine_none}"
    "it_engine i \<in> {engine_vite, engine_none} \<Longrightarrow> ''build'' \<notin> set (cap_list i)" "it_api i \<in> {[], ''grpc'', ''rest'', ''none''}"
    "it_type i = ''service'' \<Longrightarrow> it_api i \<noteq> []" "it_api i \<in> {''grpc'', ''rest''} \<Longrightarrow> it_type i \<in> {''service'', ''app''}"
proof -
  note empty = assms [unfolded validate_def append_is_Nil_conv when_err_nil]
  then show "project_name_ok (it_name i)" by (auto simp: name_errors_def split: if_splits)
  show "it_type i \<in> set project_types" using empty by blast
  show "\<forall>o1\<in>set (it_owners i). owner_ok o1" using empty by (auto simp: filter_empty_conv)
  show "set (cap_list i) \<subseteq> set valid_capabilities" using empty by (auto simp: filter_empty_conv)
  show "it_engine i \<in> {[], engine_bazel, engine_vite, engine_none}" using empty by (auto simp: engine_errors_def)
  show "it_engine i \<in> {engine_vite, engine_none} \<Longrightarrow> ''build'' \<notin> set (cap_list i)" using empty by (auto simp: engine_errors_def)
  show "it_api i \<in> {[], ''grpc'', ''rest'', ''none''}" using empty by (auto simp: api_errors_def)
  show "it_type i = ''service'' \<Longrightarrow> it_api i \<noteq> []" using empty by (auto simp: api_errors_def)
  show "it_api i \<in> {''grpc'', ''rest''} \<Longrightarrow> it_type i \<in> {''service'', ''app''}" using empty by (auto simp: api_errors_def)
qed

lemma distinct_layout:
  assumes d: "distinct [a1, a2, a3, a4, a5, a6, a7]" and p: "p \<notin> {a1, a2, a3, a4, a5, a6}" "p \<noteq> a7" and b: "b \<in> {[], [a3]}" and v: "v \<in> {[], [a4, a5]}"
    and a: "a \<in> {[], [p, a6], [a7]}" and tpl: "tpl = [a2] \<or> (\<exists>x. tpl = [a2, x] \<and> x \<noteq> p \<and> x \<notin> {a1, a2, a3, a4, a5, a6, a7})"
  shows "distinct (a1 # tpl @ b @ v @ a)"
proof -
  obtain x where t: "distinct tpl" "set tpl \<subseteq> {a2, x}" "x \<noteq> p" "x \<notin> {a1, a3, a4, a5, a6, a7}"
  proof (cases "tpl = [a2]")
    case True
    then show thesis using d p by (intro that [of a2]) auto
  next
    case False
    then obtain x where "tpl = [a2, x]" "x \<noteq> p" "x \<notin> {a1, a2, a3, a4, a5, a6, a7}" using tpl by auto
    then show thesis by (intro that [of x]) auto
  qed
  have b': "distinct b" "set b \<subseteq> {a3}" using b by auto
  have v': "distinct v" "set v \<subseteq> {a4, a5}" using v d by auto
  have a': "distinct a" "set a \<subseteq> {p, a6, a7}" using a p by auto
  have "set b \<inter> set v = {}" "set b \<inter> set a = {}" "set v \<inter> set a = {}" "a1 \<notin> set b \<union> set v \<union> set a"
    using b'(2) v'(2) a'(2) d p by auto
  moreover have "set tpl \<inter> set b = {}" "set tpl \<inter> set v = {}" "set tpl \<inter> set a = {}" "a1 \<notin> set tpl"
    using t b'(2) v'(2) a'(2) d p by auto
  ultimately show ?thesis using t(1) b'(1) v'(1) a'(1) by (simp add: Int_Un_distrib)
qed

lemma plan_paths_distinct:
  assumes "pick_template default_templates i = Some t"
  shows "distinct (map fw_path (plan_files t i yaml))"
proof -
  have build: "map fw_path (build_files p) = [''BUILD.bazel'']" for p by (simp add: build_files_def create_file_def)
  have vite: "map fw_path (vite_files n) = [''package.json'', ''vite.config.ts'']" for n by (simp add: vite_files_def create_file_def)
  have api: "map fw_path (api_files i p) \<in> {[], [''proto/'' @ go_package_name (it_name i) @ ''/v1/'' @ go_package_name (it_name i) @ ''.proto'', ''proto/buf.gen.yaml''], [''openapi.yaml'']}" for p
    by (simp add: api_files_def grpc_files_def rest_files_def create_file_def Let_def)
  have differ: "x \<notin> {''PROJECT.yaml'', ''README.md'', ''BUILD.bazel'', ''package.json'', ''vite.config.ts'', ''proto/buf.gen.yaml'', ''openapi.yaml''}"
      "x \<noteq> ''proto/'' @ u @ ''.proto''" if "source_path x" for x u
    using that by (auto simp: source_path_def)
  have proto: "''proto/'' @ u @ ''.proto'' \<notin> {''PROJECT.yaml'', ''README.md'', ''BUILD.bazel'', ''package.json'', ''vite.config.ts'', ''proto/buf.gen.yaml''}" for u
  proof -
    have "last (''proto/'' @ u @ ''.proto'') = CHR ''o''" by simp
    then show ?thesis by auto
  qed
  define p where "p = ''proto/'' @ (go_package_name (it_name i) @ ''/v1/'' @ go_package_name (it_name i)) @ ''.proto''"
  have p: "p \<notin> {''PROJECT.yaml'', ''README.md'', ''BUILD.bazel'', ''package.json'', ''vite.config.ts'', ''proto/buf.gen.yaml''}"
    unfolding p_def by (rule proto)
  have xp: "x \<noteq> p" if "source_path x" for x unfolding p_def using differ(2) [OF that] .
  have api': "map fw_path (api_files i (plan_path i)) \<in> {[], [p, ''proto/buf.gen.yaml''], [''openapi.yaml'']}"
    using api [of "plan_path i"] by (simp add: p_def)
  have lists: "distinct (''PROJECT.yaml'' # tpl @ b @ v @ a)"
    if tpl: "tpl = [''README.md''] \<or> (\<exists>x. tpl = [''README.md'', x] \<and> source_path x)" and "b \<in> {[], [''BUILD.bazel'']}"
      "v \<in> {[], [''package.json'', ''vite.config.ts'']}" "a \<in> {[], [p, ''proto/buf.gen.yaml''], [''openapi.yaml'']}" for tpl b v a
  proof (rule distinct_layout [OF _ p _ that(2,3,4)])
    show "distinct [''PROJECT.yaml'', ''README.md'', ''BUILD.bazel'', ''package.json'', ''vite.config.ts'', ''proto/buf.gen.yaml'', ''openapi.yaml'']"
      by code_simp
    show "p \<noteq> ''openapi.yaml''" unfolding p_def by simp
    show "tpl = [''README.md''] \<or> (\<exists>x. tpl = [''README.md'', x] \<and> x \<noteq> p
        \<and> x \<notin> {''PROJECT.yaml'', ''README.md'', ''BUILD.bazel'', ''package.json'', ''vite.config.ts'', ''proto/buf.gen.yaml'', ''openapi.yaml''})"
      using tpl
    proof (elim disjE exE conjE)
      fix x
      assume "tpl = [''README.md'', x]" "source_path x"
      then show ?thesis by (intro disjI2 exI [of _ x] conjI xp differ(1))
    qed (rule disjI1)
  qed
  have "map fw_path (plan_files t i yaml) =
      ''PROJECT.yaml'' # map fw_path (tp_files t i) @ (if ''build'' \<in> set (plan_capabilities t i) then [''BUILD.bazel''] else [])
      @ (if plan_engine t i = engine_vite then [''package.json'', ''vite.config.ts''] else []) @ map fw_path (api_files i (plan_path i))"
    by (simp add: plan_files_def create_file_def build vite)
  moreover have "distinct (''PROJECT.yaml'' # map fw_path (tp_files t i) @ (if ''build'' \<in> set (plan_capabilities t i) then [''BUILD.bazel''] else [])
      @ (if plan_engine t i = engine_vite then [''package.json'', ''vite.config.ts''] else []) @ map fw_path (api_files i (plan_path i)))"
    by (rule lists [OF template_paths [OF assms] _ _ api']) (simp_all only: if_cancel insert_iff simp_thms split: if_split)
  ultimately show ?thesis by (simp only:)
qed

lemma plan_file_paths:
  "map fw_path (plan_files t i yaml) =
     ''PROJECT.yaml'' # map fw_path (tp_files t i) @ (if ''build'' \<in> set (plan_capabilities t i) then [''BUILD.bazel''] else [])
     @ (if plan_engine t i = engine_vite then [''package.json'', ''vite.config.ts''] else []) @ map fw_path (api_files i (plan_path i))"
  by (simp add: plan_files_def create_file_def build_files_def vite_files_def)

lemma api_paths:
  "map fw_path (api_files i p) =
     (if it_api i = ''grpc'' then [''proto/'' @ go_package_name (it_name i) @ ''/v1/'' @ go_package_name (it_name i) @ ''.proto'', ''proto/buf.gen.yaml'']
      else if it_api i = ''rest'' then [''openapi.yaml''] else [])"
  by (simp add: api_files_def grpc_files_def rest_files_def create_file_def Let_def)

lemma source_path_other:
  "source_path x \<Longrightarrow> x \<noteq> ''BUILD.bazel'' \<and> x \<noteq> ''package.json''"
  by (auto simp: source_path_def)

lemma proto_path_other: "''proto/'' @ u @ ''.proto'' \<noteq> ''BUILD.bazel''" "''proto/'' @ u @ ''.proto'' \<noteq> ''package.json''"
  by simp_all

lemma build_file_iff:
  assumes "pick_template default_templates i = Some t"
  shows "''BUILD.bazel'' \<in> fw_path ` set (plan_files t i yaml) \<longleftrightarrow> ''build'' \<in> set (plan_capabilities t i)"
    "''package.json'' \<in> fw_path ` set (plan_files t i yaml) \<longleftrightarrow> plan_engine t i = engine_vite"
proof -
  have tpl: "''BUILD.bazel'' \<notin> set (map fw_path (tp_files t i))" "''package.json'' \<notin> set (map fw_path (tp_files t i))"
    using template_paths [OF assms] source_path_other [of "''BUILD.bazel''"] source_path_other [of "''package.json''"]
    by (elim disjE exE conjE, simp, force, simp, force)
  have api: "''BUILD.bazel'' \<notin> set (map fw_path (api_files i (plan_path i)))" "''package.json'' \<notin> set (map fw_path (api_files i (plan_path i)))"
    unfolding api_paths using proto_path_other by (auto split: if_splits)
  have paths: "fw_path ` set (plan_files t i yaml) = set (map fw_path (plan_files t i yaml))" by simp
  show "''BUILD.bazel'' \<in> fw_path ` set (plan_files t i yaml) \<longleftrightarrow> ''build'' \<in> set (plan_capabilities t i)"
    unfolding paths plan_file_paths using tpl(1) api(1) by simp
  show "''package.json'' \<in> fw_path ` set (plan_files t i yaml) \<longleftrightarrow> plan_engine t i = engine_vite"
    unfolding paths plan_file_paths using tpl(2) api(2) by simp
qed

lemma asked_capabilities_kept:
  assumes "validate ts i = []"
  shows "set (cap_list i) \<subseteq> set (plan_capabilities t i)"
proof -
  have "set (cap_list i) \<subseteq> set (built_capabilities t i)"
  proof (cases "it_capabilities i")
    case (Some cs)
    have "''build'' \<notin> set cs" if "plan_engine t i \<noteq> engine_bazel"
      using valid_intent(5,6) [OF assms] that Some by (auto simp: plan_engine_def cap_list_def split: if_splits)
    then show ?thesis using Some by (auto simp: built_capabilities_def cap_list_def add_capability_def)
  qed (simp add: cap_list_def)
  then show ?thesis by (auto simp: plan_capabilities_def add_capability_def Let_def)
qed

lemma engine_respected:
  assumes "validate ts i = []"
  shows "it_engine i = engine_bazel \<Longrightarrow> ''build'' \<in> set (plan_capabilities t i)"
    "it_engine i \<in> {engine_vite, engine_none} \<Longrightarrow> ''build'' \<notin> set (plan_capabilities t i) \<and> plan_engine t i = it_engine i"
proof -
  show "''build'' \<in> set (plan_capabilities t i)" if "it_engine i = engine_bazel"
    unfolding build_capability_iff using that by (simp add: built_capabilities_def plan_engine_def add_capability_def Let_def engine_bazel_def)
  show "''build'' \<notin> set (plan_capabilities t i) \<and> plan_engine t i = it_engine i" if "it_engine i \<in> {engine_vite, engine_none}"
    unfolding build_capability_iff using that
    by (auto simp: built_capabilities_def plan_engine_def engine_bazel_def engine_vite_def engine_none_def)
qed

lemma api_wired:
  "it_api i = ''grpc'' \<Longrightarrow> ''rpc'' \<in> set (plan_capabilities t i) \<and> gm_get (plan_config t i) ''rpc'' = Some (YMap [(''path'', YStr ''proto'')])"
  "it_api i = ''rest'' \<Longrightarrow> ''http'' \<in> set (plan_capabilities t i) \<and> gm_get (plan_config t i) ''http'' = Some (YMap [(''openapi'', YStr ''openapi.yaml'')])
     \<and> ''openapi.yaml'' \<in> fw_path ` set (plan_files t i yaml)"
proof -
  show "''rpc'' \<in> set (plan_capabilities t i) \<and> gm_get (plan_config t i) ''rpc'' = Some (YMap [(''path'', YStr ''proto'')])" if "it_api i = ''grpc''"
    using that by (simp add: plan_capabilities_def plan_config_def add_capability_def Let_def)
  have "''openapi.yaml'' \<in> set (map fw_path (plan_files t i yaml))" if "it_api i = ''rest''"
    unfolding plan_file_paths api_paths using that by simp
  then show "''http'' \<in> set (plan_capabilities t i) \<and> gm_get (plan_config t i) ''http'' = Some (YMap [(''openapi'', YStr ''openapi.yaml'')])
     \<and> ''openapi.yaml'' \<in> fw_path ` set (plan_files t i yaml)" if "it_api i = ''rest''"
    using that by (simp add: plan_capabilities_def plan_config_def add_capability_def Let_def)
qed

text \<open>C20. The plan of a new project is consistent. From a valid intent only: its name and type are those asked for and legal, owners
  and language are echoed, and a service has decided on its contract. The build capability, the \<open>BUILD.bazel\<close> file and
  the binding of the target pattern come together or not at all, never beside the scaffold of another engine; an engine
  that was asked for is the one used; no capability that was asked for is lost; a contract comes with its capability and
  its binding; and no two files of the plan collide.\<close>

theorem plan_consistent:
  assumes "plan_create marshal default_templates i = Inr plan"
  shows "let m = pp_manifest plan; caps = set (mf_capabilities m); paths = fw_path ` set (pp_files plan) in
      (project_name_ok (mf_name m) \<and> mf_name m = it_name i \<and> mf_type m = it_type i \<and> it_type i \<in> set project_types \<and> mf_owners m = it_owners i \<and> pm_language m = it_language i
        \<and> (it_type i = ''service'' \<longrightarrow> it_api i \<noteq> []))
    \<and> (''build'' \<in> caps \<longleftrightarrow> ''BUILD.bazel'' \<in> paths)
    \<and> gm_get (mf_config m) ''build'' = (if ''build'' \<in> caps then Some (build_config (pp_path plan)) else None)
    \<and> \<not> (''build'' \<in> caps \<and> ''package.json'' \<in> paths)
    \<and> (it_engine i = ''bazel'' \<longrightarrow> ''build'' \<in> caps) \<and> (it_engine i = ''vite'' \<longrightarrow> ''package.json'' \<in> paths) \<and> (it_engine i = ''none'' \<longrightarrow> ''package.json'' \<notin> paths \<and> ''build'' \<notin> caps)
    \<and> set (cap_list i) \<subseteq> caps
    \<and> (it_api i = ''grpc'' \<longrightarrow> ''rpc'' \<in> caps \<and> gm_get (mf_config m) ''rpc'' = Some (YMap [(''path'', YStr ''proto'')]))
    \<and> (it_api i = ''rest'' \<longrightarrow> ''http'' \<in> caps \<and> gm_get (mf_config m) ''http'' = Some (YMap [(''openapi'', YStr ''openapi.yaml'')]) \<and> ''openapi.yaml'' \<in> paths)
    \<and> distinct (map fw_path (pp_files plan))"
proof -
  obtain t yaml where v: "validate default_templates i = []" and t: "pick_template default_templates i = Some t"
    and plan: "plan = \<lparr>pp_path = plan_path i, pp_manifest = planned_manifest t i, pp_files = plan_files t i yaml\<rparr>"
    using plan_create_parts [OF assms] .
  have parts: "pp_path plan = plan_path i" "pp_files plan = plan_files t i yaml" "mf_capabilities (pp_manifest plan) = plan_capabilities t i"
    "mf_config (pp_manifest plan) = plan_config t i" "mf_name (pp_manifest plan) = it_name i" "mf_type (pp_manifest plan) = it_type i"
    "mf_owners (pp_manifest plan) = it_owners i" "pm_language (pp_manifest plan) = it_language i"
    by (simp_all add: plan planned_manifest_def)
  have vite: "\<not> (''build'' \<in> set (plan_capabilities t i) \<and> plan_engine t i = engine_vite)"
    using built_needs_bazel [of t i] by (auto simp: build_capability_iff engine_bazel_def engine_vite_def)
  have engine: "it_engine i = ''vite'' \<Longrightarrow> plan_engine t i = engine_vite" "it_engine i = ''none'' \<Longrightarrow> plan_engine t i \<noteq> engine_vite \<and> ''build'' \<notin> set (plan_capabilities t i)"
    "it_engine i = ''bazel'' \<Longrightarrow> ''build'' \<in> set (plan_capabilities t i)"
    using engine_respected [OF v, of t] by (simp_all add: engine_vite_def engine_none_def engine_bazel_def)
  have config: "gm_get (plan_config t i) ''build'' = (if ''build'' \<in> set (plan_capabilities t i) then Some (build_config (plan_path i)) else None)"
    using config_build [of t i] by (simp only: build_capability_iff)
  show ?thesis
    unfolding Let_def parts build_file_iff [OF t]
    by (intro conjI impI refl valid_intent(1) [OF v] valid_intent(2) [OF v] valid_intent(8) [OF v] config vite engine(1,3)
        engine(2) [THEN conjunct1] engine(2) [THEN conjunct2] asked_capabilities_kept [OF v] plan_paths_distinct [OF t]
        api_wired(1) [THEN conjunct1] api_wired(1) [THEN conjunct2] api_wired(2) [THEN conjunct1] api_wired(2) [THEN conjunct2, THEN conjunct1]
        api_wired(2) [THEN conjunct2, THEN conjunct2])
qed

section \<open>A small app\<close>

definition demo_intent :: intent where
  "demo_intent = \<lparr>it_name = ''web'', it_type = ''app'', it_language = ''ts'', it_template = [], it_path = [], it_owners = [''group:ui''],
     it_capabilities = None, it_no_template = False, it_engine = [], it_api = ''grpc''\<rparr>"

lemma demo_intent_valid: "validate default_templates demo_intent = []"
  unfolding demo_intent_def by code_simp

lemma demo_intent_template: "pick_template default_templates demo_intent \<noteq> None"
  unfolding demo_intent_def by code_simp

lemma plan_consistent_witness:
  "\<exists>plan. plan_create (\<lambda>_. Some ''yaml'') default_templates demo_intent = Inr plan \<and> ''rpc'' \<in> set (mf_capabilities (pp_manifest plan))
     \<and> distinct (map fw_path (pp_files plan)) \<and> mf_name (pp_manifest plan) = ''web''"
proof -
  obtain t where "pick_template default_templates demo_intent = Some t" using demo_intent_template by blast
  then obtain plan where plan: "plan_create (\<lambda>_. Some ''yaml'') default_templates demo_intent = Inr plan"
    by (simp add: plan_create_def demo_intent_valid)
  have facts: "it_api demo_intent = ''grpc''" "it_name demo_intent = ''web''" by (simp_all add: demo_intent_def)
  show ?thesis
    using plan plan_consistent [OF plan] unfolding Let_def facts by (intro exI [of _ plan] conjI) blast+
qed

end
