(* ===== verification/DeletePlan.thy ===== *)
theory DeletePlan
  imports Index
begin

text \<open>
  The plan of a deletion (\<open>platform/project/delete.go\<close>): every file of the project goes, and its name is struck from
  the edge lists of every other manifest, line by line. The abstract view of a manifest is a list of parts: lines that
  belong to no edge list, and edge lists with their members.
\<close>

section \<open>Striking an edge\<close>

text \<open>\<open>\s\<close> of the expressions.\<close>

definition re_space :: "char \<Rightarrow> bool" where
  "re_space c \<longleftrightarrow> c \<in> {CHR '' '', CHR 0x09, newline, CHR 0x0C, CHR 0x0D}"

definition ends_or_comment :: "string \<Rightarrow> bool" where
  "ends_or_comment s = (case dropWhile re_space s of [] \<Rightarrow> True | c # _ \<Rightarrow> c = CHR ''#'')"

text \<open>\<open>^(dependencies|consumes):\s*(#.*)?$\<close>\<close>

definition edge_key :: "string \<Rightarrow> bool" where
  "edge_key l = (case (case go_cut_prefix l ''dependencies:'' of Some r \<Rightarrow> Some r | None \<Rightarrow> go_cut_prefix l ''consumes:'') of
     None \<Rightarrow> False | Some r \<Rightarrow> ends_or_comment r)"

text \<open>\<open>^\s+-\s+name\s*(#.*)?$\<close>: after the dash, one space or more, as many as it takes.\<close>

definition named_after :: "string \<Rightarrow> string \<Rightarrow> bool" where
  "named_after name r = list_ex (\<lambda>k. list_all re_space (take k r)
     \<and> (case go_cut_prefix (drop k r) name of None \<Rightarrow> False | Some t \<Rightarrow> ends_or_comment t)) [1..<Suc (length r)]"

definition item_line :: "string \<Rightarrow> string \<Rightarrow> bool" where
  "item_line name l = (l \<noteq> [] \<and> re_space (hd l)
     \<and> (case dropWhile re_space l of [] \<Rightarrow> False | c # r \<Rightarrow> c = CHR ''-'' \<and> named_after name r))"

definition indented :: "string \<Rightarrow> bool" where
  "indented l \<longleftrightarrow> prefix '' '' l \<or> prefix [CHR 0x09] l"

definition in_block :: "string \<Rightarrow> string list \<Rightarrow> bool" where
  "in_block l ls \<longleftrightarrow> indented l \<or> go_trim_space l = [] \<and> (case ls of [] \<Rightarrow> False | m # _ \<Rightarrow> indented m)"

text \<open>The members of the block at the head of the lines: whether one was struck, those kept, and the lines after it.\<close>

fun edge_block :: "string \<Rightarrow> string list \<Rightarrow> bool \<times> string list \<times> string list" where
  "edge_block name [] = (False, [], [])"
| "edge_block name (l # ls) =
     (if item_line name l then (case edge_block name ls of (_, kept, after) \<Rightarrow> (True, kept, after))
      else if in_block l ls then (case edge_block name ls of (removed, kept, after) \<Rightarrow> (removed, l # kept, after))
      else (False, [], l # ls))"

lemma edge_block_shorter: "edge_block name ls = (r, kept, after) \<Longrightarrow> length after \<le> length ls"
  by (induction name ls arbitrary: r kept after rule: edge_block.induct) (fastforce split: if_splits prod.splits)+

definition list_item :: "string \<Rightarrow> bool" where
  "list_item l \<longleftrightarrow> prefix ''- '' (go_trim_space l)"

function strip_lines :: "string \<Rightarrow> string list \<Rightarrow> string list \<times> bool" where
  "strip_lines name [] = ([], False)"
| "strip_lines name (l # ls) =
     (if \<not> edge_key l then (case strip_lines name ls of (out, changed) \<Rightarrow> (l # out, changed))
      else case edge_block name ls of
             (removed, kept, after) \<Rightarrow>
               (case strip_lines name after of
                  (out, changed) \<Rightarrow> ((if list_ex list_item kept \<or> \<not> removed then l # kept else []) @ out, removed \<or> changed)))"
  by pat_completeness auto

termination
  by (relation "measure (\<lambda>(_, ls). length ls)") (auto dest: edge_block_shorter [OF sym])

definition strip_edge :: "string \<Rightarrow> string \<Rightarrow> string \<times> bool" where
  "strip_edge manifest name =
     (case strip_lines name (go_split newline manifest) of (out, changed) \<Rightarrow> (go_join [newline] out, changed))"

section \<open>The plan\<close>

record delete_target =
  dt_name :: string
  dt_path :: string

datatype delete_op = DeletePath string | ModifyFile string string

record delete_plan =
  dp_name :: string
  dp_path :: string
  dp_ops :: "delete_op list"

datatype delete_error = UnknownProject | RootProjectImmutable | NoFiles

definition strip_ops :: "string \<Rightarrow> (string \<times> string) list \<Rightarrow> delete_op list" where
  "strip_ops name manifests =
     List.map_filter (\<lambda>(p, content). case strip_edge content name of (body, changed) \<Rightarrow> if changed then Some (ModifyFile p body) else None) manifests"

definition plan_delete ::
  "string \<Rightarrow> delete_target list \<Rightarrow> string list \<Rightarrow> (string \<times> string) list \<Rightarrow> delete_error + delete_plan" where
  "plan_delete name targets files manifests =
     (case find (\<lambda>t. dt_name t = name) targets of
        None \<Rightarrow> Inl UnknownProject
      | Some t \<Rightarrow>
          if dt_path t = [] \<or> dt_path t = ''.'' then Inl RootProjectImmutable
          else if files = [] then Inl NoFiles
          else Inr \<lparr>dp_name = name, dp_path = dt_path t, dp_ops = map DeletePath files @ strip_ops name manifests\<rparr>)"

section \<open>A strip leaves nothing to strip\<close>

lemma split_joined: "xs \<noteq> [] \<Longrightarrow> (\<And>x. x \<in> set xs \<Longrightarrow> c \<notin> set x) \<Longrightarrow> go_split c (go_join [c] xs) = xs"
  by (induction "[c]" xs rule: go_join.induct) (auto simp: go_split_free go_split_append)

definition ends_block :: "string \<Rightarrow> string list \<Rightarrow> bool" where
  "ends_block name ls = (case ls of [] \<Rightarrow> True | l # rest \<Rightarrow> \<not> item_line name l \<and> \<not> in_block l rest)"

definition flush_left :: "string list \<Rightarrow> bool" where
  "flush_left ls = (case ls of [] \<Rightarrow> True | l # _ \<Rightarrow> \<not> indented l)"

lemma edge_key_plain:
  assumes "edge_key l"
  shows "\<not> indented l" "go_trim_space l \<noteq> []" "\<not> item_line name l"
proof -
  obtain r where "l = ''dependencies:'' @ r \<or> l = ''consumes:'' @ r"
    using assms by (auto simp: edge_key_def go_cut_prefix_Some split: option.splits)
  then have hd: "l \<noteq> []" "hd l = CHR ''d'' \<or> hd l = CHR ''c''" by auto
  show "\<not> indented l" using hd by (cases l) (auto simp: indented_def)
  show "\<not> item_line name l" using hd by (auto simp: item_line_def re_space_def)
  show "go_trim_space l \<noteq> []" using hd by (cases l) (auto simp: go_trim_space_def go_trim_left_def go_trim_right_def is_space_def)
qed

lemma edge_block_ends: "edge_block name ls = (r, kept, after) \<Longrightarrow> ends_block name after"
  by (induction name ls arbitrary: r kept after rule: edge_block.induct) (fastforce simp: ends_block_def split: if_splits prod.splits)+

lemma edge_block_kept:
  "edge_block name ls = (r, kept, after) \<Longrightarrow> k \<in> set kept \<Longrightarrow> \<not> item_line name k \<and> (indented k \<or> go_trim_space k = [])"
  by (induction name ls arbitrary: r kept after rule: edge_block.induct)
    (fastforce simp: in_block_def split: if_splits prod.splits)+

lemma ends_block_flush: "ends_block name ls \<Longrightarrow> flush_left ls"
  by (auto simp: ends_block_def flush_left_def in_block_def split: list.splits)

lemma strip_flush: "flush_left ls \<Longrightarrow> flush_left (fst (strip_lines name ls))"
proof (induction name ls rule: strip_lines.induct)
  case (2 name l ls)
  show ?case
  proof (cases "edge_key l")
    case False
    then show ?thesis using 2(3) by (auto simp: flush_left_def split: prod.splits)
  next
    case True
    obtain r kept after where b: "edge_block name ls = (r, kept, after)" by (cases "edge_block name ls")
    have "flush_left (fst (strip_lines name after))"
      using 2(2) [OF _ b [symmetric] refl] True ends_block_flush [OF edge_block_ends [OF b]] by simp
    then show ?thesis using True b edge_key_plain(1) [OF True] by (auto simp: flush_left_def split: prod.splits)
  qed
qed simp

lemma strip_ends: "ends_block name ls \<Longrightarrow> ends_block name (fst (strip_lines name ls))"
proof (induction name ls rule: strip_lines.induct)
  case (2 name l ls)
  show ?case
  proof (cases "edge_key l")
    case False
    obtain out ch where o: "strip_lines name ls = (out, ch)" by (cases "strip_lines name ls")
    have "\<not> in_block l out"
    proof (cases "go_trim_space l = []")
      case True
      then have "flush_left ls" using 2(3) by (auto simp: ends_block_def in_block_def flush_left_def split: list.splits)
      then have "flush_left out" using strip_flush [of ls name] o by simp
      then show ?thesis using 2(3) by (auto simp: ends_block_def in_block_def flush_left_def split: list.splits)
    qed (use 2(3) in \<open>auto simp: ends_block_def in_block_def\<close>)
    then show ?thesis using False o 2(3) by (simp add: ends_block_def)
  next
    case True
    obtain r kept after where b: "edge_block name ls = (r, kept, after)" by (cases "edge_block name ls")
    have rest: "ends_block name (fst (strip_lines name after))"
      using 2(2) [OF _ b [symmetric] refl] True edge_block_ends [OF b] by simp
    have "ends_block name (l # x)" for x using edge_key_plain [OF True] by (simp add: ends_block_def in_block_def)
    then show ?thesis using True b rest by (auto split: prod.splits)
  qed
qed simp

lemma edge_block_again:
  assumes "\<And>k. k \<in> set kept \<Longrightarrow> \<not> item_line name k" "ends_block name out"
  shows "\<exists>k1 k2. kept = k1 @ k2 \<and> edge_block name (kept @ out) = (False, k1, k2 @ out)"
  using assms
proof (induction kept)
  case Nil
  then show ?case by (cases out) (auto simp: ends_block_def)
next
  case (Cons k ks)
  then obtain k1 k2 where "ks = k1 @ k2" "edge_block name (ks @ out) = (False, k1, k2 @ out)" by auto
  then show ?case using Cons.prems(1) [of k]
    by (cases "in_block k (ks @ out)") (auto intro: exI [of _ "k # k1"] exI [of _ "[]"])
qed

lemma strip_past: "(\<And>k. k \<in> set ks \<Longrightarrow> \<not> edge_key k) \<Longrightarrow>
    strip_lines name (ks @ out) = (ks @ fst (strip_lines name out), snd (strip_lines name out))"
  by (induction ks) (auto split: prod.splits)

lemma strip_stable: "strip_lines name (fst (strip_lines name ls)) = (fst (strip_lines name ls), False)"
proof (induction name ls rule: strip_lines.induct)
  case (2 name l ls)
  show ?case
  proof (cases "edge_key l")
    case False
    then show ?thesis using 2(1) by (auto split: prod.splits)
  next
    case True
    obtain r kept after where b: "edge_block name ls = (r, kept, after)" by (cases "edge_block name ls")
    define out where "out = fst (strip_lines name after)"
    have again: "strip_lines name out = (out, False)" using 2(2) [OF _ b [symmetric] refl] True by (simp add: out_def)
    have ends: "ends_block name out" using strip_ends [OF edge_block_ends [OF b]] by (simp add: out_def)
    have kept: "\<not> item_line name k" "\<not> edge_key k" if "k \<in> set kept" for k
      using edge_block_kept [OF b that] edge_key_plain [of k] by auto
    obtain k1 k2 where k: "kept = k1 @ k2" "edge_block name (kept @ out) = (False, k1, k2 @ out)"
      using edge_block_again [OF kept(1) ends] by blast
    have "strip_lines name (k2 @ out) = (k2 @ out, False)"
      using strip_past [of k2 name out] kept(2) again k(1) by simp
    then have "strip_lines name (l # kept @ out) = (l # kept @ out, False)" using True k by simp
    moreover have "fst (strip_lines name (l # ls)) = (if list_ex list_item kept \<or> \<not> r then l # kept else []) @ out"
      using True b by (simp add: out_def split: prod.splits)
    ultimately show ?thesis using again by simp
  qed
qed simp

section \<open>A manifest by its parts\<close>

text \<open>An entry of a YAML list: white space, a dash, and white space again. The manifests are written in plain style: a
  space after the dash of an entry, which is not empty, and no vertical tab.\<close>

definition yaml_item :: "string \<Rightarrow> bool" where
  "yaml_item l \<longleftrightarrow> (case dropWhile re_space l of c # d # r \<Rightarrow> c = CHR ''-'' \<and> re_space d | _ \<Rightarrow> False)"

definition plain_style :: "string \<Rightarrow> bool" where
  "plain_style l \<longleftrightarrow> CHR 0x0B \<notin> set l
     \<and> (case dropWhile re_space l of
          c # d # r \<Rightarrow> c = CHR ''-'' \<and> re_space d \<longrightarrow> d = CHR '' '' \<and> \<not> list_all is_space r
        | _ \<Rightarrow> True)"

lemma trim_right_nonspace: "\<not> list_all P r \<Longrightarrow> prefix s (go_trim_right P (s @ r))"
proof -
  assume "\<not> list_all P r"
  then obtain x where x: "x \<in> set (rev r)" "\<not> P x" by (auto simp: list_all_iff)
  have "dropWhile P (rev (s @ r)) = dropWhile P (rev r) @ rev s" using x by (simp add: dropWhile_append1)
  then show ?thesis by (simp add: go_trim_right_def)
qed

lemma plain_item:
  assumes "plain_style l"
  shows "list_item l \<longleftrightarrow> yaml_item l"
proof -
  define rest where "rest = dropWhile re_space l"
  have free: "CHR 0x0B \<notin> set l" using assms by (simp add: plain_style_def)
  have same: "is_space x \<longleftrightarrow> re_space x" if "x \<in> set l" for x
    using that free by (auto simp: is_space_def re_space_def)
  have left: "go_trim_left is_space l = rest"
    unfolding go_trim_left_def rest_def by (rule dropWhile_cong) (use same in auto)
  have trim: "go_trim_space l = go_trim_right is_space rest" by (simp add: go_trim_space_def left)
  have pre: "prefix (go_trim_right is_space rest) rest"
    unfolding go_trim_right_def by (metis prefixI rev_append rev_rev_ident takeWhile_dropWhile_id)
  show ?thesis
  proof
    assume "list_item l"
    then have "prefix ''- '' rest" using pre unfolding list_item_def trim by (rule prefix_order.trans)
    then obtain r where "rest = CHR ''-'' # CHR '' '' # r" by (auto simp: prefix_def)
    then show "yaml_item l" by (simp add: yaml_item_def rest_def [symmetric] re_space_def)
  next
    assume "yaml_item l"
    then obtain d r where "rest = CHR ''-'' # d # r" "re_space d"
      by (auto simp: yaml_item_def rest_def [symmetric] split: list.splits)
    then have "rest = ''- '' @ r" "\<not> list_all is_space r"
      using assms by (auto simp: plain_style_def rest_def [symmetric])
    then show "list_item l" unfolding list_item_def trim using trim_right_nonspace [of is_space r "''- ''"] by simp
  qed
qed

datatype part = Plain string | EdgeList string "string list"

fun members :: "string list \<Rightarrow> string list \<times> string list" where
  "members [] = ([], [])"
| "members (l # ls) = (if in_block l ls then (case members ls of (ms, after) \<Rightarrow> (l # ms, after)) else ([], l # ls))"

lemma members_shorter: "members ls = (ms, after) \<Longrightarrow> length after \<le> length ls"
  by (induction ls arbitrary: ms after rule: members.induct) (fastforce split: if_splits prod.splits)+

function parts_of :: "string list \<Rightarrow> part list" where
  "parts_of [] = []"
| "parts_of (l # ls) =
     (if edge_key l then (case members ls of (ms, after) \<Rightarrow> EdgeList l ms # parts_of after) else Plain l # parts_of ls)"
  by pat_completeness auto

termination
  by (relation "measure length") (auto dest: members_shorter [OF sym])

fun part_lines :: "part \<Rightarrow> string list" where
  "part_lines (Plain l) = [l]"
| "part_lines (EdgeList key ms) = key # ms"

fun part_edges :: "part \<Rightarrow> string list" where
  "part_edges (Plain l) = []"
| "part_edges (EdgeList key ms) = filter yaml_item ms"

fun part_names :: "string \<Rightarrow> part \<Rightarrow> bool" where
  "part_names name (Plain l) = False"
| "part_names name (EdgeList key ms) = list_ex (item_line name) ms"

fun drop_edge :: "string \<Rightarrow> part \<Rightarrow> part list" where
  "drop_edge name (Plain l) = [Plain l]"
| "drop_edge name (EdgeList key ms) =
     (let kept = filter (\<lambda>m. \<not> item_line name m) ms in
      if list_ex yaml_item kept \<or> \<not> list_ex (item_line name) ms then [EdgeList key kept] else [])"

definition drop_edges :: "string \<Rightarrow> part list \<Rightarrow> part list" where
  "drop_edges name d = concat (map (drop_edge name) d)"

definition doc_lines :: "part list \<Rightarrow> string list" where
  "doc_lines d = concat (map part_lines d)"

definition doc_edges :: "part list \<Rightarrow> string list" where
  "doc_edges d = concat (map part_edges d)"

definition plain_lines :: "part list \<Rightarrow> string list" where
  "plain_lines d = concat (map (\<lambda>p. case p of Plain l \<Rightarrow> [l] | EdgeList _ _ \<Rightarrow> []) d)"

lemma edge_block_members:
  assumes "\<forall>l\<in>set ls. item_line name l \<longrightarrow> indented l" "members ls = (ms, after)"
  shows "edge_block name ls = (list_ex (item_line name) ms, filter (\<lambda>m. \<not> item_line name m) ms, after)"
  using assms by (induction ls arbitrary: ms after) (fastforce simp: in_block_def split: prod.splits if_splits)+

lemma members_suffix: "members ls = (ms, after) \<Longrightarrow> set after \<subseteq> set ls"
  by (induction ls arbitrary: ms after rule: members.induct) (fastforce split: if_splits prod.splits)+

lemma members_lines: "members ls = (ms, after) \<Longrightarrow> ms @ after = ls"
  by (induction ls arbitrary: ms after rule: members.induct) (fastforce split: if_splits prod.splits)+

lemma parts_lines: "doc_lines (parts_of ls) = ls"
proof (induction ls rule: parts_of.induct)
  case (2 l ls)
  then show ?case using members_lines [of ls] by (auto simp: doc_lines_def split: prod.splits)
qed (simp add: doc_lines_def)

lemma strip_lines_parts:
  "\<forall>l\<in>set ls. (item_line name l \<longrightarrow> indented l) \<and> plain_style l \<Longrightarrow>
   strip_lines name ls = (doc_lines (drop_edges name (parts_of ls)), list_ex (part_names name) (parts_of ls))"
proof (induction ls rule: parts_of.induct)
  case (2 l ls)
  show ?case
  proof (cases "edge_key l")
    case False
    then show ?thesis using 2 by (simp add: doc_lines_def drop_edges_def)
  next
    case True
    obtain ms after where m: "members ls = (ms, after)" by (cases "members ls")
    have b: "edge_block name ls = (list_ex (item_line name) ms, filter (\<lambda>m. \<not> item_line name m) ms, after)"
      using edge_block_members [OF _ m] 2(3) by simp
    have "strip_lines name after = (doc_lines (drop_edges name (parts_of after)), list_ex (part_names name) (parts_of after))"
      using 2(1) [OF True m [symmetric]] 2(3) members_suffix [OF m] by auto
    moreover have "set ms \<subseteq> set ls" using members_lines [OF m] by auto
    then have "list_ex list_item (filter (\<lambda>m. \<not> item_line name m) ms) = list_ex yaml_item (filter (\<lambda>m. \<not> item_line name m) ms)"
      using 2(3) plain_item by (auto simp: list_ex_iff)
    ultimately show ?thesis using True b m by (simp add: Let_def doc_lines_def drop_edges_def)
  qed
qed (simp add: doc_lines_def drop_edges_def)

lemma drop_edges_effect:
  "doc_edges (drop_edges name d) = filter (\<lambda>l. \<not> item_line name l) (doc_edges d)" "plain_lines (drop_edges name d) = plain_lines d"
proof -
  have swap: "filter yaml_item (filter (\<lambda>l. \<not> item_line name l) ms) = filter (\<lambda>l. \<not> item_line name l) (filter yaml_item ms)" for ms
    by (simp add: conj_commute)
  have none: "\<not> list_ex yaml_item ks \<Longrightarrow> filter yaml_item ks = []" for ks by (simp add: list_ex_iff filter_empty_conv)
  have one: "concat (map part_edges (drop_edge name p)) = filter (\<lambda>l. \<not> item_line name l) (part_edges p)" for p
  proof (cases p)
    case (EdgeList key ms)
    then show ?thesis
      using none [of "filter (\<lambda>l. \<not> item_line name l) ms"] unfolding EdgeList drop_edge.simps Let_def part_edges.simps swap [symmetric]
      by (simp del: filter_filter)
  qed simp
  show "doc_edges (drop_edges name d) = filter (\<lambda>l. \<not> item_line name l) (doc_edges d)"
    by (induction d) (simp_all add: doc_edges_def drop_edges_def one)
  have plain: "concat (map (\<lambda>p. case p of Plain l \<Rightarrow> [l] | EdgeList _ _ \<Rightarrow> []) (drop_edge name p)) = plain_lines [p]" for p
    by (cases p) (auto simp: Let_def plain_lines_def)
  show "plain_lines (drop_edges name d) = plain_lines d"
    using plain by (induction d) (simp_all add: plain_lines_def drop_edges_def)
qed

lemma strip_edge_parts:
  assumes "\<forall>l\<in>set (go_split newline c). (item_line name l \<longrightarrow> indented l) \<and> plain_style l"
  shows "strip_edge c name = (go_join [newline] (doc_lines (drop_edges name (parts_of (go_split newline c)))),
      list_ex (part_names name) (parts_of (go_split newline c)))"
  by (simp add: strip_edge_def strip_lines_parts [OF assms])

lemma edge_block_subset: "edge_block name ls = (r, kept, after) \<Longrightarrow> set kept \<union> set after \<subseteq> set ls"
  by (induction name ls arbitrary: r kept after rule: edge_block.induct) (fastforce split: if_splits prod.splits)+

lemma strip_lines_free: "set (fst (strip_lines name ls)) \<subseteq> set ls"
proof (induction name ls rule: strip_lines.induct)
  case (2 name l ls)
  show ?case
  proof (cases "edge_key l")
    case False
    then show ?thesis using 2(1) by (auto split: prod.splits)
  next
    case True
    obtain r kept after where b: "edge_block name ls = (r, kept, after)" by (cases "edge_block name ls")
    then have "set (fst (strip_lines name after)) \<subseteq> set after" using 2(2) [OF _ b [symmetric] refl] True by simp
    moreover have "set (fst (strip_lines name (l # ls))) \<subseteq> insert l (set kept \<union> set (fst (strip_lines name after)))"
      using True b by (auto split: prod.splits if_splits)
    ultimately have "set (fst (strip_lines name (l # ls))) \<subseteq> insert l (set ls)" using edge_block_subset [OF b] by blast
    then show ?thesis by (simp only: list.set)
  qed
qed simp

lemma strip_edge_stable: "strip_edge (fst (strip_edge c name)) name = (fst (strip_edge c name), False)"
proof -
  define out where "out = fst (strip_lines name (go_split newline c))"
  have body: "fst (strip_edge c name) = go_join [newline] out" by (simp add: strip_edge_def out_def split: prod.splits)
  have stable: "strip_lines name out = (out, False)" unfolding out_def by (rule strip_stable)
  have free: "newline \<notin> set x" if "x \<in> set out" for x
    using that strip_lines_free [of name "go_split newline c"] go_split_no_sep unfolding out_def by blast
  show ?thesis
  proof (cases "out = []")
    case True
    then show ?thesis using body by (simp add: strip_edge_def edge_key_def go_cut_prefix_def)
  next
    case False
    have "go_split newline (go_join [newline] out) = out" using False free by (rule split_joined)
    then show ?thesis using body stable by (simp add: strip_edge_def)
  qed
qed

section \<open>What a deletion does\<close>

lemma plan_delete_parts:
  assumes "plan_delete name targets files manifests = Inr plan"
  obtains t where "t \<in> set targets" "dt_name t = name" "dt_path t \<notin> {[], ''.''}" "files \<noteq> []"
    "plan = \<lparr>dp_name = name, dp_path = dt_path t, dp_ops = map DeletePath files @ strip_ops name manifests\<rparr>"
proof -
  obtain t where "find (\<lambda>t. dt_name t = name) targets = Some t"
    using assms by (cases "find (\<lambda>t. dt_name t = name) targets") (auto simp: plan_delete_def)
  note found = this
  have "t \<in> set targets" "dt_name t = name" using found by (auto simp: find_Some_iff)
  then show thesis using assms found that [of t] by (simp add: plan_delete_def split: if_splits)
qed

lemma set_map_filter_eq: "set (List.map_filter f xs) = {y. \<exists>x\<in>set xs. f x = Some y}"
  by (induction xs) (auto simp: map_filter_simps split: option.splits)

lemma strip_ops_set: "ModifyFile p body \<in> set (strip_ops name manifests) \<longleftrightarrow> (\<exists>c. (p, c) \<in> set manifests \<and> strip_edge c name = (body, True))"
  "DeletePath f \<notin> set (strip_ops name manifests)"
proof -
  have one: "(case x of (p, content) \<Rightarrow> case strip_edge content name of (body, changed) \<Rightarrow> if changed then Some (ModifyFile p body) else None) = Some q
      \<longleftrightarrow> (\<exists>body. q = ModifyFile (fst x) body \<and> strip_edge (snd x) name = (body, True))" for x q
    by (cases x; cases "strip_edge (snd x) name") auto
  show "ModifyFile p body \<in> set (strip_ops name manifests) \<longleftrightarrow> (\<exists>c. (p, c) \<in> set manifests \<and> strip_edge c name = (body, True))"
    by (auto simp: strip_ops_def set_map_filter_eq one) (metis fst_conv snd_conv)
  show "DeletePath f \<notin> set (strip_ops name manifests)" by (simp add: strip_ops_def set_map_filter_eq one)
qed


definition demo_edges :: "string list" where
  "demo_edges = [''name: web'', ''dependencies:'', ''  - gone'', ''  # wire'', ''  - gone2'', ''consumes: # all'', ''  - gone  # old'', ''owners: []'']"

definition demo_struck :: "string list" where
  "demo_struck = [''name: web'', ''dependencies:'', ''  # wire'', ''  - gone2'', ''owners: []'']"

lemma demo_edges_split: "go_split newline (go_join [newline] demo_edges) = demo_edges"
  by (rule split_joined) (auto simp: demo_edges_def)

lemma demo_edges_indented: "\<forall>l\<in>set demo_edges. (item_line ''gone'' l \<longrightarrow> indented l) \<and> plain_style l"
  unfolding demo_edges_def by code_simp

lemma demo_edges_strip: "strip_lines ''gone'' demo_edges = (demo_struck, True)"
  unfolding demo_edges_def demo_struck_def by code_simp


text \<open>Only two of the three edge lists of a manifest are looked at: an entry of \<open>test_dependencies\<close> stays, and dangles. And a list whose
  other entries are written with a tab after the dash counts as emptied: it goes with the entries that were to stay.\<close>

lemma test_dependency_stays:
  "strip_edge (go_join [newline] [''test_dependencies:'', ''  - gone'']) ''gone'' = (go_join [newline] [''test_dependencies:'', ''  - gone''], False)"
  by code_simp

lemma tabbed_entry_goes:
  "strip_edge (go_join [newline] [''name: web'', ''dependencies:'', ''  -'' @ [CHR 0x09] @ ''proto'', ''  - gone'']) ''gone'' = (''name: web'', True)"
  by code_simp

end
