(* ===== verification/ProjectChange.thy ===== *)
theory ProjectChange
  imports Scaffold DeletePlan Sync Hub
begin

text \<open>
  Changes the daemon writes itself (\<open>runkod/createproject.go\<close>, \<open>deleteproject.go\<close>, \<open>bootstraporg.go\<close>) and the overlay
  commit under them (\<open>CommitOverlay\<close> of \<open>internal/gitstore\<close>): a commit over trunk's tip, a ref of its own, an open
  Change. \<open>env\<close> is what other requests do to the repository between the plan and the commit.
\<close>

section \<open>Overlay commits\<close>

datatype file_change = PutFile string string | RemoveFile string

text \<open>What the commands of one commit do: the index of a revision, a blob written, whether the index takes a change, the
  tree written; and the unconditional move of a ref.\<close>

record 'w overlay_git =
  og_read_tree :: "'w \<Rightarrow> string \<Rightarrow> (string, string) gomap option"
  og_hash :: "string \<Rightarrow> 'w \<Rightarrow> string option \<times> 'w"
  og_takes :: "(string, string) gomap \<Rightarrow> file_change \<Rightarrow> bool"
  og_write_tree :: "(string, string) gomap \<Rightarrow> 'w \<Rightarrow> string option \<times> 'w"
  og_set_ref :: "string \<Rightarrow> string \<Rightarrow> 'w \<Rightarrow> bool \<times> 'w"
  og_store :: "'w \<Rightarrow> string \<Rightarrow> tree_store"
  og_stamp :: "go_time \<Rightarrow> string"

fun overlay_index :: "'w overlay_git \<Rightarrow> file_change list \<Rightarrow> (string, string) gomap \<Rightarrow> 'w \<Rightarrow> (string, string) gomap option \<times> 'w" where
  "overlay_index og [] idx w = (Some idx, w)"
| "overlay_index og (RemoveFile p # cs) idx w =
     (if og_takes og idx (RemoveFile p) then overlay_index og cs (gm_del idx p) w else (None, w))"
| "overlay_index og (PutFile p content # cs) idx w =
     (case og_hash og content w of
        (None, w1) \<Rightarrow> (None, w1)
      | (Some sha, w1) \<Rightarrow>
          if og_takes og idx (PutFile p content) then overlay_index og cs (gm_put idx p sha) w1 else (None, w1))"

definition commit_overlay :: "'w overlay_git \<Rightarrow> 'w git \<Rightarrow> string \<Rightarrow> file_change list \<Rightarrow> identity \<Rightarrow> string \<Rightarrow> 'w \<Rightarrow> string option \<times> 'w" where
  "commit_overlay og g base overlay author msg w =
     (case (if base = [] then Some gm_empty else og_read_tree og w base) of
        None \<Rightarrow> (None, w)
      | Some idx \<Rightarrow>
          (case overlay_index og overlay idx w of
             (None, w1) \<Rightarrow> (None, w1)
           | (Some idx1, w1) \<Rightarrow>
               (case og_write_tree og idx1 w1 of
                  (None, w2) \<Rightarrow> (None, w2)
                | (Some tree, w2) \<Rightarrow>
                    (let who = \<lparr>id_name = (if id_name author = [] then ''Runko'' else id_name author),
                                id_email = (if id_email author = [] then ''runko@localhost'' else id_email author)\<rparr>
                     in g_commit_tree g \<lparr>co_tree = tree, co_parent = (if base = [] then None else Some base), co_message = msg,
                          co_author = who, co_committer = who\<rparr> w2))))"

section \<open>Registering the Change\<close>

text \<open>Who authors: the commit's identity and the name on the Change.\<close>

definition web_author :: "caller option \<Rightarrow> identity" where
  "web_author p = (case p of
     None \<Rightarrow> \<lparr>id_name = ''runko-web'', id_email = ''runko-web@localhost''\<rparr>
   | Some q \<Rightarrow> \<lparr>id_name = pn_name q, id_email = pn_name q @ ''@runko''\<rparr>)"

definition announce_change :: "'w server \<Rightarrow> go_time \<Rightarrow> change \<Rightarrow> string list \<Rightarrow> 'w sys \<Rightarrow> 'w sys" where
  "announce_change sv now c paths y =
     (if \<not> sv_processor sv then y
      else case affected_for_change (sv_gate sv) (ch_head c) paths (sy_repo y) of
             None \<Rightarrow> y
           | Some (result, _) \<Rightarrow> set_store (enqueue_change_updated (sv_hooks sv) now c result (sy_store y)) y)"

definition trailer_message :: "string \<Rightarrow> string \<Rightarrow> string" where
  "trailer_message title key = title @ [newline, newline] @ ''Change-Id: '' @ key @ [newline]"

definition author_change ::
  "'w server \<Rightarrow> 'w overlay_git \<Rightarrow> go_time \<Rightarrow> caller option \<Rightarrow> string \<Rightarrow> string \<Rightarrow> string \<Rightarrow> string \<Rightarrow> file_change list \<Rightarrow> string list \<Rightarrow>
   'w sys \<Rightarrow> ('w, change) reply" where
  "author_change sv og now p key base title msg overlay paths y =
     (case commit_overlay og (gt_git (sv_gate sv)) base overlay (web_author p) msg (sy_repo y) of
        (None, w) \<Rightarrow> broken (y\<lparr>sy_repo := w\<rparr>)
      | (Some sha, w) \<Rightarrow>
          (case og_set_ref og (change_ref key) sha w of
             (False, w1) \<Rightarrow> broken (y\<lparr>sy_repo := w1\<rparr>)
           | (True, w1) \<Rightarrow>
               (case create_or_update_change key
                       \<lparr>pf_base = base, pf_head = sha, pf_git_ref = change_ref key, pf_title = title, pf_author = caller_name p,
                        pf_workspace = [], pf_branch = []\<rparr> (sy_store y) of
                  (Inl _, s) \<Rightarrow> broken (y\<lparr>sy_repo := w1, sy_store := s\<rparr>)
                | (Inr c, s) \<Rightarrow> (Inr c, announce_change sv now c paths (y\<lparr>sy_repo := w1, sy_store := s\<rparr>)))))"

section \<open>Creating a project\<close>

definition trunk_projects :: "'w server \<Rightarrow> 'w \<Rightarrow> indexed_project list option" where
  "trunk_projects sv w =
     (case trunk_tip (sv_gate sv) w of None \<Rightarrow> Some [] | Some tip \<Rightarrow> rd_index (gt_reads (sv_gate sv)) w tip)"

definition preview_project :: "(project_manifest \<Rightarrow> string option) \<Rightarrow> 'w server \<Rightarrow> intent \<Rightarrow> 'w \<Rightarrow> api_error + project_plan" where
  "preview_project marshal sv i w =
     (case plan_create marshal default_templates i of
        Inl errs \<Rightarrow> Inl (typed_err 400 (er_code (hd errs)))
      | Inr plan \<Rightarrow>
          (case trunk_projects sv w of
             None \<Rightarrow> Inl internal_err
           | Some ps \<Rightarrow>
               if list_ex (\<lambda>p. ip_name p = mf_name (pp_manifest plan) \<or> ip_path p = pp_path plan) ps
               then Inl (typed_err 409 ''already_exists'') else Inr plan))"

definition plan_overlay :: "project_plan \<Rightarrow> file_change list" where
  "plan_overlay plan = map (\<lambda>f. PutFile (path_join [pp_path plan, fw_path f]) (fw_content f)) (pp_files plan)"

definition create_project ::
  "(project_manifest \<Rightarrow> string option) \<Rightarrow> 'w server \<Rightarrow> 'w overlay_git \<Rightarrow> go_time \<Rightarrow> ('w \<Rightarrow> 'w) \<Rightarrow> intent \<Rightarrow> caller option \<Rightarrow> 'w sys \<Rightarrow> ('w, change) reply" where
  "create_project marshal sv og now env i p y0 =
     (case preview_project marshal sv i (sy_repo y0) of
        Inl e \<Rightarrow> (Inl e, y0)
      | Inr plan \<Rightarrow>
          (let y = y0\<lparr>sy_repo := env (sy_repo y0)\<rparr>;
               base = (case trunk_tip (sv_gate sv) (sy_repo y) of None \<Rightarrow> [] | Some tip \<Rightarrow> tip);
               key = generate_change_id (pp_path plan @ ''|'' @ base @ ''|'' @ og_stamp og now);
               title = ''Create project '' @ mf_name (pp_manifest plan)
           in author_change sv og now p key base title (trailer_message title key) (plan_overlay plan)
                (map (\<lambda>f. path_join [pp_path plan, fw_path f]) (pp_files plan)) y))"

section \<open>Deleting a project\<close>

text \<open>The files under a directory. The walk goes down at most \<open>n\<close> levels; None says that it went deeper, the inner None that
  a tree could not be read.\<close>

function (sequential) list_subtree :: "tree_store \<Rightarrow> nat \<Rightarrow> string \<Rightarrow> string list option option"
  and list_entries :: "tree_store \<Rightarrow> nat \<Rightarrow> string \<Rightarrow> tree_entry list \<Rightarrow> string list option option" where
  "list_subtree st 0 dir = None"
| "list_subtree st (Suc n) dir = (case ts_tree st dir of None \<Rightarrow> Some None | Some es \<Rightarrow> list_entries st n dir es)"
| "list_entries st n dir [] = Some (Some [])"
| "list_entries st n dir (e # es) =
     (let full = path_join [dir, te_path e] in
      case (if te_type e = ''tree'' then list_subtree st n full else Some (Some [full])) of
        None \<Rightarrow> None
      | Some None \<Rightarrow> Some None
      | Some (Some fs) \<Rightarrow> map_option (map_option (\<lambda>gs. fs @ gs)) (list_entries st n dir es))"
  by pat_completeness auto

termination
  by (relation "measures [\<lambda>x. case x of Inl (_, n, _) \<Rightarrow> n | Inr (_, n, _, _) \<Rightarrow> n,
      \<lambda>x. case x of Inl (_, n, _) \<Rightarrow> 0 | Inr (_, n, _, es) \<Rightarrow> Suc (length es)]") auto

text \<open>The last project of the name gives the path that is listed.\<close>

definition target_path :: "string \<Rightarrow> indexed_project list \<Rightarrow> string" where
  "target_path name ps = foldl (\<lambda>acc p. if ip_name p = name then ip_path p else acc) [] ps"

definition manifest_path :: "indexed_project \<Rightarrow> string" where
  "manifest_path p = (if ip_path p = [] \<or> ip_path p = ''.'' then ''PROJECT.yaml'' else path_join [ip_path p, ''PROJECT.yaml''])"

fun read_manifests :: "tree_store \<Rightarrow> indexed_project list \<Rightarrow> (string \<times> string) list option" where
  "read_manifests st [] = Some []"
| "read_manifests st (p # ps) =
     (case ts_blob st (manifest_path p) of
        None \<Rightarrow> None
      | Some content \<Rightarrow> map_option (\<lambda>ms. (manifest_path p, content) # ms) (read_manifests st ps))"

definition delete_refusal :: "delete_error \<Rightarrow> api_error" where
  "delete_refusal e = (case e of
     UnknownProject \<Rightarrow> typed_err 404 ''unknown_project''
   | RootProjectImmutable \<Rightarrow> typed_err 400 ''root_project_immutable''
   | NoFiles \<Rightarrow> typed_err 404 ''unknown_project'')"

definition preview_delete :: "'w server \<Rightarrow> 'w overlay_git \<Rightarrow> nat \<Rightarrow> string \<Rightarrow> 'w \<Rightarrow> (api_error + delete_plan) option" where
  "preview_delete sv og n name w =
     (case trunk_tip (sv_gate sv) w of
        None \<Rightarrow> Some (Inl (typed_err 404 ''unknown_project''))
      | Some tip \<Rightarrow>
          (case rd_index (gt_reads (sv_gate sv)) w tip of
             None \<Rightarrow> Some (Inl internal_err)
           | Some ps \<Rightarrow>
               (let st = og_store og w tip; path = target_path name ps in
                case (if path \<noteq> [] \<and> path \<noteq> ''.'' then list_subtree st n (go_trim_suffix path ''/'') else Some (Some [])) of
                  None \<Rightarrow> None
                | Some None \<Rightarrow> Some (Inl internal_err)
                | Some (Some files) \<Rightarrow>
                    (case read_manifests st (filter (\<lambda>p. ip_name p \<noteq> name) ps) of
                       None \<Rightarrow> Some (Inl internal_err)
                     | Some ms \<Rightarrow>
                         (case plan_delete name (map (\<lambda>p. \<lparr>dt_name = ip_name p, dt_path = ip_path p\<rparr>) ps) files ms of
                            Inl e \<Rightarrow> Some (Inl (delete_refusal e)) | Inr plan \<Rightarrow> Some (Inr plan))))))"

definition delete_change :: "delete_op \<Rightarrow> file_change" where
  "delete_change op = (case op of DeletePath p \<Rightarrow> RemoveFile p | ModifyFile p content \<Rightarrow> PutFile p content)"

definition op_path :: "delete_op \<Rightarrow> string" where
  "op_path op = (case op of DeletePath p \<Rightarrow> p | ModifyFile p _ \<Rightarrow> p)"

definition delete_project ::
  "'w server \<Rightarrow> 'w overlay_git \<Rightarrow> nat \<Rightarrow> go_time \<Rightarrow> ('w \<Rightarrow> 'w) \<Rightarrow> string \<Rightarrow> caller option \<Rightarrow> 'w sys \<Rightarrow> ('w, change) reply option" where
  "delete_project sv og n now env name p y0 =
     (if (case p of None \<Rightarrow> False | Some q \<Rightarrow> pn_is_agent q) then Some (refuse 403 ''agents_cannot_delete_projects'' y0)
      else case preview_delete sv og n name (sy_repo y0) of
             None \<Rightarrow> None
           | Some (Inl e) \<Rightarrow> Some (Inl e, y0)
           | Some (Inr plan) \<Rightarrow>
               (let y = y0\<lparr>sy_repo := env (sy_repo y0)\<rparr> in
                case trunk_tip (sv_gate sv) (sy_repo y) of
                  None \<Rightarrow> Some (broken y)
                | Some base \<Rightarrow>
                    (let key = generate_change_id (''delete|'' @ dp_path plan @ ''|'' @ base @ ''|'' @ og_stamp og now);
                         title = ''Delete project '' @ name
                     in Some (author_change sv og now p key base title (trailer_message title key) (map delete_change (dp_ops plan))
                          (map op_path (dp_ops plan)) y))))"

section \<open>Bootstrapping an org\<close>

datatype bootstrap_outcome = SeededGenesis | BootstrapChange change

text \<open>\<open>directory\<close> is the hub's directory, when one is wired.\<close>

definition bootstrap_admin_gate :: "mem_store option \<Rightarrow> string \<Rightarrow> caller \<Rightarrow> api_error option" where
  "bootstrap_admin_gate directory org p =
     (case directory of
        None \<Rightarrow> None
      | Some d \<Rightarrow>
          if \<not> pn_stored p \<or> org = [] \<or> org_member_role d org (pn_name p) = Some ''admin'' then None
          else Some (typed_err 403 ''not_org_admin''))"

definition org_display_name :: "string \<Rightarrow> string" where
  "org_display_name org = (if org \<noteq> [] then org else ''this monorepo'')"

definition governance_files :: "'w org_hub \<Rightarrow> string \<Rightarrow> string \<Rightarrow> bool \<Rightarrow> (string \<times> string) list" where
  "governance_files h org creator has_root =
     filter (\<lambda>(p, _). p = ''OWNERS'' \<or> p = ''PROJECT.yaml'' \<and> \<not> has_root) (genesis_files h org creator)"

definition bootstrap_message :: "string \<Rightarrow> string \<Rightarrow> string" where
  "bootstrap_message title key = title @ go_join [newline]
     [[], [], ''Seeded by `runko org bootstrap` (governance retrofit): this org's trunk'',
      ''resolved no owners anywhere, so under default-deny nothing could land -'',
      ''including this fix. Owners resolve from this change's own head tree and'',
      ''the author's push is their consent (uploader model), which is what makes'',
      ''this one change self-landable.'', [], ''Change-Id: '' @ key, []]"

definition bootstrap_org ::
  "'w server \<Rightarrow> 'w overlay_git \<Rightarrow> 'w org_hub \<Rightarrow> mem_store option \<Rightarrow> go_time \<Rightarrow> caller option \<Rightarrow> 'w sys \<Rightarrow> ('w, bootstrap_outcome) reply" where
  "bootstrap_org sv og h directory now p y =
     (let org = hk_org (sv_hooks sv) in
      case p of
        None \<Rightarrow> refuse 403 ''bootstrap_needs_identity'' y
      | Some q \<Rightarrow>
          if pn_is_agent q then refuse 403 ''agents_cannot_bootstrap_org'' y
          else (case bootstrap_admin_gate directory org q of
             Some e \<Rightarrow> (Inl e, y)
           | None \<Rightarrow>
               (case trunk_tip (sv_gate sv) (sy_repo y) of
                  None \<Rightarrow>
                    (case seed_genesis h (org_display_name org) (pn_name q) (sy_repo y) of
                       (False, w) \<Rightarrow> broken (y\<lparr>sy_repo := w\<rparr>)
                     | (True, w) \<Rightarrow> (Inr SeededGenesis, y\<lparr>sy_repo := w\<rparr>))
                | Some base \<Rightarrow>
                    (case rd_index (gt_reads (sv_gate sv)) (sy_repo y) base of
                       None \<Rightarrow> broken y
                     | Some ps \<Rightarrow>
                         if list_ex (\<lambda>x. ip_owners x \<noteq> []) ps then refuse 409 ''already_governed'' y
                         else
                           (let has_root = list_ex (\<lambda>x. ip_path x = [] \<or> ip_path x = ''.'') ps;
                                files = governance_files h (org_display_name org) (pn_name q) has_root;
                                key = generate_change_id (''org-bootstrap|'' @ base @ ''|'' @ og_stamp og now);
                                title = ''Bootstrap org governance: root OWNERS ('' @ pn_name q @ '')''
                            in case author_change sv og now (Some q) key base title (bootstrap_message title key)
                                      (map (\<lambda>(x, content). PutFile x content) files) (map fst files) y of
                                 (Inl e, y1) \<Rightarrow> (Inl e, y1) | (Inr c, y1) \<Rightarrow> (Inr (BootstrapChange c), y1))))))"

section \<open>Laws of the overlay commands\<close>

text \<open>Writing blobs and trees moves no ref; setting a ref moves that ref only, and rewrites no object.\<close>

definition og_laws :: "'w git \<Rightarrow> 'w overlay_git \<Rightarrow> bool" where
  "og_laws g og \<longleftrightarrow>
     (\<forall>c w r. g_resolve g (snd (og_hash og c w)) r = g_resolve g w r)
   \<and> (\<forall>idx w r. g_resolve g (snd (og_write_tree og idx w)) r = g_resolve g w r)
   \<and> (\<forall>r sha w. let (ok, w') = og_set_ref og r sha w in
        (\<forall>r'. g_resolve g w' r' = (if ok \<and> r' = r then Some sha else g_resolve g w r')) \<and> (\<forall>x. g_lookup g w' x = g_lookup g w x))"

lemma og_laws_set:
  assumes "og_laws g og" "og_set_ref og r sha w = (ok, w')"
  shows "g_resolve g w' r' = (if ok \<and> r' = r then Some sha else g_resolve g w r')" "g_lookup g w' x = g_lookup g w x"
proof -
  have "let (ok, w') = og_set_ref og r sha w in
      (\<forall>r'. g_resolve g w' r' = (if ok \<and> r' = r then Some sha else g_resolve g w r')) \<and> (\<forall>x. g_lookup g w' x = g_lookup g w x)"
    using assms(1) unfolding og_laws_def by blast
  then show "g_resolve g w' r' = (if ok \<and> r' = r then Some sha else g_resolve g w r')" "g_lookup g w' x = g_lookup g w x"
    using assms(2) by simp_all
qed

lemma overlay_index_frame:
  assumes "og_laws g og"
  shows "overlay_index og cs idx w = (res, w') \<Longrightarrow> g_resolve g w' r = g_resolve g w r"
proof (induction cs arbitrary: idx w)
  case (Cons c cs)
  show ?case
  proof (cases c)
    case (PutFile p content)
    obtain x w1 where h: "og_hash og content w = (x, w1)" by (cases "og_hash og content w")
    have "g_resolve g (snd (og_hash og content w)) r = g_resolve g w r" using assms unfolding og_laws_def by blast
    then have w1: "g_resolve g w1 r = g_resolve g w r" using h by simp
    show ?thesis using Cons.prems Cons.IH [of _ w1] w1 h PutFile by (auto split: option.splits if_splits)
  next
    case (RemoveFile p)
    then show ?thesis using Cons.prems Cons.IH [of _ w] by (auto split: if_splits)
  qed
qed simp

lemma commit_overlay_effect:
  assumes laws: "git_laws g" "og_laws g og" and run: "commit_overlay og g base overlay author msg w = (res, w')"
  shows "g_resolve g w' r = g_resolve g w r"
    "res = Some sha \<Longrightarrow> valid_oid sha \<and> (\<exists>c. g_lookup g w' sha = Some c \<and> co_parent c = (if base = [] then None else Some base)
       \<and> co_message c = msg \<and> (id_name author \<noteq> [] \<longrightarrow> id_name (co_author c) = id_name author))"
proof -
  define start where "start = (if base = [] then Some gm_empty else og_read_tree og w base)"
  have "g_resolve g w' r = g_resolve g w r \<and> (\<forall>sha. res = Some sha \<longrightarrow> valid_oid sha \<and> (\<exists>c. g_lookup g w' sha = Some c
      \<and> co_parent c = (if base = [] then None else Some base) \<and> co_message c = msg \<and> (id_name author \<noteq> [] \<longrightarrow> id_name (co_author c) = id_name author)))"
  proof (cases start)
    case None
    then show ?thesis using run by (simp add: commit_overlay_def start_def)
  next
    case (Some idx)
    obtain idx1 w1 where o: "overlay_index og overlay idx w = (idx1, w1)" by (cases "overlay_index og overlay idx w")
    note w1 = overlay_index_frame [OF laws(2) o, of r]
    show ?thesis
    proof (cases idx1)
      case None
      then show ?thesis using run Some o w1 by (simp add: commit_overlay_def start_def)
    next
      case (Some idx2)
      obtain tree w2 where t: "og_write_tree og idx2 w1 = (tree, w2)" by (cases "og_write_tree og idx2 w1")
      have "g_resolve g (snd (og_write_tree og idx2 w1)) r = g_resolve g w1 r" using laws(2) unfolding og_laws_def by blast
      then have w2: "g_resolve g w2 r = g_resolve g w r" using t w1 by simp
      show ?thesis
      proof (cases tree)
        case None
        then show ?thesis using run \<open>start = Some idx\<close> o Some t w2 by (simp add: commit_overlay_def start_def)
      next
        case (Some tr)
        define who where "who = \<lparr>id_name = (if id_name author = [] then ''Runko'' else id_name author),
            id_email = (if id_email author = [] then ''runko@localhost'' else id_email author)\<rparr>"
        define c where "c = \<lparr>co_tree = tr, co_parent = (if base = [] then None else Some base), co_message = msg, co_author = who, co_committer = who\<rparr>"
        have "g_commit_tree g c w2 = (res, w')"
          using run \<open>start = Some idx\<close> o \<open>idx1 = Some idx2\<close> t Some by (simp add: commit_overlay_def start_def c_def who_def Let_def)
        then show ?thesis
          using git_laws_commit [OF laws(1), of c w2] w2 by (auto simp: c_def who_def)
      qed
    qed
  qed
  then show "g_resolve g w' r = g_resolve g w r"
    "res = Some sha \<Longrightarrow> valid_oid sha \<and> (\<exists>c. g_lookup g w' sha = Some c \<and> co_parent c = (if base = [] then None else Some base)
       \<and> co_message c = msg \<and> (id_name author \<noteq> [] \<longrightarrow> id_name (co_author c) = id_name author))"
    by blast+
qed

lemma enqueue_updated_rows: "get_change (enqueue_change_updated h now c r s) k = get_change s k"
  by (simp add: enqueue_change_updated_def enqueue_envelope_def enqueue_payload_def enqueue_webhook_def get_change_def Let_def split: option.split)

lemma announce_change_frame [simp]:
  "sy_repo (announce_change sv now c paths y) = sy_repo y"
  "get_change (sy_store (announce_change sv now c paths y)) k = get_change (sy_store y) k"
  by (auto simp: announce_change_def set_store_def enqueue_updated_rows split: option.split)

text \<open>What authoring a Change leaves behind.\<close>

definition authored :: "'w git \<Rightarrow> caller option \<Rightarrow> string \<Rightarrow> string \<Rightarrow> mem_store \<Rightarrow> change \<Rightarrow> 'w sys \<Rightarrow> bool" where
  "authored g p base key s0 c y' \<longleftrightarrow>
     ch_base c = base \<and> ch_git_ref c = change_ref key \<and> ch_authored_by c = caller_name p
     \<and> get_change (sy_store y') key = Some c
     \<and> (get_change s0 key = None \<longrightarrow> ch_key c = key \<and> ch_state c = state_open)
     \<and> g_resolve g (sy_repo y') (change_ref key) = Some (ch_head c)
     \<and> (\<exists>co. g_lookup g (sy_repo y') (ch_head c) = Some co \<and> co_parent co = (if base = [] then None else Some base)
          \<and> suffix (''Change-Id: '' @ key @ [newline]) (co_message co))"

lemma author_change_effect:
  assumes laws: "git_laws (gt_git (sv_gate sv))" "og_laws (gt_git (sv_gate sv)) og"
    and run: "author_change sv og now p key base title msg overlay paths y = (Inr c, y')"
    and msg: "suffix (''Change-Id: '' @ key @ [newline]) msg"
  shows "authored (gt_git (sv_gate sv)) p base key (sy_store y) c y'"
    "r \<noteq> change_ref key \<Longrightarrow> g_resolve (gt_git (sv_gate sv)) (sy_repo y') r = g_resolve (gt_git (sv_gate sv)) (sy_repo y) r"
proof -
  let ?g = "gt_git (sv_gate sv)"
  obtain res w where cm: "commit_overlay og ?g base overlay (web_author p) msg (sy_repo y) = (res, w)"
    by (cases "commit_overlay og ?g base overlay (web_author p) msg (sy_repo y)")
  then obtain sha where sha: "res = Some sha" using run by (cases res) (auto simp: author_change_def broken_def)
  obtain w1 where set: "og_set_ref og (change_ref key) sha w = (True, w1)"
  proof (cases "og_set_ref og (change_ref key) sha w")
    case (Pair ok w1)
    then show thesis using run cm sha that by (cases ok) (auto simp: author_change_def broken_def)
  qed
  define pf where "pf = \<lparr>pf_base = base, pf_head = sha, pf_git_ref = change_ref key, pf_title = title, pf_author = caller_name p, pf_workspace = [], pf_branch = []\<rparr>"
  define row where "row = (case get_change (sy_store y) key of Some existing \<Rightarrow> amend_change pf existing | None \<Rightarrow> new_change key pf)"
  have out: "c = row" "y' = announce_change sv now row paths (y\<lparr>sy_repo := w1, sy_store := put_change row key (sy_store y)\<rparr>)"
  proof -
    have upd: "create_or_update_change key pf (sy_store y) = (Inr row, put_change row key (sy_store y))"
      by (simp add: create_or_update_change_def row_def Let_def)
    have "author_change sv og now p key base title msg overlay paths y
        = (Inr row, announce_change sv now row paths (y\<lparr>sy_repo := w1, sy_store := put_change row key (sy_store y)\<rparr>))"
      unfolding author_change_def cm sha prod.case option.case set bool.case pf_def [symmetric] upd sum.case by simp
    then show "c = row" "y' = announce_change sv now row paths (y\<lparr>sy_repo := w1, sy_store := put_change row key (sy_store y)\<rparr>)"
      using run by simp_all
  qed
  have repo: "sy_repo y' = w1" and rows: "get_change (sy_store y') key = Some row" by (simp_all add: out get_put_change)
  note eff = commit_overlay_effect [OF laws cm] and moved = og_laws_set [OF laws(2) set]
  obtain co where co: "g_lookup ?g w sha = Some co" "co_parent co = (if base = [] then None else Some base)" "co_message co = msg"
    using eff(2) [OF sha] by blast
  have fields: "ch_base row = base" "ch_head row = sha" "ch_git_ref row = change_ref key" "ch_authored_by row = caller_name p"
    by (auto simp: row_def pf_def amend_change_def new_change_def Let_def split: option.split)
  have fresh: "get_change (sy_store y) key = None \<Longrightarrow> ch_key row = key \<and> ch_state row = state_open"
    by (simp add: row_def new_change_def)
  show "authored ?g p base key (sy_store y) c y'"
    unfolding authored_def repo using fields rows fresh co msg moved by (auto simp: out(1))
  show "g_resolve ?g (sy_repo y') r = g_resolve ?g (sy_repo y) r" if "r \<noteq> change_ref key"
    unfolding repo moved(1) eff(1) using that by simp
qed

section \<open>Changes of the daemon are ordinary Changes\<close>

inductive daemon_authors :: "'w server \<Rightarrow> 'w overlay_git \<Rightarrow> 'w sys \<Rightarrow> caller option \<Rightarrow> 'w \<Rightarrow> change \<Rightarrow> 'w sys \<Rightarrow> bool" for sv og where
  create: "create_project marshal sv og now env i p y = (Inr c, y') \<Longrightarrow> daemon_authors sv og y p (env (sy_repo y)) c y'"
| delete: "delete_project sv og n now env name p y = Some (Inr c, y') \<Longrightarrow> daemon_authors sv og y p (env (sy_repo y)) c y'"
| bootstrap: "bootstrap_org sv og h directory now p y = (Inr (BootstrapChange c), y') \<Longrightarrow> daemon_authors sv og y p (sy_repo y) c y'"

lemma trailer_suffix: "suffix (''Change-Id: '' @ key @ [newline]) (trailer_message title key)"
  by (simp add: trailer_message_def suffix_def)

lemma bootstrap_suffix: "suffix (''Change-Id: '' @ key @ [newline]) (bootstrap_message title key)"
  by (simp add: bootstrap_message_def suffix_def)

lemma create_project_parts:
  assumes "create_project marshal sv og now env i p y = (Inr c, y')"
  obtains base key title msg overlay paths where "base = (case trunk_tip (sv_gate sv) (env (sy_repo y)) of None \<Rightarrow> [] | Some tip \<Rightarrow> tip)"
    "suffix (''Change-Id: '' @ key @ [newline]) msg"
    "author_change sv og now p key base title msg overlay paths (y\<lparr>sy_repo := env (sy_repo y)\<rparr>) = (Inr c, y')"
proof (cases "preview_project marshal sv i (sy_repo y)")
  case (Inr plan)
  then show thesis using assms by (intro that [OF refl trailer_suffix]) (auto simp: create_project_def Let_def)
qed (use assms in \<open>simp add: create_project_def\<close>)

lemma delete_project_parts:
  assumes "delete_project sv og n now env name p y = Some (Inr c, y')"
  obtains base key title msg overlay paths where "trunk_tip (sv_gate sv) (env (sy_repo y)) = Some base" "\<forall>q. p = Some q \<longrightarrow> \<not> pn_is_agent q"
    "suffix (''Change-Id: '' @ key @ [newline]) msg"
    "author_change sv og now p key base title msg overlay paths (y\<lparr>sy_repo := env (sy_repo y)\<rparr>) = (Inr c, y')"
proof -
  have human: "\<not> (case p of None \<Rightarrow> False | Some q \<Rightarrow> pn_is_agent q)"
    using assms by (auto simp: delete_project_def refuse_def split: if_splits)
  have run: "delete_project sv og n now env name p y = (case preview_delete sv og n name (sy_repo y) of
       None \<Rightarrow> None
     | Some (Inl e) \<Rightarrow> Some (Inl e, y)
     | Some (Inr plan) \<Rightarrow>
         (let y = y\<lparr>sy_repo := env (sy_repo y)\<rparr> in
          case trunk_tip (sv_gate sv) (sy_repo y) of
            None \<Rightarrow> Some (broken y)
          | Some base \<Rightarrow>
              (let key = generate_change_id (''delete|'' @ dp_path plan @ ''|'' @ base @ ''|'' @ og_stamp og now);
                   title = ''Delete project '' @ name
               in Some (author_change sv og now p key base title (trailer_message title key) (map delete_change (dp_ops plan))
                    (map op_path (dp_ops plan)) y))))"
    using human unfolding delete_project_def by simp
  obtain plan where plan: "preview_delete sv og n name (sy_repo y) = Some (Inr plan)"
    using assms unfolding run by (auto split: option.splits sum.splits)
  obtain base where base: "trunk_tip (sv_gate sv) (env (sy_repo y)) = Some base"
    using assms unfolding run plan by (cases "trunk_tip (sv_gate sv) (env (sy_repo y))") (auto simp: broken_def Let_def)
  show thesis
    using assms human unfolding run plan
    by (intro that [OF base _ trailer_suffix]) (auto simp: base Let_def split: option.splits)
qed

text \<open>A bootstrap asks for a human with a name, an administrator where roles exist, and a tree without owners.\<close>

lemma bootstrap_parts:
  assumes "bootstrap_org sv og h directory now p y = (Inr (BootstrapChange c), y')"
  obtains q base ps key title msg overlay paths where "p = Some q" "\<not> pn_is_agent q" "bootstrap_admin_gate directory (hk_org (sv_hooks sv)) q = None"
    "trunk_tip (sv_gate sv) (sy_repo y) = Some base" "rd_index (gt_reads (sv_gate sv)) (sy_repo y) base = Some ps" "\<forall>x\<in>set ps. ip_owners x = []"
    "suffix (''Change-Id: '' @ key @ [newline]) msg" "author_change sv og now p key base title msg overlay paths y = (Inr c, y')"
proof (cases p)
  case None
  then show thesis using assms by (simp add: bootstrap_org_def refuse_def)
next
  case (Some q)
  have human: "\<not> pn_is_agent q" using assms Some by (auto simp: bootstrap_org_def refuse_def Let_def)
  have admin: "bootstrap_admin_gate directory (hk_org (sv_hooks sv)) q = None"
    using assms Some human by (cases "bootstrap_admin_gate directory (hk_org (sv_hooks sv)) q") (auto simp: bootstrap_org_def Let_def)
  obtain base where base: "trunk_tip (sv_gate sv) (sy_repo y) = Some base"
    using assms Some human admin
    by (cases "trunk_tip (sv_gate sv) (sy_repo y)") (auto simp: bootstrap_org_def Let_def broken_def split: prod.splits bool.splits)
  obtain ps where ps: "rd_index (gt_reads (sv_gate sv)) (sy_repo y) base = Some ps"
    using assms Some human admin base
    by (cases "rd_index (gt_reads (sv_gate sv)) (sy_repo y) base") (auto simp: bootstrap_org_def Let_def broken_def)
  have bare: "\<not> list_ex (\<lambda>x. ip_owners x \<noteq> []) ps"
    using assms Some human admin base ps by (auto simp: bootstrap_org_def Let_def refuse_def)
  show thesis
    using assms Some human admin base ps bare
    by (intro that [OF Some human admin base ps _ bootstrap_suffix]) (auto simp: bootstrap_org_def Let_def list_ex_iff split: prod.splits sum.splits)
qed

lemma trunk_not_change_ref: "trunk_ref g \<noteq> change_ref key"
  by (simp add: trunk_ref_def trunk_ref_name_def change_ref_def)

text \<open>C21. What the daemon writes for a caller is a Change to review: when it creates a project, deletes one or bootstraps
  the governance of an org whose trunk is born, no ref moves but the Change's own, so trunk stays where it was when
  the Change was written; the Change has trunk's tip as its base, carries the caller's name, and is open when its
  id is new; its head is the commit its ref has, which has the base as its parent and ends with the Change-Id. (An org
  with an unborn trunk is bootstrapped by a first commit on trunk itself, which is not of this theorem.)\<close>

theorem server_changes_reviewable:
  assumes laws: "git_laws (gt_git (sv_gate sv))" "og_laws (gt_git (sv_gate sv)) og" and run: "daemon_authors sv og y p w c y'"
  shows "\<exists>base key. (trunk_tip (sv_gate sv) w = Some base \<or> trunk_tip (sv_gate sv) w = None \<and> base = [])
      \<and> authored (gt_git (sv_gate sv)) p base key (sy_store y) c y'
      \<and> trunk_tip (sv_gate sv) (sy_repo y') = trunk_tip (sv_gate sv) w
      \<and> (\<forall>r. r \<noteq> change_ref key \<longrightarrow> g_resolve (gt_git (sv_gate sv)) (sy_repo y') r = g_resolve (gt_git (sv_gate sv)) w r)"
proof -
  have tip: "trunk_tip (sv_gate sv) (sy_repo y') = trunk_tip (sv_gate sv) w"
    if "\<And>r. r \<noteq> change_ref key \<Longrightarrow> g_resolve (gt_git (sv_gate sv)) (sy_repo y') r = g_resolve (gt_git (sv_gate sv)) w r" for w key
    using that [OF trunk_not_change_ref] by (simp add: trunk_tip_def)
  from run show ?thesis
  proof cases
    case (create marshal now env i)
    obtain base key title msg overlay paths where b: "base = (case trunk_tip (sv_gate sv) (env (sy_repo y)) of None \<Rightarrow> [] | Some tip \<Rightarrow> tip)"
      and m: "suffix (''Change-Id: '' @ key @ [newline]) msg"
      and a: "author_change sv og now p key base title msg overlay paths (y\<lparr>sy_repo := env (sy_repo y)\<rparr>) = (Inr c, y')"
      using create_project_parts [OF create(2)] .
    note eff = author_change_effect [OF laws a m]
    show ?thesis using b eff(1) eff(2) tip [of key w] create(1) by (intro exI [of _ base] exI [of _ key]) (auto split: option.splits)
  next
    case (delete n now env name)
    obtain base key title msg overlay paths where b: "trunk_tip (sv_gate sv) (env (sy_repo y)) = Some base"
      and m: "suffix (''Change-Id: '' @ key @ [newline]) msg"
      and a: "author_change sv og now p key base title msg overlay paths (y\<lparr>sy_repo := env (sy_repo y)\<rparr>) = (Inr c, y')"
      using delete_project_parts [OF delete(2)] by metis
    note eff = author_change_effect [OF laws a m]
    show ?thesis using b eff(1) eff(2) tip [of key w] delete(1) by (intro exI [of _ base] exI [of _ key]) auto
  next
    case (bootstrap h directory now)
    obtain base key title msg overlay paths where b: "trunk_tip (sv_gate sv) (sy_repo y) = Some base"
      and m: "suffix (''Change-Id: '' @ key @ [newline]) msg" and a: "author_change sv og now p key base title msg overlay paths y = (Inr c, y')"
      using bootstrap_parts [OF bootstrap(2)] by metis
    note eff = author_change_effect [OF laws a m]
    show ?thesis using b eff(1) eff(2) tip [of key w] bootstrap(1) by (intro exI [of _ base] exI [of _ key]) auto
  qed
qed

lemma deletion_needs_human: "delete_project sv og n now env name (Some q) y = Some (Inr c, y') \<Longrightarrow> \<not> pn_is_agent q"
  using delete_project_parts [of sv og n now env name "Some q" y c y'] by metis

text \<open>Who may bootstrap: a born org gets its first owners only from a named human, an administrator where the org has
  roles, and only while no project of the tree has an owner.\<close>

theorem bootstrap_only_ownerless:
  assumes run: "bootstrap_org sv og h directory now p y = (Inr (BootstrapChange c), y')"
  shows "\<exists>q base ps. p = Some q \<and> \<not> pn_is_agent q
    \<and> (\<forall>d. directory = Some d \<and> pn_stored q \<and> hk_org (sv_hooks sv) \<noteq> [] \<longrightarrow> org_member_role d (hk_org (sv_hooks sv)) (pn_name q) = Some ''admin'')
    \<and> trunk_tip (sv_gate sv) (sy_repo y) = Some base \<and> rd_index (gt_reads (sv_gate sv)) (sy_repo y) base = Some ps \<and> (\<forall>x\<in>set ps. ip_owners x = [])"
proof -
  obtain q base ps where b: "p = Some q" "\<not> pn_is_agent q" "bootstrap_admin_gate directory (hk_org (sv_hooks sv)) q = None"
    "trunk_tip (sv_gate sv) (sy_repo y) = Some base" "rd_index (gt_reads (sv_gate sv)) (sy_repo y) base = Some ps" "\<forall>x\<in>set ps. ip_owners x = []"
    using bootstrap_parts [OF run] by metis
  then show ?thesis by (auto simp: bootstrap_admin_gate_def split: option.splits if_splits)
qed

section \<open>A plan that went stale\<close>

text \<open>The plan of a deletion is made on one tip and committed on the next: what landed in between on a manifest that is
  struck is overwritten by the text read before. And a manifest under the deleted directory that names the project is deleted first
  and then written again, so it survives.\<close>

lemma deletion_plan_stale:
  assumes "preview_delete sv og n name (sy_repo y) = Some (Inr plan)" "trunk_tip (sv_gate sv) (env (sy_repo y)) = Some base" "\<not> pn_is_agent q"
  shows "\<exists>key title msg. delete_project sv og n now env name (Some q) y =
      Some (author_change sv og now (Some q) key base title msg (map delete_change (dp_ops plan)) (map op_path (dp_ops plan)) (y\<lparr>sy_repo := env (sy_repo y)\<rparr>))"
  using assms by (auto simp: delete_project_def Let_def)

lemma struck_manifest_survives:
  assumes "overlay_index og (map delete_change [DeletePath f, ModifyFile f content]) idx w = (Some idx1, w1)"
  shows "gm_get idx1 f \<noteq> None"
  using assms by (cases "og_hash og content w"; cases "fst (og_hash og content w)") (auto simp: delete_change_def split: if_splits)

section \<open>A small daemon\<close>

definition demo_og :: "repo overlay_git" where
  "demo_og = \<lparr>og_read_tree = (\<lambda>w x. Some gm_empty), og_hash = (\<lambda>c w. (Some ''b'', w)), og_takes = (\<lambda>_ _. True),
     og_write_tree = (\<lambda>idx w. (Some ''t'', w)),
     og_set_ref = (\<lambda>r x w. if valid_oid x then (True, w\<lparr>rp_refs := gm_put (rp_refs w) r x\<rparr>) else (False, w)),
     og_store = (\<lambda>w x. \<lparr>ts_tree = (\<lambda>_. None), ts_blob = (\<lambda>_. None)\<rparr>), og_stamp = (\<lambda>_. ''noon'')\<rparr>"

definition demo_ownerless :: "repo server" where
  "demo_ownerless = demo_daemon\<lparr>sv_gate := demo_gate\<lparr>gt_reads := demo_reads\<rparr>, sv_processor := False\<rparr>"

lemma demo_og_laws: "og_laws (gt_git demo_gate) demo_og"
  unfolding og_laws_def demo_git by (simp add: demo_og_def repo_git_def)

lemma demo_ownerless_gate: "gt_git (sv_gate demo_ownerless) = gt_git demo_gate" "gt_reads (sv_gate demo_ownerless) = demo_reads"
  "trunk_tip (sv_gate demo_ownerless) demo_repo = Some ''c1''" "sv_processor demo_ownerless = False"
  using demo_tip by (simp_all add: demo_ownerless_def trunk_tip_def trunk_ref_def demo_gate_def demo_server_def trunk_ref_name_def repo_git_def)

lemma demo_overlay: "overlay_index demo_og (map (\<lambda>(p, c). PutFile p c) fs) idx w = (Some (fold (\<lambda>(p, c) i. gm_put i p ''b'') fs idx), w)"
  by (induction fs arbitrary: idx) (auto simp: demo_og_def)

lemma demo_commit:
  assumes "base \<noteq> []"
  obtains w' where "commit_overlay demo_og (gt_git demo_gate) base (map (\<lambda>(p, c). PutFile p c) fs) who msg w = (Some (repo_oid (rp_count w)), w')"
proof -
  have "g_commit_tree (gt_git demo_gate) c w = (Some (repo_oid (rp_count w)), snd (g_commit_tree (gt_git demo_gate) c w))" for c
    by (simp add: demo_git repo_git_def)
  note commit = this
  have og: "og_read_tree demo_og w base = Some gm_empty" "og_write_tree demo_og idx w = (Some ''t'', w)" for idx by (simp_all add: demo_og_def)
  define tree_commit where "tree_commit = (\<lambda>author. \<lparr>co_tree = ''t'', co_parent = Some base, co_message = msg, co_author = author, co_committer = author\<rparr>)"
  define author where "author = \<lparr>id_name = (if id_name who = [] then ''Runko'' else id_name who), id_email = (if id_email who = [] then ''runko@localhost'' else id_email who)\<rparr>"
  have "commit_overlay demo_og (gt_git demo_gate) base (map (\<lambda>(p, c). PutFile p c) fs) who msg w = g_commit_tree (gt_git demo_gate) (tree_commit author) w"
    using assms by (simp add: commit_overlay_def demo_overlay og tree_commit_def author_def Let_def)
  then show thesis using that commit [of "tree_commit author"] by metis
qed

lemma demo_author:
  assumes "base \<noteq> []"
  obtains c y' where "author_change demo_ownerless demo_og now p key base title msg (map (\<lambda>(p, c). PutFile p c) fs) paths y = (Inr c, y')"
proof -
  obtain w' where w': "commit_overlay demo_og (gt_git demo_gate) base (map (\<lambda>(p, c). PutFile p c) fs) (web_author p) msg (sy_repo y)
      = (Some (repo_oid (rp_count (sy_repo y))), w')"
    using demo_commit [OF assms] .
  have "og_set_ref demo_og r (repo_oid n) w = (True, w\<lparr>rp_refs := gm_put (rp_refs w) r (repo_oid n)\<rparr>)" for r n w
    by (simp add: demo_og_def repo_oid_valid)
  then show thesis using that w' by (simp add: author_change_def demo_ownerless_gate create_or_update_change_def Let_def)
qed

definition demo_bare_sys :: "repo sys" where
  "demo_bare_sys = demo_sys\<lparr>sy_repo := demo_repo\<rparr>"

lemma demo_bootstrap:
  obtains c y' where "bootstrap_org demo_ownerless demo_og demo_hub None 0 (Some (demo_caller ''ann'' False False)) demo_bare_sys = (Inr (BootstrapChange c), y')"
proof -
  have q: "pn_name (demo_caller ''ann'' False False) = ''ann''" "\<not> pn_is_agent (demo_caller ''ann'' False False)" by (simp_all add: demo_caller_def)
  have y: "sy_repo demo_bare_sys = demo_repo" by (simp add: demo_bare_sys_def)
  define fs where "fs = governance_files demo_hub (org_display_name (hk_org (sv_hooks demo_ownerless))) ''ann'' False"
  define key where "key = generate_change_id (''org-bootstrap|'' @ ''c1'' @ ''|'' @ og_stamp demo_og 0)"
  define title where "title = ''Bootstrap org governance: root OWNERS ('' @ ''ann'' @ '')''"
  have run: "bootstrap_org demo_ownerless demo_og demo_hub None 0 (Some (demo_caller ''ann'' False False)) demo_bare_sys =
      (case author_change demo_ownerless demo_og 0 (Some (demo_caller ''ann'' False False)) key ''c1'' title (bootstrap_message title key)
              (map (\<lambda>(x, content). PutFile x content) fs) (map fst fs) demo_bare_sys of
         (Inl e, y1) \<Rightarrow> (Inl e, y1) | (Inr c, y1) \<Rightarrow> (Inr (BootstrapChange c), y1))"
    unfolding bootstrap_org_def Let_def option.case y demo_ownerless_gate q(1) fs_def key_def title_def
    using q(2) by (simp add: bootstrap_admin_gate_def demo_reads_def)
  obtain c y' where "author_change demo_ownerless demo_og 0 (Some (demo_caller ''ann'' False False)) key ''c1'' title (bootstrap_message title key)
      (map (\<lambda>(x, content). PutFile x content) fs) (map fst fs) demo_bare_sys = (Inr c, y')"
    by (rule demo_author [where base = "''c1''"]) simp
  then show thesis using run that by simp
qed

lemma server_changes_reviewable_witness:
  "\<exists>c y'. daemon_authors demo_ownerless demo_og demo_bare_sys (Some (demo_caller ''ann'' False False)) demo_repo c y'
     \<and> ch_base c = ''c1'' \<and> trunk_tip (sv_gate demo_ownerless) (sy_repo y') = Some ''c1''"
proof -
  obtain c y' where "bootstrap_org demo_ownerless demo_og demo_hub None 0 (Some (demo_caller ''ann'' False False)) demo_bare_sys = (Inr (BootstrapChange c), y')"
    using demo_bootstrap .
  then have by_daemon: "daemon_authors demo_ownerless demo_og demo_bare_sys (Some (demo_caller ''ann'' False False)) demo_repo c y'"
    using daemon_authors.bootstrap by (metis demo_bare_sys_def sys.select_convs(2) sys.surjective sys.update_convs(2))
  have laws: "git_laws (gt_git (sv_gate demo_ownerless))" "og_laws (gt_git (sv_gate demo_ownerless)) demo_og"
    using demo_git_laws demo_og_laws by (simp_all add: demo_ownerless_gate)
  show ?thesis using server_changes_reviewable [OF laws by_daemon] by_daemon by (auto simp: demo_ownerless_gate authored_def)
qed

lemma bootstrap_only_ownerless_witness:
  "\<exists>c y' q ps. bootstrap_org demo_ownerless demo_og demo_hub None 0 (Some q) demo_bare_sys = (Inr (BootstrapChange c), y')
     \<and> \<not> pn_is_agent q \<and> rd_index demo_reads demo_repo ''c1'' = Some ps \<and> (\<forall>x\<in>set ps. ip_owners x = [])"
proof -
  obtain c y' where run: "bootstrap_org demo_ownerless demo_og demo_hub None 0 (Some (demo_caller ''ann'' False False)) demo_bare_sys = (Inr (BootstrapChange c), y')"
    using demo_bootstrap .
  show ?thesis using run bootstrap_only_ownerless [OF run] by (auto simp: demo_ownerless_gate demo_bare_sys_def)
qed

end
