(* ===== verification/Spec2Isabelle.thy ===== *)
theory Spec2Isabelle
  imports Affected Checks Index Contract Deploy Receive StoreInvariant Sync Diff Release Hub Activity Mirror Watchdog Scaffold DeletePlan ProjectChange
begin

text \<open>
  A verification development for Runko, a monorepo control plane written in Go: a daemon (\<open>runkod\<close>) in
  front of one git repository, and the pure packages under \<open>platform/\<close> that decide what the daemon does.

  The program. A developer or an agent pushes commits to the magic ref \<open>refs/for/<trunk>\<close>. The daemon's
  pre-receive hook inspects the push, refuses it whole or turns every commit with a Change-Id into a
  Change: a row in the store and a stable ref. Checks report on a Change, owners approve it, and the
  merge gate says whether it may land; landing rebases it onto trunk and moves trunk by compare-and-swap.
  Which checks and which owners a Change needs follows from the projects its paths affect, which the
  daemon reads from the \<open>PROJECT.yaml\<close> manifests of the tree at hand. Landed Changes rebuild images and
  leave a deploy record; events leave through an outbox of signed webhooks.

  Theories and code, from the bottom up.

  \<^item> \<open>Prelude\<close>: Go maps as association lists with distinct keys (\<open>gm_get\<close>, \<open>gm_put\<close>, \<open>gm_del\<close>; the locale
    \<open>keyed_map\<close> states their laws), pages, sorted string sets, and the collection \<open>gomap_simps\<close>.
  \<^item> \<open>GoLib\<close>, \<open>Sha\<close>: what the code uses of \<open>strings\<close>, \<open>path\<close>, \<open>strconv\<close>, \<open>regexp\<close>, \<open>crypto/sha1\<close>, \<open>crypto/sha256\<close>
    and HMAC; the locale \<open>longest_owner\<close> is the contract of every longest-prefix search in the program,
    interpreted for the three the code has.
  \<^item> \<open>Affected\<close>: \<open>platform/affected/compute.go\<close>; \<open>Checks\<close>: \<open>platform/checks\<close>; \<open>Index\<close>: \<open>platform/index\<close>;
    \<open>Contract\<close>: \<open>platform/contract\<close>; \<open>Deploy\<close>: \<open>platform/deploy\<close>; \<open>Receive\<close>: \<open>platform/receive\<close>;
    \<open>Land\<close>: \<open>platform/land\<close> and the retry loop of \<open>runkod/land.go\<close>. Each function is one definition.
  \<^item> \<open>StoreTypes\<close>, \<open>ChangeStore\<close>, \<open>DeployStore\<close>, \<open>ActivityStore\<close>, \<open>Outbox\<close>, \<open>DirectoryStore\<close>: \<open>MemStore\<close> of
    \<open>runkod/store.go\<close>. The record \<open>mem_store\<close> has one field per Go field; a method that changes state is a
    function \<open>s \<Rightarrow> result \<times> s\<close>, with errors as the left of a sum. The mutex makes each method one step.
    \<open>Outbox\<close> also has the delivery worker and the invitation feed around it.
  \<^item> \<open>StoreMachine\<close>, \<open>StoreInvariant\<close>: every such method as an operation of a step relation, reachability, the
    type invariant of the store by rule induction, and the life cycle of a Change as an automaton the
    store refines.
  \<^item> \<open>Gate\<close>: the merge gate, \<open>handleGetMergeRequirements\<close>'s core in \<open>runkod/api.go\<close> with \<open>review.go\<close>,
    \<open>history.go\<close>, \<open>principal.go\<close> and \<open>botlane.go\<close>; the record \<open>gate\<close> is the server's configuration.
  \<^item> \<open>EventBus\<close>, \<open>Hooks\<close>: the live feed and the webhook envelopes with their signature.
  \<^item> \<open>Actions\<close>, \<open>Landing\<close>: the decision cores of \<open>runkod/actions.go\<close>, \<open>automerge.go\<close>, \<open>describe.go\<close>,
    \<open>landstack.go\<close> and \<open>land.go\<close>. The record \<open>sys\<close> holds what they change: the store, the repository, the live
    feed, the automerge kick. A core is a function \<open>sys \<Rightarrow> reply\<close>, and a refusal is its status and code.
  \<^item> \<open>Push\<close>, \<open>Carry\<close>, \<open>Funnel\<close>, \<open>FunnelLaws\<close>: the daemon's receive path, \<open>runkod/prereceive.go\<close> with \<open>tags.go\<close>,
    \<open>trivialrebase.go\<close> and what it reads of \<open>workspace.go\<close>.
  \<^item> \<open>Sync\<close>: stacks (\<open>stackForChange\<close> in \<open>runkod/rpc.go\<close>) and their server-side rebase (\<open>sync.go\<close>).
  \<^item> \<open>History\<close>, \<open>Diff\<close>: what a reader sees, \<open>runkod/history.go\<close>, \<open>repo.go\<close> and \<open>diff.go\<close>: logs with the Change behind
    each commit, blame, trees and files, the parser of git's diff text.
  \<^item> \<open>Release\<close>: \<open>runkod/release.go\<close> with \<open>platform/project/release.go\<close> and the tags of \<open>internal/gitstore\<close>.
  \<^item> \<open>Workspaces\<close>: \<open>runkod/workspace.go\<close>: branches, the read cone, creation and deletion of workspaces.
  \<^item> \<open>Credential\<close>, \<open>Identity\<close>: password hashes and their cache (\<open>credential.go\<close>), callers, minted agents and accounts
    (\<open>auth.go\<close>, \<open>principal.go\<close>, \<open>agentprincipal.go\<close>, \<open>signup.go\<close>).
  \<^item> \<open>Activity\<close>: the intake of what agents report (\<open>activity.go\<close>).
  \<^item> \<open>Hub\<close>: many orgs in one daemon (\<open>orghub.go\<close>). The record \<open>hub_state\<close> holds the shared store, the mounted orgs and
    the archived ones; its handlers are steps of a relation.
  \<^item> \<open>Mirror\<close>: the outbound mirror (\<open>runkod/mirror.go\<close>, \<open>platform/mirror\<close>), a cursor and a leased push per remote.
  \<^item> \<open>Watchdog\<close>: the CI reconciler (\<open>watchdog/watchdog.go\<close>), sweeps over abstract clients.
  \<^item> \<open>Scaffold\<close>, \<open>DeletePlan\<close>, \<open>ProjectChange\<close>: the plans of \<open>platform/project\<close> for a new and for a deleted project,
    and the Changes the daemon writes from them (\<open>createproject.go\<close>, \<open>deleteproject.go\<close>, \<open>bootstraporg.go\<close>).

  What the lemmas show.

  \<^item> Attribution. Affected sets are the exact closure of what paths touch, monotone and order-independent, and unowned
    paths fail closed. The scan of the tree resolves owners from the nearest OWNERS file and always ends.
  \<^item> Landing. The merge gate is open exactly when each owner, check and guard it names is satisfied; a Change lands
    only through it or forced by the operator's token or an administrator, never from the head of another open Change
    that trunk lacks, and trunk then is its commit. A landing is a compare-and-swap that settles once an attempt is
    undisturbed; stacks land bottom-up; the automerge worker lands only what was armed; a sync moves a whole stack or
    nothing. An approval is under a named caller's own name, or what the deploy token claims, and never the author's.
  \<^item> Pushes. A push is written whole or not at all, an accepted ref has passed the checks of its shape, and right after
    the push a finding of an agent's push shuts the gate. A project is created or deleted, and a born org
    bootstrapped, by a Change that moves no other ref.
  \<^item> Store. It keeps its invariant in every reachable state, the life cycle of a Change is that of the automaton, a landed
    Change stays landed, deliveries settle, deploy records signal once.
  \<^item> Identity. A caller is who the credential opens, a minted agent works from mint to expiry or revocation, hashes read
    back, the handlers on members and settings serve administrators; the router reaches registered orgs only. One
    theorem is of a flaw: an account of the same name in another org is taken for the administrator.
  \<^item> Around. The mirror is overwritten only when it is what the cursor recorded or an unfreeze sanctioned it; the
    watchdog reports what CI says and has one request for a rerun answered; releases are minted once; a workspace goes
    with its branches when they can be listed; diffs are numbered as they count; project plans agree with themselves.

  Where the code does less than its comments say, the lemma next to the property says so by example, and the property
  is stated as the code behaves.

  Parameters. Git is a record of operations on an abstract repository state, with \<open>git_laws\<close> as its
  documented behaviour (refs move by compare-and-swap and nothing else moves them; commits read back as
  written), and \<open>repo_git\<close> a concrete instance that satisfies it; in the receive path it is the text a git
  command line answers. YAML and JSON decoding, \<open>strconv.Quote\<close>, the secret scanner's expressions, the
  clock, random identifiers and HTTP are arguments of the definitions that use them. What other requests do
  between two steps of a handler is an argument too (\<open>outside\<close>): theorems that need quiet say so.

  Bounds and termination. Go's \<open>int\<close> counts are unbounded integers: they count list elements. Loops over
  slices and maps are structural; the walks over parents, stacks and trees terminate by a measure on what
  they have not seen; the landing loop has the code's bound of five attempts and the ancestor walks its bound of 100
  commits. SHA words are 32-bit machine words. The depth of the tree walks in \<open>Index\<close> and \<open>ProjectChange\<close> is an
  argument where the source recurses over a tree that only git bounds; \<open>Index.scan_terminates\<close> shows that
  the height of the tree is enough, and no other definition has a bound that the code does not have.

  Not modelled. \<open>pgstore.go\<close>, \<open>internal/dbgen\<close> and the migrations keep the same interface in SQL, which is not
  Go code to translate; \<open>proto/gen\<close> is generated. The transports (\<open>rpc.go\<close>'s encoders, the HTTP handlers, the smart-HTTP
  and hook processes, \<open>main.go\<close>) only move values in and out of the cores. The command-line clients, the editor bridge,
  the MCP server, the mailer and the GitHub app are separate programs that talk to the daemon; search and the secret
  scanner wrap third-party engines. Log lines, message texts and metrics are left out; where a text carries
  information it is a value of a type. Two requests are interleaved where a handler takes parameters for what others
  do; the mutexes are taken for what they promise.
\<close>

end
